(* ===== verification/Prelude.thy ===== *)
theory Prelude imports Main "HOL-Library.Word" "HOL-Library.List_Lexorder" begin

text \<open>
  The vocabulary every component of the daemon shares: the machine integers of the Rust code as
  words, the checked, saturating and rounding-up arithmetic of the Rust standard library, results
  as sums, big-endian byte strings and the generic facts about them.

  Integers keep their width: \<open>u64\<close> is \<^typ>\<open>64 word\<close>, on which \<open>+\<close> wraps as it does in the
  daemon's release build (\<open>Cargo.toml\<close>, \<open>[profile.release]\<close>, has no overflow checks).  Lengths and
  loop counters of type \<open>usize\<close>, and instants of the monotonic clock, are \<^typ>\<open>nat\<close>.
\<close>

unbundle bit_operations_syntax

type_synonym u8 = "8 word"
type_synonym u16 = "16 word"
type_synonym u32 = "32 word"
type_synonym u64 = "64 word"
type_synonym u128 = "128 word"
type_synonym bytes = "8 word list"

named_theorems result_simps \<open>unfolding of results in sum type\<close>
named_theorems arith_simps \<open>reading of machine arithmetic through unat\<close>

section \<open>Results\<close>

text \<open>The question-mark operator: go on with the value of a result, or return its error.\<close>

definition bind_ok :: "'e + 'a \<Rightarrow> ('a \<Rightarrow> 'e + 'b) \<Rightarrow> 'e + 'b" where
  "bind_ok r f = (case r of Inl e \<Rightarrow> Inl e | Inr x \<Rightarrow> f x)"

lemma bind_ok_simps [simp]:
  "bind_ok (Inl e) f = Inl e"
  "bind_ok (Inr x) f = f x"
  by (simp_all add: bind_ok_def)

lemma bind_ok_eq_Inr [result_simps]: "bind_ok r f = Inr y \<longleftrightarrow> (\<exists>x. r = Inr x \<and> f x = Inr y)"
  by (cases r) auto

lemma bind_ok_eq_Inl [result_simps]:
  "bind_ok r f = Inl e \<longleftrightarrow> r = Inl e \<or> (\<exists>x. r = Inr x \<and> f x = Inl e)"
  by (cases r) auto

text \<open>\<open>ok_or\<close>: an absent value becomes the given error.\<close>

definition ok_or :: "'e \<Rightarrow> 'a option \<Rightarrow> 'e + 'a" where
  "ok_or e r = (case r of None \<Rightarrow> Inl e | Some x \<Rightarrow> Inr x)"

lemma ok_or_simps [simp]:
  "ok_or e None = Inl e"
  "ok_or e (Some x) = Inr x"
  by (simp_all add: ok_or_def)

lemma ok_or_eq [result_simps]:
  "ok_or e r = Inr y \<longleftrightarrow> r = Some y"
  "ok_or e r = Inl d \<longleftrightarrow> r = None \<and> d = e"
  by (cases r; auto)+

text \<open>\<open>if c { return Err(e) }\<close>.\<close>

definition ensure :: "'e \<Rightarrow> bool \<Rightarrow> 'e + unit" where
  "ensure e c = (if c then Inr () else Inl e)"

lemma ensure_simps [simp]:
  "ensure e True = Inr ()"
  "ensure e False = Inl e"
  by (simp_all add: ensure_def)

lemma ensure_eq [result_simps]:
  "ensure e c = Inr u \<longleftrightarrow> c"
  "ensure e c = Inl d \<longleftrightarrow> \<not> c \<and> d = e"
  by (auto simp: ensure_def)

text \<open>A loop that maps a fallible function over a vector and stops at the first error.\<close>

fun map_ok :: "('a \<Rightarrow> 'e + 'b) \<Rightarrow> 'a list \<Rightarrow> 'e + 'b list" where
  "map_ok f [] = Inr []"
| "map_ok f (x # xs) = bind_ok (f x) (\<lambda>y. bind_ok (map_ok f xs) (\<lambda>ys. Inr (y # ys)))"

lemma map_ok_Inr_length: "map_ok f xs = Inr ys \<Longrightarrow> length ys = length xs"
  by (induction xs arbitrary: ys) (auto simp: result_simps)

lemma map_ok_Inr_nth: "map_ok f xs = Inr ys \<Longrightarrow> i < length xs \<Longrightarrow> f (xs ! i) = Inr (ys ! i)"
  by (induction xs arbitrary: ys i) (auto simp: result_simps nth_Cons split: nat.splits)

lemma map_ok_Inr_set:
  "map_ok f xs = Inr ys \<Longrightarrow> y \<in> set ys \<Longrightarrow> \<exists>x \<in> set xs. f x = Inr y"
  by (induction xs arbitrary: ys) (auto simp: result_simps)

text \<open>\<open>retain\<close> on a hash map that is kept as an association list with distinct keys.\<close>

lemma map_of_filter_distinct:
  "distinct (map fst m) \<Longrightarrow>
     map_of (filter P m) k =
       (case map_of m k of None \<Rightarrow> None | Some v \<Rightarrow> if P (k, v) then Some v else None)"
proof (induction m)
  case Nil
  then show ?case by simp
next
  case (Cons x m)
  obtain a b where x: "x = (a, b)" by (cases x)
  have "map_of (filter P m) a = None" using Cons.prems x by (auto simp: map_of_eq_None_iff)
  then show ?case using Cons x by (cases "k = a") auto
qed

section \<open>Machine arithmetic\<close>

definition checked_add :: "'a::len word \<Rightarrow> 'a word \<Rightarrow> 'a word option" where
  "checked_add a b = (if unat a + unat b < 2 ^ LENGTH('a) then Some (a + b) else None)"

definition checked_sub :: "'a::len word \<Rightarrow> 'a word \<Rightarrow> 'a word option" where
  "checked_sub a b = (if b \<le> a then Some (a - b) else None)"

definition saturating_add :: "'a::len word \<Rightarrow> 'a word \<Rightarrow> 'a word" where
  "saturating_add a b = (if unat a + unat b < 2 ^ LENGTH('a) then a + b else - 1)"

definition saturating_sub :: "'a::len word \<Rightarrow> 'a word \<Rightarrow> 'a word" where
  "saturating_sub a b = (if b \<le> a then a - b else 0)"

definition saturating_mul :: "'a::len word \<Rightarrow> 'a word \<Rightarrow> 'a word" where
  "saturating_mul a b = (if unat a * unat b < 2 ^ LENGTH('a) then a * b else - 1)"

text \<open>\<open>div_ceil\<close> of the unsigned integers; a zero divisor panics in Rust and is excluded by its callers.\<close>

definition div_ceil :: "'a::len word \<Rightarrow> 'a word \<Rightarrow> 'a word" where
  "div_ceil a b = (let q = a div b in if a mod b = 0 then q else q + 1)"

abbreviation u64_max :: u64 where
  "u64_max \<equiv> - 1"

lemma unat_minus_one_max: "unat (- 1 :: 'a::len word) = 2 ^ LENGTH('a) - 1"
  by (simp add: unsigned_minus_1_eq_mask mask_eq_exp_minus_1)

lemma word_unat_less: "unat (a :: 'a::len word) < 2 ^ LENGTH('a)"
  by simp

lemma checked_add_SomeD [arith_simps]:
  "checked_add a b = Some c \<longleftrightarrow> unat a + unat b < 2 ^ LENGTH('a) \<and> c = (a :: 'a::len word) + b"
  by (auto simp: checked_add_def)

lemma checked_add_unat: "checked_add a b = Some (c :: 'a::len word) \<Longrightarrow> unat c = unat a + unat b"
  by (auto simp: checked_add_def unat_word_ariths split: if_splits)

lemma checked_sub_SomeD [arith_simps]:
  "checked_sub a b = Some c \<longleftrightarrow> b \<le> a \<and> c = a - b"
  by (auto simp: checked_sub_def)

lemma unat_sub_le: "b \<le> (a :: 'a::len word) \<Longrightarrow> unat (a - b) = unat a - unat b"
  by (rule unat_sub)

lemma unat_saturating_add [arith_simps]:
  "unat (saturating_add a (b :: 'a::len word)) = min (unat a + unat b) (2 ^ LENGTH('a) - 1)"
  by (auto simp: saturating_add_def unat_word_ariths unat_minus_one_max)

lemma unat_saturating_sub [arith_simps]:
  "unat (saturating_sub a (b :: 'a::len word)) = unat a - unat b"
  by (auto simp: saturating_sub_def unat_sub word_le_nat_alt)

lemma saturating_add_mono: "b \<le> c \<Longrightarrow> saturating_add a b \<le> saturating_add a (c :: 'a::len word)"
  by (auto simp: word_le_nat_alt arith_simps)

lemma saturating_add_le_iff:
  "k < 2 ^ LENGTH('a) - 1 \<Longrightarrow>
   unat (saturating_add a (b :: 'a::len word)) \<le> k \<longleftrightarrow> unat a + unat b \<le> k"
  by (auto simp: arith_simps)

lemma saturating_add_fits:
  "unat a + unat b < 2 ^ LENGTH('a) \<Longrightarrow>
   unat (saturating_add a (b :: 'a::len word)) = unat a + unat b"
  by (simp add: arith_simps)

lemma unat_saturating_mul [arith_simps]:
  "unat (saturating_mul a (b :: 'a::len word)) = min (unat a * unat b) (2 ^ LENGTH('a) - 1)"
  by (auto simp: saturating_mul_def unat_word_ariths unat_minus_one_max)

lemma saturating_add_0 [simp]: "saturating_add a 0 = a" "saturating_add 0 a = a"
  using word_unat_less [of a] by (simp_all add: saturating_add_def)

lemma unat_div_ceil:
  assumes "b \<noteq> (0 :: 'a::len word)"
  shows "unat (div_ceil a b) = (unat a + unat b - 1) div unat b"
proof -
  define x y where "x = unat a" and "y = unat b"
  have y: "0 < y" using assms by (simp add: y_def unat_gt_0)
  have x: "x < 2 ^ LENGTH('a)" by (simp add: x_def)
  have z: "a mod b = 0 \<longleftrightarrow> x mod y = 0"
    by (simp add: x_def y_def word_unat_eq_iff unat_mod_distrib del: unat_0_iff)
  show ?thesis
  proof (cases "x mod y = 0")
    case True
    then obtain k where k: "x = y * k" by auto
    have "(x + y - 1) div y = k"
    proof -
      have "x + y - 1 = (y - 1) + y * k" using y k by simp
      then show ?thesis using y by (simp only: div_mult_self2) simp
    qed
    moreover have "x div y = k" using y k by simp
    ultimately show ?thesis using True z
      by (simp add: div_ceil_def Let_def unat_div_distrib x_def y_def)
  next
    case False
    have q: "(x + y - 1) div y = x div y + 1"
    proof -
      have "x + y - 1 = (x mod y - 1) + y * (x div y + 1)"
      proof -
        define r d where "r = x mod y" and "d = x div y"
        have "0 < r" using False by (simp add: r_def)
        moreover have "x = r + y * d" by (simp add: r_def d_def)
        ultimately have "x + y - 1 = (r - 1) + (y * d + y)" by linarith
        then show ?thesis by (simp add: r_def d_def algebra_simps)
      qed
      moreover have "(x mod y - 1) div y = 0" using y by (simp add: less_imp_diff_less)
      ultimately show ?thesis using y by (simp only: div_mult_self2)
    qed
    have lt: "x div y + 1 < 2 ^ LENGTH('a)"
    proof -
      have "y \<noteq> 1" using False by (metis mod_by_1)
      with y have "2 \<le> y" by linarith
      then have "x div y \<le> x div 2" by (simp add: div_le_mono2)
      moreover have "x \<noteq> 0" using False by (metis mod_0)
      ultimately show ?thesis using x False \<open>2 \<le> y\<close>
        by (cases "x = 1") (auto simp: div_less)
    qed
    have "unat (a div b + 1) = x div y + 1"
      using lt by (simp add: unat_word_ariths unat_div_distrib x_def y_def)
    then show ?thesis using False z q
      by (simp add: div_ceil_def Let_def x_def y_def)
  qed
qed

section \<open>Big-endian byte strings\<close>

text \<open>
  \<open>be_of k n\<close> is the \<open>k\<close>-byte big-endian image of \<open>n\<close>, what \<open>to_be_bytes\<close> gives for an integer of
  that width, and \<open>be_val\<close> reads a byte string back, as \<open>from_be_bytes\<close> does.
\<close>

fun be_of :: "nat \<Rightarrow> nat \<Rightarrow> bytes" where
  "be_of 0 n = []"
| "be_of (Suc k) n = be_of k (n div 256) @ [word_of_nat n]"

definition be_val :: "bytes \<Rightarrow> nat" where
  "be_val bs = foldl (\<lambda>a b. a * 256 + unat b) 0 bs"

definition u64_to_be :: "u64 \<Rightarrow> bytes" where
  "u64_to_be w = be_of 8 (unat w)"

definition u64_from_be :: "bytes \<Rightarrow> u64" where
  "u64_from_be bs = word_of_nat (be_val bs)"

definition u32_to_be :: "u32 \<Rightarrow> bytes" where
  "u32_to_be w = be_of 4 (unat w)"

definition u32_from_be :: "bytes \<Rightarrow> u32" where
  "u32_from_be bs = word_of_nat (be_val bs)"

definition u16_to_be :: "u16 \<Rightarrow> bytes" where
  "u16_to_be w = be_of 2 (unat w)"

lemma length_be_of [simp]: "length (be_of k n) = k"
  by (induction k arbitrary: n) auto

lemma be_val_Nil [simp]: "be_val [] = 0"
  by (simp add: be_val_def)

lemma be_val_snoc [simp]: "be_val (bs @ [b]) = be_val bs * 256 + unat b"
  by (simp add: be_val_def)

lemma unat_of_nat_u8: "unat (word_of_nat n :: u8) = n mod 256"
  by (simp add: unat_of_nat)

lemma be_val_be_of: "n < 256 ^ k \<Longrightarrow> be_val (be_of k n) = n"
proof (induction k arbitrary: n)
  case 0
  then show ?case by simp
next
  case (Suc k)
  then have "n div 256 < 256 ^ k" by (simp add: less_mult_imp_div_less mult.commute)
  then have "be_val (be_of k (n div 256)) = n div 256" by (rule Suc.IH)
  then show ?case by (simp add: unat_of_nat_u8)
qed

lemma be_of_be_val: "be_of (length bs) (be_val bs) = bs"
proof (induction bs rule: rev_induct)
  case Nil
  then show ?case by simp
next
  case (snoc b bs)
  have "(be_val bs * 256 + unat b) div 256 = be_val bs"
    using word_unat_less [of b] by simp
  moreover have "(word_of_nat (be_val bs * 256 + unat b) :: u8) = b"
  proof -
    have "unat (word_of_nat (be_val bs * 256 + unat b) :: u8) = unat b"
      using word_unat_less [of b] by (simp only: unat_of_nat_u8) simp
    then show ?thesis by (simp only: word_unat_eq_iff)
  qed
  ultimately show ?case using snoc.IH by simp
qed

lemma be_val_bound: "be_val bs < 256 ^ length bs"
proof (induction bs rule: rev_induct)
  case Nil
  then show ?case by simp
next
  case (snoc b bs)
  have "be_val bs * 256 + unat b < be_val bs * 256 + 256"
    using word_unat_less [of b] by simp
  also have "be_val bs * 256 + 256 \<le> 256 ^ length bs * 256"
    using snoc.IH by (metis Suc_leI mult_Suc mult_le_mono1 add.commute)
  finally show ?case by (simp add: mult.commute)
qed

lemma be_of_inj: "be_of k m = be_of k n \<Longrightarrow> m < 256 ^ k \<Longrightarrow> n < 256 ^ k \<Longrightarrow> m = n"
  by (metis be_val_be_of)

lemma be_val_append: "be_val (as @ bs) = be_val as * 256 ^ length bs + be_val bs"
  by (induction bs rule: rev_induct)
     (simp_all add: append_assoc [symmetric] algebra_simps del: append_assoc)

lemma be_val_Cons: "be_val (b # bs) = unat b * 256 ^ length bs + be_val bs"
proof -
  have "be_val ([] @ [b]) = unat b" by (simp del: append_Nil)
  then show ?thesis using be_val_append [of "[b]" bs] by simp
qed

lemma lex_less_be_val:
  "length as = length bs \<Longrightarrow> as < bs \<longleftrightarrow> be_val as < be_val bs"
proof (induction as bs rule: list_induct2)
  case Nil
  then show ?case by simp
next
  case (Cons a as b bs)
  have A: "be_val as < 256 ^ length as" and B: "be_val bs < 256 ^ length as"
    using be_val_bound [of as] be_val_bound [of bs] Cons.hyps by simp_all
  show ?case
  proof (cases "a = b")
    case True
    then show ?thesis using Cons by (simp add: be_val_Cons)
  next
    case False
    have *: "x * 256 ^ length as + u < y * 256 ^ length as + v"
      if "x < y" "u < 256 ^ length as" for x y u v :: nat
    proof -
      have "x * 256 ^ length as + u < (x + 1) * 256 ^ length as" using that(2) by simp
      also have "\<dots> \<le> y * 256 ^ length as" using that(1) by (intro mult_le_mono1) simp
      finally show ?thesis by simp
    qed
    have "a < b \<longleftrightarrow> unat a * 256 ^ length as + be_val as < unat b * 256 ^ length as + be_val bs"
    proof
      assume "a < b"
      then show "unat a * 256 ^ length as + be_val as < unat b * 256 ^ length as + be_val bs"
        using * [OF _ A] by (simp add: word_less_nat_alt)
    next
      assume l: "unat a * 256 ^ length as + be_val as < unat b * 256 ^ length as + be_val bs"
      show "a < b"
      proof (rule ccontr)
        assume "\<not> a < b"
        with False have "unat b < unat a" by (simp add: word_less_nat_alt word_unat_eq_iff)
        then show False using * [OF _ B, of "unat b" "unat a" "be_val as"] l by simp
      qed
    qed
    then show ?thesis using False Cons.hyps by (simp add: be_val_Cons)
  qed
qed

text \<open>Lexicographic order of equally long byte strings is the order of the numbers they encode.\<close>

lemma lex_le_be_val: "length as = length bs \<Longrightarrow> as \<le> bs \<longleftrightarrow> be_val as \<le> be_val bs"
  using lex_less_be_val [of bs as] by (simp add: not_less [symmetric])

lemma u64_to_be_length [simp]: "length (u64_to_be w) = 8"
  by (simp add: u64_to_be_def)

lemma u32_to_be_length [simp]: "length (u32_to_be w) = 4"
  by (simp add: u32_to_be_def)

lemma u16_to_be_length [simp]: "length (u16_to_be w) = 2"
  by (simp add: u16_to_be_def)

lemma be_val_u64 [simp]: "be_val (u64_to_be w) = unat w"
proof -
  have "unat w < 256 ^ 8" using word_unat_less [of w] by simp
  then show ?thesis by (simp only: u64_to_be_def be_val_be_of)
qed

lemma be_val_u32 [simp]: "be_val (u32_to_be w) = unat w"
proof -
  have "unat w < 256 ^ 4" using word_unat_less [of w] by simp
  then show ?thesis by (simp only: u32_to_be_def be_val_be_of)
qed

lemma be_val_u16 [simp]: "be_val (u16_to_be w) = unat w"
proof -
  have "unat w < 256 ^ 2" using word_unat_less [of w] by simp
  then show ?thesis by (simp only: u16_to_be_def be_val_be_of)
qed

lemma u64_be_roundtrip [simp]: "u64_from_be (u64_to_be w) = w"
  by (simp add: u64_from_be_def)

lemma u32_be_roundtrip [simp]: "u32_from_be (u32_to_be w) = w"
  by (simp add: u32_from_be_def)

lemma u64_to_be_inject [simp]: "u64_to_be v = u64_to_be w \<longleftrightarrow> v = w"
  by (metis u64_be_roundtrip)

lemma u32_to_be_inject [simp]: "u32_to_be v = u32_to_be w \<longleftrightarrow> v = w"
  by (metis u32_be_roundtrip)

lemma u16_to_be_inject [simp]: "u16_to_be v = u16_to_be w \<longleftrightarrow> v = w"
  by (metis be_val_u16 word_unat_eq_iff)

lemma u64_to_be_from_be: "length bs = 8 \<Longrightarrow> u64_to_be (u64_from_be bs) = bs"
  using be_val_bound [of bs] be_of_be_val [of bs]
  by (simp add: u64_to_be_def u64_from_be_def unat_of_nat)

lemma u32_to_be_from_be: "length bs = 4 \<Longrightarrow> u32_to_be (u32_from_be bs) = bs"
  using be_val_bound [of bs] be_of_be_val [of bs]
  by (simp add: u32_to_be_def u32_from_be_def unat_of_nat)

section \<open>Embedded database\<close>

text \<open>
  The daemon keeps three tables in the embedded database \<open>redb\<close>.  A table is a map of byte strings;
  every library call can fail, and each call site wraps the failure in a message of its own.  The
  environment is a predicate on those messages that says which calls fail.  A write transaction
  that is dropped before its commit leaves no trace.
\<close>

type_synonym faults = "string \<Rightarrow> bool"

definition no_faults :: faults where
  "no_faults = (\<lambda>_. False)"

lemma no_faults_app [simp]: "no_faults l = False"
  by (simp add: no_faults_def)

section \<open>Ordered tables\<close>

text \<open>
  A \<open>BTreeMap\<close>, and a table of the embedded database: an association list in the order of its keys.
\<close>

fun map_insert :: "'k::linorder \<Rightarrow> 'v \<Rightarrow> ('k \<times> 'v) list \<Rightarrow> ('k \<times> 'v) list" where
  "map_insert k v [] = [(k, v)]"
| "map_insert k v ((a, b) # m) =
     (if k = a then (k, v) # m else if k < a then (k, v) # (a, b) # m
      else (a, b) # map_insert k v m)"

definition map_remove :: "'k \<Rightarrow> ('k \<times> 'v) list \<Rightarrow> ('k \<times> 'v) list" where
  "map_remove k m = filter (\<lambda>p. fst p \<noteq> k) m"

lemma map_of_map_insert [simp]: "map_of (map_insert k v m) = (map_of m)(k \<mapsto> v)"
  by (induction k v m rule: map_insert.induct) auto

lemma map_of_map_remove [simp]: "map_of (map_remove k m) = (map_of m)(k := None)"
  by (induction m) (auto simp: map_remove_def)

text \<open>The keys are in order, so each occurs once.\<close>

definition ordered :: "('k::linorder \<times> 'v) list \<Rightarrow> bool" where
  "ordered m \<longleftrightarrow> sorted_wrt (<) (map fst m)"

lemma set_map_insert: "set (map_insert k v m) \<subseteq> insert (k, v) (set m)"
  by (induction k v m rule: map_insert.induct) auto

lemma sorted_map_insert:
  "sorted_wrt (<) (map fst m) \<Longrightarrow> sorted_wrt (<) (map fst (map_insert k v m))"
proof (induction k v m rule: map_insert.induct)
  case (1 k v)
  then show ?case by simp
next
  case (2 k v a b m)
  have keys: "fst ` set (map_insert k v m) \<subseteq> insert k (fst ` set m)"
    using set_map_insert [of k v m] by force
  show ?case
  proof (cases "k = a \<or> k < a")
    case True
    then show ?thesis using 2 by (auto intro: less_trans)
  next
    case False
    then have "a < k" by auto
    moreover have "\<forall>x \<in> fst ` set m. a < x" using 2 by auto
    ultimately have "\<forall>x \<in> fst ` set (map_insert k v m). a < x" using keys by blast
    then show ?thesis using 2 False by auto
  qed
qed

lemma ordered_insert: "ordered m \<Longrightarrow> ordered (map_insert k v m)"
  by (simp add: ordered_def sorted_map_insert)

lemma ordered_remove: "ordered m \<Longrightarrow> ordered (map_remove k m)"
  by (auto simp: ordered_def map_remove_def sorted_wrt_map intro: sorted_wrt_filter)

lemma ordered_distinct: "ordered m \<Longrightarrow> distinct (map fst m)"
  by (simp add: ordered_def strict_sorted_iff)

lemma ordered_entry: "ordered m \<Longrightarrow> (k, v) \<in> set m \<longleftrightarrow> map_of m k = Some v"
  by (auto dest: ordered_distinct map_of_SomeD intro: map_of_is_SomeI)

section \<open>Text\<close>

text \<open>ASCII lower-casing, which is what \<open>eq_ignore_ascii_case\<close> compares.\<close>

definition lower :: "string \<Rightarrow> string" where
  "lower s = map (\<lambda>c. let n = of_char c :: nat in if 65 \<le> n \<and> n \<le> 90 then char_of (n + 32) else c) s"

definition eq_ignore_case :: "string \<Rightarrow> string \<Rightarrow> bool" where
  "eq_ignore_case a b \<longleftrightarrow> lower a = lower b"

definition is_space :: "char \<Rightarrow> bool" where
  "is_space c \<longleftrightarrow> (let n = of_char c :: nat in n = 32 \<or> (9 \<le> n \<and> n \<le> 13))"

definition trim :: "string \<Rightarrow> string" where
  "trim s = rev (dropWhile is_space (rev (dropWhile is_space s)))"

text \<open>\<open>trim_end_matches\<close> for one character, and \<open>join\<close>.\<close>

definition trim_end_matches :: "char \<Rightarrow> string \<Rightarrow> string" where
  "trim_end_matches c s = rev (dropWhile (\<lambda>x. x = c) (rev s))"

fun join_with :: "string \<Rightarrow> string list \<Rightarrow> string" where
  "join_with sep [] = []"
| "join_with sep [s] = s"
| "join_with sep (s # t # ss) = s @ sep @ join_with sep (t # ss)"

end
