(* ===== verification/Errors.thy ===== *)
theory Errors imports Prelude begin

text \<open>
  The error type of the daemon (\<open>src/error.rs\<close>): one constructor per variant of the Rust enum, the
  numeric code a client sees, and the classification of a coin-selection shortfall.  A variant that
  carries free text carries the constant part of its message here, which identifies the site that
  raised it; the variable part (the text of an inner error) is left out, since no code of the model
  branches on it.  The one exception is the message of an upstream error, which the code searches,
  and which is kept whole.
\<close>

section \<open>The error type\<close>

datatype error =
    ParseError string
  | InvalidRequest string
  | BadParams string
  | BadHex string
  | BadAddressLen nat
  | BadAmount string
  | UnknownMethod string
  | MissingField string
  | WalletNotFound string
  | WalletAlreadyExists string
  | KeystoreLocked string
  | Wallet string
  | EvmKeyNotCreated
  | UpstreamUnreachable string
  | UpstreamRpc int string
  | UpstreamUnexpected string
  | DoubleSpendRejected string
  | TxBuild string
  | TxSerialize string
  | InsufficientBalance u64 u64 nat u64 nat
  | InFlightExhausted u64 u64 u64 nat
  | FeeTooHigh u64 u64
  | DustOutput u64 u64
  | TooManyOutputs nat nat
  | IdempotencyConflict string
  | HtlcOutputAuth string
  | TimeoutNotReached u64 u64
  | AllowanceExceeded string u64 u64 u64 u64
  | WaitTimeout string u32 u64
  | IndexerNotConfigured
  | Unauthorized
  | Io string
  | Internal string

type_synonym 'a res = "error + 'a"

text \<open>One call of the embedded database, with the label the call site puts into its error.\<close>

definition db_call :: "faults \<Rightarrow> string \<Rightarrow> unit res" where
  "db_call fails label = (if fails label then Inl (Internal label) else Inr ())"

lemma db_call_no_faults [simp]: "db_call no_faults l = Inr ()"
  by (simp add: db_call_def)

lemma db_call_eq [result_simps]:
  "db_call f l = Inr u \<longleftrightarrow> \<not> f l"
  "db_call f l = Inl e \<longleftrightarrow> f l \<and> e = Internal l"
  by (auto simp: db_call_def)

section \<open>Codes\<close>

fun rpc_code :: "error \<Rightarrow> int" where
  "rpc_code (ParseError _) = - 32700"
| "rpc_code (InvalidRequest _) = - 32600"
| "rpc_code (UnknownMethod _) = - 32601"
| "rpc_code (BadParams _) = - 32602"
| "rpc_code (BadHex _) = - 32602"
| "rpc_code (BadAddressLen _) = - 32602"
| "rpc_code (BadAmount _) = - 32602"
| "rpc_code (MissingField _) = - 32602"
| "rpc_code Unauthorized = - 32001"
| "rpc_code (WalletNotFound _) = - 32010"
| "rpc_code (WalletAlreadyExists _) = - 32011"
| "rpc_code (KeystoreLocked _) = - 32012"
| "rpc_code EvmKeyNotCreated = - 32013"
| "rpc_code (UpstreamUnreachable _) = - 32020"
| "rpc_code (UpstreamRpc _ _) = - 32020"
| "rpc_code (UpstreamUnexpected _) = - 32020"
| "rpc_code (DoubleSpendRejected _) = - 32021"
| "rpc_code (TxBuild _) = - 32030"
| "rpc_code (InsufficientBalance _ _ _ _ _) = - 32031"
| "rpc_code (FeeTooHigh _ _) = - 32032"
| "rpc_code (DustOutput _ _) = - 32033"
| "rpc_code (TooManyOutputs _ _) = - 32034"
| "rpc_code (IdempotencyConflict _) = - 32035"
| "rpc_code (HtlcOutputAuth _) = - 32036"
| "rpc_code (TimeoutNotReached _ _) = - 32037"
| "rpc_code (AllowanceExceeded _ _ _ _ _) = - 32038"
| "rpc_code (InFlightExhausted _ _ _ _) = - 32039"
| "rpc_code (WaitTimeout _ _ _) = - 32040"
| "rpc_code IndexerNotConfigured = - 32041"
| "rpc_code (TxSerialize _) = - 32603"
| "rpc_code (Wallet _) = - 32603"
| "rpc_code (Io _) = - 32603"
| "rpc_code (Internal _) = - 32603"

definition http_status :: "error \<Rightarrow> nat" where
  "http_status e =
     (case e of Unauthorized \<Rightarrow> 401
      | ParseError _ \<Rightarrow> 400
      | InvalidRequest _ \<Rightarrow> 400
      | _ \<Rightarrow> 200)"

text \<open>The structured payload of an error: the fields of a JSON object, in the order of the code.\<close>

datatype json_field = JNum nat | JBool bool | JText string

definition rpc_data :: "error \<Rightarrow> (string \<times> json_field) list option" where
  "rpc_data err =
     (case err of
        InsufficientBalance needed available utxo_count in_flight_value in_flight_count \<Rightarrow>
          Some [(''in_flight_reserved'', JBool (in_flight_count > 0)),
                (''needed'', JNum (unat needed)), (''available'', JNum (unat available)),
                (''utxo_count'', JNum utxo_count), (''in_flight_value'', JNum (unat in_flight_value)),
                (''in_flight_count'', JNum in_flight_count)]
      | InFlightExhausted needed available in_flight_value in_flight_count \<Rightarrow>
          Some [(''retryable'', JBool True), (''retry_after'', JText ''next_block''),
                (''needed'', JNum (unat needed)), (''available'', JNum (unat available)),
                (''in_flight_value'', JNum (unat in_flight_value)),
                (''in_flight_count'', JNum in_flight_count)]
      | DoubleSpendRejected _ \<Rightarrow>
          Some [(''input_conflict'', JBool True), (''retryable'', JBool False)]
      | FeeTooHigh fee max_fee \<Rightarrow>
          Some [(''fee'', JNum (unat fee)), (''max_fee'', JNum (unat max_fee))]
      | DustOutput amount dust_threshold \<Rightarrow>
          Some [(''amount'', JNum (unat amount)), (''dust_threshold'', JNum (unat dust_threshold))]
      | TooManyOutputs n mx \<Rightarrow> Some [(''n'', JNum n), (''max'', JNum mx)]
      | IdempotencyConflict token \<Rightarrow> Some [(''token'', JText token)]
      | WaitTimeout tx_id min_confirmations elapsed_secs \<Rightarrow>
          Some [(''tx_id'', JText tx_id), (''min_confirmations'', JNum (unat min_confirmations)),
                (''elapsed_secs'', JNum (unat elapsed_secs))]
      | AllowanceExceeded scope limit spent requested period_secs \<Rightarrow>
          Some [(''scope'', JText scope), (''limit'', JNum (unat limit)),
                (''spent'', JNum (unat spent)), (''requested'', JNum (unat requested)),
                (''remaining'', JNum (unat (saturating_sub limit spent))),
                (''period_secs'', JNum (unat period_secs))]
      | _ \<Rightarrow> None)"

section \<open>Transient and genuine shortfall\<close>

definition classify_shortfall :: "u64 \<Rightarrow> u64 \<Rightarrow> nat \<Rightarrow> u64 \<Rightarrow> nat \<Rightarrow> error" where
  "classify_shortfall needed available utxo_count in_flight_value in_flight_count =
     (let covered_with_inflight = saturating_add available in_flight_value in
      if in_flight_count > 0 \<and> covered_with_inflight \<ge> needed
      then InFlightExhausted needed available in_flight_value in_flight_count
      else InsufficientBalance needed available utxo_count in_flight_value in_flight_count)"

lemma classify_shortfall_code:
  "rpc_code (classify_shortfall n a c v k) =
     (if 0 < k \<and> unat n \<le> unat a + unat v then - 32039 else - 32031)"
proof -
  have "n \<le> saturating_add a v \<longleftrightarrow> unat n \<le> unat a + unat v"
    using word_unat_less [of n] by (auto simp: word_le_nat_alt arith_simps)
  then show ?thesis by (simp add: classify_shortfall_def Let_def)
qed

end
