(* ===== verification/Allowance.thy ===== *)
theory Allowance imports Errors begin

text \<open>
  The spend allowance ledger (\<open>src/allowance.rs\<close>): operator-configured ceilings on the native
  outflow, one per transaction and one per tumbling window, and the table that counts what was
  spent in each window.  The ledger is a record of its caps and of the table
  \<open>spent_by_bucket\<close>, a map from the big-endian bucket number to the big-endian counter, so a counter
  of the wrong width is a state the model has, as the code does.  Operations take the clock as an
  argument and a predicate that says which database calls fail.
\<close>

section \<open>State and operations\<close>

record allowance_caps =
  per_tx :: "u64 option"
  per_period :: "u64 option"
  period_secs :: u64

definition default_caps :: allowance_caps where
  "default_caps = \<lparr>per_tx = None, per_period = None, period_secs = 86400\<rparr>"

definition is_active :: "allowance_caps \<Rightarrow> bool" where
  "is_active c \<longleftrightarrow> per_tx c \<noteq> None \<or> per_period c \<noteq> None"

definition validate :: "allowance_caps \<Rightarrow> unit res" where
  "validate c =
     (if per_period c \<noteq> None \<and> period_secs c = 0
      then Inl (Internal ''allowance: --spend-cap-per-period requires --spend-cap-period-secs > 0'')
      else Inr ())"

type_synonym spent_table = "bytes \<rightharpoonup> bytes"

record ledger =
  spent_by_bucket :: spent_table
  caps :: allowance_caps

text \<open>Opening over the table found on disk; a fresh data directory has the empty table.\<close>

definition open_ledger :: "faults \<Rightarrow> spent_table \<Rightarrow> allowance_caps \<Rightarrow> ledger res" where
  "open_ledger fails disk c =
     bind_ok (validate c) (\<lambda>_.
     bind_ok (db_call fails ''allowance: create datadir'') (\<lambda>_.
     bind_ok (db_call fails ''allowance: open redb'') (\<lambda>_.
     bind_ok (db_call fails ''allowance: begin write'') (\<lambda>_.
     bind_ok (db_call fails ''allowance: open table'') (\<lambda>_.
     bind_ok (db_call fails ''allowance: commit init'') (\<lambda>_.
     Inr \<lparr>spent_by_bucket = disk, caps = c\<rparr>))))))"

definition bucket :: "ledger \<Rightarrow> u64 \<Rightarrow> u64" where
  "bucket l now = (if period_secs (caps l) = 0 then 0 else now div period_secs (caps l))"

text \<open>Decoding of a counter row; shared by the three readers of the table.\<close>

definition decode_counter :: "bytes option \<Rightarrow> u64 res" where
  "decode_counter row =
     (case row of
        None \<Rightarrow> Inr 0
      | Some b \<Rightarrow> if length b \<noteq> 8
                  then Inl (Internal ''allowance: corrupt counter (expected 8 bytes)'')
                  else Inr (u64_from_be b))"

definition spent_in_bucket :: "faults \<Rightarrow> ledger \<Rightarrow> u64 \<Rightarrow> u64 res" where
  "spent_in_bucket fails l b =
     bind_ok (db_call fails ''allowance: begin read'') (\<lambda>_.
     bind_ok (db_call fails ''allowance: open table'') (\<lambda>_.
     bind_ok (db_call fails ''allowance: get bucket'') (\<lambda>_.
     decode_counter (spent_by_bucket l (u64_to_be b)))))"

definition check_per_tx :: "ledger \<Rightarrow> u64 \<Rightarrow> unit res" where
  "check_per_tx l amount =
     (case per_tx (caps l) of
        Some limit \<Rightarrow>
          if amount > limit then Inl (AllowanceExceeded ''per_tx'' limit 0 amount 0) else Inr ()
      | None \<Rightarrow> Inr ())"

text \<open>
  \<open>reserve\<close>: the check and the increment run inside one write transaction, so the whole function is
  one atomic step of the ledger.  The first component is the committed state.
\<close>

definition reserve :: "faults \<Rightarrow> ledger \<Rightarrow> u64 \<Rightarrow> u64 \<Rightarrow> ledger \<times> unit res" where
  "reserve fails l amount now =
     (case check_per_tx l amount of Inl e \<Rightarrow> (l, Inl e) | Inr _ \<Rightarrow>
     (case per_period (caps l) of None \<Rightarrow> (l, Inr ()) | Some limit \<Rightarrow>
      let key = u64_to_be (bucket l now);
          spent_res =
            bind_ok (db_call fails ''allowance: begin write'') (\<lambda>_.
            bind_ok (db_call fails ''allowance: open table'') (\<lambda>_.
            bind_ok (db_call fails ''allowance: get bucket'') (\<lambda>_.
            decode_counter (spent_by_bucket l key))))
      in case spent_res of Inl e \<Rightarrow> (l, Inl e) | Inr spent \<Rightarrow>
        if saturating_add spent amount > limit
        then (l, Inl (AllowanceExceeded ''per_period'' limit spent amount (period_secs (caps l))))
        else case bind_ok (db_call fails ''allowance: insert'')
                    (\<lambda>_. db_call fails ''allowance: commit'') of
               Inl e \<Rightarrow> (l, Inl e)
             | Inr _ \<Rightarrow>
                 (l\<lparr>spent_by_bucket :=
                      (spent_by_bucket l)(key \<mapsto> u64_to_be (saturating_add spent amount))\<rparr>,
                  Inr ())))"

definition refund_inner :: "faults \<Rightarrow> ledger \<Rightarrow> u64 \<Rightarrow> u64 \<Rightarrow> ledger \<times> unit res" where
  "refund_inner fails l amount now =
     (let key = u64_to_be (bucket l now);
          spent_res =
            bind_ok (db_call fails ''allowance: begin write'') (\<lambda>_.
            bind_ok (db_call fails ''allowance: open table'') (\<lambda>_.
            bind_ok (db_call fails ''allowance: get bucket'') (\<lambda>_.
            decode_counter (spent_by_bucket l key))))
      in case spent_res of Inl e \<Rightarrow> (l, Inl e) | Inr spent \<Rightarrow>
         case bind_ok (db_call fails ''allowance: insert'')
                (\<lambda>_. db_call fails ''allowance: commit'') of
           Inl e \<Rightarrow> (l, Inl e)
         | Inr _ \<Rightarrow>
             (l\<lparr>spent_by_bucket :=
                  (spent_by_bucket l)(key \<mapsto> u64_to_be (saturating_sub spent amount))\<rparr>,
              Inr ()))"

text \<open>\<open>refund\<close> swallows (and logs) every error.\<close>

definition refund :: "faults \<Rightarrow> ledger \<Rightarrow> u64 \<Rightarrow> u64 \<Rightarrow> ledger" where
  "refund fails l amount now =
     (if per_period (caps l) = None then l else fst (refund_inner fails l amount now))"

record allowance_status =
  st_per_tx :: "u64 option"
  st_per_period :: "u64 option"
  st_period_secs :: u64
  spent_this_period :: u64
  remaining_this_period :: "u64 option"
  window_resets_at :: "u64 option"

definition status :: "faults \<Rightarrow> ledger \<Rightarrow> u64 \<Rightarrow> allowance_status res" where
  "status fails l now =
     bind_ok
       (case per_period (caps l) of
          Some limit \<Rightarrow>
            let b = bucket l now in
            bind_ok (spent_in_bucket fails l b) (\<lambda>spent.
            let resets_at = saturating_mul (saturating_add b 1) (period_secs (caps l)) in
            Inr (spent, Some (saturating_sub limit spent), Some resets_at))
        | None \<Rightarrow> Inr (0, None, None))
       (\<lambda>(spent, remaining, resets).
          Inr \<lparr>st_per_tx = per_tx (caps l), st_per_period = per_period (caps l),
               st_period_secs = period_secs (caps l), spent_this_period = spent,
               remaining_this_period = remaining, window_resets_at = resets\<rparr>)"

section \<open>The abstract ledger\<close>

text \<open>
  What the ledger promises is a counter per window, a natural number.  \<open>spent\<close> reads it off the
  table; \<open>well_formed\<close> says that every row is a counter and no counter is over the cap.
\<close>

definition spent :: "ledger \<Rightarrow> u64 \<Rightarrow> nat" where
  "spent l b = (case spent_by_bucket l (u64_to_be b) of None \<Rightarrow> 0 | Some r \<Rightarrow> be_val r)"

definition rows_ok :: "ledger \<Rightarrow> bool" where
  "rows_ok l \<longleftrightarrow> (\<forall>k r. spent_by_bucket l k = Some r \<longrightarrow> length r = 8)"

definition within_caps :: "ledger \<Rightarrow> bool" where
  "within_caps l \<longleftrightarrow>
     (\<forall>limit b. per_period (caps l) = Some limit \<longrightarrow> spent l b \<le> unat limit)"

definition well_formed :: "ledger \<Rightarrow> bool" where
  "well_formed l \<longleftrightarrow> rows_ok l \<and> within_caps l"

lemma decode_counter_ok:
  "rows_ok l \<Longrightarrow> \<exists>w. decode_counter (spent_by_bucket l k) = Inr w"
  by (auto simp: decode_counter_def rows_ok_def split: option.splits)

lemma decode_counter_spent:
  "decode_counter (spent_by_bucket l (u64_to_be b)) = Inr w \<Longrightarrow> unat w = spent l b"
  using be_val_bound [of "the (spent_by_bucket l (u64_to_be b))"]
  by (auto simp: decode_counter_def spent_def u64_from_be_def unat_of_nat
        split: option.splits if_splits)

lemma spent_update:
  "spent (l\<lparr>spent_by_bucket := (spent_by_bucket l)(u64_to_be b \<mapsto> u64_to_be w)\<rparr>) c =
     (if c = b then unat w else spent l c)"
  by (simp add: spent_def)

lemma rows_ok_update:
  "rows_ok l \<Longrightarrow> rows_ok (l\<lparr>spent_by_bucket := (spent_by_bucket l)(k \<mapsto> u64_to_be w)\<rparr>)"
  by (auto simp: rows_ok_def)

lemma reserve_caps [simp]: "caps (fst (reserve f l a now)) = caps l"
  by (simp add: reserve_def Let_def split: sum.splits option.splits)

lemma refund_caps [simp]: "caps (refund f l a now) = caps l"
  by (simp add: refund_def refund_inner_def Let_def split: sum.splits)

lemma bucket_caps: "caps l = caps m \<Longrightarrow> bucket l now = bucket m now"
  by (simp add: bucket_def)

section \<open>Each operation against the abstract ledger\<close>

lemma reserve_uncapped:
  "per_period (caps l) = None \<Longrightarrow> reserve f l a now = (l, check_per_tx l a)"
  by (auto simp: reserve_def split: sum.splits)

lemma reserve_err_unchanged: "reserve f l a now = (l', Inl e) \<Longrightarrow> l' = l"
  by (auto simp: reserve_def Let_def split: sum.splits option.splits if_splits)

lemma reserve_ok_cases:
  assumes "reserve f l a now = (l', Inr u)" and "per_period (caps l) = Some limit"
  obtains w where "decode_counter (spent_by_bucket l (u64_to_be (bucket l now))) = Inr w"
    and "saturating_add w a \<le> limit"
    and "l' = l\<lparr>spent_by_bucket := (spent_by_bucket l)
                   (u64_to_be (bucket l now) \<mapsto> u64_to_be (saturating_add w a))\<rparr>"
  using assms
  by (auto simp: reserve_def Let_def result_simps split: sum.splits option.splits if_splits)

lemma reserve_ok_spent:
  assumes ok: "reserve f l a now = (l', Inr u)" and cap: "per_period (caps l) = Some limit"
    and lim: "limit < u64_max"
  shows "spent l' b = (if b = bucket l now then spent l b + unat a else spent l b)"
    and "spent l' (bucket l now) \<le> unat limit"
proof -
  obtain w where w: "decode_counter (spent_by_bucket l (u64_to_be (bucket l now))) = Inr w"
    and le: "saturating_add w a \<le> limit"
    and l': "l' = l\<lparr>spent_by_bucket := (spent_by_bucket l)
                     (u64_to_be (bucket l now) \<mapsto> u64_to_be (saturating_add w a))\<rparr>"
    using ok cap by (rule reserve_ok_cases)
  have ws: "unat w = spent l (bucket l now)" using w by (rule decode_counter_spent)
  have "unat (saturating_add w a) < 2 ^ 64 - 1"
    using le lim by (simp add: word_le_nat_alt word_less_nat_alt unat_minus_one_max)
  then have sum: "unat (saturating_add w a) = unat w + unat a"
    by (simp add: arith_simps min_def split: if_splits)
  show "spent l' b = (if b = bucket l now then spent l b + unat a else spent l b)"
    by (simp add: l' spent_update sum ws)
  show "spent l' (bucket l now) \<le> unat limit"
    using le by (simp add: l' spent_update word_le_nat_alt)
qed

lemma reserve_well_formed: "well_formed l \<Longrightarrow> well_formed (fst (reserve f l a now))"
proof (cases "snd (reserve f l a now)")
  case (Inl e)
  then have "fst (reserve f l a now) = l"
    by (metis prod.collapse reserve_err_unchanged)
  moreover assume "well_formed l"
  ultimately show ?thesis by simp
next
  case (Inr u)
  assume wf: "well_formed l"
  show ?thesis
  proof (cases "per_period (caps l)")
    case None
    then show ?thesis using wf by (simp add: reserve_uncapped)
  next
    case (Some limit)
    from Inr have "reserve f l a now = (fst (reserve f l a now), Inr u)"
      by (metis prod.collapse)
    then obtain w where "saturating_add w a \<le> limit"
      and "fst (reserve f l a now) = l\<lparr>spent_by_bucket := (spent_by_bucket l)
             (u64_to_be (bucket l now) \<mapsto> u64_to_be (saturating_add w a))\<rparr>"
      using Some by (rule reserve_ok_cases)
    then show ?thesis using wf Some
      by (auto simp: well_formed_def within_caps_def rows_ok_update spent_update word_le_nat_alt)
  qed
qed

lemma refund_cases:
  obtains "refund f l a now = l"
  | w where "per_period (caps l) \<noteq> None"
    "decode_counter (spent_by_bucket l (u64_to_be (bucket l now))) = Inr w"
    "refund f l a now = l\<lparr>spent_by_bucket := (spent_by_bucket l)
       (u64_to_be (bucket l now) \<mapsto> u64_to_be (saturating_sub w a))\<rparr>"
proof (cases "per_period (caps l) = None \<or> refund_inner f l a now = (l, snd (refund_inner f l a now))")
  case True
  then have "refund f l a now = l" by (auto simp: refund_def) (metis fst_conv)
  then show thesis by (rule that(1))
next
  case False
  then have cap: "per_period (caps l) \<noteq> None" by simp
  show thesis
  proof (cases "decode_counter (spent_by_bucket l (u64_to_be (bucket l now)))")
    case (Inl e)
    then have "refund_inner f l a now = (l, snd (refund_inner f l a now))"
      by (auto simp: refund_inner_def Let_def result_simps split: sum.splits)
    then show thesis using False by simp
  next
    case (Inr w)
    have "refund f l a now = l\<lparr>spent_by_bucket := (spent_by_bucket l)
       (u64_to_be (bucket l now) \<mapsto> u64_to_be (saturating_sub w a))\<rparr> \<or> refund f l a now = l"
      using Inr by (simp add: refund_def refund_inner_def Let_def result_simps split: sum.splits)
    then show thesis using that cap Inr by blast
  qed
qed

lemma refund_spent:
  "spent (refund f l a now) b \<le> spent l b"
  "spent l b \<le> spent (refund f l a now) b + (if b = bucket l now then unat a else 0)"
  by (rule refund_cases [of f l a now];
      auto simp: spent_update arith_simps dest: decode_counter_spent)+

lemma refund_exact:
  assumes "rows_ok l" and "per_period (caps l) \<noteq> None"
  shows "spent (refund no_faults l a now) b =
           (if b = bucket l now then spent l b - unat a else spent l b)"
proof -
  obtain w where w: "decode_counter (spent_by_bucket l (u64_to_be (bucket l now))) = Inr w"
    using decode_counter_ok [OF assms(1)] by blast
  obtain limit where lim: "per_period (caps l) = Some limit" using assms(2) by blast
  show ?thesis using w lim decode_counter_spent [OF w]
    by (simp add: refund_def refund_inner_def Let_def spent_update arith_simps)
qed

lemma refund_well_formed: "well_formed l \<Longrightarrow> well_formed (refund f l a now)"
proof -
  assume wf: "well_formed l"
  have "rows_ok (refund f l a now)"
    using wf by (rule_tac refund_cases [of f l a now]) (auto simp: well_formed_def rows_ok_update)
  moreover have "within_caps (refund f l a now)"
    using wf refund_spent(1) [of f l a now]
    by (auto simp: well_formed_def within_caps_def intro: order_trans)
  ultimately show ?thesis by (simp add: well_formed_def)
qed

section \<open>Runs of the ledger\<close>

text \<open>
  Any interleaving of concurrent callers is a sequence of these atomic steps, each with the clock
  its caller read and the database calls that fail during it.
\<close>

datatype ledger_event = Reserve faults u64 u64 | Refund faults u64 u64

fun ledger_step :: "ledger \<Rightarrow> ledger_event \<Rightarrow> ledger" where
  "ledger_step l (Reserve f a now) = fst (reserve f l a now)"
| "ledger_step l (Refund f a now) = refund f l a now"

fun ledger_run :: "ledger \<Rightarrow> ledger_event list \<Rightarrow> ledger" where
  "ledger_run l [] = l"
| "ledger_run l (e # es) = ledger_run (ledger_step l e) es"

text \<open>What the run admitted in window \<open>b\<close>, and what it handed back there at most.\<close>

fun admitted :: "ledger \<Rightarrow> ledger_event list \<Rightarrow> u64 \<Rightarrow> nat" where
  "admitted l [] b = 0"
| "admitted l (e # es) b =
     (case e of
        Reserve f a now \<Rightarrow>
          (if snd (reserve f l a now) = Inr () \<and> bucket l now = b then unat a else 0)
      | Refund f a now \<Rightarrow> 0) + admitted (ledger_step l e) es b"

fun handed_back :: "ledger \<Rightarrow> ledger_event list \<Rightarrow> u64 \<Rightarrow> nat" where
  "handed_back l [] b = 0"
| "handed_back l (e # es) b =
     (case e of
        Reserve f a now \<Rightarrow> 0
      | Refund f a now \<Rightarrow> (if bucket l now = b then unat a else 0))
     + handed_back (ledger_step l e) es b"

lemma ledger_step_caps [simp]: "caps (ledger_step l e) = caps l"
  by (cases e) auto

lemma ledger_step_well_formed: "well_formed l \<Longrightarrow> well_formed (ledger_step l e)"
  by (cases e) (auto intro: reserve_well_formed refund_well_formed)

lemma ledger_run_well_formed: "well_formed l \<Longrightarrow> well_formed (ledger_run l es)"
  by (induction es arbitrary: l) (auto intro: ledger_step_well_formed)

lemma ledger_run_caps [simp]: "caps (ledger_run l es) = caps l"
  by (induction es arbitrary: l) auto

lemma ledger_step_spent:
  assumes "per_period (caps l) = Some limit" and "limit < u64_max"
  shows "spent l b + admitted l [e] b \<le> spent (ledger_step l e) b + handed_back l [e] b"
proof (cases e)
  case (Reserve f a now)
  show ?thesis
  proof (cases "reserve f l a now")
    case (Pair l' r)
    show ?thesis
    proof (cases r)
      case (Inl x)
      then have "l' = l" using Pair reserve_err_unchanged by simp
      then show ?thesis using Inl Reserve Pair by simp
    next
      case (Inr u)
      then show ?thesis
        using Reserve Pair reserve_ok_spent(1) [OF _ assms, of f a now l' u b] by simp
    qed
  qed
next
  case (Refund f a now)
  then show ?thesis using refund_spent(2) [of l b f a now] by (auto split: if_splits)
qed

lemma ledger_run_spent:
  assumes "per_period (caps l) = Some limit" and "limit < u64_max"
  shows "spent l b + admitted l es b \<le> spent (ledger_run l es) b + handed_back l es b"
  using assms(1)
proof (induction es arbitrary: l)
  case Nil
  then show ?case by simp
next
  case (Cons e es)
  have "spent l b + admitted l [e] b \<le> spent (ledger_step l e) b + handed_back l [e] b"
    using Cons.prems assms(2) by (rule ledger_step_spent)
  moreover have "spent (ledger_step l e) b + admitted (ledger_step l e) es b
      \<le> spent (ledger_run (ledger_step l e) es) b + handed_back (ledger_step l e) es b"
    using Cons.prems by (intro Cons.IH) simp
  ultimately show ?case by simp
qed

section \<open>The contract the API relies on\<close>

text \<open>
  Both spending handlers wrap the broadcast the same way: reserve, run, refund if the run failed.
\<close>

definition spend_with :: "('s \<Rightarrow> 's \<times> unit res) \<Rightarrow> ('s \<Rightarrow> 's) \<Rightarrow> 'r res \<Rightarrow> 's \<Rightarrow> 's \<times> 'r res" where
  "spend_with take_budget give_back outcome s =
     (case take_budget s of
        (s1, Inl e) \<Rightarrow> (s1, Inl e)
      | (s1, Inr _) \<Rightarrow>
          (case outcome of Inr r \<Rightarrow> (s1, Inr r) | Inl e \<Rightarrow> (give_back s1, Inl e)))"

text \<open>A store of counters per window that a spender charges before it acts.\<close>

locale budget =
  fixes charge :: "'s \<Rightarrow> u64 \<Rightarrow> u64 \<Rightarrow> 's \<times> unit res"
    and release_charge :: "'s \<Rightarrow> u64 \<Rightarrow> u64 \<Rightarrow> 's"
    and used :: "'s \<Rightarrow> u64 \<Rightarrow> nat"
    and window :: "'s \<Rightarrow> u64 \<Rightarrow> u64"
    and ceiling :: "'s \<Rightarrow> nat"
    and metered :: "'s \<Rightarrow> bool"
  assumes charge_err: "charge s a t = (s', Inl e) \<Longrightarrow> s' = s"
    and charge_ok: "metered s \<Longrightarrow> charge s a t = (s', Inr u) \<Longrightarrow>
          used s' b = (if b = window s t then used s b + unat a else used s b)"
    and charge_keeps: "metered s \<Longrightarrow> charge s a t = (s', Inr u) \<Longrightarrow>
          metered s' \<and> ceiling s' = ceiling s \<and> window s' = window s"
    and release_bounds: "metered s \<Longrightarrow>
          used (release_charge s a t) b \<le> used s b \<and>
          used s b \<le> used (release_charge s a t) b + (if b = window s t then unat a else 0)"
    and release_keeps: "metered s \<Longrightarrow>
          metered (release_charge s a t) \<and> ceiling (release_charge s a t) = ceiling s
          \<and> window (release_charge s a t) = window s"
    and metered_bound: "metered s \<Longrightarrow> used s b \<le> ceiling s"
begin

text \<open>A spend that went through is counted; it never lifts a window over its ceiling.\<close>

lemma spend_counted:
  assumes "metered s"
    and "spend_with (\<lambda>s. charge s a t) (\<lambda>s. release_charge s a t) r s = (s', Inr v)"
  shows "used s' (window s t) = used s (window s t) + unat a \<and>
         used s' (window s t) \<le> ceiling s \<and> metered s'"
proof -
  obtain u where u: "charge s a t = (s', Inr u)"
    using assms(2) by (auto simp: spend_with_def split: prod.splits sum.splits)
  have "metered s'" and "ceiling s' = ceiling s" using charge_keeps [OF assms(1) u] by simp_all
  then show ?thesis
    using charge_ok [OF assms(1) u, of "window s t"] metered_bound [of s' "window s t"] by simp
qed

text \<open>A spend that failed leaves no window with less headroom than its own amount costs, and no
  window with more headroom than before the charge.\<close>

lemma failed_spend_keeps_metering:
  assumes "metered s"
    and "spend_with (\<lambda>s. charge s a t) (\<lambda>s. release_charge s a t) r s = (s', Inl e)"
  shows "metered s' \<and> (\<forall>b. used s b \<le> used s' b)"
proof (cases "charge s a t")
  case (Pair s1 c)
  show ?thesis
  proof (cases c)
    case (Inl d)
    then have "s' = s" using assms(2) Pair charge_err by (auto simp: spend_with_def)
    then show ?thesis using assms(1) by simp
  next
    case (Inr u)
    then have s': "s' = release_charge s1 a t"
      using assms(2) Pair by (auto simp: spend_with_def split: sum.splits)
    have k: "metered s1" "window s1 = window s"
      using charge_keeps [OF assms(1)] Pair Inr by simp_all
    have "used s b \<le> used s' b" for b
      using charge_ok [OF assms(1), of a t s1 u b] release_bounds [OF k(1), of a t b] Pair Inr s' k(2)
      by (auto split: if_splits)
    then show ?thesis using release_keeps [OF k(1)] s' by simp
  qed
qed

end

definition metered_ledger :: "ledger \<Rightarrow> bool" where
  "metered_ledger l \<longleftrightarrow>
     well_formed l \<and> (\<exists>limit. per_period (caps l) = Some limit \<and> limit < u64_max)"

definition period_ceiling :: "ledger \<Rightarrow> nat" where
  "period_ceiling l = (case per_period (caps l) of Some limit \<Rightarrow> unat limit | None \<Rightarrow> 2 ^ 64 - 1)"

interpretation ledger: budget "reserve f" "refund f" spent bucket period_ceiling metered_ledger
  for f :: faults
proof
  fix s s' :: ledger and a t b :: u64 and e :: error and u :: unit
  show "reserve f s a t = (s', Inl e) \<Longrightarrow> s' = s" by (rule reserve_err_unchanged)
  show "metered_ledger s \<Longrightarrow> reserve f s a t = (s', Inr u) \<Longrightarrow>
      spent s' b = (if b = bucket s t then spent s b + unat a else spent s b)"
    by (auto simp: metered_ledger_def reserve_ok_spent(1))
  show "metered_ledger s \<Longrightarrow> reserve f s a t = (s', Inr u) \<Longrightarrow>
      metered_ledger s' \<and> period_ceiling s' = period_ceiling s \<and> bucket s' = bucket s"
    using reserve_caps [of f s a t] reserve_well_formed [of s f a t]
    by (auto simp: metered_ledger_def period_ceiling_def bucket_def fun_eq_iff)
  show "metered_ledger s \<Longrightarrow>
      spent (refund f s a t) b \<le> spent s b \<and>
      spent s b \<le> spent (refund f s a t) b + (if b = bucket s t then unat a else 0)"
    by (simp only: refund_spent simp_thms)
  show "metered_ledger s \<Longrightarrow>
      metered_ledger (refund f s a t) \<and> period_ceiling (refund f s a t) = period_ceiling s
      \<and> bucket (refund f s a t) = bucket s"
    using refund_well_formed [of s f a t]
    by (auto simp: metered_ledger_def period_ceiling_def bucket_def fun_eq_iff)
  show "metered_ledger s \<Longrightarrow> spent s b \<le> period_ceiling s"
    by (auto simp: metered_ledger_def period_ceiling_def well_formed_def within_caps_def)
qed

section \<open>Properties\<close>

lemma check_per_tx_ok:
  "check_per_tx l a = Inr u \<longleftrightarrow> (\<forall>cap. per_tx (caps l) = Some cap \<longrightarrow> unat a \<le> unat cap)"
  by (auto simp: check_per_tx_def word_le_nat_alt word_less_nat_alt split: option.splits)

lemma reserve_no_faults:
  assumes "rows_ok l" and "per_period (caps l) = Some limit" and "limit < u64_max"
  shows "snd (reserve no_faults l a now) = Inr () \<longleftrightarrow>
           check_per_tx l a = Inr () \<and> spent l (bucket l now) + unat a \<le> unat limit"
proof -
  obtain w where w: "decode_counter (spent_by_bucket l (u64_to_be (bucket l now))) = Inr w"
    using decode_counter_ok [OF assms(1)] by blast
  have "unat limit < 2 ^ 64 - 1"
    using assms(3) by (simp add: word_less_nat_alt unat_minus_one_max)
  then have "saturating_add w a \<le> limit \<longleftrightarrow> spent l (bucket l now) + unat a \<le> unat limit"
    using saturating_add_le_iff [of "unat limit" w a] decode_counter_spent [OF w]
    by (simp add: word_le_nat_alt)
  then show ?thesis using w assms(2)
    by (auto simp: reserve_def Let_def not_less split: sum.splits)
qed

text \<open>C1: The headline guarantee of the allowance.  Over any sequence of reservations and refunds, by
  any callers, with any clock readings and with any database failures in between, what a window
  admitted in total (net of what failed spends handed back) and what the table counted before never
  exceed the configured ceiling, and the counter itself stays under it.\<close>

theorem allowance_never_overspent:
  assumes "well_formed l" and "per_period (caps l) = Some limit" and "limit < u64_max"
  shows "spent l b + admitted l es b \<le> unat limit + handed_back l es b
         \<and> spent (ledger_run l es) b \<le> unat limit"
proof -
  have "spent (ledger_run l es) b \<le> unat limit"
    using ledger_run_well_formed [OF assms(1), of es] assms(2)
    by (auto simp: well_formed_def within_caps_def)
  then show ?thesis using ledger_run_spent [OF assms(2,3), of b es] by simp
qed

definition sample_ledger :: ledger where
  "sample_ledger = \<lparr>spent_by_bucket = Map.empty,
     caps = \<lparr>per_tx = Some 60, per_period = Some 100, period_secs = 10\<rparr>\<rparr>"

lemma sample_ledger_ok: "well_formed sample_ledger" "per_period (caps sample_ledger) = Some 100"
  by (simp_all add: sample_ledger_def well_formed_def rows_ok_def within_caps_def spent_def)

lemma allowance_never_overspent_witness:
  "spent sample_ledger 1 + admitted sample_ledger [Reserve no_faults 60 12, Reserve no_faults 60 13] 1
     \<le> unat (100 :: u64) + handed_back sample_ledger [Reserve no_faults 60 12, Reserve no_faults 60 13] 1
   \<and> spent (ledger_run sample_ledger [Reserve no_faults 60 12, Reserve no_faults 60 13]) 1
       \<le> unat (100 :: u64)"
  by (rule allowance_never_overspent [OF sample_ledger_ok]) (simp add: word_less_nat_alt unat_minus_one_max)

text \<open>The admission decision is exact.  When the database works, a reservation is granted if and
  only if the amount is within the per-transaction cap and fits under what is left of its window;
  it then adds exactly the amount to that window and touches no other, and a refusal of either kind
  changes nothing.\<close>

theorem reserve_decides_exactly:
  assumes "rows_ok l" and "per_period (caps l) = Some limit" and "limit < u64_max"
    and "reserve no_faults l a now = (l', r)"
  shows "(r = Inr () \<longleftrightarrow> (\<forall>cap. per_tx (caps l) = Some cap \<longrightarrow> unat a \<le> unat cap)
                     \<and> spent l (bucket l now) + unat a \<le> unat limit)
       \<and> (r = Inr () \<longrightarrow> (\<forall>b. spent l' b = (if b = bucket l now then spent l b + unat a else spent l b)))
       \<and> (r \<noteq> Inr () \<longrightarrow> l' = l)"
proof (intro conjI impI allI)
  show "r = Inr () \<longleftrightarrow> (\<forall>cap. per_tx (caps l) = Some cap \<longrightarrow> unat a \<le> unat cap)
          \<and> spent l (bucket l now) + unat a \<le> unat limit"
    using reserve_no_faults [OF assms(1-3), of a now] assms(4) by (simp add: check_per_tx_ok)
  show "spent l' b = (if b = bucket l now then spent l b + unat a else spent l b)"
    if "r = Inr ()" for b
    using that reserve_ok_spent(1) [OF _ assms(2,3)] assms(4) by blast
  show "l' = l" if "r \<noteq> Inr ()"
    using that assms(4) reserve_err_unchanged by (cases r) auto
qed

lemma reserve_decides_exactly_witness:
  "\<exists>l' r. reserve no_faults sample_ledger 50 7 = (l', r) \<and>
     (r = Inr () \<longleftrightarrow> (\<forall>cap. per_tx (caps sample_ledger) = Some cap \<longrightarrow> unat (50 :: u64) \<le> unat cap)
        \<and> spent sample_ledger (bucket sample_ledger 7) + unat (50 :: u64) \<le> unat (100 :: u64))"
proof -
  obtain l' r where lr: "reserve no_faults sample_ledger 50 7 = (l', r)" by fastforce
  have "rows_ok sample_ledger" using sample_ledger_ok(1) by (simp add: well_formed_def)
  from reserve_decides_exactly [OF this sample_ledger_ok(2) _ lr] lr
  show ?thesis by (auto simp: word_less_nat_alt unat_minus_one_max)
qed

lemma window_end_after:
  fixes now p :: u64
  assumes p: "p \<noteq> 0" and m: "saturating_mul (saturating_add (now div p) 1) p < u64_max"
  shows "now < saturating_mul (saturating_add (now div p) 1) p"
proof -
  define n P where "n = unat now" and "P = unat p"
  have P: "0 < P" using p by (simp add: P_def unat_gt_0)
  have n: "n < 2 ^ 64" using word_unat_less [of now] by (simp add: n_def)
  let ?t = "unat (saturating_mul (saturating_add (now div p) 1) p)"
  have t: "?t = min (min (n div P + 1) (2 ^ 64 - 1) * P) (2 ^ 64 - 1)"
    by (simp add: arith_simps unat_div_distrib n_def P_def)
  have "?t < 2 ^ 64 - 1" using m by (simp add: word_less_nat_alt unat_minus_one_max)
  then have t': "?t = min (n div P + 1) (2 ^ 64 - 1) * P" and lt: "?t < 2 ^ 64 - 1"
    using t by simp_all
  have a: "n < (n div P + 1) * P"
    using dividend_less_div_times [OF P, of n] by simp
  show ?thesis
  proof (cases "n div P + 1 \<le> 2 ^ 64 - 1")
    case True
    then show ?thesis using a t' by (simp add: word_less_nat_alt min_def n_def)
  next
    case False
    then have "(2 ^ 64 - 1) * 1 \<le> ?t" using P t' by (simp add: min_def)
    then show ?thesis using lt by simp
  qed
qed

text \<open>The advertised status adds up.  On a ledger that is within its caps, spent plus remaining
  is the ceiling, the reading agrees with the table, and the window that is reported as current ends
  strictly after now unless the clock is at the end of the machine range.\<close>

theorem status_adds_up:
  assumes "well_formed l" and "per_period (caps l) = Some limit"
    and "status f l now = Inr s"
  shows "unat (spent_this_period s) = spent l (bucket l now)
       \<and> (\<exists>rem. remaining_this_period s = Some rem \<and> unat (spent_this_period s) + unat rem = unat limit)
       \<and> (\<exists>t. window_resets_at s = Some t \<and> (period_secs (caps l) \<noteq> 0 \<and> t < u64_max \<longrightarrow> now < t))"
proof -
  obtain w where w: "decode_counter (spent_by_bucket l (u64_to_be (bucket l now))) = Inr w"
    and s: "spent_this_period s = w" "remaining_this_period s = Some (saturating_sub limit w)"
      "window_resets_at s =
         Some (saturating_mul (saturating_add (bucket l now) 1) (period_secs (caps l)))"
    using assms(2,3)
    by (auto simp: status_def spent_in_bucket_def Let_def result_simps split: prod.splits)
  have ws: "unat w = spent l (bucket l now)" using w by (rule decode_counter_spent)
  have "unat w \<le> unat limit"
    using assms(1,2) by (simp add: ws well_formed_def within_caps_def)
  then have rem: "unat w + unat (saturating_sub limit w) = unat limit" by (simp add: arith_simps)
  have "now < t" if "t = saturating_mul (saturating_add (bucket l now) 1) (period_secs (caps l))"
    and "period_secs (caps l) \<noteq> 0" and "t < u64_max" for t
    using that by (simp add: bucket_def window_end_after)
  then show ?thesis using s ws rem by auto
qed

lemma status_adds_up_witness:
  "\<exists>s. status no_faults sample_ledger 25 = Inr s \<and> unat (spent_this_period s) = 0 \<and>
       remaining_this_period s = Some 100 \<and> window_resets_at s = Some 30"
proof -
  obtain s where s: "status no_faults sample_ledger 25 = Inr s"
    and v: "window_resets_at s = Some 30" "remaining_this_period s = Some 100"
    by (simp add: status_def spent_in_bucket_def sample_ledger_def decode_counter_def bucket_def Let_def
          saturating_add_def saturating_sub_def saturating_mul_def)
  show ?thesis
    using status_adds_up [OF sample_ledger_ok s] s v
    by (auto simp: sample_ledger_def spent_def)
qed

end
