(* ===== verification/Idempotency.thy ===== *)
theory Idempotency imports Errors "HOL-Library.AList" begin

text \<open>
  The idempotency cache of \<open>transfer\<close> (\<open>src/idempotency.rs\<close>).  The hash map is an association list
  with distinct keys, whose order is the iteration order; a \<open>Notify\<close> is its allocation number.
  Each critical section of the mutex is one function; the callers, which run between those sections
  and wait on notifiers, are a step relation over a system of a cache, a clock (nanoseconds) and one
  program counter per caller.  The computed value is a type parameter.
\<close>

section \<open>The critical sections\<close>

datatype 'r slot =
    InFlight nat
  | Done (stored_at: nat) (done_fingerprint: u64) (receipt: 'r)

type_synonym 'r slots = "(string \<times> 'r slot) list"

definition ttl :: nat where
  "ttl = 3600 * 10 ^ 9"

lemma ttl_pos: "0 < ttl"
  by (simp add: ttl_def)

definition max_done_entries :: nat where
  "max_done_entries = 10000"

definition gc :: "nat \<Rightarrow> 'r slots \<Rightarrow> 'r slots" where
  "gc now m = filter (\<lambda>(k, slot). case slot of
                 Done t fp r \<Rightarrow> now - t < ttl
               | InFlight n \<Rightarrow> True) m"

text \<open>\<open>min_by_key\<close>: the first of the smallest elements.\<close>

fun min_by_key :: "('a \<times> nat) list \<Rightarrow> ('a \<times> nat) option" where
  "min_by_key [] = None"
| "min_by_key (x # xs) =
     (case min_by_key xs of
        None \<Rightarrow> Some x
      | Some y \<Rightarrow> if snd x \<le> snd y then Some x else Some y)"

fun done_times :: "'r slots \<Rightarrow> (string \<times> nat) list" where
  "done_times [] = []"
| "done_times ((k, Done t fp r) # m) = (k, t) # done_times m"
| "done_times ((k, InFlight n) # m) = done_times m"

definition drop_oldest_done :: "'r slots \<Rightarrow> 'r slots" where
  "drop_oldest_done m =
     (case min_by_key (done_times m) of Some (k, t) \<Rightarrow> AList.delete k m | None \<Rightarrow> m)"

definition cache_len :: "nat \<Rightarrow> 'r slots \<Rightarrow> 'r slots \<times> nat" where
  "cache_len now m = (gc now m, length (gc now m))"

datatype 'r action = Return "'r res" | Wait nat | Compute nat

text \<open>The first critical section of the loop; \<open>fresh\<close> is the allocation number of a new notifier.\<close>

definition choose_action ::
    "nat \<Rightarrow> nat \<Rightarrow> 'r slots \<Rightarrow> string \<Rightarrow> u64 \<Rightarrow> 'r slots \<times> 'r action" where
  "choose_action now fresh m tok fp =
     (let g = gc now m in
      case map_of g tok of
        Some (Done t stored_fp r) \<Rightarrow>
          if stored_fp = fp then (g, Return (Inr r))
          else (g, Return (Inl (IdempotencyConflict tok)))
      | Some (InFlight n) \<Rightarrow> (g, Wait n)
      | None \<Rightarrow> (AList.update tok (InFlight fresh) g, Compute fresh))"

text \<open>The second critical section, once the computation has returned.\<close>

definition store_result :: "nat \<Rightarrow> 'r slots \<Rightarrow> string \<Rightarrow> u64 \<Rightarrow> 'r res \<Rightarrow> 'r slots" where
  "store_result now m tok fp result =
     (case result of
        Inr r \<Rightarrow>
          let m1 = (if length m \<ge> max_done_entries then drop_oldest_done m else m)
          in AList.update tok (Done now fp r) m1
      | Inl e \<Rightarrow> AList.delete tok m)"

subsection \<open>Facts about them\<close>

lemma distinct_gc [simp]: "distinct (map fst m) \<Longrightarrow> distinct (map fst (gc now m))"
  by (simp add: gc_def distinct_map_filter)

lemma map_of_gc:
  "distinct (map fst m) \<Longrightarrow>
     map_of (gc now m) k =
       (case map_of m k of
          Some (Done t fp r) \<Rightarrow> if now - t < ttl then Some (Done t fp r) else None
        | Some (InFlight n) \<Rightarrow> Some (InFlight n)
        | None \<Rightarrow> None)"
  by (simp add: gc_def map_of_filter_distinct split: option.splits slot.splits)

lemma min_by_key_in: "min_by_key xs = Some x \<Longrightarrow> x \<in> set xs"
  by (induction xs arbitrary: x) (auto split: option.splits if_splits)

lemma min_by_key_None [simp]: "min_by_key xs = None \<longleftrightarrow> xs = []"
  by (cases xs) (auto split: option.splits)

lemma done_times_in: "(k, t) \<in> set (done_times m) \<longleftrightarrow> (\<exists>fp r. (k, Done t fp r) \<in> set m)"
  by (induction m rule: done_times.induct) auto

lemma distinct_drop_oldest [simp]:
  "distinct (map fst m) \<Longrightarrow> distinct (map fst (drop_oldest_done m))"
  by (auto simp: drop_oldest_done_def distinct_delete split: option.splits)

lemma drop_oldest_keeps_inflight:
  assumes "distinct (map fst m)" and "map_of m k = Some (InFlight n)"
  shows "map_of (drop_oldest_done m) k = Some (InFlight n)"
proof (cases "min_by_key (done_times m)")
  case None
  then show ?thesis using assms by (simp add: drop_oldest_done_def)
next
  case (Some x)
  obtain k' t where x: "x = (k', t)" by (cases x)
  then obtain fp r where "(k', Done t fp r) \<in> set m"
    using min_by_key_in [OF Some] by (auto simp: done_times_in)
  then have "map_of m k' = Some (Done t fp r)" by (rule map_of_is_SomeI [OF assms(1)])
  then have "k' \<noteq> k" using assms(2) by auto
  then show ?thesis using Some x assms by (simp add: drop_oldest_done_def delete_conv')
qed

lemma drop_oldest_subset:
  "map_of (drop_oldest_done m) k = Some v \<Longrightarrow> map_of m k = Some v"
  by (auto simp: drop_oldest_done_def delete_conv' split: option.splits if_splits prod.splits)

lemma choose_action_distinct:
  "choose_action now fr m tok fp = (m', a) \<Longrightarrow> distinct (map fst m) \<Longrightarrow> distinct (map fst m')"
  by (auto simp: choose_action_def Let_def distinct_update
        split: option.splits slot.splits if_splits)

lemma choose_action_lookup:
  "choose_action now fr m tok fp = (m', a) \<Longrightarrow> distinct (map fst m) \<Longrightarrow>
     map_of m' k = (if k = tok \<and> a = Compute fr then Some (InFlight fr) else map_of (gc now m) k)"
  by (auto simp: choose_action_def Let_def update_conv'
        split: option.splits slot.splits if_splits)

lemma choose_action_compute:
  "choose_action now fr m tok fp = (m', Compute n) \<Longrightarrow> n = fr \<and> map_of (gc now m) tok = None"
  by (auto simp: choose_action_def Let_def split: option.splits slot.splits if_splits)

lemma choose_action_return:
  "choose_action now fr m tok fp = (m', Return (Inr r)) \<Longrightarrow>
     \<exists>t. map_of (gc now m) tok = Some (Done t fp r)"
  by (auto simp: choose_action_def Let_def split: option.splits slot.splits if_splits)

lemma store_result_distinct:
  "distinct (map fst m) \<Longrightarrow> distinct (map fst (store_result now m tok fp res))"
  by (auto simp: store_result_def Let_def distinct_update distinct_delete split: sum.splits)

lemma store_result_other_inflight:
  "distinct (map fst m) \<Longrightarrow> k \<noteq> tok \<Longrightarrow> map_of m k = Some (InFlight n) \<Longrightarrow>
     map_of (store_result now m tok fp res) k = Some (InFlight n)"
  by (auto simp: store_result_def Let_def update_conv' delete_conv' drop_oldest_keeps_inflight
        split: sum.splits)

lemma store_result_subset:
  "map_of (store_result now m tok fp res) k = Some v \<Longrightarrow>
     map_of m k = Some v \<or> (k = tok \<and> (\<exists>r. res = Inr r \<and> v = Done now fp r))"
  by (auto simp: store_result_def Let_def update_conv' delete_conv'
        split: sum.splits if_splits dest: drop_oldest_subset)

section \<open>Callers\<close>

text \<open>
  Where a caller of \<open>get_or_run\<close> is: about to take the lock at the head of the loop; holding a
  notifier it has not subscribed to yet (the lock is already released); subscribed and asleep;
  running the computation; past its second critical section, about to wake the sleepers; done.  A
  caller whose future is dropped before it returned is \<open>Dropped\<close>.
\<close>

datatype 'r pc =
    Entering | GotNotify nat | Asleep nat | Computing nat | Publishing nat "'r res"
  | Returned "'r res" | Dropped

record 'r caller =
  tok :: string
  fingerprint :: u64
  pc :: "'r pc"

text \<open>
  \<open>runs\<close> and \<open>evicted\<close> are history variables: the successful computations with the time they were
  stored at, and whether a live entry was ever dropped because the cache was full.
\<close>

record 'r system =
  cache :: "'r slots"
  callers :: "nat \<Rightarrow> 'r caller option"
  clock :: nat
  fresh :: nat
  runs :: "(string \<times> u64 \<times> 'r \<times> nat) list"
  evicted :: bool

definition start :: "'r system" where
  "start = \<lparr>cache = [], callers = Map.empty, clock = 0, fresh = 0, runs = [], evicted = False\<rparr>"

definition goto :: "nat \<Rightarrow> 'r caller \<Rightarrow> 'r pc \<Rightarrow> 'r system \<Rightarrow> 'r system" where
  "goto i c p s = s\<lparr>callers := (callers s)(i \<mapsto> c\<lparr>pc := p\<rparr>)\<rparr>"

definition after_action :: "'r action \<Rightarrow> 'r pc" where
  "after_action a =
     (case a of Return r \<Rightarrow> Returned r | Wait n \<Rightarrow> GotNotify n | Compute n \<Rightarrow> Computing n)"

definition enter :: "nat \<Rightarrow> 'r caller \<Rightarrow> 'r system \<Rightarrow> 'r system" where
  "enter i c s =
     (let (m, a) = choose_action (clock s) (fresh s) (cache s) (tok c) (fingerprint c) in
      goto i c (after_action a)
        (s\<lparr>cache := m, fresh := (if a = Compute (fresh s) then Suc (fresh s) else fresh s)\<rparr>))"

definition finish :: "nat \<Rightarrow> 'r caller \<Rightarrow> nat \<Rightarrow> 'r res \<Rightarrow> 'r system \<Rightarrow> 'r system" where
  "finish i c n result s =
     goto i c (Publishing n result)
       (s\<lparr>cache := store_result (clock s) (cache s) (tok c) (fingerprint c) result,
          runs := (case result of
                     Inr r \<Rightarrow> (tok c, fingerprint c, r, clock s) # runs s
                   | Inl e \<Rightarrow> runs s),
          evicted := evicted s \<or> ((\<exists>r. result = Inr r) \<and> length (cache s) \<ge> max_done_entries)\<rparr>)"

text \<open>\<open>notify_waiters\<close> wakes those who are subscribed; it leaves nothing behind for the others.\<close>

definition wake :: "nat \<Rightarrow> 'r caller option \<Rightarrow> 'r caller option" where
  "wake n c = (case c of
                 None \<Rightarrow> None
               | Some d \<Rightarrow> Some (if pc d = Asleep n then d\<lparr>pc := Entering\<rparr> else d))"

definition publish :: "nat \<Rightarrow> 'r caller \<Rightarrow> nat \<Rightarrow> 'r res \<Rightarrow> 'r system \<Rightarrow> 'r system" where
  "publish i c n result s =
     goto i c (Returned result) (s\<lparr>callers := (\<lambda>j. wake n (callers s j))\<rparr>)"

text \<open>A future can be dropped only where it is suspended: before it is polled, at \<open>notified().await\<close>
  and at \<open>f().await\<close>.\<close>

definition suspended :: "'r pc \<Rightarrow> bool" where
  "suspended p = (case p of Entering \<Rightarrow> True | Asleep n \<Rightarrow> True | Computing n \<Rightarrow> True | _ \<Rightarrow> False)"

inductive sys_step :: "'r system \<Rightarrow> 'r system \<Rightarrow> bool" where
  tick: "clock s \<le> t \<Longrightarrow> sys_step s (s\<lparr>clock := t\<rparr>)"
| arrive: "callers s i = None \<Longrightarrow>
    sys_step s (s\<lparr>callers := (callers s)(i \<mapsto> \<lparr>tok = t, fingerprint = fp, pc = Entering\<rparr>)\<rparr>)"
| enter: "callers s i = Some c \<Longrightarrow> pc c = Entering \<Longrightarrow> sys_step s (enter i c s)"
| subscribe: "callers s i = Some c \<Longrightarrow> pc c = GotNotify n \<Longrightarrow> sys_step s (goto i c (Asleep n) s)"
| finish: "callers s i = Some c \<Longrightarrow> pc c = Computing n \<Longrightarrow> sys_step s (finish i c n result s)"
| publish: "callers s i = Some c \<Longrightarrow> pc c = Publishing n result \<Longrightarrow>
    sys_step s (publish i c n result s)"
| cancel: "callers s i = Some c \<Longrightarrow> suspended (pc c) \<Longrightarrow> sys_step s (goto i c Dropped s)"

inductive reachable :: "'r system \<Rightarrow> bool" where
  reachable_start: "reachable start"
| reachable_step: "reachable s \<Longrightarrow> sys_step s s' \<Longrightarrow> reachable s'"

subsection \<open>The invariant\<close>

text \<open>
  Keys are distinct; a computing caller owns the slot of its token, under a notifier no other
  computing caller has; the notifiers in the table were allocated.
\<close>

definition owners_ok :: "'r system \<Rightarrow> bool" where
  "owners_ok s \<longleftrightarrow>
     distinct (map fst (cache s))
   \<and> (\<forall>k n. map_of (cache s) k = Some (InFlight n) \<longrightarrow> n < fresh s)
   \<and> (\<forall>i c n. callers s i = Some c \<longrightarrow> pc c = Computing n \<longrightarrow>
         map_of (cache s) (tok c) = Some (InFlight n))
   \<and> (\<forall>i j c d n. callers s i = Some c \<longrightarrow> callers s j = Some d \<longrightarrow>
         pc c = Computing n \<longrightarrow> pc d = Computing n \<longrightarrow> i = j)"

lemma owners_okD:
  assumes "owners_ok s"
  shows "distinct (map fst (cache s))"
    and "map_of (cache s) k = Some (InFlight n) \<Longrightarrow> n < fresh s"
    and "callers s i = Some c \<Longrightarrow> pc c = Computing n \<Longrightarrow> map_of (cache s) (tok c) = Some (InFlight n)"
    and "callers s i = Some c \<Longrightarrow> callers s j = Some d \<Longrightarrow> pc c = Computing n \<Longrightarrow>
           pc d = Computing n \<Longrightarrow> i = j"
  using assms unfolding owners_ok_def by blast+

lemma owners_ok_same_cache:
  assumes "owners_ok s" and "cache s' = cache s" and "fresh s' = fresh s"
    and "\<And>i c n. callers s' i = Some c \<Longrightarrow> pc c = Computing n \<Longrightarrow> callers s i = Some c"
  shows "owners_ok s'"
  using assms(1) unfolding owners_ok_def assms(2,3) by (metis assms(4))

lemma owners_ok_enter:
  assumes ok: "owners_ok s" and i: "callers s i = Some c" "pc c = Entering"
  shows "owners_ok (enter i c s)"
proof (cases "choose_action (clock s) (fresh s) (cache s) (tok c) (fingerprint c)")
  case (Pair m a)
  let ?s = "enter i c s"
  note d = owners_okD(1) [OF ok]
  have cache: "cache ?s = m" and pcs: "callers ?s = (callers s)(i \<mapsto> c\<lparr>pc := after_action a\<rparr>)"
    and fr: "fresh ?s = (if a = Compute (fresh s) then Suc (fresh s) else fresh s)"
    using Pair by (simp_all add: enter_def goto_def)
  have look: "map_of m k = (if k = tok c \<and> a = Compute (fresh s) then Some (InFlight (fresh s))
                            else map_of (gc (clock s) (cache s)) k)" for k
    using Pair d by (rule choose_action_lookup)
  have keep: "map_of m k = Some (InFlight n)" if "map_of (cache s) k = Some (InFlight n)" for k n
  proof -
    have *: "map_of (gc (clock s) (cache s)) k = Some (InFlight n)"
      using that d by (simp add: map_of_gc)
    moreover have "map_of (gc (clock s) (cache s)) (tok c) = None" if "a = Compute (fresh s)"
      using that Pair choose_action_compute by metis
    ultimately show ?thesis using look [of k] by auto
  qed
  have alloc: "n < fresh ?s" if "map_of m k = Some (InFlight n)" for k n
    using that look [of k] owners_okD(2) [OF ok, of k n] d
    by (auto simp: fr map_of_gc split: if_splits option.splits slot.splits intro: less_SucI)
  have comp: "n = fresh s \<and> a = Compute (fresh s)" if "after_action a = Computing n" for n
  proof -
    have a: "a = Compute n" using that by (cases a) (auto simp: after_action_def)
    then have "n = fresh s" using Pair choose_action_compute by metis
    then show ?thesis using a by simp
  qed
  have old: "n < fresh s" if "callers s j = Some e" "pc e = Computing n" for j e n
    using owners_okD(2) [OF ok owners_okD(3) [OF ok that]] .
  show ?thesis unfolding owners_ok_def cache pcs
  proof (intro conjI allI impI)
    show "distinct (map fst m)" using Pair d by (rule choose_action_distinct)
    show "n < fresh ?s" if "map_of m k = Some (InFlight n)" for k n using that by (rule alloc)
    show "map_of m (tok e) = Some (InFlight n)"
      if e: "((callers s)(i \<mapsto> c\<lparr>pc := after_action a\<rparr>)) j = Some e" "pc e = Computing n" for j e n
    proof (cases "j = i")
      case True
      then show ?thesis using e comp [of n] look [of "tok c"] by auto
    next
      case False
      then show ?thesis using e keep owners_okD(3) [OF ok] by simp
    qed
    show "j = k"
      if "((callers s)(i \<mapsto> c\<lparr>pc := after_action a\<rparr>)) j = Some e" "pc e = Computing n"
        "((callers s)(i \<mapsto> c\<lparr>pc := after_action a\<rparr>)) k = Some e'" "pc e' = Computing n" for j k e e' n
      using that comp [of n] old [of j e n] old [of k e' n] owners_okD(4) [OF ok, of j e k e' n]
      by (cases "j = i"; cases "k = i") auto
  qed
qed

lemma owners_ok_finish:
  assumes ok: "owners_ok s" and i: "callers s i = Some c" "pc c = Computing n"
  shows "owners_ok (finish i c n result s)"
proof -
  let ?s = "finish i c n result s"
  let ?m = "store_result (clock s) (cache s) (tok c) (fingerprint c) result"
  note d = owners_okD(1) [OF ok]
  have cache: "cache ?s = ?m" and pcs: "callers ?s = (callers s)(i \<mapsto> c\<lparr>pc := Publishing n result\<rparr>)"
    and fr: "fresh ?s = fresh s"
    by (simp_all add: finish_def goto_def)
  have own: "map_of (cache s) (tok c) = Some (InFlight n)" using owners_okD(3) [OF ok i] .
  show ?thesis unfolding owners_ok_def cache pcs fr
  proof (intro conjI allI impI)
    show "distinct (map fst ?m)" using d by (rule store_result_distinct)
    show "k' < fresh s" if "map_of ?m k = Some (InFlight k')" for k k'
      using that owners_okD(2) [OF ok] by (auto dest: store_result_subset)
    show "map_of ?m (tok e) = Some (InFlight k)"
      if "((callers s)(i \<mapsto> c\<lparr>pc := Publishing n result\<rparr>)) j = Some e" "pc e = Computing k" for j e k
    proof -
      have j: "j \<noteq> i" "callers s j = Some e" using that by (auto split: if_splits)
      have e: "map_of (cache s) (tok e) = Some (InFlight k)" using owners_okD(3) [OF ok j(2) that(2)] .
      have "tok e \<noteq> tok c"
        using e own owners_okD(4) [OF ok j(2) i(1) that(2)] i(2) j(1) by auto
      then show ?thesis using store_result_other_inflight [OF d _ e] by blast
    qed
    show "j = k"
      if "((callers s)(i \<mapsto> c\<lparr>pc := Publishing n result\<rparr>)) j = Some e" "pc e = Computing k'"
        "((callers s)(i \<mapsto> c\<lparr>pc := Publishing n result\<rparr>)) k = Some e'" "pc e' = Computing k'"
      for j k e e' k'
      using that owners_okD(4) [OF ok] by (auto split: if_splits)
  qed
qed

lemma owners_ok_step: "sys_step s s' \<Longrightarrow> owners_ok s \<Longrightarrow> owners_ok s'"
proof (induction rule: sys_step.induct)
  case (tick s t)
  then show ?case by (rule_tac owners_ok_same_cache) auto
next
  case (arrive s i t fp)
  then show ?case by (rule_tac owners_ok_same_cache [of s]) (auto split: if_splits)
next
  case (enter s i c)
  then show ?case by (intro owners_ok_enter)
next
  case (subscribe s i c n)
  then show ?case by (rule_tac owners_ok_same_cache [of s]) (auto simp: goto_def split: if_splits)
next
  case (finish s i c n result)
  then show ?case by (intro owners_ok_finish)
next
  case (publish s i c n result)
  then show ?case
    by (rule_tac owners_ok_same_cache [of s])
       (auto simp: publish_def goto_def wake_def split: if_splits option.splits)
next
  case (cancel s i c)
  then show ?case by (rule_tac owners_ok_same_cache [of s]) (auto simp: goto_def split: if_splits)
qed

lemma owners_ok_reachable: "reachable s \<Longrightarrow> owners_ok s"
proof (induction rule: reachable.induct)
  case reachable_start
  show ?case by (simp add: owners_ok_def start_def)
next
  case (reachable_step s s')
  show ?case by (rule owners_ok_step [OF reachable_step.hyps(2) reachable_step.IH])
qed

subsection \<open>The history\<close>

text \<open>Two successful computations under one token are at least \<open>ttl\<close> apart (newest first).\<close>

fun spaced :: "(string \<times> u64 \<times> 'r \<times> nat) list \<Rightarrow> bool" where
  "spaced [] \<longleftrightarrow> True"
| "spaced ((k, fp, r, t) # xs) \<longleftrightarrow>
     (\<forall>(k', fp', r', t') \<in> set xs. k' = k \<longrightarrow> t' + ttl \<le> t) \<and> spaced xs"

definition result_of :: "'r pc \<Rightarrow> 'r option" where
  "result_of p = (case p of
      Publishing n (Inr r) \<Rightarrow> Some r | Returned (Inr r) \<Rightarrow> Some r | _ \<Rightarrow> None)"

lemma result_of_simps [simp]:
  "result_of Entering = None" "result_of (GotNotify n) = None" "result_of (Asleep n) = None"
  "result_of (Computing n) = None" "result_of Dropped = None"
  "result_of (Publishing n (Inr r)) = Some r" "result_of (Publishing n (Inl e)) = None"
  "result_of (Returned (Inr r)) = Some r" "result_of (Returned (Inl e)) = None"
  by (simp_all add: result_of_def)

definition cached_runs :: "'r system \<Rightarrow> bool" where
  "cached_runs s \<longleftrightarrow>
     (\<forall>k t fp r. map_of (cache s) k = Some (Done t fp r) \<longrightarrow> (k, fp, r, t) \<in> set (runs s))"

definition answered_runs :: "'r system \<Rightarrow> bool" where
  "answered_runs s \<longleftrightarrow>
     (\<forall>i c r. callers s i = Some c \<longrightarrow> result_of (pc c) = Some r \<longrightarrow>
        (\<exists>t. (tok c, fingerprint c, r, t) \<in> set (runs s)))"

definition live_runs_cached :: "'r system \<Rightarrow> bool" where
  "live_runs_cached s \<longleftrightarrow>
     (\<not> evicted s \<longrightarrow>
        (\<forall>k fp r t. (k, fp, r, t) \<in> set (runs s) \<longrightarrow>
            t + ttl \<le> clock s \<or> map_of (cache s) k = Some (Done t fp r)))"

lemma live_runs_cachedD:
  "live_runs_cached s \<Longrightarrow> \<not> evicted s \<Longrightarrow> (k, fp, r, t) \<in> set (runs s) \<Longrightarrow>
     map_of (cache s) k \<noteq> Some (Done t fp r) \<Longrightarrow> t + ttl \<le> clock s"
  unfolding live_runs_cached_def by blast

lemma live_runs_cached_same_runs:
  assumes "live_runs_cached s" and "runs s' = runs s" and "clock s' = clock s"
    and "evicted s' = evicted s"
    and "\<And>k t fp r. map_of (cache s) k = Some (Done t fp r) \<Longrightarrow> \<not> t + ttl \<le> clock s \<Longrightarrow>
            map_of (cache s') k = Some (Done t fp r)"
  shows "live_runs_cached s'"
  using assms(1) unfolding live_runs_cached_def assms(2-4) using assms(5) by blast

lemma enter_parts:
  assumes "owners_ok s"
  shows "runs (enter i c s) = runs s" and "clock (enter i c s) = clock s"
    and "evicted (enter i c s) = evicted s"
    and "map_of (cache (enter i c s)) k = Some (Done t fp r) \<longleftrightarrow>
           map_of (gc (clock s) (cache s)) k = Some (Done t fp r)"
proof -
  obtain m a where ma: "choose_action (clock s) (fresh s) (cache s) (tok c) (fingerprint c) = (m, a)"
    by fastforce
  show "runs (enter i c s) = runs s" "clock (enter i c s) = clock s" "evicted (enter i c s) = evicted s"
    using ma by (simp_all add: enter_def goto_def)
  have "map_of m k = (if k = tok c \<and> a = Compute (fresh s) then Some (InFlight (fresh s))
                      else map_of (gc (clock s) (cache s)) k)"
    using ma owners_okD(1) [OF assms] by (rule choose_action_lookup)
  moreover have "map_of (gc (clock s) (cache s)) (tok c) = None" if "a = Compute (fresh s)"
    using that ma choose_action_compute by metis
  ultimately show "map_of (cache (enter i c s)) k = Some (Done t fp r) \<longleftrightarrow>
      map_of (gc (clock s) (cache s)) k = Some (Done t fp r)"
    using ma by (auto simp: enter_def goto_def split: if_splits)
qed

lemma finish_parts:
  "cache (finish i c n result s) = store_result (clock s) (cache s) (tok c) (fingerprint c) result"
  "clock (finish i c n result s) = clock s"
  "runs (finish i c n result s) =
     (case result of Inr r \<Rightarrow> (tok c, fingerprint c, r, clock s) # runs s | Inl e \<Rightarrow> runs s)"
  by (simp_all add: finish_def goto_def)

lemma cached_runs_step: "sys_step s s' \<Longrightarrow> owners_ok s \<Longrightarrow> cached_runs s \<Longrightarrow> cached_runs s'"
proof (induction rule: sys_step.induct)
  case (enter s i c)
  then show ?case
    by (auto simp: cached_runs_def enter_parts map_of_gc [OF owners_okD(1)]
          split: option.splits slot.splits if_splits)
next
  case (finish s i c n result)
  then show ?case
    by (auto simp: cached_runs_def finish_parts dest!: store_result_subset split: sum.splits)
qed (auto simp: cached_runs_def goto_def publish_def)

lemma answered_runs_enter:
  assumes "owners_ok s" "cached_runs s" "answered_runs s" and i: "callers s i = Some c" "pc c = Entering"
  shows "answered_runs (enter i c s)"
proof -
  obtain m a where ma: "choose_action (clock s) (fresh s) (cache s) (tok c) (fingerprint c) = (m, a)"
    by fastforce
  have "\<exists>t. (tok c, fingerprint c, r, t) \<in> set (runs s)" if r: "result_of (after_action a) = Some r" for r
  proof -
    have "a = Return (Inr r)"
      using r by (cases a) (auto simp: after_action_def result_of_def split: sum.splits)
    then obtain t where "map_of (gc (clock s) (cache s)) (tok c) = Some (Done t (fingerprint c) r)"
      using ma choose_action_return by metis
    then have "map_of (cache s) (tok c) = Some (Done t (fingerprint c) r)"
      using owners_okD(1) [OF assms(1)]
      by (auto simp: map_of_gc split: option.splits slot.splits if_splits)
    then show ?thesis using assms(2) unfolding cached_runs_def by blast
  qed
  then show ?thesis using assms(3) ma
    by (auto simp: answered_runs_def enter_parts [OF assms(1)])
       (auto simp: enter_def goto_def split: if_splits)
qed

lemma answered_runs_step:
  "sys_step s s' \<Longrightarrow> owners_ok s \<Longrightarrow> cached_runs s \<Longrightarrow> answered_runs s \<Longrightarrow> answered_runs s'"
proof (induction rule: sys_step.induct)
  case (enter s i c)
  then show ?case by (intro answered_runs_enter)
next
  case (finish s i c n result)
  then show ?case
    by (cases result) (fastforce simp: answered_runs_def finish_def goto_def split: if_splits)+
next
  case (publish s i c n result)
  then show ?case
    by (cases result)
       (auto simp: answered_runs_def publish_def goto_def wake_def split: if_splits option.splits)
qed (auto simp: answered_runs_def goto_def split: if_splits)

lemma live_runs_cached_finish:
  assumes ok: "owners_ok s" and live: "live_runs_cached s"
    and i: "callers s i = Some c" "pc c = Computing n"
  shows "live_runs_cached (finish i c n result s)"
proof -
  have own: "map_of (cache s) (tok c) = Some (InFlight n)" using owners_okD(3) [OF ok i] .
  show ?thesis
  proof (cases result)
    case (Inl e)
    have "map_of (cache (finish i c n result s)) k = Some (Done t fp r)"
      if "map_of (cache s) k = Some (Done t fp r)" for k t fp r
      using that Inl own by (auto simp: finish_parts store_result_def delete_conv')
    then show ?thesis using Inl
      by (intro live_runs_cached_same_runs [OF live]) (simp_all add: finish_def goto_def)
  next
    case (Inr r)
    show ?thesis
    proof (cases "length (cache s) \<ge> max_done_entries \<or> evicted s")
      case True
      then show ?thesis using Inr by (auto simp: live_runs_cached_def finish_def goto_def)
    next
      case False
      then have m: "map_of (cache (finish i c n result s)) k =
          (if k = tok c then Some (Done (clock s) (fingerprint c) r) else map_of (cache s) k)" for k
        using Inr by (simp add: finish_parts store_result_def update_conv')
      have old: "t + ttl \<le> clock s" if "(k, fp, q, t) \<in> set (runs s)"
        "k = tok c \<or> map_of (cache s) k \<noteq> Some (Done t fp q)" for k fp q t
        using live_runs_cachedD [OF live _ that(1)] that(2) own False by auto
      show ?thesis unfolding live_runs_cached_def
      proof (intro impI allI)
        fix k fp q t
        assume "(k, fp, q, t) \<in> set (runs (finish i c n result s))"
        then consider "k = tok c" "fp = fingerprint c" "q = r" "t = clock s" | "(k, fp, q, t) \<in> set (runs s)"
          using Inr by (auto simp: finish_parts)
        then show "t + ttl \<le> clock (finish i c n result s)
            \<or> map_of (cache (finish i c n result s)) k = Some (Done t fp q)"
          by cases (use old [of k fp q t] in \<open>auto simp: m finish_parts(2)\<close>)
      qed
    qed
  qed
qed

lemma live_runs_cached_step:
  "sys_step s s' \<Longrightarrow> owners_ok s \<Longrightarrow> live_runs_cached s \<Longrightarrow> live_runs_cached s'"
proof (induction rule: sys_step.induct)
  case (enter s i c)
  then have "map_of (gc (clock s) (cache s)) k = Some (Done t fp r)"
    if "map_of (cache s) k = Some (Done t fp r)" "\<not> t + ttl \<le> clock s" for k t fp r
    using that enter ttl_pos by (auto simp: map_of_gc [OF owners_okD(1)])
  then show ?case using enter
    by (intro live_runs_cached_same_runs [OF enter.prems(2)]) (simp_all add: enter_parts)
next
  case (tick s t)
  then show ?case unfolding live_runs_cached_def by simp (meson order_trans)
next
  case (finish s i c n result)
  then show ?case by (intro live_runs_cached_finish)
qed (auto simp: live_runs_cached_def goto_def publish_def)

lemma spaced_step:
  assumes "sys_step s s'" and "owners_ok s" and "live_runs_cached s"
    and "\<not> evicted s \<Longrightarrow> spaced (runs s)" and "\<not> evicted s'"
  shows "spaced (runs s')"
  using assms
proof (induction rule: sys_step.induct)
  case (finish s i c n result)
  have own: "map_of (cache s) (tok c) = Some (InFlight n)"
    using owners_okD(3) [OF finish.prems(1) finish.hyps] .
  have "\<not> evicted s" using finish.prems(4) by (simp add: finish_def goto_def)
  then show ?case using finish.prems(2,3) own
    by (cases result) (auto simp: finish_parts dest!: live_runs_cachedD)
qed (auto simp: goto_def publish_def enter_parts)

lemma history_reachable:
  "reachable s \<Longrightarrow> cached_runs s \<and> answered_runs s \<and> live_runs_cached s
     \<and> (\<not> evicted s \<longrightarrow> spaced (runs s))"
proof (induction rule: reachable.induct)
  case reachable_start
  show ?case
    by (simp add: start_def cached_runs_def answered_runs_def live_runs_cached_def)
next
  case (reachable_step s s')
  have ok: "owners_ok s" using reachable_step.hyps(1) by (rule owners_ok_reachable)
  show ?case
    using reachable_step.IH cached_runs_step [OF reachable_step.hyps(2) ok]
      answered_runs_step [OF reachable_step.hyps(2) ok]
      live_runs_cached_step [OF reachable_step.hyps(2) ok] spaced_step [OF reachable_step.hyps(2) ok]
    by blast
qed

section \<open>Properties\<close>

text \<open>Concurrent callers with one client token never compute at the same time, whatever the
  interleaving: in every reachable state at most one caller runs the transfer of a token.\<close>

theorem one_computation_per_token:
  assumes "reachable s" and "callers s i = Some c" and "callers s j = Some d"
    and "tok c = tok d" and "pc c = Computing m" and "pc d = Computing n"
  shows "i = j"
proof -
  have ok: "owners_ok s" using assms(1) by (rule owners_ok_reachable)
  have "m = n"
    using owners_okD(3) [OF ok assms(2,5)] owners_okD(3) [OF ok assms(3,6)] assms(4) by simp
  then show ?thesis using owners_okD(4) [OF ok assms(2,3,5)] assms(6) by simp
qed

definition demo_caller :: "nat pc \<Rightarrow> nat caller" where
  "demo_caller p = \<lparr>tok = ''t'', fingerprint = 7, pc = p\<rparr>"

definition demo :: "(nat \<rightharpoonup> nat caller) \<Rightarrow> nat slots \<Rightarrow> nat \<Rightarrow> (string \<times> u64 \<times> nat \<times> nat) list \<Rightarrow> nat system" where
  "demo cs m k h = \<lparr>cache = m, callers = cs, clock = 0, fresh = k, runs = h, evicted = False\<rparr>"

lemma demo_simps [simp]:
  "cache (demo cs m k h) = m" "callers (demo cs m k h) = cs" "clock (demo cs m k h) = 0"
  "fresh (demo cs m k h) = k" "runs (demo cs m k h) = h" "evicted (demo cs m k h) = False"
  "pc (demo_caller p) = p" "tok (demo_caller p) = ''t''" "fingerprint (demo_caller p) = 7"
  "demo_caller p\<lparr>pc := q\<rparr> = demo_caller q"
  by (simp_all add: demo_def demo_caller_def)

lemma demo_updates [simp]:
  "(demo cs m k h)\<lparr>callers := cs'\<rparr> = demo cs' m k h"
  by (simp add: demo_def)

lemma demo_computing: "reachable (demo [0 \<mapsto> demo_caller (Computing 0)] [(''t'', InFlight 0)] 1 [])"
proof -
  have "reachable (demo Map.empty [] 0 [])"
    using reachable_start by (simp add: start_def demo_def)
  from reachable_step [OF this arrive [of _ 0 "''t''" 7]]
  have "reachable (demo [0 \<mapsto> demo_caller Entering] [] 0 [])" by (simp add: demo_caller_def)
  from reachable_step [OF this enter [of _ 0 "demo_caller Entering"]]
  show ?thesis
    by (simp add: enter_def goto_def choose_action_def gc_def after_action_def demo_def Let_def)
qed

lemma demo_two_asking:
  "reachable (demo [0 \<mapsto> demo_caller (Computing 0), 1 \<mapsto> demo_caller (GotNotify 0)] [(''t'', InFlight 0)] 1 [])"
proof -
  from reachable_step [OF demo_computing arrive [of _ 1 "''t''" 7]]
  have "reachable (demo [0 \<mapsto> demo_caller (Computing 0), 1 \<mapsto> demo_caller Entering] [(''t'', InFlight 0)] 1 [])"
    by (simp add: demo_caller_def)
  from reachable_step [OF this enter [of _ 1 "demo_caller Entering"]]
  show ?thesis
    by (simp add: enter_def goto_def choose_action_def gc_def after_action_def demo_def Let_def)
qed

lemma one_computation_per_token_witness:
  "\<exists>s :: nat system. reachable s \<and> callers s 0 = Some (demo_caller (Computing 0)) \<and>
     (\<forall>j d n. callers s j = Some d \<longrightarrow> tok d = ''t'' \<longrightarrow> pc d = Computing n \<longrightarrow> 0 = j)"
proof (intro exI conjI allI impI)
  let ?s = "demo [0 \<mapsto> demo_caller (Computing 0), 1 \<mapsto> demo_caller (GotNotify 0)] [(''t'', InFlight 0)] 1 []"
  show "reachable ?s" by (rule demo_two_asking)
  show "callers ?s 0 = Some (demo_caller (Computing 0))" by simp
  show "0 = j" if "callers ?s j = Some d" "tok d = ''t''" "pc d = Computing n" for j d n
    by (rule one_computation_per_token [OF demo_two_asking, of 0 "demo_caller (Computing 0)" j d 0 n])
       (use that in simp_all)
qed

text \<open>C15: What a caller is answered, and how often a token runs.  A receipt is only ever returned to a
  caller whose own token and fingerprint produced it in an actual successful run; and as long as the
  cache never overflowed, two successful runs under one token are at least one hour apart, so a retry
  within the hour cannot spend twice.\<close>

theorem token_runs_once_per_ttl:
  assumes "reachable s"
  shows "(callers s i = Some c \<and> pc c = Returned (Inr r) \<longrightarrow>
            (\<exists>t. (tok c, fingerprint c, r, t) \<in> set (runs s)))
       \<and> (\<not> evicted s \<longrightarrow> spaced (runs s))"
proof -
  have "answered_runs s" and "\<not> evicted s \<longrightarrow> spaced (runs s)"
    using history_reachable [OF assms] by blast+
  then show ?thesis unfolding answered_runs_def by (metis result_of_simps(8))
qed

lemma token_runs_once_per_ttl_witness:
  "\<exists>s :: nat system. reachable s \<and> runs s = [(''t'', 7, 42, 0)] \<and> (\<not> evicted s \<longrightarrow> spaced (runs s))"
proof -
  from reachable_step [OF demo_computing finish [of _ 0 "demo_caller (Computing 0)" 0 "Inr 42"]]
  have "reachable (demo [0 \<mapsto> demo_caller (Publishing 0 (Inr 42))] [(''t'', Done 0 7 42)] 1 [(''t'', 7, 42, 0)])"
    by (simp add: finish_def goto_def store_result_def max_done_entries_def demo_def)
  with token_runs_once_per_ttl [OF this] show ?thesis by (intro exI conjI) auto
qed

section \<open>A wake-up that is lost\<close>

text \<open>
  The lock is released before \<open>notified()\<close> registers the waiter, and \<open>notify_waiters\<close> keeps no
  permit, so the computation can end in between.  A caller asleep on notifier \<open>n\<close> is \<open>stranded\<close> when
  nobody is left who would wake that notifier.
\<close>

definition stranded :: "'r system \<Rightarrow> nat \<Rightarrow> nat \<Rightarrow> bool" where
  "stranded s i n \<longleftrightarrow>
     n < fresh s
   \<and> (\<exists>c. callers s i = Some c \<and> (pc c = Asleep n \<or> pc c = Dropped))
   \<and> (\<forall>j c. callers s j = Some c \<longrightarrow> pc c \<noteq> Computing n \<and> (\<forall>r. pc c \<noteq> Publishing n r))"

lemma strandedE:
  assumes "stranded s i n"
  obtains c where "callers s i = Some c" "pc c = Asleep n \<or> pc c = Dropped" "n < fresh s"
    "\<And>j c. callers s j = Some c \<Longrightarrow> pc c \<noteq> Computing n"
    "\<And>j c r. callers s j = Some c \<Longrightarrow> pc c \<noteq> Publishing n r"
  using assms unfolding stranded_def by blast

lemma stranded_goto:
  assumes "stranded s i n" and "callers s j = Some d"
    and "j = i \<Longrightarrow> p = Dropped" and "p \<noteq> Computing n" and "\<And>r. p \<noteq> Publishing n r"
  shows "stranded (goto j d p s) i n"
  using assms(1)
proof (rule strandedE)
  fix c
  assume c: "callers s i = Some c" "pc c = Asleep n \<or> pc c = Dropped" "n < fresh s"
    "\<And>j c. callers s j = Some c \<Longrightarrow> pc c \<noteq> Computing n"
    "\<And>j c r. callers s j = Some c \<Longrightarrow> pc c \<noteq> Publishing n r"
  show ?thesis unfolding stranded_def
    using c assms(2-5) by (auto simp: goto_def split: if_splits)
qed

lemma stranded_frame:
  "stranded s i n \<Longrightarrow> callers s' = callers s \<Longrightarrow> fresh s \<le> fresh s' \<Longrightarrow> stranded s' i n"
  unfolding stranded_def by auto

lemma stranded_step: "sys_step s s' \<Longrightarrow> stranded s i n \<Longrightarrow> stranded s' i n"
proof (induction rule: sys_step.induct)
  case (tick s t)
  then show ?case by (rule_tac stranded_frame) auto
next
  case (arrive s j t fp)
  then show ?case unfolding stranded_def by auto
next
  case (enter s j c)
  obtain m a where ma: "choose_action (clock s) (fresh s) (cache s) (tok c) (fingerprint c) = (m, a)"
    by fastforce
  let ?t = "s\<lparr>cache := m, fresh := (if a = Compute (fresh s) then Suc (fresh s) else fresh s)\<rparr>"
  have t: "stranded ?t i n" using enter.prems by (rule stranded_frame) simp_all
  have "n < fresh s" and "j \<noteq> i"
    using enter by (auto elim!: strandedE)
  moreover have "after_action a \<noteq> Computing n"
  proof
    assume "after_action a = Computing n"
    then have "a = Compute n" by (cases a) (auto simp: after_action_def)
    then show False using ma \<open>n < fresh s\<close> choose_action_compute by (metis less_irrefl)
  qed
  moreover have "after_action a \<noteq> Publishing n r" for r
    by (cases a) (auto simp: after_action_def)
  ultimately have "stranded (goto j c (after_action a) ?t) i n"
    using t enter.hyps(1) by (intro stranded_goto) auto
  then show ?case using ma by (simp add: enter_def)
next
  case (subscribe s j c k)
  then show ?case by (intro stranded_goto) (auto elim!: strandedE)
next
  case (finish s j c k result)
  have "k \<noteq> n" and "j \<noteq> i" using finish by (auto elim!: strandedE)
  then show ?case unfolding finish_def using finish
    by (intro stranded_goto stranded_frame [OF finish.prems]) auto
next
  case (publish s j c k result)
  have "k \<noteq> n" and "j \<noteq> i" using publish by (auto elim!: strandedE)
  then show ?case using publish.prems publish.hyps
    unfolding stranded_def publish_def goto_def wake_def
    by (auto split: option.splits if_splits)
next
  case (cancel s j c)
  then show ?case by (intro stranded_goto) auto
qed

text \<open>Caller \<open>i\<close> never returns, whatever happens next.\<close>

definition never_answered :: "'r system \<Rightarrow> nat \<Rightarrow> bool" where
  "never_answered s i \<longleftrightarrow>
     (\<forall>s' c r. sys_step\<^sup>*\<^sup>* s s' \<longrightarrow> callers s' i = Some c \<longrightarrow> pc c \<noteq> Returned r)"

lemma stranded_never_answered: "stranded s i n \<Longrightarrow> never_answered s i"
proof -
  assume st: "stranded s i n"
  have "stranded s' i n" if "sys_step\<^sup>*\<^sup>* s s'" for s'
    using that st by (induction rule: rtranclp_induct) (auto intro: stranded_step)
  then show ?thesis unfolding never_answered_def by (fastforce elim!: strandedE)
qed

text \<open>A wake-up can be lost.  There is an execution in which the first caller succeeds, its receipt
  sits in the cache, and the second caller, asking with the same token and fingerprint, sleeps on
  the notifier of the finished computation and is never answered in any continuation.\<close>

theorem lost_wakeup:
  "\<exists>s :: nat system. reachable s
     \<and> map_of (cache s) ''t'' = Some (Done 0 7 42)
     \<and> (\<exists>c. callers s 0 = Some c \<and> pc c = Returned (Inr 42))
     \<and> (\<exists>c. callers s 1 = Some c \<and> tok c = ''t'' \<and> fingerprint c = 7 \<and> pc c = Asleep 0)
     \<and> never_answered s 1"
proof -
  let ?m = "[(''t'', Done 0 7 (42::nat))]" and ?h = "[(''t'', 7, 42, 0)]"
  let ?s = "demo [0 \<mapsto> demo_caller (Returned (Inr 42)), 1 \<mapsto> demo_caller (Asleep 0)] ?m 1 ?h"
  from reachable_step [OF demo_two_asking finish [of _ 0 "demo_caller (Computing 0)" 0 "Inr 42"]]
  have "reachable (demo [0 \<mapsto> demo_caller (Publishing 0 (Inr 42)), 1 \<mapsto> demo_caller (GotNotify 0)] ?m 1 ?h)"
    by (simp add: finish_def goto_def store_result_def max_done_entries_def demo_def fun_upd_twist)
  from reachable_step [OF this publish [of _ 0 "demo_caller (Publishing 0 (Inr 42))" 0 "Inr 42"]]
  have "reachable (demo ((\<lambda>j. wake 0 ([0 \<mapsto> demo_caller (Publishing 0 (Inr 42)), 1 \<mapsto> demo_caller (GotNotify 0)] j))
      (0 \<mapsto> demo_caller (Returned (Inr 42)))) ?m 1 ?h)"
    by (simp add: publish_def goto_def)
  moreover have "(\<lambda>j. wake 0 ([0 :: nat \<mapsto> demo_caller (Publishing 0 (Inr 42)), 1 \<mapsto> demo_caller (GotNotify 0)] j))
      (0 \<mapsto> demo_caller (Returned (Inr 42)))
    = [0 \<mapsto> demo_caller (Returned (Inr 42)), 1 \<mapsto> demo_caller (GotNotify 0)]"
    by (auto simp: wake_def fun_eq_iff)
  ultimately have "reachable (demo [0 \<mapsto> demo_caller (Returned (Inr 42)), 1 \<mapsto> demo_caller (GotNotify 0)] ?m 1 ?h)"
    by simp
  from reachable_step [OF this subscribe [of _ 1 "demo_caller (GotNotify 0)" 0]]
  have r: "reachable ?s" by (simp add: goto_def)
  have "stranded ?s 1 0" by (auto simp: stranded_def)
  then have "never_answered ?s 1" by (rule stranded_never_answered)
  with r show ?thesis by (intro exI [of _ ?s]) simp
qed

end
