(* ===== verification/Auth.thy ===== *)
theory Auth imports Errors begin

text \<open>
  Bearer-token authentication (\<open>src/auth.rs\<close>): the three scopes and the scope of every method, the
  configured tokens, the check of a request, and the refusal to listen on a public interface
  without protection.  Strings are byte lists; the comparison of tokens is equality of bytes (that it
  takes constant time is not a property of its value).
\<close>

section \<open>Scopes\<close>

datatype scope = Read | Manage | Spend

text \<open>The derived order follows the order of the variants.\<close>

fun scope_rank :: "scope \<Rightarrow> nat" where
  "scope_rank Read = 0"
| "scope_rank Manage = 1"
| "scope_rank Spend = 2"

instantiation scope :: linorder
begin

definition less_eq_scope :: "scope \<Rightarrow> scope \<Rightarrow> bool" where
  "less_eq_scope a b \<longleftrightarrow> scope_rank a \<le> scope_rank b"

definition less_scope :: "scope \<Rightarrow> scope \<Rightarrow> bool" where
  "less_scope a b \<longleftrightarrow> scope_rank a < scope_rank b"

instance
proof
  fix a b :: scope
  show "a \<le> b \<Longrightarrow> b \<le> a \<Longrightarrow> a = b" by (cases a; cases b; simp add: less_eq_scope_def)
qed (auto simp: less_eq_scope_def less_scope_def)

end

lemma scope_order [simp]:
  "Read \<le> s" "s \<le> Spend" "\<not> Spend \<le> Manage" "\<not> Manage \<le> Read" "\<not> Spend \<le> Read"
  by (cases s; simp add: less_eq_scope_def)+

definition spend_methods :: "string list" where
  "spend_methods =
     [''transfer'', ''htlc_lock'', ''htlc_claim'', ''htlc_reclaim'', ''send_raw_transaction'',
      ''sign_message'', ''quote_issue'', ''reveal_mnemonic'', ''reveal_private_key'',
      ''reveal_evm_private_key'', ''reveal_address_mnemonic'', ''export_vault'', ''export_address'',
      ''import_vault'', ''delete_address'', ''swap_get_quote'', ''swap_execute'', ''swap_refund'',
      ''swap_refresh'', ''bsc_send_bnb'', ''bsc_reveal_mnemonic'', ''bsc_delete_key'',
      ''lp_withdraw_self'']"

definition manage_methods :: "string list" where
  "manage_methods =
     [''generate_address'', ''generate_independent_address'', ''generate_standard_address'',
      ''import_private_key'', ''import_mnemonic'', ''import_standard_mnemonic'',
      ''bsc_create_address'', ''bsc_import_mnemonic'', ''bsc_import_key'', ''abandon_transfer'',
      ''htlc_forget'']"

definition for_method :: "string \<Rightarrow> scope" where
  "for_method m =
     (if m \<in> set spend_methods then Spend
      else if m \<in> set manage_methods then Manage
      else Read)"

fun scope_from_str :: "string \<Rightarrow> scope option" where
  "scope_from_str s =
     (if s = ''read'' then Some Read
      else if s = ''manage'' then Some Manage
      else if s = ''spend'' then Some Spend
      else None)"

fun scope_display :: "scope \<Rightarrow> string" where
  "scope_display Read = ''read''"
| "scope_display Manage = ''manage''"
| "scope_display Spend = ''spend''"

section \<open>Tokens\<close>

record tokens =
  read_token :: "string option"
  manage_token :: "string option"
  spend_token :: "string option"

definition from_config :: "string option \<Rightarrow> string option \<Rightarrow> string option \<Rightarrow> tokens" where
  "from_config r m s = \<lparr>read_token = r, manage_token = m, spend_token = s\<rparr>"

definition any_set :: "tokens \<Rightarrow> bool" where
  "any_set t \<longleftrightarrow> read_token t \<noteq> None \<or> manage_token t \<noteq> None \<or> spend_token t \<noteq> None"

text \<open>
  The \<open>Authorization\<close> header, if there is one.  \<open>HeaderValue::to_str\<close> succeeds when every byte is a
  visible ASCII character, a space or a tab.
\<close>

definition header_to_str :: "string \<Rightarrow> string option" where
  "header_to_str h =
     (if \<forall>c \<in> set h. ((32 :: nat) \<le> of_char c \<and> of_char c < (127 :: nat)) \<or> of_char c = (9 :: nat)
      then Some h else None)"

definition strip_prefix :: "string \<Rightarrow> string \<Rightarrow> string option" where
  "strip_prefix p s = (if take (length p) s = p then Some (drop (length p) s) else None)"

definition extract_bearer :: "string option \<Rightarrow> string" where
  "extract_bearer header =
     (case header of
        None \<Rightarrow> ''''
      | Some h \<Rightarrow>
          (case header_to_str h of
             None \<Rightarrow> ''''
           | Some s \<Rightarrow> (case strip_prefix ''Bearer '' s of None \<Rightarrow> '''' | Some t \<Rightarrow> t)))"

definition authenticate :: "tokens \<Rightarrow> string option \<Rightarrow> scope \<Rightarrow> unit res" where
  "authenticate t header required =
     (if \<not> any_set t then Inr ()
      else
        let supplied = extract_bearer header in
        if spend_token t = Some supplied then Inr ()
        else if required \<le> Manage \<and> manage_token t = Some supplied then Inr ()
        else if required = Read \<and> read_token t = Some supplied then Inr ()
        else Inl Unauthorized)"

section \<open>Bind safety\<close>

datatype ip_addr = V4 u8 u8 u8 u8 | V6 "u16 list"

datatype bind_class = Loopback | Private | Public

fun is_loopback :: "ip_addr \<Rightarrow> bool" where
  "is_loopback (V4 a b c d) \<longleftrightarrow> a = 127"
| "is_loopback (V6 segs) \<longleftrightarrow> segs = [0, 0, 0, 0, 0, 0, 0, 1]"

fun is_unspecified :: "ip_addr \<Rightarrow> bool" where
  "is_unspecified (V4 a b c d) \<longleftrightarrow> a = 0 \<and> b = 0 \<and> c = 0 \<and> d = 0"
| "is_unspecified (V6 segs) \<longleftrightarrow> segs = [0, 0, 0, 0, 0, 0, 0, 0]"

text \<open>\<open>Ipv4Addr::is_private\<close> and \<open>is_link_local\<close>.\<close>

definition v4_is_private :: "u8 \<Rightarrow> u8 \<Rightarrow> bool" where
  "v4_is_private a b \<longleftrightarrow>
     a = 10 \<or> (a = 172 \<and> 16 \<le> b \<and> b \<le> 31) \<or> (a = 192 \<and> b = 168)"

definition v4_is_link_local :: "u8 \<Rightarrow> u8 \<Rightarrow> bool" where
  "v4_is_link_local a b \<longleftrightarrow> a = 169 \<and> b = 254"

fun classify_bind :: "ip_addr \<Rightarrow> bind_class" where
  "classify_bind (V4 a b c d) =
     (if is_loopback (V4 a b c d) then Loopback
      else if is_unspecified (V4 a b c d) then Public
      else if v4_is_private a b \<or> v4_is_link_local a b then Private
      else Public)"
| "classify_bind (V6 segs) =
     (if is_loopback (V6 segs) then Loopback
      else if is_unspecified (V6 segs) then Public
      else
        let ula = ((ucast (drop_bit 8 (hd segs)) :: u8) AND 0xfe = 0xfc);
            link_local = (hd segs AND 0xffc0 = 0xfe80)
        in if ula \<or> link_local then Private else Public)"

definition check_bind_is_safe :: "ip_addr \<Rightarrow> tokens \<Rightarrow> bool \<Rightarrow> bool \<Rightarrow> unit res" where
  "check_bind_is_safe ip t allow_public tls_enabled =
     (case classify_bind ip of
        Loopback \<Rightarrow> Inr ()
      | Private \<Rightarrow> Inr ()
      | Public \<Rightarrow>
          if \<not> any_set t
          then Inl (Internal ''refusing to bind on a public interface without any auth token'')
          else if tls_enabled then Inr ()
          else if \<not> allow_public
          then Inl (Internal ''refusing to bind directly on a public interface'')
          else Inr ())"

section \<open>Lemmas\<close>

lemma scope_roundtrip: "scope_from_str (scope_display s) = Some s"
  by (cases s) simp_all

lemma authenticate_mono:
  "authenticate t h required = Inr () \<Longrightarrow> weaker \<le> required \<Longrightarrow> authenticate t h weaker = Inr ()"
  by (cases required; cases weaker) (auto simp: authenticate_def Let_def split: if_splits)

lemma authenticate_ok_iff:
  "any_set t \<Longrightarrow> authenticate t h required = Inr () \<longleftrightarrow>
     spend_token t = Some (extract_bearer h)
   \<or> (required \<le> Manage \<and> manage_token t = Some (extract_bearer h))
   \<or> (required = Read \<and> read_token t = Some (extract_bearer h))"
  by (auto simp: authenticate_def Let_def)

lemma authenticate_errors: "authenticate t h s = Inl e \<Longrightarrow> e = Unauthorized"
  by (auto simp: authenticate_def Let_def split: if_splits)

lemma bearer_of_header:
  "header_to_str (''Bearer '' @ tok) \<noteq> None \<Longrightarrow> extract_bearer (Some (''Bearer '' @ tok)) = tok"
  by (auto simp: extract_bearer_def strip_prefix_def header_to_str_def split: if_splits)

text \<open>The start-up check passes exactly when the address is loopback or private, or a token is
  configured and either TLS is on or the operator has acknowledged a plaintext public bind.\<close>

lemma bind_check_exact:
  "check_bind_is_safe ip toks allow_public tls = Inr () \<longleftrightarrow>
     classify_bind ip \<noteq> Public \<or> (any_set toks \<and> (tls \<or> allow_public))"
  by (simp add: check_bind_is_safe_def split: bind_class.splits)

end
