(* ===== verification/Server.thy ===== *)
theory Server imports Auth begin

text \<open>
  The JSON-RPC front end (\<open>src/server.rs\<close>): one envelope, a batch, and the body of a request.  The
  JSON decoder is a parameter in the form of its outcome: a body is what the parser made of it, and
  the id of an envelope is what the text had there.  The dispatcher is a parameter too: \<open>answer\<close> gives
  the outcome of a method call, and every call that is made is recorded.
\<close>

datatype json_id = IdNull | IdNumber int | IdString string | IdOther

text \<open>The envelope after \<open>serde\<close>; \<open>raw_id\<close> is the field as written, \<open>None\<close> when it is missing.\<close>

record 'p rpc_request =
  jsonrpc :: string
  rpc_method :: string
  params :: 'p
  raw_id :: "json_id option"

text \<open>An optional field whose text is \<open>null\<close> decodes to \<open>None\<close>, as every \<open>Option\<close> does in \<open>serde\<close>.\<close>

definition decoded_id :: "json_id option \<Rightarrow> json_id option" where
  "decoded_id r = (if r = Some IdNull then None else r)"

datatype 'p raw_item = NotObject | BadEnvelope | Envelope "'p rpc_request"

datatype 'v rpc_response = RpcOk json_id 'v | RpcErr json_id int

definition rpc_err :: "json_id \<Rightarrow> error \<Rightarrow> 'v rpc_response" where
  "rpc_err i e = RpcErr i (rpc_code e)"

fun is_valid_jsonrpc_id :: "json_id \<Rightarrow> bool" where
  "is_valid_jsonrpc_id IdOther = False"
| "is_valid_jsonrpc_id _ = True"

text \<open>One envelope: the calls it makes (at most one) and its reply.\<close>

definition process_single ::
    "tokens \<Rightarrow> string option \<Rightarrow> (string \<Rightarrow> 'p \<Rightarrow> 'v res) \<Rightarrow> 'p raw_item \<Rightarrow>
     (string \<times> 'p) list \<times> 'v rpc_response option" where
  "process_single toks header answer raw =
     (case raw of
        NotObject \<Rightarrow> ([], Some (rpc_err IdNull (InvalidRequest ''request must be a JSON object'')))
      | BadEnvelope \<Rightarrow> ([], Some (rpc_err IdNull (InvalidRequest '''')))
      | Envelope req \<Rightarrow>
          let is_notification = (decoded_id (raw_id req) = None);
              response_id = (case decoded_id (raw_id req) of None \<Rightarrow> IdNull | Some i \<Rightarrow> i)
          in
          if \<not> is_valid_jsonrpc_id response_id
          then ([], Some (rpc_err IdNull
                 (InvalidRequest ''id must be a JSON string, number, or null when present'')))
          else if jsonrpc req \<noteq> ''2.0''
          then ([], if is_notification then None
                    else Some (rpc_err response_id (InvalidRequest ''unsupported jsonrpc version'')))
          else
            (case authenticate toks header (for_method (rpc_method req)) of
               Inl e \<Rightarrow> ([], if is_notification then None else Some (rpc_err response_id e))
             | Inr _ \<Rightarrow>
                 ([(rpc_method req, params req)],
                  if is_notification then None
                  else Some (case answer (rpc_method req) (params req) of
                               Inr v \<Rightarrow> RpcOk response_id v
                             | Inl e \<Rightarrow> rpc_err response_id e))))"

datatype 'p raw_body = Unparsable | Single "'p raw_item" | Batch "'p raw_item list" | OtherJson

datatype 'v http_response = NoContent | OneReply nat "'v rpc_response" | ManyReplies "'v rpc_response list"

text \<open>The HTTP status of a single reply follows its error code.\<close>

definition reply_status :: "'v rpc_response \<Rightarrow> nat" where
  "reply_status r =
     (case r of
        RpcOk _ _ \<Rightarrow> 200
      | RpcErr _ c \<Rightarrow> if c = - 32001 then 401 else if c = - 32600 \<or> c = - 32700 then 400 else 200)"

definition error_response :: "json_id \<Rightarrow> error \<Rightarrow> 'v http_response" where
  "error_response i e = OneReply (http_status e) (rpc_err i e)"

definition rpc_handler ::
    "tokens \<Rightarrow> string option \<Rightarrow> (string \<Rightarrow> 'p \<Rightarrow> 'v res) \<Rightarrow> 'p raw_body \<Rightarrow>
     (string \<times> 'p) list \<times> 'v http_response" where
  "rpc_handler toks header answer body =
     (case body of
        Unparsable \<Rightarrow> ([], error_response IdNull (ParseError ''''))
      | OtherJson \<Rightarrow>
          ([], error_response IdNull (InvalidRequest ''request must be a JSON object or array''))
      | Batch items \<Rightarrow>
          if items = [] then ([], error_response IdNull (InvalidRequest ''empty batch''))
          else
            let results = map (process_single toks header answer) items;
                responses = List.map_filter snd results
            in (concat (map fst results),
                if responses = [] then NoContent else ManyReplies responses)
      | Single item \<Rightarrow>
          (case process_single toks header answer item of
             (calls, None) \<Rightarrow> (calls, NoContent)
           | (calls, Some r) \<Rightarrow> (calls, OneReply (reply_status r) r)))"

section \<open>Lemmas\<close>

lemma process_single_call:
  assumes "(m, p) \<in> set (fst (process_single toks header answer raw))"
  shows "authenticate toks header (for_method m) = Inr ()
    \<and> (\<exists>req. raw = Envelope req \<and> rpc_method req = m \<and> params req = p \<and> jsonrpc req = ''2.0'')"
  using assms
  by (auto simp: process_single_def Let_def split: raw_item.splits if_splits sum.splits)

lemma rpc_handler_call:
  assumes "(m, p) \<in> set (fst (rpc_handler toks header answer body))"
  shows "authenticate toks header (for_method m) = Inr ()"
proof (cases body)
  case (Single item)
  then show ?thesis using assms process_single_call [of m p toks header answer item]
    by (auto simp: rpc_handler_def split: prod.splits option.splits)
next
  case (Batch items)
  then show ?thesis using assms process_single_call [of m p toks header answer]
    by (auto simp: rpc_handler_def Let_def split: if_splits)
qed (use assms in \<open>simp_all add: rpc_handler_def\<close>)

section \<open>The method table\<close>

text \<open>\<open>dispatch\<close> (\<open>src/api/mod.rs\<close>): the methods that have a handler; any other name is refused.\<close>

definition dispatch_methods :: "string list" where
  "dispatch_methods =
     [''generate_address'', ''generate_independent_address'', ''generate_standard_address'',
      ''import_private_key'', ''export_vault'', ''import_vault'', ''export_address'',
      ''import_mnemonic'', ''import_standard_mnemonic'', ''delete_address'',
      ''list_addresses'', ''transfer'', ''htlc_lock'', ''htlc_claim'', ''htlc_reclaim'',
      ''simulate_transfer'', ''simulate_htlc_lock'', ''swap_get_quote'', ''swap_execute'',
      ''swap_refund'', ''swap_status'', ''swap_refresh'', ''swap_list'', ''swap_pool_info'',
      ''swap_price_klines'', ''lp_pool_info'', ''lp_position'', ''lp_deposit_start'',
      ''lp_deposit_status'', ''lp_withdraw_self'', ''bsc_get_address'', ''bsc_create_address'',
      ''bsc_reveal_mnemonic'', ''bsc_import_mnemonic'', ''bsc_import_key'', ''bsc_delete_key'',
      ''bsc_get_balances'', ''bsc_send_bnb'', ''bsc_tx_history'', ''payment_uri_encode'',
      ''payment_uri_decode'', ''htlc_status'', ''htlc_list'', ''htlc_forget'',
      ''get_follower_status'', ''wait_for_tx'', ''wait_for_payment'', ''list_settlements'',
      ''contract_stats'', ''get_address_history'', ''get_attestation_edges'',
      ''detect_in_chain_swaps'', ''htlc_lookup_by_hashlock'', ''get_output_spent_by'',
      ''get_output_datum'', ''find_settlements_by_quote_id'', ''get_block_height'',
      ''get_block_by_id'', ''get_block_by_height'', ''get_block_id_at_height'',
      ''get_transaction'', ''get_balance'', ''get_address_utxos'', ''get_script_utxos'',
      ''get_address_mempool'', ''send_raw_transaction'', ''sign_message'', ''verify_message'',
      ''quote_issue'', ''quote_verify'', ''allowance_status'', ''reveal_mnemonic'',
      ''reveal_private_key'', ''reveal_evm_private_key'', ''reveal_address_mnemonic'',
      ''validate_address'', ''get_wallet_balance'', ''get_status'', ''abandon_transfer'',
      ''ping'']"

definition dispatch :: "(string \<Rightarrow> 'p \<Rightarrow> 'v res) \<Rightarrow> string \<Rightarrow> 'p \<Rightarrow> 'v res" where
  "dispatch handler m p =
     (if m \<in> set dispatch_methods then handler m p else Inl (UnknownMethod m))"

section \<open>Properties\<close>

text \<open>Every call the front end makes was authorised for the scope of its method.  Once any token is
  configured, a method of scope \<open>Spend\<close> is reached only by a request that presents the spend token,
  one of scope \<open>Manage\<close> only with the spend or the manage token, and any other with one of the three:
  in particular a leaked read token reaches no method that moves funds, in a batch or alone.\<close>

theorem calls_are_authorised:
  assumes "any_set toks" and "(m, p) \<in> set (fst (rpc_handler toks header answer body))"
  shows "(for_method m = Spend \<longrightarrow> spend_token toks = Some (extract_bearer header))
       \<and> (for_method m = Manage \<longrightarrow> Some (extract_bearer header) \<in> {spend_token toks, manage_token toks})
       \<and> (for_method m = Read \<longrightarrow>
            Some (extract_bearer header) \<in> {spend_token toks, manage_token toks, read_token toks})"
  using rpc_handler_call [OF assms(2)] by (auto simp: authenticate_ok_iff [OF assms(1)])

definition sample_tokens :: tokens where
  "sample_tokens = from_config (Some ''r'') (Some ''m'') (Some ''s'')"

definition sample_call :: "unit raw_body" where
  "sample_call = Batch [Envelope \<lparr>jsonrpc = ''2.0'', rpc_method = ''transfer'', params = (),
                                  raw_id = Some (IdNumber 1)\<rparr>]"

lemma calls_are_authorised_witness:
  "for_method ''transfer'' = Spend \<and> spend_token sample_tokens = Some (extract_bearer (Some ''Bearer s''))"
proof -
  have spend: "for_method ''transfer'' = Spend" by (simp add: for_method_def spend_methods_def)
  have h: "extract_bearer (Some ''Bearer s'') = ''s''"
    by (simp add: extract_bearer_def header_to_str_def strip_prefix_def)
  have "(''transfer'', ()) \<in> set (fst (rpc_handler sample_tokens (Some ''Bearer s'')
      (\<lambda>m p. Inr ()) sample_call))"
    by (simp add: rpc_handler_def sample_call_def process_single_def decoded_id_def Let_def
          authenticate_def h sample_tokens_def from_config_def any_set_def)
  from calls_are_authorised [OF _ this] spend show ?thesis
    by (simp add: sample_tokens_def from_config_def any_set_def)
qed

text \<open>The scope table and the dispatcher agree on the methods.  Every method that the table puts
  above the read scope is one the dispatcher handles, so no entry guards a misspelt name; no method
  is listed twice; and what is reachable with the read scope alone is exactly the rest.\<close>

theorem scope_table_matches_dispatch:
  "set spend_methods \<union> set manage_methods \<subseteq> set dispatch_methods
   \<and> distinct (spend_methods @ manage_methods) \<and> distinct dispatch_methods
   \<and> length (filter (\<lambda>m. for_method m = Read) dispatch_methods)
       = length dispatch_methods - length spend_methods - length manage_methods"
  by code_simp

text \<open>A token configured as the empty string protects nothing.  It counts as configured, so the
  start-up check lets the daemon listen on a public address, and a request without any
  \<open>Authorization\<close> header is granted the spend scope.\<close>

theorem empty_token_grants_spend:
  "check_bind_is_safe (V4 8 8 8 8) (from_config (Some ''r'') (Some ''m'') (Some [])) False True = Inr ()
   \<and> authenticate (from_config (Some ''r'') (Some ''m'') (Some [])) None Spend = Inr ()"
  by (simp add: check_bind_is_safe_def any_set_def from_config_def authenticate_def extract_bearer_def
        v4_is_private_def v4_is_link_local_def)

text \<open>Replies and notifications.  A request whose id field is missing, or is an explicit \<open>null\<close>, is
  never answered, whatever its method and outcome; any other well-formed envelope gets exactly one
  reply, which carries its id.\<close>

theorem reply_exactly_to_requests:
  assumes "envelope = Envelope req"
  shows "(raw_id req = None \<or> raw_id req = Some IdNull \<longrightarrow>
            snd (process_single toks header answer envelope) = None)
       \<and> (raw_id req = Some i \<and> i \<noteq> IdNull \<and> is_valid_jsonrpc_id i \<longrightarrow>
            (\<exists>r. snd (process_single toks header answer envelope) = Some r
               \<and> (case r of RpcOk j v \<Rightarrow> j = i | RpcErr j c \<Rightarrow> j = i)))"
  using assms
  by (auto simp: process_single_def decoded_id_def Let_def rpc_err_def split: sum.splits)

lemma reply_exactly_to_requests_witness:
  "snd (process_single sample_tokens (Some ''Bearer s'') (\<lambda>m p. Inr (7 :: nat))
     (Envelope \<lparr>jsonrpc = ''2.0'', rpc_method = ''ping'', params = (), raw_id = Some IdNull\<rparr>)) = None"
  using reply_exactly_to_requests [OF refl,
    of "\<lparr>jsonrpc = ''2.0'', rpc_method = ''ping'', params = (), raw_id = Some IdNull\<rparr>"
       sample_tokens "Some ''Bearer s''" "\<lambda>m p. Inr (7 :: nat)" IdNull] by simp

end
