(* ===== verification/PaymentUri.thy ===== *)
theory PaymentUri imports Prelude begin

text \<open>
  The codec of \<open>exfer:\<close> payment requests (\<open>src/payment_uri.rs\<close>).  A Rust string is its UTF-8 bytes.
  The parts of the standard library the codec rests on are modelled with it: splitting, decimal
  parsing and printing of \<open>u64\<close>, and the UTF-8 check of \<open>String::from_utf8\<close>.
\<close>

section \<open>Strings of the standard library\<close>

definition ascii :: "string \<Rightarrow> bytes" where
  "ascii s = map of_char s"

abbreviation qmark :: u8 where "qmark \<equiv> 0x3F"
abbreviation ampersand :: u8 where "ampersand \<equiv> 0x26"
abbreviation equals :: u8 where "equals \<equiv> 0x3D"
abbreviation percent :: u8 where "percent \<equiv> 0x25"

fun split_once :: "u8 \<Rightarrow> bytes \<Rightarrow> (bytes \<times> bytes) option" where
  "split_once c [] = None"
| "split_once c (b # bs) =
     (if b = c then Some ([], bs)
      else case split_once c bs of None \<Rightarrow> None | Some (l, r) \<Rightarrow> Some (b # l, r))"

fun split_on :: "u8 \<Rightarrow> bytes \<Rightarrow> bytes list" where
  "split_on c [] = [[]]"
| "split_on c (b # bs) =
     (if b = c then [] # split_on c bs
      else case split_on c bs of [] \<Rightarrow> [[b]] | p # ps \<Rightarrow> (b # p) # ps)"

fun strip_prefix_bytes :: "bytes \<Rightarrow> bytes \<Rightarrow> bytes option" where
  "strip_prefix_bytes [] bs = Some bs"
| "strip_prefix_bytes (p # ps) [] = None"
| "strip_prefix_bytes (p # ps) (b # bs) = (if p = b then strip_prefix_bytes ps bs else None)"

definition is_digit :: "u8 \<Rightarrow> bool" where
  "is_digit b \<longleftrightarrow> 0x30 \<le> b \<and> b \<le> 0x39"

definition is_ascii_hexdigit :: "u8 \<Rightarrow> bool" where
  "is_ascii_hexdigit b \<longleftrightarrow> is_digit b \<or> (0x41 \<le> b \<and> b \<le> 0x46) \<or> (0x61 \<le> b \<and> b \<le> 0x66)"

definition to_ascii_lowercase :: "bytes \<Rightarrow> bytes" where
  "to_ascii_lowercase = map (\<lambda>b. if 0x41 \<le> b \<and> b \<le> 0x5A then b + 32 else b)"

text \<open>\<open>u64::to_string\<close> and \<open>str::parse\<close>, which takes a leading plus sign.\<close>

fun digits :: "nat \<Rightarrow> bytes" where
  "digits n = (if n < 10 then [0x30 + word_of_nat n] else digits (n div 10) @ [0x30 + word_of_nat (n mod 10)])"

fun parse_digits :: "nat \<Rightarrow> bytes \<Rightarrow> nat option" where
  "parse_digits acc [] = Some acc"
| "parse_digits acc (b # bs) =
     (if is_digit b \<and> acc * 10 + unat (b - 0x30) < 2 ^ 64
      then parse_digits (acc * 10 + unat (b - 0x30)) bs else None)"

definition parse_u64 :: "bytes \<Rightarrow> u64 option" where
  "parse_u64 bs =
     (let ds = (case bs of b # r \<Rightarrow> if b = 0x2B then r else bs | [] \<Rightarrow> [])
      in if ds = [] then None else map_option word_of_nat (parse_digits 0 ds))"

text \<open>\<open>str::parse::<u64>\<close> on a string of the model.\<close>

definition parse_u64_string :: "string \<Rightarrow> u64 option" where
  "parse_u64_string s = parse_u64 (ascii s)"

definition u64_to_string :: "u64 \<Rightarrow> bytes" where
  "u64_to_string w = digits (unat w)"

definition is_cont :: "u8 \<Rightarrow> bool" where
  "is_cont b \<longleftrightarrow> 0x80 \<le> b \<and> b \<le> 0xBF"

definition second_of_three :: "u8 \<Rightarrow> u8 \<Rightarrow> bool" where
  "second_of_three a b \<longleftrightarrow>
     (if a = 0xE0 then 0xA0 \<le> b \<and> b \<le> 0xBF
      else if a = 0xED then 0x80 \<le> b \<and> b \<le> 0x9F else is_cont b)"

definition second_of_four :: "u8 \<Rightarrow> u8 \<Rightarrow> bool" where
  "second_of_four a b \<longleftrightarrow>
     (if a = 0xF0 then 0x90 \<le> b \<and> b \<le> 0xBF
      else if a = 0xF4 then 0x80 \<le> b \<and> b \<le> 0x8F else is_cont b)"

fun utf8_valid :: "bytes \<Rightarrow> bool" where
  "utf8_valid [] = True"
| "utf8_valid (a # bs) =
     (if a < 0x80 then utf8_valid bs
      else if 0xC2 \<le> a \<and> a \<le> 0xDF
      then (case bs of b # r \<Rightarrow> is_cont b \<and> utf8_valid r | _ \<Rightarrow> False)
      else if 0xE0 \<le> a \<and> a \<le> 0xEF
      then (case bs of b # c # r \<Rightarrow> second_of_three a b \<and> is_cont c \<and> utf8_valid r | _ \<Rightarrow> False)
      else if 0xF0 \<le> a \<and> a \<le> 0xF4
      then (case bs of
              b # c # d # r \<Rightarrow> second_of_four a b \<and> is_cont c \<and> is_cont d \<and> utf8_valid r
            | _ \<Rightarrow> False)
      else False)"

section \<open>The codec\<close>

record payment_uri =
  address :: bytes
  amount :: "u64 option"
  memo :: "bytes option"
  hash_lock :: "bytes option"
  timeout :: "u64 option"
  label :: "bytes option"

datatype payment_uri_error =
    WrongScheme | BadAddress | MalformedQuery | BadUriAmount | BadHashLock | BadTimeout | InvalidUtf8

definition hex_nibble :: "u8 \<Rightarrow> u8" where
  "hex_nibble n = (if n \<le> 9 then 0x30 + n else 0x41 + (n - 10))"

definition unreserved :: "u8 \<Rightarrow> bool" where
  "unreserved b \<longleftrightarrow>
     (0x41 \<le> b \<and> b \<le> 0x5A) \<or> (0x61 \<le> b \<and> b \<le> 0x7A) \<or> is_digit b
     \<or> b = 0x2D \<or> b = 0x5F \<or> b = 0x2E \<or> b = 0x7E"

fun percent_encode :: "bytes \<Rightarrow> bytes" where
  "percent_encode [] = []"
| "percent_encode (b # bs) =
     (if unreserved b then [b] else [percent, hex_nibble (drop_bit 4 b), hex_nibble (b AND 0x0F)])
     @ percent_encode bs"

definition parse_hex_nibble :: "u8 \<Rightarrow> payment_uri_error + u8" where
  "parse_hex_nibble b =
     (if is_digit b then Inr (b - 0x30)
      else if 0x61 \<le> b \<and> b \<le> 0x66 then Inr (b - 0x61 + 10)
      else if 0x41 \<le> b \<and> b \<le> 0x46 then Inr (b - 0x41 + 10)
      else Inl MalformedQuery)"

text \<open>The loop of \<open>percent_decode\<close> over the bytes that are left.\<close>

fun percent_decode_loop :: "bytes \<Rightarrow> bytes \<Rightarrow> payment_uri_error + bytes" where
  "percent_decode_loop out [] = Inr out"
| "percent_decode_loop out (b # bs) =
     (if b = percent then
        (case bs of
           h # l # rest \<Rightarrow>
             bind_ok (parse_hex_nibble h) (\<lambda>hi.
             bind_ok (parse_hex_nibble l) (\<lambda>lo.
             percent_decode_loop (out @ [push_bit 4 hi OR lo]) rest))
         | _ \<Rightarrow> Inl MalformedQuery)
      else percent_decode_loop (out @ [b]) bs)"

definition percent_decode :: "bytes \<Rightarrow> payment_uri_error + bytes" where
  "percent_decode bs =
     bind_ok (percent_decode_loop [] bs)
       (\<lambda>out. if utf8_valid out then Inr out else Inl InvalidUtf8)"

definition uri_params :: "payment_uri \<Rightarrow> (bytes \<times> bytes) list" where
  "uri_params p =
     (case amount p of Some a \<Rightarrow> [(ascii ''amount'', u64_to_string a)] | None \<Rightarrow> [])
   @ (case memo p of Some m \<Rightarrow> [(ascii ''memo'', percent_encode m)] | None \<Rightarrow> [])
   @ (case hash_lock p of Some h \<Rightarrow> [(ascii ''hash_lock'', h)] | None \<Rightarrow> [])
   @ (case timeout p of Some t \<Rightarrow> [(ascii ''timeout'', u64_to_string t)] | None \<Rightarrow> [])
   @ (case label p of Some l \<Rightarrow> [(ascii ''label'', percent_encode l)] | None \<Rightarrow> [])"

fun push_params :: "bool \<Rightarrow> (bytes \<times> bytes) list \<Rightarrow> bytes" where
  "push_params first [] = []"
| "push_params first ((k, v) # kvs) =
     (if first then qmark else ampersand) # k @ equals # v @ push_params False kvs"

definition encode :: "payment_uri \<Rightarrow> bytes" where
  "encode p = ascii ''exfer:'' @ address p @ push_params True (uri_params p)"

definition decode_param ::
    "bytes \<Rightarrow> bytes \<Rightarrow> payment_uri \<Rightarrow> payment_uri_error + payment_uri" where
  "decode_param k v out =
     (if k = ascii ''amount'' then
        bind_ok (ok_or BadUriAmount (parse_u64 v)) (\<lambda>a. Inr (out\<lparr>amount := Some a\<rparr>))
      else if k = ascii ''memo'' then
        bind_ok (percent_decode v) (\<lambda>m. Inr (out\<lparr>memo := Some m\<rparr>))
      else if k = ascii ''hash_lock'' then
        (if length v \<noteq> 64 \<or> \<not> (\<forall>b \<in> set v. is_ascii_hexdigit b) then Inl BadHashLock
         else Inr (out\<lparr>hash_lock := Some (to_ascii_lowercase v)\<rparr>))
      else if k = ascii ''timeout'' then
        bind_ok (ok_or BadTimeout (parse_u64 v)) (\<lambda>t. Inr (out\<lparr>timeout := Some t\<rparr>))
      else if k = ascii ''label'' then
        bind_ok (percent_decode v) (\<lambda>l. Inr (out\<lparr>label := Some l\<rparr>))
      else Inr out)"

fun decode_params :: "bytes list \<Rightarrow> payment_uri \<Rightarrow> payment_uri_error + payment_uri" where
  "decode_params [] out = Inr out"
| "decode_params (kv # kvs) out =
     (case split_once equals kv of
        None \<Rightarrow> Inl MalformedQuery
      | Some (k, v) \<Rightarrow> bind_ok (decode_param k v out) (decode_params kvs))"

definition no_params :: "bytes \<Rightarrow> payment_uri" where
  "no_params a = \<lparr>address = a, amount = None, memo = None, hash_lock = None, timeout = None, label = None\<rparr>"

definition decode :: "bytes \<Rightarrow> payment_uri_error + payment_uri" where
  "decode uri =
     bind_ok (ok_or WrongScheme (strip_prefix_bytes (ascii ''exfer:'') uri)) (\<lambda>rest.
     let (addr, query) = (case split_once qmark rest of
                            Some (a, q) \<Rightarrow> (a, Some q) | None \<Rightarrow> (rest, None)) in
     if length addr \<noteq> 64 then Inl BadAddress
     else if \<not> (\<forall>b \<in> set addr. is_ascii_hexdigit b) then Inl BadAddress
     else
       let out = no_params (to_ascii_lowercase addr) in
       case query of
         None \<Rightarrow> Inr out
       | Some q \<Rightarrow> if q = [] then Inr out else decode_params (split_on ampersand q) out)"

section \<open>Lemmas\<close>

declare digits.simps [simp del]

lemma split_once_app [simp]: "c \<notin> set l \<Longrightarrow> split_once c (l @ c # r) = Some (l, r)"
  by (induction l) auto

lemma split_once_none: "c \<notin> set l \<Longrightarrow> split_once c l = None"
  by (induction l) auto

lemma split_on_single: "c \<notin> set p \<Longrightarrow> split_on c p = [p]"
  by (induction p) auto

lemma split_on_app: "c \<notin> set p \<Longrightarrow> split_on c (p @ c # q) = p # split_on c q"
  by (induction p) auto

lemma strip_prefix_bytes_app [simp]: "strip_prefix_bytes p (p @ q) = Some q"
  by (induction p) auto

lemma strip_prefix_bytes_Some: "strip_prefix_bytes p bs = Some q \<longleftrightarrow> bs = p @ q"
  by (induction p bs rule: strip_prefix_bytes.induct) auto

subsection \<open>Decimal numbers\<close>

lemma digit_value: "d < 10 \<Longrightarrow> is_digit (0x30 + word_of_nat d) \<and> unat (0x30 + word_of_nat d - 0x30 :: u8) = d"
  by (auto simp: is_digit_def word_le_nat_alt unat_word_ariths unat_of_nat)

lemma digits_are_digits: "b \<in> set (digits n) \<Longrightarrow> is_digit b"
proof (induction n rule: digits.induct)
  case (1 n)
  show ?case
  proof (cases "n < 10")
    case True
    then show ?thesis using 1 digit_value [of n] by (simp add: digits.simps [of n])
  next
    case False
    then show ?thesis using 1 digit_value [of "n mod 10"] by (auto simp: digits.simps [of n])
  qed
qed

lemma parse_digits_digits: "n < 2 ^ 64 \<Longrightarrow> parse_digits 0 (digits n @ ys) = parse_digits n ys"
proof (induction n arbitrary: ys rule: digits.induct)
  case (1 n)
  show ?case
  proof (cases "n < 10")
    case True
    then show ?thesis using digit_value [of n] 1 by (simp add: digits.simps [of n])
  next
    case False
    let ?d = "0x30 + word_of_nat (n mod 10) :: u8"
    have "parse_digits 0 (digits n @ ys) = parse_digits (n div 10) (?d # ys)"
      using False 1 by (simp add: digits.simps [of n])
    also have "\<dots> = parse_digits n ys"
      using digit_value [of "n mod 10"] 1(2) by simp
    finally show ?thesis .
  qed
qed

lemma digits_not_Nil [simp]: "digits n \<noteq> []"
  by (simp add: digits.simps [of n])

lemma digit_not_special:
  "is_digit b \<Longrightarrow> b \<noteq> 0x2B \<and> b \<noteq> qmark \<and> b \<noteq> ampersand \<and> b \<noteq> equals"
  by (auto simp: is_digit_def)

lemma parse_u64_digits [simp]: "parse_u64 (u64_to_string w) = Some w"
proof -
  have p: "parse_digits 0 (digits (unat w)) = Some (unat w)"
    using parse_digits_digits [of "unat w" "[]"] word_unat_less [of w] by simp
  obtain b r where br: "digits (unat w) = b # r" using digits_not_Nil by (meson neq_Nil_conv)
  then have "b \<noteq> 0x2B" using digits_are_digits [of b "unat w"] digit_not_special by simp
  then show ?thesis using p br by (simp add: parse_u64_def u64_to_string_def)
qed

subsection \<open>Percent encoding\<close>

lemma nibble_small: "(n :: u8) \<le> 9 \<Longrightarrow> is_digit (0x30 + n)"
  by (auto simp: is_digit_def word_le_nat_alt unat_word_ariths)

lemma nibble_large:
  assumes "(n :: u8) \<le> 15" and "\<not> n \<le> 9"
  shows "0x41 \<le> 0x41 + (n - 10)" and "0x41 + (n - 10) \<le> 0x46"
proof -
  have n: "unat n \<le> 15" "10 \<le> unat n" using assms by (simp_all add: word_le_nat_alt)
  then have "unat (n - 10) = unat n - 10" by (simp add: unat_sub word_le_nat_alt)
  with n have "unat (0x41 + (n - 10)) = 0x41 + (unat n - 10)" by (simp add: unat_word_ariths)
  then show "0x41 \<le> 0x41 + (n - 10)" "0x41 + (n - 10) \<le> 0x46"
    using n by (simp_all add: word_le_nat_alt)
qed

lemma parse_hex_nibble_of [simp]: "n \<le> 15 \<Longrightarrow> parse_hex_nibble (hex_nibble n) = Inr n"
proof (cases "n \<le> 9")
  case True
  then show ?thesis using nibble_small [of n] by (simp add: parse_hex_nibble_def hex_nibble_def)
next
  case False
  assume "n \<le> 15"
  let ?h = "0x41 + (n - 10)"
  have h: "0x41 \<le> ?h" "?h \<le> 0x46" using nibble_large [OF \<open>n \<le> 15\<close> False] .
  then have "\<not> is_digit ?h" "\<not> 0x61 \<le> ?h"
    by (auto simp: is_digit_def word_le_nat_alt simp del: unat_plus_simple)
  then show ?thesis using False h by (simp add: parse_hex_nibble_def hex_nibble_def)
qed

lemma hex_nibble_not_special:
  assumes "n \<le> 15"
  shows "hex_nibble n \<notin> {qmark, ampersand, equals}"
proof (cases "n \<le> 9")
  case True
  then show ?thesis using digit_not_special [OF nibble_small [OF True]] by (simp add: hex_nibble_def)
next
  case False
  have "0x41 \<le> hex_nibble n" using nibble_large [OF assms False] False by (simp add: hex_nibble_def)
  then show ?thesis by auto
qed

lemma high_nibble: "drop_bit 4 (b :: u8) \<le> 15"
proof -
  have "unat (drop_bit 4 b) = unat b div 16" by (simp add: unat_drop_bit_eq drop_bit_eq_div [of _ "unat b"])
  moreover have "unat b div 16 \<le> 15" using word_unat_less [of b] by simp
  ultimately show ?thesis by (simp add: word_le_nat_alt)
qed

lemma low_nibble: "(b :: u8) AND 0x0F \<le> 15"
  by (rule word_and_le1)

lemma nibbles_join: "push_bit 4 (drop_bit 4 b) OR (b AND 0x0F) = (b :: u8)"
proof -
  have m: "(0x0F :: u8) = mask 4" by (simp add: mask_eq_exp_minus_1)
  show ?thesis unfolding m
    by (rule bit_word_eqI) (auto simp: bit_simps)
qed

lemma unreserved_not_special:
  "unreserved b \<Longrightarrow> b \<noteq> percent \<and> b \<noteq> qmark \<and> b \<noteq> ampersand \<and> b \<noteq> equals"
  by (auto simp: unreserved_def is_digit_def)

lemma percent_decode_loop_encode:
  "percent_decode_loop out (percent_encode m @ rest) = percent_decode_loop (out @ m) rest"
proof (induction m arbitrary: out)
  case Nil
  then show ?case by simp
next
  case (Cons b m)
  then show ?case using unreserved_not_special [of b]
    by (auto simp: high_nibble low_nibble nibbles_join)
qed

lemma percent_roundtrip: "utf8_valid m \<Longrightarrow> percent_decode (percent_encode m) = Inr m"
  using percent_decode_loop_encode [of "[]" m "[]"] by (simp add: percent_decode_def)

lemma percent_encode_plain: "b \<in> set (percent_encode m) \<Longrightarrow> b \<notin> {qmark, ampersand, equals}"
proof (induction m)
  case Nil
  then show ?case by simp
next
  case (Cons a m)
  then show ?case
    using unreserved_not_special [of a] hex_nibble_not_special [OF high_nibble, of a]
      hex_nibble_not_special [OF low_nibble, of a]
    by (auto split: if_splits)
qed

subsection \<open>Whole requests\<close>

definition lower_hex64 :: "bytes \<Rightarrow> bool" where
  "lower_hex64 bs \<longleftrightarrow> length bs = 64 \<and> (\<forall>b \<in> set bs. is_digit b \<or> (0x61 \<le> b \<and> b \<le> 0x66))"

text \<open>What a decoded request looks like, and what \<open>encode\<close> may assume.\<close>

definition canonical :: "payment_uri \<Rightarrow> bool" where
  "canonical p \<longleftrightarrow> lower_hex64 (address p)
     \<and> (\<forall>h. hash_lock p = Some h \<longrightarrow> lower_hex64 h)
     \<and> (\<forall>m. memo p = Some m \<longrightarrow> utf8_valid m)
     \<and> (\<forall>l. label p = Some l \<longrightarrow> utf8_valid l)"

lemma lower_hex_char:
  "is_digit b \<or> (0x61 \<le> b \<and> b \<le> 0x66) \<Longrightarrow>
     is_ascii_hexdigit b \<and> \<not> (0x41 \<le> b \<and> b \<le> 0x5A) \<and> b \<notin> {qmark, ampersand, equals}"
  by (auto simp: is_ascii_hexdigit_def is_digit_def word_le_nat_alt)

lemma lower_hex64D:
  assumes "lower_hex64 bs"
  shows "length bs = 64" and "\<forall>b \<in> set bs. is_ascii_hexdigit b" and "to_ascii_lowercase bs = bs"
    and "qmark \<notin> set bs" and "ampersand \<notin> set bs"
  using assms lower_hex_char unfolding lower_hex64_def to_ascii_lowercase_def
  by (auto intro!: map_idI)

lemma lowercase_hex: "is_ascii_hexdigit b \<Longrightarrow>
    (let c = (if 0x41 \<le> b \<and> b \<le> 0x5A then b + 32 else b) in is_digit c \<or> (0x61 \<le> c \<and> c \<le> 0x66))"
  by (auto simp: is_ascii_hexdigit_def is_digit_def word_le_nat_alt unat_word_ariths Let_def)

lemma lower_hex64_lowercase:
  assumes "length bs = 64" and "\<forall>b \<in> set bs. is_ascii_hexdigit b"
  shows "lower_hex64 (to_ascii_lowercase bs)"
  unfolding lower_hex64_def
proof (intro conjI ballI)
  show "length (to_ascii_lowercase bs) = 64" using assms(1) by (simp add: to_ascii_lowercase_def)
  fix c assume "c \<in> set (to_ascii_lowercase bs)"
  then obtain b where "b \<in> set bs" "c = (if 0x41 \<le> b \<and> b \<le> 0x5A then b + 32 else b)"
    by (auto simp: to_ascii_lowercase_def)
  then show "is_digit c \<or> (0x61 \<le> c \<and> c \<le> 0x66)"
    using lowercase_hex [of b] assms(2) by (simp only: Let_def)
qed

text \<open>A request whose hex may be of either case, and the form in which it is decoded.\<close>

definition any_hex64 :: "bytes \<Rightarrow> bool" where
  "any_hex64 bs \<longleftrightarrow> length bs = 64 \<and> (\<forall>b \<in> set bs. is_ascii_hexdigit b)"

definition well_formed_request :: "payment_uri \<Rightarrow> bool" where
  "well_formed_request p \<longleftrightarrow> any_hex64 (address p)
     \<and> (\<forall>h. hash_lock p = Some h \<longrightarrow> any_hex64 h)
     \<and> (\<forall>m. memo p = Some m \<longrightarrow> utf8_valid m)
     \<and> (\<forall>l. label p = Some l \<longrightarrow> utf8_valid l)"

definition lowered :: "payment_uri \<Rightarrow> payment_uri" where
  "lowered p = p\<lparr>address := to_ascii_lowercase (address p), hash_lock := map_option to_ascii_lowercase (hash_lock p)\<rparr>"

lemma any_hex64D:
  assumes "any_hex64 bs"
  shows "length bs = 64" and "\<forall>b \<in> set bs. is_ascii_hexdigit b" and "qmark \<notin> set bs" and "ampersand \<notin> set bs"
  using assms unfolding any_hex64_def by (auto simp: is_ascii_hexdigit_def is_digit_def)

lemma canonical_well_formed:
  assumes "canonical p"
  shows "well_formed_request p" "lowered p = p"
proof -
  show "well_formed_request p"
    using assms lower_hex64D unfolding canonical_def well_formed_request_def any_hex64_def by blast
  have "map_option to_ascii_lowercase (hash_lock p) = hash_lock p"
    using assms lower_hex64D(3) by (cases "hash_lock p") (auto simp: canonical_def)
  moreover have "to_ascii_lowercase (address p) = address p" using assms lower_hex64D(3) by (simp add: canonical_def)
  ultimately show "lowered p = p" by (simp add: lowered_def)
qed

abbreviation join_param :: "bytes \<times> bytes \<Rightarrow> bytes" where
  "join_param kv \<equiv> fst kv @ equals # snd kv"

lemma split_push:
  "(\<forall>kv \<in> set (kv # kvs). ampersand \<notin> set (join_param kv)) \<Longrightarrow>
     split_on ampersand (join_param kv @ push_params False kvs) = map join_param (kv # kvs)"
proof (induction kvs arbitrary: kv)
  case Nil
  then show ?case by (simp add: split_on_single)
next
  case (Cons kv' kvs)
  have "split_on ampersand (join_param kv @ ampersand # (join_param kv' @ push_params False kvs))
      = join_param kv # split_on ampersand (join_param kv' @ push_params False kvs)"
    using Cons.prems by (intro split_on_app) simp
  then show ?case using Cons.IH [of kv'] Cons.prems by (cases kv') simp
qed

lemma key_plain [simp]:
  "equals \<notin> set (ascii ''amount'')" "equals \<notin> set (ascii ''memo'')" "equals \<notin> set (ascii ''hash_lock'')"
  "equals \<notin> set (ascii ''timeout'')" "equals \<notin> set (ascii ''label'')"
  "ampersand \<notin> set (ascii ''amount'')" "ampersand \<notin> set (ascii ''memo'')"
  "ampersand \<notin> set (ascii ''hash_lock'')" "ampersand \<notin> set (ascii ''timeout'')"
  "ampersand \<notin> set (ascii ''label'')"
  by (simp_all add: ascii_def)

lemma params_plain:
  assumes "well_formed_request p" and "kv \<in> set (uri_params p)"
  shows "ampersand \<notin> set (join_param kv)"
proof -
  have num: "ampersand \<notin> set (u64_to_string w)" for w
    using digits_are_digits [of ampersand "unat w"] digit_not_special by (auto simp: u64_to_string_def)
  have pct: "ampersand \<notin> set (percent_encode m)" for m using percent_encode_plain [of ampersand m] by auto
  have "ampersand \<notin> set h" if "hash_lock p = Some h" for h
    using assms(1) that any_hex64D(4) by (auto simp: well_formed_request_def)
  then show ?thesis using assms(2) num pct by (auto simp: uri_params_def split: option.splits)
qed

lemma decode_params_append:
  "decode_params (xs @ ys) out = bind_ok (decode_params xs out) (decode_params ys)"
proof (induction xs arbitrary: out)
  case Nil
  then show ?case by simp
next
  case (Cons x xs)
  then show ?case by (simp add: bind_ok_def split: option.splits sum.splits)
qed

lemma decode_param_keys [simp]:
  "decode_param (ascii ''amount'') v out = bind_ok (ok_or BadUriAmount (parse_u64 v)) (\<lambda>a. Inr (out\<lparr>amount := Some a\<rparr>))"
  "decode_param (ascii ''memo'') v out = bind_ok (percent_decode v) (\<lambda>m. Inr (out\<lparr>memo := Some m\<rparr>))"
  "decode_param (ascii ''hash_lock'') v out =
     (if length v \<noteq> 64 \<or> \<not> (\<forall>b \<in> set v. is_ascii_hexdigit b) then Inl BadHashLock
      else Inr (out\<lparr>hash_lock := Some (to_ascii_lowercase v)\<rparr>))"
  "decode_param (ascii ''timeout'') v out = bind_ok (ok_or BadTimeout (parse_u64 v)) (\<lambda>t. Inr (out\<lparr>timeout := Some t\<rparr>))"
  "decode_param (ascii ''label'') v out = bind_ok (percent_decode v) (\<lambda>l. Inr (out\<lparr>label := Some l\<rparr>))"
  by (simp_all add: decode_param_def ascii_def)

lemma decode_uri_params:
  assumes "well_formed_request p"
  shows "decode_params (map join_param (uri_params p)) (no_params (to_ascii_lowercase (address p))) = Inr (lowered p)"
proof -
  have hash: "any_hex64 h" if "hash_lock p = Some h" for h using assms that by (simp add: well_formed_request_def)
  have utf: "memo p = Some m \<or> label p = Some m \<Longrightarrow> utf8_valid m" for m
    using assms by (auto simp: well_formed_request_def)
  note h = hash [THEN any_hex64D(1)] hash [THEN any_hex64D(2)]
  have part: "decode_params (map join_param (case f of Some a \<Rightarrow> [(k, g a)] | None \<Rightarrow> [])) out =
      (case f of Some a \<Rightarrow> decode_param k (g a) out | None \<Rightarrow> Inr out)"
    if "equals \<notin> set k" for f :: "'x option" and g k out
    using that by (cases f) (simp_all add: bind_ok_def split: sum.splits)
  show ?thesis using h utf
    by (cases "amount p"; cases "memo p"; cases "hash_lock p"; cases "timeout p"; cases "label p")
       (simp_all add: uri_params_def decode_params_append part percent_roundtrip no_params_def lowered_def)
qed

lemma percent_decode_utf8: "percent_decode v = Inr m \<Longrightarrow> utf8_valid m"
  by (auto simp: percent_decode_def result_simps split: if_splits)

lemma decode_param_canonical:
  "canonical out \<Longrightarrow> decode_param k v out = Inr p \<Longrightarrow> canonical p"
  by (auto simp: decode_param_def canonical_def result_simps lower_hex64_lowercase
        dest: percent_decode_utf8 split: if_splits)

lemma decode_params_canonical:
  "canonical out \<Longrightarrow> decode_params kvs out = Inr p \<Longrightarrow> canonical p"
proof (induction kvs arbitrary: out)
  case Nil
  then show ?case by simp
next
  case (Cons kv kvs)
  then obtain k v mid where "decode_param k v out = Inr mid" "decode_params kvs mid = Inr p"
    by (auto simp: result_simps split: option.splits)
  then show ?case using Cons.IH decode_param_canonical [OF Cons.prems(1)] by blast
qed

lemma decode_cases:
  assumes "decode u = Inr p"
  obtains addr query where "length addr = 64" and "\<forall>b \<in> set addr. is_ascii_hexdigit b"
    and "(case query of None \<Rightarrow> Inr (no_params (to_ascii_lowercase addr))
         | Some q \<Rightarrow> if q = [] then Inr (no_params (to_ascii_lowercase addr))
             else decode_params (split_on ampersand q) (no_params (to_ascii_lowercase addr))) = Inr p"
proof -
  obtain rest where r: "strip_prefix_bytes (ascii ''exfer:'') u = Some rest"
    using assms by (auto simp: decode_def result_simps)
  obtain addr query where aq: "(case split_once qmark rest of Some (a, q) \<Rightarrow> (a, Some q) | None \<Rightarrow> (rest, None))
      = (addr, query)" by fastforce
  have "length addr = 64 \<and> (\<forall>b \<in> set addr. is_ascii_hexdigit b)"
    using assms unfolding decode_def r by (simp add: aq Let_def split: if_splits)
  moreover from this have "(case query of None \<Rightarrow> Inr (no_params (to_ascii_lowercase addr))
         | Some q \<Rightarrow> if q = [] then Inr (no_params (to_ascii_lowercase addr))
             else decode_params (split_on ampersand q) (no_params (to_ascii_lowercase addr))) = Inr p"
    using assms unfolding decode_def r by (simp add: aq Let_def)
  ultimately show thesis using that by blast
qed

lemma decode_encode_lowers:
  assumes "well_formed_request p"
  shows "decode (encode p) = Inr (lowered p)"
proof -
  have a: "any_hex64 (address p)" using assms by (simp add: well_formed_request_def)
  note a = any_hex64D [OF a]
  show ?thesis
  proof (cases "uri_params p")
    case Nil
    then have "lowered p = no_params (to_ascii_lowercase (address p))"
      by (cases p) (auto simp: uri_params_def no_params_def lowered_def split: option.splits)
    then show ?thesis using a Nil
      by (simp add: decode_def encode_def split_once_none)
  next
    case (Cons kv kvs)
    have q: "push_params True (uri_params p) = qmark # (join_param kv @ push_params False kvs)"
      using Cons by (cases kv) simp
    have "split_on ampersand (join_param kv @ push_params False kvs) = map join_param (uri_params p)"
      using split_push [of kv kvs] params_plain [OF assms] Cons by simp
    moreover have "join_param kv @ push_params False kvs \<noteq> []" by simp
    ultimately show ?thesis
      using a decode_uri_params [OF assms] unfolding decode_def encode_def q
      by (simp add: Let_def)
  qed
qed

lemma decode_encode: "canonical p \<Longrightarrow> decode (encode p) = Inr p"
  using decode_encode_lowers canonical_well_formed by simp

section \<open>Properties\<close>

text \<open>Round trip.  Every well-formed payment request, that is one with a lower-case hexadecimal
  address and hash lock of 64 characters and UTF-8 texts, decodes from its own encoding to itself,
  whichever of the optional fields are present and whatever bytes the texts hold.\<close>

theorem payment_uri_roundtrip:
  assumes "canonical p"
  shows "decode (encode p) = Inr p"
  using assms by (rule decode_encode)

definition sample_request :: payment_uri where
  "sample_request = \<lparr>address = replicate 64 0x61, amount = Some 1000, memo = Some [0x26, 0xC3, 0xA9],
     hash_lock = None, timeout = Some 7, label = Some [0x3D]\<rparr>"

lemma payment_uri_roundtrip_witness: "decode (encode sample_request) = Inr sample_request"
proof (rule payment_uri_roundtrip)
  show "canonical sample_request"
    by (simp add: canonical_def sample_request_def lower_hex64_def is_cont_def)
qed

text \<open>Decoding normalises.  Whatever a decoder accepts, upper-case digits, a leading plus sign,
  unknown or repeated parameters and superfluous escapes included, is a well-formed request, and
  re-encoding it gives a string that decodes to the same request: encoding after decoding is a
  normal form.\<close>

theorem payment_uri_normal_form:
  assumes "decode u = Inr p"
  shows "canonical p \<and> decode (encode p) = Inr p"
proof -
  have "canonical p"
  proof (rule decode_cases [OF assms])
    fix addr query
    assume l: "length addr = 64" "\<forall>b \<in> set addr. is_ascii_hexdigit b"
      and q: "(case query of None \<Rightarrow> Inr (no_params (to_ascii_lowercase addr))
             | Some q \<Rightarrow> if q = [] then Inr (no_params (to_ascii_lowercase addr))
                 else decode_params (split_on ampersand q) (no_params (to_ascii_lowercase addr))) = Inr p"
    have "canonical (no_params (to_ascii_lowercase addr))"
      using lower_hex64_lowercase [OF l] by (simp add: canonical_def no_params_def)
    then show ?thesis using q
      by (auto split: option.splits if_splits dest: decode_params_canonical)
  qed
  then show ?thesis using decode_encode by blast
qed

lemma payment_uri_normal_form_witness:
  "canonical sample_request \<and> decode (encode sample_request) = Inr sample_request"
proof -
  have "decode (encode sample_request) = Inr sample_request"
    by (rule decode_encode) (simp add: canonical_def sample_request_def lower_hex64_def is_cont_def)
  then show ?thesis by (rule payment_uri_normal_form)
qed

end
