(* ===== verification/Inflight.thy ===== *)
theory Inflight imports Errors "HOL-Library.AList" begin

text \<open>
  The in-flight tracker of unspent outputs (\<open>src/inflight.rs\<close>): a table of claimed outpoints with
  the instant each claim expires at, the boot-time hold on \<open>htlc_lock\<close>, the guard that releases its
  claims unless it is committed, and the seeding from the mempool at boot.  Every method locks the
  table once, so every function below is one atomic step; the clock (nanoseconds) is an argument.
\<close>

section \<open>State and operations\<close>

datatype outpoint = OutPoint (op_tx_id: bytes) (output_index: u32)

definition claim_ttl :: nat where
  "claim_ttl = 600 * 10 ^ 9"

definition lock_hold :: nat where
  "lock_hold = 12 * 10 ^ 9"

record claims =
  pending :: "(outpoint \<times> nat) list"
  ready_at :: "nat option"

definition no_claims :: claims where
  "no_claims = \<lparr>pending = [], ready_at = None\<rparr>"

definition retain_live :: "nat \<Rightarrow> claims \<Rightarrow> claims" where
  "retain_live now s = s\<lparr>pending := filter (\<lambda>(op, exp). now < exp) (pending s)\<rparr>"

definition pending_ops :: "nat \<Rightarrow> claims \<Rightarrow> claims \<times> outpoint list" where
  "pending_ops now s = (retain_live now s, map fst (pending (retain_live now s)))"

fun insert_all :: "nat \<Rightarrow> outpoint list \<Rightarrow> (outpoint \<times> nat) list \<Rightarrow> (outpoint \<times> nat) list" where
  "insert_all exp [] m = m"
| "insert_all exp (op # ops) m = insert_all exp ops (AList.update op exp m)"

fun remove_all :: "outpoint list \<Rightarrow> (outpoint \<times> nat) list \<Rightarrow> (outpoint \<times> nat) list" where
  "remove_all [] m = m"
| "remove_all (op # ops) m = remove_all ops (AList.delete op m)"

definition claim :: "nat \<Rightarrow> outpoint list \<Rightarrow> claims \<Rightarrow> claims" where
  "claim now ops s =
     (if ops = [] then s else s\<lparr>pending := insert_all (now + claim_ttl) ops (pending s)\<rparr>)"

definition release :: "outpoint list \<Rightarrow> claims \<Rightarrow> claims" where
  "release ops s = (if ops = [] then s else s\<lparr>pending := remove_all ops (pending s)\<rparr>)"

definition claims_len :: "nat \<Rightarrow> claims \<Rightarrow> claims \<times> nat" where
  "claims_len now s = (retain_live now s, length (pending (retain_live now s)))"

definition hold_locks_until :: "nat \<Rightarrow> claims \<Rightarrow> claims" where
  "hold_locks_until t s = s\<lparr>ready_at := Some t\<rparr>"

definition locks_held :: "nat \<Rightarrow> claims \<Rightarrow> bool" where
  "locks_held now s = (case ready_at s of Some t \<Rightarrow> now < t | None \<Rightarrow> False)"

text \<open>The guard.  \<open>drop_guard\<close> is its destructor; \<open>commit_guard\<close> takes it by value, so the destructor
  runs on the committed guard.\<close>

record claim_guard =
  outpoints :: "outpoint list"
  committed :: bool

definition new_guard :: "nat \<Rightarrow> outpoint list \<Rightarrow> claims \<Rightarrow> claims \<times> claim_guard" where
  "new_guard now ops s = (claim now ops s, \<lparr>outpoints = ops, committed = False\<rparr>)"

definition drop_guard :: "claim_guard \<Rightarrow> claims \<Rightarrow> claims" where
  "drop_guard g s = (if \<not> committed g then release (outpoints g) s else s)"

definition commit_guard :: "claim_guard \<Rightarrow> claims \<Rightarrow> claims" where
  "commit_guard g s = drop_guard (g\<lparr>committed := True\<rparr>) s"

text \<open>Snapshot, the caller's selection and the claim, under one acquisition of the mutex.  The garbage
  collection stays even when the selection fails.\<close>

definition select_and_claim ::
    "nat \<Rightarrow> (outpoint set \<Rightarrow> 'e + (outpoint list \<times> 'v)) \<Rightarrow> claims \<Rightarrow>
     claims \<times> ('e + (claim_guard \<times> 'v))" where
  "select_and_claim now select s =
     (let s1 = retain_live now s in
      case select (set (map fst (pending s1))) of
        Inl e \<Rightarrow> (s1, Inl e)
      | Inr (claimed, value) \<Rightarrow>
          (s1\<lparr>pending := insert_all (now + claim_ttl) claimed (pending s1)\<rparr>,
           Inr (\<lparr>outpoints = claimed, committed = False\<rparr>, value)))"

subsection \<open>Seeding from the mempool\<close>

text \<open>
  The wallet store and the node are parameters: the managed addresses, and per address the spent
  outputs of each unconfirmed transaction (\<open>None\<close> when the node does not know the method).  The claims
  made before a failing call stay.
\<close>

fun spent_outpoints :: "(string \<Rightarrow> bytes res) \<Rightarrow> (string \<times> u32) list \<Rightarrow> outpoint list res" where
  "spent_outpoints decode [] = Inr []"
| "spent_outpoints decode ((tx, idx) # rest) =
     bind_ok (decode tx) (\<lambda>b.
     bind_ok (spent_outpoints decode rest) (\<lambda>ops. Inr (OutPoint b idx # ops)))"

fun seed_addresses ::
    "(string \<Rightarrow> bytes res) \<Rightarrow> (string \<Rightarrow> (string \<times> u32) list list option res) \<Rightarrow> nat \<Rightarrow>
     string list \<Rightarrow> nat \<Rightarrow> bool \<Rightarrow> claims \<Rightarrow> claims \<times> (nat \<times> bool) res" where
  "seed_addresses decode mempool now [] seeded available s = (s, Inr (seeded, available))"
| "seed_addresses decode mempool now (a # as) seeded available s =
     (case mempool a of
        Inl e \<Rightarrow> (s, Inl e)
      | Inr None \<Rightarrow> seed_addresses decode mempool now as seeded False s
      | Inr (Some txs) \<Rightarrow>
          (case spent_outpoints decode (concat txs) of
             Inl e \<Rightarrow> (s, Inl e)
           | Inr ops \<Rightarrow>
               (if ops = [] then seed_addresses decode mempool now as seeded available s
                else seed_addresses decode mempool now as (seeded + length ops) available
                       (claim now ops s))))"

definition reconcile_from_mempool ::
    "string list res \<Rightarrow> (string \<Rightarrow> bytes res) \<Rightarrow> (string \<Rightarrow> (string \<times> u32) list list option res) \<Rightarrow>
     nat \<Rightarrow> claims \<Rightarrow> claims \<times> (nat \<times> bool) res" where
  "reconcile_from_mempool addresses decode mempool now s =
     (case addresses of
        Inl e \<Rightarrow> (s, Inl e)
      | Inr as \<Rightarrow> seed_addresses decode mempool now as 0 True s)"

section \<open>The set of live claims\<close>

definition tracked :: "claims \<Rightarrow> bool" where
  "tracked s \<longleftrightarrow> distinct (map fst (pending s))"

text \<open>What the table means: the outpoints that no selection may pick at \<open>now\<close>.\<close>

definition live :: "nat \<Rightarrow> claims \<Rightarrow> outpoint set" where
  "live now s = {op. \<exists>exp. map_of (pending s) op = Some exp \<and> now < exp}"

lemma distinct_insert_all [simp]:
  "distinct (map fst m) \<Longrightarrow> distinct (map fst (insert_all exp ops m))"
  by (induction ops arbitrary: m) (auto intro: distinct_update)

lemma distinct_remove_all [simp]: "distinct (map fst m) \<Longrightarrow> distinct (map fst (remove_all ops m))"
  by (induction ops arbitrary: m) (auto intro: distinct_delete)

lemma map_of_insert_all:
  "map_of (insert_all exp ops m) op = (if op \<in> set ops then Some exp else map_of m op)"
  by (induction ops arbitrary: m) (auto simp: update_conv')

lemma map_of_remove_all:
  "map_of (remove_all ops m) op = (if op \<in> set ops then None else map_of m op)"
  by (induction ops arbitrary: m) (auto simp: delete_conv')

lemma tracked_ops [simp]:
  "tracked s \<Longrightarrow> tracked (retain_live now s)"
  "tracked s \<Longrightarrow> tracked (claim now ops s)"
  "tracked s \<Longrightarrow> tracked (release ops s)"
  by (simp_all add: tracked_def retain_live_def claim_def release_def distinct_map_filter)

lemma pending_retain:
  "tracked s \<Longrightarrow> map_of (pending (retain_live now s)) op =
     (case map_of (pending s) op of None \<Rightarrow> None | Some exp \<Rightarrow> if now < exp then Some exp else None)"
  by (simp add: tracked_def retain_live_def map_of_filter_distinct split: option.splits)

lemma keys_retain: "tracked s \<Longrightarrow> set (map fst (pending (retain_live now s))) = live now s"
  using pending_retain [of s now]
  by (fastforce simp: live_def dom_map_of_conv_image_fst [symmetric] split: option.splits if_splits)

lemma live_retain [simp]: "tracked s \<Longrightarrow> now \<le> t \<Longrightarrow> live t (retain_live now s) = live t s"
  by (auto simp: live_def pending_retain split: option.splits if_splits)

lemma claim_ttl_pos [simp]: "0 < claim_ttl"
  by (simp add: claim_ttl_def)

lemma live_claim:
  "live t (claim now ops s) = (if t < now + claim_ttl then live t s \<union> set ops else live t s - set ops)"
  by (auto simp: live_def claim_def map_of_insert_all)

lemma live_release: "live t (release ops s) = live t s - set ops"
  by (auto simp: live_def release_def map_of_remove_all)

lemma pending_ops_live: "tracked s \<Longrightarrow> set (snd (pending_ops now s)) = live now s"
  by (simp add: pending_ops_def keys_retain del: set_map)

section \<open>The contract of a selection\<close>

text \<open>
  A selection is given the live set and must keep clear of it.  Both spending paths of the daemon
  hand \<open>select_and_claim\<close> such a selection.
\<close>

locale selection =
  fixes pick :: "outpoint set \<Rightarrow> 'e + (outpoint list \<times> 'v)"
  assumes avoids: "pick P = Inr (ops, v) \<Longrightarrow> set ops \<inter> P = {}"
begin

lemma claimed_are_fresh:
  assumes "tracked s" and "select_and_claim now pick s = (s', Inr (g, v))"
  shows "set (outpoints g) \<inter> live now s = {}"
    and "live now s' = live now s \<union> set (outpoints g)" and "\<not> committed g" and "tracked s'"
    and "map_of (pending s') op =
           (if op \<in> set (outpoints g) then Some (now + claim_ttl) else map_of (pending (retain_live now s)) op)"
proof -
  obtain ops where c: "pick (live now s) = Inr (ops, v)"
    and g: "g = \<lparr>outpoints = ops, committed = False\<rparr>"
    and s': "s' = (retain_live now s)
               \<lparr>pending := insert_all (now + claim_ttl) ops (pending (retain_live now s))\<rparr>"
    using assms
    by (auto simp: select_and_claim_def Let_def keys_retain simp del: set_map split: sum.splits)
  show "set (outpoints g) \<inter> live now s = {}" using avoids [OF c] g by simp
  show "live now s' = live now s \<union> set (outpoints g)"
    using assms(1) live_retain [OF assms(1), of now now]
    by (auto simp: s' g live_def map_of_insert_all pending_retain split: option.splits if_splits)
  show "\<not> committed g" by (simp add: g)
  show "tracked s'" using assms(1) by (simp add: s' tracked_def retain_live_def distinct_map_filter)
  show "map_of (pending s') op =
      (if op \<in> set (outpoints g) then Some (now + claim_ttl) else map_of (pending (retain_live now s)) op)"
    by (simp add: s' g map_of_insert_all)
qed

lemma refused_claims_nothing:
  "tracked s \<Longrightarrow> select_and_claim now pick s = (s', Inl e) \<Longrightarrow> now \<le> t \<Longrightarrow> live t s' = live t s"
  by (auto simp: select_and_claim_def Let_def split: sum.splits)

text \<open>Dropping the uncommitted guard gives back exactly what it took, committing keeps it.\<close>

lemma guard_outcome:
  assumes "tracked s" and "select_and_claim now pick s = (s', Inr (g, v))"
  shows "live now (drop_guard g s') = live now s"
    and "live now (commit_guard g s') = live now s \<union> set (outpoints g)"
  using claimed_are_fresh [OF assms]
  by (auto simp: drop_guard_def commit_guard_def live_release)

end

section \<open>Concurrent spenders\<close>

text \<open>
  Spenders take the table's steps in any order.  A holder is the claim of one spender: its outpoints,
  when it was taken and whether its guard was committed.  \<open>late\<close> allows a guard to be dropped after
  its claims expired, which the destructor does not check.
\<close>

record holder =
  held :: "outpoint list"
  since :: nat
  kept :: bool

record spenders =
  table :: claims
  holders :: "nat \<Rightarrow> holder option"
  time :: nat

inductive spend_step :: "bool \<Rightarrow> spenders \<Rightarrow> spenders \<Rightarrow> bool" for late :: bool where
  spend_tick: "time s \<le> t \<Longrightarrow> spend_step late s (s\<lparr>time := t\<rparr>)"
| spend_select: "holders s h = None \<Longrightarrow> selection (pick :: outpoint set \<Rightarrow> unit + (outpoint list \<times> unit)) \<Longrightarrow>
    select_and_claim (time s) pick (table s) = (t, Inr (g, v)) \<Longrightarrow>
    spend_step late s (s\<lparr>table := t, holders := (holders s)
        (h \<mapsto> \<lparr>held = outpoints g, since = time s, kept = False\<rparr>)\<rparr>)"
| spend_refused: "selection (pick :: outpoint set \<Rightarrow> unit + (outpoint list \<times> unit)) \<Longrightarrow>
    select_and_claim (time s) pick (table s) = (t, Inl e) \<Longrightarrow>
    spend_step late s (s\<lparr>table := t\<rparr>)"
| spend_seed: "spend_step late s (s\<lparr>table := claim (time s) ops (table s)\<rparr>)"
| spend_commit: "holders s h = Some c \<Longrightarrow> \<not> kept c \<Longrightarrow>
    spend_step late s (s\<lparr>table := commit_guard \<lparr>outpoints = held c, committed = False\<rparr> (table s),
        holders := (holders s)(h \<mapsto> c\<lparr>kept := True\<rparr>)\<rparr>)"
| spend_drop: "holders s h = Some c \<Longrightarrow> \<not> kept c \<Longrightarrow> late \<or> time s < since c + claim_ttl \<Longrightarrow>
    spend_step late s (s\<lparr>table := drop_guard \<lparr>outpoints = held c, committed = False\<rparr> (table s),
        holders := (holders s)(h := None)\<rparr>)"

definition spend_start :: spenders where
  "spend_start = \<lparr>table = no_claims, holders = Map.empty, time = 0\<rparr>"

inductive spend_reachable :: "bool \<Rightarrow> spenders \<Rightarrow> bool" for late :: bool where
  spend_reachable_start: "spend_reachable late spend_start"
| spend_reachable_step: "spend_reachable late s \<Longrightarrow> spend_step late s s' \<Longrightarrow> spend_reachable late s'"

text \<open>A claim that has not expired.\<close>

definition current :: "spenders \<Rightarrow> holder \<Rightarrow> bool" where
  "current s c \<longleftrightarrow> time s < since c + claim_ttl"

definition disjoint_claims :: "spenders \<Rightarrow> bool" where
  "disjoint_claims s \<longleftrightarrow>
     (\<forall>i j c d. holders s i = Some c \<longrightarrow> holders s j = Some d \<longrightarrow> i \<noteq> j \<longrightarrow>
        current s c \<longrightarrow> current s d \<longrightarrow> set (held c) \<inter> set (held d) = {})"

definition backed :: "spenders \<Rightarrow> bool" where
  "backed s \<longleftrightarrow> tracked (table s) \<and>
     (\<forall>i c. holders s i = Some c \<longrightarrow> since c \<le> time s \<and>
        (\<forall>op \<in> set (held c). current s c \<longrightarrow>
            (\<exists>exp. map_of (pending (table s)) op = Some exp \<and> since c + claim_ttl \<le> exp)))"

lemma backedD:
  assumes "backed s" and "holders s i = Some c"
  shows "since c \<le> time s"
    and "op \<in> set (held c) \<Longrightarrow> current s c \<Longrightarrow>
           \<exists>exp. map_of (pending (table s)) op = Some exp \<and> since c + claim_ttl \<le> exp"
    and "current s c \<Longrightarrow> set (held c) \<subseteq> live (time s) (table s)"
proof -
  show "since c \<le> time s" using assms unfolding backed_def by blast
  show *: "\<exists>exp. map_of (pending (table s)) op = Some exp \<and> since c + claim_ttl \<le> exp"
    if "op \<in> set (held c)" "current s c" for op using assms that unfolding backed_def by blast
  show "set (held c) \<subseteq> live (time s) (table s)" if "current s c"
    using * that by (fastforce simp: live_def current_def)
qed

text \<open>A step that keeps the holders and every live entry of the table keeps both invariants.\<close>

lemma backed_frame:
  assumes b: "backed s" and "holders s' = holders s" and "time s \<le> time s'" and "tracked (table s')"
    and keep: "\<And>op exp. map_of (pending (table s)) op = Some exp \<Longrightarrow> time s' < exp \<Longrightarrow>
            map_of (pending (table s')) op = Some exp"
  shows "backed s'"
  unfolding backed_def
proof (intro conjI allI impI ballI)
  show "tracked (table s')" by (rule assms(4))
  fix i c assume i: "holders s' i = Some c"
  then have i: "holders s i = Some c" using assms(2) by simp
  show "since c \<le> time s'" using backedD(1) [OF b i] assms(3) by simp
  fix op assume op: "op \<in> set (held c)" and cur: "current s' c"
  then have "current s c" using assms(3) by (simp add: current_def)
  from backedD(2) [OF b i op this] obtain exp
    where e: "map_of (pending (table s)) op = Some exp" "since c + claim_ttl \<le> exp" by blast
  have "time s' < exp" using e(2) cur by (simp add: current_def)
  from keep [OF e(1) this] e(2)
  show "\<exists>exp. map_of (pending (table s')) op = Some exp \<and> since c + claim_ttl \<le> exp" by blast
qed

lemma disjoint_frame:
  "disjoint_claims s \<Longrightarrow> holders s' = holders s \<Longrightarrow> time s \<le> time s' \<Longrightarrow> disjoint_claims s'"
  unfolding disjoint_claims_def current_def by (metis le_less_trans)

lemma retain_keeps:
  "tracked s \<Longrightarrow> map_of (pending s) op = Some exp \<Longrightarrow> now < exp \<Longrightarrow>
     map_of (pending (retain_live now s)) op = Some exp"
  by (simp add: pending_retain)

lemma invariants_select:
  assumes b: "backed s" and dis: "disjoint_claims s" and h: "holders s h = None"
    and sel: "selection (pick :: outpoint set \<Rightarrow> unit + (outpoint list \<times> unit))"
    and c: "select_and_claim (time s) pick (table s) = (t, Inr (g, v))"
  defines "s' \<equiv> s\<lparr>table := t, holders := (holders s)
              (h \<mapsto> \<lparr>held = outpoints g, since = time s, kept = False\<rparr>)\<rparr>"
  shows "backed s'" and "disjoint_claims s'"
proof -
  have tr: "tracked (table s)" using b by (simp add: backed_def)
  note f = selection.claimed_are_fresh [OF sel tr c]
  have old: "\<exists>exp. map_of (pending t) op = Some exp \<and> since d + claim_ttl \<le> exp"
    if d: "holders s i = Some d" "op \<in> set (held d)" "current s d" for i d op
  proof -
    obtain exp where e: "map_of (pending (table s)) op = Some exp" "since d + claim_ttl \<le> exp"
      using backedD(2) [OF b d] by blast
    have "op \<in> live (time s) (table s)" using backedD(3) [OF b d(1,3)] d(2) by blast
    then have "op \<notin> set (outpoints g)" using f(1) by blast
    moreover have "time s < exp" using e(2) d(3) by (simp add: current_def)
    ultimately show ?thesis using e f(5) [of op] retain_keeps [OF tr e(1)] by auto
  qed
  show "backed s'" unfolding backed_def
  proof (intro conjI allI impI ballI)
    show "tracked (table s')" using f(4) by (simp add: s'_def)
    fix i d assume i: "holders s' i = Some d"
    show "since d \<le> time s'"
      using i backedD(1) [OF b] by (auto simp: s'_def split: if_splits)
    show "\<exists>exp. map_of (pending (table s')) op = Some exp \<and> since d + claim_ttl \<le> exp"
      if "op \<in> set (held d)" "current s' d" for op
      using i that old [of i d op] f(5) [of op] by (auto simp: s'_def current_def split: if_splits)
  qed
  show "disjoint_claims s'" unfolding disjoint_claims_def
  proof (intro allI impI)
    fix i j d e
    assume a: "holders s' i = Some d" "holders s' j = Some e" "i \<noteq> j" "current s' d" "current s' e"
    have cur: "current s d" "current s e" using a(4,5) by (simp_all add: s'_def current_def)
    have new: "set (outpoints g) \<inter> set (held k) = {}" if "holders s l = Some k" "current s k" for l k
      using f(1) backedD(3) [OF b that] by blast
    consider "i = h" | "j = h" | "i \<noteq> h" "j \<noteq> h" by blast
    then show "set (held d) \<inter> set (held e) = {}"
    proof cases
      case 1
      then show ?thesis using a new [of j e] cur by (auto simp: s'_def)
    next
      case 2
      then show ?thesis using a new [of i d] cur by (auto simp: s'_def)
    next
      case 3
      then have "holders s i = Some d" "holders s j = Some e" using a(1,2) by (simp_all add: s'_def)
      then show ?thesis using dis cur a(3) unfolding disjoint_claims_def by blast
    qed
  qed
qed

lemma invariants_drop:
  assumes b: "backed s" and dis: "disjoint_claims s" and h: "holders s h = Some c"
    and cur: "current s c"
  defines "s' \<equiv> s\<lparr>table := drop_guard \<lparr>outpoints = held c, committed = False\<rparr> (table s),
              holders := (holders s)(h := None)\<rparr>"
  shows "backed s'" and "disjoint_claims s'"
proof -
  have look: "map_of (pending (table s')) op =
      (if op \<in> set (held c) then None else map_of (pending (table s)) op)" for op
    by (simp add: s'_def drop_guard_def release_def map_of_remove_all)
  have tm: "time s' = time s" by (simp add: s'_def)
  have sub: "holders s i = Some d \<and> i \<noteq> h" if "holders s' i = Some d" for i d
    using that by (auto simp: s'_def split: if_splits)
  show "backed s'" unfolding backed_def
  proof (intro conjI allI impI ballI)
    show "tracked (table s')" using b by (simp add: s'_def drop_guard_def backed_def)
    fix i d assume i: "holders s' i = Some d"
    then show "since d \<le> time s'" using sub [OF i] backedD(1) [OF b, of i d] by (simp add: s'_def)
    fix op assume op: "op \<in> set (held d)" "current s' d"
    then have d: "current s d" by (simp add: s'_def current_def)
    have "set (held c) \<inter> set (held d) = {}"
      using dis sub [OF i] h cur d unfolding disjoint_claims_def by blast
    then show "\<exists>exp. map_of (pending (table s')) op = Some exp \<and> since d + claim_ttl \<le> exp"
      using backedD(2) [OF b _ op(1) d] sub [OF i] op(1) look [of op] by auto
  qed
  show "disjoint_claims s'"
    using dis sub unfolding disjoint_claims_def current_def tm by blast
qed

lemma invariants_commit:
  assumes b: "backed s" and dis: "disjoint_claims s" and h: "holders s h = Some c"
  defines "s' \<equiv> s\<lparr>table := commit_guard \<lparr>outpoints = held c, committed = False\<rparr> (table s),
              holders := (holders s)(h \<mapsto> c\<lparr>kept := True\<rparr>)\<rparr>"
  shows "backed s'" and "disjoint_claims s'"
proof -
  have t: "table s' = table s" "time s' = time s"
    by (simp_all add: s'_def commit_guard_def drop_guard_def)
  have sub: "\<exists>d0. holders s i = Some d0 \<and> held d = held d0 \<and> since d = since d0"
    if "holders s' i = Some d" for i d
    using that h by (auto simp: s'_def split: if_splits)
  show "backed s'" using b sub unfolding backed_def t current_def by metis
  show "disjoint_claims s'" using dis sub unfolding disjoint_claims_def t current_def by metis
qed

lemma spend_step_invariants:
  "spend_step False s s' \<Longrightarrow> backed s \<and> disjoint_claims s \<Longrightarrow> backed s' \<and> disjoint_claims s'"
proof (induction rule: spend_step.induct)
  case (spend_tick s t)
  have tr: "tracked (table s)" using spend_tick.prems by (simp add: backed_def)
  have "backed (s\<lparr>time := t\<rparr>)"
    using spend_tick tr by (rule_tac backed_frame [of s]) simp_all
  moreover have "disjoint_claims (s\<lparr>time := t\<rparr>)"
    using spend_tick by (rule_tac disjoint_frame [of s]) auto
  ultimately show ?case by blast
next
  case (spend_select s h pick t g v)
  then show ?case using invariants_select by blast
next
  case (spend_refused pick s t e)
  have tr: "tracked (table s)" using spend_refused.prems by (simp add: backed_def)
  have t: "t = retain_live (time s) (table s)"
    using spend_refused.hyps(2) by (auto simp: select_and_claim_def Let_def split: sum.splits)
  have "backed (s\<lparr>table := t\<rparr>)"
    using spend_refused.prems tr retain_keeps [OF tr]
    by (rule_tac backed_frame [of s]) (auto simp: t)
  moreover have "disjoint_claims (s\<lparr>table := t\<rparr>)"
    using spend_refused.prems by (rule_tac disjoint_frame [of s]) auto
  ultimately show ?case by blast
next
  case (spend_seed s ops)
  let ?s = "s\<lparr>table := claim (time s) ops (table s)\<rparr>"
  have tr: "tracked (table s)" using spend_seed by (simp add: backed_def)
  have "backed ?s" unfolding backed_def
  proof (intro conjI allI impI ballI)
    show "tracked (table ?s)" using tr by simp
    fix i c assume i: "holders ?s i = Some c"
    then show "since c \<le> time ?s" using spend_seed by (auto simp: backed_def)
    fix op assume "op \<in> set (held c)" "current ?s c"
    then show "\<exists>exp. map_of (pending (table ?s)) op = Some exp \<and> since c + claim_ttl \<le> exp"
      using i backedD(1,2) [of s i c] spend_seed
      by (auto simp: claim_def map_of_insert_all current_def)
  qed
  then show ?case using spend_seed by (auto intro: disjoint_frame)
next
  case (spend_commit s h c)
  then show ?case using invariants_commit by blast
next
  case (spend_drop s h c)
  then show ?case using invariants_drop by (auto simp: current_def)
qed

lemma spend_invariants: "spend_reachable False s \<Longrightarrow> backed s \<and> disjoint_claims s"
proof (induction rule: spend_reachable.induct)
  case spend_reachable_start
  show ?case
    by (simp add: spend_start_def no_claims_def backed_def disjoint_claims_def tracked_def)
next
  case (spend_reachable_step s s')
  then show ?case using spend_step_invariants by blast
qed

section \<open>Properties\<close>


definition pick_one :: "outpoint \<Rightarrow> outpoint set \<Rightarrow> unit + (outpoint list \<times> unit)" where
  "pick_one op P = (if op \<in> P then Inl () else Inr ([op], ()))"

lemma selection_pick_one: "selection (pick_one op)"
  by unfold_locales (auto simp: pick_one_def split: if_splits)

definition spenders_at :: "(outpoint \<times> nat) list \<Rightarrow> (nat \<rightharpoonup> holder) \<Rightarrow> nat \<Rightarrow> spenders" where
  "spenders_at m hs t = \<lparr>table = \<lparr>pending = m, ready_at = None\<rparr>, holders = hs, time = t\<rparr>"

lemma spenders_at_simps [simp]:
  "table (spenders_at m hs t) = \<lparr>pending = m, ready_at = None\<rparr>"
  "holders (spenders_at m hs t) = hs" "time (spenders_at m hs t) = t"
  "(spenders_at m hs t)\<lparr>time := t'\<rparr> = spenders_at m hs t'"
  "(spenders_at m hs t)\<lparr>table := \<lparr>pending = m', ready_at = None\<rparr>, holders := hs'\<rparr> = spenders_at m' hs' t"
  by (simp_all add: spenders_at_def)

lemma spenders_pick:
  assumes "spend_reachable late (spenders_at m hs t)" and "hs h = None"
    and "op \<notin> set (map fst (filter (\<lambda>(op, exp). t < exp) m))"
  shows "spend_reachable late (spenders_at
           (AList.update op (t + claim_ttl) (filter (\<lambda>(op, exp). t < exp) m))
           (hs(h \<mapsto> \<lparr>held = [op], since = t, kept = False\<rparr>)) t)"
proof -
  have "select_and_claim t (pick_one op) \<lparr>pending = m, ready_at = None\<rparr> =
      (\<lparr>pending = AList.update op (t + claim_ttl) (filter (\<lambda>(op, exp). t < exp) m), ready_at = None\<rparr>,
       Inr (\<lparr>outpoints = [op], committed = False\<rparr>, ()))"
    using assms(3) by (simp add: select_and_claim_def pick_one_def retain_live_def Let_def)
  then show ?thesis
    using spend_reachable_step [OF assms(1) spend_select [of _ h "pick_one op"]] assms(2)
      selection_pick_one by simp
qed

abbreviation coin :: "u32 \<Rightarrow> outpoint" where
  "coin k \<equiv> OutPoint [] k"

lemma two_holders:
  "spend_reachable late (spenders_at [(coin 0, claim_ttl), (coin 1, claim_ttl)]
     [0 \<mapsto> \<lparr>held = [coin 0], since = 0, kept = False\<rparr>, 1 \<mapsto> \<lparr>held = [coin 1], since = 0, kept = False\<rparr>] 0)"
proof -
  have "spend_reachable late (spenders_at [] Map.empty 0)"
    using spend_reachable_start by (simp add: spend_start_def spenders_at_def no_claims_def)
  from spenders_pick [OF spenders_pick [OF this, where h = 0 and op = "coin 0"], where h = 1 and op = "coin 1"]
  show ?thesis by simp
qed


text \<open>Without that proviso the guarantee fails.  A guard dropped after its claims expired releases
  the outpoint by value, although another spender has claimed it meanwhile; a third spender can then
  take it too, so that two unexpired claims hold the same output.\<close>

theorem late_drop_breaks_exclusion:
  "\<exists>s c d op. spend_reachable True s \<and> holders s 1 = Some c \<and> holders s 2 = Some d
     \<and> current s c \<and> current s d \<and> op \<in> set (held c) \<and> op \<in> set (held d)"
proof -
  let ?c = "\<lambda>t. \<lparr>held = [coin 0], since = t, kept = False\<rparr>"
  have "spend_reachable True (spenders_at [] Map.empty 0)"
    using spend_reachable_start by (simp add: spend_start_def spenders_at_def no_claims_def)
  from spenders_pick [OF this, where h = 0 and op = "coin 0"]
  have "spend_reachable True (spenders_at [(coin 0, claim_ttl)] [0 \<mapsto> ?c 0] 0)" by simp
  from spend_reachable_step [OF this spend_tick [of _ claim_ttl]]
  have "spend_reachable True (spenders_at [(coin 0, claim_ttl)] [0 \<mapsto> ?c 0] claim_ttl)" by simp
  from spenders_pick [OF this, where h = 1 and op = "coin 0"]
  have "spend_reachable True
      (spenders_at [(coin 0, claim_ttl + claim_ttl)] [0 \<mapsto> ?c 0, 1 \<mapsto> ?c claim_ttl] claim_ttl)" by simp
  from spend_reachable_step [OF this spend_drop [of _ 0 "?c 0"]]
  have "spend_reachable True (spenders_at [] [1 \<mapsto> ?c claim_ttl] claim_ttl)"
    by (simp add: drop_guard_def release_def fun_upd_twist)
  from spenders_pick [OF this, where h = 2 and op = "coin 0"]
  have "spend_reachable True
      (spenders_at [(coin 0, claim_ttl + claim_ttl)] [1 \<mapsto> ?c claim_ttl, 2 \<mapsto> ?c claim_ttl] claim_ttl)"
    by simp
  then show ?thesis
    by (intro exI [of _ "spenders_at [(coin 0, claim_ttl + claim_ttl)]
            [1 \<mapsto> ?c claim_ttl, 2 \<mapsto> ?c claim_ttl] claim_ttl"]
          exI [of _ "?c claim_ttl"] exI [of _ "coin 0"]) (simp add: current_def)
qed

end
