(* ===== verification/Chain.thy ===== *)
theory Chain imports Inflight begin

text \<open>
  The interface to the EXFER node and to the \<open>exfer\<close> crate, neither of which is part of the
  repository: transactions as the code builds them field by field, and, in one record, the library
  functions the code calls.  Nothing is assumed about them here; a statement that needs more than
  their results says so.
\<close>

record tx_input =
  prev_tx_id :: bytes
  prev_index :: u32

record tx_output =
  out_value :: u64
  script :: bytes
  datum :: "bytes option"
  datum_hash :: "bytes option"

record tx_witness =
  witness :: bytes
  redeemer :: "bytes option"

record transaction =
  inputs :: "tx_input list"
  outputs :: "tx_output list"
  witnesses :: "tx_witness list"

text \<open>The crate: consensus constants, cost model, serialisation, hashing and the \<open>hex\<close> codec.\<close>

record chain =
  dust_threshold :: u64
  min_fee_divisor :: u64
  min_fee :: "transaction \<Rightarrow> u64 option"
  tx_cost :: "transaction \<Rightarrow> u64 option"
  sig_message :: "transaction \<Rightarrow> bytes option"
  tx_id_of :: "transaction \<Rightarrow> bytes option"
  serialize :: "transaction \<Rightarrow> bytes option"
  hex_encode :: "bytes \<Rightarrow> string"
  hex_decode :: "string \<Rightarrow> bytes option"

text \<open>A wallet key: its address, its public key and its signing function.\<close>

record signer =
  signer_address :: bytes
  signer_pubkey :: bytes
  sign_bytes :: "bytes \<Rightarrow> bytes"

record utxo_entry =
  utxo_tx_id :: string
  utxo_index :: u32
  utxo_value :: u64

record utxo_set =
  tip_height :: u64
  utxos :: "utxo_entry list"

text \<open>What one request sees of the node: the answer per address, and the answer to a broadcast.\<close>

record node =
  get_address_utxos :: "string \<Rightarrow> utxo_set res"
  send_raw_transaction :: "string \<Rightarrow> string res"

text \<open>\<open>decode_hash\<close> (\<open>src/tx/mod.rs\<close>).\<close>

definition decode_hash :: "chain \<Rightarrow> string \<Rightarrow> bytes res" where
  "decode_hash ch s =
     (case hex_decode ch s of
        None \<Rightarrow> Inl (BadHex '''')
      | Some b \<Rightarrow> if length b \<noteq> 32 then Inl (BadAddressLen (length b)) else Inr b)"

lemma decode_hash_length: "decode_hash ch s = Inr b \<Longrightarrow> length b = 32"
  by (auto simp: decode_hash_def split: option.splits if_splits)

end
