(* ===== verification/TxBuild.thy ===== *)
theory TxBuild imports Chain begin

text \<open>
  The transaction engine (\<open>src/tx/mod.rs\<close>): fee-aware coin selection against the in-flight claims,
  assembly, change and fee, signing, and the broadcast with its check of the returned id; on top of
  it \<open>transfer\<close> and its dry run.  The claims are threaded through as state; \<open>clock i\<close> is the instant
  of the \<open>i\<close>-th selection.  Sums of \<^typ>\<open>64 word\<close> values wrap, as in the release build.
\<close>

section \<open>Data\<close>

definition fee_estimate_max_iters :: nat where
  "fee_estimate_max_iters = 3"

datatype fee_choice = Absolute u64 | Rate u64

record core_output =
  co_script :: bytes
  co_value :: u64

type_synonym candidate = "outpoint \<times> utxo_entry"

record built_tx =
  built :: transaction
  built_id :: bytes
  built_size :: u64
  effective_fee :: u64
  fee_rate :: u64
  built_at_height :: u64
  selected :: "(outpoint \<times> u64) list"
  change_value :: u64
  has_change :: bool

record core_receipt =
  cr_tx_id_hex :: string
  cr_size :: u64
  cr_effective_fee :: u64
  cr_fee_rate :: u64
  cr_built_at_height :: u64
  cr_selected :: "(outpoint \<times> u64) list"
  cr_change_value :: u64
  cr_has_change :: bool

section \<open>Coin selection\<close>

fun candidates_of :: "chain \<Rightarrow> utxo_entry list \<Rightarrow> candidate list res" where
  "candidates_of ch [] = Inr []"
| "candidates_of ch (e # es) =
     bind_ok (decode_hash ch (utxo_tx_id e)) (\<lambda>b.
     bind_ok (candidates_of ch es) (\<lambda>cs. Inr ((OutPoint b (utxo_index e), e) # cs)))"

text \<open>\<open>sort_by_key\<close> with \<open>Reverse\<close> of the value: stable, largest first.\<close>

definition largest_first :: "candidate list \<Rightarrow> candidate list" where
  "largest_first = sort_key (\<lambda>c. - uint (utxo_value (snd c)))"

record scan =
  chosen :: "candidate list"
  accumulated :: u64
  spendable_total :: u64
  spendable_count :: nat
  in_flight_value :: u64
  in_flight_count :: nat

definition scan_step :: "u64 \<Rightarrow> outpoint set \<Rightarrow> scan \<Rightarrow> candidate \<Rightarrow> scan" where
  "scan_step needed pend s c =
     (let (op, entry) = c in
      if op \<in> pend then
        s\<lparr>in_flight_value := saturating_add (in_flight_value s) (utxo_value entry),
          in_flight_count := in_flight_count s + 1\<rparr>
      else
        let s = s\<lparr>spendable_total := saturating_add (spendable_total s) (utxo_value entry),
                  spendable_count := spendable_count s + 1\<rparr>
        in if accumulated s \<ge> needed then s
           else s\<lparr>chosen := chosen s @ [c],
                  accumulated := saturating_add (accumulated s) (utxo_value entry)\<rparr>)"

definition scan_start :: scan where
  "scan_start = \<lparr>chosen = [], accumulated = 0, spendable_total = 0, spendable_count = 0,
                 in_flight_value = 0, in_flight_count = 0\<rparr>"

text \<open>The closure \<open>build_only\<close> hands to \<open>select_and_claim\<close>.\<close>

definition select_coins ::
    "u64 \<Rightarrow> candidate list \<Rightarrow> outpoint set \<Rightarrow> error + (outpoint list \<times> candidate list)" where
  "select_coins needed cands pend =
     (let s = foldl (scan_step needed pend) scan_start cands in
      if accumulated s < needed
      then Inl (classify_shortfall needed (spendable_total s) (spendable_count s)
                  (in_flight_value s) (in_flight_count s))
      else Inr (map fst (chosen s), chosen s))"

section \<open>Fees\<close>

text \<open>\<open>ceil(cost * rate / MIN_FEE_DIVISOR)\<close>, computed in 128 bits and then truncated to 64.\<close>

definition rate_fee :: "chain \<Rightarrow> u64 \<Rightarrow> u64 \<Rightarrow> u64" where
  "rate_fee ch cost rate =
     (let num = saturating_mul (ucast cost :: u128) (ucast rate :: u128);
          divisor = (ucast (min_fee_divisor ch) :: u128)
      in ucast (div_ceil num divisor))"

definition plain_output :: "u64 \<Rightarrow> bytes \<Rightarrow> tx_output" where
  "plain_output v s = \<lparr>out_value = v, script = s, datum = None, datum_hash = None\<rparr>"

definition placeholder_witness :: tx_witness where
  "placeholder_witness = \<lparr>witness = replicate 96 0, redeemer = None\<rparr>"

definition estimate_fee_for_template ::
    "chain \<Rightarrow> core_output list \<Rightarrow> nat \<Rightarrow> u64 \<Rightarrow> bytes \<Rightarrow> u64 res" where
  "estimate_fee_for_template ch outs input_count rate change_script =
     (let ins = map (\<lambda>i. \<lparr>prev_tx_id = replicate 32 0, prev_index = word_of_nat i\<rparr>) [0..<input_count];
          tx = \<lparr>inputs = ins,
                outputs = map (\<lambda>o'. plain_output (co_value o') (co_script o')) outs
                          @ [plain_output (dust_threshold ch) change_script],
                witnesses = map (\<lambda>_. placeholder_witness) ins\<rparr>
      in bind_ok (ok_or (TxBuild ''tx_cost overflowed during fee estimate'') (tx_cost ch tx))
           (\<lambda>cost. Inr (rate_fee ch cost rate)))"

definition estimate ::
    "chain \<Rightarrow> fee_choice \<Rightarrow> core_output list \<Rightarrow> nat \<Rightarrow> bytes \<Rightarrow> u64 res" where
  "estimate ch choice outs n change_script =
     (case choice of
        Absolute f \<Rightarrow> Inr f
      | Rate r \<Rightarrow> estimate_fee_for_template ch outs n r change_script)"

fun sum_checked :: "u64 \<Rightarrow> core_output list \<Rightarrow> u64 res" where
  "sum_checked acc [] = Inr acc"
| "sum_checked acc (o' # os) =
     (case checked_add acc (co_value o') of
        None \<Rightarrow> Inl (TxBuild ''sum(outputs.value) overflows u64'')
      | Some a \<Rightarrow> sum_checked a os)"

fun check_dust :: "chain \<Rightarrow> core_output list \<Rightarrow> unit res" where
  "check_dust ch [] = Inr ()"
| "check_dust ch (o' # os) =
     (if co_value o' < dust_threshold ch then Inl (DustOutput (co_value o') (dust_threshold ch))
      else check_dust ch os)"

text \<open>
  The selection loop.  \<open>left\<close> counts the iterations that are left, so that the last one breaks.  An
  error while the guard is held, here the estimate, drops the guard.
\<close>

fun claim_loop ::
    "chain \<Rightarrow> fee_choice \<Rightarrow> core_output list \<Rightarrow> bytes \<Rightarrow> u64 \<Rightarrow> candidate list \<Rightarrow> (nat \<Rightarrow> nat) \<Rightarrow>
     nat \<Rightarrow> u64 \<Rightarrow> claims \<Rightarrow> claims \<times> (claim_guard \<times> candidate list) res" where
  "claim_loop ch choice outs own amount cands clock 0 est cs = (cs, Inl (Internal ''''))"
| "claim_loop ch choice outs own amount cands clock (Suc left) est cs =
     (case checked_add amount est of
        None \<Rightarrow> (cs, Inl (TxBuild ''amount + fee overflows u64''))
      | Some needed \<Rightarrow>
          (case select_and_claim (clock left) (select_coins needed cands) cs of
             (cs1, Inl e) \<Rightarrow> (cs1, Inl e)
           | (cs1, Inr (guard, picked)) \<Rightarrow>
               (case estimate ch choice outs (length picked) own of
                  Inl e \<Rightarrow> (drop_guard guard cs1, Inl e)
                | Inr new_estimate \<Rightarrow>
                    if new_estimate \<le> est \<or> left = 0 then (cs1, Inr (guard, picked))
                    else claim_loop ch choice outs own amount cands clock left new_estimate
                           (drop_guard guard cs1))))"

section \<open>Assembly\<close>

definition attach_datum :: "bytes option \<Rightarrow> tx_output list \<Rightarrow> tx_output list" where
  "attach_datum d outs =
     (case d of None \<Rightarrow> outs
      | Some b \<Rightarrow> (case outs of [] \<Rightarrow> [] | o' # os \<Rightarrow> o'\<lparr>datum := Some b\<rparr> # os))"

definition sum_words :: "u64 list \<Rightarrow> u64" where
  "sum_words = foldl (+) 0"

definition payment_outputs :: "core_output list \<Rightarrow> bytes option \<Rightarrow> tx_output list" where
  "payment_outputs outs d =
     attach_datum d (map (\<lambda>o'. plain_output (co_value o') (co_script o')) outs)"

definition tx_inputs :: "candidate list \<Rightarrow> tx_input list" where
  "tx_inputs picked =
     map (\<lambda>(op, e). \<lparr>prev_tx_id = op_tx_id op, prev_index = output_index op\<rparr>) picked"

text \<open>The template with a zero change output, on which the fee is settled.\<close>

definition template :: "bytes \<Rightarrow> core_output list \<Rightarrow> bytes option \<Rightarrow> candidate list \<Rightarrow> transaction" where
  "template own outs d picked =
     \<lparr>inputs = tx_inputs picked,
      outputs = payment_outputs outs d @ [plain_output 0 own],
      witnesses = map (\<lambda>_. placeholder_witness) picked\<rparr>"

definition settle_fee ::
    "chain \<Rightarrow> fee_choice \<Rightarrow> u64 \<Rightarrow> transaction \<Rightarrow> u64 res" where
  "settle_fee ch choice max_fee tmpl =
     bind_ok (ok_or (TxBuild ''min_fee computation overflowed'') (min_fee ch tmpl)) (\<lambda>consensus_min.
     bind_ok (ok_or (TxBuild ''tx_cost computation overflowed'') (tx_cost ch tmpl)) (\<lambda>cost.
     let fee0 = (case choice of Absolute f \<Rightarrow> f | Rate r \<Rightarrow> rate_fee ch cost r);
         fee = (if fee0 < consensus_min then consensus_min else fee0)
     in if fee > max_fee then Inl (FeeTooHigh fee max_fee) else Inr fee))"

text \<open>The change output, unless it would be dust, in which case it is left to the fee.\<close>

definition with_change :: "chain \<Rightarrow> bytes \<Rightarrow> u64 \<Rightarrow> tx_output list \<Rightarrow> tx_output list \<times> bool" where
  "with_change ch own change outs =
     (if change \<ge> dust_threshold ch then (outs @ [plain_output change own], True) else (outs, False))"

definition sign_tx :: "chain \<Rightarrow> signer \<Rightarrow> transaction \<Rightarrow> transaction res" where
  "sign_tx ch sg tx =
     bind_ok (ok_or (TxSerialize ''sig_message'') (sig_message ch tx)) (\<lambda>msg.
     Inr (tx\<lparr>witnesses := map (\<lambda>w. w\<lparr>witness := signer_pubkey sg @ sign_bytes sg msg\<rparr>) (witnesses tx)\<rparr>))"

definition reported_rate :: "chain \<Rightarrow> u64 \<Rightarrow> u64 \<Rightarrow> u64" where
  "reported_rate ch fee cost =
     (if cost = 0 then 0
      else ucast (saturating_mul (ucast fee :: u128) (ucast (min_fee_divisor ch)) div ucast cost))"

definition assemble ::
    "chain \<Rightarrow> signer \<Rightarrow> core_output list \<Rightarrow> bytes option \<Rightarrow> fee_choice \<Rightarrow> u64 \<Rightarrow> u64 \<Rightarrow> u64 \<Rightarrow>
     candidate list \<Rightarrow> built_tx res" where
  "assemble ch sg outs d choice max_fee total_amount tip picked =
     (let total_in = sum_words (map (utxo_value \<circ> snd) picked);
          own = signer_address sg
      in
      bind_ok (settle_fee ch choice max_fee (template own outs d picked)) (\<lambda>fee.
      bind_ok (ok_or (TxBuild ''amount + chosen_fee overflows u64'') (checked_add total_amount fee))
        (\<lambda>needed_total.
      bind_ok (ensure (InsufficientBalance needed_total total_in (length picked) 0 0)
                 (\<not> total_in < needed_total)) (\<lambda>_.
      let change = total_in - total_amount - fee;
          (tx_outs, with_chg) = with_change ch own change (payment_outputs outs d);
          eff = total_in - sum_words (map out_value tx_outs)
      in
      bind_ok (ensure (FeeTooHigh eff max_fee) (\<not> eff > max_fee)) (\<lambda>_.
      bind_ok (sign_tx ch sg \<lparr>inputs = tx_inputs picked, outputs = tx_outs,
                             witnesses = map (\<lambda>_. placeholder_witness) picked\<rparr>) (\<lambda>tx.
      bind_ok (ok_or (TxBuild ''min_fee on final tx overflowed'') (min_fee ch tx)) (\<lambda>final_min.
      bind_ok (ensure (TxBuild ''effective fee below consensus minimum after change folding'')
                 (\<not> eff < final_min)) (\<lambda>_.
      bind_ok (ok_or (TxSerialize ''tx_id'') (tx_id_of ch tx)) (\<lambda>txid.
      bind_ok (ok_or (TxSerialize '''') (serialize ch tx)) (\<lambda>raw.
      bind_ok (ok_or (TxBuild ''tx_cost on final tx overflowed'') (tx_cost ch tx)) (\<lambda>final_cost.
      Inr \<lparr>built = tx, built_id = txid, built_size = word_of_nat (length raw),
           effective_fee = eff, fee_rate = reported_rate ch eff final_cost,
           built_at_height = tip, selected = map (\<lambda>(op, e). (op, utxo_value e)) picked,
           change_value = change, has_change = with_chg\<rparr>)))))))))))"

text \<open>\<open>build_only\<close>.  An error after the selection drops the guard, which releases the claims.\<close>

definition build_only ::
    "chain \<Rightarrow> node \<Rightarrow> signer \<Rightarrow> core_output list \<Rightarrow> bytes option \<Rightarrow> fee_choice \<Rightarrow> u64 \<Rightarrow>
     (nat \<Rightarrow> nat) \<Rightarrow> claims \<Rightarrow> claims \<times> (built_tx \<times> claim_guard) res" where
  "build_only ch nd sg outs d choice max_fee clock cs =
     (let prepared =
            bind_ok (ensure (TxBuild ''outputs must not be empty'') (outs \<noteq> [])) (\<lambda>_.
            bind_ok (check_dust ch outs) (\<lambda>_.
            bind_ok (sum_checked 0 outs) (\<lambda>total_amount.
            bind_ok (get_address_utxos nd (hex_encode ch (signer_address sg))) (\<lambda>us.
            bind_ok (candidates_of ch (utxos us)) (\<lambda>cands.
            bind_ok (estimate ch choice outs 1 (signer_address sg)) (\<lambda>est.
            Inr (total_amount, tip_height us, largest_first cands, est)))))))
      in case prepared of
           Inl e \<Rightarrow> (cs, Inl e)
         | Inr (total_amount, tip, cands, est) \<Rightarrow>
             (case claim_loop ch choice outs (signer_address sg) total_amount cands clock
                     fee_estimate_max_iters est cs of
                (cs1, Inl e) \<Rightarrow> (cs1, Inl e)
              | (cs1, Inr (guard, picked)) \<Rightarrow>
                  (case assemble ch sg outs d choice max_fee total_amount tip picked of
                     Inl e \<Rightarrow> (drop_guard guard cs1, Inl e)
                   | Inr b \<Rightarrow> (cs1, Inr (b, guard)))))"

section \<open>Broadcast\<close>

text \<open>The raw transactions handed to the node, and the outcome.\<close>

definition broadcast_built :: "chain \<Rightarrow> node \<Rightarrow> built_tx \<Rightarrow> string list \<times> unit res" where
  "broadcast_built ch nd b =
     (case serialize ch (built b) of
        None \<Rightarrow> ([], Inl (TxSerialize ''''))
      | Some raw \<Rightarrow>
          ([hex_encode ch raw],
           bind_ok (send_raw_transaction nd (hex_encode ch raw)) (\<lambda>sent.
           ensure (UpstreamUnexpected ''node returned tx_id but we computed another'')
             (sent = hex_encode ch (built_id b)))))"

definition receipt_of :: "chain \<Rightarrow> built_tx \<Rightarrow> core_receipt" where
  "receipt_of ch b =
     \<lparr>cr_tx_id_hex = hex_encode ch (built_id b), cr_size = built_size b,
      cr_effective_fee = effective_fee b, cr_fee_rate = fee_rate b,
      cr_built_at_height = built_at_height b, cr_selected = selected b,
      cr_change_value = change_value b, cr_has_change = has_change b\<rparr>"

definition build_sign_broadcast ::
    "chain \<Rightarrow> node \<Rightarrow> signer \<Rightarrow> core_output list \<Rightarrow> bytes option \<Rightarrow> fee_choice \<Rightarrow> u64 \<Rightarrow>
     (nat \<Rightarrow> nat) \<Rightarrow> claims \<Rightarrow> claims \<times> string list \<times> core_receipt res" where
  "build_sign_broadcast ch nd sg outs d choice max_fee clock cs =
     (case build_only ch nd sg outs d choice max_fee clock cs of
        (cs1, Inl e) \<Rightarrow> (cs1, [], Inl e)
      | (cs1, Inr (b, guard)) \<Rightarrow>
          (case broadcast_built ch nd b of
             (sent, Inl e) \<Rightarrow> (drop_guard guard cs1, sent, Inl e)
           | (sent, Inr _) \<Rightarrow> (commit_guard guard cs1, sent, Inr (receipt_of ch b))))"

section \<open>Transfers\<close>

record receipt_input =
  ri_tx_id :: string
  ri_index :: u32
  ri_value :: u64

record receipt_output =
  ro_to :: string
  ro_amount :: u64
  ro_is_change :: bool

record transfer_receipt =
  tr_tx_id :: string
  tr_size :: u64
  tr_fee :: u64
  tr_fee_rate :: u64
  tr_inputs :: "receipt_input list"
  tr_outputs :: "receipt_output list"
  tr_built_at_height :: u64

record simulate_receipt =
  sr_size :: u64
  sr_fee :: u64
  sr_fee_rate :: u64
  sr_inputs :: "receipt_input list"
  sr_outputs :: "receipt_output list"
  sr_total_in :: u64
  sr_total_out :: u64
  sr_change :: u64
  sr_built_at_height :: u64

definition receipt_inputs :: "chain \<Rightarrow> (outpoint \<times> u64) list \<Rightarrow> receipt_input list" where
  "receipt_inputs ch sel =
     map (\<lambda>(op, v). \<lparr>ri_tx_id = hex_encode ch (op_tx_id op), ri_index = output_index op, ri_value = v\<rparr>) sel"

definition receipt_outputs ::
    "chain \<Rightarrow> signer \<Rightarrow> (bytes \<times> u64) list \<Rightarrow> bool \<Rightarrow> u64 \<Rightarrow> receipt_output list" where
  "receipt_outputs ch sg recipients has_chg change =
     map (\<lambda>(a, v). \<lparr>ro_to = hex_encode ch a, ro_amount = v, ro_is_change = False\<rparr>) recipients
     @ (if has_chg
        then [\<lparr>ro_to = hex_encode ch (signer_address sg), ro_amount = change, ro_is_change = True\<rparr>]
        else [])"

definition recipient_outputs :: "(bytes \<times> u64) list \<Rightarrow> core_output list" where
  "recipient_outputs recipients = map (\<lambda>(a, v). \<lparr>co_script = a, co_value = v\<rparr>) recipients"

definition transfer ::
    "chain \<Rightarrow> node \<Rightarrow> signer \<Rightarrow> (bytes \<times> u64) list \<Rightarrow> bytes option \<Rightarrow> fee_choice \<Rightarrow> u64 \<Rightarrow>
     (nat \<Rightarrow> nat) \<Rightarrow> claims \<Rightarrow> claims \<times> string list \<times> transfer_receipt res" where
  "transfer ch nd sg recipients d choice max_fee clock cs =
     (if recipients = [] then (cs, [], Inl (TxBuild ''transfer: recipients must not be empty''))
      else
        case build_sign_broadcast ch nd sg (recipient_outputs recipients) d choice max_fee clock cs of
          (cs1, sent, Inl e) \<Rightarrow> (cs1, sent, Inl e)
        | (cs1, sent, Inr core) \<Rightarrow>
            (cs1, sent, Inr
               \<lparr>tr_tx_id = cr_tx_id_hex core, tr_size = cr_size core, tr_fee = cr_effective_fee core,
                tr_fee_rate = cr_fee_rate core, tr_inputs = receipt_inputs ch (cr_selected core),
                tr_outputs = receipt_outputs ch sg recipients (cr_has_change core) (cr_change_value core),
                tr_built_at_height = cr_built_at_height core\<rparr>))"

definition simulate_transfer ::
    "chain \<Rightarrow> node \<Rightarrow> signer \<Rightarrow> (bytes \<times> u64) list \<Rightarrow> bytes option \<Rightarrow> fee_choice \<Rightarrow> u64 \<Rightarrow>
     (nat \<Rightarrow> nat) \<Rightarrow> claims \<Rightarrow> claims \<times> simulate_receipt res" where
  "simulate_transfer ch nd sg recipients d choice max_fee clock cs =
     (if recipients = [] then (cs, Inl (TxBuild ''simulate_transfer: recipients must not be empty''))
      else
        case build_only ch nd sg (recipient_outputs recipients) d choice max_fee clock cs of
          (cs1, Inl e) \<Rightarrow> (cs1, Inl e)
        | (cs1, Inr (b, guard)) \<Rightarrow>
            (let outs = receipt_outputs ch sg recipients (has_change b) (change_value b)
             in (drop_guard guard cs1, Inr
                  \<lparr>sr_size = built_size b, sr_fee = effective_fee b, sr_fee_rate = fee_rate b,
                   sr_inputs = receipt_inputs ch (selected b), sr_outputs = outs,
                   sr_total_in = sum_words (map snd (selected b)),
                   sr_total_out = sum_words (map ro_amount outs),
                   sr_change = (if has_change b then change_value b else 0),
                   sr_built_at_height = built_at_height b\<rparr>)))"

section \<open>Lemmas\<close>

subsection \<open>Selection\<close>

text \<open>What the scan has collected: only candidates outside the pending set, in order.\<close>

lemma scan_chosen:
  "set (chosen (foldl (scan_step needed pend) s cs)) \<subseteq>
     set (chosen s) \<union> {c \<in> set cs. fst c \<notin> pend}"
proof (induction cs arbitrary: s)
  case Nil
  then show ?case by simp
next
  case (Cons c cs)
  have "set (chosen (scan_step needed pend s c)) \<subseteq> set (chosen s) \<union> {x. x = c \<and> fst c \<notin> pend}"
    by (auto simp: scan_step_def Let_def split: prod.splits)
  then show ?case using Cons.IH [of "scan_step needed pend s c"] by fastforce
qed

lemma select_coins_ok:
  assumes "select_coins needed cands pend = Inr (ops, picked)"
  shows "ops = map fst picked" and "set picked \<subseteq> set cands" and "set ops \<inter> pend = {}"
proof -
  have p: "ops = map fst picked" "picked = chosen (foldl (scan_step needed pend) scan_start cands)"
    using assms by (auto simp: select_coins_def Let_def split: if_splits)
  then show "ops = map fst picked" by simp
  have "set picked \<subseteq> {c \<in> set cands. fst c \<notin> pend}"
    using scan_chosen [of needed pend scan_start cands] p by (simp add: scan_start_def)
  then show "set picked \<subseteq> set cands" "set ops \<inter> pend = {}" using p(1) by auto
qed

interpretation coin_selection: selection "select_coins needed cands"
  for needed :: u64 and cands :: "candidate list"
  by unfold_locales (rule select_coins_ok(3))

lemma select_coins_err_code:
  "select_coins needed cands pend = Inl e \<Longrightarrow> rpc_code e \<in> {- 32031, - 32039}"
  by (auto simp: select_coins_def Let_def classify_shortfall_code split: if_splits)

text \<open>The loop: on success the guard holds exactly the picked outpoints, fresh at some reading of the
  clock; on failure no claim was added.\<close>

lemma drop_guard_tracked [simp]: "tracked s \<Longrightarrow> tracked (drop_guard g s)"
  by (simp add: drop_guard_def)

lemma select_and_claim_tracked:
  "tracked s \<Longrightarrow> tracked (fst (select_and_claim now f s))"
  by (auto simp: select_and_claim_def Let_def tracked_def retain_live_def distinct_map_filter
        split: sum.splits)

lemma claim_loop_ok:
  assumes "claim_loop ch choice outs own amount cands clock left est cs = (cs', Inr (g, picked))"
    and "tracked cs"
  shows "outpoints g = map fst picked \<and> \<not> committed g \<and> set picked \<subseteq> set cands \<and> tracked cs'
    \<and> (\<exists>i cs0. tracked cs0 \<and> set (outpoints g) \<inter> live (clock i) cs0 = {}
         \<and> live (clock i) cs' = live (clock i) cs0 \<union> set (outpoints g))"
  using assms
proof (induction left arbitrary: est cs)
  case 0
  then show ?case by simp
next
  case (Suc left)
  from Suc.prems(1) obtain needed where n: "checked_add amount est = Some needed"
    by (auto split: option.splits)
  with Suc.prems(1) obtain cs1 gd pk where
    s: "select_and_claim (clock left) (select_coins needed cands) cs = (cs1, Inr (gd, pk))"
    by (auto split: prod.splits sum.splits)
  note f = coin_selection.claimed_are_fresh [OF Suc.prems(2) s]
  have pk: "outpoints gd = map fst pk" "set pk \<subseteq> set cands"
    using s select_coins_ok by (auto simp: select_and_claim_def Let_def split: sum.splits dest: select_coins_ok)
  from Suc.prems(1) n s obtain est' where e: "estimate ch choice outs (length pk) own = Inr est'"
    by (auto split: sum.splits)
  show ?case
  proof (cases "est' \<le> est \<or> left = 0")
    case True
    then have "cs' = cs1" "g = gd" "picked = pk" using Suc.prems(1) n s e by auto
    then show ?thesis using f pk Suc.prems(2) by blast
  next
    case False
    then have "claim_loop ch choice outs own amount cands clock left est' (drop_guard gd cs1)
        = (cs', Inr (g, picked))"
      using Suc.prems(1) n s e by auto
    then show ?thesis using Suc.IH drop_guard_tracked [OF f(4)] by blast
  qed
qed

lemma live_antimono: "now \<le> t \<Longrightarrow> live t s \<subseteq> live now s"
  by (auto simp: live_def)

lemma select_drop_live:
  assumes "tracked cs" and "select_and_claim now (select_coins needed cands) cs = (cs1, Inr (g, picked))"
    and "now \<le> t"
  shows "live t (drop_guard g cs1) = live t cs"
proof -
  note f = coin_selection.claimed_are_fresh [OF assms(1,2)]
  have "set (outpoints g) \<inter> live t cs = {}" using f(1) live_antimono [OF assms(3), of cs] by blast
  moreover have "live t cs1 - set (outpoints g) = live t cs - set (outpoints g)"
    using f(5) assms(1,3) by (auto simp: live_def pending_retain split: option.splits if_splits)
  ultimately show ?thesis using f(3) by (auto simp: drop_guard_def live_release)
qed

lemma select_refused_live:
  assumes "tracked cs" and "select_and_claim now f cs = (cs1, Inl e)" and "now \<le> t"
  shows "live t cs1 = live t cs" and "tracked cs1"
  using assms by (auto simp: select_and_claim_def Let_def split: sum.splits)

text \<open>Giving back what the loop claimed, or its failure, leaves the live set as it was.\<close>

lemma claim_loop_live:
  assumes "claim_loop ch choice outs own amount cands clock left est cs = (cs', r)"
    and "tracked cs" and "\<And>i. i < left \<Longrightarrow> clock i \<le> t"
  shows "case r of Inl e \<Rightarrow> live t cs' = live t cs \<and> tracked cs'
                 | Inr (g, picked) \<Rightarrow> live t (drop_guard g cs') = live t cs"
  using assms
proof (induction left arbitrary: est cs)
  case 0
  then show ?case by auto
next
  case (Suc left)
  show ?case
  proof (cases "checked_add amount est")
    case None
    then show ?thesis using Suc.prems by auto
  next
    case (Some needed)
    obtain cs1 sr where s: "select_and_claim (clock left) (select_coins needed cands) cs = (cs1, sr)"
      by fastforce
    have t: "clock left \<le> t" using Suc.prems(3) by simp
    show ?thesis
    proof (cases sr)
      case (Inl e)
      then have s': "select_and_claim (clock left) (select_coins needed cands) cs = (cs1, Inl e)"
        using s by simp
      then have "cs' = cs1" "r = Inl e" using Suc.prems(1) Some by auto
      then show ?thesis using select_refused_live [OF Suc.prems(2) s' t] by simp
    next
      case (Inr gp)
      obtain g picked where gp: "gp = (g, picked)" by (cases gp)
      have d: "live t (drop_guard g cs1) = live t cs" "tracked (drop_guard g cs1)"
        using select_drop_live [OF Suc.prems(2) _ t] s Inr gp
          coin_selection.claimed_are_fresh(4) [OF Suc.prems(2)] by auto
      show ?thesis
      proof (cases "estimate ch choice outs (length picked) own")
        case e: (Inl e)
        then show ?thesis using Suc.prems(1) Some s Inr gp d by auto
      next
        case e: (Inr est')
        show ?thesis
        proof (cases "est' \<le> est \<or> left = 0")
          case True
          then show ?thesis using Suc.prems(1) Some s Inr gp e d by auto
        next
          case False
          then have "claim_loop ch choice outs own amount cands clock left est' (drop_guard g cs1) = (cs', r)"
            using Suc.prems(1) Some s Inr gp e by auto
          from Suc.IH [OF this d(2)] Suc.prems(3) d(1) show ?thesis by (auto split: sum.splits)
        qed
      qed
    qed
  qed
qed

subsection \<open>Amounts\<close>

lemma unat_sum_words: "unat (sum_words ws) = (\<Sum>w\<leftarrow>ws. unat w) mod 2 ^ 64"
proof -
  have "unat (foldl (+) a ws) = (unat a + (\<Sum>w\<leftarrow>ws. unat w)) mod 2 ^ 64" for a :: u64
  proof (induction ws arbitrary: a)
    case Nil
    show ?case using word_unat_less [of a] by simp
  next
    case (Cons w ws)
    then show ?case by (simp add: unat_word_ariths mod_simps add.assoc)
  qed
  then show ?thesis by (simp add: sum_words_def)
qed

lemma sum_checked_ok:
  "sum_checked acc outs = Inr amt \<Longrightarrow> unat amt = unat acc + (\<Sum>o'\<leftarrow>outs. unat (co_value o'))"
proof (induction outs arbitrary: acc)
  case Nil
  then show ?case by simp
next
  case (Cons o' outs)
  then obtain a where a: "checked_add acc (co_value o') = Some a" "sum_checked a outs = Inr amt"
    by (auto split: option.splits)
  then show ?case using Cons.IH [OF a(2)] checked_add_unat [OF a(1)] by simp
qed

lemma check_dust_ok: "check_dust ch outs = Inr u \<Longrightarrow> o' \<in> set outs \<Longrightarrow> dust_threshold ch \<le> co_value o'"
  by (induction outs) (auto split: if_splits)

lemma payment_outputs_values: "map out_value (payment_outputs outs d) = map co_value outs"
  by (cases outs) (auto simp: payment_outputs_def attach_datum_def plain_output_def split: option.splits)

lemma payment_outputs_scripts: "map script (payment_outputs outs d) = map co_script outs"
  by (cases outs) (auto simp: payment_outputs_def attach_datum_def plain_output_def split: option.splits)

lemma sign_tx_keeps:
  "sign_tx ch sg tx = Inr tx' \<Longrightarrow> inputs tx' = inputs tx \<and> outputs tx' = outputs tx
     \<and> length (witnesses tx') = length (witnesses tx)"
  by (auto simp: sign_tx_def result_simps)

lemma settle_fee_ok:
  assumes "settle_fee ch choice max_fee tmpl = Inr fee"
  shows "fee \<le> max_fee" and "\<exists>m. min_fee ch tmpl = Some m \<and> m \<le> fee"
    and "choice = Absolute f \<Longrightarrow> f \<le> fee"
  using assms by (auto simp: settle_fee_def result_simps Let_def split: if_splits fee_choice.splits)

text \<open>Everything \<open>assemble\<close> has established when it succeeds.\<close>

definition assembled ::
    "chain \<Rightarrow> signer \<Rightarrow> core_output list \<Rightarrow> bytes option \<Rightarrow> fee_choice \<Rightarrow> u64 \<Rightarrow> u64 \<Rightarrow> u64 \<Rightarrow>
     candidate list \<Rightarrow> built_tx \<Rightarrow> u64 \<Rightarrow> u64 \<Rightarrow> bool" where
  "assembled ch sg outs d choice max_fee amt tip picked b fee needed \<longleftrightarrow>
     settle_fee ch choice max_fee (template (signer_address sg) outs d picked) = Inr fee
   \<and> checked_add amt fee = Some needed
   \<and> needed \<le> sum_words (map (utxo_value \<circ> snd) picked)
   \<and> change_value b = sum_words (map (utxo_value \<circ> snd) picked) - amt - fee
   \<and> (outputs (built b), has_change b) =
        with_change ch (signer_address sg) (change_value b) (payment_outputs outs d)
   \<and> effective_fee b =
        sum_words (map (utxo_value \<circ> snd) picked) - sum_words (map out_value (outputs (built b)))
   \<and> effective_fee b \<le> max_fee
   \<and> (\<exists>m. min_fee ch (built b) = Some m \<and> m \<le> effective_fee b)
   \<and> inputs (built b) = tx_inputs picked
   \<and> selected b = map (\<lambda>(op, e). (op, utxo_value e)) picked
   \<and> built_at_height b = tip \<and> tx_id_of ch (built b) = Some (built_id b)
   \<and> (\<exists>raw. serialize ch (built b) = Some raw)"

lemma assemble_ok:
  assumes "assemble ch sg outs d choice max_fee amt tip picked = Inr b"
  shows "\<exists>fee needed. assembled ch sg outs d choice max_fee amt tip picked b fee needed"
proof -
  let ?in = "sum_words (map (utxo_value \<circ> snd) picked)"
  from assms obtain fee needed where
    f: "settle_fee ch choice max_fee (template (signer_address sg) outs d picked) = Inr fee"
       "checked_add amt fee = Some needed" "needed \<le> ?in"
    by (auto simp: assemble_def result_simps Let_def not_less)
  obtain tx_outs chg where
    wc: "with_change ch (signer_address sg) (?in - amt - fee) (payment_outputs outs d) = (tx_outs, chg)"
    by fastforce
  let ?eff = "?in - sum_words (map out_value tx_outs)"
  from assms f wc obtain tx m txid raw cost where
    e: "?eff \<le> max_fee"
       "sign_tx ch sg \<lparr>inputs = tx_inputs picked, outputs = tx_outs,
                       witnesses = map (\<lambda>_. placeholder_witness) picked\<rparr> = Inr tx"
       "min_fee ch tx = Some m" "m \<le> ?eff" "tx_id_of ch tx = Some txid" "serialize ch tx = Some raw"
    and b: "b = \<lparr>built = tx, built_id = txid, built_size = word_of_nat (length raw),
           effective_fee = ?eff, fee_rate = reported_rate ch ?eff cost,
           built_at_height = tip, selected = map (\<lambda>(op, e). (op, utxo_value e)) picked,
           change_value = ?in - amt - fee, has_change = chg\<rparr>"
    by (auto simp: assemble_def result_simps Let_def not_less)
  have "inputs tx = tx_inputs picked" "outputs tx = tx_outs"
    using sign_tx_keeps [OF e(2)] by simp_all
  then have "assembled ch sg outs d choice max_fee amt tip picked b fee needed"
    unfolding assembled_def using f wc e b by simp
  then show ?thesis by blast
qed

lemma selected_values:
  "map snd (map (\<lambda>(op, e). (op, utxo_value e)) picked) = map (utxo_value \<circ> snd) picked"
  by (induction picked) auto

lemma assemble_conserves:
  assumes ok: "assemble ch sg outs d choice max_fee amt tip picked = Inr b"
    and amt: "unat amt = (\<Sum>o'\<leftarrow>outs. unat (co_value o'))"
  shows "map out_value (outputs (built b)) =
           map co_value outs @ (if has_change b then [change_value b] else [])"
    and "(\<Sum>v\<leftarrow>map snd (selected b). unat v) mod 2 ^ 64 =
           (\<Sum>v\<leftarrow>map out_value (outputs (built b)). unat v) + unat (effective_fee b)"
    and "has_change b \<Longrightarrow> dust_threshold ch \<le> change_value b"
    and "choice = Absolute f \<Longrightarrow> f \<le> effective_fee b"
proof -
  let ?in = "sum_words (map (utxo_value \<circ> snd) picked)"
  from assemble_ok [OF ok] obtain fee needed
    where "assembled ch sg outs d choice max_fee amt tip picked b fee needed" by blast
  then have n: "checked_add amt fee = Some needed" "needed \<le> ?in"
    and sf: "settle_fee ch choice max_fee (template (signer_address sg) outs d picked) = Inr fee"
    and c: "change_value b = ?in - amt - fee"
    and wc: "(outputs (built b), has_change b) =
        with_change ch (signer_address sg) (change_value b) (payment_outputs outs d)"
    and eff: "effective_fee b = ?in - sum_words (map out_value (outputs (built b)))"
    and sel: "selected b = map (\<lambda>(op, e). (op, utxo_value e)) picked"
    by (simp_all add: assembled_def)
  show outs: "map out_value (outputs (built b)) =
      map co_value outs @ (if has_change b then [change_value b] else [])"
    using wc by (auto simp: with_change_def payment_outputs_values plain_output_def split: if_splits)
  show "has_change b \<Longrightarrow> dust_threshold ch \<le> change_value b"
    using wc by (auto simp: with_change_def split: if_splits)
  have "unat needed = unat amt + unat fee" using checked_add_unat [OF n(1)] .
  then have le: "unat amt + unat fee \<le> unat ?in" using n(2) by (simp add: word_le_nat_alt)
  have ch: "unat (change_value b) = unat ?in - unat amt - unat fee"
    using le by (simp add: c unat_sub word_le_nat_alt)
  have os: "(\<Sum>v\<leftarrow>map out_value (outputs (built b)). unat v) =
      unat amt + (if has_change b then unat (change_value b) else 0)"
    by (simp add: outs amt comp_def)
  have fit: "unat amt + (if has_change b then unat (change_value b) else 0) \<le> unat ?in"
    using le ch by auto
  then have "unat (sum_words (map out_value (outputs (built b)))) =
      unat amt + (if has_change b then unat (change_value b) else 0)"
    unfolding unat_sum_words os using word_unat_less [of ?in] by (simp add: mod_less)
  then have e: "unat (effective_fee b) = unat ?in - (unat amt + (if has_change b then unat (change_value b) else 0))"
    unfolding eff using fit by (simp add: unat_sub word_le_nat_alt)
  with ch le have "fee \<le> effective_fee b" by (auto simp: word_le_nat_alt split: if_splits)
  then show "choice = Absolute f \<Longrightarrow> f \<le> effective_fee b"
    using settle_fee_ok(3) [OF sf, of f] by simp
  from e show "(\<Sum>v\<leftarrow>map snd (selected b). unat v) mod 2 ^ 64 =
      (\<Sum>v\<leftarrow>map out_value (outputs (built b)). unat v) + unat (effective_fee b)"
    unfolding sel selected_values unat_sum_words [symmetric] os using fit by simp
qed

subsection \<open>The whole build\<close>

lemma candidates_of_ok:
  "candidates_of ch es = Inr cs \<Longrightarrow> (op, e) \<in> set cs \<Longrightarrow>
     e \<in> set es \<and> decode_hash ch (utxo_tx_id e) = Inr (op_tx_id op) \<and> output_index op = utxo_index e"
  by (induction es arbitrary: cs) (auto simp: result_simps)

lemma set_largest_first [simp]: "set (largest_first cs) = set cs"
  by (simp add: largest_first_def)

lemma build_only_ok:
  assumes "build_only ch nd sg outs d choice max_fee clock cs = (cs', Inr (b, g))"
  obtains amt us cands est picked where
    "check_dust ch outs = Inr ()" "sum_checked 0 outs = Inr amt"
    "get_address_utxos nd (hex_encode ch (signer_address sg)) = Inr us"
    "candidates_of ch (utxos us) = Inr cands"
    "claim_loop ch choice outs (signer_address sg) amt (largest_first cands) clock
       fee_estimate_max_iters est cs = (cs', Inr (g, picked))"
    "assemble ch sg outs d choice max_fee amt (tip_height us) picked = Inr b"
  using assms
  by (fastforce simp: build_only_def Let_def bind_ok_eq_Inr ensure_eq
        split: sum.splits prod.splits)

lemma fee_iters_clock: "(\<And>i. i < 3 \<Longrightarrow> clock i \<le> t) \<Longrightarrow> i < fee_estimate_max_iters \<Longrightarrow> clock i \<le> t"
  by (simp add: fee_estimate_max_iters_def)

lemma build_only_live:
  assumes "build_only ch nd sg outs d choice max_fee clock cs = (cs', r)" and "tracked cs"
    and "\<And>i. i < 3 \<Longrightarrow> clock i \<le> t"
  shows "case r of Inl e \<Rightarrow> live t cs' = live t cs
                 | Inr (b, g) \<Rightarrow> live t (drop_guard g cs') = live t cs"
proof -
  note clock = fee_iters_clock [of clock t, OF assms(3)]
  show ?thesis using assms(1)
    by (auto simp: build_only_def Let_def split: sum.splits prod.splits
          dest!: claim_loop_live [OF _ assms(2) clock])
qed

lemma build_only_guard:
  assumes "build_only ch nd sg outs d choice max_fee clock cs = (cs', Inr (b, g))" and "tracked cs"
  shows "\<not> committed g" and "outpoints g = map fst (selected b)"
    and "inputs (built b) = map (\<lambda>(op, v). \<lparr>prev_tx_id = op_tx_id op, prev_index = output_index op\<rparr>) (selected b)"
proof -
  obtain amt cands est picked and us :: utxo_set where
    l: "claim_loop ch choice outs (signer_address sg) amt (largest_first cands) clock
       fee_estimate_max_iters est cs = (cs', Inr (g, picked))"
    and a: "assemble ch sg outs d choice max_fee amt (tip_height us) picked = Inr b"
    by (rule build_only_ok [OF assms(1)])
  from assemble_ok [OF a] have s: "selected b = map (\<lambda>(op, e). (op, utxo_value e)) picked"
    and i: "inputs (built b) = tx_inputs picked" by (auto simp: assembled_def)
  show "\<not> committed g" using claim_loop_ok [OF l assms(2)] by simp
  have "map fst (selected b) = map fst picked" unfolding s by (induction picked) auto
  then show "outpoints g = map fst (selected b)" using claim_loop_ok [OF l assms(2)] by simp
  show "inputs (built b) = map (\<lambda>(op, v). \<lparr>prev_tx_id = op_tx_id op, prev_index = output_index op\<rparr>) (selected b)"
    unfolding i s tx_inputs_def by (induction picked) auto
qed

section \<open>Properties\<close>

text \<open>C17: A built transaction pays exactly what was asked and conserves value.  Its outputs are the
  requested scripts and amounts in order, followed at most by one change output to the sender; the
  values of the selected coins add up (modulo the machine word, which only coins worth more than all
  money could exceed) to the outputs plus the fee that is reported.\<close>

theorem build_conserves_value:
  assumes "build_only ch nd sg outs d choice max_fee clock cs = (cs', Inr (b, g))"
  shows "map out_value (outputs (built b)) =
           map co_value outs @ (if has_change b then [change_value b] else [])
       \<and> map script (outputs (built b)) =
           map co_script outs @ (if has_change b then [signer_address sg] else [])
       \<and> (\<Sum>v\<leftarrow>map snd (selected b). unat v) mod 2 ^ 64 =
           (\<Sum>v\<leftarrow>map out_value (outputs (built b)). unat v) + unat (effective_fee b)"
proof (rule build_only_ok [OF assms])
  fix amt cands est picked and us :: utxo_set
  assume s: "sum_checked 0 outs = Inr amt"
    and a: "assemble ch sg outs d choice max_fee amt (tip_height us) picked = Inr b"
  have amt: "unat amt = (\<Sum>o'\<leftarrow>outs. unat (co_value o'))" using sum_checked_ok [OF s] by simp
  from assemble_ok [OF a] have "(outputs (built b), has_change b) =
      with_change ch (signer_address sg) (change_value b) (payment_outputs outs d)"
    by (auto simp: assembled_def)
  then have "map script (outputs (built b)) =
      map co_script outs @ (if has_change b then [signer_address sg] else [])"
    by (auto simp: with_change_def payment_outputs_scripts plain_output_def split: if_splits)
  then show ?thesis using assemble_conserves [OF a amt] by blast
qed

text \<open>C19: The fee is safe on both sides, and no output is dust.  The fee a built transaction really pays,
  left-over change included, is at least the consensus minimum of that transaction and at most the
  caller's \<open>max_fee\<close>, and an absolute fee is paid at least in full.\<close>

theorem build_fee_bounds:
  assumes "build_only ch nd sg outs d choice max_fee clock cs = (cs', Inr (b, g))"
  shows "(\<exists>m. min_fee ch (built b) = Some m \<and> m \<le> effective_fee b) \<and> effective_fee b \<le> max_fee
       \<and> (\<forall>o' \<in> set (outputs (built b)). dust_threshold ch \<le> out_value o')
       \<and> (choice = Absolute f \<longrightarrow> f \<le> effective_fee b)"
proof (rule build_only_ok [OF assms])
  fix amt cands est picked and us :: utxo_set
  assume du: "check_dust ch outs = Inr ()" and s: "sum_checked 0 outs = Inr amt"
    and a: "assemble ch sg outs d choice max_fee amt (tip_height us) picked = Inr b"
  have amt: "unat amt = (\<Sum>o'\<leftarrow>outs. unat (co_value o'))" using sum_checked_ok [OF s] by simp
  have "dust_threshold ch \<le> v" if "v \<in> set (map out_value (outputs (built b)))" for v
    using that check_dust_ok [OF du] assemble_conserves(1,3) [OF a amt] by (auto split: if_splits)
  moreover have "(\<exists>m. min_fee ch (built b) = Some m \<and> m \<le> effective_fee b) \<and> effective_fee b \<le> max_fee"
    using assemble_ok [OF a] by (auto simp: assembled_def)
  ultimately show ?thesis using assemble_conserves(4) [OF a amt, of f] by auto
qed

definition sample_chain :: chain where
  "sample_chain = \<lparr>dust_threshold = 10, min_fee_divisor = 100, min_fee = (\<lambda>_. Some 5),
     tx_cost = (\<lambda>_. Some 500), sig_message = (\<lambda>_. Some [1]), tx_id_of = (\<lambda>_. Some [2]),
     serialize = (\<lambda>_. Some [3, 4]), hex_encode = (\<lambda>b. replicate (length b) CHR ''x''),
     hex_decode = (\<lambda>s. Some (replicate 32 (word_of_nat (length s))))\<rparr>"

definition sample_node :: node where
  "sample_node = \<lparr>get_address_utxos = (\<lambda>_. Inr \<lparr>tip_height = 9,
       utxos = [\<lparr>utxo_tx_id = ''a'', utxo_index = 0, utxo_value = 100\<rparr>,
                \<lparr>utxo_tx_id = ''bb'', utxo_index = 1, utxo_value = 300\<rparr>]\<rparr>),
     send_raw_transaction = (\<lambda>_. Inr ''x'')\<rparr>"

definition sample_signer :: signer where
  "sample_signer = \<lparr>signer_address = [8], signer_pubkey = [9], sign_bytes = (\<lambda>m. m)\<rparr>"

abbreviation sample_build :: "claims \<times> (built_tx \<times> claim_guard) res" where
  "sample_build \<equiv> build_only sample_chain sample_node sample_signer [\<lparr>co_script = [7], co_value = 250\<rparr>]
     None (Absolute 10) 50 (\<lambda>_. 0) no_claims"

lemma sample_candidates:
  "largest_first [(OutPoint a i, \<lparr>utxo_tx_id = x, utxo_index = i, utxo_value = 100\<rparr>),
                  (OutPoint b j, \<lparr>utxo_tx_id = y, utxo_index = j, utxo_value = 300\<rparr>)] =
     [(OutPoint b j, \<lparr>utxo_tx_id = y, utxo_index = j, utxo_value = 300\<rparr>),
      (OutPoint a i, \<lparr>utxo_tx_id = x, utxo_index = i, utxo_value = 100\<rparr>)]"
  by (simp add: largest_first_def)

lemma sample_build_runs:
  "case sample_build of (cs, Inr (b, g)) \<Rightarrow>
       effective_fee b = 10 \<and> change_value b = 40 \<and> map snd (selected b) = [300]
     | (cs, Inl e) \<Rightarrow> False"
  by (simp add: build_only_def sample_chain_def sample_node_def sample_signer_def no_claims_def
        decode_hash_def estimate_def sample_candidates fee_estimate_max_iters_def numeral_3_eq_3
        checked_add_def select_and_claim_def retain_live_def select_coins_def scan_step_def scan_start_def
        saturating_add_def assemble_def settle_fee_def sum_words_def with_change_def
        payment_outputs_def attach_datum_def plain_output_def sign_tx_def Let_def)

lemma sample_build_result:
  obtains cs b g where "sample_build = (cs, Inr (b, g))" "effective_fee b = 10" "map snd (selected b) = [300]"
  using sample_build_runs by (auto split: prod.splits sum.splits)

lemma build_conserves_value_witness:
  "\<exists>cs b g. sample_build = (cs, Inr (b, g)) \<and>
     (300 :: nat) = (\<Sum>v\<leftarrow>map out_value (outputs (built b)). unat v) + 10"
proof (rule sample_build_result)
  fix cs b g
  assume s: "sample_build = (cs, Inr (b, g))" and e: "effective_fee b = 10" "map snd (selected b) = [300]"
  from build_conserves_value [OF s] s e show ?thesis by auto
qed

lemma build_fee_bounds_witness:
  "\<exists>cs b g. sample_build = (cs, Inr (b, g)) \<and> effective_fee b \<le> 50"
proof (rule sample_build_result)
  fix cs b g
  assume s: "sample_build = (cs, Inr (b, g))"
  from build_fee_bounds [OF s] s show ?thesis by auto
qed



text \<open>A transfer that fails, and every simulation, leaves no claim behind; a transfer that succeeds
  adds at most its own inputs to the claims.  \<open>t\<close> is any instant from the last selection on.\<close>

theorem transfer_settles_claims:
  assumes "tracked cs" and "\<And>i. i < 3 \<Longrightarrow> clock i \<le> t"
  shows "(\<forall>cs' sent e. transfer ch nd sg rs d choice max_fee clock cs = (cs', sent, Inl e) \<longrightarrow>
             live t cs' = live t cs)
       \<and> live t (fst (simulate_transfer ch nd sg rs d choice max_fee clock cs)) = live t cs
       \<and> (\<forall>cs' sent r. transfer ch nd sg rs d choice max_fee clock cs = (cs', sent, Inr r) \<longrightarrow>
             (\<exists>ops. length ops = length (tr_inputs r) \<and> live t cs \<subseteq> live t cs'
                  \<and> live t cs' \<subseteq> live t cs \<union> set ops))"
proof (cases "build_only ch nd sg (recipient_outputs rs) d choice max_fee clock cs")
  case (Pair cs1 r)
  note L = build_only_live [OF Pair assms]
  show ?thesis
  proof (cases r)
    case (Inl e)
    then show ?thesis using L Pair
      by (auto simp: transfer_def simulate_transfer_def build_sign_broadcast_def)
  next
    case (Inr bg)
    obtain b g where bg: "bg = (b, g)" by (cases bg)
    then have B: "build_only ch nd sg (recipient_outputs rs) d choice max_fee clock cs = (cs1, Inr (b, g))"
      and live: "live t (drop_guard g cs1) = live t cs" using Pair Inr L by auto
    note G = build_only_guard [OF B assms(1)]
    have "live t cs1 - set (map fst (selected b)) = live t cs"
      using live G(1,2) by (simp add: drop_guard_def live_release)
    then have sub: "live t cs \<subseteq> live t cs1" "live t cs1 \<subseteq> live t cs \<union> set (map fst (selected b))" by auto
    show ?thesis using live sub B
      by (auto simp: transfer_def simulate_transfer_def build_sign_broadcast_def Let_def
            commit_guard_def drop_guard_def receipt_of_def receipt_inputs_def
            split: prod.splits sum.splits
            intro!: exI [of _ "map fst (selected b)"])
  qed
qed

lemma transfer_settles_claims_witness:
  "live 0 (fst (simulate_transfer sample_chain sample_node sample_signer [([7], 250)] None (Absolute 10) 50
      (\<lambda>_. 0) no_claims)) = live 0 no_claims"
  using transfer_settles_claims [of no_claims "\<lambda>_. 0" 0 sample_chain sample_node sample_signer
      "[([7], 250)]" None "Absolute 10" 50]
  by (simp add: tracked_def no_claims_def)

text \<open>The dry run predicts the transfer.  From the same state, whenever a transfer succeeds the
  simulation succeeds with the same size, fee, fee rate, inputs, outputs and height; the transfer has
  put exactly one raw transaction on the wire; and a simulation that fails means a transfer that
  fails with the same error and sends nothing.\<close>

lemma simulation_predicts_transfer:
  assumes "transfer ch nd sg rs d choice max_fee clock cs = (cs', sent, r)" and "rs \<noteq> []"
  shows "(\<forall>t. r = Inr t \<longrightarrow>
            (\<exists>s. snd (simulate_transfer ch nd sg rs d choice max_fee clock cs) = Inr s
               \<and> sr_size s = tr_size t \<and> sr_fee s = tr_fee t \<and> sr_fee_rate s = tr_fee_rate t
               \<and> sr_inputs s = tr_inputs t \<and> sr_outputs s = tr_outputs t
               \<and> sr_built_at_height s = tr_built_at_height t)
            \<and> length sent = 1)
       \<and> (\<forall>e. snd (simulate_transfer ch nd sg rs d choice max_fee clock cs) = Inl e \<longrightarrow>
            r = Inl e \<and> sent = [])"
proof (cases "build_only ch nd sg (recipient_outputs rs) d choice max_fee clock cs")
  case (Pair cs1 br)
  then show ?thesis using assms
    by (cases br)
       (auto simp: transfer_def simulate_transfer_def build_sign_broadcast_def broadcast_built_def
          receipt_of_def Let_def split: prod.splits sum.splits option.splits)
qed

lemma simulation_predicts_transfer_witness:
  "\<exists>cs' sent r. transfer sample_chain sample_node sample_signer [([7], 250)] None (Absolute 10) 50
      (\<lambda>_. 0) no_claims = (cs', sent, r) \<and>
     (\<forall>t. r = Inr t \<longrightarrow> length sent = 1)"
proof -
  obtain cs' sent r where t: "transfer sample_chain sample_node sample_signer [([7], 250)] None (Absolute 10) 50
      (\<lambda>_. 0) no_claims = (cs', sent, r)" by (metis prod_cases3)
  from simulation_predicts_transfer [OF t] t show ?thesis by auto
qed

text \<open>The rate-based fee is truncated.  The division is carried out in 128 bits and its result cast to
  64, so a rate that asks for more than \<open>2 ^ 64\<close> exfers, which the cap \<open>max_fee\<close> should refuse, is
  settled on whatever is left of it modulo \<open>2 ^ 64\<close>, raised to the consensus minimum.\<close>

theorem huge_rate_wraps:
  "\<exists>ch rate. (\<forall>tmpl. tx_cost ch tmpl = Some 2)
     \<and> unat (2 :: u64) * unat rate div unat (min_fee_divisor ch) = 2 ^ 64
     \<and> (\<forall>tmpl. settle_fee ch (Rate rate) 50 tmpl = Inr 5)"
proof -
  let ?ch = "sample_chain\<lparr>min_fee_divisor := 1, tx_cost := (\<lambda>_. Some 2)\<rparr>"
  have "rate_fee ?ch 2 (2 ^ 63) = 0"
    by (simp add: rate_fee_def saturating_mul_def div_ceil_def Let_def)
  then have "settle_fee ?ch (Rate (2 ^ 63)) 50 tmpl = Inr 5" for tmpl
    by (simp add: settle_fee_def Let_def sample_chain_def)
  then show ?thesis
    by (intro exI [of _ ?ch] exI [of _ "2 ^ 63"]) simp
qed

end
