(* ===== verification/SwapBase.thy ===== *)
theory SwapBase imports Chain PaymentUri "HOL-Library.Char_ord" begin

text \<open>
  The data of the swap engine (\<open>src/swap.rs\<close>): directions, flows and statuses, the record of a swap,
  the sealed journal, the services the engine talks to, and the form of a step.

  A step runs against a \<^emph>\<open>world\<close>: a library part that does not change (the crates the code calls)
  and, for each number \<open>n\<close>, the answers the services would give to the \<open>n\<close>-th call.  Two calls of one
  step may thus be answered differently.  A step threads the engine, appends to its trace every call
  it makes that has an effect elsewhere, and ends in a value or an error.
\<close>

section \<open>Records\<close>

datatype direction = ExferToBnb | BnbToExfer

datatype flow = V1 | V2

datatype swap_status =
    Quoted | Committing | UserLocked | PoolLocked | Claiming | Completed | Refunding | Refunded
  | Expired | Failed

record swap_record =
  swap_id :: string
  direction :: direction
  status :: swap_status
  flow :: flow
  hashlock :: string
  preimage :: string
  amount_in :: string
  amount_out :: string
  amount_in_units :: string
  amount_out_units :: string
  pool_exfer_pubkey :: "string option"
  pool_bsc_address :: "string option"
  htlc_contract :: "string option"
  our_bsc_address :: "string option"
  our_exfer_address :: "string option"
  user_lock_tx :: "string option"
  pool_lock_ref :: "string option"
  claim_tx :: "string option"
  refund_tx :: "string option"
  exfer_timeout_height :: "u64 option"
  bsc_timeout_sec :: "u64 option"
  expires_at :: u64
  fee_bps :: u32
  network_fee_bnb :: "string option"
  swap_error :: "string option"
  created_at :: u64
  updated_at :: u64

definition is_terminal :: "swap_record \<Rightarrow> bool" where
  "is_terminal r \<longleftrightarrow> status r \<in> {Completed, Refunded, Expired, Failed}"

definition claim_margin_secs :: u64 where "claim_margin_secs = 1800"
definition min_exfer_lock_blocks :: u64 where "min_exfer_lock_blocks = 360"
definition min_bsc_lock_secs :: u64 where "min_bsc_lock_secs = 2 * 3600"
definition claim_rebroadcast_secs :: u64 where "claim_rebroadcast_secs = 60"
definition bsc_sweep_reorg_margin :: u64 where "bsc_sweep_reorg_margin = 50"

text \<open>The state of a lock in the BSC contract (\<open>src/evm.rs\<close>).\<close>

datatype htlc_state = HtlcNone | HtlcLocked | HtlcClaimed | HtlcRefunded

record on_chain_swap =
  oc_recipient :: bytes
  oc_amount :: nat
  oc_timeout_sec :: u64
  oc_state :: htlc_state

text \<open>The reveal gate.  The addition wraps, as in the code.\<close>

definition pool_lock_safe_to_claim :: "on_chain_swap \<Rightarrow> bytes \<Rightarrow> nat \<Rightarrow> u64 \<Rightarrow> bool" where
  "pool_lock_safe_to_claim oc our want_out now \<longleftrightarrow>
     oc_state oc = HtlcLocked \<and> oc_recipient oc = our \<and> oc_amount oc \<ge> want_out
     \<and> now + claim_margin_secs < oc_timeout_sec oc"

section \<open>The journal\<close>

text \<open>
  The map in memory, a \<open>BTreeMap\<close> and thus an association list in the order of its keys, which is
  authoritative for reads; and the records in the sealed file.
\<close>

type_synonym swap_map = "(string \<times> swap_record) list"

record journal =
  records :: swap_map
  sealed :: swap_map

text \<open>\<open>persist_locked\<close> rewrites the file with the whole map; when it fails the old file stays.\<close>

definition persist_locked :: "unit res \<Rightarrow> journal \<Rightarrow> journal \<times> unit res" where
  "persist_locked io j =
     (case io of Inl e \<Rightarrow> (j, Inl e) | Inr _ \<Rightarrow> (j\<lparr>sealed := records j\<rparr>, Inr ()))"

definition journal_put :: "unit res \<Rightarrow> swap_record \<Rightarrow> journal \<Rightarrow> journal \<times> unit res" where
  "journal_put io r j = persist_locked io (j\<lparr>records := map_insert (swap_id r) r (records j)\<rparr>)"

definition journal_update ::
    "unit res \<Rightarrow> string \<Rightarrow> u64 \<Rightarrow> (swap_record \<Rightarrow> swap_record) \<Rightarrow> journal \<Rightarrow> journal \<times> unit res" where
  "journal_update io i now f j =
     (case map_of (records j) i of
        None \<Rightarrow> (j, Inl (BadParams ''unknown swap_id''))
      | Some r \<Rightarrow>
          persist_locked io
            (j\<lparr>records := map_insert i ((f r)\<lparr>updated_at := now\<rparr>) (records j)\<rparr>))"

definition journal_remove :: "unit res \<Rightarrow> string \<Rightarrow> journal \<Rightarrow> journal \<times> unit res" where
  "journal_remove io i j =
     (if map_of (records j) i = None then (j, Inr ())
      else persist_locked io (j\<lparr>records := map_remove i (records j)\<rparr>))"

definition journal_get :: "string \<Rightarrow> journal \<Rightarrow> swap_record option" where
  "journal_get i j = map_of (records j) i"

text \<open>All records, newest first (a stable sort of the values in key order), and the open ones.\<close>

definition journal_list :: "journal \<Rightarrow> swap_record list" where
  "journal_list j = sort_key (\<lambda>r. - uint (created_at r)) (map snd (records j))"

definition journal_pending :: "journal \<Rightarrow> swap_record list" where
  "journal_pending j = filter (\<lambda>r. \<not> is_terminal r) (map snd (records j))"

text \<open>Opening the journal: what the file holds, which is what a restart remembers.\<close>

definition journal_open :: "swap_map \<Rightarrow> journal" where
  "journal_open file = \<lparr>records = file, sealed = file\<rparr>"

section \<open>The log of BNB transfers\<close>

record bnb_tx =
  bt_hash :: string
  bt_direction :: string
  bt_from :: string
  bt_to :: string
  bt_amount_wei :: nat
  bt_status :: string
  bt_created_at :: u64
  bt_updated_at :: u64

record bnb_log =
  log_records :: "bnb_tx list"
  log_sealed :: "bnb_tx list"

definition log_persist :: "unit res \<Rightarrow> bnb_log \<Rightarrow> bnb_log \<times> unit res" where
  "log_persist io l =
     (case io of Inl e \<Rightarrow> (l, Inl e) | Inr _ \<Rightarrow> (l\<lparr>log_sealed := log_records l\<rparr>, Inr ()))"

definition log_record :: "unit res \<Rightarrow> bnb_tx \<Rightarrow> bnb_log \<Rightarrow> bnb_log \<times> unit res" where
  "log_record io t l =
     (if list_ex (\<lambda>u. eq_ignore_case (bt_hash u) (bt_hash t)) (log_records l) then (l, Inr ())
      else log_persist io (l\<lparr>log_records := log_records l @ [t]\<rparr>))"

definition log_set_status :: "unit res \<Rightarrow> string \<Rightarrow> string \<Rightarrow> u64 \<Rightarrow> bnb_log \<Rightarrow> bnb_log \<times> unit res" where
  "log_set_status io h st now l =
     (let hit = (\<lambda>t. eq_ignore_case (bt_hash t) h \<and> bt_status t \<noteq> st);
          l1 = l\<lparr>log_records := map (\<lambda>t. if hit t then t\<lparr>bt_status := st, bt_updated_at := now\<rparr> else t)
                                    (log_records l)\<rparr>
      in if list_ex hit (log_records l) then log_persist io l1 else (l, Inr ()))"

definition log_list :: "bnb_log \<Rightarrow> bnb_tx list" where
  "log_list l = sort_key (\<lambda>t. - uint (bt_created_at t)) (log_records l)"

definition log_pending_hashes :: "bnb_log \<Rightarrow> string list" where
  "log_pending_hashes l = map bt_hash (filter (\<lambda>t. bt_status t = ''pending'') (log_records l))"

section \<open>The world\<close>

text \<open>The fields the engine reads out of the JSON of the pool and of the indexer.\<close>

record pool_swap =
  ps_status :: "string option"
  ps_lock_tx :: "string option"
  ps_claim_tx :: "string option"
  ps_notes :: "string option"

record bsc_instr =
  bi_htlc_contract :: string
  bi_recipient :: string
  bi_timeout_sec :: u64

record exfer_instr =
  ei_receiver_pubkey :: string
  ei_timeout_height :: u64

record quote_resp =
  q_swap_id :: string
  q_amount_in :: string
  q_amount_out :: string
  q_amount_in_units :: string
  q_amount_out_units :: string
  q_expires_at :: u64
  q_fee_bps :: u32
  q_network_fee_bnb :: "string option"
  q_htlc_contract :: "string option"
  q_hashlock :: "string option"
  q_bsc :: "bsc_instr option"
  q_exfer :: "exfer_instr option"

record indexed_params =
  ip_receiver :: "string option"
  ip_sender :: "string option"
  ip_timeout :: "u64 option"
  ip_hash_lock :: "string option"

text \<open>\<open>ih_claim\<close> and \<open>ih_reclaim\<close> are \<open>None\<close> when the entry is absent or null, else they hold its \<open>tx_id\<close>.\<close>

record indexed_htlc =
  ih_params :: "indexed_params option"
  ih_state :: "string option"
  ih_lock_tx :: "string option"
  ih_output_index :: "u64 option"
  ih_amount :: "u64 option"
  ih_claim :: "string option option"
  ih_reclaim :: "string option option"

text \<open>A verified lock of the pool, and the HTLC that output 0 of a transaction decodes to.\<close>

record pool_exfer_lock =
  pl_lock_tx_id :: string
  pl_output_index :: u32
  pl_sender_pubkey :: string
  pl_timeout_height :: u64

record htlc_output =
  ho_hash_lock :: bytes
  ho_receiver :: bytes
  ho_sender :: bytes
  ho_timeout :: u64
  ho_value :: u64

record tx_status =
  ts_block_height :: "u64 option"
  ts_hex :: string

record stranded_lock =
  sl_hashlock :: string
  sl_contract :: string

text \<open>
  The calls with an effect elsewhere.  The four on EXFER are calls of the functions of
  \<open>src/tx/htlc.rs\<close>, given with the key that signs; the others are calls of the pool and of the BSC
  client.
\<close>

datatype action =
    CommitSwap string
  | LockExfer bytes bytes bytes u64 u64
  | NotifyExferLock string string
  | LockBnb string string string nat u64
  | RelayClaim string string
  | ClaimBnb string string
  | ClaimExfer bytes bytes bytes bytes u64
  | HandPresigned string string nat
  | ReclaimExfer bytes bytes u32 bytes bytes u64
  | RefundBnb string string
  | SendBnb string nat

text \<open>What the services would answer at one moment.\<close>

record services =
  clock_now :: u64
  storage :: "unit res"
  load_signer :: "string \<Rightarrow> signer res"
  wallet_list :: "string list res"
  evm_secret :: "bytes res"
  random_bytes :: bytes
  pool_quote :: "direction \<Rightarrow> string \<Rightarrow> string option \<Rightarrow> string option \<Rightarrow> string option \<Rightarrow> flow
                 \<Rightarrow> quote_resp res"
  pool_get_swap :: "string \<Rightarrow> pool_swap res"
  pool_stranded :: "bytes \<Rightarrow> stranded_lock list res"
  htlc_lookup :: "string \<Rightarrow> indexed_htlc list res"
  htlc_list :: "string \<Rightarrow> indexed_htlc list res"
  block_height :: "u64 res"
  node_transaction :: "string \<Rightarrow> tx_status option res"
  presign :: "signer \<Rightarrow> bytes \<Rightarrow> u32 \<Rightarrow> bytes \<Rightarrow> bytes \<Rightarrow> u64 \<Rightarrow> (string \<times> nat) res"
  get_htlc_swap :: "string \<Rightarrow> string \<Rightarrow> on_chain_swap res"
  bnb_balance :: "bytes \<Rightarrow> nat res"
  sweep_gas_reserve :: nat
  receipt_status :: "string \<Rightarrow> bool option res"
  block_number :: "u64 res"
  block_timestamp :: "u64 res"
  locked_hashlocks :: "string \<Rightarrow> bytes \<Rightarrow> u64 \<Rightarrow> u64 \<Rightarrow> string list res"
  tx_reply :: "action \<Rightarrow> string res"
  pool_reply :: "action \<Rightarrow> string option res"

text \<open>
  The world: the crates (\<open>exfer\<close> and \<open>hex\<close> in \<open>crate\<close>, \<open>sha2\<close>, and \<open>alloy\<close> for the 256-bit
  integers and addresses of the EVM), whether an indexer and which BSC chain are configured, and
  the answers to the \<open>n\<close>-th call.
\<close>

record world =
  crate :: chain
  sha256 :: "bytes \<Rightarrow> bytes"
  parse_u256 :: "string \<Rightarrow> nat option"
  parse_address :: "string \<Rightarrow> bytes option"
  address_of :: "bytes \<Rightarrow> bytes res"
  checksum :: "bytes \<Rightarrow> string"
  first_htlc :: "string \<Rightarrow> htlc_output option"
  has_indexer :: bool
  bsc_chain_id :: u64
  at :: "nat \<Rightarrow> services"

section \<open>The engine and its steps\<close>

record engine =
  swaps :: journal
  bnb_txs :: bnb_log
  swept_locks :: "(bytes \<times> u32) set"
  swept_bnb :: "string set"
  bsc_sweep_cursor :: u64
  calls :: nat
  trace :: "action list"

type_synonym 'a step = "world \<Rightarrow> engine \<Rightarrow> engine \<times> 'a res"

definition ret :: "'a \<Rightarrow> 'a step" where
  "ret x = (\<lambda>w e. (e, Inr x))"

definition raise :: "error \<Rightarrow> 'a step" where
  "raise d = (\<lambda>w e. (e, Inl d))"

text \<open>A computation on values and crates alone.\<close>

definition pure_step :: "(world \<Rightarrow> 'a res) \<Rightarrow> 'a step" where
  "pure_step f = (\<lambda>w e. (e, f w))"

text \<open>A call that only reads; one that may fail; and one that has an effect and is traced.\<close>

definition see :: "(services \<Rightarrow> 'a) \<Rightarrow> 'a step" where
  "see f = (\<lambda>w e. (e\<lparr>calls := calls e + 1\<rparr>, Inr (f (at w (calls e)))))"

definition ask :: "(services \<Rightarrow> 'a res) \<Rightarrow> 'a step" where
  "ask f = (\<lambda>w e. (e\<lparr>calls := calls e + 1\<rparr>, f (at w (calls e))))"

definition send :: "(services \<Rightarrow> action \<Rightarrow> 'a res) \<Rightarrow> action \<Rightarrow> 'a step" where
  "send f a = (\<lambda>w e. (e\<lparr>calls := calls e + 1, trace := trace e @ [a]\<rparr>, f (at w (calls e)) a))"

definition bind_step :: "'a step \<Rightarrow> ('a \<Rightarrow> 'b step) \<Rightarrow> 'b step" where
  "bind_step m f = (\<lambda>w e. case m w e of (e1, Inl d) \<Rightarrow> (e1, Inl d) | (e1, Inr x) \<Rightarrow> f x w e1)"

text \<open>A call whose error the code inspects or drops instead of returning it.\<close>

definition attempt :: "'a step \<Rightarrow> 'a res step" where
  "attempt m = (\<lambda>w e. case m w e of (e1, r) \<Rightarrow> (e1, Inr r))"

definition lookup :: "string \<Rightarrow> swap_record option step" where
  "lookup i = (\<lambda>w e. (e, Inr (journal_get i (swaps e))))"

definition update_at :: "u64 \<Rightarrow> string \<Rightarrow> (swap_record \<Rightarrow> swap_record) \<Rightarrow> unit step" where
  "update_at now i f = (\<lambda>w e.
     case journal_update (storage (at w (calls e))) i now f (swaps e) of
       (j, r) \<Rightarrow> (e\<lparr>swaps := j, calls := calls e + 1\<rparr>, r))"

text \<open>\<open>self.journal.update(id, now_secs(), f)\<close>.\<close>

definition update :: "string \<Rightarrow> (swap_record \<Rightarrow> swap_record) \<Rightarrow> unit step" where
  "update i f = bind_step (see clock_now) (\<lambda>now. update_at now i f)"

definition put :: "swap_record \<Rightarrow> unit step" where
  "put r = (\<lambda>w e.
     case journal_put (storage (at w (calls e))) r (swaps e) of
       (j, x) \<Rightarrow> (e\<lparr>swaps := j, calls := calls e + 1\<rparr>, x))"

definition remove :: "string \<Rightarrow> unit step" where
  "remove i = (\<lambda>w e.
     case journal_remove (storage (at w (calls e))) i (swaps e) of
       (j, x) \<Rightarrow> (e\<lparr>swaps := j, calls := calls e + 1\<rparr>, x))"

text \<open>A call whose outcome is only logged.\<close>

definition ignoring :: "'a step \<Rightarrow> unit step" where
  "ignoring m = bind_step (attempt m) (\<lambda>_. ret ())"

text \<open>A loop over a list that is fixed before it starts.\<close>

fun for_each :: "'a list \<Rightarrow> ('a \<Rightarrow> unit step) \<Rightarrow> unit step" where
  "for_each [] f = ret ()"
| "for_each (x # xs) f = bind_step (f x) (\<lambda>_. for_each xs f)"

text \<open>What a step did: the engine it left, how it ended and what it sent.\<close>

definition after :: "'a step \<Rightarrow> world \<Rightarrow> engine \<Rightarrow> engine" where "after m w e = fst (m w e)"
definition outcome :: "'a step \<Rightarrow> world \<Rightarrow> engine \<Rightarrow> 'a res" where "outcome m w e = snd (m w e)"
definition sent :: "'a step \<Rightarrow> world \<Rightarrow> engine \<Rightarrow> action list" where
  "sent m w e = drop (length (trace e)) (trace (after m w e))"

section \<open>Reading steps\<close>

text \<open>
  \<open>wp m w e Q\<close>: running \<open>m\<close> ends with \<open>Q\<close>.  The equations below evaluate it through a step, so that a
  property of a step is proved by rewriting with them.
\<close>

definition wp :: "'a step \<Rightarrow> world \<Rightarrow> engine \<Rightarrow> (engine \<Rightarrow> 'a res \<Rightarrow> bool) \<Rightarrow> bool" where
  "wp m w e Q = (case m w e of (e1, r) \<Rightarrow> Q e1 r)"

named_theorems wp_simps \<open>evaluation of steps\<close>

lemma wp_run: "wp m w e Q = Q (after m w e) (outcome m w e)"
  by (simp add: wp_def after_def outcome_def case_prod_beta)

lemma wp_mono: "wp m w e P \<Longrightarrow> (\<And>e1 r. P e1 r \<Longrightarrow> Q e1 r) \<Longrightarrow> wp m w e Q"
  by (simp add: wp_run)

lemma wp_conj: "wp m w e (\<lambda>e1 r. P e1 r \<and> Q e1 r) \<longleftrightarrow> wp m w e P \<and> wp m w e Q"
  by (simp add: wp_run)

lemma wp_ret [wp_simps]: "wp (ret x) w e Q = Q e (Inr x)"
  by (simp add: wp_def ret_def)

lemma wp_raise [wp_simps]: "wp (raise d) w e Q = Q e (Inl d)"
  by (simp add: wp_def raise_def)

lemma wp_pure [wp_simps]: "wp (pure_step f) w e Q = Q e (f w)"
  by (simp add: wp_def pure_step_def)

lemma wp_see [wp_simps]: "wp (see f) w e Q = Q (e\<lparr>calls := calls e + 1\<rparr>) (Inr (f (at w (calls e))))"
  by (simp add: wp_def see_def)

lemma wp_ask [wp_simps]: "wp (ask f) w e Q = Q (e\<lparr>calls := calls e + 1\<rparr>) (f (at w (calls e)))"
  by (simp add: wp_def ask_def)

lemma wp_send [wp_simps]:
  "wp (send f a) w e Q =
     Q (e\<lparr>calls := calls e + 1, trace := trace e @ [a]\<rparr>) (f (at w (calls e)) a)"
  by (simp add: wp_def send_def)

lemma wp_bind [wp_simps]:
  "wp (bind_step m f) w e Q =
     wp m w e (\<lambda>e1 r. case r of Inl d \<Rightarrow> Q e1 (Inl d) | Inr x \<Rightarrow> wp (f x) w e1 Q)"
  by (auto simp: wp_def bind_step_def split: prod.splits sum.splits)

lemma wp_attempt [wp_simps]: "wp (attempt m) w e Q = wp m w e (\<lambda>e1 r. Q e1 (Inr r))"
  by (auto simp: wp_def attempt_def split: prod.splits)

lemma wp_lookup [wp_simps]: "wp (lookup i) w e Q = Q e (Inr (journal_get i (swaps e)))"
  by (simp add: wp_def lookup_def)

lemma wp_for_each_Nil [wp_simps]: "wp (for_each [] f) w e Q = Q e (Inr ())"
  by (simp add: wp_ret)

lemma wp_for_each_Cons [wp_simps]:
  "wp (for_each (x # xs) f) w e Q =
     wp (f x) w e (\<lambda>e1 r. case r of Inl d \<Rightarrow> Q e1 (Inl d) | Inr _ \<Rightarrow> wp (for_each xs f) w e1 Q)"
  by (simp add: wp_bind)

text \<open>A loop keeps what each round keeps.\<close>

lemma wp_for_each_invariant:
  assumes "I e" "\<And>x e. x \<in> set xs \<Longrightarrow> I e \<Longrightarrow> wp (f x) w e (\<lambda>e1 r. I e1)"
  shows "wp (for_each xs f) w e (\<lambda>e1 r. I e1)"
  using assms
proof (induction xs arbitrary: e)
  case Nil
  then show ?case by (simp add: wp_simps)
next
  case (Cons x xs)
  have rest: "wp (for_each xs f) w e1 (\<lambda>e1 r. I e1)" if "I e1" for e1
    by (rule Cons.IH [OF that]) (use Cons.prems in simp)
  have "wp (f x) w e (\<lambda>e1 r. I e1)" using Cons.prems by simp
  then show ?case
    unfolding wp_for_each_Cons by (rule wp_mono) (simp add: rest split: sum.split)
qed

section \<open>Helpers of the engine\<close>

fun strip0x :: "string \<Rightarrow> string" where
  "strip0x (a # b # r) = (if a = CHR ''0'' \<and> b = CHR ''x'' then strip0x r else a # b # r)"
| "strip0x s = s"

definition hash256_from_hex :: "string \<Rightarrow> bytes step" where
  "hash256_from_hex s = pure_step (\<lambda>w. decode_hash (crate w) (strip0x s))"

definition decode_hash_step :: "string \<Rightarrow> bytes step" where
  "decode_hash_step s = pure_step (\<lambda>w. decode_hash (crate w) s)"

text \<open>\<open>ok_or_else(..)?\<close> on an optional field.\<close>

definition need :: "error \<Rightarrow> 'a option \<Rightarrow> 'a step" where
  "need d x = (case x of None \<Rightarrow> raise d | Some y \<Rightarrow> ret y)"

lemma wp_need [wp_simps]:
  "wp (need d x) w e Q = (case x of None \<Rightarrow> Q e (Inl d) | Some y \<Rightarrow> Q e (Inr y))"
  by (simp add: need_def wp_simps split: option.splits)

lemma wp_decode_hash [wp_simps]:
  "wp (decode_hash_step s) w e Q = Q e (decode_hash (crate w) s)"
  "wp (hash256_from_hex s) w e Q = Q e (decode_hash (crate w) (strip0x s))"
  by (simp_all add: decode_hash_step_def hash256_from_hex_def wp_simps)

text \<open>\<open>unwrap_or_default\<close> on an optional string.\<close>

definition or_empty :: "string option \<Rightarrow> string" where
  "or_empty x = (case x of None \<Rightarrow> [] | Some s \<Rightarrow> s)"

definition pool_status_of :: "pool_swap \<Rightarrow> string" where
  "pool_status_of p = or_empty (ps_status p)"

text \<open>Our key and our address, as an indexer may have stored either: the comparison of the code.\<close>

definition is_us :: "chain \<Rightarrow> signer \<Rightarrow> string \<Rightarrow> string option \<Rightarrow> bool" where
  "is_us ch s from party =
     (case party of None \<Rightarrow> False
      | Some p \<Rightarrow> lower p = lower (hex_encode ch (signer_pubkey s)) \<or> lower p = lower (strip0x from))"

definition receiver_of :: "indexed_htlc \<Rightarrow> string option" where
  "receiver_of h = Option.bind (ih_params h) ip_receiver"

definition sender_of :: "indexed_htlc \<Rightarrow> string option" where
  "sender_of h = Option.bind (ih_params h) ip_sender"

text \<open>\<open>unwrap_or(0)\<close> on the timeout of an indexed lock.\<close>

definition timeout_of :: "indexed_htlc \<Rightarrow> u64" where
  "timeout_of h = (case Option.bind (ih_params h) ip_timeout of None \<Rightarrow> 0 | Some t \<Rightarrow> t)"

definition state_of :: "indexed_htlc \<Rightarrow> string" where
  "state_of h = or_empty (ih_state h)"

text \<open>\<open>is_none\<close>, then set: the first error recorded is kept.\<close>

definition keep_error :: "string \<Rightarrow> string option \<Rightarrow> string option" where
  "keep_error msg old = (case old of None \<Rightarrow> Some msg | Some m \<Rightarrow> Some m)"

end
