(* ===== verification/SwapLock.thy ===== *)
theory SwapLock imports SwapBase begin

text \<open>
  The first half of a swap (\<open>src/swap.rs\<close>): quoting, executing, the checks of the pool's lock, and
  the two monitor-driven lock steps of the reversed flow.  The lemmas say under which answers of
  the chains a lock of ours may be sent at all.
\<close>

section \<open>Quotes\<close>

text \<open>\<open>get_quote\<close> after the pool has answered: the record that is stored.\<close>

definition quoted_record ::
    "direction \<Rightarrow> flow \<Rightarrow> string \<Rightarrow> string \<Rightarrow> string \<Rightarrow> string \<Rightarrow> quote_resp \<Rightarrow> u64 \<Rightarrow> swap_record" where
  "quoted_record dir fl hlock pre our_bsc from_exfer q now =
     \<lparr>swap_id = q_swap_id q, direction = dir, status = Quoted, flow = fl, hashlock = hlock,
      preimage = pre, amount_in = q_amount_in q, amount_out = q_amount_out q,
      amount_in_units = q_amount_in_units q, amount_out_units = q_amount_out_units q,
      pool_exfer_pubkey = map_option ei_receiver_pubkey (q_exfer q),
      pool_bsc_address = map_option bi_recipient (q_bsc q),
      htlc_contract = (case q_htlc_contract q of Some c \<Rightarrow> Some c
                                              | None \<Rightarrow> map_option bi_htlc_contract (q_bsc q)),
      our_bsc_address = Some our_bsc, our_exfer_address = Some from_exfer,
      user_lock_tx = None, pool_lock_ref = None, claim_tx = None, refund_tx = None,
      exfer_timeout_height = map_option ei_timeout_height (q_exfer q),
      bsc_timeout_sec = map_option bi_timeout_sec (q_bsc q),
      expires_at = q_expires_at q, fee_bps = q_fee_bps q, network_fee_bnb = q_network_fee_bnb q,
      swap_error = None, created_at = now, updated_at = now\<rparr>"

definition store_quote ::
    "direction \<Rightarrow> flow \<Rightarrow> string \<Rightarrow> string \<Rightarrow> string \<Rightarrow> string \<Rightarrow> quote_resp \<Rightarrow> swap_record step" where
  "store_quote dir fl hlock pre our_bsc from_exfer q =
     bind_step (see clock_now) (\<lambda>now.
     let r = quoted_record dir fl hlock pre our_bsc from_exfer q now in
     bind_step (put r) (\<lambda>_. ret r))"

text \<open>The keys both flows start from: our BSC address and our EXFER public key.\<close>

definition quote_keys :: "string \<Rightarrow> (string \<times> string) step" where
  "quote_keys from_exfer =
     bind_step (ask evm_secret) (\<lambda>secret.
     bind_step (pure_step (\<lambda>w. bind_ok (address_of w secret) (\<lambda>a. Inr (checksum w a)))) (\<lambda>our_bsc.
     bind_step (ask (\<lambda>s. load_signer s from_exfer)) (\<lambda>sg.
     pure_step (\<lambda>w. Inr (our_bsc, hex_encode (crate w) (signer_pubkey sg))))))"

definition ask_quote ::
    "direction \<Rightarrow> string \<Rightarrow> string option \<Rightarrow> string \<Rightarrow> string \<Rightarrow> flow \<Rightarrow> quote_resp step" where
  "ask_quote dir amt hlock our_bsc our_pubkey fl =
     ask (\<lambda>s. pool_quote s dir amt hlock
                (case dir of ExferToBnb \<Rightarrow> Some our_bsc | BnbToExfer \<Rightarrow> None)
                (case dir of ExferToBnb \<Rightarrow> None | BnbToExfer \<Rightarrow> Some our_pubkey) fl)"

definition get_quote_v1 :: "direction \<Rightarrow> string \<Rightarrow> string \<Rightarrow> swap_record step" where
  "get_quote_v1 dir amt from_exfer =
     bind_step (quote_keys from_exfer) (\<lambda>(our_bsc, our_pubkey).
     bind_step (see random_bytes) (\<lambda>pre.
     bind_step (pure_step (\<lambda>w. Inr (''0x'' @ hex_encode (crate w) pre,
                                    ''0x'' @ hex_encode (crate w) (sha256 w pre)))) (\<lambda>(pre_text, hlock).
     bind_step (ask_quote dir amt (Some hlock) our_bsc our_pubkey V1) (\<lambda>q.
     store_quote dir V1 hlock pre_text our_bsc from_exfer q))))"

text \<open>A pool that answers a v2 request without a hashlock is not v2-capable: the quote is taken again as v1.\<close>

definition get_quote :: "direction \<Rightarrow> string \<Rightarrow> string \<Rightarrow> flow \<Rightarrow> swap_record step" where
  "get_quote dir amt from_exfer fl =
     (case fl of
        V1 \<Rightarrow> get_quote_v1 dir amt from_exfer
      | V2 \<Rightarrow>
          bind_step (quote_keys from_exfer) (\<lambda>(our_bsc, our_pubkey).
          bind_step (ask_quote dir amt None our_bsc our_pubkey V2) (\<lambda>q.
          case q_hashlock q of
            Some h \<Rightarrow> store_quote dir V2 h [] our_bsc from_exfer q
          | None \<Rightarrow> get_quote_v1 dir amt from_exfer)))"

section \<open>Executing\<close>

definition execute_v2 :: "string \<Rightarrow> swap_record \<Rightarrow> swap_record step" where
  "execute_v2 i rec =
     bind_step (send pool_reply (CommitSwap i)) (\<lambda>_.
     bind_step (update i (\<lambda>r. r\<lparr>status := Committing\<rparr>)) (\<lambda>_.
     bind_step (lookup i) (\<lambda>x. ret (case x of None \<Rightarrow> rec | Some r \<Rightarrow> r))))"

text \<open>The v1 sell: our EXFER is locked first, unless the pool's timeout leaves us too short a window.\<close>

definition execute_sell :: "string \<Rightarrow> swap_record \<Rightarrow> unit step" where
  "execute_sell i rec =
     bind_step (need (Internal ''missing EXFER from-address'') (our_exfer_address rec)) (\<lambda>addr.
     bind_step (ask (\<lambda>s. load_signer s addr)) (\<lambda>sg.
     bind_step (need (Internal ''missing pool EXFER pubkey'') (pool_exfer_pubkey rec)) (\<lambda>pk.
     bind_step (decode_hash_step (strip0x pk)) (\<lambda>receiver.
     bind_step (hash256_from_hex (hashlock rec)) (\<lambda>hlock.
     bind_step (need (Internal ''missing EXFER timeout height'') (exfer_timeout_height rec)) (\<lambda>timeout.
     bind_step (ask block_height) (\<lambda>tip.
     if timeout < tip + min_exfer_lock_blocks then
       raise (BadParams ''pool returned an unsafe (too-short) EXFER lock timeout'')
     else
     bind_step (need (Internal ''bad EXFER amount: '') (parse_u64_string (amount_in_units rec))) (\<lambda>amount.
     bind_step (send tx_reply (LockExfer (signer_pubkey sg) receiver hlock timeout amount)) (\<lambda>tx.
     bind_step (attempt (send pool_reply (NotifyExferLock i tx))) (\<lambda>_.
     update i (\<lambda>r. r\<lparr>status := UserLocked, user_lock_tx := Some tx\<rparr>)))))))))))"

text \<open>The v1 buy: our BNB is locked first.\<close>

definition execute_buy :: "string \<Rightarrow> swap_record \<Rightarrow> unit step" where
  "execute_buy i rec =
     bind_step (ask evm_secret) (\<lambda>secret.
     bind_step (need (Internal ''missing HTLC contract'') (htlc_contract rec)) (\<lambda>htlc.
     bind_step (need (Internal ''missing pool BSC address'') (pool_bsc_address rec)) (\<lambda>recipient.
     bind_step (need (Internal ''missing BSC timeout'') (bsc_timeout_sec rec)) (\<lambda>timeout.
     bind_step (see clock_now) (\<lambda>now.
     if timeout < now + min_bsc_lock_secs then
       raise (BadParams ''pool returned an unsafe (too-short) BNB lock timeout'')
     else
     bind_step (pure_step (\<lambda>w. ok_or (Internal ''bad BNB amount: '') (parse_u256 w (amount_in_units rec)))) (\<lambda>amount.
     bind_step (pure_step (\<lambda>w. address_of w secret)) (\<lambda>our_addr.
     bind_step (ask (\<lambda>s. bnb_balance s our_addr)) (\<lambda>bnb.
     if bnb \<le> amount then
       raise (BadParams ''not enough BNB: need the swap amount plus a little for gas'')
     else
     bind_step (send tx_reply (LockBnb htlc (hashlock rec) recipient amount timeout)) (\<lambda>tx.
     update i (\<lambda>r. r\<lparr>status := UserLocked, user_lock_tx := Some tx\<rparr>))))))))))"

definition execute :: "string \<Rightarrow> swap_record step" where
  "execute i =
     bind_step (lookup i) (\<lambda>x.
     bind_step (need (BadParams ''unknown swap_id '') x) (\<lambda>rec.
     if status rec \<noteq> Quoted then ret rec
     else
     bind_step (see clock_now) (\<lambda>now.
     if now \<ge> expires_at rec then
       bind_step (update_at now i (\<lambda>r. r\<lparr>status := Failed,
                    swap_error := Some ''quote expired before execution''\<rparr>)) (\<lambda>_.
       raise (BadParams ''quote expired; request a fresh quote''))
     else if flow rec = V2 then execute_v2 i rec
     else
     bind_step (case direction rec of ExferToBnb \<Rightarrow> execute_sell i rec
                                    | BnbToExfer \<Rightarrow> execute_buy i rec) (\<lambda>_.
     bind_step (lookup i) (\<lambda>y. ret (case y of None \<Rightarrow> rec | Some r \<Rightarrow> r))))))"

section \<open>Checking the pool's lock\<close>

definition verify_pool_bsc_lock :: "swap_record \<Rightarrow> bool step" where
  "verify_pool_bsc_lock rec =
     (case htlc_contract rec of
        None \<Rightarrow> ret False
      | Some htlc \<Rightarrow>
     (case our_bsc_address rec of
        None \<Rightarrow> ret False
      | Some a \<Rightarrow>
          bind_step (pure_step (\<lambda>w. ok_or (Internal ''bad our BSC address: '') (parse_address w a))) (\<lambda>our.
          bind_step (pure_step (\<lambda>w. ok_or (Internal ''bad amount_out_units: '')
                                         (parse_u256 w (amount_out_units rec)))) (\<lambda>want_out.
          bind_step (ask (\<lambda>s. get_htlc_swap s htlc (hashlock rec))) (\<lambda>oc.
          bind_step (see clock_now) (\<lambda>now.
          ret (pool_lock_safe_to_claim oc our want_out now)))))))"

text \<open>The gates of the node path on what the transaction shows; the margin to the timeout comes last.\<close>

definition node_lock_ok :: "chain \<Rightarrow> signer \<Rightarrow> string \<Rightarrow> swap_record \<Rightarrow> htlc_output \<Rightarrow> bool" where
  "node_lock_ok ch sg from_exfer rec out \<longleftrightarrow>
     hex_encode ch (ho_hash_lock out) = lower (strip0x (hashlock rec)) \<and>
     is_us ch sg from_exfer (Some (hex_encode ch (ho_receiver out))) \<and>
     (case parse_u64_string (amount_out_units rec) of
        None \<Rightarrow> False
      | Some want_out \<Rightarrow> \<not> ho_value out < want_out)"

definition verify_pool_exfer_lock_via_node ::
    "swap_record \<Rightarrow> string \<Rightarrow> pool_exfer_lock option step" where
  "verify_pool_exfer_lock_via_node rec txid =
     (let from_exfer = or_empty (our_exfer_address rec) in
     bind_step (attempt (ask (\<lambda>s. load_signer s from_exfer))) (\<lambda>x. case x of Inl _ \<Rightarrow> ret None | Inr sg \<Rightarrow>
     bind_step (attempt (ask (\<lambda>s. node_transaction s txid))) (\<lambda>y. case y of Inl _ \<Rightarrow> ret None | Inr None \<Rightarrow> ret None
     | Inr (Some st) \<Rightarrow>
       if (case ts_block_height st of None \<Rightarrow> True | Some h \<Rightarrow> h = 0) then ret None
       else
       bind_step (pure_step (\<lambda>w. Inr (crate w, first_htlc w (ts_hex st)))) (\<lambda>(ch, parsed).
       case parsed of None \<Rightarrow> ret None | Some out \<Rightarrow>
       if \<not> node_lock_ok ch sg from_exfer rec out then ret None
       else
       bind_step (attempt (ask block_height)) (\<lambda>z. case z of Inl _ \<Rightarrow> ret None | Inr tip \<Rightarrow>
       if ho_timeout out < tip + min_exfer_lock_blocks then ret None
       else ret (Some \<lparr>pl_lock_tx_id = txid, pl_output_index = 0,
                       pl_sender_pubkey = hex_encode ch (ho_sender out),
                       pl_timeout_height = ho_timeout out\<rparr>))))))"

text \<open>The indexer path.\<close>

definition verify_pool_exfer_lock_via_indexer :: "swap_record \<Rightarrow> pool_exfer_lock step" where
  "verify_pool_exfer_lock_via_indexer rec =
     bind_step (pure_step (\<lambda>w. ensure (Internal ''indexer required for v2 buy'') (has_indexer w))) (\<lambda>_.
     let from_exfer = or_empty (our_exfer_address rec) in
     bind_step (ask (\<lambda>s. load_signer s from_exfer)) (\<lambda>sg.
     bind_step (ask (\<lambda>s. htlc_lookup s (strip0x (hashlock rec)))) (\<lambda>htlcs.
     bind_step (pure_step (\<lambda>w. ok_or (UpstreamUnexpected ''pool EXFER lock not yet found by hashlock; retry'')
                  (find (\<lambda>h. is_us (crate w) sg from_exfer (receiver_of h)) htlcs))) (\<lambda>pl.
     if state_of pl \<noteq> ''locked'' then
       raise (UpstreamUnexpected ''pool EXFER lock not in 'locked' state; NOT locking our BNB'')
     else
     bind_step (need (UpstreamUnexpected ''indexed htlc missing lock_tx_id'') (ih_lock_tx pl)) (\<lambda>lock_tx.
     bind_step (need (UpstreamUnexpected ''indexed htlc missing sender'') (sender_of pl)) (\<lambda>sender.
     bind_step (need (UpstreamUnexpected ''indexed htlc missing amount'') (ih_amount pl)) (\<lambda>amount.
     bind_step (need (Internal ''bad amount_out_units: '') (parse_u64_string (amount_out_units rec))) (\<lambda>want_out.
     if amount < want_out then raise (UpstreamUnexpected ''pool EXFER lock underfunded; NOT locking BNB'')
     else
     bind_step (ask block_height) (\<lambda>tip.
     if timeout_of pl < tip + min_exfer_lock_blocks then
       raise (UpstreamUnexpected ''pool EXFER lock timeout too short'')
     else ret \<lparr>pl_lock_tx_id = lock_tx, pl_output_index = 0, pl_sender_pubkey = strip0x sender,
               pl_timeout_height = timeout_of pl\<rparr>)))))))))"

definition verify_pool_exfer_lock :: "swap_record \<Rightarrow> pool_exfer_lock step" where
  "verify_pool_exfer_lock rec =
     bind_step (attempt (ask (\<lambda>s. pool_get_swap s (swap_id rec)))) (\<lambda>x.
     case (case x of Inl _ \<Rightarrow> [] | Inr pj \<Rightarrow> or_empty (ps_lock_tx pj)) of
       [] \<Rightarrow> verify_pool_exfer_lock_via_indexer rec
     | txid \<Rightarrow>
         bind_step (attempt (verify_pool_exfer_lock_via_node rec txid)) (\<lambda>y.
         case y of Inr (Some pl) \<Rightarrow> ret pl
                 | _ \<Rightarrow> verify_pool_exfer_lock_via_indexer rec))"

section \<open>The lock steps of the reversed flow\<close>

text \<open>The abort the pool reports before we locked; \<open>None\<close> when it reports none.\<close>

definition mirror_abort :: "string \<Rightarrow> string \<Rightarrow> pool_swap res \<Rightarrow> unit step option" where
  "mirror_abort i msg answer =
     (case answer of
        Inl _ \<Rightarrow> None
      | Inr pj \<Rightarrow>
          if pool_status_of pj \<in> {''failed'', ''expired''} then
            Some (update i (\<lambda>r. r\<lparr>status := Failed, swap_error := keep_error msg (swap_error r)\<rparr>))
          else if pool_status_of pj = ''refunded'' then Some (update i (\<lambda>r. r\<lparr>status := Refunded\<rparr>))
          else None)"

text \<open>Does the indexer show a lock under our hashlock that we sent?  No indexer or no answer: no.\<close>

definition our_exfer_lock_indexed :: "swap_record \<Rightarrow> string \<Rightarrow> signer \<Rightarrow> bool step" where
  "our_exfer_lock_indexed rec from_exfer sg =
     bind_step (pure_step (\<lambda>w. Inr (has_indexer w, crate w))) (\<lambda>(configured, ch).
     if \<not> configured then ret False
     else
     bind_step (attempt (ask (\<lambda>s. htlc_lookup s (strip0x (hashlock rec))))) (\<lambda>x.
     ret (case x of Inl _ \<Rightarrow> False
                  | Inr htlcs \<Rightarrow> list_ex (\<lambda>h. is_us ch sg from_exfer (sender_of h)) htlcs)))"

text \<open>The last part of the sell step: the pool's lock has been verified, ours is sent.\<close>

definition lock_sell_leg :: "swap_record \<Rightarrow> signer \<Rightarrow> unit step" where
  "lock_sell_leg rec sg =
     bind_step (need (Internal ''missing pool EXFER pubkey'') (pool_exfer_pubkey rec)) (\<lambda>pk.
     bind_step (decode_hash_step (strip0x pk)) (\<lambda>receiver.
     bind_step (hash256_from_hex (hashlock rec)) (\<lambda>hlock.
     bind_step (need (Internal ''missing EXFER timeout height'') (exfer_timeout_height rec)) (\<lambda>timeout.
     bind_step (ask block_height) (\<lambda>tip.
     if timeout < tip + min_exfer_lock_blocks then
       update (swap_id rec) (\<lambda>r. r\<lparr>status := Failed,
         swap_error := keep_error ''pool returned an unsafe (too-short) EXFER lock timeout'' (swap_error r)\<rparr>)
     else
     bind_step (need (Internal ''bad EXFER amount: '') (parse_u64_string (amount_in_units rec))) (\<lambda>amount.
     bind_step (send tx_reply (LockExfer (signer_pubkey sg) receiver hlock timeout amount)) (\<lambda>tx.
     update (swap_id rec) (\<lambda>r. r\<lparr>status := UserLocked, user_lock_tx := Some tx\<rparr>))))))))"

definition drive_v2_sell_lock :: "swap_record \<Rightarrow> unit step" where
  "drive_v2_sell_lock rec0 =
     bind_step (lookup (swap_id rec0)) (\<lambda>x. case x of None \<Rightarrow> ret () | Some rec \<Rightarrow>
     if status rec \<noteq> Committing then ret ()
     else
     bind_step (attempt (ask (\<lambda>s. pool_get_swap s (swap_id rec)))) (\<lambda>pj.
     case mirror_abort (swap_id rec) ''pool aborted the sell before we locked'' pj of Some m \<Rightarrow> m
     | None \<Rightarrow>
     bind_step (need (Internal ''missing EXFER from-address'') (our_exfer_address rec)) (\<lambda>from_exfer.
     bind_step (ask (\<lambda>s. load_signer s from_exfer)) (\<lambda>sg.
     bind_step (our_exfer_lock_indexed rec from_exfer sg) (\<lambda>ours.
     if ours then update (swap_id rec) (\<lambda>r. r\<lparr>status := UserLocked\<rparr>)
     else
     bind_step (attempt (verify_pool_bsc_lock rec)) (\<lambda>v.
     case v of Inr True \<Rightarrow> lock_sell_leg rec sg | _ \<Rightarrow> ret ()))))))"

text \<open>Whether the BSC contract already holds a lock under our hashlock; no contract or no answer: no.\<close>

definition our_bnb_lock_on_chain :: "swap_record \<Rightarrow> bool step" where
  "our_bnb_lock_on_chain rec =
     (case htlc_contract rec of
        None \<Rightarrow> ret False
      | Some htlc \<Rightarrow>
          bind_step (attempt (ask (\<lambda>s. get_htlc_swap s htlc (hashlock rec)))) (\<lambda>x.
          ret (case x of Inl _ \<Rightarrow> False | Inr oc \<Rightarrow> oc_state oc \<noteq> HtlcNone)))"

text \<open>The last part of the buy step: pre-sign the claim, lock our BNB, hand the claim over.\<close>

definition lock_buy_leg :: "swap_record \<Rightarrow> u64 \<Rightarrow> pool_exfer_lock \<Rightarrow> unit step" where
  "lock_buy_leg rec bsc_timeout pl =
     bind_step (need (Internal ''missing EXFER receive-address'') (our_exfer_address rec)) (\<lambda>from_exfer.
     bind_step (ask (\<lambda>s. load_signer s from_exfer)) (\<lambda>sg.
     bind_step (hash256_from_hex (pl_lock_tx_id pl)) (\<lambda>lock_tx.
     bind_step (decode_hash_step (pl_sender_pubkey pl)) (\<lambda>sender.
     bind_step (hash256_from_hex (hashlock rec)) (\<lambda>hlock.
     bind_step (ask (\<lambda>s. presign s sg lock_tx (pl_output_index pl) sender hlock (pl_timeout_height pl))) (\<lambda>(tx_hex, off).
     bind_step (ask evm_secret) (\<lambda>secret.
     bind_step (need (Internal ''missing HTLC contract'') (htlc_contract rec)) (\<lambda>htlc.
     bind_step (need (Internal ''missing pool BSC address'') (pool_bsc_address rec)) (\<lambda>recipient.
     bind_step (pure_step (\<lambda>w. ok_or (Internal ''bad BNB amount: '') (parse_u256 w (amount_in_units rec)))) (\<lambda>amount.
     bind_step (pure_step (\<lambda>w. address_of w secret)) (\<lambda>our_addr.
     bind_step (ask (\<lambda>s. bnb_balance s our_addr)) (\<lambda>bnb.
     if bnb \<le> amount then
       update (swap_id rec) (\<lambda>r. r\<lparr>status := Failed,
         swap_error := keep_error ''not enough BNB: need the swap amount plus a little for gas'' (swap_error r)\<rparr>)
     else
     bind_step (send tx_reply (LockBnb htlc (hashlock rec) recipient amount bsc_timeout)) (\<lambda>tx.
     bind_step (attempt (send pool_reply (HandPresigned (swap_id rec) tx_hex off))) (\<lambda>_.
     update (swap_id rec) (\<lambda>r. r\<lparr>status := UserLocked, user_lock_tx := Some tx\<rparr>)))))))))))))))"

definition drive_v2_buy_lock :: "swap_record \<Rightarrow> unit step" where
  "drive_v2_buy_lock rec0 =
     bind_step (lookup (swap_id rec0)) (\<lambda>x. case x of None \<Rightarrow> ret () | Some rec \<Rightarrow>
     if status rec \<noteq> Committing then ret ()
     else
     bind_step (our_bnb_lock_on_chain rec) (\<lambda>locked.
     if locked then update (swap_id rec) (\<lambda>r. r\<lparr>status := UserLocked\<rparr>)
     else
     bind_step (need (Internal ''missing BSC timeout'') (bsc_timeout_sec rec)) (\<lambda>bsc_timeout.
     bind_step (see clock_now) (\<lambda>now.
     if bsc_timeout < now + min_bsc_lock_secs then
       update (swap_id rec) (\<lambda>r. r\<lparr>status := Failed, swap_error := keep_error
         ''buy aborted: pool did not lock in time to safely lock our BNB'' (swap_error r)\<rparr>)
     else
     bind_step (attempt (ask (\<lambda>s. pool_get_swap s (swap_id rec)))) (\<lambda>pj.
     case mirror_abort (swap_id rec) ''pool aborted the buy before we locked'' pj of Some m \<Rightarrow> m
     | None \<Rightarrow>
     bind_step (attempt (verify_pool_exfer_lock rec)) (\<lambda>v.
     case v of Inl _ \<Rightarrow> ret () | Inr pl \<Rightarrow> lock_buy_leg rec bsc_timeout pl))))))"

end
