(* ===== verification/SwapSettle.thy ===== *)
theory SwapSettle imports SwapLock begin

text \<open>
  The second half of a swap (\<open>src/swap.rs\<close>): the settlement step of both flows and the refund.
\<close>

section \<open>The reversed flow\<close>

text \<open>What a pool's \<open>refunded\<close> or \<open>failed\<close> means for us: a buy whose BNB lock is on record is reclaimed.\<close>

definition buy_locked :: "swap_record \<Rightarrow> bool" where
  "buy_locked rec \<longleftrightarrow> direction rec = BnbToExfer \<and> user_lock_tx rec \<noteq> None"

definition advance_v2 :: "swap_record \<Rightarrow> unit step" where
  "advance_v2 rec =
     (if status rec = Committing then
        (case direction rec of BnbToExfer \<Rightarrow> drive_v2_buy_lock rec | ExferToBnb \<Rightarrow> drive_v2_sell_lock rec)
      else
      bind_step (attempt (ask (\<lambda>s. pool_get_swap s (swap_id rec)))) (\<lambda>x. case x of Inl _ \<Rightarrow> ret () | Inr pj \<Rightarrow>
      if pool_status_of pj = ''completed'' then
        update (swap_id rec) (\<lambda>r. r\<lparr>status := Completed,
          claim_tx := (if claim_tx r = None then ps_claim_tx pj else claim_tx r)\<rparr>)
      else if pool_status_of pj = ''refunded'' then
        update (swap_id rec) (\<lambda>r. r\<lparr>status := if buy_locked rec then Refunding else Refunded\<rparr>)
      else if pool_status_of pj = ''failed'' then
        update (swap_id rec) (\<lambda>r. r\<lparr>status := if buy_locked rec then Refunding else Failed,
          swap_error := keep_error (case ps_notes pj of None \<Rightarrow> ''pool marked the swap failed''
                                                      | Some n \<Rightarrow> n) (swap_error r)\<rparr>)
      else ret ()))"

section \<open>The first flow\<close>

definition mirror_sell :: "swap_record \<Rightarrow> unit step" where
  "mirror_sell rec =
     bind_step (verify_pool_bsc_lock rec) (\<lambda>safe.
     if \<not> safe then ret ()
     else
     bind_step (attempt (ask (\<lambda>s. pool_get_swap s (swap_id rec)))) (\<lambda>x.
     let plr = (case x of Inl _ \<Rightarrow> None | Inr pj \<Rightarrow> ps_lock_tx pj) in
     update (swap_id rec) (\<lambda>r. r\<lparr>status := PoolLocked, pool_lock_ref := plr\<rparr>)))"

definition mirror_buy :: "swap_record \<Rightarrow> unit step" where
  "mirror_buy rec =
     bind_step (ask (\<lambda>s. pool_get_swap s (swap_id rec))) (\<lambda>pj.
     if pool_status_of pj \<in> {''pool_locked'', ''preimage_seen'', ''completed''} then
       update (swap_id rec) (\<lambda>r. r\<lparr>status := PoolLocked, pool_lock_ref := ps_lock_tx pj\<rparr>)
     else ret ())"

text \<open>
  The sell claim.  First what the BSC contract says, when it can be read: claimed completes the swap,
  refunded sends it to the refund of our EXFER.
\<close>

definition sell_lock_state :: "swap_record \<Rightarrow> htlc_state option step" where
  "sell_lock_state rec =
     (let htlc = or_empty (htlc_contract rec) in
      if htlc = [] then ret None
      else bind_step (attempt (ask (\<lambda>s. get_htlc_swap s htlc (hashlock rec)))) (\<lambda>x.
           ret (case x of Inl _ \<Rightarrow> None | Inr oc \<Rightarrow> Some (oc_state oc))))"

text \<open>Then the claim itself, at most every \<open>CLAIM_REBROADCAST_SECS\<close>: relayed by the pool, or else sent by us.\<close>

definition send_sell_claim :: "swap_record \<Rightarrow> unit step" where
  "send_sell_claim rec =
     bind_step (see clock_now) (\<lambda>now.
     if \<not> (status rec = PoolLocked \<or> saturating_sub now (updated_at rec) \<ge> claim_rebroadcast_secs)
     then ret ()
     else
     bind_step (attempt (send pool_reply (RelayClaim (swap_id rec) (preimage rec)))) (\<lambda>x.
     case x of
       Inr tx \<Rightarrow> update (swap_id rec) (\<lambda>r. r\<lparr>status := Claiming,
                   claim_tx := (if tx = None then claim_tx r else tx)\<rparr>)
     | Inl d \<Rightarrow>
         bind_step (ask evm_secret) (\<lambda>secret.
         bind_step (pure_step (\<lambda>w. address_of w secret)) (\<lambda>our.
         if or_empty (htlc_contract rec) = [] then raise d
         else
         bind_step (ask (\<lambda>s. bnb_balance s our)) (\<lambda>bnb.
         if bnb = 0 then raise d
         else
         bind_step (send tx_reply (ClaimBnb (or_empty (htlc_contract rec)) (preimage rec))) (\<lambda>tx.
         update (swap_id rec) (\<lambda>r. r\<lparr>status := Claiming, claim_tx := Some tx\<rparr>)))))))"

definition claim_sell :: "swap_record \<Rightarrow> unit step" where
  "claim_sell rec =
     bind_step (sell_lock_state rec) (\<lambda>st.
     if st = Some HtlcClaimed then
       bind_step (case pool_lock_ref rec of
                    Some p \<Rightarrow> ret (Some p)
                  | None \<Rightarrow> bind_step (attempt (ask (\<lambda>s. pool_get_swap s (swap_id rec)))) (\<lambda>x.
                             ret (case x of Inl _ \<Rightarrow> None | Inr pj \<Rightarrow> ps_lock_tx pj))) (\<lambda>plr.
       update (swap_id rec) (\<lambda>r. r\<lparr>status := Completed, pool_lock_ref := plr, swap_error := None\<rparr>))
     else if st = Some HtlcRefunded then
       update (swap_id rec) (\<lambda>r. r\<lparr>status := Refunding, swap_error := Some
         ''BNB claim never confirmed; pool refunded its lock - reclaiming your EXFER''\<rparr>)
     else send_sell_claim rec)"

text \<open>The buy claim: the lock of the pool as the indexer shows it, under our hashlock and payable to us.\<close>

definition indexed_pool_lock :: "swap_record \<Rightarrow> (signer \<times> indexed_htlc option) step" where
  "indexed_pool_lock rec =
     bind_step (pure_step (\<lambda>w. ensure (Internal ''indexer required for buy-direction claim'') (has_indexer w))) (\<lambda>_.
     let from_exfer = or_empty (our_exfer_address rec) in
     bind_step (ask (\<lambda>s. load_signer s from_exfer)) (\<lambda>sg.
     bind_step (ask (\<lambda>s. htlc_lookup s (strip0x (hashlock rec)))) (\<lambda>htlcs.
     pure_step (\<lambda>w. Inr (sg, find (\<lambda>h. is_us (crate w) sg from_exfer (receiver_of h)) htlcs)))))"

text \<open>Whether an earlier claim of ours is still known to the node.\<close>

definition prior_claim_live :: "swap_record \<Rightarrow> bool step" where
  "prior_claim_live rec =
     (case claim_tx rec of
        None \<Rightarrow> ret False
      | Some tx \<Rightarrow>
          bind_step (attempt (ask (\<lambda>s. node_transaction s tx))) (\<lambda>x.
          ret (case x of Inr (Some _) \<Rightarrow> True | _ \<Rightarrow> False)))"

text \<open>The reveal gate of the buy direction, re-checked before every send.\<close>

definition send_buy_claim :: "swap_record \<Rightarrow> signer \<Rightarrow> indexed_htlc \<Rightarrow> unit step" where
  "send_buy_claim rec sg pl =
     bind_step (need (UpstreamUnexpected ''indexed htlc missing lock_tx_id'') (ih_lock_tx pl)) (\<lambda>lock_tx_id.
     bind_step (need (UpstreamUnexpected ''indexed htlc missing sender'') (sender_of pl)) (\<lambda>sender.
     bind_step (need (UpstreamUnexpected ''indexed htlc missing amount'') (ih_amount pl)) (\<lambda>lock_amount.
     bind_step (need (Internal ''bad amount_out_units: '') (parse_u64_string (amount_out_units rec))) (\<lambda>want_out.
     if lock_amount < want_out then
       raise (UpstreamUnexpected ''pool EXFER lock underfunded; refusing to reveal preimage'')
     else
     bind_step (ask block_height) (\<lambda>tip.
     if timeout_of pl < tip + min_exfer_lock_blocks then
       raise (UpstreamUnexpected ''pool EXFER lock timeout too short; refusing to reveal preimage'')
     else
     bind_step (pure_step (\<lambda>w. ok_or (Internal ''bad preimage: '')
                  (hex_decode (crate w) (strip0x (preimage rec))))) (\<lambda>pre.
     bind_step (hash256_from_hex lock_tx_id) (\<lambda>lock_tx.
     bind_step (decode_hash_step (strip0x sender)) (\<lambda>sender_key.
     bind_step (send tx_reply (ClaimExfer (signer_pubkey sg) lock_tx pre sender_key (timeout_of pl))) (\<lambda>tx.
     update (swap_id rec) (\<lambda>r. r\<lparr>status := Claiming, claim_tx := Some tx\<rparr>))))))))))"

definition claim_buy :: "swap_record \<Rightarrow> unit step" where
  "claim_buy rec =
     bind_step (indexed_pool_lock rec) (\<lambda>(sg, found). case found of None \<Rightarrow> ret () | Some pl \<Rightarrow>
     if state_of pl = ''claimed'' then
       update (swap_id rec) (\<lambda>r. r\<lparr>status := Completed,
         claim_tx := (case Option.bind (ih_claim pl) id of Some tx \<Rightarrow> Some tx | None \<Rightarrow> claim_tx rec),
         pool_lock_ref := (case pool_lock_ref rec of Some p \<Rightarrow> Some p | None \<Rightarrow> ih_lock_tx pl),
         swap_error := None\<rparr>)
     else if state_of pl = ''reclaimed'' then
       update (swap_id rec) (\<lambda>r. r\<lparr>status := Refunding, swap_error := Some
         ''EXFER claim never confirmed; pool reclaimed its lock - refunding your BNB''\<rparr>)
     else
     bind_step (prior_claim_live rec) (\<lambda>live.
     if live then ret () else send_buy_claim rec sg pl))"

definition advance :: "swap_record \<Rightarrow> unit step" where
  "advance rec =
     (if flow rec = V2 then advance_v2 rec
      else case (status rec, direction rec) of
        (UserLocked, ExferToBnb) \<Rightarrow> mirror_sell rec
      | (UserLocked, BnbToExfer) \<Rightarrow> mirror_buy rec
      | (PoolLocked, ExferToBnb) \<Rightarrow> claim_sell rec
      | (Claiming, ExferToBnb) \<Rightarrow> claim_sell rec
      | (PoolLocked, BnbToExfer) \<Rightarrow> claim_buy rec
      | (Claiming, BnbToExfer) \<Rightarrow> claim_buy rec
      | _ \<Rightarrow> ret ())"

section \<open>Refunds\<close>

definition refundable :: "swap_record \<Rightarrow> bool step" where
  "refundable rec =
     (case direction rec of
        ExferToBnb \<Rightarrow>
          bind_step (attempt (ask block_height)) (\<lambda>x.
          ret (case (exfer_timeout_height rec, x) of (Some t, Inr tip) \<Rightarrow> tip \<ge> t | _ \<Rightarrow> False))
      | BnbToExfer \<Rightarrow>
         (case bsc_timeout_sec rec of
            None \<Rightarrow> ret False
          | Some t \<Rightarrow> bind_step (see clock_now) (\<lambda>now. ret (now \<ge> t))))"

definition refund_sell :: "string \<Rightarrow> swap_record \<Rightarrow> string \<Rightarrow> unit step" where
  "refund_sell i rec lock_tx =
     bind_step (ask (\<lambda>s. load_signer s (or_empty (our_exfer_address rec)))) (\<lambda>sg.
     bind_step (decode_hash_step (strip0x (or_empty (pool_exfer_pubkey rec)))) (\<lambda>receiver.
     bind_step (hash256_from_hex lock_tx) (\<lambda>lock.
     bind_step (hash256_from_hex (hashlock rec)) (\<lambda>hlock.
     let timeout = (case exfer_timeout_height rec of None \<Rightarrow> 0 | Some t \<Rightarrow> t) in
     bind_step (send tx_reply (ReclaimExfer (signer_pubkey sg) lock 0 receiver hlock timeout)) (\<lambda>tx.
     update i (\<lambda>r. r\<lparr>status := Refunded, refund_tx := Some tx\<rparr>))))))"

definition reclaim_pending :: "swap_record \<Rightarrow> bool step" where
  "reclaim_pending rec =
     (case refund_tx rec of
        None \<Rightarrow> ret False
      | Some tx \<Rightarrow> bind_step (attempt (ask (\<lambda>s. receipt_status s tx))) (\<lambda>x. ret (x = Inr None)))"

definition refund_buy :: "string \<Rightarrow> swap_record \<Rightarrow> unit step" where
  "refund_buy i rec =
     (let htlc = or_empty (htlc_contract rec) in
     bind_step (ask (\<lambda>s. get_htlc_swap s htlc (hashlock rec))) (\<lambda>oc.
     case oc_state oc of
       HtlcRefunded \<Rightarrow> update i (\<lambda>r. r\<lparr>status := Refunded\<rparr>)
     | HtlcNone \<Rightarrow> update i (\<lambda>r. r\<lparr>status := Refunded\<rparr>)
     | HtlcClaimed \<Rightarrow> update i (\<lambda>r. r\<lparr>status := UserLocked, swap_error := Some
         ''recovered: pool claimed your BNB - re-settling delivery''\<rparr>)
     | HtlcLocked \<Rightarrow>
         bind_step (reclaim_pending rec) (\<lambda>pending.
         if pending then update i (\<lambda>r. r\<lparr>status := Refunding\<rparr>)
         else
         bind_step (ask evm_secret) (\<lambda>_.
         bind_step (send tx_reply (RefundBnb htlc (hashlock rec))) (\<lambda>tx.
         update i (\<lambda>r. r\<lparr>status := Refunding, refund_tx := Some tx\<rparr>))))))"

definition refund :: "string \<Rightarrow> swap_record step" where
  "refund i =
     bind_step (lookup i) (\<lambda>x.
     bind_step (need (BadParams ''unknown swap_id '') x) (\<lambda>rec.
     if is_terminal rec then ret rec
     else
     bind_step (need (BadParams ''nothing locked yet for this swap'') (user_lock_tx rec)) (\<lambda>lock_tx.
     bind_step (case direction rec of ExferToBnb \<Rightarrow> refund_sell i rec lock_tx
                                    | BnbToExfer \<Rightarrow> refund_buy i rec) (\<lambda>_.
     bind_step (lookup i) (\<lambda>y. ret (case y of None \<Rightarrow> rec | Some r \<Rightarrow> r))))))"

end
