(* ===== verification/SwapBnb.thy ===== *)
theory SwapBnb imports SwapBase begin

text \<open>
  Withdrawing BNB from the derived BSC address, and the log that remembers it (\<open>src/swap.rs\<close>):
  the parser of human amounts, the withdrawal, the balance with its reserve, and the history call that
  settles pending entries from their receipts.
\<close>

section \<open>Amounts\<close>

definition is_digit_char :: "char \<Rightarrow> bool" where
  "is_digit_char c \<longleftrightarrow> (let n = of_char c :: nat in 48 \<le> n \<and> n \<le> 57)"

fun split_dot :: "string \<Rightarrow> string \<times> string" where
  "split_dot [] = ([], [])"
| "split_dot (c # s) =
     (if c = CHR ''.'' then ([], s) else case split_dot s of (whole, frac) \<Rightarrow> (c # whole, frac))"

text \<open>At most 18 decimals; the digits are padded to 18 and parsed as one 256-bit integer.\<close>

definition parse_units_18 :: "world \<Rightarrow> string \<Rightarrow> nat res" where
  "parse_units_18 w s =
     (case split_dot (trim s) of (whole, frac) \<Rightarrow>
        if (whole = [] \<and> frac = []) \<or> \<not> list_all is_digit_char whole \<or> \<not> list_all is_digit_char frac then
          Inl (BadParams ''amount must be a decimal number'')
        else if length frac > 18 then Inl (BadParams ''USDT has at most 18 decimals'')
        else ok_or (BadParams ''bad amount: '')
               (parse_u256 w (whole @ frac @ replicate (18 - length frac) (CHR ''0''))))"

section \<open>Withdrawals\<close>

definition log_step :: "(unit res \<Rightarrow> bnb_log \<Rightarrow> bnb_log \<times> unit res) \<Rightarrow> unit step" where
  "log_step f = (\<lambda>w e.
     case f (storage (at w (calls e))) (bnb_txs e) of
       (l, r) \<Rightarrow> (e\<lparr>bnb_txs := l, calls := calls e + 1\<rparr>, r))"

text \<open>Everything but a reserve for the transfer's own gas, when asked for the whole balance.\<close>

definition withdrawal_amount :: "bytes \<Rightarrow> string \<Rightarrow> nat step" where
  "withdrawal_amount addr amount_human =
     (if trim amount_human = [] \<or> eq_ignore_case amount_human ''max'' then
        bind_step (ask (\<lambda>s. bnb_balance s addr)) (\<lambda>bal.
        bind_step (see sweep_gas_reserve) (\<lambda>reserve. ret (bal - reserve)))
      else pure_step (\<lambda>w. parse_units_18 w amount_human))"

definition send_bnb :: "string \<Rightarrow> string \<Rightarrow> string step" where
  "send_bnb to amount_human =
     bind_step (ask evm_secret) (\<lambda>secret.
     bind_step (pure_step (\<lambda>w. address_of w secret)) (\<lambda>addr.
     bind_step (withdrawal_amount addr amount_human) (\<lambda>amt.
     if amt = 0 then raise (BadParams ''nothing to send (zero BNB after gas reserve)'')
     else
     bind_step (send tx_reply (SendBnb to amt)) (\<lambda>h.
     bind_step (see clock_now) (\<lambda>now.
     bind_step (pure_step (\<lambda>w. Inr (checksum w addr))) (\<lambda>sender.
     bind_step (attempt (log_step (\<lambda>io. log_record io
       \<lparr>bt_hash = h, bt_direction = ''out'', bt_from = sender, bt_to = to, bt_amount_wei = amt, bt_status = ''pending'',
        bt_created_at = now, bt_updated_at = now\<rparr>))) (\<lambda>_.
     ret h)))))))"

definition bsc_balances :: "(nat \<times> nat) step" where
  "bsc_balances =
     bind_step (ask evm_secret) (\<lambda>secret.
     bind_step (pure_step (\<lambda>w. address_of w secret)) (\<lambda>addr.
     bind_step (ask (\<lambda>s. bnb_balance s addr)) (\<lambda>bnb.
     bind_step (see sweep_gas_reserve) (\<lambda>reserve. ret (bnb, reserve)))))"

text \<open>A pending entry is settled by its receipt: absent or unreadable leaves it pending.\<close>

definition settle_entry :: "string \<Rightarrow> unit step" where
  "settle_entry h =
     bind_step (attempt (ask (\<lambda>s. receipt_status s h))) (\<lambda>x.
     case x of
       Inl _ \<Rightarrow> ret ()
     | Inr None \<Rightarrow> ret ()
     | Inr (Some mined) \<Rightarrow>
         bind_step (see clock_now) (\<lambda>now.
         ignoring (log_step (\<lambda>io. log_set_status io h (if mined then ''confirmed'' else ''failed'') now))))"

definition bnb_tx_history :: "(u64 \<times> bnb_tx list) step" where
  "bnb_tx_history =
     bind_step (\<lambda>w e. (e, Inr (log_pending_hashes (bnb_txs e)))) (\<lambda>hs.
     bind_step (for_each hs settle_entry) (\<lambda>_.
     (\<lambda>w e. (e, Inr (bsc_chain_id w, log_list (bnb_txs e))))))"

end
