(* ===== verification/SwapMonitor.thy ===== *)
theory SwapMonitor imports SwapSettle SwapBnb begin

text \<open>
  The background work of the swap engine (\<open>src/swap.rs\<close>): the reconciliation passes, the sweeps that
  recover stranded locks without a record, the step the monitor makes for each open swap, and the
  engine as a transition system over everything that can happen to it.
\<close>

section \<open>Small steps\<close>

text \<open>The journal's lists.\<close>

definition all_records :: "swap_record list step" where
  "all_records = (\<lambda>w e. (e, Inr (journal_list (swaps e))))"

definition pending_records :: "swap_record list step" where
  "pending_records = (\<lambda>w e. (e, Inr (journal_pending (swaps e))))"

section \<open>Reconciliation\<close>

text \<open>Did our claim land?  \<open>None\<close> when that cannot be told.\<close>

definition claim_is_confirmed :: "swap_record \<Rightarrow> bool option step" where
  "claim_is_confirmed rec =
     (case direction rec of
        BnbToExfer \<Rightarrow>
          bind_step (pure_step (\<lambda>w. Inr (has_indexer w, crate w))) (\<lambda>(configured, ch).
          if \<not> configured then ret None
          else case our_exfer_address rec of None \<Rightarrow> ret None | Some from_exfer \<Rightarrow>
          bind_step (attempt (ask (\<lambda>s. load_signer s from_exfer))) (\<lambda>x. case x of Inl _ \<Rightarrow> ret None | Inr sg \<Rightarrow>
          bind_step (attempt (ask (\<lambda>s. htlc_lookup s (strip0x (hashlock rec))))) (\<lambda>y. case y of Inl _ \<Rightarrow> ret None
          | Inr htlcs \<Rightarrow>
          ret (case find (\<lambda>h. is_us ch sg from_exfer (receiver_of h)) htlcs of
                 None \<Rightarrow> None
               | Some pl \<Rightarrow>
                   if state_of pl = ''claimed'' then Some True
                   else if state_of pl \<in> {''locked'', ''reclaimed''} then Some False
                   else None))))
      | ExferToBnb \<Rightarrow>
         (case htlc_contract rec of None \<Rightarrow> ret None | Some htlc \<Rightarrow>
          bind_step (attempt (ask (\<lambda>s. get_htlc_swap s htlc (hashlock rec)))) (\<lambda>x.
          ret (case x of Inl _ \<Rightarrow> None
               | Inr oc \<Rightarrow> (case oc_state oc of HtlcClaimed \<Rightarrow> Some True | HtlcLocked \<Rightarrow> Some False
                           | HtlcRefunded \<Rightarrow> Some False | HtlcNone \<Rightarrow> None)))))"

definition completed_window_secs :: u64 where "completed_window_secs = 48 * 3600"
definition failed_window_secs :: u64 where "failed_window_secs = 14 * 24 * 3600"

definition reconcile_completed_record :: "u64 \<Rightarrow> swap_record \<Rightarrow> unit step" where
  "reconcile_completed_record now rec =
     (if status rec \<noteq> Completed \<or> saturating_sub now (updated_at rec) > completed_window_secs then ret ()
      else
      bind_step (claim_is_confirmed rec) (\<lambda>c.
      if c = Some False then
        ignoring (update_at now (swap_id rec) (\<lambda>r. r\<lparr>status := PoolLocked, swap_error := Some
          ''recovered: claim was not confirmed on-chain - re-settling''\<rparr>))
      else ret ()))"

definition reconcile_completed :: "unit step" where
  "reconcile_completed =
     bind_step (see clock_now) (\<lambda>now.
     bind_step all_records (\<lambda>rs. for_each rs (reconcile_completed_record now)))"

definition reconcile_failed_record :: "u64 \<Rightarrow> swap_record \<Rightarrow> unit step" where
  "reconcile_failed_record now rec =
     (if flow rec \<noteq> V2 \<or> status rec \<noteq> Failed
         \<or> saturating_sub now (updated_at rec) > failed_window_secs then ret ()
      else
      bind_step (attempt (ask (\<lambda>s. pool_get_swap s (swap_id rec)))) (\<lambda>x. case x of Inl _ \<Rightarrow> ret () | Inr pj \<Rightarrow>
      if pool_status_of pj = ''completed'' then
        ignoring (update_at now (swap_id rec) (\<lambda>r. r\<lparr>status := Completed, swap_error := None,
          claim_tx := (if claim_tx r = None then ps_claim_tx pj else claim_tx r)\<rparr>))
      else if pool_status_of pj = ''refunded'' then
        ignoring (update_at now (swap_id rec) (\<lambda>r. r\<lparr>status := if buy_locked rec then Refunding else Refunded,
          swap_error := None\<rparr>))
      else if pool_status_of pj \<in> {''user_locked'', ''pool_locked'', ''preimage_seen''} then
        ignoring (update_at now (swap_id rec) (\<lambda>r. r\<lparr>status := UserLocked, swap_error := Some
          ''recovered: pool has this swap in flight - re-settling''\<rparr>))
      else ret ()))"

definition reconcile_failed_v2 :: "unit step" where
  "reconcile_failed_v2 =
     bind_step (see clock_now) (\<lambda>now.
     bind_step all_records (\<lambda>rs. for_each rs (reconcile_failed_record now)))"

section \<open>Sweeps\<close>

record reclaimable_lock =
  rl_lock_tx :: bytes
  rl_output_index :: u32
  rl_receiver :: bytes
  rl_hashlock :: bytes
  rl_timeout :: u64
  rl_hashlock_0x :: string

definition hash_or_none :: "chain \<Rightarrow> string \<Rightarrow> bytes option" where
  "hash_or_none ch s = (case decode_hash ch (strip0x s) of Inl _ \<Rightarrow> None | Inr b \<Rightarrow> Some b)"

definition u32_try_from :: "u64 \<Rightarrow> u32 option" where
  "u32_try_from n = (if unat n < 2 ^ 32 then Some (ucast n) else None)"

definition decode_reclaimable_lock ::
    "chain \<Rightarrow> string \<Rightarrow> u64 \<Rightarrow> indexed_htlc \<Rightarrow> reclaimable_lock option" where
  "decode_reclaimable_lock ch my_pubkey tip h =
     Option.bind (ih_params h) (\<lambda>p.
     if \<not> eq_ignore_case (or_empty (ip_sender p)) my_pubkey then None
     else if ih_claim h \<noteq> None \<or> ih_reclaim h \<noteq> None then None
     else
     Option.bind (ip_timeout p) (\<lambda>timeout.
     if tip \<le> timeout then None
     else
     Option.bind (ih_lock_tx h) (\<lambda>lock_tx_hex.
     Option.bind (Option.bind (ih_output_index h) u32_try_from) (\<lambda>ix.
     Option.bind (ip_receiver p) (\<lambda>receiver_hex.
     Option.bind (ip_hash_lock p) (\<lambda>hashlock_hex.
     Option.bind (hash_or_none ch lock_tx_hex) (\<lambda>lock_tx.
     Option.bind (hash_or_none ch receiver_hex) (\<lambda>receiver.
     Option.bind (hash_or_none ch hashlock_hex) (\<lambda>hlock.
     Some \<lparr>rl_lock_tx = lock_tx, rl_output_index = ix, rl_receiver = receiver, rl_hashlock = hlock,
           rl_timeout = timeout, rl_hashlock_0x = ''0x'' @ strip0x hashlock_hex\<rparr>)))))))))"

text \<open>Mirroring a recovery into the journal: the newest open record under the hashlock, if there is one.\<close>

definition mirror_recovery :: "string \<Rightarrow> string \<Rightarrow> unit step" where
  "mirror_recovery hlock tx =
     bind_step all_records (\<lambda>rs.
     case find (\<lambda>r. eq_ignore_case (hashlock r) hlock \<and> \<not> is_terminal r) rs of
       None \<Rightarrow> ret ()
     | Some rec \<Rightarrow> ignoring (update (swap_id rec) (\<lambda>r. r\<lparr>status := Refunded, refund_tx := Some tx\<rparr>)))"

text \<open>\<open>insert\<close> on a session's set of broadcasts, which answers whether the key is new; and \<open>remove\<close>.\<close>

definition mark_lock :: "bytes \<times> u32 \<Rightarrow> bool step" where
  "mark_lock k = (\<lambda>w e. (e\<lparr>swept_locks := insert k (swept_locks e)\<rparr>, Inr (k \<notin> swept_locks e)))"

definition unmark_lock :: "bytes \<times> u32 \<Rightarrow> unit step" where
  "unmark_lock k = (\<lambda>w e. (e\<lparr>swept_locks := swept_locks e - {k}\<rparr>, Inr ()))"

definition mark_bnb :: "string \<Rightarrow> bool step" where
  "mark_bnb k = (\<lambda>w e. (e\<lparr>swept_bnb := insert k (swept_bnb e)\<rparr>, Inr (k \<notin> swept_bnb e)))"

definition unmark_bnb :: "string \<Rightarrow> unit step" where
  "unmark_bnb k = (\<lambda>w e. (e\<lparr>swept_bnb := swept_bnb e - {k}\<rparr>, Inr ()))"

definition sweep_row :: "signer \<Rightarrow> u64 \<Rightarrow> indexed_htlc \<Rightarrow> unit step" where
  "sweep_row sg tip h =
     bind_step (pure_step (\<lambda>w. Inr (decode_reclaimable_lock (crate w)
                                     (hex_encode (crate w) (signer_pubkey sg)) tip h))) (\<lambda>x.
     case x of None \<Rightarrow> ret () | Some l \<Rightarrow>
     bind_step (mark_lock (rl_lock_tx l, rl_output_index l)) (\<lambda>fresh.
     if \<not> fresh then ret ()
     else
     bind_step (attempt (send tx_reply (ReclaimExfer (signer_pubkey sg) (rl_lock_tx l) (rl_output_index l)
                                          (rl_receiver l) (rl_hashlock l) (rl_timeout l)))) (\<lambda>y.
     case y of Inr tx \<Rightarrow> mirror_recovery (rl_hashlock_0x l) tx
             | Inl _ \<Rightarrow> unmark_lock (rl_lock_tx l, rl_output_index l))))"

definition sweep_wallet :: "u64 \<Rightarrow> string \<Rightarrow> unit step" where
  "sweep_wallet tip addr =
     bind_step (attempt (ask (\<lambda>s. load_signer s addr))) (\<lambda>x. case x of Inl _ \<Rightarrow> ret () | Inr sg \<Rightarrow>
     bind_step (pure_step (\<lambda>w. Inr (hex_encode (crate w) (signer_pubkey sg)))) (\<lambda>my_pubkey.
     bind_step (attempt (ask (\<lambda>s. htlc_list s my_pubkey))) (\<lambda>y. case y of Inl _ \<Rightarrow> ret () | Inr rows \<Rightarrow>
     for_each rows (sweep_row sg tip))))"

definition sweep_stranded_locks :: "unit step" where
  "sweep_stranded_locks =
     bind_step (pure_step (\<lambda>w. Inr (has_indexer w))) (\<lambda>configured.
     if \<not> configured then ret ()
     else
     bind_step (attempt (ask block_height)) (\<lambda>x. case x of Inl _ \<Rightarrow> ret () | Inr tip \<Rightarrow>
     bind_step (attempt (ask wallet_list)) (\<lambda>y. case y of Inl _ \<Rightarrow> ret () | Inr addrs \<Rightarrow>
     for_each addrs (sweep_wallet tip))))"

definition bsc_htlc_for_chain :: "u64 \<Rightarrow> (string \<times> u64) option" where
  "bsc_htlc_for_chain c =
     (if c = 56 then Some (''0x4FdfB5f599cB84b87693aCCA1B9D57f5236e2E3d'', 104440000)
      else if c = 97 then Some (''0xBAd7f057c8196fF1b724fa1D8cb9D2397780E54d'', 0)
      else None)"

definition sweep_from :: "u64 \<Rightarrow> u64 \<Rightarrow> u64" where
  "sweep_from cursor deploy_block =
     (if cursor = 0 then deploy_block
      else max (saturating_sub cursor bsc_sweep_reorg_margin) deploy_block)"

definition sweep_hashlock :: "string \<Rightarrow> u64 \<Rightarrow> string \<Rightarrow> unit step" where
  "sweep_hashlock contract now_ts hlock =
     bind_step (attempt (ask (\<lambda>s. get_htlc_swap s contract hlock))) (\<lambda>x. case x of Inl _ \<Rightarrow> ret () | Inr sw \<Rightarrow>
     if oc_state sw \<noteq> HtlcLocked \<or> now_ts < oc_timeout_sec sw then ret ()
     else
     bind_step (mark_bnb (lower hlock)) (\<lambda>fresh.
     if \<not> fresh then ret ()
     else
     bind_step (attempt (send tx_reply (RefundBnb contract hlock))) (\<lambda>y.
     case y of Inr tx \<Rightarrow> mirror_recovery hlock tx | Inl _ \<Rightarrow> unmark_bnb (lower hlock))))"

definition sweep_stranded_bnb_locks :: "unit step" where
  "sweep_stranded_bnb_locks =
     bind_step (pure_step (\<lambda>w. Inr (bsc_htlc_for_chain (bsc_chain_id w)))) (\<lambda>c.
     case c of None \<Rightarrow> ret () | Some (contract, deploy_block) \<Rightarrow>
     bind_step (attempt (ask evm_secret)) (\<lambda>x. case x of Inl _ \<Rightarrow> ret () | Inr secret \<Rightarrow>
     bind_step (attempt (pure_step (\<lambda>w. address_of w secret))) (\<lambda>y. case y of Inl _ \<Rightarrow> ret () | Inr our \<Rightarrow>
     bind_step (attempt (ask block_number)) (\<lambda>z. case z of Inl _ \<Rightarrow> ret () | Inr tip \<Rightarrow>
     bind_step (\<lambda>w e. (e, Inr (sweep_from (bsc_sweep_cursor e) deploy_block))) (\<lambda>start.
     if start > tip then ret ()
     else
     bind_step (attempt (ask (\<lambda>s. locked_hashlocks s contract our start tip))) (\<lambda>hs. case hs of Inl _ \<Rightarrow> ret ()
     | Inr hashlocks \<Rightarrow>
     bind_step (attempt (ask block_timestamp)) (\<lambda>t. case t of Inl _ \<Rightarrow> ret () | Inr now_ts \<Rightarrow>
     bind_step (for_each hashlocks (sweep_hashlock contract now_ts)) (\<lambda>_.
     (\<lambda>w e. (e\<lparr>bsc_sweep_cursor := tip + 1\<rparr>, Inr ()))))))))))"

definition repair_record :: "u64 \<Rightarrow> swap_record \<Rightarrow> unit step" where
  "repair_record now rec =
     (if direction rec \<noteq> BnbToExfer \<or> user_lock_tx rec = None then ret ()
      else if status rec \<notin> {Refunded, Failed} then ret ()
      else case htlc_contract rec of None \<Rightarrow> ret () | Some htlc \<Rightarrow>
      bind_step (attempt (ask (\<lambda>s. get_htlc_swap s htlc (hashlock rec)))) (\<lambda>x. case x of Inl _ \<Rightarrow> ret () | Inr oc \<Rightarrow>
      if oc_state oc = HtlcLocked \<and> now \<ge> oc_timeout_sec oc then
        ignoring (update (swap_id rec) (\<lambda>r. r\<lparr>status := Refunding\<rparr>))
      else ret ()))"

definition repair_stranded_bnb_refunds :: "unit step" where
  "repair_stranded_bnb_refunds =
     bind_step (attempt (ask block_timestamp)) (\<lambda>x. case x of Inl _ \<Rightarrow> ret () | Inr now \<Rightarrow>
     bind_step all_records (\<lambda>rs. for_each rs (repair_record now)))"

definition recover_lock :: "u64 \<Rightarrow> stranded_lock \<Rightarrow> unit step" where
  "recover_lock now l =
     bind_step (attempt (ask (\<lambda>s. get_htlc_swap s (sl_contract l) (sl_hashlock l)))) (\<lambda>x. case x of Inl _ \<Rightarrow> ret ()
     | Inr oc \<Rightarrow>
     if oc_state oc \<noteq> HtlcLocked \<or> now < oc_timeout_sec oc then ret ()
     else
     bind_step (mark_bnb (lower (sl_hashlock l))) (\<lambda>fresh.
     if \<not> fresh then ret ()
     else
     bind_step (attempt (send tx_reply (RefundBnb (sl_contract l) (sl_hashlock l)))) (\<lambda>y.
     case y of Inr _ \<Rightarrow> ret () | Inl _ \<Rightarrow> unmark_bnb (lower (sl_hashlock l)))))"

definition recover_stranded_bnb_via_pool :: "unit step" where
  "recover_stranded_bnb_via_pool =
     bind_step (attempt (ask evm_secret)) (\<lambda>x. case x of Inl _ \<Rightarrow> ret () | Inr secret \<Rightarrow>
     bind_step (attempt (pure_step (\<lambda>w. address_of w secret))) (\<lambda>y. case y of Inl _ \<Rightarrow> ret () | Inr our \<Rightarrow>
     bind_step (attempt (ask (\<lambda>s. pool_stranded s our))) (\<lambda>z. case z of Inl _ \<Rightarrow> ret () | Inr locks \<Rightarrow>
     if locks = [] then ret ()
     else
     bind_step (attempt (ask block_timestamp)) (\<lambda>t.
     bind_step (case t of Inr n \<Rightarrow> ret n | Inl _ \<Rightarrow> see clock_now) (\<lambda>now.
     for_each locks (recover_lock now))))))"

definition recovery_passes :: "unit step" where
  "recovery_passes =
     bind_step reconcile_completed (\<lambda>_.
     bind_step reconcile_failed_v2 (\<lambda>_.
     bind_step sweep_stranded_locks (\<lambda>_.
     bind_step sweep_stranded_bnb_locks (\<lambda>_.
     bind_step repair_stranded_bnb_refunds (\<lambda>_.
     recover_stranded_bnb_via_pool)))))"

section \<open>The monitor\<close>

definition refund_statuses :: "swap_status set" where
  "refund_statuses = {UserLocked, PoolLocked, Claiming, Refunding}"

text \<open>\<open>matches!(status, ..) && refundable(..)\<close>: the chain is asked only in those states.\<close>

definition overdue :: "swap_record \<Rightarrow> bool step" where
  "overdue rec = (if status rec \<in> refund_statuses then refundable rec else ret False)"

definition monitor_v2 :: "swap_record \<Rightarrow> unit step" where
  "monitor_v2 rec =
     bind_step (attempt (advance rec)) (\<lambda>_.
     bind_step (lookup (swap_id rec)) (\<lambda>x.
     let now_rec = (case x of None \<Rightarrow> rec | Some r \<Rightarrow> r) in
     bind_step (overdue now_rec) (\<lambda>late.
     if late then ignoring (refund (swap_id now_rec)) else ret ())))"

text \<open>Past the deadline: a claim that landed completes the swap, otherwise our lock is reclaimed.\<close>

definition settle_or_refund :: "swap_record \<Rightarrow> unit step" where
  "settle_or_refund rec =
     bind_step (if status rec \<in> {PoolLocked, Claiming} then claim_is_confirmed rec else ret None) (\<lambda>c.
     if c = Some True then ignoring (advance rec) else ignoring (refund (swap_id rec)))"

definition monitor_record :: "swap_record \<Rightarrow> unit step" where
  "monitor_record rec =
     (if status rec = Quoted then
        bind_step (see clock_now) (\<lambda>now.
        if now \<ge> expires_at rec then ignoring (remove (swap_id rec)) else ret ())
      else if flow rec = V2 then monitor_v2 rec
      else
      bind_step (overdue rec) (\<lambda>late.
      if late then settle_or_refund rec else ignoring (advance rec)))"

text \<open>One turn of the loop; \<open>due\<close> says whether \<open>RECONCILE_EVERY\<close> has passed.\<close>

definition monitor_turn :: "bool \<Rightarrow> unit step" where
  "monitor_turn due =
     bind_step (if due then recovery_passes else ret ()) (\<lambda>_.
     bind_step pending_records (\<lambda>rs. for_each rs monitor_record))"

section \<open>The engine as a transition system\<close>

text \<open>A new engine over what the files hold.\<close>

definition new_engine :: "swap_map \<Rightarrow> bnb_tx list \<Rightarrow> nat \<Rightarrow> action list \<Rightarrow> engine" where
  "new_engine file txs n tr =
     \<lparr>swaps = journal_open file, bnb_txs = \<lparr>log_records = txs, log_sealed = txs\<rparr>, swept_locks = {},
      swept_bnb = {}, bsc_sweep_cursor = 0, calls = n, trace = tr\<rparr>"

definition restart :: "engine \<Rightarrow> engine" where
  "restart e = new_engine (sealed (swaps e)) (log_sealed (bnb_txs e)) (calls e) (trace e)"

text \<open>
  What can happen: a call of the swap API, a turn of the monitor, and a restart of the daemon, which
  starts with the recovery passes.  One thing happens at a time; the daemon orders the steps on one
  swap by a lock for each swap.
\<close>

datatype event =
    GetQuote direction string string flow
  | Execute string
  | Refund string
  | WithdrawBnb string string
  | BnbHistory
  | MonitorTurn bool
  | Recovery
  | Restart

fun happen :: "event \<Rightarrow> world \<Rightarrow> engine \<Rightarrow> engine" where
  "happen (GetQuote dir amt addr fl) w e = after (get_quote dir amt addr fl) w e"
| "happen (Execute i) w e = after (execute i) w e"
| "happen (Refund i) w e = after (refund i) w e"
| "happen (WithdrawBnb to amt) w e = after (send_bnb to amt) w e"
| "happen BnbHistory w e = after bnb_tx_history w e"
| "happen (MonitorTurn due) w e = after (monitor_turn due) w e"
| "happen Recovery w e = after recovery_passes w e"
| "happen Restart w e = restart e"

inductive reachable :: "world \<Rightarrow> engine \<Rightarrow> bool" for w where
  start: "reachable w (new_engine [] [] 0 [])"
| step: "reachable w e \<Longrightarrow> reachable w (happen ev w e)"

end
