(* ===== verification/SwapSafety.thy ===== *)
theory SwapSafety imports SwapMonitor begin

text \<open>
  Safety of the swap engine over everything that can happen to it.  The invariant ties each record
  and each traced call to the answers of the chains that justify it; it is proved for every step,
  and the theorems read it off.
\<close>

section \<open>Predicates that steps keep\<close>

text \<open>A step from which a predicate on engines survives, whatever the step ends in.\<close>

definition keeps :: "(engine \<Rightarrow> bool) \<Rightarrow> world \<Rightarrow> 'a step \<Rightarrow> bool" where
  "keeps P w m \<longleftrightarrow> (\<forall>e. P e \<longrightarrow> wp m w e (\<lambda>e1 _. P e1))"

named_theorems keeps_intros \<open>composition of keeps steps\<close>

lemma keepsI: "(\<And>e. P e \<Longrightarrow> wp m w e (\<lambda>e1 _. P e1)) \<Longrightarrow> keeps P w m"
  by (simp add: keeps_def)

lemma keepsD: "keeps P w m \<Longrightarrow> P e \<Longrightarrow> P (after m w e)"
  by (simp add: keeps_def wp_run)

lemma keeps_ret [keeps_intros]: "keeps P w (ret x)"
  by (simp add: keeps_def wp_simps)

lemma keeps_raise [keeps_intros]: "keeps P w (raise d)"
  by (simp add: keeps_def wp_simps)

lemma keeps_pure [keeps_intros]: "keeps P w (pure_step f)"
  by (simp add: keeps_def wp_simps)

lemma keeps_need [keeps_intros]: "keeps P w (need d x)"
  by (simp add: keeps_def wp_simps split: option.split)

lemma keeps_decode [keeps_intros]: "keeps P w (decode_hash_step s)" "keeps P w (hash256_from_hex s)"
  by (simp_all add: keeps_def wp_simps)

lemma keeps_lookup [keeps_intros]: "keeps P w (lookup i)"
  by (simp add: keeps_def wp_simps)

lemma keeps_records [keeps_intros]: "keeps P w all_records" "keeps P w pending_records"
  by (simp_all add: keeps_def wp_def all_records_def pending_records_def)

lemma keeps_same: "keeps P w (\<lambda>w e. (e, Inr (g w e)))"
  by (simp add: keeps_def wp_def)

lemma keeps_attempt [keeps_intros]: "keeps P w m \<Longrightarrow> keeps P w (attempt m)"
  by (simp add: keeps_def wp_simps)

lemma keeps_bind [keeps_intros]:
  assumes "keeps P w m" "\<And>x. keeps P w (f x)"
  shows "keeps P w (bind_step m f)"
proof (rule keepsI)
  fix e
  assume "P e"
  with assms(1) have "wp m w e (\<lambda>e1 _. P e1)" by (simp add: keeps_def)
  then show "wp (bind_step m f) w e (\<lambda>e1 _. P e1)"
    unfolding wp_bind using assms(2)
    by (elim wp_mono) (auto simp: keeps_def split: sum.split)
qed

lemma keeps_if [keeps_intros]:
  "(c \<Longrightarrow> keeps P w m) \<Longrightarrow> (\<not> c \<Longrightarrow> keeps P w n) \<Longrightarrow> keeps P w (if c then m else n)"
  by simp

lemma keeps_option [keeps_intros]:
  "(x = None \<Longrightarrow> keeps P w m) \<Longrightarrow> (\<And>y. x = Some y \<Longrightarrow> keeps P w (f y)) \<Longrightarrow>
   keeps P w (case x of None \<Rightarrow> m | Some y \<Rightarrow> f y)"
  by (cases x) auto

lemma keeps_sum [keeps_intros]:
  "(\<And>d. x = Inl d \<Longrightarrow> keeps P w (g d)) \<Longrightarrow> (\<And>y. x = Inr y \<Longrightarrow> keeps P w (f y)) \<Longrightarrow>
   keeps P w (case x of Inl d \<Rightarrow> g d | Inr y \<Rightarrow> f y)"
  by (cases x) auto

lemma keeps_prod [keeps_intros]:
  "(\<And>a b. x = (a, b) \<Longrightarrow> keeps P w (f a b)) \<Longrightarrow> keeps P w (case x of (a, b) \<Rightarrow> f a b)"
  by (cases x) auto

lemma keeps_direction [keeps_intros]:
  "(d = ExferToBnb \<Longrightarrow> keeps P w m) \<Longrightarrow> (d = BnbToExfer \<Longrightarrow> keeps P w n) \<Longrightarrow>
   keeps P w (case d of ExferToBnb \<Rightarrow> m | BnbToExfer \<Rightarrow> n)"
  by (cases d) auto

lemma keeps_flow [keeps_intros]:
  "(d = V1 \<Longrightarrow> keeps P w m) \<Longrightarrow> (d = V2 \<Longrightarrow> keeps P w n) \<Longrightarrow>
   keeps P w (case d of V1 \<Rightarrow> m | V2 \<Rightarrow> n)"
  by (cases d) auto

lemma keeps_list [keeps_intros]:
  "(x = [] \<Longrightarrow> keeps P w m) \<Longrightarrow> (\<And>y ys. x = y # ys \<Longrightarrow> keeps P w (f y ys)) \<Longrightarrow>
   keeps P w (case x of [] \<Rightarrow> m | y # ys \<Rightarrow> f y ys)"
  by (cases x) auto

lemma keeps_for_each [keeps_intros]:
  assumes "\<And>x. x \<in> set xs \<Longrightarrow> keeps P w (f x)"
  shows "keeps P w (for_each xs f)"
proof (rule keepsI)
  fix e
  assume "P e"
  then show "wp (for_each xs f) w e (\<lambda>e1 _. P e1)"
    by (rule wp_for_each_invariant) (use assms in \<open>auto simp: keeps_def\<close>)
qed

lemma keeps_ignoring [keeps_intros]: "keeps P w m \<Longrightarrow> keeps P w (ignoring m)"
  unfolding ignoring_def by (intro keeps_intros)

text \<open>
  A predicate that does not depend on the numbering of the calls and on what a session remembers:
  reading is keeps for it, and so are the sweeps' bookkeeping steps.
\<close>

locale journal_predicate =
  fixes P :: "engine \<Rightarrow> bool" and w :: world
  assumes call: "P e \<Longrightarrow> P (e\<lparr>calls := calls e + 1\<rparr>)"
    and session: "P e \<Longrightarrow> P (e\<lparr>swept_locks := A\<rparr>)" "P e \<Longrightarrow> P (e\<lparr>swept_bnb := B\<rparr>)"
      "P e \<Longrightarrow> P (e\<lparr>bsc_sweep_cursor := c\<rparr>)" "P e \<Longrightarrow> P (e\<lparr>bnb_txs := l\<rparr>)"
begin

lemma keeps_see: "keeps P w (see f)"
  by (simp add: keeps_def wp_simps call del: One_nat_def)

lemma keeps_ask: "keeps P w (ask f)"
  by (simp add: keeps_def wp_simps call del: One_nat_def)

lemma keeps_marks:
  "keeps P w (mark_lock k)" "keeps P w (unmark_lock k)" "keeps P w (mark_bnb h)"
  "keeps P w (unmark_bnb h)"
  by (simp_all add: keeps_def wp_def mark_lock_def unmark_lock_def mark_bnb_def unmark_bnb_def session)

lemma keeps_cursor:
  "keeps P w (\<lambda>w e. (e\<lparr>bsc_sweep_cursor := c\<rparr>, Inr ()))" "keeps P w (\<lambda>w e. (e, Inr (g e)))"
  by (simp_all add: keeps_def wp_def session)

lemma keeps_log: "keeps P w (log_step f)"
proof (rule keepsI)
  fix e
  assume "P e"
  from call [OF session(4) [OF this]] show "wp (log_step f) w e (\<lambda>e1 _. P e1)"
    by (simp add: wp_def log_step_def split: prod.split del: One_nat_def)
qed

lemmas keeps_reads = keeps_see keeps_ask keeps_marks keeps_cursor keeps_log

text \<open>The steps that only look.\<close>

lemma keeps_looks:
  "keeps P w (verify_pool_bsc_lock rec)" "keeps P w (verify_pool_exfer_lock rec)"
  "keeps P w (our_exfer_lock_indexed rec addr sg)" "keeps P w (our_bnb_lock_on_chain rec)"
  "keeps P w (sell_lock_state rec)" "keeps P w (indexed_pool_lock rec)"
  "keeps P w (prior_claim_live rec)" "keeps P w (refundable rec)"
  "keeps P w (reclaim_pending rec)" "keeps P w (claim_is_confirmed rec)"
  "keeps P w (overdue rec)" "keeps P w (quote_keys addr)"
  "keeps P w (ask_quote dir amt h a p fl)"
  unfolding verify_pool_bsc_lock_def verify_pool_exfer_lock_def our_exfer_lock_indexed_def
    our_bnb_lock_on_chain_def sell_lock_state_def indexed_pool_lock_def prior_claim_live_def
    refundable_def reclaim_pending_def claim_is_confirmed_def overdue_def quote_keys_def
    ask_quote_def verify_pool_exfer_lock_via_node_def verify_pool_exfer_lock_via_indexer_def Let_def
  by (intro keeps_intros keeps_reads)+

end


section \<open>What the chains have shown\<close>

text \<open>The fields of a record that no step changes.\<close>

definition static :: "swap_record \<Rightarrow> swap_record" where
  "static r = r\<lparr>status := Quoted, user_lock_tx := None, pool_lock_ref := None, claim_tx := None,
                refund_tx := None, swap_error := None, updated_at := 0\<rparr>"

lemma static_progress [simp]:
  "static (r\<lparr>status := s\<rparr>) = static r" "static (r\<lparr>user_lock_tx := x\<rparr>) = static r"
  "static (r\<lparr>pool_lock_ref := x\<rparr>) = static r" "static (r\<lparr>claim_tx := x\<rparr>) = static r"
  "static (r\<lparr>refund_tx := x\<rparr>) = static r" "static (r\<lparr>swap_error := x\<rparr>) = static r"
  "static (r\<lparr>updated_at := t\<rparr>) = static r"
  by (simp_all add: static_def)

lemma static_fields:
  assumes "static r = static s"
  shows "swap_id r = swap_id s" "flow r = flow s" "direction r = direction s"
    "hashlock r = hashlock s" "htlc_contract r = htlc_contract s"
    "our_bsc_address r = our_bsc_address s" "amount_out_units r = amount_out_units s"
    "preimage r = preimage s"
  using assms by (auto simp: static_def dest: arg_cong [where f = swap_id] arg_cong [where f = flow]
    arg_cong [where f = direction] arg_cong [where f = hashlock] arg_cong [where f = htlc_contract]
    arg_cong [where f = our_bsc_address] arg_cong [where f = amount_out_units]
    arg_cong [where f = preimage])

text \<open>
  The answer to call \<open>k\<close>, a read of the BSC contract, and the clock at call \<open>j\<close> pass the reveal gate
  for this swap; and: they did so, in this order, before call \<open>n\<close>.
\<close>

definition sell_gate_at :: "world \<Rightarrow> nat \<Rightarrow> nat \<Rightarrow> swap_record \<Rightarrow> bool" where
  "sell_gate_at w k j r \<longleftrightarrow>
     (\<exists>htlc a our want oc. htlc_contract r = Some htlc \<and> our_bsc_address r = Some a
        \<and> parse_address w a = Some our \<and> parse_u256 w (amount_out_units r) = Some want
        \<and> get_htlc_swap (at w k) htlc (hashlock r) = Inr oc
        \<and> pool_lock_safe_to_claim oc our want (clock_now (at w j)))"

definition sell_gate_seen :: "world \<Rightarrow> nat \<Rightarrow> swap_record \<Rightarrow> bool" where
  "sell_gate_seen w n r \<longleftrightarrow> (\<exists>k j. k < j \<and> j < n \<and> sell_gate_at w k j r)"

text \<open>
  In the answer to call \<open>k\<close> the indexer shows an unsettled lock under the swap's hashlock that pays
  the claiming key and covers the quote, and at call \<open>j\<close> the tip is far enough from its timeout.
\<close>

definition buy_gate_at :: "world \<Rightarrow> nat \<Rightarrow> nat \<Rightarrow> swap_record \<Rightarrow> bytes \<Rightarrow> u64 \<Rightarrow> bool" where
  "buy_gate_at w k j r key limit \<longleftrightarrow>
     (\<exists>sg htlcs pl amt want tip.
        htlc_lookup (at w k) (strip0x (hashlock r)) = Inr htlcs \<and> pl \<in> set htlcs
        \<and> signer_pubkey sg = key \<and> is_us (crate w) sg (or_empty (our_exfer_address r)) (receiver_of pl)
        \<and> state_of pl \<noteq> ''claimed'' \<and> state_of pl \<noteq> ''reclaimed'' \<and> timeout_of pl = limit
        \<and> ih_amount pl = Some amt \<and> parse_u64_string (amount_out_units r) = Some want \<and> want \<le> amt
        \<and> block_height (at w j) = Inr tip \<and> tip + min_exfer_lock_blocks \<le> limit)"

definition buy_gate_seen :: "world \<Rightarrow> nat \<Rightarrow> swap_record \<Rightarrow> bytes \<Rightarrow> u64 \<Rightarrow> bool" where
  "buy_gate_seen w n r key limit \<longleftrightarrow> (\<exists>k j. k < j \<and> j < n \<and> buy_gate_at w k j r key limit)"

text \<open>
  The pool's EXFER lock of a reversed buy, as it is verified before we lock our BNB: read from the
  node, in a block, at call \<open>k\<close>, or from the indexer; with the tip at call \<open>j\<close>.
\<close>

definition node_lock_at :: "world \<Rightarrow> nat \<Rightarrow> nat \<Rightarrow> swap_record \<Rightarrow> bool" where
  "node_lock_at w k j r \<longleftrightarrow>
     (\<exists>txid st h out sg tip. node_transaction (at w k) txid = Inr (Some st)
        \<and> ts_block_height st = Some h \<and> h \<noteq> 0 \<and> first_htlc w (ts_hex st) = Some out
        \<and> node_lock_ok (crate w) sg (or_empty (our_exfer_address r)) r out
        \<and> block_height (at w j) = Inr tip \<and> tip + min_exfer_lock_blocks \<le> ho_timeout out)"

definition pool_lock_seen :: "world \<Rightarrow> nat \<Rightarrow> swap_record \<Rightarrow> bool" where
  "pool_lock_seen w n r \<longleftrightarrow>
     (\<exists>k j. k < j \<and> j < n \<and> (node_lock_at w k j r \<or> (\<exists>key limit. buy_gate_at w k j r key limit)))"

definition reveals_settle :: "swap_status \<Rightarrow> bool" where
  "reveals_settle s \<longleftrightarrow> s \<in> {PoolLocked, Claiming, Completed}"

definition sell_v1 :: "swap_record \<Rightarrow> bool" where
  "sell_v1 r \<longleftrightarrow> flow r = V1 \<and> direction r = ExferToBnb"

text \<open>In the first flow the preimage is ours, and the hashlock is its hash.\<close>

definition own_secret :: "world \<Rightarrow> swap_record \<Rightarrow> bool" where
  "own_secret w r \<longleftrightarrow>
     (\<exists>pre. preimage r = ''0x'' @ hex_encode (crate w) pre
          \<and> hashlock r = ''0x'' @ hex_encode (crate w) (sha256 w pre))"

text \<open>A sell of the first flow is past \<open>UserLocked\<close> only when its gate was seen.\<close>

definition well_backed :: "world \<Rightarrow> nat \<Rightarrow> swap_record \<Rightarrow> bool" where
  "well_backed w n r \<longleftrightarrow> (flow r = V1 \<longrightarrow> own_secret w r)
     \<and> (sell_v1 r \<and> reveals_settle (status r) \<longrightarrow> sell_gate_seen w n r)"

text \<open>A swap we may lock for: one whose secret is ours, or one whose pool lock was verified.\<close>

definition lockable :: "world \<Rightarrow> nat \<Rightarrow> swap_record \<Rightarrow> bool" where
  "lockable w n r \<longleftrightarrow>
     own_secret w r
     \<or> (case direction r of ExferToBnb \<Rightarrow> sell_gate_seen w n r | BnbToExfer \<Rightarrow> pool_lock_seen w n r)"

text \<open>What must have been seen before a call is made.\<close>

fun justified :: "world \<Rightarrow> nat \<Rightarrow> action \<Rightarrow> bool" where
  "justified w n (RelayClaim i p) =
     (\<exists>r. swap_id r = i \<and> preimage r = p \<and> sell_v1 r \<and> own_secret w r \<and> sell_gate_seen w n r)"
| "justified w n (ClaimBnb c p) =
     (\<exists>r. htlc_contract r = Some c \<and> preimage r = p \<and> sell_v1 r \<and> own_secret w r
          \<and> sell_gate_seen w n r)"
| "justified w n (ClaimExfer key tx pre sender limit) =
     (\<exists>r. hex_decode (crate w) (strip0x (preimage r)) = Some pre \<and> own_secret w r
          \<and> buy_gate_seen w n r key limit)"
| "justified w n (LockExfer key payee h limit amt) =
     ((\<exists>k < n. \<exists>tip. block_height (at w k) = Inr tip \<and> tip + min_exfer_lock_blocks \<le> limit)
      \<and> (\<exists>r. decode_hash (crate w) (strip0x (hashlock r)) = Inr h \<and> direction r = ExferToBnb
           \<and> lockable w n r))"
| "justified w n (LockBnb c h payee amt limit) =
     ((\<exists>k < n. clock_now (at w k) + min_bsc_lock_secs \<le> limit)
      \<and> (\<exists>k < n. \<exists>a b. bnb_balance (at w k) a = Inr b \<and> amt < b)
      \<and> (\<exists>r. hashlock r = h \<and> direction r = BnbToExfer \<and> lockable w n r))"
| "justified w n (RefundBnb c h) =
     (\<exists>k < n. \<exists>oc. get_htlc_swap (at w k) c h = Inr oc \<and> oc_state oc = HtlcLocked)"
| "justified w n _ = True"

lemma sell_gate_seen_mono: "sell_gate_seen w m r \<Longrightarrow> m \<le> n \<Longrightarrow> sell_gate_seen w n r"
  by (auto simp: sell_gate_seen_def dest: less_le_trans)

lemma buy_gate_seen_mono: "buy_gate_seen w m r key t \<Longrightarrow> m \<le> n \<Longrightarrow> buy_gate_seen w n r key t"
  by (auto simp: buy_gate_seen_def dest: less_le_trans)

lemma lockable_mono: "lockable w m r \<Longrightarrow> m \<le> n \<Longrightarrow> lockable w n r"
  unfolding lockable_def pool_lock_seen_def
  by (cases "direction r") (auto intro: sell_gate_seen_mono dest: less_le_trans)

lemma well_backed_mono: "well_backed w m r \<Longrightarrow> m \<le> n \<Longrightarrow> well_backed w n r"
  by (auto simp: well_backed_def intro: sell_gate_seen_mono)

lemma justified_mono: "justified w m a \<Longrightarrow> m \<le> n \<Longrightarrow> justified w n a"
  by (cases a) (auto intro: sell_gate_seen_mono buy_gate_seen_mono lockable_mono dest: less_le_trans)

lemma sell_gate_seen_static:
  assumes "static r = static s"
  shows "sell_gate_seen w n r = sell_gate_seen w n s"
  by (simp only: sell_gate_seen_def sell_gate_at_def static_fields [OF assms])

lemma sell_v1_static: "static r = static s \<Longrightarrow> sell_v1 r = sell_v1 s"
  unfolding sell_v1_def by (metis static_fields(2,3))

lemma own_secret_static:
  assumes "static r = static s"
  shows "own_secret w r = own_secret w s" "flow r = flow s"
  by (simp_all only: own_secret_def static_fields [OF assms])

lemma well_backed_progress:
  assumes "static q = static r" "well_backed w n r"
    "reveals_settle (status q) \<Longrightarrow> sell_v1 r \<Longrightarrow> sell_gate_seen w n r"
  shows "well_backed w n q"
  using assms(2,3) own_secret_static [OF assms(1)] sell_v1_static [OF assms(1)]
    sell_gate_seen_static [OF assms(1), of w n]
  by (simp add: well_backed_def)

section \<open>The invariant\<close>

definition book_ok :: "world \<Rightarrow> nat \<Rightarrow> swap_map \<Rightarrow> bool" where
  "book_ok w n m \<longleftrightarrow> sorted_wrt (<) (map fst m) \<and> (\<forall>(k, r) \<in> set m. swap_id r = k \<and> well_backed w n r)"

definition engine_ok :: "world \<Rightarrow> engine \<Rightarrow> bool" where
  "engine_ok w e \<longleftrightarrow>
     book_ok w (calls e) (records (swaps e)) \<and> book_ok w (calls e) (sealed (swaps e))
     \<and> (\<forall>a \<in> set (trace e). justified w (calls e) a)"

text \<open>A record a loop holds a copy of still agrees with the journal on everything but its progress.\<close>

definition in_hand :: "world \<Rightarrow> engine \<Rightarrow> swap_record \<Rightarrow> bool" where
  "in_hand w e r \<longleftrightarrow> well_backed w (calls e) r
     \<and> (\<forall>s. map_of (records (swaps e)) (swap_id r) = Some s \<longrightarrow> static s = static r)"

definition holds :: "world \<Rightarrow> swap_record set \<Rightarrow> nat \<Rightarrow> engine \<Rightarrow> bool" where
  "holds w S n e \<longleftrightarrow> engine_ok w e \<and> (\<forall>r \<in> S. in_hand w e r) \<and> n \<le> calls e"

lemma book_ok_mono: "book_ok w m b \<Longrightarrow> m \<le> n \<Longrightarrow> book_ok w n b"
  by (auto simp: book_ok_def intro: well_backed_mono)

lemma book_ok_insert:
  assumes "book_ok w n m" "swap_id r = k" "well_backed w n r"
  shows "book_ok w n (map_insert k r m)"
  unfolding book_ok_def
proof (intro conjI ballI)
  show "sorted_wrt (<) (map fst (map_insert k r m))"
    using assms(1) by (intro sorted_map_insert) (simp add: book_ok_def)
  fix x
  assume "x \<in> set (map_insert k r m)"
  then have "x = (k, r) \<or> x \<in> set m" using set_map_insert [of k r m] by auto
  then show "case x of (k, r) \<Rightarrow> swap_id r = k \<and> well_backed w n r"
    using assms by (auto simp: book_ok_def)
qed

lemma book_ok_remove: "book_ok w n m \<Longrightarrow> book_ok w n (map_remove k m)"
  unfolding book_ok_def map_remove_def
  by (auto simp: sorted_wrt_map intro: sorted_wrt_filter)

lemma book_ok_lookup: "book_ok w n m \<Longrightarrow> map_of m k = Some r \<Longrightarrow> swap_id r = k \<and> well_backed w n r"
  by (auto simp: book_ok_def dest: map_of_SomeD)

lemma book_ok_entry:
  assumes "book_ok w n m" "r \<in> snd ` set m"
  shows "map_of m (swap_id r) = Some r \<and> well_backed w n r"
proof -
  have "distinct (map fst m)" using assms(1) strict_sorted_iff by (auto simp: book_ok_def)
  with assms show ?thesis by (force simp: book_ok_def intro: map_of_is_SomeI)
qed

section \<open>The invariant through the steps\<close>

lemma engine_ok_call: "engine_ok w e \<Longrightarrow> engine_ok w (e\<lparr>calls := calls e + 1\<rparr>)"
  by (auto simp: engine_ok_def intro: book_ok_mono justified_mono)

lemma in_hand_call: "in_hand w e r \<Longrightarrow> in_hand w (e\<lparr>calls := calls e + 1\<rparr>) r"
  by (auto simp: in_hand_def intro: well_backed_mono)

lemma holds_call: "holds w S n e \<Longrightarrow> holds w S n (e\<lparr>calls := calls e + 1\<rparr>)"
  unfolding holds_def using engine_ok_call [of w e] in_hand_call [of w e] by auto

lemma holds_session:
  "holds w S n e \<Longrightarrow> holds w S n (e\<lparr>swept_locks := A\<rparr>)"
  "holds w S n e \<Longrightarrow> holds w S n (e\<lparr>swept_bnb := B\<rparr>)"
  "holds w S n e \<Longrightarrow> holds w S n (e\<lparr>bsc_sweep_cursor := c\<rparr>)"
  "holds w S n e \<Longrightarrow> holds w S n (e\<lparr>bnb_txs := l\<rparr>)"
  by (simp_all add: holds_def engine_ok_def in_hand_def)

interpretation gated: journal_predicate "holds w S n" w for w S n
  by unfold_locales (simp_all only: holds_call holds_session)

text \<open>Reading with a memory: what the call answered, and that it came before everything that follows.\<close>

lemma keeps_after:
  assumes "\<And>k x. n \<le> k \<Longrightarrow> f (at w k) = Inr x \<Longrightarrow> keeps (holds w S (k + 1)) w (g x)"
  shows "keeps (holds w S n) w (bind_step (ask f) g)"
proof (rule keepsI)
  fix e
  assume e: "holds w S n e"
  show "wp (bind_step (ask f) g) w e (\<lambda>e1 _. holds w S n e1)"
  proof (cases "f (at w (calls e))")
    case (Inl d)
    then show ?thesis using holds_call [OF e] by (simp add: wp_simps)
  next
    case (Inr x)
    have n: "n \<le> calls e" using e by (simp add: holds_def)
    have "holds w S (calls e + 1) (e\<lparr>calls := calls e + 1\<rparr>)"
      using holds_call [OF e] by (simp add: holds_def)
    with assms [OF n Inr] have "wp (g x) w (e\<lparr>calls := calls e + 1\<rparr>) (\<lambda>e1 _. holds w S (calls e + 1) e1)"
      by (simp add: keeps_def)
    then have "wp (g x) w (e\<lparr>calls := calls e + 1\<rparr>) (\<lambda>e1 _. holds w S n e1)"
      by (rule wp_mono) (use n in \<open>simp add: holds_def\<close>)
    then show ?thesis by (simp add: wp_simps Inr)
  qed
qed

lemma ask_see: "see f = ask (\<lambda>s. Inr (f s))"
  by (simp add: see_def ask_def)

lemma attempt_ask: "attempt (ask f) = see f"
  by (simp add: attempt_def ask_def see_def)

lemma keeps_after_see:
  assumes "\<And>k. n \<le> k \<Longrightarrow> keeps (holds w S (k + 1)) w (g (f (at w k)))"
  shows "keeps (holds w S n) w (bind_step (see f) g)"
  unfolding ask_see by (rule keeps_after) (use assms in auto)

lemma keeps_after_attempt:
  assumes "\<And>k. n \<le> k \<Longrightarrow> keeps (holds w S (k + 1)) w (g (f (at w k)))"
  shows "keeps (holds w S n) w (bind_step (attempt (ask f)) g)"
  unfolding attempt_ask by (rule keeps_after_see) (rule assms)

text \<open>Sending what is justified.\<close>

lemma keeps_send:
  assumes "\<And>m. n \<le> m \<Longrightarrow> justified w m a"
  shows "keeps (holds w S n) w (send f a)"
proof (rule keepsI)
  fix e
  assume e: "holds w S n e"
  have "n \<le> calls e + 1" using e by (simp add: holds_def)
  then have "justified w (calls e + 1) a" by (rule assms)
  then have "engine_ok w (e\<lparr>calls := calls e + 1, trace := trace e @ [a]\<rparr>)"
    using holds_call [OF e] by (simp add: holds_def engine_ok_def)
  then show "wp (send f a) w e (\<lambda>e1 _. holds w S n e1)"
    using holds_call [OF e] by (simp add: wp_simps holds_def in_hand_def)
qed

text \<open>Writing the journal.\<close>

lemma persist_locked_cases:
  obtains d where "persist_locked io j = (j, Inl d)"
  | "persist_locked io j = (j\<lparr>sealed := records j\<rparr>, Inr ())"
  by (cases io) (auto simp: persist_locked_def)

lemma keeps_update_at:
  assumes "\<And>m r. n \<le> m \<Longrightarrow> well_backed w m r \<Longrightarrow> (\<forall>s \<in> S. swap_id s = i \<longrightarrow> static r = static s \<and> well_backed w m s)
             \<Longrightarrow> static (f r) = static r \<and> well_backed w m (f r)"
  shows "keeps (holds w S n) w (update_at now i f)"
proof (rule keepsI)
  fix e
  assume e: "holds w S n e"
  let ?m = "calls e + 1"
  note e1 = holds_call [OF e]
  have n: "n \<le> ?m" using e by (simp add: holds_def)
  show "wp (update_at now i f) w e (\<lambda>e1 _. holds w S n e1)"
  proof (cases "map_of (records (swaps e)) i")
    case None
    then show ?thesis using e1 by (simp add: wp_def update_at_def journal_update_def)
  next
    case (Some r)
    have book: "book_ok w ?m (records (swaps e))" using e1 by (simp add: holds_def engine_ok_def)
    have r: "swap_id r = i" "well_backed w ?m r" using book_ok_lookup [OF book Some] by auto
    have hands: "\<forall>s \<in> S. swap_id s = i \<longrightarrow> static r = static s \<and> well_backed w ?m s"
      using e1 Some by (auto simp: holds_def in_hand_def)
    define q where "q = (f r)\<lparr>updated_at := now\<rparr>"
    have fr: "static (f r) = static r" "well_backed w ?m (f r)" using assms [OF n r(2) hands] by auto
    have q: "static q = static r"
      using fr(1) by (simp add: q_def static_def)
    have "static q = static (f r)" "status q = status (f r)" by (simp_all add: q_def static_def)
    note same = this
    have bq: "well_backed w ?m q"
      by (rule well_backed_progress [OF same(1) fr(2)]) (use fr(2) same(2) in \<open>auto simp: well_backed_def\<close>)
    have idq: "swap_id q = i" using static_fields(1) [OF q] r(1) by simp
    define b where "b = map_insert i q (records (swaps e))"
    have bok: "book_ok w ?m b" unfolding b_def by (rule book_ok_insert [OF book idq bq])
    have inh: "in_hand w e2 s"
      if "s \<in> S" "records (swaps e2) = b" "calls e2 = ?m" for s e2
      using that e1 hands q by (auto simp: in_hand_def holds_def b_def)
    show ?thesis
      by (rule persist_locked_cases [of "storage (at w (calls e))" "(swaps e)\<lparr>records := b\<rparr>"])
         (use Some bok inh e1 n in
          \<open>auto simp: wp_def update_at_def journal_update_def holds_def engine_ok_def b_def q_def\<close>)
  qed
qed

lemma keeps_update:
  assumes "\<And>m r. n \<le> m \<Longrightarrow> well_backed w m r \<Longrightarrow> (\<forall>s \<in> S. swap_id s = i \<longrightarrow> static r = static s \<and> well_backed w m s)
             \<Longrightarrow> static (f r) = static r \<and> well_backed w m (f r)"
  shows "keeps (holds w S n) w (update i f)"
  unfolding update_def by (rule keeps_bind [OF gated.keeps_see keeps_update_at [OF assms]])

text \<open>A step of progress that does not enter the states behind the sell gate.\<close>

lemma keeps_update_plain:
  assumes "\<And>r. static (f r) = static r" "\<And>r. \<not> reveals_settle (status (f r))"
  shows "keeps (holds w S n) w (update i f)" "keeps (holds w S n) w (update_at now i f)"
proof -
  have "static (f r) = static r \<and> well_backed w m (f r)" if "well_backed w m r" for m r
    using assms well_backed_progress [of "f r" r w m] that by auto
  then show "keeps (holds w S n) w (update i f)" "keeps (holds w S n) w (update_at now i f)"
    by (auto intro!: keeps_update keeps_update_at)
qed

text \<open>A step of progress of a record in hand, into any state it may be in.\<close>

lemma keeps_update_hand:
  assumes "rec \<in> S" "swap_id rec = i" "\<And>r. static (f r) = static r"
    "sell_v1 rec \<Longrightarrow> sell_gate_seen w n rec \<or> reveals_settle (status rec)"
  shows "keeps (holds w S n) w (update i f)" "keeps (holds w S n) w (update_at now i f)"
proof -
  have *: "static (f r) = static r \<and> well_backed w m (f r)"
    if m: "n \<le> m" and hand: "\<forall>s \<in> S. swap_id s = i \<longrightarrow> static r = static s \<and> well_backed w m s" for m r
  proof -
    have s: "static r = static rec" "well_backed w m rec" using hand assms(1,2) by auto
    then have "static (f r) = static rec" using assms(3) by simp
    moreover have "sell_gate_seen w m rec" if "sell_v1 rec"
      using assms(4) [OF that] s(2) m that sell_gate_seen_mono by (auto simp: well_backed_def)
    ultimately have "well_backed w m (f r)" using s(2) by (intro well_backed_progress [of "f r" rec])
    then show ?thesis using assms(3) by simp
  qed
  show "keeps (holds w S n) w (update i f)" by (rule keeps_update) (use * in auto)
  show "keeps (holds w S n) w (update_at now i f)" by (rule keeps_update_at) (use * in auto)
qed

end
