(* ===== verification/SwapSample.thy ===== *)
theory SwapSample imports SwapMonitor begin

text \<open>
  One concrete world for the swap engine, and two swaps in it, a sell and a buy, run through the
  engine call by call up to the claim.  The witnesses of the engine's properties rest on these runs.
\<close>

section \<open>The world\<close>

definition sample_key :: signer where
  "sample_key = \<lparr>signer_address = [8], signer_pubkey = [9], sign_bytes = (\<lambda>m. m)\<rparr>"

definition sample_crate :: chain where
  "sample_crate = \<lparr>dust_threshold = 10, min_fee_divisor = 100, min_fee = (\<lambda>_. Some 5),
     tx_cost = (\<lambda>_. Some 500), sig_message = (\<lambda>_. Some [1]), tx_id_of = (\<lambda>_. Some [2]),
     serialize = (\<lambda>_. Some [3, 4]), hex_encode = (\<lambda>_. ''x''),
     hex_decode = (\<lambda>_. Some (replicate 32 5))\<rparr>"

definition sample_quote :: "direction \<Rightarrow> string \<Rightarrow> string option \<Rightarrow> flow \<Rightarrow> quote_resp" where
  "sample_quote dir amt h fl =
     \<lparr>q_swap_id = (case dir of ExferToBnb \<Rightarrow> ''s'' | BnbToExfer \<Rightarrow> ''b''),
      q_amount_in = amt, q_amount_out = ''1'', q_amount_in_units = ''5'', q_amount_out_units = ''4'',
      q_expires_at = 2000, q_fee_bps = 30, q_network_fee_bnb = None, q_htlc_contract = Some ''c'',
      q_hashlock = (if fl = V2 then Some ''h'' else h),
      q_bsc = Some \<lparr>bi_htlc_contract = ''c'', bi_recipient = ''p'', bi_timeout_sec = 9000\<rparr>,
      q_exfer = Some \<lparr>ei_receiver_pubkey = ''k'', ei_timeout_height = 600\<rparr>\<rparr>"

definition sample_indexed :: indexed_htlc where
  "sample_indexed =
     \<lparr>ih_params = Some \<lparr>ip_receiver = Some ''x'', ip_sender = Some ''y'', ip_timeout = Some 600,
        ip_hash_lock = Some ''h''\<rparr>, ih_state = Some ''locked'', ih_lock_tx = Some ''l'',
      ih_output_index = Some 0, ih_amount = Some 4, ih_claim = None, ih_reclaim = None\<rparr>"

definition sample_services :: services where
  "sample_services = \<lparr>clock_now = 1000, storage = Inr (), load_signer = (\<lambda>_. Inr sample_key),
     wallet_list = Inr [''addr''], evm_secret = Inr [7], random_bytes = [1, 2],
     pool_quote = (\<lambda>dir amt h a p fl. Inr (sample_quote dir amt h fl)),
     pool_get_swap = (\<lambda>_. Inr \<lparr>ps_status = Some ''pool_locked'', ps_lock_tx = Some ''l'', ps_claim_tx = None,
        ps_notes = None\<rparr>),
     pool_stranded = (\<lambda>_. Inr []), htlc_lookup = (\<lambda>_. Inr [sample_indexed]), htlc_list = (\<lambda>_. Inr []),
     block_height = Inr 100, node_transaction = (\<lambda>_. Inr None), presign = (\<lambda>_ _ _ _ _ _. Inr (''t'', 7)),
     get_htlc_swap = (\<lambda>_ _. Inr \<lparr>oc_recipient = [6], oc_amount = 4, oc_timeout_sec = 9000, oc_state = HtlcLocked\<rparr>),
     bnb_balance = (\<lambda>_. Inr 50), sweep_gas_reserve = 1, receipt_status = (\<lambda>_. Inr None),
     block_number = Inr 10, block_timestamp = Inr 1000, locked_hashlocks = (\<lambda>_ _ _ _. Inr []),
     tx_reply = (\<lambda>_. Inr ''tx''), pool_reply = (\<lambda>_. Inr (Some ''ptx''))\<rparr>"

definition sample_world :: world where
  "sample_world = \<lparr>crate = sample_crate, sha256 = (\<lambda>b. b), parse_u256 = (\<lambda>s. map_option unat (parse_u64_string s)),
     parse_address = (\<lambda>_. Some [6]), address_of = (\<lambda>_. Inr [6]), checksum = (\<lambda>_. ''a''),
     first_htlc = (\<lambda>_. None), has_indexer = True, bsc_chain_id = 1, at = (\<lambda>_. sample_services)\<rparr>"


text \<open>An engine whose journal, in memory and on disk, is one record.\<close>

definition one_swap :: "swap_record \<Rightarrow> nat \<Rightarrow> action list \<Rightarrow> engine" where
  "one_swap r n tr = new_engine [(swap_id r, r)] [] n tr"

definition sample_swap :: "direction \<Rightarrow> swap_record" where
  "sample_swap dir = quoted_record dir V1 ''0xx'' ''0xx'' ''a'' ''z'' (sample_quote dir ''1'' (Some ''0xx'') V1) 1000"

text \<open>The definitions the runs unfold.\<close>

lemmas runs = after_def bind_step_def ask_def see_def pure_step_def put_def ret_def journal_put_def persist_locked_def
  lookup_def journal_get_def need_def raise_def decode_hash_step_def hash256_from_hex_def
  send_def attempt_def update_def update_at_def journal_update_def ok_or_def new_engine_def journal_open_def Let_def
  one_swap_def sample_swap_def sample_quote_def sample_world_def sample_services_def quoted_record_def
  sample_crate_def sample_key_def decode_hash_def parse_u64_string_def parse_u64_def ascii_def is_digit_def
 min_exfer_lock_blocks_def min_bsc_lock_secs_def claim_margin_secs_def or_empty_def pool_status_of_def


section \<open>The runs\<close>

lemma quote_run:
  "\<exists>m. happen (GetQuote dir ''1'' ''z'' V1) sample_world (new_engine [] [] 0 []) = one_swap (sample_swap dir) m []"
  by (simp add: runs get_quote_def get_quote_v1_def quote_keys_def ask_quote_def store_quote_def)

text \<open>The stages of the two swaps.\<close>

definition sample_locked :: "direction \<Rightarrow> swap_record" where
  "sample_locked dir = (sample_swap dir)\<lparr>status := UserLocked, user_lock_tx := Some ''tx''\<rparr>"

definition sample_mirrored :: "direction \<Rightarrow> swap_record" where
  "sample_mirrored dir = (sample_locked dir)\<lparr>status := PoolLocked, pool_lock_ref := Some ''l''\<rparr>"

definition sample_claiming :: "direction \<Rightarrow> string \<Rightarrow> swap_record" where
  "sample_claiming dir tx = (sample_mirrored dir)\<lparr>status := Claiming, claim_tx := Some tx\<rparr>"

lemmas stages = sample_locked_def sample_mirrored_def sample_claiming_def

lemma execute_sell_run:
  "\<exists>m. happen (Execute ''s'') sample_world (one_swap (sample_swap ExferToBnb) n tr) =
   one_swap (sample_locked ExferToBnb) m
    (tr @ [LockExfer [9] (replicate 32 5) (replicate 32 5) 600 5, NotifyExferLock ''s'' ''tx''])"
  by (simp add: runs stages execute_def execute_sell_def)

lemma execute_buy_run:
  "\<exists>m. happen (Execute ''b'') sample_world (one_swap (sample_swap BnbToExfer) n tr) =
   one_swap (sample_locked BnbToExfer) m
    (tr @ [LockBnb ''c'' ''0xx'' ''p'' 5 9000])"
  by (simp add: runs stages execute_def execute_buy_def)

lemmas turns = monitor_turn_def pending_records_def journal_pending_def is_terminal_def monitor_record_def overdue_def
  refund_statuses_def refundable_def ignoring_def advance_def mirror_sell_def mirror_buy_def
 verify_pool_bsc_lock_def pool_lock_safe_to_claim_def settle_or_refund_def

lemma mirror_sell_run:
  "\<exists>m. happen (MonitorTurn False) sample_world (one_swap (sample_locked ExferToBnb) n tr) =
    one_swap (sample_mirrored ExferToBnb) m tr"
  by (simp add: runs stages turns)

lemma claim_sell_run:
  "\<exists>m. happen (MonitorTurn False) sample_world (one_swap (sample_mirrored ExferToBnb) n tr) =
    one_swap (sample_claiming ExferToBnb ''ptx'') m
     (tr @ [RelayClaim ''s'' ''0xx''])"
  by (simp add: runs stages turns claim_sell_def sell_lock_state_def send_sell_claim_def)

lemma mirror_buy_run:
  "\<exists>m. happen (MonitorTurn False) sample_world (one_swap (sample_locked BnbToExfer) n tr) =
    one_swap (sample_mirrored BnbToExfer) m tr"
  by (simp add: runs stages turns)

lemma claim_buy_run:
  "\<exists>m. happen (MonitorTurn False) sample_world (one_swap (sample_mirrored BnbToExfer) n tr) =
    one_swap (sample_claiming BnbToExfer ''tx'') m
     (tr @ [ClaimExfer [9] (replicate 32 5) (replicate 32 5) (replicate 32 5) 600])"
  by (simp add: runs stages turns claim_buy_def indexed_pool_lock_def send_buy_claim_def prior_claim_live_def is_us_def receiver_of_def sender_of_def sample_indexed_def state_of_def timeout_of_def lower_def ensure_def)

lemma refund_buy_run:
  "\<exists>m. happen (Refund ''b'') sample_world (one_swap (sample_claiming BnbToExfer ''tx'') n tr) =
    one_swap ((sample_claiming BnbToExfer ''tx'')\<lparr>status := Refunding, refund_tx := Some ''tx''\<rparr>) m
     (tr @ [RefundBnb ''c'' ''0xx''])"
  by (simp add: runs stages refund_def is_terminal_def refund_buy_def reclaim_pending_def)

section \<open>Reached\<close>

definition sell_trace :: "action list" where
  "sell_trace = [LockExfer [9] (replicate 32 5) (replicate 32 5) 600 5, NotifyExferLock ''s'' ''tx'',
                 RelayClaim ''s'' ''0xx'']"

definition buy_trace :: "action list" where
  "buy_trace = [LockBnb ''c'' ''0xx'' ''p'' 5 9000,
                ClaimExfer [9] (replicate 32 5) (replicate 32 5) (replicate 32 5) 600,
                RefundBnb ''c'' ''0xx'']"

lemma reachable_run: "reachable w e \<Longrightarrow> \<exists>m. happen ev w e = f m \<Longrightarrow> \<exists>m. reachable w (f m)"
  by (metis reachable.step)

lemma sell_reached: "\<exists>m. reachable sample_world (one_swap (sample_claiming ExferToBnb ''ptx'') m sell_trace)"
proof -
  obtain a where a: "reachable sample_world (one_swap (sample_swap ExferToBnb) a [])"
    using reachable_run [OF reachable.start quote_run] by blast
  then obtain b where b: "reachable sample_world (one_swap (sample_locked ExferToBnb) b (butlast sell_trace))"
    using reachable_run [OF a execute_sell_run] by (auto simp: sell_trace_def)
  then obtain c where c: "reachable sample_world (one_swap (sample_mirrored ExferToBnb) c (butlast sell_trace))"
    using reachable_run [OF b mirror_sell_run] by blast
  then show ?thesis
    using reachable_run [OF c claim_sell_run] by (auto simp: sell_trace_def)
qed

lemma buy_reached: "\<exists>m r. reachable sample_world (one_swap r m buy_trace)"
proof -
  obtain a where a: "reachable sample_world (one_swap (sample_swap BnbToExfer) a [])"
    using reachable_run [OF reachable.start quote_run] by blast
  then obtain b where b: "reachable sample_world (one_swap (sample_locked BnbToExfer) b (take 1 buy_trace))"
    using reachable_run [OF a execute_buy_run] by (auto simp: buy_trace_def)
  then obtain c where c: "reachable sample_world (one_swap (sample_mirrored BnbToExfer) c (take 1 buy_trace))"
    using reachable_run [OF b mirror_buy_run] by blast
  then obtain d where d: "reachable sample_world (one_swap (sample_claiming BnbToExfer ''tx'') d (take 2 buy_trace))"
    using reachable_run [OF c claim_buy_run] by (auto simp: buy_trace_def)
  then show ?thesis
    using reachable_run [OF d refund_buy_run] by (fastforce simp: buy_trace_def)
qed

end
