(* ===== verification/SwapGates.thy ===== *)
theory SwapGates imports SwapSafety SwapSample begin

text \<open>
  The invariant of \<open>SwapSafety\<close> through every step of the swap engine, and what follows for every
  state the engine can reach: no preimage leaves before its gate, no lock is sent without its
  margin, and no refund of a BNB lock is sent that the chain does not show as locked.
\<close>

section \<open>Steps with a result\<close>

lemma keeps_result:
  assumes "keeps (holds w S n) w m"
    and "\<And>e. n \<le> calls e \<Longrightarrow> wp m w e (\<lambda>e1 r. \<forall>x. r = Inr x \<longrightarrow> R (calls e1) x)"
    and "\<And>k x. n \<le> k \<Longrightarrow> R k x \<Longrightarrow> keeps (holds w S k) w (g x)"
  shows "keeps (holds w S n) w (bind_step m g)"
proof (rule keepsI)
  fix e
  assume e: "holds w S n e"
  have "wp m w e (\<lambda>e1 r. holds w S n e1 \<and> (\<forall>x. r = Inr x \<longrightarrow> R (calls e1) x))"
    using assms(1,2) e unfolding wp_conj by (simp add: keeps_def holds_def)
  then show "wp (bind_step m g) w e (\<lambda>e1 _. holds w S n e1)"
    unfolding wp_bind
  proof (rule wp_mono)
    fix e1 r
    assume 1: "holds w S n e1 \<and> (\<forall>x. r = Inr x \<longrightarrow> R (calls e1) x)"
    show "case r of Inl d \<Rightarrow> holds w S n e1 | Inr x \<Rightarrow> wp (g x) w e1 (\<lambda>e1 _. holds w S n e1)"
    proof (cases r)
      case (Inl d)
      then show ?thesis using 1 by simp
    next
      case (Inr x)
      have "keeps (holds w S (calls e1)) w (g x)" using 1 Inr assms(3) by (simp add: holds_def)
      moreover have "holds w S (calls e1) e1" using 1 by (simp add: holds_def)
      ultimately have "wp (g x) w e1 (\<lambda>e2 _. holds w S (calls e1) e2)" by (simp add: keeps_def)
      then have "wp (g x) w e1 (\<lambda>e2 _. holds w S n e2)"
        by (rule wp_mono) (use 1 in \<open>simp add: holds_def\<close>)
      then show ?thesis using Inr by simp
    qed
  qed
qed

lemma verify_pool_bsc_lock_gate:
  "wp (verify_pool_bsc_lock rec) w e (\<lambda>e1 r. \<forall>x. r = Inr x \<longrightarrow> x \<longrightarrow> sell_gate_seen w (calls e1) rec)"
proof (cases "htlc_contract rec")
  case None
  then show ?thesis by (simp add: verify_pool_bsc_lock_def wp_simps)
next
  case (Some htlc)
  note h = this
  show ?thesis
  proof (cases "our_bsc_address rec")
    case None
    then show ?thesis using h by (simp add: verify_pool_bsc_lock_def wp_simps)
  next
    case (Some a)
    have "sell_gate_seen w (calls e + 2) rec"
      if "parse_address w a = Some our" "parse_u256 w (amount_out_units rec) = Some want"
        "get_htlc_swap (at w (calls e)) htlc (hashlock rec) = Inr oc"
        "pool_lock_safe_to_claim oc our want (clock_now (at w (calls e + 1)))" for our want oc
      unfolding sell_gate_seen_def sell_gate_at_def using that h Some
      by (intro exI [of _ "calls e"] exI [of _ "calls e + 1"]) auto
    then show ?thesis using h Some
      by (cases "parse_address w a"; cases "parse_u256 w (amount_out_units rec)";
          cases "get_htlc_swap (at w (calls e)) htlc (hashlock rec)")
         (auto simp: verify_pool_bsc_lock_def wp_simps)
  qed
qed

lemma indexed_pool_lock_result:
  "n \<le> calls e \<Longrightarrow>
   wp (indexed_pool_lock rec) w e (\<lambda>e1 r. \<forall>x. r = Inr x \<longrightarrow>
     (\<exists>k < calls e1. \<exists>hs. htlc_lookup (at w k) (strip0x (hashlock rec)) = Inr hs
        \<and> snd x = find (\<lambda>h. is_us (crate w) (fst x) (or_empty (our_exfer_address rec)) (receiver_of h)) hs))"
  by (auto simp: indexed_pool_lock_def wp_simps Let_def split: sum.split
           intro!: exI [of _ "calls e + 1"])

text \<open>Facts about values that a step checks on its way.\<close>

lemma keeps_bind_need:
  "(\<And>y. x = Some y \<Longrightarrow> keeps P w (g y)) \<Longrightarrow> keeps P w (bind_step (need d x) g)"
  by (cases x) (auto simp: keeps_def wp_simps)

lemma keeps_bind_pure:
  "(\<And>y. f w = Inr y \<Longrightarrow> keeps P w (g y)) \<Longrightarrow> keeps P w (bind_step (pure_step f) g)"
  by (cases "f w") (auto simp: keeps_def wp_simps)

section \<open>Locks\<close>

lemma ex_before: "\<exists>k < n. p k \<Longrightarrow> n \<le> m \<Longrightarrow> \<exists>k < m. p k" for m n :: nat
  by (auto dest: less_le_trans)

lemma keeps_execute_v2: "keeps (holds w S n) w (execute_v2 i rec)"
  unfolding execute_v2_def
  by (intro keeps_intros gated.keeps_reads keeps_send keeps_update_plain)
     (simp_all add: reveals_settle_def)

lemma keeps_execute_sell:
  assumes "own_secret w rec" "direction rec = ExferToBnb"
  shows "keeps (holds w S n) w (execute_sell i rec)"
  unfolding execute_sell_def hash256_from_hex_def
  by (intro keeps_after keeps_bind_pure keeps_intros keeps_send keeps_update_plain)
     (use assms in \<open>auto simp: reveals_settle_def not_less lockable_def dest!: Suc_le_lessD\<close>)

lemma keeps_execute_buy:
  assumes "own_secret w rec" "direction rec = BnbToExfer"
  shows "keeps (holds w S n) w (execute_buy i rec)"
  unfolding execute_buy_def
  by (intro keeps_after keeps_after_see keeps_intros keeps_send keeps_update_plain)
     (use assms in \<open>auto simp: reveals_settle_def not_less not_le Suc_le_eq lockable_def
        dest: less_trans\<close>)

text \<open>A record looked up in the journal is well_backed.\<close>

lemma keeps_after_lookup:
  assumes "\<And>x. (\<And>r. x = Some r \<Longrightarrow> (flow r = V1 \<longrightarrow> own_secret w r)
             \<and> (\<forall>s \<in> S. swap_id s = i \<longrightarrow> static r = static s)) \<Longrightarrow> keeps (holds w S n) w (g x)"
  shows "keeps (holds w S n) w (bind_step (lookup i) g)"
proof (rule keepsI)
  fix e
  assume e: "holds w S n e"
  then have book: "book_ok w (calls e) (records (swaps e))" by (simp add: holds_def engine_ok_def)
  have "(flow r = V1 \<longrightarrow> own_secret w r) \<and> (\<forall>s \<in> S. swap_id s = i \<longrightarrow> static r = static s)"
    if "journal_get i (swaps e) = Some r" for r
    using book_ok_lookup [OF book] that e
    by (auto simp: journal_get_def well_backed_def holds_def in_hand_def)
  then have "keeps (holds w S n) w (g (journal_get i (swaps e)))" by (rule assms)
  then show "wp (bind_step (lookup i) g) w e (\<lambda>e1 _. holds w S n e1)"
    using e by (simp add: wp_simps keeps_def)
qed

lemma keeps_execute: "keeps (holds w S n) w (execute i)"
  unfolding execute_def
  by (intro keeps_after_lookup keeps_bind_need keeps_intros gated.keeps_reads keeps_execute_v2
        keeps_execute_sell keeps_execute_buy keeps_update_plain)
     (auto simp: reveals_settle_def intro: flow.exhaust)

lemma keeps_mirror_abort: "mirror_abort i msg x = Some m \<Longrightarrow> keeps (holds w S n) w m"
  unfolding mirror_abort_def
  by (auto split: sum.splits if_splits intro!: keeps_update_plain simp: reveals_settle_def)

lemma keeps_lock_sell_leg:
  assumes "direction rec = ExferToBnb" "sell_gate_seen w n rec"
  shows "keeps (holds w S n) w (lock_sell_leg rec sg)"
proof -
  have gate: "lockable w m rec" if "n \<le> m" for m
    using sell_gate_seen_mono [OF assms(2) that] assms(1) by (simp add: lockable_def)
  show ?thesis
    unfolding lock_sell_leg_def hash256_from_hex_def
    by (intro keeps_after keeps_bind_pure keeps_intros keeps_send keeps_update_plain)
       (use gate assms(1) in \<open>auto simp: reveals_settle_def not_less Suc_le_eq\<close>)
qed

lemma keeps_drive_sell:
  assumes "rec0 \<in> S" "direction rec0 = ExferToBnb"
  shows "keeps (holds w S n) w (drive_v2_sell_lock rec0)"
proof -
  have verified: "keeps (holds w S m) w (bind_step (attempt (verify_pool_bsc_lock rec)) (\<lambda>v.
      case v of Inr True \<Rightarrow> lock_sell_leg rec sg | _ \<Rightarrow> ret ()))"
    if "direction rec = ExferToBnb" for rec sg m
  proof (rule keeps_result [where R = "\<lambda>k v. v = Inr True \<longrightarrow> sell_gate_seen w k rec"])
    show "keeps (holds w S m) w (attempt (verify_pool_bsc_lock rec))"
      by (intro keeps_attempt gated.keeps_looks)
    show "wp (attempt (verify_pool_bsc_lock rec)) w e
            (\<lambda>e1 r. \<forall>x. r = Inr x \<longrightarrow> x = Inr True \<longrightarrow> sell_gate_seen w (calls e1) rec)" for e
      using verify_pool_bsc_lock_gate [of rec w e] by (auto simp: wp_attempt elim: wp_mono)
    show "keeps (holds w S k) w (case v of Inr True \<Rightarrow> lock_sell_leg rec sg | _ \<Rightarrow> ret ())"
      if "v = Inr True \<longrightarrow> sell_gate_seen w k rec" for k v
      using that \<open>direction rec = ExferToBnb\<close>
      by (auto split: sum.split bool.split intro: keeps_ret keeps_lock_sell_leg)
  qed
  have dir: "direction rec = ExferToBnb"
    if "\<forall>s \<in> S. swap_id s = swap_id rec0 \<longrightarrow> static rec = static s" for rec
    using that assms static_fields(3) by metis
  show ?thesis
    unfolding drive_v2_sell_lock_def
    by (intro keeps_after_lookup keeps_after_attempt keeps_option verified keeps_intros gated.keeps_reads
          gated.keeps_looks keeps_update_plain)
       (use assms in \<open>auto simp: reveals_settle_def keeps_mirror_abort intro: dir\<close>)
qed

text \<open>What the two ways of verifying the pool's EXFER lock have seen when they succeed.\<close>

lemma find_SomeD: "find P xs = Some x \<Longrightarrow> x \<in> set xs \<and> P x"
  by (induction xs) (auto split: if_splits)

lemma pool_lock_seen_mono: "pool_lock_seen w m r \<Longrightarrow> m \<le> n \<Longrightarrow> pool_lock_seen w n r"
  unfolding pool_lock_seen_def by (meson less_le_trans)

lemma verify_via_node_seen:
  "wp (verify_pool_exfer_lock_via_node rec txid) w e
     (\<lambda>e1 r. \<forall>pl. r = Inr (Some pl) \<longrightarrow> pool_lock_seen w (calls e1) rec)"
proof -
  have "pool_lock_seen w (Suc (Suc (Suc (calls e)))) rec"
    if "node_transaction (at w (calls e + 1)) txid = Inr (Some st)" "ts_block_height st = Some h" "h \<noteq> 0"
      "first_htlc w (ts_hex st) = Some out"
      "node_lock_ok (crate w) sg (or_empty (our_exfer_address rec)) rec out"
      "block_height (at w (calls e + 2)) = Inr tip" "\<not> ho_timeout out < tip + min_exfer_lock_blocks"
    for st h out sg tip
  proof -
    have "node_lock_at w (calls e + 1) (calls e + 2) rec"
      unfolding node_lock_at_def using that by (metis not_less)
    then show ?thesis
      unfolding pool_lock_seen_def by (intro exI [of _ "calls e + 1"] exI [of _ "calls e + 2"]) simp
  qed
  then show ?thesis
    unfolding verify_pool_exfer_lock_via_node_def Let_def
    by (auto simp: wp_simps attempt_ask split: sum.split option.split)
qed

lemma verify_via_indexer_seen:
  "wp (verify_pool_exfer_lock_via_indexer rec) w e
     (\<lambda>e1 r. (\<exists>pl. r = Inr pl) \<longrightarrow> pool_lock_seen w (calls e1) rec)"
proof -
  have "pool_lock_seen w (Suc (Suc (Suc (calls e)))) rec"
    if "htlc_lookup (at w (calls e + 1)) (strip0x (hashlock rec)) = Inr hs"
      "find (\<lambda>h. is_us (crate w) sg (or_empty (our_exfer_address rec)) (receiver_of h)) hs = Some pl"
      "state_of pl = ''locked''" "ih_amount pl = Some amt"
      "parse_u64_string (amount_out_units rec) = Some want" "\<not> amt < want"
      "block_height (at w (calls e + 2)) = Inr tip" "\<not> timeout_of pl < tip + min_exfer_lock_blocks"
    for hs sg pl amt want tip
  proof -
    have "pl \<in> set hs" "is_us (crate w) sg (or_empty (our_exfer_address rec)) (receiver_of pl)"
      using find_SomeD [OF that(2)] by simp_all
    then have "buy_gate_at w (calls e + 1) (calls e + 2) rec (signer_pubkey sg) (timeout_of pl)"
      unfolding buy_gate_at_def using that
      by (intro exI [of _ sg] exI [of _ hs] exI [of _ pl]) (auto simp: not_less)
    then show ?thesis
      unfolding pool_lock_seen_def
      by (intro exI [of _ "calls e + 1"] exI [of _ "calls e + 2"]) auto
  qed
  then show ?thesis
    unfolding verify_pool_exfer_lock_via_indexer_def Let_def
    by (auto simp: wp_simps ok_or_eq ensure_eq split: sum.split option.split)
qed

lemma verify_pool_exfer_lock_seen:
  "wp (verify_pool_exfer_lock rec) w e
     (\<lambda>e1 r. (\<exists>pl. r = Inr pl) \<longrightarrow> pool_lock_seen w (calls e1) rec)"
proof -
  have node: "wp (verify_pool_exfer_lock_via_node rec txid) w e1 (\<lambda>e2 r.
      wp (case r of Inr (Some pl) \<Rightarrow> ret pl | _ \<Rightarrow> verify_pool_exfer_lock_via_indexer rec) w e2
        (\<lambda>e3 r. (\<exists>pl. r = Inr pl) \<longrightarrow> pool_lock_seen w (calls e3) rec))" for txid e1
    by (rule wp_mono [OF verify_via_node_seen])
       (auto simp: wp_ret verify_via_indexer_seen split: sum.split option.split)
  show ?thesis
    unfolding verify_pool_exfer_lock_def attempt_ask
    by (auto simp: wp_bind wp_see wp_attempt verify_via_indexer_seen node split: list.split)
qed

lemma keeps_lock_buy_leg:
  assumes "\<exists>k < n. clock_now (at w k) + min_bsc_lock_secs \<le> limit" "direction rec = BnbToExfer"
    "pool_lock_seen w n rec"
  shows "keeps (holds w S n) w (lock_buy_leg rec limit pl)"
proof -
  have gate: "lockable w m rec" if "n \<le> m" for m
    using pool_lock_seen_mono [OF assms(3) that] assms(2) by (simp add: lockable_def)
  show ?thesis
    unfolding lock_buy_leg_def
    by (intro keeps_after keeps_intros keeps_send keeps_update_plain)
       (use gate assms(2) in \<open>auto simp: reveals_settle_def not_le Suc_le_eq intro!: ex_before [OF assms(1)]\<close>)
qed

lemma keeps_drive_buy:
  assumes "rec0 \<in> S" "direction rec0 = BnbToExfer"
  shows "keeps (holds w S n) w (drive_v2_buy_lock rec0)"
proof -
  have verified: "keeps (holds w S m) w (bind_step (attempt (verify_pool_exfer_lock rec)) (\<lambda>v.
      case v of Inl _ \<Rightarrow> ret () | Inr pl \<Rightarrow> lock_buy_leg rec limit pl))"
    if dir: "direction rec = BnbToExfer" and lim: "\<exists>k < m. clock_now (at w k) + min_bsc_lock_secs \<le> limit"
    for rec limit m
  proof (rule keeps_result [where R = "\<lambda>k v. (\<exists>pl. v = Inr pl) \<longrightarrow> pool_lock_seen w k rec"])
    show "keeps (holds w S m) w (attempt (verify_pool_exfer_lock rec))"
      by (intro keeps_attempt gated.keeps_looks)
    show "wp (attempt (verify_pool_exfer_lock rec)) w e
            (\<lambda>e1 r. \<forall>x. r = Inr x \<longrightarrow> (\<exists>pl. x = Inr pl) \<longrightarrow> pool_lock_seen w (calls e1) rec)" for e
      using verify_pool_exfer_lock_seen [of rec w e] by (simp add: wp_attempt)
    show "keeps (holds w S k) w (case v of Inl _ \<Rightarrow> ret () | Inr pl \<Rightarrow> lock_buy_leg rec limit pl)"
      if "m \<le> k" "(\<exists>pl. v = Inr pl) \<longrightarrow> pool_lock_seen w k rec" for k v
      using that(2) keeps_lock_buy_leg [OF ex_before [OF lim that(1)] dir]
      by (auto split: sum.split intro: keeps_ret)
  qed
  have dir: "direction rec = BnbToExfer"
    if "\<forall>s \<in> S. swap_id s = swap_id rec0 \<longrightarrow> static rec = static s" for rec
    using that assms static_fields(3) by metis
  show ?thesis
    unfolding drive_v2_buy_lock_def
    by (intro keeps_after_lookup keeps_after_see keeps_after_attempt keeps_option verified keeps_intros gated.keeps_reads
          gated.keeps_looks keeps_update_plain)
       (use assms in \<open>auto simp: reveals_settle_def keeps_mirror_abort not_less intro: dir\<close>)
qed

section \<open>Settlement\<close>

lemma keeps_advance_v2:
  assumes "flow rec = V2" "rec \<in> S"
  shows "keeps (holds w S n) w (advance_v2 rec)"
  unfolding advance_v2_def
  by (intro keeps_intros gated.keeps_reads keeps_drive_sell [OF assms(2)] keeps_drive_buy [OF assms(2)]
        keeps_update_hand(1) [OF assms(2) refl])
     (use assms(1) in \<open>auto simp: sell_v1_def\<close>)

lemma keeps_mirror_sell:
  assumes "rec \<in> S"
  shows "keeps (holds w S n) w (mirror_sell rec)"
  unfolding mirror_sell_def Let_def
proof (rule keeps_result [where R = "\<lambda>k x. x \<longrightarrow> sell_gate_seen w k rec"])
  show "keeps (holds w S n) w (verify_pool_bsc_lock rec)" by (rule gated.keeps_looks)
  show "wp (verify_pool_bsc_lock rec) w e (\<lambda>e1 r. \<forall>x. r = Inr x \<longrightarrow> x \<longrightarrow> sell_gate_seen w (calls e1) rec)" for e
    by (rule verify_pool_bsc_lock_gate)
  fix k x
  assume k: "x \<longrightarrow> sell_gate_seen w k rec"
  show "keeps (holds w S k) w
     (if \<not> x then ret ()
      else bind_step (attempt (ask (\<lambda>s. pool_get_swap s (swap_id rec))))
             (\<lambda>x. update (swap_id rec) (\<lambda>r. r\<lparr>status := PoolLocked,
                pool_lock_ref := (case x of Inl _ \<Rightarrow> None | Inr pj \<Rightarrow> ps_lock_tx pj)\<rparr>)))"
    by (intro keeps_intros gated.keeps_reads keeps_update_hand(1) [OF assms refl])
       (use k in \<open>auto\<close>)
qed

lemma keeps_mirror_buy:
  assumes "rec \<in> S" "direction rec = BnbToExfer"
  shows "keeps (holds w S n) w (mirror_buy rec)"
  unfolding mirror_buy_def
  by (intro keeps_intros gated.keeps_reads keeps_update_hand(1) [OF assms(1) refl])
     (use assms(2) in \<open>auto simp: sell_v1_def\<close>)

text \<open>A record in hand brings its secret with it, and its gate once it is past it.\<close>

lemma keeps_in_hand:
  assumes "rec \<in> S"
    and "\<And>k. n \<le> k \<Longrightarrow> well_backed w k rec \<Longrightarrow> keeps (holds w S k) w m"
  shows "keeps (holds w S n) w m"
proof (rule keepsI)
  fix e
  assume e: "holds w S n e"
  then have "well_backed w (calls e) rec" "holds w S (calls e) e" "n \<le> calls e"
    using assms(1) by (auto simp: holds_def in_hand_def)
  with assms(2) have "wp m w e (\<lambda>e1 _. holds w S (calls e) e1)" by (simp add: keeps_def)
  then show "wp m w e (\<lambda>e1 _. holds w S n e1)"
    by (rule wp_mono) (use \<open>n \<le> calls e\<close> in \<open>simp add: holds_def\<close>)
qed

lemma keeps_send_sell_claim:
  assumes "rec \<in> S" "sell_v1 rec" "own_secret w rec" "sell_gate_seen w n rec"
  shows "keeps (holds w S n) w (send_sell_claim rec)"
proof -
  have gate: "justified w m (RelayClaim (swap_id rec) (preimage rec))"
    "or_empty (htlc_contract rec) \<noteq> [] \<Longrightarrow> justified w m (ClaimBnb (or_empty (htlc_contract rec)) (preimage rec))"
    if "n \<le> m" for m
    using assms(2,3) sell_gate_seen_mono [OF assms(4) that]
    by (auto simp: or_empty_def split: option.splits)
  show ?thesis
    unfolding send_sell_claim_def
    by (intro keeps_intros gated.keeps_reads keeps_send keeps_update_hand(1) [OF assms(1) refl])
       (use gate assms in \<open>auto simp del: justified.simps\<close>)
qed

lemma keeps_claim_sell:
  assumes "rec \<in> S" "sell_v1 rec" "reveals_settle (status rec)"
  shows "keeps (holds w S n) w (claim_sell rec)"
proof (rule keeps_in_hand [OF assms(1)])
  fix k
  assume "well_backed w k rec"
  then have gate: "own_secret w rec" "sell_gate_seen w k rec"
    using assms by (auto simp: well_backed_def sell_v1_def)
  show "keeps (holds w S k) w (claim_sell rec)"
    unfolding claim_sell_def
    by (intro keeps_intros gated.keeps_reads gated.keeps_looks
          keeps_send_sell_claim [OF assms(1,2) gate] keeps_update_hand(1) [OF assms(1) refl])
       (use assms in auto)
qed

lemma keeps_send_buy_claim:
  assumes "rec \<in> S" "direction rec = BnbToExfer" "own_secret w rec"
    and pl: "k < n" "htlc_lookup (at w k) (strip0x (hashlock rec)) = Inr htlcs" "pl \<in> set htlcs"
      "is_us (crate w) sg (or_empty (our_exfer_address rec)) (receiver_of pl)"
      "state_of pl \<noteq> ''claimed''" "state_of pl \<noteq> ''reclaimed''"
  shows "keeps (holds w S n) w (send_buy_claim rec sg pl)"
proof -
  have gate: "\<exists>r. hex_decode (crate w) (strip0x (preimage r)) = Some pre \<and> own_secret w r
      \<and> buy_gate_seen w m r (signer_pubkey sg) (timeout_of pl)"
    if "ih_amount pl = Some amt" "parse_u64_string (amount_out_units rec) = Some want" "\<not> amt < want"
       "n \<le> j" "block_height (at w j) = Inr tip" "\<not> timeout_of pl < tip + min_exfer_lock_blocks"
       "j < m" "hex_decode (crate w) (strip0x (preimage rec)) = Some pre"
    for m amt want j tip pre
  proof -
    have "buy_gate_at w k j rec (signer_pubkey sg) (timeout_of pl)"
      unfolding buy_gate_at_def using that pl by (auto simp: not_less)
    moreover have "k < j" using pl(1) that by simp
    ultimately show ?thesis using that assms(3) by (auto simp: buy_gate_seen_def)
  qed
  show ?thesis
    unfolding send_buy_claim_def
    by (intro keeps_bind_need keeps_after keeps_bind_pure keeps_intros keeps_send
          keeps_update_hand(1) [OF assms(1) refl])
       (auto simp: sell_v1_def assms(2) ok_or_eq Suc_le_eq intro: gate)
qed

lemma keeps_claim_buy:
  assumes "rec \<in> S" "direction rec = BnbToExfer" "own_secret w rec"
  shows "keeps (holds w S n) w (claim_buy rec)"
  unfolding claim_buy_def
proof (rule keeps_result [OF gated.keeps_looks(6) indexed_pool_lock_result])
  fix k x
  assume "\<exists>j < k. \<exists>hs. htlc_lookup (at w j) (strip0x (hashlock rec)) = Inr hs
    \<and> snd x = find (\<lambda>h. is_us (crate w) (fst x) (or_empty (our_exfer_address rec)) (receiver_of h)) hs"
  then obtain j hs where j: "j < k" "htlc_lookup (at w j) (strip0x (hashlock rec)) = Inr hs"
    and found: "snd x = find (\<lambda>h. is_us (crate w) (fst x) (or_empty (our_exfer_address rec)) (receiver_of h)) hs"
    by auto
  have pl: "pl \<in> set hs" "is_us (crate w) sg (or_empty (our_exfer_address rec)) (receiver_of pl)"
    if "x = (sg, y)" "y = Some pl" for sg y pl
    using found that by (auto simp: find_Some_iff2)
  have send: "keeps (holds w S k) w (send_buy_claim rec sg pl)"
    if "x = (sg, y)" "y = Some pl" "state_of pl \<noteq> ''claimed''" "state_of pl \<noteq> ''reclaimed''" for sg y pl
    by (rule keeps_send_buy_claim [OF assms j pl [OF that(1,2)] that(3,4)])
  show "keeps (holds w S k) w (case x of (sg, found) \<Rightarrow> (case found of None \<Rightarrow> ret () | Some pl \<Rightarrow>
     if state_of pl = ''claimed'' then
       update (swap_id rec) (\<lambda>r. r\<lparr>status := Completed,
         claim_tx := (case Option.bind (ih_claim pl) id of Some tx \<Rightarrow> Some tx | None \<Rightarrow> claim_tx rec),
         pool_lock_ref := (case pool_lock_ref rec of Some p \<Rightarrow> Some p | None \<Rightarrow> ih_lock_tx pl),
         swap_error := None\<rparr>)
     else if state_of pl = ''reclaimed'' then
       update (swap_id rec) (\<lambda>r. r\<lparr>status := Refunding, swap_error := Some
         ''EXFER claim never confirmed; pool reclaimed its lock - refunding your BNB''\<rparr>)
     else
     bind_step (prior_claim_live rec) (\<lambda>live.
     if live then ret () else send_buy_claim rec sg pl)))"
    by (intro keeps_intros gated.keeps_looks keeps_update_hand(1) [OF assms(1) refl])
       (auto simp: sell_v1_def assms(2) intro: send)
qed

lemma keeps_advance:
  assumes "rec \<in> S"
  shows "keeps (holds w S n) w (advance rec)"
proof (cases "flow rec")
  case V2
  then show ?thesis by (simp add: advance_def keeps_advance_v2 assms)
next
  case V1
  have sell: "sell_v1 rec" if "direction rec = ExferToBnb" using V1 that by (simp add: sell_v1_def)
  show ?thesis
  proof (rule keeps_in_hand [OF assms])
    fix k
    assume "well_backed w k rec"
    then have own: "own_secret w rec" using V1 by (simp add: well_backed_def)
    show "keeps (holds w S k) w (advance rec)"
      by (cases "status rec"; cases "direction rec")
         (simp_all add: advance_def V1 keeps_ret keeps_mirror_sell keeps_mirror_buy keeps_claim_sell
            keeps_claim_buy assms sell own reveals_settle_def)
  qed
qed

section \<open>Refunds\<close>

lemma keeps_htlc_state [keeps_intros]:
  "(s = HtlcNone \<Longrightarrow> keeps P w a) \<Longrightarrow> (s = HtlcLocked \<Longrightarrow> keeps P w b) \<Longrightarrow>
   (s = HtlcClaimed \<Longrightarrow> keeps P w c) \<Longrightarrow> (s = HtlcRefunded \<Longrightarrow> keeps P w d) \<Longrightarrow>
   keeps P w (case s of HtlcNone \<Rightarrow> a | HtlcLocked \<Rightarrow> b | HtlcClaimed \<Rightarrow> c | HtlcRefunded \<Rightarrow> d)"
  by (cases s) auto

lemma keeps_refund: "keeps (holds w S n) w (refund i)"
  unfolding refund_def refund_sell_def refund_buy_def Let_def
  by (intro keeps_after keeps_intros gated.keeps_looks keeps_send keeps_update_plain)
     (auto simp: reveals_settle_def Suc_le_eq dest: less_trans)

section \<open>Background work\<close>

text \<open>Records copied out of the journal are in hand for the loop over them.\<close>

lemma in_hand_records:
  assumes "holds w S n e" "set rs \<subseteq> snd ` set (records (swaps e))"
  shows "holds w (S \<union> set rs) n e"
proof -
  have book: "book_ok w (calls e) (records (swaps e))" using assms(1) by (simp add: holds_def engine_ok_def)
  have "in_hand w e r" if "r \<in> set rs" for r
    using book_ok_entry [OF book subsetD [OF assms(2) that]] by (auto simp: in_hand_def)
  then show ?thesis using assms(1) by (auto simp: holds_def)
qed

lemma wp_records [wp_simps]:
  "wp all_records w e Q = Q e (Inr (journal_list (swaps e)))"
  "wp pending_records w e Q = Q e (Inr (journal_pending (swaps e)))"
  by (simp_all add: wp_def all_records_def pending_records_def)

lemma keeps_records_loop:
  assumes "\<And>rs. keeps (holds w (S \<union> set rs) n) w (g rs)"
  shows "keeps (holds w S n) w (bind_step all_records g)"
    "keeps (holds w S n) w (bind_step pending_records g)"
proof -
  have *: "wp (g rs) w e (\<lambda>e1 _. holds w S n e1)"
    if "holds w S n e" "set rs \<subseteq> snd ` set (records (swaps e))" for e rs
    by (rule wp_mono [where P = "\<lambda>e1 _. holds w (S \<union> set rs) n e1"])
       (use assms [of rs] in_hand_records [OF that] in \<open>auto simp: keeps_def holds_def\<close>)
  show "keeps (holds w S n) w (bind_step all_records g)"
    by (rule keepsI)
       (use * in \<open>simp add: wp_simps journal_list_def\<close>)
  show "keeps (holds w S n) w (bind_step pending_records g)"
    by (rule keepsI)
       (use * in \<open>auto simp: wp_simps journal_pending_def\<close>)
qed

lemma keeps_reconcile_completed: "keeps (holds w S n) w reconcile_completed"
proof -
  have "keeps (holds w T n) w (reconcile_completed_record now rec)" if "rec \<in> T" for T now rec
    unfolding reconcile_completed_record_def
    by (intro keeps_intros gated.keeps_looks keeps_update_hand(2) [OF that refl])
       (auto simp: reveals_settle_def)
  then show ?thesis
    unfolding reconcile_completed_def
    by (intro keeps_bind gated.keeps_reads keeps_records_loop keeps_for_each) auto
qed

lemma keeps_reconcile_failed: "keeps (holds w S n) w reconcile_failed_v2"
proof -
  have "keeps (holds w T n) w (reconcile_failed_record now rec)" if "rec \<in> T" for T now rec
    unfolding reconcile_failed_record_def
    by (intro keeps_intros gated.keeps_reads keeps_update_hand(2) [OF that refl])
       (auto simp: sell_v1_def)
  then show ?thesis
    unfolding reconcile_failed_v2_def
    by (intro keeps_bind gated.keeps_reads keeps_records_loop keeps_for_each) auto
qed

lemma keeps_mirror_recovery: "keeps (holds w S n) w (mirror_recovery h tx)"
  unfolding mirror_recovery_def
  by (intro keeps_intros keeps_update_plain) (auto simp: reveals_settle_def)

lemma keeps_sweep_locks: "keeps (holds w S n) w sweep_stranded_locks"
  unfolding sweep_stranded_locks_def sweep_wallet_def sweep_row_def
  by (intro keeps_intros gated.keeps_reads keeps_send keeps_mirror_recovery) auto

lemma keeps_sweep_bnb: "keeps (holds w S n) w sweep_stranded_bnb_locks"
  unfolding sweep_stranded_bnb_locks_def sweep_hashlock_def
  by (intro keeps_after_attempt keeps_intros gated.keeps_reads keeps_send keeps_mirror_recovery)
     (auto simp: Suc_le_eq dest: less_trans)

lemma keeps_repair: "keeps (holds w S n) w repair_stranded_bnb_refunds"
  unfolding repair_stranded_bnb_refunds_def repair_record_def
  by (intro keeps_intros gated.keeps_reads keeps_update_plain) (auto simp: reveals_settle_def)

lemma keeps_recover: "keeps (holds w S n) w recover_stranded_bnb_via_pool"
  unfolding recover_stranded_bnb_via_pool_def recover_lock_def
  by (intro keeps_after_attempt keeps_intros gated.keeps_reads keeps_send)
     (auto simp: Suc_le_eq dest: less_trans)

lemma keeps_recovery: "keeps (holds w S n) w recovery_passes"
  unfolding recovery_passes_def
  by (intro keeps_bind keeps_reconcile_completed keeps_reconcile_failed keeps_sweep_locks keeps_sweep_bnb
        keeps_repair keeps_recover)

lemma keeps_remove: "keeps (holds w S n) w (remove i)"
proof (rule keepsI)
  fix e
  assume e: "holds w S n e"
  note e1 = holds_call [OF e]
  show "wp (remove i) w e (\<lambda>e1 _. holds w S n e1)"
    by (rule persist_locked_cases [of "storage (at w (calls e))"
          "(swaps e)\<lparr>records := map_remove i (records (swaps e))\<rparr>"])
       (use e1 in \<open>auto simp: wp_def remove_def journal_remove_def holds_def engine_ok_def in_hand_def
          intro!: book_ok_remove split: if_splits\<close>)
qed

lemma keeps_monitor_record:
  assumes "rec \<in> S"
  shows "keeps (holds w S n) w (monitor_record rec)"
  unfolding monitor_record_def monitor_v2_def settle_or_refund_def Let_def
  by (intro keeps_intros gated.keeps_reads gated.keeps_looks keeps_remove keeps_refund
        keeps_advance [OF assms])

lemma keeps_monitor_turn: "keeps (holds w S n) w (monitor_turn due)"
  unfolding monitor_turn_def
  by (intro keeps_bind keeps_if keeps_recovery keeps_ret keeps_records_loop keeps_for_each
        keeps_monitor_record) auto

section \<open>Quotes\<close>

lemma keeps_put:
  assumes "\<not> reveals_settle (status r)" "flow r = V1 \<longrightarrow> own_secret w r"
  shows "keeps (holds w {} n) w (put r)"
proof (rule keepsI)
  fix e
  assume e: "holds w {} n e"
  note e1 = holds_call [OF e]
  have "book_ok w (calls e + 1) (map_insert (swap_id r) r (records (swaps e)))"
    by (rule book_ok_insert) (use e1 assms in \<open>auto simp: holds_def engine_ok_def well_backed_def\<close>)
  then show "wp (put r) w e (\<lambda>e1 _. holds w {} n e1)"
    by (rule_tac persist_locked_cases [of "storage (at w (calls e))"
          "(swaps e)\<lparr>records := map_insert (swap_id r) r (records (swaps e))\<rparr>"])
       (use e1 in \<open>auto simp: wp_def put_def journal_put_def holds_def engine_ok_def\<close>)
qed

lemma keeps_store_quote:
  assumes "fl = V1 \<Longrightarrow> own_secret w (quoted_record dir fl h pre a b q 0)"
  shows "keeps (holds w {} n) w (store_quote dir fl h pre a b q)"
  unfolding store_quote_def Let_def
  by (intro keeps_intros gated.keeps_reads keeps_put)
     (use assms in \<open>auto simp: quoted_record_def reveals_settle_def own_secret_def\<close>)

lemma keeps_get_quote_v1: "keeps (holds w {} n) w (get_quote_v1 dir amt addr)"
  unfolding get_quote_v1_def
  by (intro keeps_bind_pure keeps_intros gated.keeps_reads gated.keeps_looks keeps_store_quote)
     (auto simp: own_secret_def quoted_record_def)

lemma keeps_get_quote: "keeps (holds w {} n) w (get_quote dir amt addr fl)"
  unfolding get_quote_def
  by (intro keeps_intros gated.keeps_reads gated.keeps_looks keeps_store_quote keeps_get_quote_v1) simp

section \<open>The BNB wallet\<close>

lemma keeps_send_bnb: "keeps (holds w S n) w (send_bnb to amt)"
  unfolding send_bnb_def withdrawal_amount_def
  by (intro keeps_intros gated.keeps_reads keeps_send) simp

lemma keeps_bnb_history: "keeps (holds w S n) w bnb_tx_history"
  unfolding bnb_tx_history_def settle_entry_def
  by (intro keeps_intros gated.keeps_reads keeps_same)

section \<open>Every reachable state\<close>

lemma restart_ok: "engine_ok w e \<Longrightarrow> engine_ok w (restart e)"
  by (simp add: restart_def new_engine_def journal_open_def engine_ok_def)

lemma after_ok: "engine_ok w e \<Longrightarrow> keeps (holds w {} 0) w m \<Longrightarrow> engine_ok w (after m w e)"
  using keepsD [of "holds w {} 0" w m e] by (simp add: holds_def)

lemma happen_ok: "engine_ok w e \<Longrightarrow> engine_ok w (happen ev w e)"
  by (cases ev)
     (simp_all add: after_ok restart_ok keeps_get_quote keeps_execute keeps_refund keeps_monitor_turn
        keeps_recovery keeps_send_bnb keeps_bnb_history)

lemma reachable_ok: "reachable w e \<Longrightarrow> engine_ok w e"
proof (induction rule: reachable.induct)
  case start
  then show ?case by (simp add: engine_ok_def new_engine_def journal_open_def book_ok_def)
next
  case (step e ev)
  then show ?case by (simp add: happen_ok)
qed

lemma reachable_justified: "reachable w e \<Longrightarrow> a \<in> set (trace e) \<Longrightarrow> justified w (calls e) a"
  using reachable_ok [of w e] by (simp add: engine_ok_def)

lemma one_swap_fields [simp]:
  "trace (one_swap r n tr) = tr" "calls (one_swap r n tr) = n" "records (swaps (one_swap r n tr)) = [(swap_id r, r)]"
  by (simp_all add: one_swap_def new_engine_def journal_open_def)

section \<open>Properties\<close>









text \<open>Every refund of BNB the engine sends was preceded by a read of the contract that showed the
  swap as locked: by the refund call, by the event sweep and by the sweep the pool guides.\<close>

theorem bnb_refund_of_locked_only:
  assumes "reachable w e" and "RefundBnb c h \<in> set (trace e)"
  shows "\<exists>k oc. k < calls e \<and> get_htlc_swap (at w k) c h = Inr oc \<and> oc_state oc = HtlcLocked"
  using reachable_justified [OF assms] by auto

lemma bnb_refund_of_locked_only_witness:
  "\<exists>e k oc. reachable sample_world e \<and> get_htlc_swap (at sample_world k) ''c'' ''0xx'' = Inr oc"
proof -
  obtain m r where r: "reachable sample_world (one_swap r m buy_trace)" using buy_reached by blast
  have t: "RefundBnb ''c'' ''0xx'' \<in> set (trace (one_swap r m buy_trace))" by (simp add: buy_trace_def)
  from bnb_refund_of_locked_only [OF r t] r show ?thesis by blast
qed



end
