(* ===== verification/SwapFrame.thy ===== *)
theory SwapFrame imports SwapGates begin

text \<open>
  What the steps of the swap engine leave alone.  The interface \<open>engine_predicate\<close> says which writes
  a predicate on engines survives, and its lemmas carry the predicate through every step whose
  writes go to allowed ids.  Three predicates are put through it: that the file holds what memory
  holds, that the record of one swap is as it was, and that nothing already sent is taken back.
\<close>

section \<open>The interface\<close>

text \<open>\<open>J\<close> are the ids that may be written.\<close>

locale engine_predicate = journal_predicate P w for P w +
  fixes J :: "string set"
  assumes traced: "P e \<Longrightarrow> P (e\<lparr>calls := calls e + 1, trace := trace e @ [a]\<rparr>)"
    and keyed: "P e \<Longrightarrow> journal_get i (swaps e) = Some r \<Longrightarrow> swap_id r = i"
    and advanced: "P e \<Longrightarrow> i \<in> J \<Longrightarrow> (\<And>r. static (f r) = static r) \<Longrightarrow> P (after (update_at now i f) w e)"
    and dropped: "P e \<Longrightarrow> i \<in> J \<Longrightarrow> P (after (remove i) w e)"
begin

lemma keeps_traced: "keeps P w (send f a)"
  by (simp add: keeps_def wp_simps traced del: One_nat_def)

lemma keeps_advanced:
  assumes "i \<in> J" "\<And>r. static (f r) = static r"
  shows "keeps P w (update_at now i f)" "keeps P w (update i f)"
proof -
  show *: "keeps P w (update_at now i f)" for now
    using advanced [OF _ assms] by (simp add: keeps_def wp_run)
  show "keeps P w (update i f)"
    unfolding update_def by (intro keeps_bind keeps_see *)
qed

lemma keeps_dropped: "i \<in> J \<Longrightarrow> keeps P w (remove i)"
  using dropped by (simp add: keeps_def wp_run)

lemma keeps_found:
  assumes "\<And>x. (\<And>r. x = Some r \<Longrightarrow> swap_id r = i) \<Longrightarrow> keeps P w (g x)"
  shows "keeps P w (bind_step (lookup i) g)"
  using assms keyed by (simp add: keeps_def wp_simps)

lemmas keeps_steps = keeps_intros keeps_reads keeps_looks keeps_traced keeps_advanced
lemmas keeps_calls = keeps_intros keeps_see keeps_ask keeps_traced keeps_advanced

lemma keeps_lock_legs:
  assumes "swap_id rec \<in> J"
  shows "keeps P w (lock_sell_leg rec sg)" "keeps P w (lock_buy_leg rec limit pl)"
  unfolding lock_sell_leg_def lock_buy_leg_def
  by (intro keeps_steps; use assms in simp)+

lemma keeps_aborted: "swap_id rec \<in> J \<Longrightarrow> mirror_abort (swap_id rec) msg x = Some m \<Longrightarrow> keeps P w m"
  unfolding mirror_abort_def by (auto split: sum.splits if_splits intro!: keeps_advanced)

lemma keeps_drive_v2:
  assumes "swap_id rec0 \<in> J"
  shows "keeps P w (drive_v2_sell_lock rec0)" "keeps P w (drive_v2_buy_lock rec0)"
proof -
  have sell: "keeps P w (case v of Inr True \<Rightarrow> lock_sell_leg rec sg | _ \<Rightarrow> ret ())"
    if "swap_id rec \<in> J" for v :: "bool res" and rec sg
    using that by (auto split: sum.split bool.split intro: keeps_ret keeps_lock_legs)
  show "keeps P w (drive_v2_sell_lock rec0)"
    unfolding drive_v2_sell_lock_def
    by (intro keeps_found keeps_option sell keeps_steps) (use assms in \<open>auto intro: keeps_aborted\<close>)
  show "keeps P w (drive_v2_buy_lock rec0)"
    unfolding drive_v2_buy_lock_def
    by (intro keeps_found keeps_option keeps_lock_legs keeps_steps) (use assms in \<open>auto intro: keeps_aborted\<close>)
qed

lemma keeps_claims:
  assumes "swap_id rec \<in> J"
  shows "keeps P w (send_sell_claim rec)" "keeps P w (claim_sell rec)" "keeps P w (claim_buy rec)"
    "keeps P w (mirror_sell rec)" "keeps P w (mirror_buy rec)"
proof -
  show *: "keeps P w (send_sell_claim rec)"
    unfolding send_sell_claim_def by (intro keeps_steps) (use assms in simp_all)
  show "keeps P w (claim_sell rec)"
    unfolding claim_sell_def by (intro * keeps_steps) (use assms in simp_all)
  show "keeps P w (claim_buy rec)"
    unfolding claim_buy_def send_buy_claim_def by (intro keeps_steps) (use assms in simp_all)
  show "keeps P w (mirror_sell rec)" "keeps P w (mirror_buy rec)"
    unfolding mirror_sell_def mirror_buy_def Let_def by (intro keeps_steps; use assms in simp)+
qed

lemma keeps_advance_any:
  assumes "swap_id rec \<in> J"
  shows "keeps P w (advance rec)"
proof -
  have "keeps P w (advance_v2 rec)"
    unfolding advance_v2_def by (intro keeps_drive_v2 keeps_steps) (use assms in simp_all)
  then show ?thesis
    unfolding advance_def using keeps_claims [OF assms]
    by (cases "status rec"; cases "direction rec") (simp_all add: keeps_ret)
qed

lemma keeps_refund_any:
  assumes "i \<in> J"
  shows "keeps P w (refund i)"
proof -
  have buy: "keeps P w (refund_buy i rec)" for rec
    unfolding refund_buy_def Let_def
    by (intro keeps_calls keeps_looks) (use assms in simp_all)
  have sell: "keeps P w (refund_sell i rec l)" for rec l
    unfolding refund_sell_def Let_def by (intro keeps_calls) (use assms in simp_all)
  show ?thesis
    unfolding refund_def by (intro keeps_calls buy sell)
qed

lemma keeps_execute_any:
  assumes "i \<in> J"
  shows "keeps P w (execute i)"
proof -
  have v1: "keeps P w (execute_sell i rec)" "keeps P w (execute_buy i rec)" for rec
    unfolding execute_sell_def execute_buy_def by (intro keeps_calls; use assms in simp)+
  have v2: "keeps P w (execute_v2 i rec)" for rec
    unfolding execute_v2_def by (intro keeps_calls) (use assms in simp_all)
  show ?thesis
    unfolding execute_def by (intro v1 v2 keeps_calls) (use assms in simp_all)
qed

lemma keeps_monitor_any:
  assumes "swap_id rec \<in> J"
  shows "keeps P w (monitor_record rec)"
proof -
  have found: "keeps P w (bind_step (lookup (swap_id rec)) (\<lambda>x.
      let now_rec = (case x of None \<Rightarrow> rec | Some r \<Rightarrow> r) in
      bind_step (overdue now_rec) (\<lambda>late. if late then ignoring (refund (swap_id now_rec)) else ret ())))"
  proof (rule keeps_found)
    fix x :: "swap_record option"
    assume "\<And>r. x = Some r \<Longrightarrow> swap_id r = swap_id rec"
    then have "swap_id (case x of None \<Rightarrow> rec | Some r \<Rightarrow> r) = swap_id rec" by (cases x) auto
    with assms have "swap_id (case x of None \<Rightarrow> rec | Some r \<Rightarrow> r) \<in> J" by simp
    then show "keeps P w (let now_rec = (case x of None \<Rightarrow> rec | Some r \<Rightarrow> r) in
        bind_step (overdue now_rec) (\<lambda>late. if late then ignoring (refund (swap_id now_rec)) else ret ()))"
      unfolding Let_def by (intro keeps_bind keeps_looks keeps_if keeps_ignoring keeps_refund_any keeps_ret)
  qed
  have v2: "keeps P w (monitor_v2 rec)"
    unfolding monitor_v2_def by (intro keeps_bind [OF _ found] keeps_attempt keeps_advance_any assms)
  show ?thesis
    unfolding monitor_record_def settle_or_refund_def
    by (intro v2 keeps_advance_any keeps_refund_any keeps_dropped keeps_intros keeps_see keeps_looks)
       (use assms in simp_all)
qed

lemma keeps_bnb_wallet: "keeps P w (send_bnb to amt)" "keeps P w bnb_tx_history"
  unfolding send_bnb_def withdrawal_amount_def bnb_tx_history_def settle_entry_def
  by (intro keeps_intros keeps_reads keeps_traced keeps_same)+

end

text \<open>What the monitor may write: the records that are open when a turn starts.\<close>

locale loop_predicate = engine_predicate +
  assumes open_ids: "P e \<Longrightarrow> r \<in> set (journal_pending (swaps e)) \<Longrightarrow> swap_id r \<in> J"
begin

lemma keeps_monitor_loop: "keeps P w (monitor_turn False)"
proof (rule keepsI)
  fix e
  assume e: "P e"
  have "wp (for_each (journal_pending (swaps e)) monitor_record) w e (\<lambda>e1 _. P e1)"
    by (rule wp_for_each_invariant [where I = P, OF e])
       (use open_ids [OF e] keeps_monitor_any in \<open>auto simp: keeps_def\<close>)
  then show "wp (monitor_turn False) w e (\<lambda>e1 _. P e1)"
    by (simp add: monitor_turn_def wp_bind wp_ret) (simp add: wp_def pending_records_def)
qed

end

text \<open>With every id writable, every event but a restart and a new quote is survived.\<close>

locale whole_predicate = engine_predicate P w UNIV for P w

sublocale whole_predicate \<subseteq> loop_predicate P w UNIV
  by unfold_locales simp

context whole_predicate begin

lemma keeps_anywhere: "(\<And>r. static (f r) = static r) \<Longrightarrow> keeps P w (update_at now i f)"
  "(\<And>r. static (f r) = static r) \<Longrightarrow> keeps P w (update i f)"
  by (rule keeps_advanced; simp)+

lemma keeps_mirror: "keeps P w (mirror_recovery h tx)"
  unfolding mirror_recovery_def by (intro keeps_intros keeps_anywhere) simp

lemma keeps_passes: "keeps P w recovery_passes"
  unfolding recovery_passes_def reconcile_completed_def reconcile_completed_record_def reconcile_failed_v2_def
    reconcile_failed_record_def sweep_stranded_locks_def sweep_wallet_def sweep_row_def
    sweep_stranded_bnb_locks_def sweep_hashlock_def repair_stranded_bnb_refunds_def repair_record_def
    recover_stranded_bnb_via_pool_def recover_lock_def
  by (intro keeps_mirror keeps_intros keeps_anywhere keeps_looks keeps_traced keeps_reads; simp)+

lemma keeps_turn: "keeps P w (monitor_turn due)"
proof (cases due)
  case True
  have "keeps P w (bind_step recovery_passes (\<lambda>_. monitor_turn False))"
    by (intro keeps_bind keeps_passes keeps_monitor_loop)
  moreover have "monitor_turn True = bind_step recovery_passes (\<lambda>_. monitor_turn False)"
    by (simp add: monitor_turn_def bind_step_def ret_def)
  ultimately show ?thesis using True by simp
next
  case False
  then show ?thesis using keeps_monitor_loop by simp
qed

lemma survives_unless_quoted:
  assumes "P e" "ev \<noteq> Restart" "\<And>dir amt addr fl. ev \<noteq> GetQuote dir amt addr fl"
  shows "P (happen ev w e)"
proof (cases ev)
  case (GetQuote dir amt addr fl)
  then show ?thesis using assms(3) by blast
qed (use assms(2) in \<open>simp_all add: keepsD [of P w, OF _ assms(1)] keeps_execute_any keeps_refund_any keeps_bnb_wallet
        keeps_turn keeps_passes\<close>)

end

text \<open>With quotes stored as well, every event but a restart.\<close>

locale quoting_predicate = whole_predicate +
  assumes stored: "P e \<Longrightarrow> P (after (put r) w e)"
begin

lemma keeps_quotes: "keeps P w (get_quote dir amt addr fl)"
proof -
  have "keeps P w (put r)" for r using stored by (simp add: keeps_def wp_run)
  then show ?thesis
    unfolding get_quote_def get_quote_v1_def store_quote_def Let_def
    by (intro keeps_intros keeps_see keeps_looks) simp_all
qed

lemma survives:
  assumes "P e" "ev \<noteq> Restart"
  shows "P (happen ev w e)"
proof (cases "\<exists>dir amt addr fl. ev = GetQuote dir amt addr fl")
  case True
  then show ?thesis using keepsD [of P w, OF keeps_quotes assms(1)] by auto
qed (use survives_unless_quoted [OF assms] in blast)

end

section \<open>Journals keyed by their ids\<close>

definition well_keyed :: "swap_map \<Rightarrow> bool" where
  "well_keyed m \<longleftrightarrow> sorted_wrt (<) (map fst m) \<and> (\<forall>(k, r) \<in> set m. swap_id r = k)"

lemma well_keyed_insert: "well_keyed m \<Longrightarrow> swap_id r = k \<Longrightarrow> well_keyed (map_insert k r m)"
  using set_map_insert [of k r m] by (fastforce simp: well_keyed_def sorted_map_insert)

lemma well_keyed_remove: "well_keyed m \<Longrightarrow> well_keyed (map_remove k m)"
  unfolding well_keyed_def map_remove_def by (auto simp: sorted_wrt_map intro: sorted_wrt_filter)

lemma well_keyed_lookup: "well_keyed m \<Longrightarrow> map_of m k = Some r \<Longrightarrow> swap_id r = k"
  by (auto simp: well_keyed_def dest: map_of_SomeD)

lemma well_keyed_entry:
  assumes "well_keyed m" "r \<in> snd ` set m"
  shows "map_of m (swap_id r) = Some r"
proof -
  have "distinct (map fst m)" using assms(1) strict_sorted_iff by (auto simp: well_keyed_def)
  with assms show ?thesis by (force simp: well_keyed_def intro: map_of_is_SomeI)
qed

lemma reachable_keyed: "reachable w e \<Longrightarrow> well_keyed (records (swaps e))"
  by (drule reachable_ok) (auto simp: well_keyed_def engine_ok_def book_ok_def)

text \<open>The three ways of writing the journal: memory always changes, the file only when storage allows.\<close>

lemma persisted:
  "records (fst (persist_locked io j)) = records j"
  "sealed (fst (persist_locked io j)) = (if io = Inr () then records j else sealed j)"
  by (cases io; simp add: persist_locked_def)+

lemma written:
  "journal_get i (swaps e) = Some r \<Longrightarrow> records (swaps (after (update_at now i f) w e)) =
     map_insert i ((f r)\<lparr>updated_at := now\<rparr>) (records (swaps e))"
  "journal_get i (swaps e) = None \<Longrightarrow> swaps (after (update_at now i f) w e) = swaps e"
  "records (swaps (after (put q) w e)) = map_insert (swap_id q) q (records (swaps e))"
  "records (swaps (after (remove i) w e)) =
     (if journal_get i (swaps e) = None then records (swaps e) else map_remove i (records (swaps e)))"
  by (simp_all add: after_def update_at_def put_def remove_def journal_update_def journal_put_def
        journal_remove_def journal_get_def persisted split: prod.split)
     (auto dest!: arg_cong [where f = "\<lambda>x. records (fst x)"] simp: persisted)


text \<open>A write with static progress, or of a record under its own id, keeps the keys in order.\<close>

lemma progress_keeps_id: "(\<And>r. static (f r) = static r) \<Longrightarrow> swap_id ((f r)\<lparr>updated_at := t\<rparr>) = swap_id r"
  using static_fields(1) [of "f r" r] by simp

lemma keyed_advanced:
  assumes "well_keyed (records (swaps e))" "\<And>r. static (f r) = static r"
  shows "well_keyed (records (swaps (after (update_at now i f) w e)))"
proof (cases "journal_get i (swaps e)")
  case None
  then show ?thesis using assms(1) by (simp add: written(2))
next
  case (Some r)
  then have "swap_id r = i" using well_keyed_lookup [OF assms(1)] by (simp add: journal_get_def)
  then have "well_keyed (map_insert i ((f r)\<lparr>updated_at := now\<rparr>) (records (swaps e)))"
    by (intro well_keyed_insert assms(1)) (simp add: progress_keeps_id [OF assms(2), simplified])
  then show ?thesis by (simp add: written(1) [OF Some])
qed

lemma keyed_written:
  assumes "well_keyed (records (swaps e))"
  shows "well_keyed (records (swaps (after (put q) w e)))" "well_keyed (records (swaps (after (remove i) w e)))"
  using well_keyed_insert [OF assms refl] well_keyed_remove [OF assms] assms by (simp_all add: written)

section \<open>Memory and file\<close>

definition filed :: "world \<Rightarrow> engine \<Rightarrow> bool" where
  "filed w e \<longleftrightarrow> well_keyed (records (swaps e))
     \<and> ((\<forall>n. storage (at w n) = Inr ()) \<longrightarrow> sealed (swaps e) = records (swaps e))"

lemma sealed_written:
  assumes "\<forall>n. storage (at w n) = Inr ()" "sealed (swaps e) = records (swaps e)"
  shows "sealed (swaps (after (update_at now i f) w e)) = records (swaps (after (update_at now i f) w e))"
    "sealed (swaps (after (put q) w e)) = records (swaps (after (put q) w e))"
    "sealed (swaps (after (remove i) w e)) = records (swaps (after (remove i) w e))"
  using assms
  by (auto simp: after_def update_at_def put_def remove_def journal_update_def journal_put_def
        journal_remove_def persist_locked_def split: option.split)

interpretation disk: quoting_predicate "filed w" w for w
  by unfold_locales
     (auto simp: filed_def keyed_advanced keyed_written sealed_written journal_get_def
        intro: well_keyed_lookup [unfolded journal_get_def])

section \<open>One swap among others\<close>

definition stays :: "string \<Rightarrow> swap_record option \<Rightarrow> engine \<Rightarrow> bool" where
  "stays k x e \<longleftrightarrow> well_keyed (records (swaps e)) \<and> map_of (records (swaps e)) k = x"

lemma stays_session [simp]:
  "stays k x (e\<lparr>calls := n\<rparr>) = stays k x e" "stays k x (e\<lparr>calls := n, trace := tr\<rparr>) = stays k x e"
  "stays k x (e\<lparr>swept_locks := A\<rparr>) = stays k x e" "stays k x (e\<lparr>swept_bnb := B\<rparr>) = stays k x e"
  "stays k x (e\<lparr>bsc_sweep_cursor := c\<rparr>) = stays k x e" "stays k x (e\<lparr>bnb_txs := l\<rparr>) = stays k x e"
  by (simp_all add: stays_def)

lemma stays_found: "stays k x e \<Longrightarrow> journal_get i (swaps e) = Some r \<Longrightarrow> swap_id r = i"
  by (auto simp: stays_def journal_get_def intro: well_keyed_lookup)

lemma stays_advanced:
  assumes "stays k x e" "i \<noteq> k" "\<And>r. static (f r) = static r"
  shows "stays k x (after (update_at now i f) w e)"
  using assms keyed_advanced [OF _ assms(3), of e now i w]
  by (cases "journal_get i (swaps e)") (simp_all add: stays_def written)

lemma stays_written:
  assumes "stays k x e"
  shows "swap_id q \<noteq> k \<Longrightarrow> stays k x (after (put q) w e)" "i \<noteq> k \<Longrightarrow> stays k x (after (remove i) w e)"
  using assms by (simp_all add: stays_def keyed_written) (simp_all add: written)

interpretation others: engine_predicate "stays k x" w "- {k}" for k x w
  by unfold_locales (auto intro: stays_found stays_advanced stays_written)

text \<open>A closed record is not among those a turn of the monitor starts from.\<close>

definition settled :: "string \<Rightarrow> swap_record \<Rightarrow> engine \<Rightarrow> bool" where
  "settled k r e \<longleftrightarrow> stays k (Some r) e \<and> is_terminal r"

interpretation rest: loop_predicate "settled k r" w "- {k}" for k r w
proof unfold_locales
  fix e q
  assume e: "settled k r e" and q: "q \<in> set (journal_pending (swaps e))"
  then have "map_of (records (swaps e)) (swap_id q) = Some q"
    by (auto simp: settled_def stays_def journal_pending_def intro: well_keyed_entry)
  with e q show "swap_id q \<in> - {k}" by (auto simp: settled_def stays_def journal_pending_def)
qed (auto simp: settled_def intro: stays_found stays_advanced stays_written)


section \<open>Properties\<close>





end
