(* ===== verification/SwapTurns.thy ===== *)
theory SwapTurns imports SwapFrame begin

text \<open>
  What single calls of the swap engine do, read off their steps: quoting, executing once and again,
  the refund of a buy, amounts; and what a failing write of the journal leads to.
\<close>

section \<open>Steps that write\<close>

lemma wp_update_at [wp_simps]:
  "wp (update_at now i f) w e Q =
     (case journal_update (storage (at w (calls e))) i now f (swaps e) of
        (j, r) \<Rightarrow> Q (e\<lparr>swaps := j, calls := calls e + 1\<rparr>) r)"
  by (simp add: wp_def update_at_def case_prod_beta)

lemma wp_put [wp_simps]:
  "wp (put r) w e Q =
     (case journal_put (storage (at w (calls e))) r (swaps e) of
        (j, x) \<Rightarrow> Q (e\<lparr>swaps := j, calls := calls e + 1\<rparr>) x)"
  by (simp add: wp_def put_def case_prod_beta)

text \<open>A write goes to memory and, when storage allows, to the file.\<close>

definition written_map :: "string \<Rightarrow> (swap_record \<Rightarrow> swap_record) \<Rightarrow> u64 \<Rightarrow> swap_record \<Rightarrow> engine \<Rightarrow> swap_map" where
  "written_map i f now q e = map_insert i ((f q)\<lparr>updated_at := now\<rparr>) (records (swaps e))"

lemma wp_update:
  "wp (update i f) w e Q =
     (case journal_get i (swaps e) of
        None \<Rightarrow> Q (e\<lparr>calls := calls e + 2\<rparr>) (Inl (BadParams ''unknown swap_id''))
      | Some q \<Rightarrow>
          (case storage (at w (calls e + 1)) of
             Inl d \<Rightarrow> Q (e\<lparr>swaps := (swaps e)\<lparr>records := written_map i f (clock_now (at w (calls e))) q e\<rparr>,
                          calls := calls e + 2\<rparr>) (Inl d)
           | Inr _ \<Rightarrow> Q (e\<lparr>swaps := \<lparr>records = written_map i f (clock_now (at w (calls e))) q e,
                                    sealed = written_map i f (clock_now (at w (calls e))) q e\<rparr>,
                          calls := calls e + 2\<rparr>) (Inr ())))"
  by (cases "journal_get i (swaps e)"; cases "storage (at w (Suc (calls e)))"; cases "swaps e"; cases e)
     (simp_all add: update_def wp_simps journal_update_def journal_get_def persist_locked_def written_map_def)

lemma map_of_written [simp]:
  "map_of (written_map i f now q e) i = Some ((f q)\<lparr>updated_at := now\<rparr>)"
  by (simp add: written_map_def)

section \<open>Executing\<close>

definition is_lock :: "action \<Rightarrow> bool" where
  "is_lock a \<longleftrightarrow> (case a of LockExfer _ _ _ _ _ \<Rightarrow> True | LockBnb _ _ _ _ _ \<Rightarrow> True | _ \<Rightarrow> False)"

lemma execute_sell_good:
  "wp (execute_sell i rec) w e (\<lambda>e1 r. \<forall>x. r = Inr x \<longrightarrow>
     (\<exists>q tx. journal_get i (swaps e1) = Some q \<and> status q = UserLocked \<and> user_lock_tx q = Some tx
        \<and> (\<exists>key to h limit amt. trace e1 = trace e @ [LockExfer key to h limit amt, NotifyExferLock i tx])))"
  unfolding execute_sell_def
  by (auto simp: wp_simps wp_update journal_get_def split: option.split sum.split)

lemma execute_buy_good:
  "wp (execute_buy i rec) w e (\<lambda>e1 r. \<forall>x. r = Inr x \<longrightarrow>
     (\<exists>q tx. journal_get i (swaps e1) = Some q \<and> status q = UserLocked \<and> user_lock_tx q = Some tx
        \<and> (\<exists>c h to amt limit. trace e1 = trace e @ [LockBnb c h to amt limit])))"
  unfolding execute_buy_def
  by (auto simp: wp_simps wp_update journal_get_def split: option.split sum.split)

lemma execute_v2_good:
  "wp (execute_v2 i rec) w e (\<lambda>e1 r. \<forall>x. r = Inr x \<longrightarrow>
     journal_get i (swaps e1) = Some x \<and> status x = Committing \<and> trace e1 = trace e @ [CommitSwap i])"
  unfolding execute_v2_def
  by (auto simp: wp_simps wp_update journal_get_def split: option.split sum.split)

text \<open>What a successful execution did.\<close>

definition executed :: "string \<Rightarrow> engine \<Rightarrow> engine \<Rightarrow> swap_record \<Rightarrow> bool" where
  "executed i e e1 x \<longleftrightarrow> journal_get i (swaps e1) = Some x \<and> status x \<noteq> Quoted
     \<and> (\<exists>l. trace e1 = trace e @ l \<and> length (filter is_lock l) \<le> 1
          \<and> (filter is_lock l \<noteq> [] \<longrightarrow> status x = UserLocked \<and> user_lock_tx x \<noteq> None))"

lemma execute_leg_good:
  "wp (case direction rec of ExferToBnb \<Rightarrow> execute_sell i rec | BnbToExfer \<Rightarrow> execute_buy i rec) w e
     (\<lambda>e1 r. \<forall>u. r = Inr u \<longrightarrow> (\<exists>q. journal_get i (swaps e1) = Some q \<and> executed i e e1 q))"
proof (cases "direction rec")
  case ExferToBnb
  show ?thesis
    unfolding ExferToBnb swap_record.simps direction.case
    by (rule wp_mono [OF execute_sell_good]) (fastforce simp: executed_def is_lock_def)
next
  case BnbToExfer
  show ?thesis
    unfolding BnbToExfer direction.case
    by (rule wp_mono [OF execute_buy_good]) (fastforce simp: executed_def is_lock_def)
qed

lemma executed_trace: "trace e = trace e' \<Longrightarrow> executed i e = executed i e'"
  by (simp add: executed_def fun_eq_iff)

lemma execute_good:
  "wp (execute i) w e (\<lambda>e1 r. \<forall>x. r = Inr x \<longrightarrow> executed i e e1 x)"
proof (cases "journal_get i (swaps e)")
  case None
  then show ?thesis by (simp add: execute_def wp_simps)
next
  case (Some rec)
  define e' where "e' = e\<lparr>calls := calls e + 1\<rparr>"
  have e': "e\<lparr>calls := Suc (calls e)\<rparr> = e'" by (simp add: e'_def)
  have ex: "executed i e = executed i e'" by (rule executed_trace) (simp add: e'_def)
  have v2: "wp (execute_v2 i rec) w e' (\<lambda>e1 r. \<forall>x. r = Inr x \<longrightarrow> executed i e e1 x)"
    unfolding ex by (rule wp_mono [OF execute_v2_good]) (auto simp: executed_def is_lock_def)
  have v1: "wp (bind_step (case direction rec of ExferToBnb \<Rightarrow> execute_sell i rec | BnbToExfer \<Rightarrow> execute_buy i rec)
      (\<lambda>_. bind_step (lookup i) (\<lambda>y. ret (case y of None \<Rightarrow> rec | Some r \<Rightarrow> r)))) w e'
      (\<lambda>e1 r. \<forall>x. r = Inr x \<longrightarrow> executed i e e1 x)"
    unfolding ex wp_bind
    by (rule wp_mono [OF execute_leg_good]) (auto simp: wp_simps split: sum.split)
  show ?thesis
  proof (cases "status rec = Quoted")
    case False
    then show ?thesis
      using Some by (simp add: execute_def wp_simps executed_def)
  next
    case True
    then show ?thesis
      using Some v1 v2
      by (cases "clock_now (at w (calls e)) \<ge> expires_at rec"; cases "flow rec = V2")
         (simp_all add: execute_def wp_bind wp_lookup wp_need wp_see e' wp_raise wp_update_at
            split: prod.split sum.split)
  qed
qed

section \<open>Refunding a buy\<close>

text \<open>What a refund of a BNB lock leaves, by the state the contract showed.\<close>

definition refund_result :: "htlc_state \<Rightarrow> swap_status" where
  "refund_result st = (case st of HtlcLocked \<Rightarrow> Refunding | HtlcClaimed \<Rightarrow> UserLocked | _ \<Rightarrow> Refunded)"

lemma refund_buy_good:
  assumes "get_htlc_swap (at w (calls e)) (or_empty (htlc_contract rec)) (hashlock rec) = Inr oc"
  shows "wp (refund_buy i rec) w e (\<lambda>e1 r. (\<forall>u. r = Inr u \<longrightarrow>
      (\<exists>q. journal_get i (swaps e1) = Some q \<and> status q = refund_result (oc_state oc)))
    \<and> (\<exists>l. trace e1 = trace e @ l
         \<and> l \<in> {[], [RefundBnb (or_empty (htlc_contract rec)) (hashlock rec)]} \<and> (l \<noteq> [] \<longrightarrow> oc_state oc = HtlcLocked)))"
  using assms unfolding refund_buy_def reclaim_pending_def Let_def
  by (cases "oc_state oc")
     (auto simp: wp_simps wp_update journal_get_def refund_result_def split: option.split sum.split)

section \<open>Properties\<close>

text \<open>C20: Executing twice locks once.  When a call of \<open>execute\<close> succeeds, it has sent at most one lock, and
  if it sent one the record is \<open>UserLocked\<close> and names it; the record it returns is the one in the
  journal, no longer \<open>Quoted\<close>, and a second call of \<open>execute\<close> does nothing but return it.\<close>

theorem execute_is_idempotent:
  assumes "execute i w e = (e1, Inr r)"
  shows "journal_get i (swaps e1) = Some r \<and> status r \<noteq> Quoted
    \<and> length (filter is_lock (sent (execute i) w e)) \<le> 1
    \<and> (filter is_lock (sent (execute i) w e) \<noteq> [] \<longrightarrow> status r = UserLocked \<and> user_lock_tx r \<noteq> None)
    \<and> execute i w e1 = (e1, Inr r)"
proof -
  have "executed i e e1 r" using execute_good [of i w e] assms by (simp add: wp_def)
  then have x: "journal_get i (swaps e1) = Some r" "status r \<noteq> Quoted"
    and l: "length (filter is_lock (sent (execute i) w e)) \<le> 1"
      "filter is_lock (sent (execute i) w e) \<noteq> [] \<longrightarrow> status r = UserLocked \<and> user_lock_tx r \<noteq> None"
    using assms by (auto simp: executed_def sent_def after_def)
  have "execute i w e1 = (e1, Inr r)"
    using x by (simp add: execute_def bind_step_def lookup_def need_def ret_def)
  with x l show ?thesis by blast
qed

text \<open>C21: A refund of a buy follows the contract.  When the contract answers, the record of a successful
  refund ends \<open>Refunding\<close> only if the BNB is still locked there, goes back to settling if the pool
  claimed it, and is closed as \<open>Refunded\<close> only if nothing is locked any more; nothing is sent except
  one refund of that lock, and that only in the first case.  When the contract does not answer, the
  call fails with the answer's error, the journal is as it was and nothing is sent.\<close>

theorem buy_refund_follows_contract:
  assumes "journal_get i (swaps e) = Some rec" "\<not> is_terminal rec" "direction rec = BnbToExfer"
    "user_lock_tx rec = Some tx" "refund i w e = (e1, res)"
  shows "case get_htlc_swap (at w (calls e)) (or_empty (htlc_contract rec)) (hashlock rec) of
      Inl d \<Rightarrow> res = Inl d \<and> swaps e1 = swaps e \<and> trace e1 = trace e
    | Inr oc \<Rightarrow> (\<forall>q. res = Inr q \<longrightarrow> journal_get i (swaps e1) = Some q \<and> status q = refund_result (oc_state oc))
        \<and> (\<exists>l. trace e1 = trace e @ l \<and> l \<in> {[], [RefundBnb (or_empty (htlc_contract rec)) (hashlock rec)]}
             \<and> (l \<noteq> [] \<longrightarrow> oc_state oc = HtlcLocked))"
proof (cases "get_htlc_swap (at w (calls e)) (or_empty (htlc_contract rec)) (hashlock rec)")
  case (Inl d)
  then show ?thesis
    using assms by (auto simp: refund_def refund_buy_def runs)
next
  case (Inr oc)
  have run: "wp (refund i) w e Q = wp (refund_buy i rec) w e (\<lambda>e1 r. case r of Inl d \<Rightarrow> Q e1 (Inl d)
      | Inr x \<Rightarrow> wp (bind_step (lookup i) (\<lambda>y. ret (case y of None \<Rightarrow> rec | Some r \<Rightarrow> r))) w e1 Q)" for Q
    using assms(1-4) by (simp add: refund_def wp_bind wp_lookup wp_need)
  have "wp (refund i) w e (\<lambda>e1 r. (\<forall>q. r = Inr q \<longrightarrow>
      journal_get i (swaps e1) = Some q \<and> status q = refund_result (oc_state oc))
    \<and> (\<exists>l. trace e1 = trace e @ l
         \<and> l \<in> {[], [RefundBnb (or_empty (htlc_contract rec)) (hashlock rec)]} \<and> (l \<noteq> [] \<longrightarrow> oc_state oc = HtlcLocked)))"
    unfolding run by (rule wp_mono [OF refund_buy_good [OF Inr]]) (auto simp: wp_simps split: sum.split)
  then show ?thesis using Inr assms(5) by (simp add: wp_def)
qed

lemma execute_is_idempotent_witness:
  "\<exists>e1 r. execute ''s'' sample_world (one_swap (sample_swap ExferToBnb) 0 []) = (e1, Inr r)
     \<and> execute ''s'' sample_world e1 = (e1, Inr r) \<and> user_lock_tx r = Some ''tx''"
proof -
  let ?e = "one_swap (sample_swap ExferToBnb) 0 []"
  have "\<exists>e1 r. execute ''s'' sample_world ?e = (e1, Inr r) \<and> user_lock_tx r = Some ''tx''"
    by (simp add: runs execute_def execute_sell_def)
  then obtain e1 r where r: "execute ''s'' sample_world ?e = (e1, Inr r)" "user_lock_tx r = Some ''tx''" by blast
  from execute_is_idempotent [OF r(1)] r show ?thesis by blast
qed

lemma buy_refund_follows_contract_witness:
  "\<exists>e1 res. refund ''b'' sample_world (one_swap (sample_locked BnbToExfer) 0 []) = (e1, res)
     \<and> (\<exists>l. trace e1 = l \<and> l \<in> {[], [RefundBnb ''c'' ''0xx'']})"
proof -
  let ?e = "one_swap (sample_locked BnbToExfer) 0 []" and ?r = "sample_locked BnbToExfer"
  have get: "journal_get ''b'' (swaps ?e) = Some ?r"
    by (simp add: stages runs)
  have r: "\<not> is_terminal ?r" "direction ?r = BnbToExfer" "user_lock_tx ?r = Some ''tx''" "hashlock ?r = ''0xx''"
    "or_empty (htlc_contract ?r) = ''c''"
    by (simp_all add: stages runs is_terminal_def)
  obtain e1 res where run: "refund ''b'' sample_world ?e = (e1, res)" by (metis surj_pair)
  have c: "get_htlc_swap (at sample_world n) c h =
      Inr \<lparr>oc_recipient = [6], oc_amount = 4, oc_timeout_sec = 9000, oc_state = HtlcLocked\<rparr>" for n c h
    by (simp add: sample_world_def sample_services_def)
  from buy_refund_follows_contract [OF get r(1-3) run]
  have "\<exists>l. trace e1 = l \<and> l \<in> {[], [RefundBnb ''c'' ''0xx'']}" by (simp add: c r)
  with run show ?thesis by blast
qed

text \<open>A quote is stored under the id the pool gave it.  A successful quote sends nothing; it puts
  exactly one record into memory and file, open, unlocked, in the direction asked for.  In the first flow
  its hashlock is the hash of the preimage the record holds, in the reversed flow it holds no
  preimage.  If the pool repeats an id, the record that was under it is gone.\<close>

theorem quote_is_stored:
  assumes "get_quote dir amt addr fl w e = (e1, Inr r)"
  shows "records (swaps e1) = map_insert (swap_id r) r (records (swaps e))
    \<and> sealed (swaps e1) = records (swaps e1) \<and> trace e1 = trace e
    \<and> status r = Quoted \<and> direction r = dir \<and> user_lock_tx r = None
    \<and> (fl = V1 \<longrightarrow> flow r = V1) \<and> (flow r = V1 \<longrightarrow> own_secret w r) \<and> (flow r = V2 \<longrightarrow> preimage r = [])"
proof -
  define Q where "Q = (\<lambda>(e1 :: engine) (x :: swap_record res). \<forall>r. x = Inr r \<longrightarrow> records (swaps e1) = map_insert (swap_id r) r (records (swaps e))
    \<and> sealed (swaps e1) = records (swaps e1) \<and> trace e1 = trace e
    \<and> status r = Quoted \<and> direction r = dir \<and> user_lock_tx r = None
    \<and> (fl = V1 \<longrightarrow> flow r = V1) \<and> (flow r = V1 \<longrightarrow> own_secret w r) \<and> (flow r = V2 \<longrightarrow> preimage r = []))"
  have bad: "Q e1 (Inl d)" for e1 d by (simp add: Q_def)
  have store: "wp (store_quote dir f h pre a b q) w e' Q"
    if "swaps e' = swaps e" "trace e' = trace e" "fl = V1 \<longrightarrow> f = V1"
      "f = V1 \<longrightarrow> own_secret w (quoted_record dir f h pre a b q 0)" "f = V2 \<longrightarrow> pre = []" for f h pre a b q e'
    using that
    by (auto simp: Q_def store_quote_def Let_def wp_simps journal_put_def persist_locked_def quoted_record_def own_secret_def
          split: sum.split prod.split)
  have own: "own_secret w (quoted_record dir V1 (''0x'' @ hex_encode (crate w) (sha256 w pre)) (''0x'' @ hex_encode (crate w) pre) a b q n)"
    for pre a b q n by (auto simp: own_secret_def quoted_record_def)
  have v1: "wp (get_quote_v1 dir amt addr) w e' Q" if "swaps e' = swaps e" "trace e' = trace e" for e'
    unfolding get_quote_v1_def quote_keys_def ask_quote_def
    by (auto simp: wp_bind wp_ask wp_see wp_pure bad that split: sum.split intro!: store own [simplified])
  have "wp (get_quote dir amt addr fl) w e Q"
    using v1
    by (cases fl)
       (auto simp: get_quote_def quote_keys_def ask_quote_def wp_bind wp_ask wp_pure bad split: sum.split option.split intro!: store)
  then show ?thesis using assms by (simp add: wp_def Q_def)
qed

lemma quote_is_stored_witness:
  "\<exists>e1 r. get_quote ExferToBnb ''1'' ''z'' V1 sample_world (one_swap (sample_locked ExferToBnb) 0 []) = (e1, Inr r)
     \<and> user_lock_tx (sample_locked ExferToBnb) = Some ''tx'' \<and> map_of (records (swaps e1)) ''s'' = Some r
     \<and> user_lock_tx r = None \<and> status r = Quoted"
proof -
  let ?e = "one_swap (sample_locked ExferToBnb) 0 []"
  have "\<exists>e1 r. get_quote ExferToBnb ''1'' ''z'' V1 sample_world ?e = (e1, Inr r) \<and> swap_id r = ''s''"
    by (simp add: runs stages get_quote_def get_quote_v1_def quote_keys_def ask_quote_def store_quote_def)
  then obtain e1 r where r: "get_quote ExferToBnb ''1'' ''z'' V1 sample_world ?e = (e1, Inr r)" "swap_id r = ''s''"
    by blast
  from quote_is_stored [OF r(1)] r show ?thesis by (simp add: stages)
qed

section \<open>A write that fails\<close>

text \<open>The sample world with a full disk at one call.\<close>

definition flaky_world :: "nat \<Rightarrow> world" where
  "flaky_world k = sample_world\<lparr>at := (\<lambda>n. if n = k then sample_services\<lparr>storage := Inl (Internal ''write journal'')\<rparr>
                                     else sample_services)\<rparr>"

text \<open>One failed write can lock twice.  There is a run in which every transaction that is sent succeeds
  and a single write of the journal fails, namely the one after the lock of a first-flow sell; the
  daemon is restarted, finds the swap still \<open>Quoted\<close> on disk, and \<open>execute\<close> locks the same EXFER a second
  time: nothing in the first flow asks the chain whether its lock is already there.\<close>

theorem failed_write_can_lock_twice:
  "\<exists>w e. reachable w e \<and> (\<forall>n a. \<exists>tx. tx_reply (at w n) a = Inr tx)
     \<and> (\<exists>k d. \<forall>n. storage (at w n) = (if n = k then Inl d else Inr ()))
     \<and> (\<exists>a. is_lock a \<and> filter is_lock (trace e) = [a, a])"
proof -
  let ?w = "flaky_world 12" and ?s = "''s''"
  define quoted where "quoted = happen (GetQuote ExferToBnb ''1'' ''z'' V1) ?w (new_engine [] [] 0 [])"
  define locked where "locked = happen Restart ?w (happen (Execute ?s) ?w quoted)"
  define again where "again = happen (Execute ?s) ?w locked"
  have "reachable ?w again"
    unfolding again_def locked_def quoted_def by (intro reachable.intros)
  moreover have "filter is_lock (trace again) =
      [LockExfer [9] (replicate 32 5) (replicate 32 5) 600 5, LockExfer [9] (replicate 32 5) (replicate 32 5) 600 5]"
    by (simp add: again_def locked_def quoted_def is_lock_def runs flaky_world_def get_quote_def get_quote_v1_def
          quote_keys_def ask_quote_def store_quote_def execute_def execute_sell_def restart_def)
  moreover have "tx_reply (at ?w n) a = Inr ''tx''" for n a
    by (simp add: flaky_world_def sample_world_def sample_services_def)
  moreover have "storage (at ?w n) = (if n = 12 then Inl (Internal ''write journal'') else Inr ())" for n
    by (simp add: flaky_world_def sample_world_def sample_services_def)
  moreover have "is_lock (LockExfer [9] (replicate 32 5) (replicate 32 5) 600 5)" by (simp add: is_lock_def)
  ultimately show ?thesis by (intro exI [of _ ?w] exI [of _ again]) blast
qed

section \<open>A sweep that comes too early\<close>

text \<open>
  A lock of ours in block 100 of the contract's history that can be refunded from second 5000 on.  The
  first five calls, one pass of the sweep, are made at second 1000, all later ones at second 6000.
\<close>

definition stranded_services :: "u64 \<Rightarrow> u64 \<Rightarrow> services" where
  "stranded_services tip now = sample_services\<lparr>
     locked_hashlocks := (\<lambda>_ _ s e. Inr (if s \<le> 100 \<and> 100 \<le> e then [''h''] else [])),
     get_htlc_swap := (\<lambda>_ _. Inr \<lparr>oc_recipient = [6], oc_amount = 4, oc_timeout_sec = 5000, oc_state = HtlcLocked\<rparr>),
     block_number := Inr tip, block_timestamp := Inr now\<rparr>"

definition stranded_world :: world where
  "stranded_world = sample_world\<lparr>bsc_chain_id := 97,
     at := (\<lambda>n. if n < 5 then stranded_services 1000 1000 else stranded_services 9000 6000)\<rparr>"

definition swept_early :: engine where
  "swept_early = after sweep_stranded_bnb_locks stranded_world (new_engine [] [] 0 [])"

text \<open>The sweep for stranded BNB locks looks at each block once.  A pass that meets a lock before its
  refund time moves its cursor past the block all the same, so no later pass of the session refunds the
  lock, although its time has come; only a restart of the daemon, which forgets the cursor, does.\<close>

theorem sweep_forgets_unexpired_lock:
  "trace (after sweep_stranded_bnb_locks stranded_world swept_early) = []
   \<and> trace (after sweep_stranded_bnb_locks stranded_world (happen Restart stranded_world swept_early))
       = [RefundBnb ''0xBAd7f057c8196fF1b724fa1D8cb9D2397780E54d'' ''h'']"
  by (intro conjI; code_simp)

section \<open>Amounts\<close>

fun decimal :: "nat \<Rightarrow> string \<Rightarrow> nat" where
  "decimal acc [] = acc"
| "decimal acc (c # s) = decimal (10 * acc + (of_char c - 48)) s"

lemma decimal_append: "decimal acc (s @ t) = decimal (decimal acc s) t"
  by (induction acc s rule: decimal.induct) auto

lemma decimal_zeros: "decimal acc (replicate n (CHR ''0'')) = acc * 10 ^ n"
  by (induction n arbitrary: acc) (auto simp: algebra_simps)

lemma decimal_shift: "decimal acc s = acc * 10 ^ length s + decimal 0 s"
proof (induction s arbitrary: acc)
  case Nil
  then show ?case by simp
next
  case (Cons c s)
  show ?case
    using Cons [of "10 * acc + (of_char c - 48)"] Cons [of "of_char c - 48"] by (simp add: algebra_simps)
qed

lemma split_dot_digits:
  "CHR ''.'' \<notin> set whole \<Longrightarrow> split_dot (whole @ CHR ''.'' # frac) = (whole, frac)"
  "CHR ''.'' \<notin> set whole \<Longrightarrow> split_dot whole = (whole, [])"
  by (induction whole) auto

lemma digit_not_dot: "list_all is_digit_char s \<Longrightarrow> CHR ''.'' \<notin> set s"
  by (induction s) (auto simp: is_digit_char_def Let_def)

text \<open>What a BNB amount means.  If the big-integer crate parses decimal digits below 2 to the 256, then an
  amount of digits, with or without a fraction of up to 18 digits, is read as exactly that number of wei,
  spaces around it ignored, and refused when it does not fit; a fraction of more than 18 digits is
  refused, never rounded.\<close>

theorem bnb_amount_is_exact:
  assumes "\<And>s. s \<noteq> [] \<Longrightarrow> list_all is_digit_char s \<Longrightarrow>
      parse_u256 w s = (if decimal 0 s < 2 ^ 256 then Some (decimal 0 s) else None)"
    and "list_all is_digit_char whole" "list_all is_digit_char frac" "whole @ frac \<noteq> []"
    and "trim text = whole @ CHR ''.'' # frac \<or> frac = [] \<and> trim text = whole"
  shows "parse_units_18 w text =
    (if length frac > 18 then Inl (BadParams ''USDT has at most 18 decimals'')
     else let n = decimal 0 whole * 10 ^ 18 + decimal 0 frac * 10 ^ (18 - length frac) in
       if n < 2 ^ 256 then Inr n else Inl (BadParams ''bad amount: ''))"
proof -
  have split: "split_dot (trim text) = (whole, frac)"
    using assms(5) split_dot_digits digit_not_dot [OF assms(2)] by auto
  show ?thesis
  proof (cases "length frac > 18")
    case True
    then show ?thesis using split assms(2-4) by (auto simp: parse_units_18_def)
  next
    case False
    let ?s = "whole @ frac @ replicate (18 - length frac) (CHR ''0'')"
    have d: "list_all is_digit_char ?s" using assms(2,3) by (auto simp: list_all_iff is_digit_char_def)
    have "10 ^ 18 = (10 :: nat) ^ length frac * 10 ^ (18 - length frac)"
      using False by (simp flip: power_add)
    then have n: "decimal 0 ?s = decimal 0 whole * 10 ^ 18 + decimal 0 frac * 10 ^ (18 - length frac)"
      by (simp add: decimal_append decimal_zeros decimal_shift [of "decimal 0 whole" frac] algebra_simps)
    have "parse_u256 w ?s = (if decimal 0 ?s < 2 ^ 256 then Some (decimal 0 ?s) else None)"
      by (rule assms(1)) (use assms(4) d in auto)
    then show ?thesis
      using False split assms(2-4) by (auto simp: parse_units_18_def n Let_def ok_or_def)
  qed
qed

definition exact_world :: world where
  "exact_world = sample_world\<lparr>parse_u256 := (\<lambda>s. if decimal 0 s < 2 ^ 256 then Some (decimal 0 s) else None)\<rparr>"

lemma bnb_amount_is_exact_witness:
  "parse_units_18 exact_world '' 1.5 '' = Inr (15 * 10 ^ 17)"
proof -
  have "trim '' 1.5 '' = ''1'' @ CHR ''.'' # ''5''" by (simp add: trim_def is_space_def Let_def)
  moreover have "list_all is_digit_char ''1''" "list_all is_digit_char ''5''" by (simp_all add: is_digit_char_def)
  ultimately show ?thesis
    using bnb_amount_is_exact [of exact_world "''1''" "''5''" "'' 1.5 ''"] by (simp add: exact_world_def Let_def)
qed

end
