(* ===== verification/LockWatch.thy ===== *)
theory LockWatch imports Chain begin

text \<open>
  The lock-confirmation watchdog (\<open>src/lock_watch.rs\<close>): the set of locks that were broadcast and not
  yet seen in a block, and the tick that asks the node for each of them, sends an evicted one again and
  renews the claim on its inputs.  Instants are in nanoseconds, as in the in-flight tracker.
\<close>

section \<open>The set of watched locks\<close>

definition lock_rebroadcast :: nat where "lock_rebroadcast = 30 * 10 ^ 9"
definition lock_watch_max_age :: nat where "lock_watch_max_age = 1800 * 10 ^ 9"

record pending_lock =
  pl_tx_hex :: string
  pl_outpoints :: "outpoint list"
  first_broadcast :: nat
  last_rebroadcast :: nat

definition due :: "nat \<Rightarrow> pending_lock \<Rightarrow> bool" where
  "due now e \<longleftrightarrow> now - last_rebroadcast e \<ge> lock_rebroadcast"

definition expired :: "nat \<Rightarrow> pending_lock \<Rightarrow> bool" where
  "expired now e \<longleftrightarrow> now - first_broadcast e \<ge> lock_watch_max_age"

type_synonym watch = "string \<rightharpoonup> pending_lock"

definition register :: "nat \<Rightarrow> string \<Rightarrow> string \<Rightarrow> outpoint list \<Rightarrow> watch \<Rightarrow> watch" where
  "register now tx_id tx_hex ops w =
     w(tx_id \<mapsto> \<lparr>pl_tx_hex = tx_hex, pl_outpoints = ops, first_broadcast = now, last_rebroadcast = now\<rparr>)"

definition unwatch :: "string \<Rightarrow> watch \<Rightarrow> watch" where
  "unwatch tx_id w = w(tx_id := None)"

text \<open>A hash map lists its entries in any order: \<open>order\<close> is the one of this snapshot.\<close>

definition snapshot :: "string list \<Rightarrow> watch \<Rightarrow> (string \<times> pending_lock) list" where
  "snapshot order w = List.map_filter (\<lambda>i. map_option (Pair i) (w i)) order"

definition touch_rebroadcast :: "string \<Rightarrow> nat \<Rightarrow> watch \<Rightarrow> watch" where
  "touch_rebroadcast tx_id now w =
     (case w tx_id of None \<Rightarrow> w | Some e \<Rightarrow> w(tx_id \<mapsto> e\<lparr>last_rebroadcast := now\<rparr>))"

section \<open>The tick\<close>

record tx_state =
  ts_block_height :: "u64 option"
  ts_in_mempool :: bool

text \<open>
  For each entry the instant it is looked at, what the node says of it, what it says to the broadcast,
  and the instant the claims are renewed at.
\<close>

record watch_visit =
  wv_now :: nat
  wv_status :: "tx_state option res"
  wv_send :: "string res"
  wv_claim_at :: nat

text \<open>The watched locks, the claims, and the broadcasts so far: when, which lock, which bytes, and whether
  the node took them.\<close>

record dog =
  watched :: watch
  dog_claims :: claims
  sends :: "(nat \<times> string \<times> string \<times> bool) list"

definition visit_lock :: "string \<times> pending_lock \<Rightarrow> watch_visit \<Rightarrow> dog \<Rightarrow> dog" where
  "visit_lock = (\<lambda>(tx_id, e) v d.
     if expired (wv_now v) e then d\<lparr>watched := unwatch tx_id (watched d)\<rparr>
     else
     let evicted =
       (if due (wv_now v) e then
          (case wv_send v of
             Inr _ \<Rightarrow> d\<lparr>dog_claims := claim (wv_claim_at v) (pl_outpoints e) (dog_claims d),
                       watched := touch_rebroadcast tx_id (wv_now v) (watched d),
                       sends := sends d @ [(wv_now v, tx_id, pl_tx_hex e, True)]\<rparr>
           | Inl _ \<Rightarrow> d\<lparr>sends := sends d @ [(wv_now v, tx_id, pl_tx_hex e, False)]\<rparr>)
        else d)
     in case wv_status v of
       Inl _ \<Rightarrow> d
     | Inr None \<Rightarrow> evicted
     | Inr (Some s) \<Rightarrow>
         if ts_block_height s \<noteq> None then d\<lparr>watched := unwatch tx_id (watched d)\<rparr>
         else if ts_in_mempool s then d
         else evicted)"

text \<open>
  The loop of \<open>run_lock_watchdog\<close>: a tick takes a snapshot and visits its entries one by one, while
  requests register new locks in between.
\<close>

datatype watch_event =
    Register nat string string "outpoint list"
  | Tick "string list"
  | Visit watch_visit

type_synonym watchdog = "(string \<times> pending_lock) list \<times> dog"

fun watch_step :: "watch_event \<Rightarrow> watchdog \<Rightarrow> watchdog" where
  "watch_step (Register now i tx_hex ops) (queue, d) = (queue, d\<lparr>watched := register now i tx_hex ops (watched d)\<rparr>)"
| "watch_step (Tick order) ([], d) = (snapshot order (watched d), d)"
| "watch_step (Visit v) (x # queue, d) = (queue, visit_lock x v d)"
| "watch_step _ s = s"

definition watch_run :: "watch_event list \<Rightarrow> watchdog" where
  "watch_run evs = fold watch_step evs ([], \<lparr>watched = Map.empty, dog_claims = no_claims, sends = []\<rparr>)"

section \<open>The watchdog only repeats what was registered\<close>

definition registered :: "watch_event list \<Rightarrow> (string \<times> string \<times> nat) set" where
  "registered evs = {(i, tx_hex, t). \<exists>ops. Register t i tx_hex ops \<in> set evs}"

text \<open>Ids are hashes of what is registered under them, and a snapshot lists an entry once.\<close>

fun fresh_ids :: "watch_event list \<Rightarrow> bool" where
  "fresh_ids [] = True"
| "fresh_ids (e # evs) = ((case e of Register t i tx_hex ops \<Rightarrow> \<forall>(j, _, _) \<in> registered evs. j \<noteq> i
     | Tick order \<Rightarrow> distinct order | Visit v \<Rightarrow> True) \<and> fresh_ids evs)"

definition paced :: "(nat \<times> string \<times> string \<times> bool) list \<Rightarrow> bool" where
  "paced log = (\<forall>j < length log. \<forall>i < j. case (log ! i, log ! j) of ((t, a, _, took), (t', a', _, _)) \<Rightarrow>
     a = a' \<and> took \<longrightarrow> t + lock_rebroadcast \<le> t')"

definition genuine :: "(string \<times> string \<times> nat) set \<Rightarrow> nat \<times> string \<times> string \<times> bool \<Rightarrow> bool" where
  "genuine R = (\<lambda>(t, i, tx_hex, _). \<exists>t0. (i, tx_hex, t0) \<in> R \<and> t - t0 < lock_watch_max_age)"

definition watch_ok :: "(string \<times> string \<times> nat) set \<Rightarrow> watchdog \<Rightarrow> bool" where
  "watch_ok R = (\<lambda>(queue, d).
     (\<forall>i e. watched d i = Some e \<longrightarrow> (i, pl_tx_hex e, first_broadcast e) \<in> R)
     \<and> (\<forall>i e t h. watched d i = Some e \<longrightarrow> (t, i, h, True) \<in> set (sends d) \<longrightarrow> t \<le> last_rebroadcast e)
     \<and> (\<forall>t j h b. (t, j, h, b) \<in> set (sends d) \<longrightarrow> j \<in> fst ` R)
     \<and> distinct (map fst queue) \<and> (\<forall>i e. (i, e) \<in> set queue \<longrightarrow> watched d i = Some e)
     \<and> (\<forall>s \<in> set (sends d). genuine R s) \<and> paced (sends d))"

lemma watch_okI:
  assumes "\<And>i e. watched d i = Some e \<Longrightarrow> (i, pl_tx_hex e, first_broadcast e) \<in> R"
    and "\<And>i e t h. watched d i = Some e \<Longrightarrow> (t, i, h, True) \<in> set (sends d) \<Longrightarrow> t \<le> last_rebroadcast e"
    and "\<And>t j h b. (t, j, h, b) \<in> set (sends d) \<Longrightarrow> j \<in> fst ` R" "distinct (map fst queue)"
    and "\<And>i e. (i, e) \<in> set queue \<Longrightarrow> watched d i = Some e"
    and "\<And>s. s \<in> set (sends d) \<Longrightarrow> genuine R s" "paced (sends d)"
  shows "watch_ok R (queue, d)"
  unfolding watch_ok_def split_conv using assms by (intro conjI allI impI ballI)

lemma watch_okD:
  assumes "watch_ok R (queue, d)"
  shows "watched d i = Some e \<Longrightarrow> (i, pl_tx_hex e, first_broadcast e) \<in> R"
    and "watched d i = Some e \<Longrightarrow> (t, i, h, True) \<in> set (sends d) \<Longrightarrow> t \<le> last_rebroadcast e"
    and "(t, j, h, b) \<in> set (sends d) \<Longrightarrow> j \<in> fst ` R" "distinct (map fst queue)"
    and "(i, e) \<in> set queue \<Longrightarrow> watched d i = Some e"
    and "s \<in> set (sends d) \<Longrightarrow> genuine R s" "paced (sends d)"
  using assms unfolding watch_ok_def split_conv by blast+

lemma genuine_mono: "genuine R s \<Longrightarrow> R \<subseteq> S \<Longrightarrow> genuine S s"
  by (auto simp: genuine_def split: prod.splits)

lemma paced_snoc:
  "paced log \<Longrightarrow> \<forall>(s, j, _, took) \<in> set log. j = i \<and> took \<longrightarrow> s + lock_rebroadcast \<le> t \<Longrightarrow> paced (log @ [(t, i, h, b)])"
  by (auto simp: paced_def nth_append less_Suc_eq split: prod.splits)

lemma visit_outcome:
  "visit_lock (i, e) v d = d \<or> visit_lock (i, e) v d = d\<lparr>watched := unwatch i (watched d)\<rparr>
   \<or> \<not> expired (wv_now v) e \<and> due (wv_now v) e \<and>
     (visit_lock (i, e) v d = d\<lparr>sends := sends d @ [(wv_now v, i, pl_tx_hex e, False)]\<rparr>
      \<or> visit_lock (i, e) v d = d\<lparr>dog_claims := claim (wv_claim_at v) (pl_outpoints e) (dog_claims d),
       watched := touch_rebroadcast i (wv_now v) (watched d), sends := sends d @ [(wv_now v, i, pl_tx_hex e, True)]\<rparr>)"
  by (simp add: visit_lock_def Let_def split: option.split sum.split)

lemma visit_sends:
  assumes "watch_ok R ((i, e) # queue, d)" "\<not> expired t e" "due t e"
  shows "genuine R (t, i, pl_tx_hex e, b)" "paced (sends d @ [(t, i, pl_tx_hex e, b)])" "i \<in> fst ` R"
proof -
  have e: "watched d i = Some e" by (rule watch_okD(5) [OF assms(1)]) simp
  have R: "(i, pl_tx_hex e, first_broadcast e) \<in> R" by (rule watch_okD(1) [OF assms(1) e])
  then show "i \<in> fst ` R" by force
  show "genuine R (t, i, pl_tx_hex e, b)" using R assms(2) by (auto simp: genuine_def expired_def)
  have "last_rebroadcast e + lock_rebroadcast \<le> t" using assms(3) by (auto simp: due_def lock_rebroadcast_def)
  then have "\<forall>(s, j, _, took) \<in> set (sends d). j = i \<and> took \<longrightarrow> s + lock_rebroadcast \<le> t"
    using watch_okD(2) [OF assms(1) e] by fastforce
  then show "paced (sends d @ [(t, i, pl_tx_hex e, b)])" by (intro paced_snoc watch_okD(7) [OF assms(1)])
qed

lemma visit_keeps:
  assumes ok: "watch_ok R ((i, e) # queue, d)"
  shows "watch_ok R (queue, visit_lock (i, e) v d)"
proof -
  note D = watch_okD [OF ok]
  have e: "watched d i = Some e" by (rule D(5)) simp
  have i: "(j, x) \<in> set queue \<Longrightarrow> j \<noteq> i \<and> watched d j = Some x" for j x
    using D(4) D(5) [of j x] by (force simp: image_iff)
  have q: "distinct (map fst queue)" using D(4) by simp
  from visit_outcome [of i e v d] show ?thesis
  proof (elim disjE conjE)
    assume "visit_lock (i, e) v d = d"
    then show ?thesis using ok by (simp add: watch_ok_def)
  next
    assume "visit_lock (i, e) v d = d\<lparr>watched := unwatch i (watched d)\<rparr>"
    then show ?thesis
      by (intro watch_okI) (auto simp: unwatch_def D(1,6,7) q i intro: D(2,3) split: if_splits)
  next
    assume "\<not> expired (wv_now v) e" "due (wv_now v) e"
      and d': "visit_lock (i, e) v d = d\<lparr>sends := sends d @ [(wv_now v, i, pl_tx_hex e, False)]\<rparr>"
    note new = visit_sends [OF ok this(1,2)]
    show ?thesis unfolding d'
      by (intro watch_okI) (auto simp: D(1,6) q i new intro: D(2,3))
  next
    assume due: "\<not> expired (wv_now v) e" "due (wv_now v) e"
      and d': "visit_lock (i, e) v d = d\<lparr>dog_claims := claim (wv_claim_at v) (pl_outpoints e) (dog_claims d),
       watched := touch_rebroadcast i (wv_now v) (watched d), sends := sends d @ [(wv_now v, i, pl_tx_hex e, True)]\<rparr>"
    note new = visit_sends [OF ok this(1,2)]
    have le: "last_rebroadcast e \<le> wv_now v" using due(2) by (auto simp: due_def lock_rebroadcast_def)
    have past: "(t, i, h, True) \<in> set (sends d) \<Longrightarrow> t \<le> wv_now v" for t h using D(2) [OF e, of t h] le by simp
    have w: "touch_rebroadcast i (wv_now v) (watched d) j
        = (if j = i then Some (e\<lparr>last_rebroadcast := wv_now v\<rparr>) else watched d j)" for j
      using e by (simp add: touch_rebroadcast_def)
    show ?thesis unfolding d'
      by (intro watch_okI) (auto simp: w D(1,6) D(1) [OF e] q i new intro: D(2,3) past split: if_splits)
  qed
qed

lemma register_keeps:
  assumes ok: "watch_ok R (queue, d)" and new: "\<forall>(j, _, _) \<in> R. j \<noteq> i"
  shows "watch_ok (insert (i, h, t) R) (queue, d\<lparr>watched := register t i h ops (watched d)\<rparr>)"
proof -
  note D = watch_okD [OF ok]
  have out: "i \<notin> fst ` R" using new by force
  have s: "(s, j, h', b) \<in> set (sends d) \<Longrightarrow> j \<noteq> i" for s j h' b using D(3) out by blast
  have q: "(j, x) \<in> set queue \<Longrightarrow> j \<noteq> i \<and> watched d j = Some x" for j x using D(1) D(5) out by force
  show ?thesis
    by (rule watch_okI)
       (use D(2,3,4,7) q s in \<open>auto simp: register_def D(1) intro: genuine_mono [OF D(6)] split: if_splits\<close>)
qed

lemma snapshot_entries: "(i, e) \<in> set (snapshot order w) \<Longrightarrow> w i = Some e \<and> i \<in> set order"
  by (induction order) (auto simp: snapshot_def List.map_filter_simps split: option.splits if_splits)

lemma snapshot_distinct: "distinct order \<Longrightarrow> distinct (map fst (snapshot order w))"
proof (induction order)
  case (Cons i order)
  have "i \<notin> fst ` set (snapshot order w)" using snapshot_entries [of i _ order w] Cons.prems by auto
  then show ?case using Cons by (cases "w i") (simp_all add: snapshot_def List.map_filter_simps)
qed (simp add: snapshot_def List.map_filter_simps)

lemma watch_run_ok:
  assumes "watch_ok R s" "fresh_ids evs" "\<forall>(i, _, _) \<in> registered evs. \<forall>(j, _, _) \<in> R. j \<noteq> i"
  shows "watch_ok (R \<union> registered evs) (fold watch_step evs s)"
  using assms
proof (induction evs arbitrary: R s)
  case Nil
  moreover have "registered [] = {}" by (simp add: registered_def)
  ultimately show ?case by simp
next
  case (Cons ev evs)
  obtain queue d where s: "s = (queue, d)" by (cases s)
  show ?case
  proof (cases ev)
    case (Register t i h ops)
    have reg: "registered (ev # evs) = insert (i, h, t) (registered evs)" by (auto simp: registered_def Register)
    have "watch_ok (insert (i, h, t) R) (watch_step ev s)"
      unfolding s Register watch_step.simps by (rule register_keeps) (use Cons.prems reg s in auto)
    from Cons.IH [OF this] show ?thesis using Cons.prems reg Register by fastforce
  next
    case (Tick order)
    have "registered (ev # evs) = registered evs" by (auto simp: registered_def Tick)
    moreover have "watch_ok R (watch_step ev s)"
      using Cons.prems(1,2) snapshot_entries snapshot_distinct by (cases queue) (auto simp: s Tick watch_ok_def)
    ultimately show ?thesis using Cons.IH Cons.prems by simp
  next
    case (Visit v)
    have "registered (ev # evs) = registered evs" by (auto simp: registered_def Visit)
    moreover have "watch_ok R (watch_step ev s)"
      using Cons.prems(1) visit_keeps by (cases queue) (auto simp: s Visit)
    ultimately show ?thesis using Cons.IH Cons.prems by simp
  qed
qed

text \<open>in every interleaving of registrations with ticks, whatever the node answers, the watchdog sends
  nothing but the registered bytes of a lock, never for a lock that is 30 minutes old, and at least 30
  seconds pass between a broadcast the node took and the next one of the same lock.\<close>

theorem watchdog_repeats_locks:
  assumes "fresh_ids evs"
  shows "(\<forall>s \<in> set (sends (snd (watch_run evs))). genuine (registered evs) s) \<and> paced (sends (snd (watch_run evs)))"
proof -
  have "watch_ok {} ([], \<lparr>watched = Map.empty, dog_claims = no_claims, sends = []\<rparr>)"
    by (simp add: watch_ok_def paced_def)
  from watch_run_ok [OF this assms] show ?thesis
    by (simp add: watch_run_def watch_ok_def split: prod.splits)
qed

definition sample_events :: "watch_event list" where
  "sample_events = [Register 0 ''a1'' ''beef'' [], Tick [''a1''],
     Visit \<lparr>wv_now = 40 * 10 ^ 9, wv_status = Inr None, wv_send = Inr ''a1'', wv_claim_at = 40 * 10 ^ 9\<rparr>]"

lemma watchdog_repeats_locks_witness:
  "sends (snd (watch_run sample_events)) = [(40 * 10 ^ 9, ''a1'', ''beef'', True)]
   \<and> genuine (registered sample_events) (40 * 10 ^ 9, ''a1'', ''beef'', True)"
proof -
  have "sends (snd (watch_run sample_events)) = [(40 * 10 ^ 9, ''a1'', ''beef'', True)]"
    by (simp add: watch_run_def sample_events_def register_def snapshot_def List.map_filter_simps visit_lock_def
        expired_def due_def lock_rebroadcast_def lock_watch_max_age_def)
  moreover have "fresh_ids sample_events" by (simp add: sample_events_def registered_def)
  ultimately show ?thesis using watchdog_repeats_locks [of sample_events] by simp
qed

end
