(* ===== verification/HtlcIndex.thy ===== *)
theory HtlcIndex imports Chain "HOL-Library.Product_Lexorder" begin

text \<open>
  The HTLC index (\<open>src/index.rs\<close>): a primary table of records, four secondary tables of keys, and the
  follower's checkpoint, all in one embedded database.  The values of the primary table are encoded
  by the \<open>bincode\<close> crate, which is a parameter.  A write that fails anywhere before its commit leaves
  the index as it was.
\<close>

section \<open>Records\<close>

text \<open>The types of the \<open>exfer\<close> crate the index stores.\<close>

datatype htlc_lifecycle = Locked | LockedExpired | Claimed | Reclaimed | Unknown

datatype htlc_role = Sender | Receiver | Both | Observer

record htlc_params =
  hp_sender :: bytes
  hp_receiver :: bytes
  hp_hash_lock :: bytes
  hp_timeout_height :: u64

record claim_record =
  cr_tx_id :: bytes
  cr_preimage :: bytes
  cr_block_height :: u64
  cr_input_index :: u32

record reclaim_record =
  rr_tx_id :: bytes
  rr_block_height :: u64
  rr_input_index :: u32

record htlc_record =
  hr_lock_tx_id :: bytes
  hr_output_index :: u32
  hr_params :: htlc_params
  hr_amount :: u64
  hr_lock_height :: "u64 option"
  hr_state :: htlc_lifecycle
  hr_claim :: "claim_record option"
  hr_reclaim :: "reclaim_record option"
  hr_role :: htlc_role
  hr_last_indexed :: u64

definition state_byte :: "htlc_lifecycle \<Rightarrow> u8" where
  "state_byte s = (case s of Locked \<Rightarrow> 0 | LockedExpired \<Rightarrow> 1 | Claimed \<Rightarrow> 2 | Reclaimed \<Rightarrow> 3 | Unknown \<Rightarrow> 4)"

definition role_byte :: "htlc_role \<Rightarrow> u8" where
  "role_byte r = (case r of Sender \<Rightarrow> 0 | Receiver \<Rightarrow> 1 | Both \<Rightarrow> 2 | Observer \<Rightarrow> 3)"

record follower_meta =
  last_indexed_height :: u64
  last_indexed_block_id :: bytes
  full_scan_complete :: bool
  started_at :: u64

definition default_meta :: follower_meta where
  "default_meta = \<lparr>last_indexed_height = 0, last_indexed_block_id = replicate 32 0, full_scan_complete = False,
                   started_at = 0\<rparr>"

record htlc_filter =
  want_role :: "htlc_role option"
  want_states :: "htlc_lifecycle list"
  want_owned :: "bytes option"
  since_height :: "u64 option"

record cursor =
  cu_lock_height :: u64
  cu_lock_tx_id :: bytes
  cu_output_index :: u32

text \<open>\<open>bincode\<close> and \<open>base64\<close>.\<close>

record codec =
  ser_htlc :: "htlc_record \<Rightarrow> bytes option"
  de_htlc :: "bytes \<Rightarrow> htlc_record option"
  ser_meta :: "follower_meta \<Rightarrow> bytes option"
  de_meta :: "bytes \<Rightarrow> follower_meta option"
  base64_encode :: "bytes \<Rightarrow> string"
  base64_decode :: "string \<Rightarrow> bytes option"

section \<open>Cursors\<close>

definition cursor_encode :: "codec \<Rightarrow> cursor \<Rightarrow> string" where
  "cursor_encode cd c =
     base64_encode cd (u64_to_be (cu_lock_height c) @ cu_lock_tx_id c @ u32_to_be (cu_output_index c))"

definition cursor_decode :: "codec \<Rightarrow> string \<Rightarrow> cursor res" where
  "cursor_decode cd s =
     bind_ok (ok_or (BadParams ''invalid cursor: '') (base64_decode cd s)) (\<lambda>b.
     if length b \<noteq> 44 then Inl (BadParams ''invalid cursor: expected 44 bytes, got '')
     else Inr \<lparr>cu_lock_height = u64_from_be (take 8 b), cu_lock_tx_id = take 32 (drop 8 b),
               cu_output_index = u32_from_be (drop 40 b)\<rparr>)"

section \<open>Keys\<close>

definition htlc_primary_key :: "bytes \<Rightarrow> u32 \<Rightarrow> bytes" where
  "htlc_primary_key lock_tx ix = lock_tx @ u32_to_be ix"

definition secondary_state_key :: "htlc_lifecycle \<Rightarrow> u64 \<Rightarrow> bytes \<Rightarrow> u32 \<Rightarrow> bytes" where
  "secondary_state_key s height lock_tx ix = [state_byte s] @ u64_to_be height @ lock_tx @ u32_to_be ix"

definition secondary_role_key :: "htlc_role \<Rightarrow> u64 \<Rightarrow> bytes \<Rightarrow> u32 \<Rightarrow> bytes" where
  "secondary_role_key r height lock_tx ix = [role_byte r] @ u64_to_be height @ lock_tx @ u32_to_be ix"

definition secondary_hashlock_key :: "bytes \<Rightarrow> bytes \<Rightarrow> u32 \<Rightarrow> bytes" where
  "secondary_hashlock_key h lock_tx ix = h @ lock_tx @ u32_to_be ix"

definition secondary_owned_key :: "bytes \<Rightarrow> u64 \<Rightarrow> bytes \<Rightarrow> u32 \<Rightarrow> bytes" where
  "secondary_owned_key owner height lock_tx ix = owner @ u64_to_be height @ lock_tx @ u32_to_be ix"

text \<open>The keys of one record; a record without a height sorts after all others.\<close>

definition height_of :: "htlc_record \<Rightarrow> u64" where
  "height_of r = (case hr_lock_height r of None \<Rightarrow> u64_max | Some h \<Rightarrow> h)"

definition primary_of :: "htlc_record \<Rightarrow> bytes" where
  "primary_of r = htlc_primary_key (hr_lock_tx_id r) (hr_output_index r)"

definition state_key_of :: "htlc_record \<Rightarrow> bytes" where
  "state_key_of r = secondary_state_key (hr_state r) (height_of r) (hr_lock_tx_id r) (hr_output_index r)"

definition role_key_of :: "htlc_record \<Rightarrow> bytes" where
  "role_key_of r = secondary_role_key (hr_role r) (height_of r) (hr_lock_tx_id r) (hr_output_index r)"

definition hash_key_of :: "htlc_record \<Rightarrow> bytes" where
  "hash_key_of r = secondary_hashlock_key (hp_hash_lock (hr_params r)) (hr_lock_tx_id r) (hr_output_index r)"

definition owned_key_of :: "bytes \<Rightarrow> htlc_record \<Rightarrow> bytes" where
  "owned_key_of owner r = secondary_owned_key owner (height_of r) (hr_lock_tx_id r) (hr_output_index r)"

section \<open>The tables\<close>

type_synonym key_set = "(bytes \<times> unit) list"

record index =
  tracked_htlcs :: "(bytes \<times> bytes) list"
  by_owned :: key_set
  by_state :: key_set
  by_hashlock :: key_set
  by_role :: key_set
  meta_row :: "bytes option"

definition empty_index :: index where
  "empty_index = \<lparr>tracked_htlcs = [], by_owned = [], by_state = [], by_hashlock = [], by_role = [], meta_row = None\<rparr>"

text \<open>Opening creates the tables a fresh directory lacks and commits.\<close>

definition open_index :: "faults \<Rightarrow> index \<Rightarrow> index res" where
  "open_index fails disk =
     bind_ok (db_call fails ''index: create datadir'') (\<lambda>_.
     bind_ok (db_call fails ''index: open redb'') (\<lambda>_.
     bind_ok (db_call fails ''index: begin write'') (\<lambda>_.
     bind_ok (db_call fails ''index: open tracked_htlcs'') (\<lambda>_.
     bind_ok (db_call fails ''index: open idx_by_owned'') (\<lambda>_.
     bind_ok (db_call fails ''index: open idx_by_state'') (\<lambda>_.
     bind_ok (db_call fails ''index: open idx_by_hashlock'') (\<lambda>_.
     bind_ok (db_call fails ''index: open idx_by_role'') (\<lambda>_.
     bind_ok (db_call fails ''index: open follower_meta'') (\<lambda>_.
     bind_ok (db_call fails ''index: commit init'') (\<lambda>_. Inr disk))))))))))"

text \<open>A write transaction: the new tables are the index's only after the commit.\<close>

definition commit_txn :: "index \<Rightarrow> (index \<times> 'a) res \<Rightarrow> index \<times> 'a res" where
  "commit_txn old t = (case t of Inl d \<Rightarrow> (old, Inl d) | Inr (new, x) \<Rightarrow> (new, Inr x))"

text \<open>Opening a table inside a transaction and changing it.\<close>

definition on_table :: "faults \<Rightarrow> string \<Rightarrow> string \<Rightarrow> (index \<Rightarrow> index) \<Rightarrow> index \<Rightarrow> index res" where
  "on_table fails opening changing f ix =
     bind_ok (db_call fails opening) (\<lambda>_. bind_ok (db_call fails changing) (\<lambda>_. Inr (f ix)))"

section \<open>The checkpoint\<close>

definition get_follower_meta :: "faults \<Rightarrow> codec \<Rightarrow> index \<Rightarrow> follower_meta res" where
  "get_follower_meta fails cd ix =
     bind_ok (db_call fails ''index: begin read'') (\<lambda>_.
     bind_ok (db_call fails ''index: open follower_meta'') (\<lambda>_.
     bind_ok (db_call fails ''index: get meta'') (\<lambda>_.
     case meta_row ix of
       None \<Rightarrow> Inr default_meta
     | Some blob \<Rightarrow> ok_or (Internal ''index: decode meta'') (de_meta cd blob))))"

definition save_follower_meta :: "faults \<Rightarrow> codec \<Rightarrow> follower_meta \<Rightarrow> index \<Rightarrow> index \<times> unit res" where
  "save_follower_meta fails cd m ix =
     commit_txn ix
      (bind_ok (ok_or (Internal ''index: encode meta'') (ser_meta cd m)) (\<lambda>blob.
       bind_ok (db_call fails ''index: begin write'') (\<lambda>_.
       bind_ok (on_table fails ''index: open follower_meta'' ''index: insert meta'' (\<lambda>ix. ix\<lparr>meta_row := Some blob\<rparr>) ix) (\<lambda>ix1.
       bind_ok (db_call fails ''index: commit meta'') (\<lambda>_. Inr (ix1, ()))))))"

section \<open>Records in and out\<close>

text \<open>The row under a key, decoded; \<open>what\<close> names the reader in its error.\<close>

definition read_row :: "faults \<Rightarrow> codec \<Rightarrow> string \<Rightarrow> string \<Rightarrow> bytes \<Rightarrow> index \<Rightarrow> htlc_record option res" where
  "read_row fails cd getting what key ix =
     bind_ok (db_call fails ''index: open tracked'') (\<lambda>_.
     bind_ok (db_call fails getting) (\<lambda>_.
     case map_of (tracked_htlcs ix) key of
       None \<Rightarrow> Inr None
     | Some blob \<Rightarrow> bind_ok (ok_or (Internal what) (de_htlc cd blob)) (\<lambda>r. Inr (Some r))))"

definition drop_secondary :: "faults \<Rightarrow> htlc_record \<Rightarrow> bytes \<Rightarrow> index \<Rightarrow> index res" where
  "drop_secondary fails prev owner ix =
     bind_ok (on_table fails ''index: open by_state'' ''index: remove by_state''
                (\<lambda>ix. ix\<lparr>by_state := map_remove (state_key_of prev) (by_state ix)\<rparr>) ix) (\<lambda>ix.
     bind_ok (on_table fails ''index: open by_role'' ''index: remove by_role''
                (\<lambda>ix. ix\<lparr>by_role := map_remove (role_key_of prev) (by_role ix)\<rparr>) ix) (\<lambda>ix.
     bind_ok (on_table fails ''index: open by_hashlock'' ''index: remove by_hashlock''
                (\<lambda>ix. ix\<lparr>by_hashlock := map_remove (hash_key_of prev) (by_hashlock ix)\<rparr>) ix) (\<lambda>ix.
     on_table fails ''index: open by_owned'' ''index: remove by_owned''
       (\<lambda>ix. ix\<lparr>by_owned := map_remove (owned_key_of owner prev) (by_owned ix)\<rparr>) ix)))"

definition put_secondary :: "faults \<Rightarrow> htlc_record \<Rightarrow> bytes \<Rightarrow> index \<Rightarrow> index res" where
  "put_secondary fails r owner ix =
     bind_ok (on_table fails ''index: open by_state'' ''index: insert by_state''
                (\<lambda>ix. ix\<lparr>by_state := map_insert (state_key_of r) () (by_state ix)\<rparr>) ix) (\<lambda>ix.
     bind_ok (on_table fails ''index: open by_role'' ''index: insert by_role''
                (\<lambda>ix. ix\<lparr>by_role := map_insert (role_key_of r) () (by_role ix)\<rparr>) ix) (\<lambda>ix.
     bind_ok (on_table fails ''index: open by_hashlock'' ''index: insert by_hashlock''
                (\<lambda>ix. ix\<lparr>by_hashlock := map_insert (hash_key_of r) () (by_hashlock ix)\<rparr>) ix) (\<lambda>ix.
     on_table fails ''index: open by_owned'' ''index: insert by_owned''
       (\<lambda>ix. ix\<lparr>by_owned := map_insert (owned_key_of owner r) () (by_owned ix)\<rparr>) ix)))"

definition upsert_htlc :: "faults \<Rightarrow> codec \<Rightarrow> htlc_record \<Rightarrow> bytes \<Rightarrow> index \<Rightarrow> index \<times> unit res" where
  "upsert_htlc fails cd r owner ix =
     commit_txn ix
      (bind_ok (ok_or (Internal ''index: encode htlc'') (ser_htlc cd r)) (\<lambda>blob.
       bind_ok (db_call fails ''index: begin write'') (\<lambda>_.
       bind_ok (read_row fails cd ''index: get prior'' ''index: decode prior htlc'' (primary_of r) ix) (\<lambda>prior.
       bind_ok (case prior of None \<Rightarrow> Inr ix | Some prev \<Rightarrow> drop_secondary fails prev owner ix) (\<lambda>ix1.
       bind_ok (on_table fails ''index: open tracked'' ''index: insert tracked''
                  (\<lambda>ix. ix\<lparr>tracked_htlcs := map_insert (primary_of r) blob (tracked_htlcs ix)\<rparr>) ix1) (\<lambda>ix2.
       bind_ok (put_secondary fails r owner ix2) (\<lambda>ix3.
       bind_ok (db_call fails ''index: commit upsert'') (\<lambda>_. Inr (ix3, ())))))))))"

definition get_htlc :: "faults \<Rightarrow> codec \<Rightarrow> bytes \<Rightarrow> u32 \<Rightarrow> index \<Rightarrow> htlc_record option res" where
  "get_htlc fails cd lock_tx i ix =
     bind_ok (db_call fails ''index: begin read'') (\<lambda>_.
     read_row fails cd ''index: get'' ''index: decode htlc'' (htlc_primary_key lock_tx i) ix)"

definition forget_htlc :: "faults \<Rightarrow> codec \<Rightarrow> bytes \<Rightarrow> u32 \<Rightarrow> bytes \<Rightarrow> index \<Rightarrow> index \<times> bool res" where
  "forget_htlc fails cd lock_tx i owner ix =
     commit_txn ix
      (bind_ok (db_call fails ''index: begin write'') (\<lambda>_.
       bind_ok (read_row fails cd ''index: get prior'' ''index: decode prior'' (htlc_primary_key lock_tx i) ix) (\<lambda>existing.
       case existing of
         None \<Rightarrow> bind_ok (db_call fails ''index: commit forget (noop)'') (\<lambda>_. Inr (ix, False))
       | Some r \<Rightarrow>
           bind_ok (on_table fails ''index: open tracked'' ''index: remove tracked''
                      (\<lambda>ix. ix\<lparr>tracked_htlcs := map_remove (htlc_primary_key lock_tx i) (tracked_htlcs ix)\<rparr>) ix) (\<lambda>ix1.
           bind_ok (drop_secondary fails r owner ix1) (\<lambda>ix2.
           bind_ok (db_call fails ''index: commit forget'') (\<lambda>_. Inr (ix2, True)))))))"

definition count_htlcs :: "faults \<Rightarrow> index \<Rightarrow> nat res" where
  "count_htlcs fails ix =
     bind_ok (db_call fails ''index: begin read'') (\<lambda>_.
     bind_ok (db_call fails ''index: open tracked'') (\<lambda>_.
     bind_ok (db_call fails ''index: count'') (\<lambda>_. Inr (length (tracked_htlcs ix)))))"

section \<open>Queries\<close>

text \<open>The keys of a table between two bounds, both included.\<close>

definition key_range :: "bytes \<Rightarrow> bytes \<Rightarrow> key_set \<Rightarrow> bytes list" where
  "key_range lo hi t = filter (\<lambda>k. lo \<le> k \<and> k \<le> hi) (map fst t)"

definition lookup_by_hashlock :: "faults \<Rightarrow> codec \<Rightarrow> bytes \<Rightarrow> index \<Rightarrow> htlc_record list res" where
  "lookup_by_hashlock fails cd h ix =
     bind_ok (db_call fails ''index: begin read'') (\<lambda>_.
     bind_ok (db_call fails ''index: open by_hashlock'') (\<lambda>_.
     bind_ok (db_call fails ''index: open tracked'') (\<lambda>_.
     bind_ok (db_call fails ''index: by_hashlock range'') (\<lambda>_.
     bind_ok (db_call fails ''index: by_hashlock iter'') (\<lambda>_.
     let primary_keys = map (drop 32) (filter (\<lambda>k. length k = 68)
           (key_range (h @ replicate 36 0) (h @ replicate 36 (- 1)) (by_hashlock ix)))
     in bind_ok (map_ok (\<lambda>pk.
          bind_ok (db_call fails ''index: get tracked'') (\<lambda>_.
          case map_of (tracked_htlcs ix) pk of
            None \<Rightarrow> Inr []
          | Some b \<Rightarrow> bind_ok (ok_or (Internal ''index: decode tracked'') (de_htlc cd b)) (\<lambda>r. Inr [r]))) primary_keys)
        (\<lambda>rs. Inr (concat rs)))))))"

definition filter_matches :: "htlc_record \<Rightarrow> htlc_filter \<Rightarrow> bool" where
  "filter_matches r f \<longleftrightarrow>
     (case want_role f of None \<Rightarrow> True | Some role \<Rightarrow> hr_role r = role)
     \<and> (want_states f = [] \<or> hr_state r \<in> set (want_states f))
     \<and> (case since_height f of None \<Rightarrow> True | Some m \<Rightarrow> \<not> height_of r < m)"

text \<open>The order of a listing, which a cursor resumes: tuples in lexicographic order.\<close>

definition page_key :: "htlc_record \<Rightarrow> u64 \<times> bytes \<times> u32" where
  "page_key r = (height_of r, hr_lock_tx_id r, hr_output_index r)"

definition cursor_key :: "cursor \<Rightarrow> u64 \<times> bytes \<times> u32" where
  "cursor_key c = (cu_lock_height c, cu_lock_tx_id c, cu_output_index c)"

definition cursor_at :: "htlc_record \<Rightarrow> cursor" where
  "cursor_at r = \<lparr>cu_lock_height = height_of r, cu_lock_tx_id = hr_lock_tx_id r, cu_output_index = hr_output_index r\<rparr>"

text \<open>
  One page.  \<open>matches[limit - 1]\<close> on a page of size 0 that has more to show indexes out of bounds: the
  call panics, which is \<open>None\<close> here.
\<close>

definition page_of :: "nat \<Rightarrow> htlc_record list \<Rightarrow> (htlc_record list \<times> cursor option) option" where
  "page_of limit matches =
     (if length matches > limit
      then (if limit = 0 then None else Some (take limit matches, Some (cursor_at (matches ! (limit - 1)))))
      else Some (take limit matches, None))"

definition list_htlcs ::
    "faults \<Rightarrow> codec \<Rightarrow> htlc_filter \<Rightarrow> nat \<Rightarrow> cursor option \<Rightarrow> index
     \<Rightarrow> (htlc_record list \<times> cursor option) option res" where
  "list_htlcs fails cd f limit cur ix =
     bind_ok (db_call fails ''index: begin read'') (\<lambda>_.
     bind_ok (db_call fails ''index: open tracked'') (\<lambda>_.
     bind_ok (db_call fails ''index: iter tracked'') (\<lambda>_.
     bind_ok (map_ok (\<lambda>(_, blob). ok_or (Internal ''index: decode tracked'') (de_htlc cd blob)) (tracked_htlcs ix)) (\<lambda>all.
     let matches = filter (\<lambda>r. filter_matches r f
           \<and> (case cur of None \<Rightarrow> True | Some c \<Rightarrow> \<not> page_key r \<le> cursor_key c)) all
     in Inr (page_of limit (sort_key page_key matches))))))"

section \<open>The index is consistent\<close>

text \<open>Records as the code makes them: hashes are 32 bytes long.\<close>

definition shaped :: "htlc_record \<Rightarrow> bool" where
  "shaped r \<longleftrightarrow> length (hr_lock_tx_id r) = 32 \<and> length (hp_hash_lock (hr_params r)) = 32"

text \<open>The records the primary table holds.\<close>

definition stored :: "codec \<Rightarrow> index \<Rightarrow> htlc_record set" where
  "stored cd ix = {r. \<exists>k b. (k, b) \<in> set (tracked_htlcs ix) \<and> de_htlc cd b = Some r}"

definition rows_decode :: "codec \<Rightarrow> (bytes \<times> bytes) list \<Rightarrow> bool" where
  "rows_decode cd t \<longleftrightarrow> ordered t
     \<and> (\<forall>(k, b) \<in> set t. \<exists>r. de_htlc cd b = Some r \<and> shaped r \<and> k = primary_of r)"

definition keys_are :: "(htlc_record \<Rightarrow> bytes) \<Rightarrow> htlc_record set \<Rightarrow> key_set \<Rightarrow> bool" where
  "keys_are f R t \<longleftrightarrow> ordered t \<and> fst ` set t = f ` R"

definition index_ok :: "codec \<Rightarrow> index \<Rightarrow> bool" where
  "index_ok cd ix \<longleftrightarrow> rows_decode cd (tracked_htlcs ix)
     \<and> keys_are state_key_of (stored cd ix) (by_state ix)
     \<and> keys_are role_key_of (stored cd ix) (by_role ix)
     \<and> keys_are hash_key_of (stored cd ix) (by_hashlock ix)"

text \<open>Every secondary key ends in the primary key.\<close>

lemma key_suffixes:
  "drop 9 (state_key_of r) = primary_of r" "drop 9 (role_key_of r) = primary_of r"
  "length (hp_hash_lock (hr_params r)) = 32 \<Longrightarrow> drop 32 (hash_key_of r) = primary_of r"
  by (simp_all add: state_key_of_def secondary_state_key_def role_key_of_def secondary_role_key_def
        hash_key_of_def secondary_hashlock_key_def primary_of_def htlc_primary_key_def)

lemma primary_length: "shaped r \<Longrightarrow> length (primary_of r) = 36"
  by (simp add: shaped_def primary_of_def htlc_primary_key_def)

lemma primary_of_eq:
  assumes "shaped r" "shaped q"
  shows "primary_of r = primary_of q \<longleftrightarrow> hr_lock_tx_id r = hr_lock_tx_id q \<and> hr_output_index r = hr_output_index q"
  using assms by (auto simp: shaped_def primary_of_def htlc_primary_key_def)

lemma map_of_row: "rows_decode cd t \<Longrightarrow> (k, b) \<in> set t \<longleftrightarrow> map_of t k = Some b"
  by (simp add: rows_decode_def ordered_entry)

lemma stored_shaped: "rows_decode cd (tracked_htlcs ix) \<Longrightarrow> r \<in> stored cd ix \<Longrightarrow> shaped r"
  by (fastforce simp: stored_def rows_decode_def)

lemma stored_row:
  assumes "rows_decode cd (tracked_htlcs ix)" "r \<in> stored cd ix"
  shows "\<exists>b. map_of (tracked_htlcs ix) (primary_of r) = Some b \<and> de_htlc cd b = Some r"
proof -
  obtain k b where kb: "(k, b) \<in> set (tracked_htlcs ix)" "de_htlc cd b = Some r"
    using assms(2) by (auto simp: stored_def)
  then have "k = primary_of r" using assms(1) by (fastforce simp: rows_decode_def)
  with kb map_of_row [OF assms(1), of k b] show ?thesis by auto
qed

lemma row_stored:
  assumes "rows_decode cd (tracked_htlcs ix)" "map_of (tracked_htlcs ix) k = Some b"
  shows "\<exists>r. de_htlc cd b = Some r \<and> r \<in> stored cd ix \<and> primary_of r = k \<and> shaped r"
proof -
  have kb: "(k, b) \<in> set (tracked_htlcs ix)" using assms(2) by (rule map_of_SomeD)
  then obtain r where "de_htlc cd b = Some r" "shaped r" "k = primary_of r"
    using assms(1) by (fastforce simp: rows_decode_def)
  with kb show ?thesis by (auto simp: stored_def)
qed

lemma stored_unique:
  assumes "rows_decode cd (tracked_htlcs ix)" "r \<in> stored cd ix" "q \<in> stored cd ix" "primary_of r = primary_of q"
  shows "r = q"
  using stored_row [OF assms(1,2)] stored_row [OF assms(1,3)] assms(4) by auto

text \<open>Reading a row: a record of the index, or none with that key.\<close>

lemma read_row_ok:
  assumes "rows_decode cd (tracked_htlcs ix)" "read_row fails cd g wh key ix = Inr x"
  shows "case x of None \<Rightarrow> (\<forall>r \<in> stored cd ix. primary_of r \<noteq> key)
                 | Some r \<Rightarrow> r \<in> stored cd ix \<and> primary_of r = key"
proof (cases "map_of (tracked_htlcs ix) key")
  case None
  then have "x = None" using assms(2) by (auto simp: read_row_def result_simps)
  then show ?thesis using None by (fastforce dest: stored_row [OF assms(1)])
next
  case (Some b)
  then show ?thesis
    using row_stored [OF assms(1) Some] assms(2) by (auto simp: read_row_def result_simps)
qed

text \<open>Secondary keys determine the primary key, so each belongs to one record.\<close>

lemma suffix_inj:
  assumes "rows_decode cd (tracked_htlcs ix)"
  shows "inj_on state_key_of (stored cd ix)" "inj_on role_key_of (stored cd ix)" "inj_on hash_key_of (stored cd ix)"
proof -
  have *: "inj_on f (stored cd ix)"
    if "\<And>r. r \<in> stored cd ix \<Longrightarrow> drop n (f r) = primary_of r" for f n
    by (intro inj_onI stored_unique [OF assms]) (metis that)+
  show "inj_on state_key_of (stored cd ix)" "inj_on role_key_of (stored cd ix)" "inj_on hash_key_of (stored cd ix)"
    using stored_shaped [OF assms] by (auto intro!: * key_suffixes simp: shaped_def)
qed

lemma keys_are_remove:
  "keys_are f R t \<Longrightarrow> inj_on f R \<Longrightarrow> r \<in> R \<Longrightarrow> keys_are f (R - {r}) (map_remove (f r) t)"
  by (auto simp: keys_are_def ordered_remove) (auto simp: map_remove_def inj_on_def image_iff Bex_def)

lemma set_keys_insert: "fst ` set (map_insert k v t) = insert k (fst ` set t)"
  by (induction k v t rule: map_insert.induct) auto

lemma keys_are_insert: "keys_are f R t \<Longrightarrow> keys_are f (insert r R) (map_insert (f r) () t)"
  by (simp add: keys_are_def ordered_insert set_keys_insert)

text \<open>The primary table after a row is replaced or removed.\<close>

lemma rows_insert:
  assumes "rows_decode cd t" "de_htlc cd b = Some r" "shaped r"
  shows "rows_decode cd (map_insert (primary_of r) b t)"
  using assms set_map_insert [of "primary_of r" b t] by (fastforce simp: rows_decode_def ordered_insert)

lemma rows_remove: "rows_decode cd t \<Longrightarrow> rows_decode cd (map_remove k t)"
  by (auto simp: rows_decode_def ordered_remove) (auto simp: map_remove_def)

lemma stored_insert:
  assumes "rows_decode cd (tracked_htlcs ix)" "de_htlc cd b = Some r" "shaped r"
  shows "stored cd (ix\<lparr>tracked_htlcs := map_insert (primary_of r) b (tracked_htlcs ix)\<rparr>) =
    insert r {q \<in> stored cd ix. primary_of q \<noteq> primary_of r}"
proof -
  let ?ix = "ix\<lparr>tracked_htlcs := map_insert (primary_of r) b (tracked_htlcs ix)\<rparr>"
  have rows: "rows_decode cd (tracked_htlcs ?ix)" using rows_insert [OF assms] by simp
  show ?thesis
  proof (intro set_eqI iffI)
    fix q
    assume "q \<in> stored cd ?ix"
    from stored_row [OF rows this] show "q \<in> insert r {q \<in> stored cd ix. primary_of q \<noteq> primary_of r}"
      using assms(2) map_of_row [OF assms(1)] by (auto simp: stored_def split: if_splits)
  next
    fix q
    assume "q \<in> insert r {q \<in> stored cd ix. primary_of q \<noteq> primary_of r}"
    then have "\<exists>b'. map_of (tracked_htlcs ?ix) (primary_of q) = Some b' \<and> de_htlc cd b' = Some q"
      using stored_row [OF assms(1), of q] assms(2) by auto
    then show "q \<in> stored cd ?ix"
      using map_of_SomeD [of "tracked_htlcs ?ix"] by (auto simp: stored_def)
  qed
qed

lemma stored_remove:
  assumes "rows_decode cd (tracked_htlcs ix)"
  shows "stored cd (ix\<lparr>tracked_htlcs := map_remove k (tracked_htlcs ix)\<rparr>) = {q \<in> stored cd ix. primary_of q \<noteq> k}"
  using assms by (fastforce simp: stored_def map_remove_def rows_decode_def)

text \<open>What a transaction that commits has done to the tables.\<close>

definition without_secondary :: "htlc_record \<Rightarrow> bytes \<Rightarrow> index \<Rightarrow> index" where
  "without_secondary prev owner ix =
     ix\<lparr>by_state := map_remove (state_key_of prev) (by_state ix), by_role := map_remove (role_key_of prev) (by_role ix),
        by_hashlock := map_remove (hash_key_of prev) (by_hashlock ix),
        by_owned := map_remove (owned_key_of owner prev) (by_owned ix)\<rparr>"

definition with_secondary :: "htlc_record \<Rightarrow> bytes \<Rightarrow> index \<Rightarrow> index" where
  "with_secondary r owner ix =
     ix\<lparr>by_state := map_insert (state_key_of r) () (by_state ix), by_role := map_insert (role_key_of r) () (by_role ix),
        by_hashlock := map_insert (hash_key_of r) () (by_hashlock ix),
        by_owned := map_insert (owned_key_of owner r) () (by_owned ix)\<rparr>"

lemma secondary_steps:
  "drop_secondary fails prev owner ix = Inr ix' \<Longrightarrow> ix' = without_secondary prev owner ix"
  "put_secondary fails r owner ix = Inr ix' \<Longrightarrow> ix' = with_secondary r owner ix"
  by (auto simp: drop_secondary_def put_secondary_def on_table_def result_simps without_secondary_def with_secondary_def)

lemma committed:
  "commit_txn ix t = (ix', Inr x) \<longleftrightarrow> t = Inr (ix', x)"
  "commit_txn ix t = (ix', Inl d) \<longleftrightarrow> ix' = ix \<and> t = Inl d"
  by (auto simp: commit_txn_def split: sum.splits prod.splits)

lemma upsert_done:
  assumes "upsert_htlc fails cd r owner ix = (ix', Inr u)"
  obtains b prior where "ser_htlc cd r = Some b"
    "read_row fails cd ''index: get prior'' ''index: decode prior htlc'' (primary_of r) ix = Inr prior"
    "ix' = with_secondary r owner
       ((case prior of None \<Rightarrow> ix | Some prev \<Rightarrow> without_secondary prev owner ix)
          \<lparr>tracked_htlcs := map_insert (primary_of r) b (tracked_htlcs ix)\<rparr>)"
proof -
  obtain b prior ix1 where *: "ser_htlc cd r = Some b"
    "read_row fails cd ''index: get prior'' ''index: decode prior htlc'' (primary_of r) ix = Inr prior"
    "(case prior of None \<Rightarrow> Inr ix | Some prev \<Rightarrow> drop_secondary fails prev owner ix) = Inr ix1"
    "put_secondary fails r owner (ix1\<lparr>tracked_htlcs := map_insert (primary_of r) b (tracked_htlcs ix1)\<rparr>) = Inr ix'"
    using assms by (fastforce simp: upsert_htlc_def committed result_simps on_table_def)
  have "ix1 = (case prior of None \<Rightarrow> ix | Some prev \<Rightarrow> without_secondary prev owner ix)"
    using *(3) secondary_steps(1) by (cases prior) auto
  then have "ix' = with_secondary r owner
       ((case prior of None \<Rightarrow> ix | Some prev \<Rightarrow> without_secondary prev owner ix)
          \<lparr>tracked_htlcs := map_insert (primary_of r) b (tracked_htlcs ix)\<rparr>)"
    using secondary_steps(2) [OF *(4)] by (cases prior) (simp_all add: without_secondary_def)
  with * show ?thesis by (intro that) auto
qed

lemma index_ok_put:
  fixes owner :: bytes
  assumes "index_ok cd ix" "de_htlc cd b = Some r" "shaped r"
    and fresh: "\<forall>q \<in> stored cd ix. primary_of q \<noteq> primary_of r"
  defines "ix' \<equiv> with_secondary r owner (ix\<lparr>tracked_htlcs := map_insert (primary_of r) b (tracked_htlcs ix)\<rparr>)"
  shows "index_ok cd ix' \<and> stored cd ix' = insert r (stored cd ix)"
proof -
  have rows: "rows_decode cd (tracked_htlcs ix)" using assms(1) by (simp add: index_ok_def)
  have "stored cd ix' = stored cd (ix\<lparr>tracked_htlcs := map_insert (primary_of r) b (tracked_htlcs ix)\<rparr>)"
    by (simp add: ix'_def stored_def with_secondary_def)
  then have s: "stored cd ix' = insert r (stored cd ix)"
    using stored_insert [OF rows assms(2,3)] fresh by auto
  then show ?thesis
    using assms(1) rows_insert [OF rows assms(2,3)]
    by (simp add: index_ok_def ix'_def with_secondary_def keys_are_insert)
qed

lemma index_ok_drop:
  fixes owner :: bytes
  assumes "index_ok cd ix" "prev \<in> stored cd ix"
  defines "ix' \<equiv> without_secondary prev owner (ix\<lparr>tracked_htlcs := map_remove (primary_of prev) (tracked_htlcs ix)\<rparr>)"
  shows "index_ok cd ix' \<and> stored cd ix' = stored cd ix - {prev}"
proof -
  have rows: "rows_decode cd (tracked_htlcs ix)" using assms(1) by (simp add: index_ok_def)
  have "stored cd ix' = {q \<in> stored cd ix. primary_of q \<noteq> primary_of prev}"
    using stored_remove [OF rows] by (simp add: ix'_def stored_def without_secondary_def)
  also have "\<dots> = stored cd ix - {prev}" using stored_unique [OF rows _ assms(2)] by blast
  finally have "stored cd ix' = stored cd ix - {prev}" .
  then show ?thesis
    using assms(1,2) rows_remove [OF rows] suffix_inj [OF rows]
    by (simp add: index_ok_def ix'_def without_secondary_def keys_are_remove)
qed

text \<open>Removing a row first changes nothing about the row that is then put.\<close>

lemma insert_front: "\<forall>x \<in> set t. k < fst x \<Longrightarrow> map_insert k v t = (k, v) # t"
  by (cases t) auto

lemma insert_over: "ordered t \<Longrightarrow> map_insert k v (map_remove k t) = map_insert k v t"
proof (induction k v t rule: map_insert.induct)
  case (1 k v)
  then show ?case by (simp add: map_remove_def)
next
  case (2 k v a b m)
  have rest: "filter (\<lambda>p. fst p \<noteq> a) m = m" "\<forall>x \<in> set m. a < fst x"
    using 2(2) by (auto simp: ordered_def filter_id_conv)
  show ?case
  proof (cases "k = a")
    case True
    then show ?thesis using rest insert_front [of m a v] by (simp add: map_remove_def)
  next
    case False
    moreover have "filter (\<lambda>p. fst p \<noteq> k) m = m" if "k < a"
      using rest(2) that by (fastforce simp: filter_id_conv)
    ultimately show ?thesis using 2 by (auto simp: map_remove_def ordered_def)
  qed
qed

lemma upsert_keeps_index:
  assumes "index_ok cd ix" "shaped r" "\<And>b. ser_htlc cd r = Some b \<Longrightarrow> de_htlc cd b = Some r"
    "upsert_htlc fails cd r owner ix = (ix', Inr u)"
  shows "index_ok cd ix' \<and> stored cd ix' = insert r {q \<in> stored cd ix. primary_of q \<noteq> primary_of r}
    \<and> meta_row ix' = meta_row ix"
proof -
  have rows: "rows_decode cd (tracked_htlcs ix)" using assms(1) by (simp add: index_ok_def)
  obtain b prior where b: "ser_htlc cd r = Some b"
    and prior: "read_row fails cd ''index: get prior'' ''index: decode prior htlc'' (primary_of r) ix = Inr prior"
    and ix': "ix' = with_secondary r owner
       ((case prior of None \<Rightarrow> ix | Some prev \<Rightarrow> without_secondary prev owner ix)
          \<lparr>tracked_htlcs := map_insert (primary_of r) b (tracked_htlcs ix)\<rparr>)"
    by (rule upsert_done [OF assms(4)])
  note de = assms(3) [OF b]
  show ?thesis
  proof (cases prior)
    case None
    then have fresh: "\<forall>q \<in> stored cd ix. primary_of q \<noteq> primary_of r"
      using read_row_ok [OF rows prior] by simp
    with index_ok_put [OF assms(1) de assms(2) fresh, of owner] show ?thesis
      by (auto simp: ix' None with_secondary_def)
  next
    case (Some prev)
    have prev: "prev \<in> stored cd ix" "primary_of prev = primary_of r"
      using read_row_ok [OF rows prior] Some by simp_all
    let ?ix = "without_secondary prev owner (ix\<lparr>tracked_htlcs := map_remove (primary_of prev) (tracked_htlcs ix)\<rparr>)"
    have mid: "index_ok cd ?ix" "stored cd ?ix = stored cd ix - {prev}"
      using index_ok_drop [OF assms(1) prev(1)] by auto
    have fresh: "\<forall>q \<in> stored cd ?ix. primary_of q \<noteq> primary_of r"
      using mid(2) prev stored_unique [OF rows _ prev(1)] by (metis DiffD1 DiffD2 singletonI)
    have same: "ix' = with_secondary r owner (?ix\<lparr>tracked_htlcs := map_insert (primary_of r) b (tracked_htlcs ?ix)\<rparr>)"
      using insert_over [of "tracked_htlcs ix"] rows prev(2)
      by (simp add: ix' Some without_secondary_def rows_decode_def)
    have "stored cd ix - {prev} = {q \<in> stored cd ix. primary_of q \<noteq> primary_of r}"
      using stored_unique [OF rows _ prev(1)] prev(2) by force
    with index_ok_put [OF mid(1) de assms(2) fresh, of owner] mid(2) show ?thesis
      by (simp add: same) (simp add: with_secondary_def without_secondary_def)
  qed
qed

lemma forget_keeps_index:
  assumes "index_ok cd ix" "forget_htlc fails cd lock_tx i owner ix = (ix', Inr x)"
  shows "index_ok cd ix' \<and> stored cd ix' = {q \<in> stored cd ix. primary_of q \<noteq> htlc_primary_key lock_tx i}
    \<and> (x \<longleftrightarrow> (\<exists>q \<in> stored cd ix. primary_of q = htlc_primary_key lock_tx i)) \<and> meta_row ix' = meta_row ix"
proof -
  have rows: "rows_decode cd (tracked_htlcs ix)" using assms(1) by (simp add: index_ok_def)
  obtain existing where ex: "read_row fails cd ''index: get prior'' ''index: decode prior'' (htlc_primary_key lock_tx i) ix = Inr existing"
    using assms(2) by (auto simp: forget_htlc_def committed result_simps)
  show ?thesis
  proof (cases existing)
    case None
    then have "ix' = ix \<and> \<not> x" using assms(2) ex by (auto simp: forget_htlc_def committed result_simps)
    then show ?thesis using assms(1) read_row_ok [OF rows ex] None by auto
  next
    case (Some prev)
    have prev: "prev \<in> stored cd ix" "primary_of prev = htlc_primary_key lock_tx i"
      using read_row_ok [OF rows ex] Some by simp_all
    have "ix' = without_secondary prev owner (ix\<lparr>tracked_htlcs := map_remove (primary_of prev) (tracked_htlcs ix)\<rparr>)" "x"
      using assms(2) ex Some prev(2)
      by (auto simp: forget_htlc_def committed result_simps on_table_def dest!: secondary_steps)
    moreover have "stored cd ix - {prev} = {q \<in> stored cd ix. primary_of q \<noteq> htlc_primary_key lock_tx i}"
      using stored_unique [OF rows _ prev(1)] prev(2) by force
    ultimately show ?thesis
      using index_ok_drop [OF assms(1) prev(1), of owner] prev by (auto simp: without_secondary_def)
  qed
qed

lemma failed_write_keeps_index:
  "upsert_htlc fails cd r owner ix = (ix', Inl d) \<Longrightarrow> ix' = ix"
  "forget_htlc fails cd lock_tx i owner ix = (ix', Inl d) \<Longrightarrow> ix' = ix"
  "save_follower_meta fails cd m ix = (ix', Inl d) \<Longrightarrow> ix' = ix"
  by (simp_all add: upsert_htlc_def forget_htlc_def save_follower_meta_def committed)

section \<open>Runs of the index\<close>

datatype index_op =
    Upsert htlc_record bytes
  | Forget bytes u32 bytes
  | SaveMeta follower_meta

fun apply_op :: "codec \<Rightarrow> faults \<times> index_op \<Rightarrow> index \<Rightarrow> index" where
  "apply_op cd (fails, Upsert r owner) ix = fst (upsert_htlc fails cd r owner ix)"
| "apply_op cd (fails, Forget lock_tx i owner) ix = fst (forget_htlc fails cd lock_tx i owner ix)"
| "apply_op cd (fails, SaveMeta m) ix = fst (save_follower_meta fails cd m ix)"

text \<open>The index after any operations, any of which may have failed at any database call.\<close>

definition index_after :: "codec \<Rightarrow> (faults \<times> index_op) list \<Rightarrow> index" where
  "index_after cd ops = fold (apply_op cd) ops empty_index"

definition roundtrips :: "codec \<Rightarrow> bool" where
  "roundtrips cd \<longleftrightarrow> (\<forall>r b. ser_htlc cd r = Some b \<longrightarrow> de_htlc cd b = Some r)"

definition well_shaped :: "(faults \<times> index_op) list \<Rightarrow> bool" where
  "well_shaped ops \<longleftrightarrow> (\<forall>fails r owner. (fails, Upsert r owner) \<in> set ops \<longrightarrow> shaped r)"

lemma apply_op_keeps:
  assumes "index_ok cd ix" "roundtrips cd" "\<And>fails r owner. op = (fails, Upsert r owner) \<Longrightarrow> shaped r"
  shows "index_ok cd (apply_op cd op ix)"
proof -
  obtain fails o' where op: "op = (fails, o')" by (cases op)
  show ?thesis
  proof (cases o')
    case (Upsert r owner)
    then show ?thesis
      using assms op failed_write_keeps_index(1) [of fails cd r owner ix]
        upsert_keeps_index [of cd ix r fails owner]
      by (cases "upsert_htlc fails cd r owner ix"; cases "snd (upsert_htlc fails cd r owner ix)")
         (auto simp: roundtrips_def)
  next
    case (Forget lock_tx i owner)
    then show ?thesis
      using assms op failed_write_keeps_index(2) [of fails cd lock_tx i owner ix]
        forget_keeps_index [of cd ix fails lock_tx i owner]
      by (cases "forget_htlc fails cd lock_tx i owner ix"; cases "snd (forget_htlc fails cd lock_tx i owner ix)") auto
  next
    case (SaveMeta m)
    have "index_ok cd (fst (save_follower_meta fails cd m ix)) = index_ok cd ix"
      by (auto simp: save_follower_meta_def commit_txn_def bind_ok_def ok_or_def on_table_def db_call_def
            index_ok_def stored_def split: option.split)
    then show ?thesis using assms(1) op SaveMeta by simp
  qed
qed

lemma empty_index_ok: "index_ok cd empty_index"
  by (simp add: index_ok_def empty_index_def rows_decode_def keys_are_def stored_def ordered_def)

lemma index_after_ok:
  assumes "roundtrips cd" "well_shaped ops"
  shows "index_ok cd (index_after cd ops)"
proof -
  have "index_ok cd ix \<Longrightarrow> index_ok cd (fold (apply_op cd) ops ix)" for ix
    using assms(2)
  proof (induction ops arbitrary: ix)
    case Nil
    then show ?case by simp
  next
    case (Cons op ops)
    have "index_ok cd (apply_op cd op ix)"
      using Cons.prems by (intro apply_op_keeps assms(1)) (auto simp: well_shaped_def)
    moreover have "well_shaped ops" using Cons.prems(2) by (force simp: well_shaped_def)
    ultimately show ?case using Cons.IH by simp
  qed
  then show ?thesis by (simp add: index_after_def empty_index_ok)
qed

section \<open>Lookup by hashlock\<close>

lemma be_val_replicate: "be_val (replicate n 0) = 0" "be_val (replicate n (- 1)) = 256 ^ n - 1"
proof -
  show "be_val (replicate n 0) = 0" by (induction n) (simp_all add: be_val_Cons)
  show "be_val (replicate n (- 1)) = 256 ^ n - 1"
  proof (induction n)
    case (Suc n)
    have "unat (- 1 :: u8) = 255" by (simp add: unat_minus_one_max)
    then show ?case using Suc by (simp add: be_val_Cons algebra_simps)
  qed simp
qed

text \<open>The bounds of the range hold exactly the keys with the hash in front.\<close>

lemma block_le:
  fixes a b c N :: nat
  assumes "c < N"
  shows "a * N \<le> b * N + c \<longleftrightarrow> a \<le> b" "b * N + c \<le> a * N + (N - 1) \<longleftrightarrow> b \<le> a"
proof -
  have *: "x * N \<le> y * N + d \<longleftrightarrow> x \<le> y" if "d < N" for x y d
  proof
    assume "x * N \<le> y * N + d"
    also have "\<dots> < (y + 1) * N" using that by simp
    finally have "x < y + 1" by (simp only: mult_less_cancel2)
    then show "x \<le> y" by simp
  next
    assume "x \<le> y"
    then have "x * N \<le> y * N" by (rule mult_le_mono1)
    then show "x * N \<le> y * N + d" by (rule trans_le_add1)
  qed
  show "a * N \<le> b * N + c \<longleftrightarrow> a \<le> b" by (rule * [OF assms])
  show "b * N + c \<le> a * N + (N - 1) \<longleftrightarrow> b \<le> a"
  proof
    assume "b * N + c \<le> a * N + (N - 1)"
    then have "b * N \<le> a * N + (N - 1)" by simp
    then show "b \<le> a" using * [of "N - 1" b a] assms by simp
  next
    assume "b \<le> a"
    then have "b * N \<le> a * N" by (rule mult_le_mono1)
    then show "b * N + c \<le> a * N + (N - 1)" using assms by linarith
  qed
qed

lemma prefix_range:
  fixes h k :: bytes
  assumes "length h = 32" "length k = 68"
  shows "h @ replicate 36 0 \<le> k \<and> k \<le> h @ replicate 36 (- 1) \<longleftrightarrow> take 32 k = h"
proof -
  define N :: nat where "N = 256 ^ 36"
  let ?a = "be_val h" and ?b = "be_val (take 32 k)" and ?c = "be_val (drop 32 k)"
  have d: "length (drop 32 k) = 36" using assms(2) by simp
  have k: "be_val k = ?b * N + ?c"
    using be_val_append [of "take 32 k" "drop 32 k"] d by (simp only: append_take_drop_id N_def)
  have c: "?c < N" using be_val_bound [of "drop 32 k"] d by (simp only: N_def)
  have v: "be_val (h @ replicate 36 0) = ?a * N" "be_val (h @ replicate 36 (- 1)) = ?a * N + (N - 1)"
    by (simp_all only: be_val_append be_val_replicate length_replicate N_def add_0_right)
  have l: "length (h @ replicate 36 0) = length k" "length k = length (h @ replicate 36 (- 1 :: u8))"
    using assms by simp_all
  have "h @ replicate 36 0 \<le> k \<longleftrightarrow> ?a \<le> ?b" "k \<le> h @ replicate 36 (- 1) \<longleftrightarrow> ?b \<le> ?a"
    by (simp_all only: lex_le_be_val [OF l(1)] lex_le_be_val [OF l(2)] v k block_le [OF c])
  moreover have "?a = ?b \<longleftrightarrow> take 32 k = h"
  proof -
    have "length (take 32 k) = length h" using assms by simp
    then show ?thesis by (metis be_of_be_val)
  qed
  ultimately show ?thesis by (metis order_antisym order_refl)
qed

lemma hash_key_split:
  assumes "shaped r"
  shows "length (hash_key_of r) = 68" "take 32 (hash_key_of r) = hp_hash_lock (hr_params r)"
    "drop 32 (hash_key_of r) = primary_of r"
  using assms by (simp_all add: shaped_def hash_key_of_def secondary_hashlock_key_def primary_of_def htlc_primary_key_def)

lemma map_ok_rows:
  "\<forall>x \<in> set xs. f x = Inr (g x) \<Longrightarrow> map_ok f xs = Inr (map g xs)"
  by (induction xs) auto

lemma lookup_ok:
  assumes "index_ok cd ix" "length h = 32"
  shows "\<exists>rs. lookup_by_hashlock no_faults cd h ix = Inr rs \<and> distinct rs
    \<and> set rs = {r \<in> stored cd ix. hp_hash_lock (hr_params r) = h}"
proof -
  have rows: "rows_decode cd (tracked_htlcs ix)" and keys: "keys_are hash_key_of (stored cd ix) (by_hashlock ix)"
    using assms(1) by (simp_all add: index_ok_def)
  define ks where "ks = filter (\<lambda>k. length k = 68)
      (key_range (h @ replicate 36 0) (h @ replicate 36 (- 1)) (by_hashlock ix))"
  have in_ks: "k \<in> set ks \<longleftrightarrow> (\<exists>r \<in> stored cd ix. k = hash_key_of r \<and> hp_hash_lock (hr_params r) = h)" for k
  proof -
    have "k \<in> set ks \<longleftrightarrow> k \<in> hash_key_of ` stored cd ix \<and> length k = 68
        \<and> h @ replicate 36 0 \<le> k \<and> k \<le> h @ replicate 36 (- 1)"
      using keys by (auto simp: ks_def key_range_def keys_are_def)
    also have "\<dots> \<longleftrightarrow> (\<exists>r \<in> stored cd ix. k = hash_key_of r \<and> hp_hash_lock (hr_params r) = h)"
      using prefix_range [OF assms(2), of k] hash_key_split [OF stored_shaped [OF rows]] by auto
    finally show ?thesis .
  qed
  define row where "row pk = the (de_htlc cd (the (map_of (tracked_htlcs ix) pk)))" for pk
  have row: "(\<exists>b. map_of (tracked_htlcs ix) (drop 32 k) = Some b \<and> de_htlc cd b = Some (row (drop 32 k)))
      \<and> row (drop 32 k) \<in> stored cd ix \<and> hash_key_of (row (drop 32 k)) = k
      \<and> hp_hash_lock (hr_params (row (drop 32 k))) = h" if k: "k \<in> set ks" for k
  proof -
    obtain r where r: "r \<in> stored cd ix" "k = hash_key_of r" "hp_hash_lock (hr_params r) = h"
      using k in_ks by auto
    then have "drop 32 k = primary_of r" using hash_key_split [OF stored_shaped [OF rows]] by simp
    moreover from this have "row (drop 32 k) = r" using stored_row [OF rows r(1)] by (auto simp: row_def)
    ultimately show ?thesis using stored_row [OF rows r(1)] r by auto
  qed
  have run: "lookup_by_hashlock no_faults cd h ix = Inr (map (row \<circ> drop 32) ks)"
  proof -
    have "map_ok (\<lambda>pk. bind_ok (db_call no_faults ''index: get tracked'') (\<lambda>_.
          case map_of (tracked_htlcs ix) pk of None \<Rightarrow> Inr []
          | Some b \<Rightarrow> bind_ok (ok_or (Internal ''index: decode tracked'') (de_htlc cd b)) (\<lambda>r. Inr [r])))
        (map (drop 32) ks) = Inr (map (\<lambda>pk. [row pk]) (map (drop 32) ks))"
      by (rule map_ok_rows) (use row in \<open>force\<close>)
    then show ?thesis
      by (simp add: lookup_by_hashlock_def Let_def ks_def [symmetric] concat_map_singleton comp_def)
  qed
  have "distinct ks"
    using keys ordered_distinct [of "by_hashlock ix"] by (simp add: ks_def key_range_def keys_are_def)
  then have "distinct (map (row \<circ> drop 32) ks)"
    by (auto simp: distinct_map intro!: inj_onI) (metis row)
  moreover have "set (map (row \<circ> drop 32) ks) = {r \<in> stored cd ix. hp_hash_lock (hr_params r) = h}"
  proof (intro set_eqI iffI)
    fix r
    assume "r \<in> set (map (row \<circ> drop 32) ks)"
    then show "r \<in> {r \<in> stored cd ix. hp_hash_lock (hr_params r) = h}" using row by auto
  next
    fix r
    assume r: "r \<in> {r \<in> stored cd ix. hp_hash_lock (hr_params r) = h}"
    then have k: "hash_key_of r \<in> set ks" using in_ks by auto
    have "row (drop 32 (hash_key_of r)) = r"
      using inj_onD [OF suffix_inj(3) [OF rows]] row [OF k] r by auto
    with k show "r \<in> set (map (row \<circ> drop 32) ks)" by force
  qed
  ultimately show ?thesis using run by blast
qed

end
