(* ===== verification/HtlcApi.thy ===== *)
theory HtlcApi imports HtlcIndex begin

text \<open>
  The observability methods of the API (\<open>src/api/htlc.rs\<close>) over the HTLC index: status, listing page
  by page, forgetting settled entries, the follower's status, and the two calls that wait.  A call
  that panics in its blocking task answers with an internal error.  The waiting calls are given the
  rounds they get before their timer fires; running out of rounds is the timeout.
\<close>

section \<open>Addresses\<close>

definition is_hex_char :: "char \<Rightarrow> bool" where
  "is_hex_char c \<longleftrightarrow> (let n = of_char c :: nat in (48 \<le> n \<and> n \<le> 57) \<or> (97 \<le> n \<and> n \<le> 102) \<or> (65 \<le> n \<and> n \<le> 70))"

definition ensure_64_hex :: "string \<Rightarrow> unit res" where
  "ensure_64_hex s =
     (if length s \<noteq> 64 then Inl (BadAddressLen (length s div 2))
      else if \<not> list_all is_hex_char s then Inl (BadHex ''non-hex character in '')
      else Inr ())"

section \<open>Listing\<close>

datatype state_filter = OneState htlc_lifecycle | ManyStates "htlc_lifecycle list"

record list_params =
  lp_role :: "htlc_role option"
  lp_state :: "state_filter option"
  lp_since_height :: "u64 option"
  lp_limit :: "u32 option"
  lp_cursor :: "string option"
  lp_address :: "string option"

definition htlc_list_default_limit :: u32 where "htlc_list_default_limit = 100"
definition htlc_list_max_limit :: u32 where "htlc_list_max_limit = 1000"

text \<open>A page from the local index, or what the indexer answered, which is passed on as it is.\<close>

datatype list_reply = LocalPage "htlc_record list" "string option" | FromIndexer string

definition page_limit :: "list_params \<Rightarrow> nat" where
  "page_limit p = unat (min (case lp_limit p of None \<Rightarrow> htlc_list_default_limit | Some n \<Rightarrow> n) htlc_list_max_limit)"

definition states_of :: "list_params \<Rightarrow> htlc_lifecycle list" where
  "states_of p = (case lp_state p of None \<Rightarrow> [] | Some (OneState s) \<Rightarrow> [s] | Some (ManyStates ss) \<Rightarrow> ss)"

definition list_filter :: "list_params \<Rightarrow> htlc_filter" where
  "list_filter p = \<lparr>want_role = lp_role p, want_states = states_of p, want_owned = None, since_height = lp_since_height p\<rparr>"

definition htlc_list ::
    "faults \<Rightarrow> codec \<Rightarrow> (list_params \<Rightarrow> string res) option \<Rightarrow> index \<Rightarrow> list_params \<Rightarrow> list_reply res" where
  "htlc_list fails cd indexer ix p =
     bind_ok (case lp_cursor p of None \<Rightarrow> Inr None | Some s \<Rightarrow> bind_ok (cursor_decode cd s) (\<lambda>c. Inr (Some c))) (\<lambda>cur.
     bind_ok (case lp_address p of None \<Rightarrow> Inr () | Some a \<Rightarrow> ensure_64_hex a) (\<lambda>_.
     case (lp_address p, indexer) of
       (Some _, Some ask) \<Rightarrow> bind_ok (ask p) (\<lambda>v. Inr (FromIndexer v))
     | _ \<Rightarrow>
         bind_ok (list_htlcs fails cd (list_filter p) (page_limit p) cur ix) (\<lambda>x.
         case x of
           None \<Rightarrow> Inl (Internal ''htlc_list: blocking task panicked'')
         | Some (rs, next) \<Rightarrow> Inr (LocalPage rs (map_option (cursor_encode cd) next)))))"

section \<open>Status and forgetting\<close>

text \<open>The indexer's answer is a JSON value; our role goes into it when it is an object.\<close>

record indexer_json =
  ij_text :: string
  ij_is_object :: bool

datatype status_reply = LocalStatus htlc_record | IndexerStatus string "htlc_role option"

definition htlc_status ::
    "faults \<Rightarrow> codec \<Rightarrow> chain \<Rightarrow> (string \<Rightarrow> u32 \<Rightarrow> indexer_json res) option \<Rightarrow> index \<Rightarrow> string \<Rightarrow> u32 \<Rightarrow> status_reply res" where
  "htlc_status fails cd ch indexer ix lock_tx_id i =
     bind_ok (ensure_64_hex lock_tx_id) (\<lambda>_.
     bind_ok (decode_hash ch lock_tx_id) (\<lambda>tx.
     bind_ok (get_htlc fails cd tx i ix) (\<lambda>local.
     let fallback = (case local of Some r \<Rightarrow> Inr (LocalStatus r) | None \<Rightarrow> Inl (Wallet ''no tracked HTLC at'')) in
     case indexer of
       None \<Rightarrow> fallback
     | Some ask \<Rightarrow>
         (case ask lock_tx_id i of
            Inl _ \<Rightarrow> fallback
          | Inr v \<Rightarrow>
              Inr (IndexerStatus (ij_text v)
                (case local of None \<Rightarrow> None
                 | Some l \<Rightarrow> if hr_role l \<noteq> Observer \<and> ij_is_object v then Some (hr_role l) else None))))))"

definition settled_state :: "htlc_lifecycle \<Rightarrow> bool" where
  "settled_state s \<longleftrightarrow> s = Claimed \<or> s = Reclaimed"

definition htlc_forget :: "faults \<Rightarrow> codec \<Rightarrow> chain \<Rightarrow> string \<Rightarrow> u32 \<Rightarrow> index \<Rightarrow> index \<times> bool res" where
  "htlc_forget fails cd ch lock_tx_id i ix =
     (case bind_ok (ensure_64_hex lock_tx_id) (\<lambda>_. bind_ok (decode_hash ch lock_tx_id) (\<lambda>tx.
           bind_ok (get_htlc fails cd tx i ix) (\<lambda>existing. Inr (tx, existing)))) of
        Inl d \<Rightarrow> (ix, Inl d)
      | Inr (tx, None) \<Rightarrow> (ix, Inr False)
      | Inr (tx, Some r) \<Rightarrow>
          if \<not> settled_state (hr_state r) then
            (ix, Inl (BadParams ''htlc_forget: refusing to forget a non-settled HTLC''))
          else forget_htlc fails cd tx i (replicate 32 0) ix)"

record follower_status =
  fs_last_indexed :: u64
  fs_block_id :: string
  fs_tip :: u64
  fs_lag :: "64 word"
  fs_count :: nat
  fs_started_at :: u64
  fs_full_scan :: bool

text \<open>The lag is a signed difference, kept as the word it is computed in.\<close>

definition follower_status_of :: "faults \<Rightarrow> codec \<Rightarrow> chain \<Rightarrow> u64 res \<Rightarrow> index \<Rightarrow> follower_status res" where
  "follower_status_of fails cd ch tip_answer ix =
     bind_ok tip_answer (\<lambda>tip.
     bind_ok (get_follower_meta fails cd ix) (\<lambda>m.
     bind_ok (count_htlcs fails ix) (\<lambda>n.
     Inr \<lparr>fs_last_indexed = last_indexed_height m, fs_block_id = hex_encode ch (last_indexed_block_id m),
          fs_tip = tip, fs_lag = tip - last_indexed_height m, fs_count = n,
          fs_started_at = started_at m, fs_full_scan = full_scan_complete m\<rparr>)))"

section \<open>Waiting for a transaction\<close>

definition wait_for_tx_max_timeout_secs :: u64 where "wait_for_tx_max_timeout_secs = 600"

record tx_seen =
  seen_tx_id :: string
  seen_block_id :: "string option"
  seen_height :: "u64 option"

text \<open>One round: the lookup, the tip, the final lookup, and whether the wake-up channel is still open.\<close>

record wait_round =
  wr_lookup :: "tx_seen res"
  wr_tip :: "u64 res"
  wr_final :: "tx_seen res"
  wr_channel_open :: bool

record wait_answer =
  wa_tx_id :: string
  wa_block_id :: string
  wa_height :: u64
  wa_confirmations :: u64

text \<open>The outcome of one round: \<open>None\<close> waits on.\<close>

definition wait_round_step :: "u32 \<Rightarrow> wait_round \<Rightarrow> wait_answer option res" where
  "wait_round_step min_confs rd =
     bind_ok (case wr_lookup rd of Inr s \<Rightarrow> Inr (seen_height s) | Inl (UpstreamRpc c m) \<Rightarrow> Inr None | Inl d \<Rightarrow> Inl d)
       (\<lambda>block_height. case block_height of
          None \<Rightarrow> Inr None
        | Some bh \<Rightarrow>
            bind_ok (wr_tip rd) (\<lambda>tip.
            let confirmations = saturating_add (saturating_sub tip bh) 1 in
            if confirmations \<ge> ucast min_confs then
              bind_ok (wr_final rd) (\<lambda>s.
              Inr (Some \<lparr>wa_tx_id = seen_tx_id s, wa_block_id = (case seen_block_id s of None \<Rightarrow> [] | Some b \<Rightarrow> b),
                         wa_height = (case seen_height s of None \<Rightarrow> bh | Some h \<Rightarrow> h),
                         wa_confirmations = confirmations\<rparr>))
            else Inr None))"

fun wait_for_tx_inner :: "string \<Rightarrow> u32 \<Rightarrow> u64 \<Rightarrow> wait_round list \<Rightarrow> wait_answer res" where
  "wait_for_tx_inner tx min_confs secs [] = Inl (WaitTimeout tx min_confs secs)"
| "wait_for_tx_inner tx min_confs secs (rd # rounds) =
     (case wait_round_step min_confs rd of
        Inl d \<Rightarrow> Inl d
      | Inr (Some a) \<Rightarrow> Inr a
      | Inr None \<Rightarrow>
          if \<not> wr_channel_open rd then Inl (Internal ''wait_for_tx: follower channel closed'')
          else wait_for_tx_inner tx min_confs secs rounds)"

definition wait_for_tx :: "string \<Rightarrow> u32 \<Rightarrow> u64 \<Rightarrow> wait_round list \<Rightarrow> wait_answer res" where
  "wait_for_tx tx min_confirmations timeout_secs rounds =
     bind_ok (ensure_64_hex tx) (\<lambda>_.
     wait_for_tx_inner tx (max min_confirmations 1) (min timeout_secs wait_for_tx_max_timeout_secs) rounds)"

section \<open>Waiting for a payment\<close>

record mempool_tx =
  mp_tx_id :: string
  mp_received :: "u64 list"

record mempool_view =
  mv_txs :: "mempool_tx list"
  mv_tip_height :: u64

record payment_seen =
  pay_tx_id :: "string option"
  pay_amount :: u64
  pay_confirmed :: bool
  pay_tip_height :: u64

text \<open>Two queries of the node, and the follower's own tip.\<close>

record pay_round =
  pr_mempool :: "mempool_view option res"
  pr_balance :: "u64 res"
  pr_own_tip :: u64

definition payment_baseline :: "pay_round \<Rightarrow> (string set \<times> u64) res" where
  "payment_baseline rd =
     bind_ok (pr_mempool rd) (\<lambda>m.
     bind_ok (pr_balance rd) (\<lambda>b.
     Inr (case m of None \<Rightarrow> {} | Some v \<Rightarrow> mp_tx_id ` set (filter (\<lambda>t. mp_received t \<noteq> []) (mv_txs v)), b)))"

text \<open>The sum of the received values wraps, as in the release build.\<close>

definition detect_payment :: "string set \<Rightarrow> u64 \<Rightarrow> u64 \<Rightarrow> pay_round \<Rightarrow> payment_seen option res" where
  "detect_payment base_txids base_balance min_amount rd =
     bind_ok (pr_mempool rd) (\<lambda>m.
     case (case m of None \<Rightarrow> None
           | Some v \<Rightarrow> find (\<lambda>t. mp_received t \<noteq> [] \<and> mp_tx_id t \<notin> base_txids \<and> sum_list (mp_received t) \<ge> min_amount)
                          (mv_txs v)) of
       Some t \<Rightarrow> Inr (Some \<lparr>pay_tx_id = Some (mp_tx_id t), pay_amount = sum_list (mp_received t), pay_confirmed = False,
                            pay_tip_height = (case m of None \<Rightarrow> 0 | Some v \<Rightarrow> mv_tip_height v)\<rparr>)
     | None \<Rightarrow>
         bind_ok (pr_balance rd) (\<lambda>b.
         Inr (if b > base_balance \<and> b - base_balance \<ge> min_amount
              then Some \<lparr>pay_tx_id = None, pay_amount = b - base_balance, pay_confirmed = True,
                         pay_tip_height = (case m of None \<Rightarrow> pr_own_tip rd | Some v \<Rightarrow> mv_tip_height v)\<rparr>
              else None)))"

text \<open>
  What the inner loop waits for: a nudge for the address, a tip or a resync, all of which start a new
  round, or the end of the follower's channel.
\<close>

datatype nudge = ScriptNudge bytes | TipNudge | ResyncNudge | LaggedNudge | BusClosed | TipChanged | TipClosed

fun await_nudge :: "bytes option \<Rightarrow> bool \<Rightarrow> nudge list \<Rightarrow> (bool \<times> nudge list) res option" where
  "await_nudge target alive [] = None"
| "await_nudge target alive (n # ns) =
     (case n of
        TipClosed \<Rightarrow> Some (Inl (Internal ''wait_for_payment: follower channel closed''))
      | TipChanged \<Rightarrow> Some (Inr (alive, ns))
      | BusClosed \<Rightarrow> await_nudge target False ns
      | ScriptNudge s \<Rightarrow> if alive \<and> target = Some s then Some (Inr (alive, ns)) else await_nudge target alive ns
      | _ \<Rightarrow> if alive then Some (Inr (alive, ns)) else await_nudge target alive ns)"

datatype payment_reply = PaymentReceived payment_seen | PaymentTimedOut u64

fun wait_for_payment_inner ::
    "bytes option \<Rightarrow> string set \<Rightarrow> u64 \<Rightarrow> u64 \<Rightarrow> u64 \<Rightarrow> bool \<Rightarrow> pay_round list \<Rightarrow> nudge list \<Rightarrow> payment_reply res" where
  "wait_for_payment_inner target txids balance min_amount secs alive [] ns = Inr (PaymentTimedOut secs)"
| "wait_for_payment_inner target txids balance min_amount secs alive (rd # rounds) ns =
     (case detect_payment txids balance min_amount rd of
        Inl d \<Rightarrow> Inl d
      | Inr (Some seen) \<Rightarrow> Inr (PaymentReceived seen)
      | Inr None \<Rightarrow>
          (case await_nudge target alive ns of
             None \<Rightarrow> Inr (PaymentTimedOut secs)
           | Some (Inl d) \<Rightarrow> Inl d
           | Some (Inr (alive', ns')) \<Rightarrow>
               wait_for_payment_inner target txids balance min_amount secs alive' rounds ns'))"

definition wait_for_payment_max_timeout_secs :: u64 where "wait_for_payment_max_timeout_secs = 600"

definition wait_for_payment ::
    "chain \<Rightarrow> string \<Rightarrow> u64 \<Rightarrow> u64 \<Rightarrow> pay_round \<Rightarrow> pay_round list \<Rightarrow> nudge list \<Rightarrow> payment_reply res" where
  "wait_for_payment ch addr min_amount timeout_secs first rounds ns =
     bind_ok (ensure_64_hex addr) (\<lambda>_.
     bind_ok (payment_baseline first) (\<lambda>(txids, balance).
     wait_for_payment_inner (hex_decode ch addr) txids balance min_amount
       (min timeout_secs wait_for_payment_max_timeout_secs) True rounds ns))"

section \<open>Pages\<close>

text \<open>Following the cursors of a listing from its first page; the number bounds the pages.\<close>

fun walk_list :: "nat \<Rightarrow> codec \<Rightarrow> index \<Rightarrow> list_params \<Rightarrow> htlc_record list option" where
  "walk_list 0 cd ix p = None"
| "walk_list (Suc n) cd ix p =
     (case htlc_list no_faults cd None ix p of
        Inr (LocalPage rs None) \<Rightarrow> Some rs
      | Inr (LocalPage rs (Some c)) \<Rightarrow> map_option ((@) rs) (walk_list n cd ix (p\<lparr>lp_cursor := Some c\<rparr>))
      | _ \<Rightarrow> None)"

lemma cursor_roundtrip:
  assumes "\<forall>b. base64_decode cd (base64_encode cd b) = Some b" "length (cu_lock_tx_id c) = 32"
  shows "cursor_decode cd (cursor_encode cd c) = Inr c"
  using assms by (simp add: cursor_decode_def cursor_encode_def)

lemma cursor_at_key: "cursor_key (cursor_at r) = page_key r"
  by (simp add: cursor_key_def cursor_at_def page_key_def)

text \<open>The rows of the primary table, decoded: each stored record once.\<close>

definition decoded :: "codec \<Rightarrow> index \<Rightarrow> htlc_record list" where
  "decoded cd ix = map (\<lambda>(_, b). the (de_htlc cd b)) (tracked_htlcs ix)"

lemma decoded_rows:
  assumes "rows_decode cd (tracked_htlcs ix)"
  shows "map_ok (\<lambda>(_, blob). ok_or e (de_htlc cd blob)) (tracked_htlcs ix) = Inr (decoded cd ix)"
    "set (decoded cd ix) = stored cd ix" "map primary_of (decoded cd ix) = map fst (tracked_htlcs ix)"
proof -
  have row: "\<exists>r. de_htlc cd b = Some r \<and> k = primary_of r" if "(k, b) \<in> set (tracked_htlcs ix)" for k b
    using assms that by (fastforce simp: rows_decode_def)
  show "map_ok (\<lambda>(_, blob). ok_or e (de_htlc cd blob)) (tracked_htlcs ix) = Inr (decoded cd ix)"
    unfolding decoded_def by (rule map_ok_rows) (use row in force)
  show "set (decoded cd ix) = stored cd ix"
    unfolding decoded_def stored_def using row by force
  show "map primary_of (decoded cd ix) = map fst (tracked_htlcs ix)"
    unfolding decoded_def using row by force
qed

lemma decoded_distinct: "rows_decode cd (tracked_htlcs ix) \<Longrightarrow> distinct (map primary_of (decoded cd ix))"
  using ordered_distinct [of "tracked_htlcs ix"] by (simp add: decoded_rows rows_decode_def)

text \<open>The whole listing, of which the pages are parts.\<close>

definition listing :: "codec \<Rightarrow> index \<Rightarrow> htlc_filter \<Rightarrow> htlc_record list" where
  "listing cd ix f = sort_key page_key (filter (\<lambda>r. filter_matches r f) (decoded cd ix))"

lemma listing_sorted:
  assumes "rows_decode cd (tracked_htlcs ix)"
  shows "sorted_wrt (<) (map page_key (listing cd ix f))"
    "set (listing cd ix f) = {r \<in> stored cd ix. filter_matches r f}"
proof -
  show s: "set (listing cd ix f) = {r \<in> stored cd ix. filter_matches r f}"
    using decoded_rows(2) [OF assms] by (auto simp: listing_def)
  have "distinct (map primary_of (listing cd ix f))"
    using decoded_distinct [OF assms] by (simp add: listing_def distinct_map inj_on_def)
  moreover have "inj_on page_key (set (listing cd ix f))"
    by (intro inj_onI stored_unique [OF assms]) (auto simp: s page_key_def primary_of_def)
  ultimately have "distinct (map page_key (listing cd ix f))" by (simp add: distinct_map)
  moreover have "sorted (map page_key (listing cd ix f))" by (simp add: listing_def)
  ultimately show "sorted_wrt (<) (map page_key (listing cd ix f))" by (simp add: strict_sorted_iff)
qed

lemma list_htlcs_page:
  assumes "rows_decode cd (tracked_htlcs ix)"
  shows "list_htlcs no_faults cd f limit cur ix = Inr (page_of limit
    (filter (\<lambda>r. case cur of None \<Rightarrow> True | Some c \<Rightarrow> \<not> page_key r \<le> cursor_key c) (listing cd ix f)))"
  by (simp add: decoded_rows(1) [OF assms] list_htlcs_def listing_def filter_sort [symmetric] conj_commute)

text \<open>What is left after the first \<open>k\<close> entries is what comes after the \<open>k\<close>-th key.\<close>

lemma after_cursor:
  fixes g :: "'r \<Rightarrow> 'k::linorder"
  assumes "sorted_wrt (<) (map g xs)" "0 < k" "k \<le> length xs"
  shows "filter (\<lambda>r. \<not> g r \<le> g (xs ! (k - 1))) xs = drop k xs"
proof -
  have lt: "g (xs ! i) < g (xs ! j)" if "i < j" "j < length xs" for i j
    using sorted_wrt_nth_less [OF assms(1), of i j] that by simp
  have "filter (\<lambda>r. \<not> g r \<le> g (xs ! (k - 1))) (take k xs) = []"
  proof -
    have "g r \<le> g (xs ! (k - 1))" if r: "r \<in> set (take k xs)" for r
    proof -
      obtain i where "i < k" "r = xs ! i" using r assms(3) by (auto simp: in_set_conv_nth)
      moreover from this have "i = k - 1 \<or> i < k - 1" by linarith
      ultimately show ?thesis using lt [of i "k - 1"] assms(2,3) by (auto simp: less_imp_le)
    qed
    then show ?thesis by simp
  qed
  moreover have "filter (\<lambda>r. \<not> g r \<le> g (xs ! (k - 1))) (drop k xs) = drop k xs"
  proof -
    have "\<not> g r \<le> g (xs ! (k - 1))" if r: "r \<in> set (drop k xs)" for r
    proof -
      obtain i where "i < length (drop k xs)" "r = drop k xs ! i" using r by (metis in_set_conv_nth)
      then have "k + i < length xs" "r = xs ! (k + i)" using assms(3) by auto
      moreover have "k - 1 < k + i" using assms(2) by simp
      ultimately show ?thesis using lt [of "k - 1" "k + i"] by (simp add: not_le)
    qed
    then show ?thesis by simp
  qed
  ultimately show ?thesis
    using filter_append [of "\<lambda>r. \<not> g r \<le> g (xs ! (k - 1))" "take k xs" "drop k xs"] by simp
qed

lemma walk_from:
  assumes "rows_decode cd (tracked_htlcs ix)" "\<forall>b. base64_decode cd (base64_encode cd b) = Some b"
    "lp_address p = None" "0 < page_limit p"
    "lp_cursor p = (if k = 0 then None else Some (cursor_encode cd (cursor_at (listing cd ix (list_filter p) ! (k - 1)))))"
    "k \<le> length (listing cd ix (list_filter p))" "length (listing cd ix (list_filter p)) - k < n"
  shows "walk_list n cd ix p = Some (drop k (listing cd ix (list_filter p)))"
  using assms(3-7)
proof (induction n arbitrary: p k)
  case 0
  then show ?case by simp
next
  case (Suc n)
  define L where "L = listing cd ix (list_filter p)"
  define l where "l = page_limit p"
  have "set L \<subseteq> stored cd ix" using listing_sorted(2) [OF assms(1)] by (auto simp: L_def)
  then have shaped: "length (hr_lock_tx_id (L ! i)) = 32" if "i < length L" for i
    using stored_shaped [OF assms(1)] that nth_mem by (auto simp: shaped_def)
  define cur where "cur = (if k = 0 then None else Some (cursor_at (L ! (k - 1))))"
  have decode: "(case lp_cursor p of None \<Rightarrow> Inr None | Some s \<Rightarrow> bind_ok (cursor_decode cd s) (\<lambda>c. Inr (Some c))) = Inr cur"
    using Suc.prems(3,4) cursor_roundtrip [OF assms(2)] shaped [of "k - 1"]
    by (auto simp: cur_def L_def cursor_at_def)
  have rest: "filter (\<lambda>r. case cur of None \<Rightarrow> True | Some c \<Rightarrow> \<not> page_key r \<le> cursor_key c) L = drop k L"
    using after_cursor [OF listing_sorted(1) [OF assms(1)], of k "list_filter p"] Suc.prems(4)
    by (auto simp: cur_def cursor_at_key L_def)
  have page: "htlc_list no_faults cd None ix p = (case page_of l (drop k L) of
        None \<Rightarrow> Inl (Internal ''htlc_list: blocking task panicked'')
      | Some (rs, next) \<Rightarrow> Inr (LocalPage rs (map_option (cursor_encode cd) next)))"
    using Suc.prems(1) list_htlcs_page [OF assms(1), of "list_filter p" "page_limit p" cur] decode rest
    by (simp add: htlc_list_def L_def l_def)
  show ?case
  proof (cases "length L - k > l")
    case False
    then have "page_of l (drop k L) = Some (drop k L, None)" by (simp add: page_of_def)
    then show ?thesis using page by (simp add: L_def)
  next
    case True
    let ?p = "p\<lparr>lp_cursor := Some (cursor_encode cd (cursor_at (L ! (k + l - 1))))\<rparr>"
    have l: "0 < l" using Suc.prems(2) by (simp add: l_def)
    have same: "list_filter (p\<lparr>lp_cursor := c\<rparr>) = list_filter p" "page_limit (p\<lparr>lp_cursor := c\<rparr>) = page_limit p" for c
      by (simp_all add: list_filter_def page_limit_def states_of_def)
    have "page_of l (drop k L) = Some (take l (drop k L), Some (cursor_at (L ! (k + l - 1))))"
      using True l by (simp add: page_of_def)
    moreover have "walk_list n cd ix ?p = Some (drop (k + l) (listing cd ix (list_filter ?p)))"
    proof (rule Suc.IH)
      show "lp_address ?p = None" "0 < page_limit ?p" using Suc.prems(1,2) same by simp_all
      show "lp_cursor ?p = (if k + l = 0 then None
          else Some (cursor_encode cd (cursor_at (listing cd ix (list_filter ?p) ! (k + l - 1)))))"
        using l by (simp add: same L_def)
      show "k + l \<le> length (listing cd ix (list_filter ?p))" "length (listing cd ix (list_filter ?p)) - (k + l) < n"
        using True l Suc.prems(4,5) by (simp_all add: same L_def [symmetric])
    qed
    ultimately show ?thesis
      using page append_take_drop_id [of l "drop k L"]
      by (simp add: same L_def [symmetric] add.commute [of k l])
  qed
qed

section \<open>Properties\<close>

text \<open>C24: Paging through a listing shows every tracked record that matches, once, in order.  After any
  operations on the index, whatever database calls failed, a client that lists with a page size
  above zero and follows the cursors gets, within as many pages as the index has records plus one, the records that
  match the role, state and height filters, ordered by height, lock and output, none missing and
  none twice.  The encoding crates are assumed to round trip.\<close>

theorem pages_cover_index:
  assumes "roundtrips cd" "\<forall>b. base64_decode cd (base64_encode cd b) = Some b" "well_shaped ops"
    and "lp_address p = None" "lp_cursor p = None" "lp_limit p \<noteq> Some 0"
  shows "\<exists>rs. walk_list (length (tracked_htlcs (index_after cd ops)) + 1) cd (index_after cd ops) p = Some rs
    \<and> sorted_wrt (<) (map page_key rs)
    \<and> set rs = {r \<in> stored cd (index_after cd ops). filter_matches r (list_filter p)}"
proof -
  let ?ix = "index_after cd ops"
  have rows: "rows_decode cd (tracked_htlcs ?ix)"
    using index_after_ok [OF assms(1,3)] by (simp add: index_ok_def)
  have limit: "0 < page_limit p"
    using assms(6)
    by (auto simp: page_limit_def htlc_list_default_limit_def htlc_list_max_limit_def unat_gt_0 min_def split: option.split)
  have "length (listing cd ?ix (list_filter p)) \<le> length (tracked_htlcs ?ix)"
    using length_filter_le [of _ "decoded cd ?ix"] by (simp add: listing_def decoded_def)
  then have "walk_list (length (tracked_htlcs ?ix) + 1) cd ?ix p = Some (drop 0 (listing cd ?ix (list_filter p)))"
    by (intro walk_from [OF rows assms(2,4) limit]) (simp_all add: assms(5))
  then show ?thesis using listing_sorted [OF rows] by simp
qed

text \<open>C23: Looking up a hashlock finds exactly the locks under it.  After any operations on the index, the
  lookup answers with the tracked records whose hash is the one asked for, each once: the secondary
  table, ranges of which are read, has neither lost nor stale keys.\<close>

theorem lookup_finds_exactly:
  assumes "roundtrips cd" "well_shaped ops" "length h = 32"
  shows "\<exists>rs. lookup_by_hashlock no_faults cd h (index_after cd ops) = Inr rs \<and> distinct rs
    \<and> set rs = {r \<in> stored cd (index_after cd ops). hp_hash_lock (hr_params r) = h}"
  by (rule lookup_ok [OF index_after_ok [OF assms(1,2)] assms(3)])

text \<open>A codec that stores one lock, and a run with a failed and a successful write.\<close>

definition sample_htlc :: htlc_record where
  "sample_htlc = \<lparr>hr_lock_tx_id = replicate 32 1, hr_output_index = 0,
     hr_params = \<lparr>hp_sender = [2], hp_receiver = [3], hp_hash_lock = replicate 32 4, hp_timeout_height = 500\<rparr>,
     hr_amount = 9, hr_lock_height = Some 100, hr_state = Locked, hr_claim = None, hr_reclaim = None,
     hr_role = Sender, hr_last_indexed = 100\<rparr>"

definition sample_codec :: codec where
  "sample_codec = \<lparr>ser_htlc = (\<lambda>r. if r = sample_htlc then Some [7] else None), de_htlc = (\<lambda>b. Some sample_htlc),
     ser_meta = (\<lambda>_. None), de_meta = (\<lambda>_. None),
     base64_encode = map (\<lambda>w. char_of (unat w)), base64_decode = (\<lambda>s. Some (map (\<lambda>c. word_of_nat (of_char c)) s))\<rparr>"

definition sample_ops :: "(faults \<times> index_op) list" where
  "sample_ops = [((\<lambda>l. l = ''index: commit upsert''), Upsert sample_htlc []), (no_faults, Upsert sample_htlc [])]"

lemma sample_index:
  "roundtrips sample_codec" "\<forall>b. base64_decode sample_codec (base64_encode sample_codec b) = Some b"
  "well_shaped sample_ops" "stored sample_codec (index_after sample_codec sample_ops) = {sample_htlc}"
proof -
  have "word_of_nat (unat w mod 256) = w" for w :: u8
    using word_unat_less [of w] by simp
  then show "\<forall>b. base64_decode sample_codec (base64_encode sample_codec b) = Some b"
    by (simp add: sample_codec_def comp_def list.map_ident_strong)
  show "roundtrips sample_codec" by (auto simp: roundtrips_def sample_codec_def split: if_splits)
  show "well_shaped sample_ops" by (auto simp: well_shaped_def sample_ops_def shaped_def sample_htlc_def)
  show "stored sample_codec (index_after sample_codec sample_ops) = {sample_htlc}"
    by (auto simp: index_after_def sample_ops_def upsert_htlc_def commit_txn_def sample_codec_def read_row_def
          put_secondary_def on_table_def db_call_def empty_index_def stored_def)
qed

definition sample_request :: list_params where
  "sample_request = \<lparr>lp_role = Some Sender, lp_state = None, lp_since_height = Some 50, lp_limit = Some 1,
     lp_cursor = None, lp_address = None\<rparr>"

lemma pages_cover_index_witness:
  "\<exists>rs n. walk_list n sample_codec (index_after sample_codec sample_ops) sample_request = Some rs \<and> set rs = {sample_htlc}"
proof -
  have "{r \<in> {sample_htlc}. filter_matches r (list_filter sample_request)} = {sample_htlc}"
    by (auto simp: filter_matches_def list_filter_def states_of_def sample_request_def sample_htlc_def height_of_def)
  moreover have "lp_address sample_request = None" "lp_cursor sample_request = None" "lp_limit sample_request \<noteq> Some 0"
    by (simp_all add: sample_request_def)
  note pages_cover_index [OF sample_index(1-3) this]
  ultimately show ?thesis unfolding sample_index(4) by metis
qed

lemma lookup_finds_exactly_witness:
  "\<exists>rs. lookup_by_hashlock no_faults sample_codec (replicate 32 4) (index_after sample_codec sample_ops) = Inr rs
     \<and> set rs = {sample_htlc}"
proof -
  have "{r \<in> {sample_htlc}. hp_hash_lock (hr_params r) = replicate 32 4} = {sample_htlc}"
    by (auto simp: sample_htlc_def)
  then show ?thesis
    using lookup_finds_exactly [OF sample_index(1,3), of "replicate 32 4"] by (auto simp: sample_index(4))
qed

end
