(* ===== verification/Follower.thy ===== *)
theory Follower imports HtlcApi PaymentUri begin

text \<open>
  The block follower (\<open>src/follower.rs\<close>), which fills the HTLC index from the blocks of the chain: the
  cache of owned keys, one tick with its reorganisation check and its backfill window, the processing
  of a block, the sweep of expired locks and the wipe after a reorganisation.  The node's answers
  are given by the call site that asks, so that a node may answer differently each time.
\<close>

section \<open>What the crate and the node provide\<close>

text \<open>\<open>try_parse_htlc\<close> and \<open>Transaction::deserialize\<close> of the \<open>exfer\<close> crate.\<close>

record parser =
  parse_htlc :: "bytes \<Rightarrow> htlc_params option"
  parse_tx :: "bytes \<Rightarrow> transaction option"

record block_view =
  bv_block_id :: string
  bv_transactions :: "string list"

record tick_answers =
  ta_tip :: "(u64 \<times> string) res"
  ta_check :: "u64 \<Rightarrow> block_view res"
  ta_ancestor :: "u64 \<Rightarrow> block_view res"
  ta_anchor :: "u64 \<Rightarrow> block_view res"
  ta_block :: "u64 \<Rightarrow> block_view res"
  ta_tx_hex :: "u64 \<Rightarrow> string \<Rightarrow> string res"
  ta_clock :: u64

section \<open>Steps on the index\<close>

text \<open>The index with the number of operations so far, which chooses the calls that fail.\<close>

type_synonym 'a index_step = "(nat \<Rightarrow> faults) \<Rightarrow> nat \<times> index \<Rightarrow> (nat \<times> index) \<times> 'a res"

definition istep_ret :: "'a \<Rightarrow> 'a index_step" where
  "istep_ret x = (\<lambda>fs s. (s, Inr x))"

definition istep_raise :: "error \<Rightarrow> 'a index_step" where
  "istep_raise d = (\<lambda>fs s. (s, Inl d))"

definition istep_bind :: "'a index_step \<Rightarrow> ('a \<Rightarrow> 'b index_step) \<Rightarrow> 'b index_step" where
  "istep_bind m f = (\<lambda>fs s. case m fs s of (s1, Inl d) \<Rightarrow> (s1, Inl d) | (s1, Inr x) \<Rightarrow> f x fs s1)"

definition writing :: "(faults \<Rightarrow> index \<Rightarrow> index \<times> 'a res) \<Rightarrow> 'a index_step" where
  "writing f = (\<lambda>fs (n, ix). case f (fs n) ix of (ix1, r) \<Rightarrow> ((n + 1, ix1), r))"

definition reading :: "(faults \<Rightarrow> index \<Rightarrow> 'a res) \<Rightarrow> 'a index_step" where
  "reading f = (\<lambda>fs (n, ix). ((n + 1, ix), f (fs n) ix))"

fun istep_each :: "'a list \<Rightarrow> ('a \<Rightarrow> unit index_step) \<Rightarrow> unit index_step" where
  "istep_each [] f = istep_ret ()"
| "istep_each (x # xs) f = istep_bind (f x) (\<lambda>_. istep_each xs f)"

section \<open>Owned keys\<close>

record owned_set =
  by_pubkey :: "bytes \<rightharpoonup> bytes"
  known_addresses :: "string set"

definition no_owned :: owned_set where
  "no_owned = \<lparr>by_pubkey = Map.empty, known_addresses = {}\<rparr>"

text \<open>Each unseen address is unsealed once; an error ends the pass and keeps what it has learnt.\<close>

fun refresh_entries :: "chain \<Rightarrow> (string \<Rightarrow> signer res) \<Rightarrow> string list \<Rightarrow> owned_set \<Rightarrow> owned_set \<times> unit res" where
  "refresh_entries ch load [] own = (own, Inr ())"
| "refresh_entries ch load (a # as) own =
     (if a \<in> known_addresses own then refresh_entries ch load as own
      else case bind_ok (load a) (\<lambda>sg. bind_ok (decode_hash ch a) (\<lambda>b. Inr (sg, b))) of
        Inl d \<Rightarrow> (own, Inl d)
      | Inr (sg, b) \<Rightarrow>
          refresh_entries ch load as
            (own\<lparr>by_pubkey := (by_pubkey own)(signer_pubkey sg \<mapsto> b), known_addresses := insert a (known_addresses own)\<rparr>))"

definition refresh_owned :: "chain \<Rightarrow> string list res \<Rightarrow> (string \<Rightarrow> signer res) \<Rightarrow> owned_set \<Rightarrow> owned_set \<times> unit res" where
  "refresh_owned ch listed load own =
     (case listed of Inl d \<Rightarrow> (own, Inl d) | Inr as \<Rightarrow> refresh_entries ch load as own)"

definition owned_addr_for :: "owned_set \<Rightarrow> htlc_params \<Rightarrow> bytes" where
  "owned_addr_for own p =
     (case by_pubkey own (hp_sender p) of Some a \<Rightarrow> a
      | None \<Rightarrow> (case by_pubkey own (hp_receiver p) of Some a \<Rightarrow> a | None \<Rightarrow> replicate 32 0))"

section \<open>Processing a block\<close>

definition min_htlc_script_bytes :: nat where "min_htlc_script_bytes = 100"
definition value_tag_left :: u8 where "value_tag_left = 1"
definition value_tag_right :: u8 where "value_tag_right = 2"
definition value_tag_bytes :: u8 where "value_tag_bytes = 5"
definition value_tag_unit :: u8 where "value_tag_unit = 0"

text \<open>A little-endian \<open>u32\<close>.\<close>

definition u32_from_le :: "bytes \<Rightarrow> nat" where
  "u32_from_le b = be_val (rev b)"

definition extract_claim_preimage :: "bytes \<Rightarrow> bytes option" where
  "extract_claim_preimage w =
     (if length w < 7 then None
      else if w ! 0 \<noteq> value_tag_left \<or> w ! 1 \<noteq> value_tag_unit \<or> w ! 2 \<noteq> value_tag_bytes then None
      else let len = u32_from_le (take 4 (drop 3 w)) in
        if length w < 7 + len then None else Some (take len (drop 7 w)))"

text \<open>The role we play in a lock and the address it is filed under; \<open>None\<close> when we play none.\<close>

definition our_role :: "owned_set \<Rightarrow> htlc_params \<Rightarrow> (htlc_role \<times> bytes) option" where
  "our_role own p =
     (case (by_pubkey own (hp_sender p), by_pubkey own (hp_receiver p)) of
        (Some a, Some _) \<Rightarrow> Some (Both, a)
      | (Some a, None) \<Rightarrow> Some (Sender, a)
      | (None, Some b) \<Rightarrow> Some (Receiver, b)
      | (None, None) \<Rightarrow> None)"

definition output_record ::
    "parser \<Rightarrow> owned_set \<Rightarrow> bytes \<Rightarrow> u64 \<Rightarrow> nat \<Rightarrow> tx_output \<Rightarrow> (htlc_record \<times> bytes) option" where
  "output_record ps own tx_id height vout out =
     (if length (script out) < min_htlc_script_bytes then None
      else case parse_htlc ps (script out) of None \<Rightarrow> None | Some p \<Rightarrow>
      case our_role own p of None \<Rightarrow> None | Some (role, addr) \<Rightarrow>
      Some (\<lparr>hr_lock_tx_id = tx_id, hr_output_index = word_of_nat vout, hr_params = p, hr_amount = out_value out,
             hr_lock_height = Some height,
             hr_state = (if height > hp_timeout_height p then LockedExpired else Locked),
             hr_claim = None, hr_reclaim = None, hr_role = role, hr_last_indexed = height\<rparr>, addr))"

definition visit_output ::
    "codec \<Rightarrow> parser \<Rightarrow> owned_set \<Rightarrow> bytes \<Rightarrow> u64 \<Rightarrow> nat \<times> tx_output \<Rightarrow> unit index_step" where
  "visit_output cd ps own tx_id height = (\<lambda>(vout, out).
     case output_record ps own tx_id height vout out of
       None \<Rightarrow> istep_ret ()
     | Some (r, addr) \<Rightarrow> writing (\<lambda>fails. upsert_htlc fails cd r addr))"

definition process_outputs ::
    "codec \<Rightarrow> parser \<Rightarrow> owned_set \<Rightarrow> transaction \<Rightarrow> bytes \<Rightarrow> u64 \<Rightarrow> unit index_step" where
  "process_outputs cd ps own tx tx_id height =
     istep_each (zip [0..<length (outputs tx)] (outputs tx)) (visit_output cd ps own tx_id height)"

text \<open>What a spending input makes of a record that is not settled yet; \<open>None\<close> leaves it.\<close>

definition spent_record :: "transaction \<Rightarrow> bytes \<Rightarrow> u64 \<Rightarrow> nat \<Rightarrow> htlc_record \<Rightarrow> htlc_record option" where
  "spent_record tx tx_id height vin r =
     (if settled_state (hr_state r) \<or> \<not> vin < length (witnesses tx) then None
      else let w = witness (witnesses tx ! vin) in
      if w = [] then None
      else if w ! 0 = value_tag_left then
        map_option (\<lambda>pre. r\<lparr>hr_state := Claimed,
            hr_claim := Some \<lparr>cr_tx_id = tx_id, cr_preimage = pre, cr_block_height = height, cr_input_index = word_of_nat vin\<rparr>,
            hr_last_indexed := height\<rparr>) (extract_claim_preimage w)
      else if w ! 0 = value_tag_right then
        Some (r\<lparr>hr_state := Reclaimed,
            hr_reclaim := Some \<lparr>rr_tx_id = tx_id, rr_block_height = height, rr_input_index = word_of_nat vin\<rparr>,
            hr_last_indexed := height\<rparr>)
      else None)"

definition visit_input ::
    "codec \<Rightarrow> owned_set \<Rightarrow> transaction \<Rightarrow> bytes \<Rightarrow> u64 \<Rightarrow> nat \<times> tx_input \<Rightarrow> unit index_step" where
  "visit_input cd own tx tx_id height = (\<lambda>(vin, inp).
     istep_bind (reading (\<lambda>fails. get_htlc fails cd (prev_tx_id inp) (prev_index inp))) (\<lambda>existing.
     case Option.bind existing (spent_record tx tx_id height vin) of
       None \<Rightarrow> istep_ret ()
     | Some r \<Rightarrow> writing (\<lambda>fails. upsert_htlc fails cd r (owned_addr_for own (hr_params r)))))"

definition process_inputs :: "codec \<Rightarrow> owned_set \<Rightarrow> transaction \<Rightarrow> bytes \<Rightarrow> u64 \<Rightarrow> unit index_step" where
  "process_inputs cd own tx tx_id height =
     istep_each (zip [0..<length (inputs tx)] (inputs tx)) (visit_input cd own tx tx_id height)"

record fetched_block =
  fb_height :: u64
  fb_block_id :: bytes
  fb_txs :: "(bytes \<times> transaction) list"

text \<open>Outputs before inputs, transactions in block order.\<close>

definition process_fetched :: "codec \<Rightarrow> parser \<Rightarrow> owned_set \<Rightarrow> fetched_block \<Rightarrow> unit index_step" where
  "process_fetched cd ps own fb =
     istep_each (fb_txs fb) (\<lambda>(tx_id, tx).
       istep_bind (process_outputs cd ps own tx tx_id (fb_height fb)) (\<lambda>_.
       process_inputs cd own tx tx_id (fb_height fb)))"

definition fetch_full_block :: "chain \<Rightarrow> parser \<Rightarrow> tick_answers \<Rightarrow> u64 \<Rightarrow> fetched_block res" where
  "fetch_full_block ch ps ta height =
     bind_ok (ta_block ta height) (\<lambda>b.
     bind_ok (decode_hash ch (bv_block_id b)) (\<lambda>block_id.
     bind_ok (map_ok (\<lambda>tx_id_hex.
       bind_ok (ta_tx_hex ta height tx_id_hex) (\<lambda>tx_hex.
       bind_ok (ok_or (BadHex '''') (hex_decode ch tx_hex)) (\<lambda>tx_bytes.
       bind_ok (ok_or (Internal ''follower: decode tx'') (parse_tx ps tx_bytes)) (\<lambda>tx.
       bind_ok (decode_hash ch tx_id_hex) (\<lambda>tx_id. Inr (tx_id, tx)))))) (bv_transactions b)) (\<lambda>txs.
     Inr \<lparr>fb_height = height, fb_block_id = block_id, fb_txs = txs\<rparr>)))"

section \<open>Sweeps\<close>

definition sweep_expired :: "codec \<Rightarrow> u64 \<Rightarrow> unit index_step" where
  "sweep_expired cd height =
     istep_bind (reading (\<lambda>fails. list_htlcs fails cd
       \<lparr>want_role = None, want_states = [Locked], want_owned = None, since_height = None\<rparr> 1024 None)) (\<lambda>page.
     istep_each (case page of None \<Rightarrow> [] | Some (rs, _) \<Rightarrow> rs) (\<lambda>r.
       if height > hp_timeout_height (hr_params r) then
         writing (\<lambda>fails. upsert_htlc fails cd (r\<lparr>hr_state := LockedExpired, hr_last_indexed := height\<rparr>) (replicate 32 0))
       else istep_ret ()))"

definition wipe_above :: "codec \<Rightarrow> u64 \<Rightarrow> unit index_step" where
  "wipe_above cd keep_below =
     istep_bind (reading (\<lambda>fails. list_htlcs fails cd
       \<lparr>want_role = None, want_states = [], want_owned = None, since_height = None\<rparr> 10000 None)) (\<lambda>page.
     istep_each (case page of None \<Rightarrow> [] | Some (rs, _) \<Rightarrow> rs) (\<lambda>r.
       if height_of r > keep_below then
         istep_bind (writing (\<lambda>fails. forget_htlc fails cd (hr_lock_tx_id r) (hr_output_index r) (replicate 32 0)))
           (\<lambda>_. istep_ret ())
       else istep_ret ()))"

section \<open>A tick\<close>

definition default_backfill_lookback :: u64 where "default_backfill_lookback = 2000"

text \<open>The environment variable; \<open>None\<close> scans from genesis.\<close>

definition backfill_lookback_from_env :: "string option \<Rightarrow> u64 option" where
  "backfill_lookback_from_env var =
     (case var of
        None \<Rightarrow> Some default_backfill_lookback
      | Some raw \<Rightarrow>
          let v = trim raw in
          if eq_ignore_case v ''full'' \<or> eq_ignore_case v ''genesis'' \<or> v = ''0'' then None
          else case parse_u64_string v of Some n \<Rightarrow> Some n | None \<Rightarrow> Some default_backfill_lookback)"

definition save_meta :: "codec \<Rightarrow> follower_meta \<Rightarrow> unit index_step" where
  "save_meta cd m = writing (\<lambda>fails. save_follower_meta fails cd m)"

text \<open>One block back, whatever the node says is there.\<close>

definition find_common_ancestor :: "chain \<Rightarrow> tick_answers \<Rightarrow> u64 \<Rightarrow> (u64 \<times> bytes) res" where
  "find_common_ancestor ch ta from_height =
     (let h = (if from_height = 0 then 0 else from_height - 1) in
      bind_ok (ta_ancestor ta h) (\<lambda>b. bind_ok (decode_hash ch (bv_block_id b)) (\<lambda>i. Inr (h, i))))"

text \<open>A result in a step.\<close>

definition istep_of :: "'a res \<Rightarrow> 'a index_step" where
  "istep_of r = (\<lambda>fs s. (s, r))"

definition check_reorg :: "chain \<Rightarrow> codec \<Rightarrow> tick_answers \<Rightarrow> follower_meta \<Rightarrow> follower_meta index_step" where
  "check_reorg ch cd ta m =
     (if last_indexed_height m = 0 then istep_ret m
      else
      istep_bind (istep_of (bind_ok (ta_check ta (last_indexed_height m)) (\<lambda>b. decode_hash ch (bv_block_id b)))) (\<lambda>on_chain_id.
      if on_chain_id = last_indexed_block_id m then istep_ret m
      else
      istep_bind (istep_of (find_common_ancestor ch ta (last_indexed_height m))) (\<lambda>(h, i).
      istep_bind (wipe_above cd h) (\<lambda>_.
      let m1 = m\<lparr>last_indexed_height := h, last_indexed_block_id := i, full_scan_complete := False\<rparr> in
      istep_bind (save_meta cd m1) (\<lambda>_. istep_ret m1)))))"

definition fast_forward :: "chain \<Rightarrow> codec \<Rightarrow> tick_answers \<Rightarrow> u64 option \<Rightarrow> u64 \<Rightarrow> follower_meta \<Rightarrow> follower_meta index_step" where
  "fast_forward ch cd ta lookback tip m =
     (case lookback of None \<Rightarrow> istep_ret m | Some n \<Rightarrow>
      if \<not> full_scan_complete m \<and> saturating_sub tip (last_indexed_height m) > n \<and> tip - n \<ge> 1 then
        istep_bind (istep_of (ta_anchor ta (tip - n - 1))) (\<lambda>anchor.
        istep_bind (istep_of (decode_hash ch (bv_block_id anchor))) (\<lambda>i.
        let m1 = m\<lparr>last_indexed_height := tip - n - 1, last_indexed_block_id := i\<rparr> in
        istep_bind (save_meta cd m1) (\<lambda>_. istep_ret m1)))
      else istep_ret m)"

text \<open>The walk: each block is fetched, indexed and checkpointed before the next.\<close>

fun walk_blocks ::
    "chain \<Rightarrow> codec \<Rightarrow> parser \<Rightarrow> owned_set \<Rightarrow> tick_answers \<Rightarrow> u64 list \<Rightarrow> follower_meta \<Rightarrow> follower_meta index_step" where
  "walk_blocks ch cd ps own ta [] m = istep_ret m"
| "walk_blocks ch cd ps own ta (h # hs) m =
     istep_bind (istep_of (fetch_full_block ch ps ta h)) (\<lambda>fb.
     istep_bind (process_fetched cd ps own fb) (\<lambda>_.
     let m1 = m\<lparr>last_indexed_height := fb_height fb, last_indexed_block_id := fb_block_id fb\<rparr> in
     istep_bind (save_meta cd m1) (\<lambda>_. walk_blocks ch cd ps own ta hs m1)))"

definition heights :: "u64 \<Rightarrow> u64 \<Rightarrow> u64 list" where
  "heights start tip = map word_of_nat [unat start..<Suc (unat tip)]"

definition tick ::
    "chain \<Rightarrow> codec \<Rightarrow> parser \<Rightarrow> owned_set \<Rightarrow> u64 option \<Rightarrow> tick_answers \<Rightarrow> unit index_step" where
  "tick ch cd ps own lookback ta =
     istep_bind (istep_of (ta_tip ta)) (\<lambda>(tip, _).
     istep_bind (reading (\<lambda>fails. get_follower_meta fails cd)) (\<lambda>m0.
     let m = (if started_at m0 = 0 then m0\<lparr>started_at := ta_clock ta\<rparr> else m0) in
     istep_bind (check_reorg ch cd ta m) (\<lambda>m.
     istep_bind (fast_forward ch cd ta lookback tip m) (\<lambda>m.
     let start = (if last_indexed_block_id m = replicate 32 0 \<and> last_indexed_height m = 0 then 0
                  else last_indexed_height m + 1) in
     if start > tip then
       (if full_scan_complete m then istep_ret () else save_meta cd (m\<lparr>full_scan_complete := True\<rparr>))
     else
     istep_bind (walk_blocks ch cd ps own ta (heights start tip) m) (\<lambda>m.
     istep_bind (sweep_expired cd (last_indexed_height m)) (\<lambda>_.
     save_meta cd (if last_indexed_height m \<ge> tip then m\<lparr>full_scan_complete := True\<rparr> else m)))))))"

definition tick_tip_only :: "chain \<Rightarrow> codec \<Rightarrow> tick_answers \<Rightarrow> unit index_step" where
  "tick_tip_only ch cd ta =
     istep_bind (istep_of (ta_tip ta)) (\<lambda>(tip, block_id).
     istep_bind (reading (\<lambda>fails. get_follower_meta fails cd)) (\<lambda>m0.
     let m = (if started_at m0 = 0 then m0\<lparr>started_at := ta_clock ta\<rparr> else m0) in
     if last_indexed_height m \<noteq> tip \<or> \<not> full_scan_complete m then
       istep_bind (istep_of (decode_hash ch block_id)) (\<lambda>i.
       save_meta cd (m\<lparr>last_indexed_height := tip, last_indexed_block_id := i, full_scan_complete := True\<rparr>))
     else istep_ret ()))"

section \<open>What a block does to the records\<close>

text \<open>The index as a map from primary keys to records.\<close>

definition row_at :: "codec \<Rightarrow> index \<Rightarrow> bytes \<Rightarrow> htlc_record option" where
  "row_at cd ix k = Option.bind (map_of (tracked_htlcs ix) k) (de_htlc cd)"

text \<open>One visit changes the record under one key.\<close>

type_synonym visit = "bytes \<times> (htlc_record option \<Rightarrow> htlc_record option)"

definition visit_map :: "visit \<Rightarrow> (bytes \<Rightarrow> htlc_record option) \<Rightarrow> bytes \<Rightarrow> htlc_record option" where
  "visit_map v m = m(fst v := snd v (m (fst v)))"

definition output_visit :: "parser \<Rightarrow> owned_set \<Rightarrow> bytes \<Rightarrow> u64 \<Rightarrow> nat \<times> tx_output \<Rightarrow> visit list" where
  "output_visit ps own tx_id height = (\<lambda>(vout, out).
     case output_record ps own tx_id height vout out of None \<Rightarrow> [] | Some (r, _) \<Rightarrow> [(primary_of r, \<lambda>_. Some r)])"

definition settle :: "transaction \<Rightarrow> bytes \<Rightarrow> u64 \<Rightarrow> nat \<Rightarrow> htlc_record option \<Rightarrow> htlc_record option" where
  "settle tx tx_id height vin x =
     (case Option.bind x (spent_record tx tx_id height vin) of None \<Rightarrow> x | Some r \<Rightarrow> Some r)"

definition input_visit :: "transaction \<Rightarrow> bytes \<Rightarrow> u64 \<Rightarrow> nat \<times> tx_input \<Rightarrow> visit list" where
  "input_visit tx tx_id height = (\<lambda>(vin, inp).
     [(htlc_primary_key (prev_tx_id inp) (prev_index inp), settle tx tx_id height vin)])"

definition block_visits :: "parser \<Rightarrow> owned_set \<Rightarrow> fetched_block \<Rightarrow> visit list" where
  "block_visits ps own fb = concat (map (\<lambda>(tx_id, tx).
     concat (map (output_visit ps own tx_id (fb_height fb)) (zip [0..<length (outputs tx)] (outputs tx)))
     @ concat (map (input_visit tx tx_id (fb_height fb)) (zip [0..<length (inputs tx)] (inputs tx)))) (fb_txs fb))"

text \<open>A step that performs visits: all of them when it succeeds, the first few when it fails.\<close>

definition performs :: "codec \<Rightarrow> visit list \<Rightarrow> unit index_step \<Rightarrow> bool" where
  "performs cd vs m \<longleftrightarrow> (\<forall>fs n ix n' ix' r. index_ok cd ix \<longrightarrow> m fs (n, ix) = ((n', ix'), r) \<longrightarrow>
     index_ok cd ix' \<and> (\<exists>j \<le> length vs. row_at cd ix' = fold visit_map (take j vs) (row_at cd ix)
       \<and> (\<forall>u. r = Inr u \<longrightarrow> j = length vs)))"

lemma performs_ret: "performs cd [] (istep_ret ())"
  by (auto simp: performs_def istep_ret_def)

lemma performs_bind:
  assumes "performs cd vs m" "performs cd ws m2"
  shows "performs cd (vs @ ws) (istep_bind m (\<lambda>_. m2))"
  unfolding performs_def
proof (intro allI impI)
  fix fs n ix n' ix' r
  assume ix: "index_ok cd ix" and run: "istep_bind m (\<lambda>_. m2) fs (n, ix) = ((n', ix'), r)"
  obtain n1 ix1 r1 where m: "m fs (n, ix) = ((n1, ix1), r1)" by (metis surj_pair)
  obtain j where j: "index_ok cd ix1" "j \<le> length vs" "row_at cd ix1 = fold visit_map (take j vs) (row_at cd ix)"
    "\<forall>u. r1 = Inr u \<longrightarrow> j = length vs"
    using assms(1) ix m unfolding performs_def by blast
  show "index_ok cd ix' \<and> (\<exists>j \<le> length (vs @ ws). row_at cd ix' = fold visit_map (take j (vs @ ws)) (row_at cd ix)
      \<and> (\<forall>u. r = Inr u \<longrightarrow> j = length (vs @ ws)))"
  proof (cases r1)
    case (Inl d)
    then have "ix' = ix1" "r = Inl d" using run m by (simp_all add: istep_bind_def)
    then show ?thesis using j by (intro conjI exI [of _ j]) auto
  next
    case (Inr u)
    then have "m2 fs (n1, ix1) = ((n', ix'), r)" using run m by (simp add: istep_bind_def)
    then obtain i where i: "index_ok cd ix'" "i \<le> length ws" "row_at cd ix' = fold visit_map (take i ws) (row_at cd ix1)"
      "\<forall>u. r = Inr u \<longrightarrow> i = length ws"
      using assms(2) j(1) unfolding performs_def by blast
    then show ?thesis using j Inr by (intro conjI exI [of _ "length vs + i"]) auto
  qed
qed

lemma performs_each:
  assumes "\<And>x. x \<in> set xs \<Longrightarrow> performs cd (g x) (f x)"
  shows "performs cd (concat (map g xs)) (istep_each xs f)"
  using assms
proof (induction xs)
  case Nil
  then show ?case by (simp add: performs_ret)
next
  case (Cons x xs)
  then show ?case by (simp add: performs_bind)
qed

text \<open>Reading and writing through the map.\<close>

lemma row_at_stored:
  assumes "index_ok cd ix" "row_at cd ix k = Some r"
  shows "r \<in> stored cd ix \<and> primary_of r = k \<and> shaped r"
proof -
  have rows: "rows_decode cd (tracked_htlcs ix)" using assms(1) by (simp add: index_ok_def)
  obtain b where "map_of (tracked_htlcs ix) k = Some b" "de_htlc cd b = Some r"
    using assms(2) by (auto simp: row_at_def bind_eq_Some_conv)
  with row_stored [OF rows this(1)] show ?thesis by auto
qed

lemma get_htlc_row:
  assumes "index_ok cd ix" "get_htlc fails cd lock_tx i ix = Inr x"
  shows "x = row_at cd ix (htlc_primary_key lock_tx i)"
  using assms(2)
  by (cases "map_of (tracked_htlcs ix) (htlc_primary_key lock_tx i)")
     (auto simp: get_htlc_def read_row_def result_simps row_at_def)

lemma row_at_upsert:
  assumes "roundtrips cd" "upsert_htlc fails cd r owner ix = (ix', Inr u)"
  shows "row_at cd ix' = (row_at cd ix)(primary_of r := Some r)"
proof -
  obtain b prior where b: "ser_htlc cd r = Some b"
    and ix': "ix' = with_secondary r owner
       ((case prior of None \<Rightarrow> ix | Some prev \<Rightarrow> without_secondary prev owner ix)
          \<lparr>tracked_htlcs := map_insert (primary_of r) b (tracked_htlcs ix)\<rparr>)"
    by (rule upsert_done [OF assms(2)])
  have "tracked_htlcs ix' = map_insert (primary_of r) b (tracked_htlcs ix)"
    by (simp add: ix' with_secondary_def)
  moreover have "de_htlc cd b = Some r" using assms(1) b by (simp add: roundtrips_def)
  ultimately show ?thesis by (auto simp: row_at_def fun_eq_iff)
qed

text \<open>A step on one key either fails before it writes or writes.\<close>

definition one_step :: "codec \<Rightarrow> bytes \<Rightarrow> (htlc_record option \<Rightarrow> htlc_record option) \<Rightarrow> index \<Rightarrow> index \<Rightarrow> unit res \<Rightarrow> bool" where
  "one_step cd k f ix ix' x \<longleftrightarrow> index_ok cd ix' \<and>
     ((\<exists>d. x = Inl d) \<and> row_at cd ix' = row_at cd ix \<or> row_at cd ix' = (row_at cd ix)(k := f (row_at cd ix k)))"

lemma performs_one:
  assumes "\<And>fs n ix n' ix' x. index_ok cd ix \<Longrightarrow> m fs (n, ix) = ((n', ix'), x) \<Longrightarrow> one_step cd k f ix ix' x"
  shows "performs cd [(k, f)] m"
  unfolding performs_def
proof (intro allI impI)
  fix fs n ix n' ix' and x :: "unit res"
  assume "index_ok cd ix" "m fs (n, ix) = ((n', ix'), x)"
  then have step: "one_step cd k f ix ix' x" by (rule assms)
  then have ok: "index_ok cd ix'" by (simp add: one_step_def)
  show "index_ok cd ix' \<and> (\<exists>j \<le> length [(k, f)]. row_at cd ix' = fold visit_map (take j [(k, f)]) (row_at cd ix)
      \<and> (\<forall>u. x = Inr u \<longrightarrow> j = length [(k, f)]))"
  proof (cases "row_at cd ix' = (row_at cd ix)(k := f (row_at cd ix k))")
    case True
    then show ?thesis using ok by (intro conjI exI [of _ 1]) (simp_all add: visit_map_def)
  next
    case False
    then obtain d where "x = Inl d" "row_at cd ix' = row_at cd ix" using step by (auto simp: one_step_def)
    then show ?thesis using ok by (intro conjI exI [of _ 0]) simp_all
  qed
qed

lemma upsert_step:
  assumes "roundtrips cd" "shaped r" "index_ok cd ix"
    "writing (\<lambda>fails. upsert_htlc fails cd r owner) fs (n, ix) = ((n', ix'), x)"
  shows "one_step cd (primary_of r) (\<lambda>_. Some r) ix ix' x"
proof -
  have run: "upsert_htlc (fs n) cd r owner ix = (ix', x)" using assms(4) by (simp add: writing_def split: prod.splits)
  show ?thesis
  proof (cases x)
    case (Inl d)
    then have "ix' = ix" using failed_write_keeps_index(1) run by metis
    then show ?thesis using Inl assms(3) by (simp add: one_step_def)
  next
    case (Inr u)
    have "index_ok cd ix'"
      using upsert_keeps_index [OF assms(3,2) _ run [unfolded Inr]] assms(1) by (simp add: roundtrips_def)
    then show ?thesis using row_at_upsert [OF assms(1) run [unfolded Inr]] by (simp add: one_step_def)
  qed
qed

lemma performs_upsert:
  assumes "roundtrips cd" "shaped r"
  shows "performs cd [(primary_of r, \<lambda>_. Some r)] (writing (\<lambda>fails. upsert_htlc fails cd r owner))"
  by (rule performs_one) (rule upsert_step [OF assms])

lemma spent_record_id: "spent_record tx tx_id height vin r = Some q \<Longrightarrow> primary_of q = primary_of r \<and> hr_params q = hr_params r
    \<and> (shaped r \<longrightarrow> shaped q)"
  by (auto simp: spent_record_def Let_def primary_of_def shaped_def split: if_splits)

lemma input_step:
  assumes "roundtrips cd" "index_ok cd ix"
    "visit_input cd own tx tx_id height (vin, inp) fs (n, ix) = ((n', ix'), x)"
  shows "one_step cd (htlc_primary_key (prev_tx_id inp) (prev_index inp)) (settle tx tx_id height vin) ix ix' x"
proof (cases "get_htlc (fs n) cd (prev_tx_id inp) (prev_index inp) ix")
  case (Inl d)
  then have "ix' = ix" "x = Inl d" using assms(3) by (simp_all add: visit_input_def istep_bind_def reading_def)
  then show ?thesis using assms(2) by (simp add: one_step_def)
next
  case (Inr e)
  let ?k = "htlc_primary_key (prev_tx_id inp) (prev_index inp)"
  note row = get_htlc_row [OF assms(2) Inr]
  show ?thesis
  proof (cases "Option.bind e (spent_record tx tx_id height vin)")
    case None
    then have "ix' = ix" using assms(3) Inr by (simp add: visit_input_def istep_bind_def reading_def istep_ret_def)
    moreover have "settle tx tx_id height vin (row_at cd ix ?k) = row_at cd ix ?k" using None row by (simp add: settle_def)
    ultimately show ?thesis using assms(2) by (simp add: one_step_def)
  next
    case (Some q)
    then obtain r where r: "row_at cd ix ?k = Some r" "spent_record tx tx_id height vin r = Some q"
      using row by (auto simp: bind_eq_Some_conv)
    have q: "primary_of q = ?k" "shaped q"
      using row_at_stored [OF assms(2) r(1)] spent_record_id [OF r(2)] by auto
    have "writing (\<lambda>fails. upsert_htlc fails cd q (owned_addr_for own (hr_params q))) fs (n + 1, ix) = ((n', ix'), x)"
      using assms(3) Inr Some by (simp add: visit_input_def istep_bind_def reading_def)
    from upsert_step [OF assms(1) q(2) assms(2) this]
    show ?thesis using q(1) r by (simp add: one_step_def settle_def)
  qed
qed

lemma performs_input:
  assumes "roundtrips cd"
  shows "performs cd (input_visit tx tx_id height v) (visit_input cd own tx tx_id height v)"
  by (cases v) (simp add: input_visit_def performs_one input_step [OF assms])

text \<open>The crate's hashes are 32 bytes long.\<close>

definition parser_shaped :: "parser \<Rightarrow> bool" where
  "parser_shaped ps \<longleftrightarrow> (\<forall>b p. parse_htlc ps b = Some p \<longrightarrow> length (hp_hash_lock p) = 32)"

lemma performs_output:
  assumes "roundtrips cd" "parser_shaped ps" "length tx_id = 32"
  shows "performs cd (output_visit ps own tx_id height v) (visit_output cd ps own tx_id height v)"
proof -
  obtain vout out where v: "v = (vout, out)" by (cases v)
  show ?thesis
  proof (cases "output_record ps own tx_id height vout out")
    case None
    then show ?thesis by (simp add: v visit_output_def output_visit_def performs_ret)
  next
    case (Some x)
    obtain r addr where x: "x = (r, addr)" by (cases x)
    have "shaped r"
      using Some x assms(2,3)
      by (auto simp: output_record_def shaped_def parser_shaped_def split: if_splits option.splits)
    then show ?thesis
      using performs_upsert [OF assms(1), of r addr] Some x by (simp add: v visit_output_def output_visit_def)
  qed
qed

lemma performs_block:
  assumes "roundtrips cd" "parser_shaped ps" "\<forall>(i, tx) \<in> set (fb_txs fb). length i = 32"
  shows "performs cd (block_visits ps own fb) (process_fetched cd ps own fb)"
  unfolding block_visits_def process_fetched_def process_outputs_def process_inputs_def
  by (intro performs_each)
     (use assms in \<open>auto split: prod.split intro!: performs_bind performs_each performs_output performs_input\<close>)

section \<open>Replaying a block\<close>

text \<open>A visit either sets its record or settles an unsettled one.\<close>

definition settling :: "(htlc_record option \<Rightarrow> htlc_record option) \<Rightarrow> bool" where
  "settling f \<longleftrightarrow> f None = None \<and> (\<forall>r. settled_state (hr_state r) \<longrightarrow> f (Some r) = Some r)
     \<and> (\<forall>r. f (Some r) = Some r \<or> (\<exists>q. f (Some r) = Some q \<and> settled_state (hr_state q)))"

definition constant_visit :: "(htlc_record option \<Rightarrow> htlc_record option) \<Rightarrow> bool" where
  "constant_visit f \<longleftrightarrow> (\<forall>x y. f x = f y)"

lemma settle_settling: "settling (settle tx tx_id height vin)"
  by (auto simp: settling_def settle_def spent_record_def Let_def settled_state_def split: option.split)

lemma block_visit_kinds: "v \<in> set (block_visits ps own fb) \<Longrightarrow> constant_visit (snd v) \<or> settling (snd v)"
  by (auto simp: block_visits_def output_visit_def input_visit_def constant_visit_def settle_settling split: option.splits)

lemma fold_at_key:
  "fold visit_map vs m k = fold snd (filter (\<lambda>v. fst v = k) vs) (m k)"
  by (induction vs arbitrary: m) (auto simp: visit_map_def)

lemma fold_constant: "\<exists>f \<in> set fs. constant_visit f \<Longrightarrow> fold (\<lambda>f. f) fs x = fold (\<lambda>f. f) fs y"
proof (induction fs arbitrary: x y)
  case (Cons f fs)
  show ?case
  proof (cases "constant_visit f")
    case True
    then show ?thesis by (simp add: constant_visit_def) metis
  next
    case False
    then show ?thesis using Cons by auto
  qed
qed simp

lemma fold_settled: "\<forall>f \<in> set fs. settling f \<Longrightarrow> settled_state (hr_state r) \<Longrightarrow> fold (\<lambda>f. f) fs (Some r) = Some r"
  by (induction fs) (auto simp: settling_def)

lemma fold_settling:
  "\<forall>f \<in> set fs. settling f \<Longrightarrow> fold (\<lambda>f. f) fs x = x \<or> (\<exists>r. fold (\<lambda>f. f) fs x = Some r \<and> settled_state (hr_state r))"
proof (induction fs arbitrary: x)
  case (Cons f fs)
  have f: "settling f" and fs: "\<forall>f \<in> set fs. settling f" using Cons.prems by simp_all
  show ?case
  proof (cases "f x = x")
    case True
    then show ?thesis using Cons.IH [OF fs, of x] by simp
  next
    case False
    then obtain r where "f x = Some r" "settled_state (hr_state r)"
      using f by (cases x) (auto simp: settling_def)
    then show ?thesis using fold_settled [OF fs] by simp
  qed
qed simp

lemma replay_at_key:
  assumes "\<forall>f \<in> set (fs @ gs). constant_visit f \<or> settling f"
  shows "fold (\<lambda>f. f) (fs @ gs) (fold (\<lambda>f. f) fs x) = fold (\<lambda>f. f) (fs @ gs) x"
proof (cases "\<exists>f \<in> set (fs @ gs). constant_visit f")
  case True
  then show ?thesis by (rule fold_constant)
next
  case False
  then have s: "\<forall>f \<in> set fs. settling f" "\<forall>f \<in> set gs. settling f" "\<forall>f \<in> set (fs @ gs). settling f"
    using assms by auto
  show ?thesis
  proof (cases "fold (\<lambda>f. f) fs x = x")
    case False
    then obtain r where "fold (\<lambda>f. f) fs x = Some r" "settled_state (hr_state r)"
      using fold_settling [OF s(1)] by blast
    then show ?thesis using fold_settled [OF s(3)] fold_settled [OF s(2)] by simp
  qed simp
qed

lemma replay_visits:
  assumes "\<forall>v \<in> set vs. constant_visit (snd v) \<or> settling (snd v)"
  shows "fold visit_map vs (fold visit_map (take j vs) m) = fold visit_map vs m"
proof
  fix k
  define fs gs where "fs = map snd (filter (\<lambda>v. fst v = k) (take j vs))"
    and "gs = map snd (filter (\<lambda>v. fst v = k) (drop j vs))"
  have *: "fold snd ws = fold (\<lambda>f. f) (map snd ws)" for ws :: "visit list"
    by (simp add: fold_map comp_def)
  have "filter (\<lambda>v. fst v = k) vs = filter (\<lambda>v. fst v = k) (take j vs) @ filter (\<lambda>v. fst v = k) (drop j vs)"
    by (simp flip: filter_append)
  moreover have "\<forall>f \<in> set (fs @ gs). constant_visit f \<or> settling f"
    using assms by (auto simp: fs_def gs_def dest: in_set_takeD in_set_dropD)
  ultimately show "fold visit_map vs (fold visit_map (take j vs) m) k = fold visit_map vs m k"
    unfolding fold_at_key * using replay_at_key [of fs gs "m k"] by (simp add: fs_def gs_def)
qed


lemma process_fetched_rows:
  assumes "roundtrips cd" "parser_shaped ps" "\<forall>(i, tx) \<in> set (fb_txs fb). length i = 32"
    "index_ok cd ix" "process_fetched cd ps own fb fs (n, ix) = ((n', ix'), x)"
  obtains j where "index_ok cd ix'" "row_at cd ix' = fold visit_map (take j (block_visits ps own fb)) (row_at cd ix)"
    "\<And>u. x = Inr u \<Longrightarrow> row_at cd ix' = fold visit_map (block_visits ps own fb) (row_at cd ix)"
proof -
  obtain j where j: "index_ok cd ix'" "row_at cd ix' = fold visit_map (take j (block_visits ps own fb)) (row_at cd ix)"
    "\<forall>u. x = Inr u \<longrightarrow> j = length (block_visits ps own fb)"
    using performs_block [OF assms(1-3), of own] assms(4,5) unfolding performs_def by blast
  show ?thesis
    by (rule that [OF j(1,2)]) (use j(2,3) in simp)
qed

lemma get_htlc_rows:
  assumes "index_ok cd ix"
  shows "get_htlc no_faults cd lock_tx i ix = Inr (row_at cd ix (htlc_primary_key lock_tx i))"
proof (cases "map_of (tracked_htlcs ix) (htlc_primary_key lock_tx i)")
  case (Some b)
  moreover obtain r where "de_htlc cd b = Some r"
    using row_stored [of cd ix] assms Some by (auto simp: index_ok_def)
  ultimately show ?thesis by (simp add: get_htlc_def read_row_def row_at_def result_simps)
qed (simp add: get_htlc_def read_row_def row_at_def result_simps)

text \<open>C11: a block interrupted anywhere, by a crash or by a failing write, and processed again leaves the
  records that an uninterrupted run leaves: the checkpoint is behind the block until all of it is indexed.\<close>

theorem interrupted_block_replays:
  assumes "index_ok cd ix" "roundtrips cd" "parser_shaped ps" "\<forall>(i, tx) \<in> set (fb_txs fb). length i = 32"
    and cut: "process_fetched cd ps own fb fs (n, ix) = ((n1, ix1), x)"
    and again: "process_fetched cd ps own fb fs' (n1, ix1) = ((n2, ix2), Inr ())"
    and once: "process_fetched cd ps own fb fs'' (n, ix) = ((n3, ix3), Inr ())"
  shows "\<forall>lock_tx i. get_htlc no_faults cd lock_tx i ix2 = get_htlc no_faults cd lock_tx i ix3"
proof -
  let ?vs = "block_visits ps own fb"
  note rows = process_fetched_rows [OF assms(2-4)]
  obtain j where 1: "index_ok cd ix1" "row_at cd ix1 = fold visit_map (take j ?vs) (row_at cd ix)"
    by (rule rows [OF assms(1) cut]) blast
  have 2: "index_ok cd ix2" "row_at cd ix2 = fold visit_map ?vs (row_at cd ix1)"
    by (rule rows [OF 1(1) again]; blast)+
  have 3: "index_ok cd ix3" "row_at cd ix3 = fold visit_map ?vs (row_at cd ix)"
    by (rule rows [OF assms(1) once]; blast)+
  have "row_at cd ix2 = row_at cd ix3"
    unfolding 1(2) 2(2) 3(2) by (rule replay_visits) (use block_visit_kinds in blast)
  then show ?thesis by (simp add: get_htlc_rows 2(1) 3(1))
qed

section \<open>A sample chain\<close>

text \<open>
  A block that makes a lock of ours and claims it.  The samples of the library functions tell the two
  records apart and spell a checkpoint with its fields one after another.
\<close>

definition seen_lock :: htlc_record where
  "seen_lock = \<lparr>hr_lock_tx_id = replicate 32 1, hr_output_index = 0,
     hr_params = \<lparr>hp_sender = [2], hp_receiver = [3], hp_hash_lock = replicate 32 4, hp_timeout_height = 500\<rparr>,
     hr_amount = 9, hr_lock_height = Some 1, hr_state = Locked, hr_claim = None, hr_reclaim = None,
     hr_role = Sender, hr_last_indexed = 1\<rparr>"

definition later_lock :: htlc_record where
  "later_lock = seen_lock\<lparr>hr_lock_height := Some 3, hr_last_indexed := 3\<rparr>"

definition claim_in :: "u64 \<Rightarrow> htlc_record" where
  "claim_in h = seen_lock\<lparr>hr_state := Claimed,
     hr_claim := Some \<lparr>cr_tx_id = replicate 32 9, cr_preimage = [8], cr_block_height = h, cr_input_index = 0\<rparr>,
     hr_last_indexed := h\<rparr>"

definition chain_codec :: codec where
  "chain_codec = \<lparr>ser_htlc = (\<lambda>r. if r = seen_lock then Some [1] else if r = claim_in 1 then Some [2]
       else if r = claim_in 2 then Some [3]
       else if r = later_lock then Some [4] else None),
     de_htlc = (\<lambda>b. if b = [1] then Some seen_lock else if b = [2] then Some (claim_in 1)
       else if b = [3] then Some (claim_in 2)
       else if b = [4] then Some later_lock else None),
     ser_meta = (\<lambda>m. Some ([ucast (last_indexed_height m), if full_scan_complete m then 1 else 0, ucast (started_at m)]
       @ last_indexed_block_id m)),
     de_meta = (\<lambda>b. Some \<lparr>last_indexed_height = ucast (b ! 0), last_indexed_block_id = drop 3 b,
       full_scan_complete = (b ! 1 = 1), started_at = ucast (b ! 2)\<rparr>),
     base64_encode = \<lambda>_. [], base64_decode = \<lambda>_. None\<rparr>"

definition lock_tx :: transaction where
  "lock_tx = \<lparr>inputs = [], outputs = [\<lparr>out_value = 9, script = replicate 100 0, datum = None, datum_hash = None\<rparr>],
     witnesses = []\<rparr>"

definition claim_tx :: transaction where
  "claim_tx = \<lparr>inputs = [\<lparr>prev_tx_id = replicate 32 1, prev_index = 0\<rparr>], outputs = [],
     witnesses = [\<lparr>witness = [1, 0, 5, 1, 0, 0, 0, 8], redeemer = None\<rparr>]\<rparr>"

definition sample_parser :: parser where
  "sample_parser = \<lparr>parse_htlc = (\<lambda>b. if length b = 100 then Some (hr_params seen_lock) else None),
     parse_tx = (\<lambda>b. if b = [1] then Some lock_tx else if b = [2] then Some claim_tx else None)\<rparr>"

definition our_keys :: owned_set where
  "our_keys = \<lparr>by_pubkey = [[2] \<mapsto> replicate 32 2], known_addresses = {}\<rparr>"

definition sample_block :: fetched_block where
  "sample_block = \<lparr>fb_height = 1, fb_block_id = replicate 32 5, fb_txs = [(replicate 32 1, lock_tx), (replicate 32 9, claim_tx)]\<rparr>"

lemmas sample_chain = seen_lock_def claim_in_def lock_tx_def claim_tx_def sample_parser_def our_keys_def sample_block_def



text \<open>The write of the claim fails at its commit, then the block is processed again.\<close>

definition cut_off :: "nat \<Rightarrow> faults" where
  "cut_off n = (if n = 2 then (\<lambda>l. l = ''index: commit upsert'') else no_faults)"

definition halfway :: index where
  "halfway = snd (fst (process_fetched chain_codec sample_parser our_keys sample_block cut_off (0, empty_index)))"

definition indexed :: "index \<Rightarrow> (nat \<times> index) \<times> unit res" where
  "indexed ix = process_fetched chain_codec sample_parser our_keys sample_block (\<lambda>_. no_faults) (3, ix)"

lemma sample_runs:
  "process_fetched chain_codec sample_parser our_keys sample_block cut_off (0, empty_index)
     = ((3, halfway), Inl (Internal ''index: commit upsert''))"
  "snd (indexed halfway) = Inr ()"
  "snd (process_fetched chain_codec sample_parser our_keys sample_block (\<lambda>_. no_faults) (0, empty_index)) = Inr ()"
  "get_htlc no_faults chain_codec (replicate 32 1) 0 halfway = Inr (Some seen_lock)"
  "get_htlc no_faults chain_codec (replicate 32 1) 0
     (snd (fst (process_fetched chain_codec sample_parser our_keys sample_block (\<lambda>_. no_faults) (0, empty_index))))
   = Inr (Some (claim_in 1))"
  by code_simp+

lemma sample_claims: "claim_in 1 \<noteq> seen_lock" "claim_in 2 \<noteq> seen_lock" "claim_in 1 \<noteq> claim_in 2"
  "later_lock \<noteq> seen_lock" "later_lock \<noteq> claim_in 1" "later_lock \<noteq> claim_in 2"
  by (simp_all add: claim_in_def seen_lock_def later_lock_def)

lemma sample_library: "roundtrips chain_codec" "parser_shaped sample_parser"
  "\<forall>(i, tx) \<in> set (fb_txs sample_block). length i = 32"
  using sample_claims
  by (auto simp: roundtrips_def chain_codec_def parser_shaped_def sample_chain split: if_splits)

lemma interrupted_block_replays_witness:
  "get_htlc no_faults chain_codec (replicate 32 1) 0 (snd (fst (indexed halfway))) = Inr (Some (claim_in 1))"
proof -
  obtain n2 ix2 where again: "indexed halfway = ((n2, ix2), Inr ())"
    using sample_runs(2) by (metis prod.collapse)
  obtain n3 ix3 where once: "process_fetched chain_codec sample_parser our_keys sample_block (\<lambda>_. no_faults) (0, empty_index)
      = ((n3, ix3), Inr ())"
    using sample_runs(3) by (metis prod.collapse)
  have "get_htlc no_faults chain_codec (replicate 32 1) 0 ix3 = Inr (Some (claim_in 1))"
    using sample_runs(5) once by simp
  moreover have "get_htlc no_faults chain_codec (replicate 32 1) 0 ix2 = get_htlc no_faults chain_codec (replicate 32 1) 0 ix3"
    using interrupted_block_replays [OF empty_index_ok sample_library sample_runs(1) again [unfolded indexed_def] once] by simp
  ultimately show ?thesis by (simp add: again)
qed

section \<open>A reorganisation\<close>

text \<open>
  Blocks 1 and 2 make a lock and claim it; then block 2 is replaced by an empty one.  Every block is
  named by its height except the replacement.
\<close>

definition hex_bytes :: chain where
  "hex_bytes = \<lparr>dust_threshold = 0, min_fee_divisor = 1, min_fee = \<lambda>_. None, tx_cost = \<lambda>_. None, sig_message = \<lambda>_. None,
     tx_id_of = \<lambda>_. None, serialize = \<lambda>_. None, hex_encode = map (\<lambda>w. char_of (unat w)),
     hex_decode = (\<lambda>s. Some (map (\<lambda>c. word_of_nat (of_char c)) s))\<rparr>"

definition block_named :: "nat \<Rightarrow> nat list \<Rightarrow> block_view res" where
  "block_named i txs = Inr \<lparr>bv_block_id = replicate 32 (char_of i), bv_transactions = map (\<lambda>t. replicate 32 (char_of t)) txs\<rparr>"

definition chain_at :: "nat \<Rightarrow> nat list \<Rightarrow> u64 \<Rightarrow> block_view res" where
  "chain_at tag txs h = (if h = 0 then block_named 100 [] else if h = 1 then block_named 101 [1] else block_named tag txs)"

definition answers :: "nat \<Rightarrow> nat list \<Rightarrow> tick_answers" where
  "answers tag txs = \<lparr>ta_tip = Inr (2, []), ta_check = chain_at tag txs, ta_ancestor = chain_at tag txs,
     ta_anchor = chain_at tag txs, ta_block = chain_at tag txs,
     ta_tx_hex = (\<lambda>h i. Inr (if i = replicate 32 (char_of (1 :: nat)) then [char_of (1 :: nat)] else [char_of (2 :: nat)])),
     ta_clock = 7\<rparr>"

definition ticked :: "tick_answers \<Rightarrow> index \<Rightarrow> (nat \<times> index) \<times> unit res" where
  "ticked ta ix = tick hex_bytes chain_codec sample_parser our_keys None ta (\<lambda>_. no_faults) (0, ix)"

definition before_reorg :: index where
  "before_reorg = snd (fst (ticked (answers 102 [9]) empty_index))"

definition after_reorg :: index where
  "after_reorg = snd (fst (ticked (answers 202 []) before_reorg))"

text \<open>the follower never takes back a claim.  A claim that was in an orphaned block stays in its
  record when the block that replaced it does not contain it: the reorganisation check forgets locks above
  the common ancestor and leaves the records of older locks as they are.\<close>

theorem reorg_keeps_orphaned_claim:
  "snd (ticked (answers 102 [9]) empty_index) = Inr () \<and> snd (ticked (answers 202 []) before_reorg) = Inr ()
   \<and> get_follower_meta no_faults chain_codec after_reorg
       = Inr \<lparr>last_indexed_height = 2, last_indexed_block_id = replicate 32 202, full_scan_complete = True, started_at = 7\<rparr>
   \<and> get_htlc no_faults chain_codec (replicate 32 1) 0 after_reorg = Inr (Some (claim_in 2))"
  by (intro conjI; code_simp)

text \<open>
  The other consequence of a reorganisation: the follower has caught up with block 2 and sleeps, with
  a window of two blocks, until block 6.
\<close>

definition later_chain :: "u64 \<Rightarrow> block_view res" where
  "later_chain h = (if h = 3 then block_named 103 [1] else block_named (100 + unat h) [])"

definition later :: "nat \<Rightarrow> tick_answers" where
  "later tag = (answers tag [])\<lparr>ta_tip := Inr (6, []), ta_ancestor := later_chain, ta_anchor := later_chain, ta_block := later_chain\<rparr>"

definition ticked_in_window :: "tick_answers \<Rightarrow> index \<Rightarrow> (nat \<times> index) \<times> unit res" where
  "ticked_in_window ta ix = tick hex_bytes chain_codec sample_parser our_keys (Some 2) ta (\<lambda>_. no_faults) (0, ix)"

definition caught_up :: index where
  "caught_up = empty_index\<lparr>meta_row := ser_meta chain_codec
     \<lparr>last_indexed_height = 2, last_indexed_block_id = replicate 32 102, full_scan_complete = True, started_at = 7\<rparr>\<rparr>"

text \<open>a follower that has caught up indexes every block it slept through, also when the gap is longer
  than its backfill window; but when its last block was replaced meanwhile, it takes itself for a fresh
  follower, jumps over the blocks outside the window and misses the lock in one of them for good.\<close>

theorem reorg_skips_blocks:
  "(let ((_, ix), r) = ticked_in_window (later 102) caught_up in
      r = Inr () \<and> get_htlc no_faults chain_codec (replicate 32 1) 0 ix = Inr (Some later_lock))
   \<and> (let ((_, ix), r) = ticked_in_window (later 202) caught_up in
      r = Inr () \<and> get_htlc no_faults chain_codec (replicate 32 1) 0 ix = Inr None
      \<and> get_follower_meta no_faults chain_codec ix
            = Inr \<lparr>last_indexed_height = 6, last_indexed_block_id = replicate 32 106, full_scan_complete = True, started_at = 7\<rparr>)"
  by (intro conjI; code_simp)

end
