(* ===== verification/TxHtlc.thy ===== *)
theory TxHtlc imports TxBuild LockWatch Follower begin

text \<open>
  The life of an HTLC on the chain (\<open>src/tx/htlc.rs\<close>): the lock, its dry run, the claim with the
  preimage, the reclaim after the timeout, and the claim that is signed ahead of the preimage.
\<close>

section \<open>What the crate provides\<close>

text \<open>The shapes of the script values a witness is made of.\<close>

datatype witness_item = LeftUnit | RightUnit | Bytes bytes

text \<open>\<open>'p\<close> is the crate's type of programs.\<close>

record 'p covenants =
  build_htlc_program :: "bytes \<Rightarrow> bytes \<Rightarrow> bytes \<Rightarrow> u64 \<Rightarrow> 'p"
  serialize_program :: "'p \<Rightarrow> bytes"
  compute_cost :: "'p \<Rightarrow> (u64 \<times> u64) option"
  serialize_value :: "witness_item \<Rightarrow> bytes"
  min_fee_with_script_cost :: "transaction \<Rightarrow> u128 \<Rightarrow> u128 \<Rightarrow> u64 option"
  authenticate_tx :: "bytes \<Rightarrow> bytes \<Rightarrow> u32 \<Rightarrow> bytes \<Rightarrow> u64 option"
  sha256 :: "bytes \<Rightarrow> bytes"

text \<open>The node as a spend sees it: the transaction in hex, the tip, and the broadcast.\<close>

record spend_node =
  tx_hex_of :: "string \<Rightarrow> string res"
  tip_now :: "u64 res"
  send_raw :: "string \<Rightarrow> string res"

section \<open>Locking\<close>

record lock_receipt =
  lk_tx_id :: string
  lk_output_index :: u32
  lk_amount :: u64
  lk_hash_lock :: string
  lk_timeout :: u64
  lk_receiver :: string
  lk_size :: u64
  lk_fee :: u64
  lk_fee_rate :: u64
  lk_built_at_height :: u64
  lk_change :: "u64 option"

definition lock_outputs :: "'p covenants \<Rightarrow> signer \<Rightarrow> bytes \<Rightarrow> bytes \<Rightarrow> u64 \<Rightarrow> u64 \<Rightarrow> core_output list" where
  "lock_outputs cv sg receiver hash expiry paid =
     [\<lparr>co_script = serialize_program cv (build_htlc_program cv (signer_pubkey sg) receiver hash expiry),
       co_value = paid\<rparr>]"

text \<open>
  The lock.  The results are the claims, the watched locks, what was sent, and the receipt; \<open>at\<close> is the
  instant of the registration.
\<close>

definition htlc_lock ::
    "chain \<Rightarrow> 'p covenants \<Rightarrow> node \<Rightarrow> signer \<Rightarrow> bytes \<Rightarrow> bytes \<Rightarrow> u64 \<Rightarrow> u64 \<Rightarrow> fee_choice \<Rightarrow> u64 \<Rightarrow>
     (nat \<Rightarrow> nat) \<Rightarrow> nat \<Rightarrow> claims \<Rightarrow> watch option \<Rightarrow> claims \<times> watch option \<times> string list \<times> lock_receipt res" where
  "htlc_lock ch cv nd sg receiver hash expiry paid choice max_fee clock at cs w =
     (case build_only ch nd sg (lock_outputs cv sg receiver hash expiry paid) None choice max_fee clock cs of
        (cs1, Inl d) \<Rightarrow> (cs1, w, [], Inl d)
      | (cs1, Inr (b, guard)) \<Rightarrow>
          (case broadcast_built ch nd b of
             (sent, Inl d) \<Rightarrow> (drop_guard guard cs1, w, sent, Inl d)
           | (sent, Inr _) \<Rightarrow>
               (commit_guard guard cs1,
                (case (w, serialize ch (built b)) of
                   (Some w', Some raw) \<Rightarrow>
                     Some (register at (hex_encode ch (built_id b)) (hex_encode ch raw) (map fst (selected b)) w')
                 | _ \<Rightarrow> w),
                sent,
                Inr \<lparr>lk_tx_id = hex_encode ch (built_id b), lk_output_index = 0, lk_amount = paid,
                     lk_hash_lock = hex_encode ch hash, lk_timeout = expiry,
                     lk_receiver = hex_encode ch receiver, lk_size = built_size b, lk_fee = effective_fee b,
                     lk_fee_rate = fee_rate b, lk_built_at_height = built_at_height b,
                     lk_change = (if has_change b then Some (change_value b) else None)\<rparr>)))"

record lock_simulation =
  sl_lock_size :: u64
  sl_lock_fee :: u64
  sl_lock_fee_rate :: u64
  sl_lock_output_index :: u32
  sl_lock_amount :: u64
  sl_lock_hash :: string
  sl_lock_timeout :: u64
  sl_lock_receiver :: string
  sl_lock_total_in :: u64
  sl_lock_change :: u64
  sl_lock_height :: u64

definition simulate_htlc_lock ::
    "chain \<Rightarrow> 'p covenants \<Rightarrow> node \<Rightarrow> signer \<Rightarrow> bytes \<Rightarrow> bytes \<Rightarrow> u64 \<Rightarrow> u64 \<Rightarrow> fee_choice \<Rightarrow> u64 \<Rightarrow>
     (nat \<Rightarrow> nat) \<Rightarrow> claims \<Rightarrow> claims \<times> lock_simulation res" where
  "simulate_htlc_lock ch cv nd sg receiver hash expiry paid choice max_fee clock cs =
     (case build_only ch nd sg (lock_outputs cv sg receiver hash expiry paid) None choice max_fee clock cs of
        (cs1, Inl d) \<Rightarrow> (cs1, Inl d)
      | (cs1, Inr (b, guard)) \<Rightarrow>
          (drop_guard guard cs1,
           Inr \<lparr>sl_lock_size = built_size b, sl_lock_fee = effective_fee b, sl_lock_fee_rate = fee_rate b,
                sl_lock_output_index = 0, sl_lock_amount = paid, sl_lock_hash = hex_encode ch hash,
                sl_lock_timeout = expiry, sl_lock_receiver = hex_encode ch receiver,
                sl_lock_total_in = sum_words (map snd (selected b)),
                sl_lock_change = (if has_change b then change_value b else 0),
                sl_lock_height = built_at_height b\<rparr>))"

section \<open>Spending\<close>

record spend_receipt =
  sp_tx_id :: string
  sp_kind :: string
  sp_paid :: u64
  sp_fee :: u64
  sp_lock_tx_id :: string
  sp_output_index :: u32
  sp_size :: u64

definition claim_witness :: "'p covenants \<Rightarrow> bytes \<Rightarrow> bytes \<Rightarrow> bytes" where
  "claim_witness cv preimage sig =
     serialize_value cv LeftUnit @ serialize_value cv (Bytes preimage) @ serialize_value cv (Bytes sig)"

definition reclaim_witness :: "'p covenants \<Rightarrow> bytes \<Rightarrow> bytes" where
  "reclaim_witness cv sig = serialize_value cv RightUnit @ serialize_value cv (Bytes sig)"

text \<open>The transaction that pays \<open>value\<close> from the lock to the signer, with a witness.\<close>

definition spend_template :: "signer \<Rightarrow> bytes \<Rightarrow> u32 \<Rightarrow> u64 \<Rightarrow> bytes \<Rightarrow> transaction" where
  "spend_template sg lock_tx_id i paid w =
     \<lparr>inputs = [\<lparr>prev_tx_id = lock_tx_id, prev_index = i\<rparr>],
      outputs = [plain_output paid (signer_address sg)],
      witnesses = [\<lparr>witness = w, redeemer = None\<rparr>]\<rparr>"

text \<open>The value of the lock, fetched from the node and checked against the script we expect.\<close>

definition fetch_locked ::
    "chain \<Rightarrow> 'p covenants \<Rightarrow> spend_node \<Rightarrow> bytes \<Rightarrow> u32 \<Rightarrow> bytes \<Rightarrow> u64 res" where
  "fetch_locked ch cv nd lock_tx_id i expected =
     bind_ok (tx_hex_of nd (hex_encode ch lock_tx_id)) (\<lambda>tx_hex.
     bind_ok (ok_or (BadHex '''') (hex_decode ch tx_hex)) (\<lambda>raw.
     ok_or (HtlcOutputAuth '''') (authenticate_tx cv raw lock_tx_id i expected)))"

text \<open>The least fee: the consensus minimum of a script input with a quarter on top.\<close>

definition required_fee :: "'p covenants \<Rightarrow> 'p \<Rightarrow> transaction \<Rightarrow> u64 res" where
  "required_fee cv program tmpl =
     bind_ok (ok_or (TxBuild ''script cost'') (compute_cost cv program)) (\<lambda>(cells, steps).
     let eval_cost = (ucast cells + ucast steps :: u128);
         validation_cost = (ucast (div_ceil (word_of_nat (length (serialize_program cv program))) 64 * 10 :: u64) :: u128)
     in bind_ok (ok_or (TxBuild ''min_fee computation overflowed'')
          (min_fee_with_script_cost cv tmpl eval_cost validation_cost)) (\<lambda>base.
        Inr (base + base div 4 + 1)))"

definition spend_fee :: "u64 option \<Rightarrow> u64 \<Rightarrow> u64 res" where
  "spend_fee fee least =
     (case fee of
        Some f \<Rightarrow> if f < least then Inl (TxBuild ''fee below required minimum'') else Inr f
      | None \<Rightarrow> Inr least)"

text \<open>Fetch, settle the fee, sign: the signed transaction, its value and its fee.\<close>

definition build_spend ::
    "chain \<Rightarrow> 'p covenants \<Rightarrow> spend_node \<Rightarrow> signer \<Rightarrow> 'p \<Rightarrow> bytes \<Rightarrow> u32 \<Rightarrow> u64 option \<Rightarrow> (bytes \<Rightarrow> bytes)
     \<Rightarrow> (transaction \<times> u64 \<times> u64) res" where
  "build_spend ch cv nd sg program lock_tx_id i fee build_witness =
     bind_ok (fetch_locked ch cv nd lock_tx_id i (serialize_program cv program)) (\<lambda>htlc_value.
     let probe = replicate (length (build_witness (replicate 64 0))) 0 in
     bind_ok (required_fee cv program (spend_template sg lock_tx_id i htlc_value probe)) (\<lambda>least.
     bind_ok (spend_fee fee least) (\<lambda>f.
     bind_ok (ok_or (TxBuild ''fee exceeds htlc paid'') (checked_sub htlc_value f)) (\<lambda>paid.
     bind_ok (ensure (DustOutput paid (dust_threshold ch)) (\<not> paid < dust_threshold ch)) (\<lambda>_.
     let tx = spend_template sg lock_tx_id i paid probe in
     bind_ok (ok_or (TxSerialize ''sig_message'') (sig_message ch tx)) (\<lambda>msg.
     Inr (spend_template sg lock_tx_id i paid (build_witness (sign_bytes sg msg)), paid, f)))))))"

definition spend_htlc ::
    "chain \<Rightarrow> 'p covenants \<Rightarrow> spend_node \<Rightarrow> signer \<Rightarrow> 'p \<Rightarrow> bytes \<Rightarrow> u32 \<Rightarrow> u64 option \<Rightarrow> string \<Rightarrow> (bytes \<Rightarrow> bytes)
     \<Rightarrow> string list \<times> spend_receipt res" where
  "spend_htlc ch cv nd sg program lock_tx_id i fee kind build_witness =
     (case bind_ok (build_spend ch cv nd sg program lock_tx_id i fee build_witness) (\<lambda>(tx, paid, f).
           bind_ok (ok_or (TxSerialize ''tx_id'') (tx_id_of ch tx)) (\<lambda>tx_id.
           bind_ok (ok_or (TxSerialize '''') (serialize ch tx)) (\<lambda>raw. Inr (paid, f, tx_id, raw)))) of
        Inl d \<Rightarrow> ([], Inl d)
      | Inr (paid, f, tx_id, raw) \<Rightarrow>
          ([hex_encode ch raw],
           bind_ok (send_raw nd (hex_encode ch raw)) (\<lambda>sent.
           bind_ok (ensure (UpstreamUnexpected ''node returned tx_id but we computed another'')
                      (sent = hex_encode ch tx_id)) (\<lambda>_.
           Inr \<lparr>sp_tx_id = hex_encode ch tx_id, sp_kind = kind, sp_paid = paid, sp_fee = f,
                sp_lock_tx_id = hex_encode ch lock_tx_id, sp_output_index = i,
                sp_size = word_of_nat (length raw)\<rparr>))))"

definition htlc_claim ::
    "chain \<Rightarrow> 'p covenants \<Rightarrow> spend_node \<Rightarrow> signer \<Rightarrow> bytes \<Rightarrow> u32 \<Rightarrow> bytes \<Rightarrow> bytes \<Rightarrow> u64 \<Rightarrow> u64 option
     \<Rightarrow> string list \<times> spend_receipt res" where
  "htlc_claim ch cv nd sg lock_tx_id i preimage sender expiry fee =
     spend_htlc ch cv nd sg (build_htlc_program cv sender (signer_pubkey sg) (sha256 cv preimage) expiry)
       lock_tx_id i fee ''claim'' (claim_witness cv preimage)"

definition htlc_reclaim ::
    "chain \<Rightarrow> 'p covenants \<Rightarrow> spend_node \<Rightarrow> signer \<Rightarrow> bytes \<Rightarrow> u32 \<Rightarrow> bytes \<Rightarrow> bytes \<Rightarrow> u64 \<Rightarrow> u64 option
     \<Rightarrow> string list \<times> spend_receipt res" where
  "htlc_reclaim ch cv nd sg lock_tx_id i receiver hash expiry fee =
     (case tip_now nd of
        Inl d \<Rightarrow> ([], Inl d)
      | Inr tip \<Rightarrow>
          if tip \<le> expiry then ([], Inl (TimeoutNotReached tip expiry))
          else spend_htlc ch cv nd sg (build_htlc_program cv (signer_pubkey sg) receiver hash expiry)
                 lock_tx_id i fee ''reclaim'' (reclaim_witness cv))"

section \<open>A claim signed ahead of the preimage\<close>

text \<open>\<open>windows(n).position\<close>: where a block of bytes first occurs.\<close>

fun position :: "bytes \<Rightarrow> bytes \<Rightarrow> nat option" where
  "position b [] = None"
| "position b (x # xs) = (if length b \<le> length (x # xs) \<and> take (length b) (x # xs) = b then Some 0
     else map_option Suc (position b xs))"

record presigned_claim =
  ps_tx_hex :: string
  ps_offset :: nat
  ps_value :: u64

definition build_presigned_claim ::
    "chain \<Rightarrow> 'p covenants \<Rightarrow> spend_node \<Rightarrow> signer \<Rightarrow> bytes \<Rightarrow> u32 \<Rightarrow> bytes \<Rightarrow> bytes \<Rightarrow> u64 \<Rightarrow> u64 option
     \<Rightarrow> presigned_claim res" where
  "build_presigned_claim ch cv nd sg lock_tx_id i sender hash expiry fee =
     bind_ok (build_spend ch cv nd sg (build_htlc_program cv sender (signer_pubkey sg) hash expiry)
                lock_tx_id i fee (claim_witness cv (replicate 32 0))) (\<lambda>(tx, paid, _).
     bind_ok (ok_or (TxSerialize '''') (serialize ch tx)) (\<lambda>raw.
     bind_ok (ok_or (TxSerialize ''witness blob not found in serialized tx'')
                (position (witness (hd (witnesses tx))) raw)) (\<lambda>start.
     bind_ok (ensure (TxSerialize ''preimage placeholder not at the computed offset'')
                (take 32 (drop (start + 7) raw) = replicate 32 0)) (\<lambda>_.
     Inr \<lparr>ps_tx_hex = hex_encode ch raw, ps_offset = start + 7, ps_value = paid\<rparr>))))"

section \<open>What a spend sends\<close>

lemma spend_fee_done: "spend_fee fee least = Inr f \<longleftrightarrow> least \<le> f \<and> (fee = Some f \<or> fee = None \<and> f = least)"
  by (auto simp: spend_fee_def split: option.splits)

lemma build_spend_done:
  assumes "build_spend ch cv nd sg program lock i fee bw = Inr (tx, paid, f)"
  shows "\<exists>locked least msg.
    fetch_locked ch cv nd lock i (serialize_program cv program) = Inr locked \<and> f \<le> locked \<and> paid = locked - f
    \<and> required_fee cv program (spend_template sg lock i locked (replicate (length (bw (replicate 64 0))) 0)) = Inr least
    \<and> least \<le> f \<and> (fee = Some f \<or> fee = None \<and> f = least) \<and> dust_threshold ch \<le> paid
    \<and> sig_message ch (spend_template sg lock i paid (replicate (length (bw (replicate 64 0))) 0)) = Some msg
    \<and> tx = spend_template sg lock i paid (bw (sign_bytes sg msg))"
  using assms
  by (auto simp: build_spend_def spend_fee_done checked_sub_def Let_def result_simps split: if_splits)

text \<open>What may follow a spend: nothing was sent, or one transaction that pays the lock, less the fee, to us.\<close>

definition pays_self :: "chain \<Rightarrow> 'p covenants \<Rightarrow> spend_node \<Rightarrow> signer \<Rightarrow> 'p \<Rightarrow> bytes \<Rightarrow> u32 \<Rightarrow> u64 option
    \<Rightarrow> transaction \<Rightarrow> u64 \<Rightarrow> u64 \<Rightarrow> bool" where
  "pays_self ch cv nd sg program lock i fee tx paid f \<longleftrightarrow>
     (\<exists>locked least w w0. fetch_locked ch cv nd lock i (serialize_program cv program) = Inr locked
        \<and> unat paid + unat f = unat locked \<and> dust_threshold ch \<le> paid
        \<and> required_fee cv program (spend_template sg lock i locked w0) = Inr least
        \<and> least \<le> f \<and> (fee = Some f \<or> fee = None \<and> f = least)
        \<and> tx = spend_template sg lock i paid w)"

definition spend_outcome :: "chain \<Rightarrow> 'p covenants \<Rightarrow> spend_node \<Rightarrow> signer \<Rightarrow> 'p \<Rightarrow> bytes \<Rightarrow> u32 \<Rightarrow> u64 option
    \<Rightarrow> string list \<times> spend_receipt res \<Rightarrow> bool" where
  "spend_outcome ch cv nd sg program lock i fee = (\<lambda>(sent, r).
     sent = [] \<and> (\<exists>d. r = Inl d) \<or>
     (\<exists>tx paid f tx_id raw. pays_self ch cv nd sg program lock i fee tx paid f
        \<and> tx_id_of ch tx = Some tx_id \<and> serialize ch tx = Some raw \<and> sent = [hex_encode ch raw]
        \<and> (\<forall>rc. r = Inr rc \<longrightarrow> sp_tx_id rc = hex_encode ch tx_id \<and> sp_paid rc = paid \<and> sp_fee rc = f)))"

lemma build_spend_pays:
  assumes "build_spend ch cv nd sg program lock i fee bw = Inr (tx, paid, f)"
  shows "pays_self ch cv nd sg program lock i fee tx paid f"
proof -
  have "unat (locked - f) + unat f = unat locked" if "f \<le> locked" for locked
    using that by (simp add: unat_sub word_le_nat_alt)
  then show ?thesis using build_spend_done [OF assms] unfolding pays_self_def by blast
qed

lemma spend_htlc_outcome: "spend_outcome ch cv nd sg program lock i fee (spend_htlc ch cv nd sg program lock i fee kind bw)"
proof (cases "build_spend ch cv nd sg program lock i fee bw")
  case (Inr x)
  obtain tx paid f where x: "x = (tx, paid, f)" by (cases x)
  note pays = build_spend_pays [OF Inr [unfolded x]]
  show ?thesis
  proof (cases "\<exists>tx_id raw. tx_id_of ch tx = Some tx_id \<and> serialize ch tx = Some raw")
    case True
    then obtain tx_id raw where "tx_id_of ch tx = Some tx_id" "serialize ch tx = Some raw" by blast
    then show ?thesis using pays
      by (simp add: spend_htlc_def Inr x spend_outcome_def) (fastforce simp: result_simps)
  next
    case False
    then show ?thesis
      by (cases "tx_id_of ch tx"; cases "serialize ch tx") (simp_all add: spend_htlc_def Inr x spend_outcome_def)
  qed
qed (simp add: spend_htlc_def spend_outcome_def)

text \<open>a claim or a reclaim that fails before the broadcast sends nothing.  Otherwise it sends one
  transaction: its only input is the lock, whose value the fetched transaction proved under the script we
  expect, its only output pays that value less the fee to our own address, the fee is the requested one and
  at least the required one, and the output is no dust.  A reclaim is sent only when the tip is past the
  timeout.\<close>

theorem spend_pays_self:
  "spend_outcome ch cv nd sg (build_htlc_program cv sender (signer_pubkey sg) (sha256 cv preimage) expiry) lock i fee
     (htlc_claim ch cv nd sg lock i preimage sender expiry fee)
   \<and> spend_outcome ch cv nd sg (build_htlc_program cv (signer_pubkey sg) receiver hash expiry) lock i fee
       (htlc_reclaim ch cv nd sg lock i receiver hash expiry fee)
   \<and> (fst (htlc_reclaim ch cv nd sg lock i receiver hash expiry fee) = [] \<or> (\<exists>tip > expiry. tip_now nd = Inr tip))"
  using spend_htlc_outcome [of ch cv nd sg _ lock i fee]
  by (auto simp: htlc_claim_def htlc_reclaim_def spend_outcome_def [of _ _ _ _ _ _ _ _] not_le split: sum.split)

section \<open>The follower reads what a spend writes\<close>

text \<open>The layout of a witness, as \<open>process_inputs\<close> and the tests of \<open>src/follower.rs\<close> describe it.\<close>

definition value_layout :: "'p covenants \<Rightarrow> bool" where
  "value_layout cv \<longleftrightarrow> serialize_value cv LeftUnit = [value_tag_left, value_tag_unit]
     \<and> serialize_value cv RightUnit = [value_tag_right, value_tag_unit]
     \<and> (\<forall>b. serialize_value cv (Bytes b) = value_tag_bytes # rev (be_of 4 (length b)) @ b)"

lemma claim_witness_layout:
  "value_layout cv \<Longrightarrow> claim_witness cv preimage sig =
     [value_tag_left, value_tag_unit, value_tag_bytes] @ rev (be_of 4 (length preimage)) @ preimage @ serialize_value cv (Bytes sig)"
  by (simp add: claim_witness_def value_layout_def)

lemma extract_from_claim:
  assumes "value_layout cv" "length preimage < 2 ^ 32"
  shows "extract_claim_preimage (claim_witness cv preimage sig) = Some preimage"
proof -
  have "u32_from_le (rev (be_of 4 (length preimage))) = length preimage"
    using assms(2) by (simp add: u32_from_le_def be_val_be_of)
  then show ?thesis
    by (simp add: extract_claim_preimage_def claim_witness_layout [OF assms(1)] Let_def)
qed

definition spent_by_claim :: "htlc_record \<Rightarrow> bytes \<Rightarrow> bytes \<Rightarrow> u64 \<Rightarrow> htlc_record" where
  "spent_by_claim r tx_id preimage height = r\<lparr>hr_state := Claimed,
     hr_claim := Some \<lparr>cr_tx_id = tx_id, cr_preimage = preimage, cr_block_height = height, cr_input_index = 0\<rparr>,
     hr_last_indexed := height\<rparr>"

definition spent_by_reclaim :: "htlc_record \<Rightarrow> bytes \<Rightarrow> u64 \<Rightarrow> htlc_record" where
  "spent_by_reclaim r tx_id height = r\<lparr>hr_state := Reclaimed,
     hr_reclaim := Some \<lparr>rr_tx_id = tx_id, rr_block_height = height, rr_input_index = 0\<rparr>,
     hr_last_indexed := height\<rparr>"

lemma spent_records:
  assumes "value_layout cv" "\<not> settled_state (hr_state r)"
  shows "length preimage < 2 ^ 32 \<Longrightarrow>
      spent_record (spend_template sg lock i paid (claim_witness cv preimage sig)) tx_id height 0 r
        = Some (spent_by_claim r tx_id preimage height)"
    and "spent_record (spend_template sg lock i paid (reclaim_witness cv sig)) tx_id height 0 r
        = Some (spent_by_reclaim r tx_id height)"
proof -
  assume "length preimage < 2 ^ 32"
  from extract_from_claim [OF assms(1) this, of sig] show
    "spent_record (spend_template sg lock i paid (claim_witness cv preimage sig)) tx_id height 0 r
       = Some (spent_by_claim r tx_id preimage height)"
    using assms(2) claim_witness_layout [OF assms(1), of preimage sig]
    by (simp add: spent_record_def spend_template_def spent_by_claim_def)
next
  show "spent_record (spend_template sg lock i paid (reclaim_witness cv sig)) tx_id height 0 r
        = Some (spent_by_reclaim r tx_id height)"
    using assms unfolding spent_record_def spend_template_def spent_by_reclaim_def reclaim_witness_def value_layout_def
    by (simp add: value_tag_left_def value_tag_right_def)
qed

text \<open>The follower's step on the transaction a spend sent, for a record it tracks under the lock.\<close>

definition follower_reads :: "chain \<Rightarrow> string list \<Rightarrow> bytes \<Rightarrow> u32 \<Rightarrow> (bytes \<Rightarrow> u64 \<Rightarrow> htlc_record \<Rightarrow> htlc_record) \<Rightarrow> bool" where
  "follower_reads ch sent lock i outcome \<longleftrightarrow>
     (\<exists>tx raw tx_id. sent = [hex_encode ch raw] \<and> serialize ch tx = Some raw \<and> tx_id_of ch tx = Some tx_id
        \<and> inputs tx = [\<lparr>prev_tx_id = lock, prev_index = i\<rparr>]
        \<and> (\<forall>r height. \<not> settled_state (hr_state r) \<longrightarrow> spent_record tx tx_id height 0 r = Some (outcome tx_id height r)))"

lemma spend_htlc_tx:
  assumes "spend_htlc ch cv nd sg program lock i fee kind bw = (sent, Inr rc)"
  obtains tx raw tx_id paid sig where "sent = [hex_encode ch raw]" "serialize ch tx = Some raw" "tx_id_of ch tx = Some tx_id"
    "tx = spend_template sg lock i paid (bw sig)"
proof (cases "build_spend ch cv nd sg program lock i fee bw")
  case (Inr x)
  obtain tx paid f where x: "x = (tx, paid, f)" by (cases x)
  obtain sig where tx: "tx = spend_template sg lock i paid (bw sig)" using build_spend_done [OF Inr [unfolded x]] by blast
  show ?thesis
    using assms Inr that [OF _ _ _ tx]
    by (cases "tx_id_of ch tx"; cases "serialize ch tx") (auto simp: spend_htlc_def x)
qed (use assms in \<open>simp add: spend_htlc_def\<close>)

lemma follower_readsI:
  assumes "sent = [hex_encode ch raw]" "serialize ch tx = Some raw" "tx_id_of ch tx = Some tx_id"
    "tx = spend_template sg lock i paid w"
    "\<And>r height. \<not> settled_state (hr_state r) \<Longrightarrow>
       spent_record (spend_template sg lock i paid w) tx_id height 0 r = Some (outcome tx_id height r)"
  shows "follower_reads ch sent lock i outcome"
  unfolding follower_reads_def
  by (rule exI [of _ tx], rule exI [of _ raw], rule exI [of _ tx_id])
     (use assms in \<open>simp add: spend_template_def [of sg lock i paid w]\<close>)

text \<open>the follower recognises the spends the wallet makes.  When it meets the transaction of a successful
  claim, it turns the record it tracks for that lock into a claimed one with exactly the preimage that was
  revealed; the transaction of a reclaim turns it into a reclaimed one.\<close>

theorem follower_recognises_spends:
  assumes "value_layout cv" "length preimage < 2 ^ 32"
    "htlc_claim ch cv nd sg lock i preimage sender expiry fee = (sent, Inr rc)"
    "htlc_reclaim ch cv nd' sg' lock' i' receiver hash expiry' fee' = (sent', Inr rc')"
  shows "follower_reads ch sent lock i (\<lambda>tx_id height r. spent_by_claim r tx_id preimage height)
    \<and> follower_reads ch sent' lock' i' (\<lambda>tx_id height r. spent_by_reclaim r tx_id height)"
proof
  show "follower_reads ch sent lock i (\<lambda>tx_id height r. spent_by_claim r tx_id preimage height)"
    by (rule spend_htlc_tx [OF assms(3) [unfolded htlc_claim_def]], rule follower_readsI, assumption+)
       (rule spent_records(1) [OF assms(1) _ assms(2)])
  have run: "spend_htlc ch cv nd' sg' (build_htlc_program cv (signer_pubkey sg') receiver hash expiry') lock' i' fee'
      ''reclaim'' (reclaim_witness cv) = (sent', Inr rc')"
    using assms(4) by (simp add: htlc_reclaim_def split: sum.splits if_splits)
  show "follower_reads ch sent' lock' i' (\<lambda>tx_id height r. spent_by_reclaim r tx_id height)"
    by (rule spend_htlc_tx [OF run], rule follower_readsI, assumption+) (rule spent_records(2) [OF assms(1)])
qed

section \<open>Splicing the preimage into a claim signed ahead\<close>

definition splice :: "bytes \<Rightarrow> nat \<Rightarrow> bytes \<Rightarrow> bytes" where
  "splice raw k b = take k raw @ b @ drop (k + length b) raw"

text \<open>
  What the crate's serialisation of a spend looks like: the witness stands as it is between a head and a
  tail that depend on its length only, and the message that is signed does not depend on it at all.
\<close>

definition witness_apart :: "chain \<Rightarrow> (signer \<Rightarrow> bytes \<Rightarrow> u32 \<Rightarrow> u64 \<Rightarrow> nat \<Rightarrow> bytes) \<Rightarrow> (nat \<Rightarrow> bytes) \<Rightarrow> bool" where
  "witness_apart ch before after \<longleftrightarrow> (\<forall>sg lock i paid w w'.
     serialize ch (spend_template sg lock i paid w) = Some (before sg lock i paid (length w) @ w @ after (length w))
     \<and> sig_message ch (spend_template sg lock i paid w) = sig_message ch (spend_template sg lock i paid w'))"

text \<open>The bytes of a witness, which hold a signature, occur in the transaction once.\<close>

definition occurs_once :: "bytes \<Rightarrow> bytes \<Rightarrow> bool" where
  "occurs_once b raw \<longleftrightarrow> (\<forall>j k. take (length b) (drop j raw) = b \<longrightarrow> take (length b) (drop k raw) = b \<longrightarrow> j = k)"

lemma position_occurs: "position b raw = Some j \<Longrightarrow> take (length b) (drop j raw) = b"
proof (induction raw arbitrary: j)
  case (Cons x raw)
  then show ?case by (cases j) (auto split: if_splits)
qed simp

text \<open>a claim signed ahead is complete but for the preimage.  Whoever writes the 32 bytes of the preimage
  over the placeholder at the reported offset gets, byte for byte, the transaction that claims the lock with
  this preimage for the signer, under the same signature, which is valid for it because the signed message does
  not cover the witness.\<close>

theorem presigned_claim_splices:
  assumes "build_presigned_claim ch cv nd sg lock i sender hash expiry fee = Inr p"
    "value_layout cv" "witness_apart ch before after" "length preimage = 32"
    "\<And>paid msg raw. serialize ch (spend_template sg lock i paid (claim_witness cv (replicate 32 0) (sign_bytes sg msg))) = Some raw
       \<Longrightarrow> occurs_once (claim_witness cv (replicate 32 0) (sign_bytes sg msg)) raw"
  shows "\<exists>raw tx msg. ps_tx_hex p = hex_encode ch raw
     \<and> tx = spend_template sg lock i (ps_value p) (claim_witness cv preimage (sign_bytes sg msg))
     \<and> sig_message ch tx = Some msg
     \<and> serialize ch tx = Some (splice raw (ps_offset p) preimage)"
proof -
  let ?w = "\<lambda>pre msg. claim_witness cv pre (sign_bytes sg msg)"
  obtain tx paid f raw start where b:
    "build_spend ch cv nd sg (build_htlc_program cv sender (signer_pubkey sg) hash expiry) lock i fee
       (claim_witness cv (replicate 32 0)) = Inr (tx, paid, f)"
    "serialize ch tx = Some raw" "position (witness (hd (witnesses tx))) raw = Some start"
    "p = \<lparr>ps_tx_hex = hex_encode ch raw, ps_offset = start + 7, ps_value = paid\<rparr>"
    using assms(1) by (auto simp: build_presigned_claim_def result_simps)
  from build_spend_done [OF b(1)] obtain msg n where
    msg: "sig_message ch (spend_template sg lock i paid (replicate n 0)) = Some msg"
    and tx: "tx = spend_template sg lock i paid (?w (replicate 32 0) msg)" by blast
  let ?old = "?w (replicate 32 0) msg" and ?new = "?w preimage msg"
  define pre post where "pre = before sg lock i paid (length ?old)" and "post = after (length ?old)"
  have len: "length ?new = length ?old" using assms(4) by (simp add: claim_witness_layout [OF assms(2)])
  have raw: "raw = pre @ ?old @ post"
    using assms(3) b(2) tx by (simp add: witness_apart_def pre_def post_def)
  have start: "start = length pre"
  proof -
    have "take (length ?old) (drop start raw) = ?old"
      using position_occurs [OF b(3)] by (simp add: tx spend_template_def)
    moreover have "take (length ?old) (drop (length pre) raw) = ?old" by (simp add: raw)
    ultimately show ?thesis using assms(5) [OF b(2) [unfolded tx]] by (simp add: occurs_once_def)
  qed
  have "splice raw (start + 7) preimage = pre @ ?new @ post"
    using assms(4) by (simp add: splice_def start raw claim_witness_layout [OF assms(2)])
  moreover have "serialize ch (spend_template sg lock i paid ?new) = Some (pre @ ?new @ post)"
    using assms(3) len by (simp add: witness_apart_def pre_def post_def)
  moreover have "sig_message ch (spend_template sg lock i paid ?new) = Some msg"
    using assms(3) msg by (metis witness_apart_def)
  ultimately show ?thesis unfolding b(4) by - (rule exI [of _ raw], rule exI, rule exI [of _ msg], simp)
qed

section \<open>Samples\<close>

text \<open>A library that serialises a transaction as its first witness, and a node that takes everything.\<close>

definition sample_covenants :: "bytes covenants" where
  "sample_covenants = \<lparr>build_htlc_program = (\<lambda>s r h t. s @ r @ h), serialize_program = (\<lambda>p. p),
     compute_cost = (\<lambda>_. Some (5, 8)),
     serialize_value = (\<lambda>x. case x of LeftUnit \<Rightarrow> [1, 0] | RightUnit \<Rightarrow> [2, 0] | Bytes b \<Rightarrow> 5 # rev (be_of 4 (length b)) @ b),
     min_fee_with_script_cost = (\<lambda>_ _ _. Some 8), authenticate_tx = (\<lambda>_ _ _ _. Some 100), sha256 = (\<lambda>b. b)\<rparr>"

definition spend_chain :: chain where
  "spend_chain = hex_bytes\<lparr>sig_message := (\<lambda>tx. Some []), tx_id_of := (\<lambda>_. Some [9]),
     serialize := (\<lambda>tx. Some (6 # witness (hd (witnesses tx))))\<rparr>"

definition open_node :: spend_node where
  "open_node = \<lparr>tx_hex_of = (\<lambda>_. Inr []), tip_now = Inr 900, send_raw = (\<lambda>_. Inr [CHR 0x09])\<rparr>"

definition sample_signer :: signer where
  "sample_signer = \<lparr>signer_address = [3], signer_pubkey = [4], sign_bytes = (\<lambda>_. replicate 64 7)\<rparr>"

definition sample_claim :: "string list \<times> spend_receipt res" where
  "sample_claim = htlc_claim spend_chain sample_covenants open_node sample_signer [1] 0 [8, 8] [2] 500 None"

definition sample_reclaim :: "string list \<times> spend_receipt res" where
  "sample_reclaim = htlc_reclaim spend_chain sample_covenants open_node sample_signer [1] 0 [2] [8] 500 (Some 20)"

definition sample_presigned :: "presigned_claim res" where
  "sample_presigned = build_presigned_claim spend_chain sample_covenants open_node sample_signer [1] 0 [2] [8] 500 None"

lemma sample_spends:
  "bind_ok (snd sample_claim) (\<lambda>rc. Inr (sp_paid rc)) = Inr 89"
  "bind_ok (snd sample_reclaim) (\<lambda>rc. Inr (sp_paid rc)) = Inr 80"
  "bind_ok sample_presigned (\<lambda>p. Inr (ps_offset p)) = Inr 8"
  by code_simp+

lemma sample_layout: "value_layout sample_covenants"
  by (simp add: value_layout_def sample_covenants_def value_tag_left_def value_tag_right_def value_tag_unit_def value_tag_bytes_def)

lemma follower_recognises_spends_witness:
  "follower_reads spend_chain (fst sample_claim) [1] 0 (\<lambda>tx_id height r. spent_by_claim r tx_id [8, 8] height)
   \<and> follower_reads spend_chain (fst sample_reclaim) [1] 0 (\<lambda>tx_id height r. spent_by_reclaim r tx_id height)"
proof -
  obtain sent rc where 1: "sample_claim = (sent, Inr rc)"
    using sample_spends(1) by (cases sample_claim; cases "snd sample_claim") (simp_all add: prod_eq_iff)
  obtain sent' rc' where 2: "sample_reclaim = (sent', Inr rc')"
    using sample_spends(2) by (cases sample_reclaim; cases "snd sample_reclaim") (simp_all add: prod_eq_iff)
  show ?thesis
    using follower_recognises_spends [OF sample_layout _ 1 [unfolded sample_claim_def] 2 [unfolded sample_reclaim_def]]
    by (simp add: 1 2)
qed

lemma presigned_claim_splices_witness:
  "\<exists>p raw. sample_presigned = Inr p \<and> ps_tx_hex p = hex_encode spend_chain raw
     \<and> 6 # claim_witness sample_covenants (replicate 32 8) (replicate 64 7) = splice raw (ps_offset p) (replicate 32 8)"
proof -
  obtain p where p: "sample_presigned = Inr p" using sample_spends(3) by (auto simp: result_simps)
  have apart: "witness_apart spend_chain (\<lambda>_ _ _ _ _. [6]) (\<lambda>_. [])"
    by (simp add: witness_apart_def spend_chain_def spend_template_def)
  let ?w = "claim_witness sample_covenants (replicate 32 0) (replicate 64 7)"
  have w: "?w = 1 # tl ?w" "length ?w > 0" by (simp_all add: claim_witness_layout [OF sample_layout] value_tag_left_def)
  have "j = 1" if "take (length ?w) (drop j (6 # ?w)) = ?w" for j
  proof (cases j)
    case 0
    have "hd (take (length ?w) (6 # ?w)) = 6" using w(2) by (cases "length ?w") simp_all
    moreover have "hd ?w = 1" by (subst w(1)) simp
    ultimately show ?thesis using that 0 by simp
  next
    case (Suc k)
    have "length (take (length ?w) (drop j (6 # ?w))) = length ?w" using that by simp
    then have "length ?w - k = length ?w" by (simp add: Suc)
    then have "k = 0" using w(2) by linarith
    then show ?thesis using Suc by simp
  qed
  then have "occurs_once ?w (6 # ?w)" unfolding occurs_once_def by blast
  then show ?thesis
    using presigned_claim_splices [OF p [unfolded sample_presigned_def] sample_layout apart, of "replicate 32 8"]
    by (auto simp: p spend_template_def sample_signer_def spend_chain_def)
qed

end
