(* ===== verification/Json.thy ===== *)
theory Json imports Errors begin

text \<open>
  JSON values as \<open>serde_json\<close> holds them (the keys of an object are distinct), and the reading of an
  error member, which the clients of the node and of the BSC endpoint share.
\<close>

datatype json =
    JNull | JBool bool | JInt int | JFloat | JStr string | JArr "json list" | JObj "(string \<times> json) list"

fun jget :: "json \<Rightarrow> string \<Rightarrow> json option" where
  "jget (JObj fs) k = map_of fs k"
| "jget _ k = None"

fun as_str :: "json \<Rightarrow> string option" where
  "as_str (JStr s) = Some s"
| "as_str _ = None"

fun as_array :: "json \<Rightarrow> json list option" where
  "as_array (JArr xs) = Some xs"
| "as_array _ = None"

fun as_u64 :: "json \<Rightarrow> u64 option" where
  "as_u64 (JInt n) = (if 0 \<le> n \<and> n < 2 ^ 64 then Some (word_of_int n) else None)"
| "as_u64 _ = None"

fun as_i64 :: "json \<Rightarrow> int option" where
  "as_i64 (JInt n) = (if - (2 ^ 63) \<le> n \<and> n < 2 ^ 63 then Some n else None)"
| "as_i64 _ = None"

text \<open>\<open>cloned().unwrap_or(Null)\<close> on a member.\<close>

definition member_or_null :: "json \<Rightarrow> string \<Rightarrow> json" where
  "member_or_null v k = (case jget v k of Some x \<Rightarrow> x | None \<Rightarrow> JNull)"

text \<open>A member \<open>error\<close>, even one that is null, makes the reply an error; \<open>as i32\<close> keeps the low bits.\<close>

definition rpc_error :: "json \<Rightarrow> error" where
  "rpc_error err = UpstreamRpc
     (case jget err ''code'' of
        Some (JInt n) \<Rightarrow> if - (2 ^ 63) \<le> n \<and> n < 2 ^ 63 then sint (word_of_int n :: 32 word) else 0
      | _ \<Rightarrow> 0)
     (case Option.bind (jget err ''message'') as_str of Some m \<Rightarrow> m | None \<Rightarrow> ''(no message)'')"

end
