(* ===== verification/Evm.thy ===== *)
theory Evm imports SwapBase Json begin

text \<open>
  The BSC client (\<open>src/evm.rs\<close>): the JSON-RPC call and the reading of its results, the reads of the
  contract and of the chain, the build, signature and broadcast of a transaction, and the scan of the
  contract's history for the locks of one sender.  Key derivation, ABI and transaction encoding belong
  to the \<open>alloy\<close> crate, HTTP to \<open>reqwest\<close>; both are parameters.
\<close>

section \<open>Replies\<close>

text \<open>What the transport makes of a request: no connection, a body that is no JSON, or a value.\<close>

datatype reply = NoConnection | NotJson | Reply json

definition rpc_result :: "reply \<Rightarrow> json res" where
  "rpc_result r =
     (case r of
        NoConnection \<Rightarrow> Inl (UpstreamUnreachable ''BSC'')
      | NotJson \<Rightarrow> Inl (UpstreamUnexpected ''BSC decode'')
      | Reply v \<Rightarrow>
          (case jget v ''error'' of
             Some err \<Rightarrow> Inl (rpc_error err)
           | None \<Rightarrow> ok_or (UpstreamUnexpected ''BSC: no result'') (jget v ''result'')))"

definition result_hex :: "json \<Rightarrow> string res" where
  "result_hex v = ok_or (UpstreamUnexpected ''expected hex string result'') (as_str v)"

definition hex_digit :: "char \<Rightarrow> nat option" where
  "hex_digit c =
     (if CHR ''0'' \<le> c \<and> c \<le> CHR ''9'' then Some (of_char c - of_char CHR ''0'')
      else if CHR ''a'' \<le> c \<and> c \<le> CHR ''f'' then Some (of_char c - of_char CHR ''a'' + 10)
      else if CHR ''A'' \<le> c \<and> c \<le> CHR ''F'' then Some (of_char c - of_char CHR ''A'' + 10)
      else None)"

fun hex_digits :: "nat \<Rightarrow> string \<Rightarrow> nat option" where
  "hex_digits acc [] = Some acc"
| "hex_digits acc (c # s) = (case hex_digit c of None \<Rightarrow> None | Some d \<Rightarrow> hex_digits (acc * 16 + d) s)"

text \<open>\<open>from_str_radix\<close> for an unsigned type of \<open>w\<close> bits: an optional plus sign, then at least one digit.\<close>

definition from_hex :: "nat \<Rightarrow> string \<Rightarrow> nat option" where
  "from_hex w s =
     (let digits = (case s of c # t \<Rightarrow> if c = CHR ''+'' then t else s | [] \<Rightarrow> s) in
      if digits = [] then None
      else Option.bind (hex_digits 0 digits) (\<lambda>n. if n < 2 ^ w then Some n else None))"

definition hex_to_u64 :: "string \<Rightarrow> u64 res" where
  "hex_to_u64 s = bind_ok (ok_or (UpstreamUnexpected ''bad u64 hex'') (from_hex 64 (strip0x s))) (\<lambda>n. Inr (word_of_nat n))"

definition hex_to_u128 :: "string \<Rightarrow> u128 res" where
  "hex_to_u128 s = bind_ok (ok_or (UpstreamUnexpected ''bad u128 hex'') (from_hex 128 (strip0x s))) (\<lambda>n. Inr (word_of_nat n))"

text \<open>\<open>{:x}\<close>.\<close>

fun hex_of :: "nat \<Rightarrow> string" where
  "hex_of n = (if n < 16 then [''0123456789abcdef'' ! n] else hex_of (n div 16) @ [''0123456789abcdef'' ! (n mod 16)])"

declare hex_of.simps [simp del]

definition quantity :: "nat \<Rightarrow> json" where
  "quantity n = JStr (''0x'' @ hex_of n)"

section \<open>The crate\<close>

datatype evm_call = LockCall bytes bytes u64 | ClaimCall bytes | RefundCall bytes | GetSwapCall bytes

record evm_tx =
  et_chain_id :: u64
  et_nonce :: u64
  et_gas_limit :: u64
  et_max_fee :: u128
  et_priority_fee :: u128
  et_to :: bytes
  et_amount :: nat
  et_input :: bytes

record alloy =
  address_from :: "bytes \<Rightarrow> bytes option"
  parse_addr :: "string \<Rightarrow> bytes option"
  checksummed :: "bytes \<Rightarrow> string"
  abi_encode :: "evm_call \<Rightarrow> bytes"
  abi_swap :: "bytes \<Rightarrow> (bytes \<times> nat \<times> u64 \<times> u8) option"
  sign_envelope :: "bytes \<Rightarrow> evm_tx \<Rightarrow> bytes option"
  locked_signature :: bytes
  address_word :: "bytes \<Rightarrow> bytes"
  u256_from_hex :: "string \<Rightarrow> nat option"
  hex_enc :: "bytes \<Rightarrow> string"
  hex_dec :: "string \<Rightarrow> bytes option"

definition state_from_u8 :: "u8 \<Rightarrow> htlc_state" where
  "state_from_u8 v = (if v = 1 then HtlcLocked else if v = 2 then HtlcClaimed else if v = 3 then HtlcRefunded else HtlcNone)"

definition parse_evm_address :: "alloy \<Rightarrow> string \<Rightarrow> bytes res" where
  "parse_evm_address al s = ok_or (BadParams ''bad EVM address'') (parse_addr al s)"

definition parse_b256 :: "alloy \<Rightarrow> string \<Rightarrow> bytes res" where
  "parse_b256 al s =
     bind_ok (ok_or (BadParams ''bad 32-byte hex'') (hex_dec al (strip0x s))) (\<lambda>b.
     if length b \<noteq> 32 then Inl (BadParams ''expected 32 bytes'') else Inr b)"

definition evm_address :: "alloy \<Rightarrow> bytes \<Rightarrow> bytes res" where
  "evm_address al secret = ok_or (Internal ''invalid BSC secp256k1 secret'') (address_from al secret)"

definition hashlock_from_log :: "alloy \<Rightarrow> json \<Rightarrow> string option" where
  "hashlock_from_log al log =
     Option.bind (Option.bind (jget log ''topics'') as_array) (\<lambda>topics.
     Option.bind (if length topics > 1 then as_str (topics ! 1) else None) (\<lambda>h.
     case parse_b256 al h of Inl _ \<Rightarrow> None | Inr b \<Rightarrow> Some (''0x'' @ hex_enc al b)))"

section \<open>The client\<close>

text \<open>
  A call appends its method and parameters to the calls so far; the transport answers by the number of
  the call, so the same question may be answered differently.
\<close>

type_synonym transport = "nat \<Rightarrow> string \<Rightarrow> json \<Rightarrow> reply"
type_synonym calls = "(string \<times> json) list"
type_synonym 'a client = "transport \<Rightarrow> calls \<Rightarrow> calls \<times> 'a res"

definition client_ret :: "'a res \<Rightarrow> 'a client" where
  "client_ret r = (\<lambda>tr cs. (cs, r))"

definition client_bind :: "'a client \<Rightarrow> ('a \<Rightarrow> 'b client) \<Rightarrow> 'b client" where
  "client_bind m f = (\<lambda>tr cs. case m tr cs of (cs1, Inl d) \<Rightarrow> (cs1, Inl d) | (cs1, Inr x) \<Rightarrow> f x tr cs1)"

definition rpc :: "string \<Rightarrow> json \<Rightarrow> json client" where
  "rpc method params = (\<lambda>tr cs. (cs @ [(method, params)], rpc_result (tr (length cs) method params)))"

text \<open>A call whose result goes through a pure reader.\<close>

definition rpc_read :: "string \<Rightarrow> json \<Rightarrow> (json \<Rightarrow> 'a res) \<Rightarrow> 'a client" where
  "rpc_read method params f = client_bind (rpc method params) (\<lambda>v. client_ret (f v))"

definition pending_nonce :: "alloy \<Rightarrow> bytes \<Rightarrow> u64 client" where
  "pending_nonce al addr =
     rpc_read ''eth_getTransactionCount'' (JArr [JStr (checksummed al addr), JStr ''pending''])
       (\<lambda>v. bind_ok (result_hex v) hex_to_u64)"

definition bnb_balance_of :: "alloy \<Rightarrow> bytes \<Rightarrow> nat client" where
  "bnb_balance_of al addr =
     rpc_read ''eth_getBalance'' (JArr [JStr (checksummed al addr), JStr ''latest''])
       (\<lambda>v. bind_ok (result_hex v) (\<lambda>h. ok_or (UpstreamUnexpected ''bad u256 hex'') (u256_from_hex al (strip0x h))))"

definition bytes_json :: "alloy \<Rightarrow> bytes \<Rightarrow> json" where
  "bytes_json al b = JStr (''0x'' @ hex_enc al b)"

definition eth_call :: "alloy \<Rightarrow> bytes \<Rightarrow> bytes \<Rightarrow> bytes client" where
  "eth_call al to data =
     rpc_read ''eth_call''
       (JArr [JObj [(''to'', JStr (checksummed al to)), (''data'', bytes_json al data)], JStr ''latest''])
       (\<lambda>v. bind_ok (result_hex v) (\<lambda>h. ok_or (UpstreamUnexpected ''eth_call result decode'') (hex_dec al (strip0x h))))"

definition get_swap :: "alloy \<Rightarrow> bytes \<Rightarrow> bytes \<Rightarrow> on_chain_swap client" where
  "get_swap al htlc hlock =
     client_bind (eth_call al htlc (abi_encode al (GetSwapCall hlock))) (\<lambda>out.
     client_ret (bind_ok (ok_or (UpstreamUnexpected ''getSwap decode'') (abi_swap al out)) (\<lambda>(recipient, wei, t, st).
       Inr \<lparr>oc_recipient = recipient, oc_amount = wei, oc_timeout_sec = t, oc_state = state_from_u8 st\<rparr>)))"

definition read_htlc_swap :: "alloy \<Rightarrow> string \<Rightarrow> string \<Rightarrow> on_chain_swap client" where
  "read_htlc_swap al htlc hlock =
     client_bind (client_ret (parse_evm_address al htlc)) (\<lambda>a.
     client_bind (client_ret (parse_b256 al hlock)) (\<lambda>h. get_swap al a h))"

definition latest_block_number :: "u64 client" where
  "latest_block_number = rpc_read ''eth_blockNumber'' (JArr []) (\<lambda>v. bind_ok (result_hex v) hex_to_u64)"

definition latest_block_timestamp :: "u64 client" where
  "latest_block_timestamp =
     rpc_read ''eth_getBlockByNumber'' (JArr [JStr ''latest'', JBool False])
       (\<lambda>v. bind_ok (ok_or (UpstreamUnexpected ''latest block: no timestamp'') (Option.bind (jget v ''timestamp'') as_str)) hex_to_u64)"

definition gas_price :: "u128 client" where
  "gas_price = rpc_read ''eth_gasPrice'' (JArr []) (\<lambda>v. bind_ok (result_hex v) hex_to_u128)"

definition receipt_status_of :: "string \<Rightarrow> bool option client" where
  "receipt_status_of txhash =
     rpc_read ''eth_getTransactionReceipt'' (JArr [JStr txhash])
       (\<lambda>v. if v = JNull then Inr None
            else bind_ok (hex_to_u64 (case Option.bind (jget v ''status'') as_str of Some s \<Rightarrow> s | None \<Rightarrow> ''0x0''))
                   (\<lambda>n. Inr (Some (n = 1))))"

section \<open>Gas and sending\<close>

definition min_priority_fee_wei :: u128 where "min_priority_fee_wei = 1000000000"
definition gas_limit_cap :: u64 where "gas_limit_cap = 800000"
definition sweep_gas_budget :: u64 where "sweep_gas_budget = 60000"
definition fallback_gas_price_wei :: u128 where "fallback_gas_price_wei = 5000000000"

text \<open>The product of a 64-bit and a 128-bit number fits 256 bits, so it never saturates.\<close>

definition sweep_reserve :: "u128 res \<Rightarrow> nat" where
  "sweep_reserve price =
     (let p = (case price of Inr p \<Rightarrow> p | Inl _ \<Rightarrow> fallback_gas_price_wei)
      in unat sweep_gas_budget * unat (saturating_add p min_priority_fee_wei))"

definition sweep_gas_reserve_of :: "nat client" where
  "sweep_gas_reserve_of = (\<lambda>tr cs. case gas_price tr cs of (cs1, r) \<Rightarrow> (cs1, Inr (sweep_reserve r)))"

definition padded_gas :: "u64 \<Rightarrow> u64" where
  "padded_gas est = min (saturating_mul est 125 div 100) gas_limit_cap"

definition estimate_gas_value :: "alloy \<Rightarrow> bytes \<Rightarrow> bytes \<Rightarrow> bytes \<Rightarrow> nat \<Rightarrow> u64 client" where
  "estimate_gas_value al sender to data wei =
     rpc_read ''eth_estimateGas''
       (JArr [JObj [(''from'', JStr (checksummed al sender)), (''to'', JStr (checksummed al to)),
                    (''data'', bytes_json al data), (''value'', quantity wei)]])
       (\<lambda>v. bind_ok (bind_ok (result_hex v) hex_to_u64) (\<lambda>est. Inr (padded_gas est)))"

definition send_call_value :: "alloy \<Rightarrow> u64 \<Rightarrow> bytes \<Rightarrow> bytes \<Rightarrow> bytes \<Rightarrow> nat \<Rightarrow> string client" where
  "send_call_value al chain_id secret to data wei =
     client_bind (client_ret (evm_address al secret)) (\<lambda>sender.
     client_bind (pending_nonce al sender) (\<lambda>nonce.
     client_bind gas_price (\<lambda>price.
     client_bind (estimate_gas_value al sender to data wei) (\<lambda>gas.
     client_bind (client_ret (ok_or (Internal ''BSC sign failed'') (sign_envelope al secret
       \<lparr>et_chain_id = chain_id, et_nonce = nonce, et_gas_limit = gas,
         et_max_fee = saturating_add price min_priority_fee_wei, et_priority_fee = min_priority_fee_wei,
         et_to = to, et_amount = wei, et_input = data\<rparr>))) (\<lambda>raw.
     rpc_read ''eth_sendRawTransaction'' (JArr [bytes_json al raw]) result_hex)))))"

definition send_bnb_to :: "alloy \<Rightarrow> u64 \<Rightarrow> bytes \<Rightarrow> string \<Rightarrow> nat \<Rightarrow> string client" where
  "send_bnb_to al chain_id secret to wei =
     client_bind (client_ret (parse_evm_address al to)) (\<lambda>a. send_call_value al chain_id secret a [] wei)"

definition lock_on_bsc :: "alloy \<Rightarrow> u64 \<Rightarrow> bytes \<Rightarrow> string \<Rightarrow> string \<Rightarrow> string \<Rightarrow> nat \<Rightarrow> u64 \<Rightarrow> string client" where
  "lock_on_bsc al chain_id secret htlc hlock recipient wei timeout_sec =
     client_bind (client_ret (parse_b256 al hlock)) (\<lambda>h.
     client_bind (client_ret (parse_evm_address al recipient)) (\<lambda>r.
     client_bind (client_ret (parse_evm_address al htlc)) (\<lambda>a.
     send_call_value al chain_id secret a (abi_encode al (LockCall h r timeout_sec)) wei)))"

definition claim_on_bsc :: "alloy \<Rightarrow> u64 \<Rightarrow> bytes \<Rightarrow> string \<Rightarrow> string \<Rightarrow> string client" where
  "claim_on_bsc al chain_id secret htlc secret_preimage =
     client_bind (client_ret (parse_b256 al secret_preimage)) (\<lambda>p.
     client_bind (client_ret (parse_evm_address al htlc)) (\<lambda>a.
     send_call_value al chain_id secret a (abi_encode al (ClaimCall p)) 0))"

definition refund_on_bsc :: "alloy \<Rightarrow> u64 \<Rightarrow> bytes \<Rightarrow> string \<Rightarrow> string \<Rightarrow> string client" where
  "refund_on_bsc al chain_id secret htlc hlock =
     client_bind (client_ret (parse_b256 al hlock)) (\<lambda>h.
     client_bind (client_ret (parse_evm_address al htlc)) (\<lambda>a.
     send_call_value al chain_id secret a (abi_encode al (RefundCall h)) 0))"

section \<open>The scan for locks\<close>

definition getlogs_window :: u64 where "getlogs_window = 50000"
definition getlogs_window_min :: u64 where "getlogs_window_min = 2000"
definition getlogs_max_consec_fail :: u32 where "getlogs_max_consec_fail = 5"

definition log_params :: "alloy \<Rightarrow> bytes \<Rightarrow> bytes \<Rightarrow> u64 \<Rightarrow> u64 \<Rightarrow> json" where
  "log_params al contract sender from_block to_block =
     JArr [JObj [(''address'', JStr (checksummed al contract)), (''fromBlock'', quantity (unat from_block)),
       (''toBlock'', quantity (unat to_block)),
       (''topics'', JArr [bytes_json al (locked_signature al), JNull, bytes_json al (address_word al sender)])]]"

definition logs_of :: "alloy \<Rightarrow> reply \<Rightarrow> string list res" where
  "logs_of al r =
     bind_ok (rpc_result r) (\<lambda>v.
     bind_ok (ok_or (UpstreamUnexpected ''eth_getLogs: expected array'') (as_array v)) (\<lambda>xs.
     Inr (List.map_filter (hashlock_from_log al) xs)))"

text \<open>\<open>seen.insert\<close> and \<open>out.push\<close>: the set of what was seen is the set of what is in the list.\<close>

fun add_new :: "string list \<Rightarrow> string list \<Rightarrow> string list" where
  "add_new out [] = out"
| "add_new out (h # hs) = add_new (if h \<in> set out then out else out @ [h]) hs"

text \<open>
  The loop over the windows.  \<open>page n s e\<close> is the answer to the \<open>n\<close>-th page, from block \<open>s\<close> to block \<open>e\<close>.
  The loop has no bound of its own; not returning is \<open>None\<close>.
\<close>

partial_function (option) scan_windows ::
    "(nat \<Rightarrow> u64 \<Rightarrow> u64 \<Rightarrow> string list res) \<Rightarrow> u64 \<Rightarrow> nat \<Rightarrow> u64 \<Rightarrow> u64 \<Rightarrow> u32 \<Rightarrow> string list \<Rightarrow> string list option" where
  "scan_windows page to_block n start window bad out =
     (if \<not> start \<le> to_block then Some out
      else
        let e = min (start + window - 1) to_block in
        case page n start e of
          Inr hs \<Rightarrow>
            scan_windows page to_block (n + 1) (e + 1)
              (if window < getlogs_window then min (window * 2) getlogs_window else window) 0 (add_new out hs)
        | Inl d \<Rightarrow>
            if window > getlogs_window_min then
              scan_windows page to_block (n + 1) start (max (window div 2) getlogs_window_min) bad out
            else if bad + 1 \<ge> getlogs_max_consec_fail then Some out
            else scan_windows page to_block (n + 1) (e + 1) window (bad + 1) out)"

definition locked_hashlocks_by_sender ::
    "alloy \<Rightarrow> transport \<Rightarrow> string \<Rightarrow> bytes \<Rightarrow> u64 \<Rightarrow> u64 \<Rightarrow> string list res option" where
  "locked_hashlocks_by_sender al tr contract sender from_block to_block =
     (case parse_evm_address al contract of
        Inl d \<Rightarrow> Some (Inl d)
      | Inr c \<Rightarrow>
          map_option Inr (scan_windows (\<lambda>n s e. logs_of al (tr n ''eth_getLogs'' (log_params al c sender s e)))
                            to_block 0 from_block getlogs_window 0 []))"

section \<open>What a transaction may cost\<close>

text \<open>A sweep keeps enough back for its own gas: at the price it was computed with, the reserve covers every
  transfer whose estimate is at most 48,000, more than twice what a plain transfer needs.\<close>

lemma padded_gas_bounds: "padded_gas est \<le> gas_limit_cap" "unat est \<le> 48000 \<Longrightarrow> unat (padded_gas est) \<le> 60000"
proof -
  show "padded_gas est \<le> gas_limit_cap" by (simp add: padded_gas_def)
  assume "unat est \<le> 48000"
  then have "unat est * 125 div 100 \<le> 60000" and "unat est * 125 < 2 ^ 64" by simp_all
  then have "unat (saturating_mul est 125 div 100) \<le> 60000" by (simp add: saturating_mul_def unat_div unat_word_ariths)
  then show "unat (padded_gas est) \<le> 60000" by (auto simp: padded_gas_def min_def gas_limit_cap_def word_le_nat_alt)
qed

lemma reserve_covers_transfer:
  "unat est \<le> 48000 \<Longrightarrow>
     unat (padded_gas est) * unat (saturating_add price min_priority_fee_wei) \<le> sweep_reserve (Inr price)"
  using padded_gas_bounds(2) by (auto simp: sweep_reserve_def sweep_gas_budget_def)

section \<open>The scan ends and misses nothing\<close>

text \<open>A window between its bounds, and the block it ends with.\<close>

definition window_ok :: "u64 \<Rightarrow> bool" where
  "window_ok w \<longleftrightarrow> getlogs_window_min \<le> w \<and> w \<le> getlogs_window"

definition window_end :: "u64 \<Rightarrow> u64 \<Rightarrow> u64 \<Rightarrow> u64" where
  "window_end to_block start window = min (start + window - 1) to_block"

lemma window_steps:
  assumes "window_ok w"
  shows "window_ok (if w < getlogs_window then min (w * 2) getlogs_window else w)"
    "window_ok (max (w div 2) getlogs_window_min)"
    "w > getlogs_window_min \<Longrightarrow> unat (max (w div 2) getlogs_window_min) < unat w"
proof -
  have w: "2000 \<le> unat w" "unat w \<le> 50000"
    using assms by (simp_all add: window_ok_def word_le_nat_alt getlogs_window_def getlogs_window_min_def)
  then have "unat (w * 2) = unat w * 2" by (simp add: unat_word_ariths)
  then show "window_ok (if w < getlogs_window then min (w * 2) getlogs_window else w)"
    using w by (auto simp: window_ok_def getlogs_window_def getlogs_window_min_def word_le_nat_alt word_less_nat_alt min_def)
  show "window_ok (max (w div 2) getlogs_window_min)"
    using w by (auto simp: window_ok_def getlogs_window_def getlogs_window_min_def word_le_nat_alt max_def unat_div)
  assume "w > getlogs_window_min"
  then show "unat (max (w div 2) getlogs_window_min) < unat w"
    using w by (auto simp: getlogs_window_min_def word_less_nat_alt word_le_nat_alt max_def unat_div)
qed

lemma window_end_facts:
  assumes "unat to_block + 50000 < 2 ^ 64" "window_ok w" "start \<le> to_block"
  shows "start \<le> window_end to_block start w" "window_end to_block start w \<le> to_block"
    "unat (window_end to_block start w + 1) = unat (window_end to_block start w) + 1"
    "unat (window_end to_block start w) < unat start + unat w"
    "{start..to_block} = {start..window_end to_block start w} \<union> {window_end to_block start w + 1..to_block}"
proof -
  have w: "2000 \<le> unat w" "unat w \<le> 50000"
    using assms(2) by (simp_all add: window_ok_def word_le_nat_alt getlogs_window_def getlogs_window_min_def)
  have s: "unat start \<le> unat to_block" using assms(3) by (simp add: word_le_nat_alt)
  have "unat (start + w) = unat start + unat w" using s w assms(1) by (intro unat_add_lem [THEN iffD1]) simp
  moreover have "1 \<le> start + w" using calculation w by (simp add: word_le_nat_alt)
  ultimately have e: "unat (start + w - 1) = unat start + unat w - 1" by (simp add: unat_sub)
  then show le: "start \<le> window_end to_block start w" and to: "window_end to_block start w \<le> to_block"
    using s w by (auto simp: window_end_def word_le_nat_alt min_def)
  show "unat (window_end to_block start w) < unat start + unat w"
    using e s w by (auto simp: window_end_def word_le_nat_alt min_def)
  have "unat (window_end to_block start w) + 1 < 2 ^ 64" using to assms(1) by (simp add: word_le_nat_alt)
  then show succ: "unat (window_end to_block start w + 1) = unat (window_end to_block start w) + 1"
    by (simp add: unat_word_ariths)
  show "{start..to_block} = {start..window_end to_block start w} \<union> {window_end to_block start w + 1..to_block}"
    using le to succ by (auto simp: word_le_nat_alt)
qed

lemma set_add_new [simp]: "set (add_new out hs) = set out \<union> set hs"
  by (induction hs arbitrary: out) auto

lemma distinct_add_new: "distinct out \<Longrightarrow> distinct (add_new out hs)"
  by (induction hs arbitrary: out) auto

text \<open>What is known of the answers: a page that is answered holds exactly the hashlocks of its blocks.\<close>

definition pages_true :: "(u64 \<Rightarrow> string set) \<Rightarrow> (nat \<Rightarrow> u64 \<Rightarrow> u64 \<Rightarrow> string list res) \<Rightarrow> bool" where
  "pages_true logs page \<longleftrightarrow> (\<forall>n s e hs. s \<le> e \<longrightarrow> page n s e = Inr hs \<longrightarrow> set hs = (\<Union>b \<in> {s..e}. logs b))"

text \<open>A node that answers every page of at most 2000 blocks.\<close>

definition small_pages_answered :: "(nat \<Rightarrow> u64 \<Rightarrow> u64 \<Rightarrow> string list res) \<Rightarrow> bool" where
  "small_pages_answered page \<longleftrightarrow> (\<forall>n s e. s \<le> e \<longrightarrow> unat e < unat s + 2000 \<longrightarrow> (\<exists>hs. page n s e = Inr hs))"

lemma scan_returns:
  assumes "pages_true logs page" "unat to_block + 50000 < 2 ^ 64" "window_ok window" "distinct out"
  shows "\<exists>hs. scan_windows page to_block n start window bad out = Some hs \<and> distinct hs
     \<and> set hs \<subseteq> set out \<union> (\<Union>b \<in> {start..to_block}. logs b)
     \<and> (small_pages_answered page \<longrightarrow> set hs = set out \<union> (\<Union>b \<in> {start..to_block}. logs b))"
  using assms(3,4)
proof (induction "(unat to_block + 1 - unat start) * 100000 + unat window" arbitrary: n start window bad out rule: less_induct)
  case less
  note unfold = scan_windows.simps [of page to_block n start window bad out, folded window_end_def]
  show ?case
  proof (cases "start \<le> to_block")
    case False
    then show ?thesis using less.prems(2) by (simp add: unfold)
  next
    case True
    let ?e = "window_end to_block start window"
    note e = window_end_facts [OF assms(2) less.prems(1) True]
    have small: "unat w \<le> 50000" if "window_ok w" for w
      using that by (simp add: window_ok_def word_le_nat_alt getlogs_window_def)
    have down: "(unat to_block + 1 - unat (?e + 1)) * 100000 + unat w
        < (unat to_block + 1 - unat start) * 100000 + unat window" if "window_ok w" for w
      using e(1,2) small [OF that] by (simp add: e(3) word_le_nat_alt)
    show ?thesis
    proof (cases "page n start ?e")
      case (Inr hs)
      let ?w = "if window < getlogs_window then min (window * 2) getlogs_window else window"
      have "set hs = (\<Union>b \<in> {start..?e}. logs b)" using assms(1) Inr e(1) by (simp add: pages_true_def)
      then show ?thesis
        using less.hyps [OF down [OF window_steps(1) [OF less.prems(1)]] window_steps(1) [OF less.prems(1)]
            distinct_add_new [OF less.prems(2), of hs], of "n + 1" 0] True Inr
        by (simp add: unfold Let_def e(5) Un_assoc)
    next
      case (Inl d)
      show ?thesis
      proof (cases "window > getlogs_window_min")
        case halve: True
        have "(unat to_block + 1 - unat start) * 100000 + unat (max (window div 2) getlogs_window_min)
            < (unat to_block + 1 - unat start) * 100000 + unat window"
          using window_steps(3) [OF less.prems(1) halve] by simp
        from less.hyps [OF this window_steps(2) [OF less.prems(1)] less.prems(2), of "n + 1" bad]
        show ?thesis using True Inl halve by (simp add: unfold Let_def)
      next
        case False
        have "unat window = 2000"
          using False less.prems(1) by (simp add: window_ok_def getlogs_window_min_def word_le_nat_alt word_less_nat_alt)
        then have poor: "\<not> small_pages_answered page"
          using Inl e(1,4) unfolding small_pages_answered_def by (metis sum.distinct(1))
        show ?thesis
        proof (cases "bad + 1 \<ge> getlogs_max_consec_fail")
          case True
          then show ?thesis using Inl False \<open>start \<le> to_block\<close> less.prems(2) poor by (simp add: unfold Let_def)
        next
          case go_on: False
          show ?thesis
            using less.hyps [OF down [OF less.prems(1)] less.prems, of "n + 1" "bad + 1"] True Inl False go_on poor
            by (simp add: unfold Let_def e(5)) blast
        qed
      qed
    qed
  qed
qed


text \<open>A node whose pages all hold one lock, twice.\<close>

definition sample_alloy :: alloy where
  "sample_alloy = \<lparr>address_from = Some, parse_addr = (\<lambda>_. Some [7]), checksummed = (\<lambda>_. ''0xA''), abi_encode = (\<lambda>_. []),
     abi_swap = (\<lambda>_. None), sign_envelope = (\<lambda>_ _. Some []), locked_signature = [], address_word = (\<lambda>b. b),
     u256_from_hex = (\<lambda>_. Some 0), hex_enc = (\<lambda>b. replicate 64 CHR ''a''), hex_dec = (\<lambda>s. Some (replicate 32 1))\<rparr>"

definition sample_transport :: transport where
  "sample_transport n method params = Reply (JObj [(''result'', JArr (replicate 2 (JObj [(''topics'',
     JArr [JStr ''0x01'', JStr ''0x02''])])))])"


end
