(* ===== verification/Upstream.thy ===== *)
theory Upstream imports Json Prelude begin

text \<open>
  The client of the EXFER node (\<open>src/upstream/mod.rs\<close>): the list of nodes, one request, the sweeps over
  all nodes with their back-off, the calls that tolerate an older node, and the broadcast with the
  classification of its error.  HTTP is a parameter: what a node answers to a request.  The decoding of a
  result into a typed response is done by \<open>serde\<close> and is a parameter too.
\<close>

section \<open>Configuration\<close>

record retry_policy =
  attempts :: u32
  backoff_ms :: u64

definition no_retry :: retry_policy where
  "no_retry = \<lparr>attempts = 1, backoff_ms = 0\<rparr>"

definition default_retry :: retry_policy where
  "default_retry = \<lparr>attempts = 6, backoff_ms = 250\<rparr>"

fun split_at :: "char \<Rightarrow> string \<Rightarrow> string list" where
  "split_at c [] = [[]]"
| "split_at c (x # xs) = (if x = c then [] # split_at c xs
     else case split_at c xs of p # ps \<Rightarrow> (x # p) # ps | [] \<Rightarrow> [[x]])"

definition nodes_of :: "string \<Rightarrow> string list res" where
  "nodes_of urls =
     (let nodes = filter (\<lambda>s. s \<noteq> []) (map trim (split_at CHR '','' urls)) in
      if nodes = [] then Inl (Internal ''no upstream node URLs configured'') else Inr nodes)"

text \<open>\<open>Config::broadcast_node_urls\<close>: trimmed, without the primary, each once.\<close>

fun broadcast_urls :: "string \<Rightarrow> string list \<Rightarrow> string list \<Rightarrow> string list" where
  "broadcast_urls primary [] out = out"
| "broadcast_urls primary (raw # raws) out =
     (let u = trim raw in
      if u = [] \<or> u = trim primary \<or> u \<in> set out then broadcast_urls primary raws out
      else broadcast_urls primary raws (out @ [u]))"

definition broadcast_node_urls :: "string \<Rightarrow> string list \<Rightarrow> string list" where
  "broadcast_node_urls primary raws = broadcast_urls primary raws []"

section \<open>One request\<close>

text \<open>What HTTP makes of it: no answer, a status other than success, a body that is no JSON, or a value.\<close>

datatype node_reply = NoAnswer | BadStatus nat | BadBody | Answer json

definition call_one :: "node_reply \<Rightarrow> json res" where
  "call_one r =
     (case r of
        NoAnswer \<Rightarrow> Inl (UpstreamUnreachable '''')
      | BadStatus code \<Rightarrow>
          (if 500 \<le> code \<and> code < 600 then Inl (UpstreamUnreachable ''http'') else Inl (UpstreamUnexpected ''http''))
      | BadBody \<Rightarrow> Inl (UpstreamUnexpected ''decode'')
      | Answer v \<Rightarrow>
          (case jget v ''error'' of
             Some err \<Rightarrow> Inl (rpc_error err)
           | None \<Rightarrow> ok_or (UpstreamUnexpected ''response missing result'') (jget v ''result'')))"

fun unreachable :: "json res \<Rightarrow> bool" where
  "unreachable (Inl (UpstreamUnreachable m)) = True"
| "unreachable _ = False"

section \<open>A call\<close>

text \<open>
  One sweep asks the nodes in the given order until one gives a definite answer.  The results are the
  nodes that were asked and either the answer or the prior transport error.
\<close>

fun sweep :: "(nat \<Rightarrow> json res) \<Rightarrow> nat list \<Rightarrow> error option \<Rightarrow> nat list \<times> (json res + error option)" where
  "sweep f [] prior = ([], Inr prior)"
| "sweep f (i # is) prior =
     (if unreachable (f i) then
        (case sweep f is (case f i of Inl d \<Rightarrow> Some d | Inr _ \<Rightarrow> prior) of (asked, r) \<Rightarrow> (i # asked, r))
      else ([i], Inl (f i)))"

definition wait_ms :: "retry_policy \<Rightarrow> nat \<Rightarrow> u64" where
  "wait_ms p attempt = min (saturating_mul (backoff_ms p) (push_bit (min attempt 5) 1)) 4000"

text \<open>
  The attempts that are left.  The results are the requests, by attempt and node, the waits between the
  attempts, and the outcome.
\<close>

fun call_attempts ::
    "retry_policy \<Rightarrow> (nat \<Rightarrow> nat \<Rightarrow> json res) \<Rightarrow> nat list \<Rightarrow> nat list \<Rightarrow> error option
     \<Rightarrow> (nat \<times> nat) list \<times> u64 list \<times> json res" where
  "call_attempts p f order [] prior =
     ([], [], Inl (case prior of Some e \<Rightarrow> e | None \<Rightarrow> Internal ''no nodes tried''))"
| "call_attempts p f order (k # ks) prior =
     (case sweep (f k) order prior of
        (asked, Inl r) \<Rightarrow> (map (Pair k) asked, [], r)
      | (asked, Inr prior') \<Rightarrow>
          (case call_attempts p f order ks prior' of (reqs, waits, r) \<Rightarrow>
             (map (Pair k) asked @ reqs, (if ks = [] then [] else wait_ms p k # waits), r)))"

text \<open>The nodes from the cursor on; the cursor moves by one for each call and wraps.\<close>

definition node_order :: "u64 \<Rightarrow> nat \<Rightarrow> nat list" where
  "node_order cursor n = map (\<lambda>offset. (unat cursor mod n + offset) mod n) [0..<n]"

definition node_call ::
    "retry_policy \<Rightarrow> nat \<Rightarrow> (nat \<Rightarrow> nat \<Rightarrow> node_reply) \<Rightarrow> u64 \<Rightarrow> u64 \<times> (nat \<times> nat) list \<times> u64 list \<times> json res" where
  "node_call p n replies cursor =
     (cursor + 1,
      call_attempts p (\<lambda>k i. call_one (replies k i)) (node_order cursor n) [0..<unat (max (attempts p) 1)] None)"

section \<open>Typed calls\<close>

definition typed :: "(json \<Rightarrow> 'a option) \<Rightarrow> json res \<Rightarrow> 'a res" where
  "typed decode r = bind_ok r (\<lambda>v. ok_or (UpstreamUnexpected '''') (decode v))"

text \<open>The variants for nodes that lack a method (\<open>get_address_mempool_opt\<close> and its batched kin).\<close>

definition tolerant :: "'a res \<Rightarrow> 'a option res" where
  "tolerant r =
     (case r of
        Inr x \<Rightarrow> Inr (Some x)
      | Inl (UpstreamRpc code m) \<Rightarrow> if code = - 32601 then Inr None else Inl (UpstreamRpc code m)
      | Inl d \<Rightarrow> Inl d)"

fun contains :: "string \<Rightarrow> string \<Rightarrow> bool" where
  "contains p [] \<longleftrightarrow> p = []"
| "contains p (x # xs) \<longleftrightarrow> take (length p) (x # xs) = p \<or> contains p xs"

definition says_not_found :: "string \<Rightarrow> bool" where
  "says_not_found message \<longleftrightarrow> contains ''not found'' (lower message) \<or> contains ''unknown transaction'' (lower message)"

definition get_transaction_opt :: "'a res \<Rightarrow> 'a option res" where
  "get_transaction_opt r =
     (case r of
        Inr x \<Rightarrow> Inr (Some x)
      | Inl (UpstreamRpc code m) \<Rightarrow>
          if code = - 32601 \<or> says_not_found m then Inr None else Inl (UpstreamRpc code m)
      | Inl (UpstreamUnexpected m) \<Rightarrow> if says_not_found m then Inr None else Inl (UpstreamUnexpected m)
      | Inl d \<Rightarrow> Inl d)"

section \<open>The broadcast\<close>

definition double_spend_phrases :: "string list" where
  "double_spend_phrases = [''double spend'', ''double-spend'', ''already spent'', ''already in chain'', ''input already'',
     ''missing input'', ''conflict'', ''txn-mempool-conflict'']"

definition classify_send_error :: "error \<Rightarrow> error" where
  "classify_send_error e =
     (case e of
        UpstreamRpc code m \<Rightarrow>
          if \<exists>p \<in> set double_spend_phrases. contains p (lower m) then DoubleSpendRejected m else e
      | _ \<Rightarrow> e)"

definition map_error :: "(error \<Rightarrow> error) \<Rightarrow> 'a res \<Rightarrow> 'a res" where
  "map_error f r = (case r of Inl d \<Rightarrow> Inl (f d) | Inr x \<Rightarrow> Inr x)"

text \<open>The answer, and the nodes the same bytes are sent to afterwards, whose outcome is ignored.\<close>

definition send_raw_transaction ::
    "(json \<Rightarrow> string option) \<Rightarrow> string list \<Rightarrow> string \<Rightarrow> json res \<Rightarrow> (string \<times> string) list \<times> string res" where
  "send_raw_transaction decode extra tx_hex answer =
     (case typed decode (map_error classify_send_error answer) of
        Inl d \<Rightarrow> ([], Inl d)
      | Inr tx_id \<Rightarrow> (map (\<lambda>url. (url, tx_hex)) extra, Inr tx_id))"

section \<open>Pending sums\<close>

text \<open>\<open>sum\<close> of \<open>u64\<close> values wraps in the release build.\<close>

record mempool_entry =
  me_received :: "u64 list"
  me_spent :: "u64 list"

definition pending_received :: "mempool_entry list \<Rightarrow> u64" where
  "pending_received txs = sum_list (concat (map me_received txs))"

definition pending_spent :: "mempool_entry list \<Rightarrow> u64" where
  "pending_spent txs = sum_list (concat (map me_spent txs))"

section \<open>What a call asks and answers\<close>

text \<open>All the requests a call may make, sweep by sweep.\<close>

definition all_requests :: "nat list \<Rightarrow> nat list \<Rightarrow> (nat \<times> nat) list" where
  "all_requests ks order = concat (map (\<lambda>k. map (Pair k) order) ks)"

lemma all_requests_Cons [simp]: "all_requests (k # ks) order = map (Pair k) order @ all_requests ks order"
  by (simp add: all_requests_def)

lemma unreachable_elim: "unreachable r \<Longrightarrow> (\<And>m. r = Inl (UpstreamUnreachable m) \<Longrightarrow> P) \<Longrightarrow> P"
  by (cases r rule: unreachable.cases) auto

lemma sweep_spec:
  assumes "sweep f order prior = (asked, r)"
  shows "\<exists>rest. order = asked @ rest \<and> (\<forall>i \<in> set (butlast asked). unreachable (f i))
    \<and> (case r of
         Inl x \<Rightarrow> asked \<noteq> [] \<and> x = f (last asked) \<and> \<not> unreachable x
       | Inr e \<Rightarrow> rest = [] \<and> (\<forall>i \<in> set asked. unreachable (f i))
           \<and> (if asked = [] then e = prior else \<exists>d. e = Some d \<and> f (last asked) = Inl d))"
  using assms
proof (induction order arbitrary: prior asked)
  case (Cons i order)
  show ?case
  proof (cases "unreachable (f i)")
    case False
    then show ?thesis using Cons.prems by auto
  next
    case True
    then obtain m where m: "f i = Inl (UpstreamUnreachable m)" by (rule unreachable_elim)
    obtain asked' where s: "sweep f order (Some (UpstreamUnreachable m)) = (asked', r)" "asked = i # asked'"
      using Cons.prems m True by (auto split: prod.splits)
    from Cons.IH [OF s(1)] show ?thesis using s(2) m by (auto split: sum.splits)
  qed
qed auto

lemma attempts_spec:
  assumes "call_attempts p f order ks prior = (reqs, waits, r)" "order \<noteq> []" "ks \<noteq> []"
  shows "\<exists>rest. all_requests ks order = reqs @ rest \<and> reqs \<noteq> []
    \<and> (\<forall>(k, i) \<in> set (butlast reqs). unreachable (f k i)) \<and> r = (case last reqs of (k, i) \<Rightarrow> f k i)
    \<and> (unreachable r \<longrightarrow> rest = []) \<and> length waits < length ks \<and> (\<forall>w \<in> set waits. w \<le> 4000)"
  using assms
proof (induction ks arbitrary: prior reqs waits)
  case (Cons k ks)
  obtain asked q where s: "sweep (f k) order prior = (asked, q)" by (cases "sweep (f k) order prior")
  from sweep_spec [OF s] obtain rest where rest: "order = asked @ rest" "\<forall>i \<in> set (butlast asked). unreachable (f k i)"
    and q: "case q of Inl x \<Rightarrow> asked \<noteq> [] \<and> x = f k (last asked) \<and> \<not> unreachable x
       | Inr e \<Rightarrow> rest = [] \<and> (\<forall>i \<in> set asked. unreachable (f k i))
           \<and> (if asked = [] then e = prior else \<exists>d. e = Some d \<and> f k (last asked) = Inl d)"
    by blast
  show ?case
  proof (cases q)
    case (Inl x)
    then have "reqs = map (Pair k) asked" "waits = []" "r = x" using Cons.prems(1) s by simp_all
    then show ?thesis using q Inl rest by (auto simp: last_map map_butlast [symmetric])
  next
    case (Inr e)
    then have all: "asked = order" "\<forall>i \<in> set order. unreachable (f k i)" using q rest(1) by auto
    obtain d where e: "e = Some d" "f k (last order) = Inl d" using q Inr all(1) Cons.prems(2) by auto
    obtain reqs' waits' where c: "call_attempts p f order ks e = (reqs', waits', r)"
      "reqs = map (Pair k) order @ reqs'" "waits = (if ks = [] then [] else wait_ms p k # waits')"
      using Cons.prems(1) s Inr all(1) by (auto split: prod.splits)
    show ?thesis
    proof (cases "ks = []")
      case True
      then show ?thesis using c e all(2) Cons.prems(2)
        by (auto simp: all_requests_def last_map map_butlast [symmetric] dest: in_set_butlastD)
    next
      case False
      from Cons.IH [OF c(1) Cons.prems(2) False] show ?thesis
        using c(2,3) all(2) False by (auto simp: butlast_append wait_ms_def)
    qed
  qed
qed simp

lemma node_order_all: "n > 0 \<Longrightarrow> set (node_order cursor n) = {..<n} \<and> distinct (node_order cursor n)"
proof -
  assume n: "n > 0"
  let ?s = "unat cursor mod n"
  have inj: "inj_on (\<lambda>k. (?s + k) mod n) {..<n}"
  proof (rule inj_onI)
    fix a b assume ab: "a \<in> {..<n}" "b \<in> {..<n}" "(?s + a) mod n = (?s + b) mod n"
    have wrap: "(?s + k) mod n = (if ?s + k < n then ?s + k else ?s + k - n)" if "k < n" for k
    proof (cases "?s + k < n")
      case False
      moreover have "?s + k - n < n" using that mod_less_divisor [OF n, of "unat cursor"] by linarith
      ultimately show ?thesis by (simp add: le_mod_geq)
    qed simp
    show "a = b" using ab wrap [of a] wrap [of b] mod_less_divisor [OF n, of "unat cursor"] by (auto split: if_splits)
  qed
  then have d: "distinct (node_order cursor n)"
    by (simp add: node_order_def distinct_map atLeast_upt lessThan_atLeast0)
  moreover have "set (node_order cursor n) \<subseteq> {..<n}" using n by (auto simp: node_order_def)
  moreover have "card (set (node_order cursor n)) = n" using distinct_card [OF d] by (simp add: node_order_def)
  ultimately show ?thesis by (simp add: card_subset_eq)
qed


text \<open>Two nodes, of which only one gives an answer, and in the second sweep.\<close>

definition sample_replies :: "nat \<Rightarrow> nat \<Rightarrow> node_reply" where
  "sample_replies k i = (if k = 1 \<and> i = 0 then Answer (JObj [(''result'', JInt 7)]) else NoAnswer)"

lemma sample_call:
  "node_call default_retry 2 sample_replies 5 = (6, [(0, 1), (0, 0), (1, 1), (1, 0)], [250], Inr (JInt 7))"
proof -
  have "unat (max (attempts default_retry) 1) = 6" by code_simp
  moreover have "node_order 5 2 = [1, 0]" by (simp add: node_order_def upt_rec)
  moreover have "call_attempts default_retry (\<lambda>k i. call_one (sample_replies k i)) [1, 0] [0..<6] None
      = ([(0, 1), (0, 0), (1, 1), (1, 0)], [250], Inr (JInt 7))"
    by (simp add: upt_rec call_one_def sample_replies_def wait_ms_def default_retry_def saturating_mul_def min_def
        word_le_nat_alt)
  ultimately show ?thesis unfolding node_call_def by simp
qed


end
