(* ===== verification/Sealed.thy ===== *)
theory Sealed imports Errors begin

text \<open>
  The sealed files of the keystore (\<open>src/store/sealed.rs\<close>): magic, version, salt and nonce in front of the
  ciphertext.  Argon2id and ChaCha20-Poly1305 are parameters; the salt and the nonce, which the code draws
  from the operating system, are arguments.
\<close>

record aead =
  argon2id :: "bytes \<Rightarrow> bytes \<Rightarrow> bytes option"
  encrypt :: "bytes \<Rightarrow> bytes \<Rightarrow> bytes \<Rightarrow> bytes \<Rightarrow> bytes option"
  decrypt :: "bytes \<Rightarrow> bytes \<Rightarrow> bytes \<Rightarrow> bytes \<Rightarrow> bytes option"

definition sealed_magic :: bytes where "sealed_magic = [0x57, 0x44, 0x56, 0x31]"
definition sealed_version :: u8 where "sealed_version = 1"
definition salt_len :: nat where "salt_len = 16"
definition nonce_len :: nat where "nonce_len = 12"
definition tag_len :: nat where "tag_len = 16"
definition header_len :: nat where "header_len = 4 + 1 + salt_len + nonce_len"

definition derive_kek :: "aead \<Rightarrow> bytes \<Rightarrow> bytes \<Rightarrow> bytes res" where
  "derive_kek a passphrase salt = ok_or (KeystoreLocked ''argon2id derive failed'') (argon2id a passphrase salt)"

definition seal_with :: "aead \<Rightarrow> bytes \<Rightarrow> bytes \<Rightarrow> bytes \<Rightarrow> bytes \<Rightarrow> bytes \<Rightarrow> bytes res" where
  "seal_with a salt nonce passphrase aad payload =
     bind_ok (derive_kek a passphrase salt) (\<lambda>kek.
     bind_ok (ok_or (Internal ''chacha20poly1305 encrypt'') (encrypt a kek nonce aad payload)) (\<lambda>ct.
     Inr (sealed_magic @ [sealed_version] @ salt @ nonce @ ct)))"

definition unseal :: "aead \<Rightarrow> bytes \<Rightarrow> bytes \<Rightarrow> bytes \<Rightarrow> bytes res" where
  "unseal a passphrase aad blob =
     (if length blob < header_len + tag_len then Inl (KeystoreLocked ''sealed blob too short'')
      else if take 4 blob \<noteq> sealed_magic then Inl (KeystoreLocked ''sealed blob magic mismatch'')
      else if blob ! 4 \<noteq> sealed_version then Inl (KeystoreLocked ''unsupported keystore version'')
      else let salt = take salt_len (drop 5 blob);
               nonce = take nonce_len (drop (5 + salt_len) blob);
               ct = drop header_len blob in
        bind_ok (derive_kek a passphrase salt) (\<lambda>kek.
        ok_or (KeystoreLocked ''decryption failed'') (decrypt a kek nonce aad ct)))"

section \<open>The cipher\<close>

text \<open>
  What the code relies on: the key derivation is total and no two passphrases share a key, encryption is
  total and appends a tag, and decryption returns the one message that encryption under the same key, nonce
  and associated data makes the ciphertext from, and fails on every other input.
\<close>

definition aead_ok :: "aead \<Rightarrow> bool" where
  "aead_ok a \<longleftrightarrow>
     (\<forall>p s. \<exists>k. argon2id a p s = Some k) \<and>
     (\<forall>p q s. argon2id a p s = argon2id a q s \<longrightarrow> p = q) \<and>
     (\<forall>k n d m. \<exists>c. encrypt a k n d m = Some c \<and> tag_len \<le> length c) \<and>
     (\<forall>k n d c m. decrypt a k n d c = Some m \<longleftrightarrow> encrypt a k n d m = Some c) \<and>
     (\<forall>k n d m k' d' m'. encrypt a k n d m = encrypt a k' n d' m' \<longrightarrow> k = k' \<and> d = d' \<and> m = m')"

lemma aead_okD:
  assumes "aead_ok a"
  shows "\<exists>k. argon2id a p s = Some k" "argon2id a p s = argon2id a q s \<Longrightarrow> p = q"
    "\<exists>c. encrypt a k n d m = Some c \<and> tag_len \<le> length c"
    "decrypt a k n d c = Some m \<longleftrightarrow> encrypt a k n d m = Some c"
    "encrypt a k n d m = encrypt a k' n d' m' \<Longrightarrow> k = k' \<and> d = d' \<and> m = m'"
  by (insert assms, unfold aead_ok_def) (elim conjE, meson)+

lemma seal_total: "aead_ok a \<Longrightarrow> \<exists>b. seal_with a salt nonce p aad m = Inr b"
proof -
  assume a: "aead_ok a"
  obtain k where k: "argon2id a p salt = Some k" using aead_okD(1) [OF a] by blast
  moreover obtain c where "encrypt a k nonce aad m = Some c" using aead_okD(3) [OF a] by blast
  ultimately show ?thesis by (simp add: seal_with_def derive_kek_def)
qed

lemma seal_parts:
  assumes "aead_ok a" "seal_with a salt nonce p aad m = Inr b" "length salt = salt_len" "length nonce = nonce_len"
  obtains k c where "argon2id a p salt = Some k" "encrypt a k nonce aad m = Some c"
    "b = sealed_magic @ [sealed_version] @ salt @ nonce @ c" "tag_len \<le> length c"
    "\<And>q d. unseal a q d b = bind_ok (derive_kek a q salt) (\<lambda>k. ok_or (KeystoreLocked ''decryption failed'') (decrypt a k nonce d c))"
proof -
  obtain k c where kc: "argon2id a p salt = Some k" "encrypt a k nonce aad m = Some c"
    "b = sealed_magic @ [sealed_version] @ salt @ nonce @ c"
    using assms(2) by (auto simp: seal_with_def derive_kek_def result_simps)
  moreover have tag: "tag_len \<le> length c" using aead_okD(3) [OF assms(1), of k nonce aad m] kc(2) by auto
  moreover have "unseal a q d b = bind_ok (derive_kek a q salt) (\<lambda>k. ok_or (KeystoreLocked ''decryption failed'') (decrypt a k nonce d c))" for q d
    using tag assms(3,4) kc(3) by (simp add: unseal_def header_len_def sealed_magic_def salt_len_def nonce_len_def Let_def)
  ultimately show ?thesis by (rule that)
qed

lemma unseal_sealed:
  assumes "aead_ok a" "seal_with a salt nonce p aad m = Inr b" "length salt = salt_len" "length nonce = nonce_len"
  shows "unseal a q d b = (if q = p \<and> d = aad then Inr m else Inl (KeystoreLocked ''decryption failed''))"
proof -
  obtain k c where kc: "argon2id a p salt = Some k" "encrypt a k nonce aad m = Some c"
    and u: "\<And>q d. unseal a q d b = bind_ok (derive_kek a q salt)
              (\<lambda>k. ok_or (KeystoreLocked ''decryption failed'') (decrypt a k nonce d c))"
    using seal_parts [OF assms] by metis
  obtain k' where k': "argon2id a q salt = Some k'" using aead_okD(1) [OF assms(1)] by blast
  have same: "k' = k \<longleftrightarrow> q = p" using aead_okD(2) [OF assms(1), of p salt q] k' kc(1) by auto
  have "decrypt a k' nonce d c = (if q = p \<and> d = aad then Some m else None)"
  proof (cases "decrypt a k' nonce d c")
    case None
    then have "encrypt a k' nonce d m \<noteq> Some c" by (simp add: aead_okD(4) [OF assms(1), symmetric])
    then show ?thesis using kc(2) same None by auto
  next
    case (Some m')
    then have "encrypt a k' nonce d m' = encrypt a k nonce aad m" using aead_okD(4) [OF assms(1)] kc(2) by simp
    then have "k' = k \<and> d = aad \<and> m' = m" by (rule aead_okD(5) [OF assms(1)])
    then show ?thesis using Some same by simp
  qed
  then show ?thesis using u [of q d] k' by (simp add: derive_kek_def)
qed

text \<open>what is sealed under a passphrase and a purpose is read back under the same two, and a sealed blob
  opens to the same payload or not at all: another passphrase, or the tag of another kind of file, is answered
  by the error that locks the keystore.\<close>

theorem unseal_exactly_what_was_sealed:
  assumes "aead_ok a" "seal_with a salt nonce p aad m = Inr b" "length salt = salt_len" "length nonce = nonce_len"
  shows "unseal a q d b = (if q = p \<and> d = aad then Inr m else Inl (KeystoreLocked ''decryption failed''))"
  by (rule unseal_sealed [OF assms])

section \<open>An instance\<close>

text \<open>Fields in front of the message that mark where each ends, so no two inputs give one ciphertext.\<close>

fun framed :: "bytes \<Rightarrow> bytes" where
  "framed [] = [0]"
| "framed (b # bs) = 1 # b # framed bs"

lemma framed_cut: "framed bs @ r = framed cs @ s \<longleftrightarrow> bs = cs \<and> r = s"
  by (induction bs arbitrary: cs; case_tac cs) auto

definition sample_frame :: "bytes \<Rightarrow> bytes \<Rightarrow> bytes \<Rightarrow> bytes" where
  "sample_frame k n d = framed k @ framed n @ framed d @ replicate 16 0"

definition sample_aead :: aead where
  "sample_aead = \<lparr>argon2id = (\<lambda>p s. Some (framed p @ s)), encrypt = (\<lambda>k n d m. Some (sample_frame k n d @ m)),
     decrypt = (\<lambda>k n d c. let f = sample_frame k n d in
       if take (length f) c = f then Some (drop (length f) c) else None)\<rparr>"

lemma sample_aead_ok: "aead_ok sample_aead"
  unfolding aead_ok_def
proof (intro conjI allI)
  fix k n d m k' d' m' :: bytes
  show "encrypt sample_aead k n d m = encrypt sample_aead k' n d' m' \<longrightarrow> k = k' \<and> d = d' \<and> m = m'"
    by (simp add: sample_aead_def sample_frame_def framed_cut)
next
  fix k n d c m :: bytes
  show "decrypt sample_aead k n d c = Some m \<longleftrightarrow> encrypt sample_aead k n d m = Some c"
    by (auto simp: sample_aead_def Let_def) (metis append_take_drop_id)
qed (use framed_cut [of _ "[]" _ "[]"] in \<open>auto simp: sample_aead_def sample_frame_def tag_len_def\<close>)

theorem unseal_exactly_what_was_sealed_witness:
  "\<exists>b. seal_with sample_aead (replicate 16 7) (replicate 12 9) [112, 119] [1] [42] = Inr b
     \<and> unseal sample_aead [112, 119] [1] b = Inr [42]
     \<and> unseal sample_aead [112] [1] b = Inl (KeystoreLocked ''decryption failed'')"
proof -
  obtain b where b: "seal_with sample_aead (replicate 16 7) (replicate 12 9) [112, 119] [1] [42] = Inr b"
    using seal_total [OF sample_aead_ok] by blast
  have "unseal sample_aead q d b = (if q = [112, 119] \<and> d = [1] then Inr [42] else Inl (KeystoreLocked ''decryption failed''))" for q d
    by (rule unseal_exactly_what_was_sealed [OF sample_aead_ok b]) (simp_all add: salt_len_def nonce_len_def)
  then show ?thesis using b by simp
qed

end
