(* ===== verification/Keyring.thy ===== *)
theory Keyring imports Sealed Evm begin

text \<open>
  The keystore (\<open>src/store/keyring.rs\<close>, the records and the vault check of \<open>src/store/mod.rs\<close>): independent
  keys in sealed files, an optional seed that further addresses derive from, one independent BSC key, and the
  vault that carries them all.  Cryptography and the word lists of BIP-39 are parameters, as are the random
  bytes, the clock and the calls of the file system that fail; a mnemonic is its entropy.  The state of one
  store is its directory, with the parsed \<open>state.json\<close>, and the memory of the process.
\<close>

section \<open>State\<close>

datatype evm_key_source = Generated | ImportedMnemonic | ImportedKey

record evm_key_meta =
  evm_addr :: string
  created_secs :: u64
  evm_source :: evm_key_source

record key_state =
  next_index :: u32
  derived :: "(string \<times> u32) list"
  labels :: "(string \<times> string) list"
  imported :: "string list"
  evm_key :: "evm_key_meta option"

definition default_state :: key_state where
  "default_state = \<lparr>next_index = 0, derived = [], labels = [], imported = [], evm_key = None\<rparr>"

text \<open>A loaded key (\<open>Signer\<close>).\<close>

record wallet_key =
  key_secret :: bytes
  key_pubkey :: bytes
  key_address :: bytes

text \<open>The libraries: \<open>ed25519\<close>, the address hash of the chain, SLIP-10, BIP-39, BIP-32, \<open>hex\<close>, JSON text.\<close>

record kit =
  cipher :: aead
  verifying_key :: "bytes \<Rightarrow> bytes"
  pubkey_hash :: "bytes \<Rightarrow> bytes"
  slip10 :: "bytes \<Rightarrow> u32 list \<Rightarrow> bytes"
  bip39_parse :: "string \<Rightarrow> bytes option"
  bip39_words :: "bytes \<Rightarrow> string list option"
  bip39_seed :: "bytes \<Rightarrow> bytes"
  bip32_evm :: "bytes \<Rightarrow> bytes option"
  sha256_of :: "bytes \<Rightarrow> bytes"
  secp :: alloy
  hex_of_bytes :: "bytes \<Rightarrow> string"
  bytes_of_hex :: "string \<Rightarrow> bytes option"
  json_text :: "json \<Rightarrow> bytes"
  json_of_text :: "bytes \<Rightarrow> json option"

record keystore =
  seed_file :: "bytes option"
  state_file :: "key_state option"
  sealed_files :: "string \<Rightarrow> bytes option"
  seed64 :: "bytes option"
  fresh_mnemonic :: "string list option"
  passwd :: bytes
  memory :: key_state
  signer_cache :: "string \<Rightarrow> wallet_key option"
  ticks :: nat

text \<open>What the operating system answers to the calls of a store, by their number.\<close>

record host =
  io_fails :: "nat \<Rightarrow> bool"
  os_random :: "nat \<Rightarrow> nat \<Rightarrow> bytes"
  os_clock :: "nat \<Rightarrow> u64"

type_synonym 'a kop = "host \<Rightarrow> keystore \<Rightarrow> keystore \<times> 'a res"

definition kret :: "'a \<Rightarrow> 'a kop" where "kret x = (\<lambda>h s. (s, Inr x))"
definition kraise :: "error \<Rightarrow> 'a kop" where "kraise d = (\<lambda>h s. (s, Inl d))"
definition kres :: "'a res \<Rightarrow> 'a kop" where "kres r = (\<lambda>h s. (s, r))"
definition kget :: "(keystore \<Rightarrow> 'a) \<Rightarrow> 'a kop" where "kget f = (\<lambda>h s. (s, Inr (f s)))"
definition kmem :: "(keystore \<Rightarrow> keystore) \<Rightarrow> unit kop" where "kmem f = (\<lambda>h s. (f s, Inr ()))"

definition kbind :: "'a kop \<Rightarrow> ('a \<Rightarrow> 'b kop) \<Rightarrow> 'b kop" where
  "kbind m f = (\<lambda>h s. case m h s of (s1, Inl d) \<Rightarrow> (s1, Inl d) | (s1, Inr x) \<Rightarrow> f x h s1)"

definition kseq :: "unit kop \<Rightarrow> 'b kop \<Rightarrow> 'b kop" where
  "kseq m n = kbind m (\<lambda>_. n)"

text \<open>The result of a call as a value: for an error that is logged, or that the code undoes its work for.\<close>

definition kattempt :: "'a kop \<Rightarrow> 'a res kop" where
  "kattempt m = (\<lambda>h s. case m h s of (s1, r) \<Rightarrow> (s1, Inr r))"

definition kignore :: "'a kop \<Rightarrow> unit kop" where
  "kignore m = kbind (kattempt m) (\<lambda>_. kret ())"

text \<open>One call of the file system: it fails and does nothing, or it is done.\<close>

definition kfs :: "string \<Rightarrow> (keystore \<Rightarrow> keystore) \<Rightarrow> unit kop" where
  "kfs lbl f = (\<lambda>h s. let s1 = s\<lparr>ticks := ticks s + 1\<rparr> in
     if io_fails h (ticks s) then (s1, Inl (Io lbl)) else (f s1, Inr ()))"

definition read_file :: "(keystore \<Rightarrow> bytes option) \<Rightarrow> bytes kop" where
  "read_file f = kseq (kfs ''read'' (\<lambda>s. s)) (kbind (kget f) (\<lambda>b. kres (ok_or (Io ''not found'') b)))"

definition fill_bytes :: "nat \<Rightarrow> bytes kop" where
  "fill_bytes n = (\<lambda>h s. (s\<lparr>ticks := ticks s + 1\<rparr>, Inr (os_random h (ticks s) n)))"

definition now_secs :: "u64 kop" where
  "now_secs = (\<lambda>h s. (s\<lparr>ticks := ticks s + 1\<rparr>, Inr (os_clock h (ticks s))))"

section \<open>Files\<close>

definition exfer_coin_type :: u32 where "exfer_coin_type = 9527"

definition seed_aad :: bytes where "seed_aad = ascii ''exfer-walletd/v1/seed''"
definition imported_aad :: bytes where "imported_aad = ascii ''exfer-walletd/v1/imported''"
definition vault_aad :: bytes where "vault_aad = ascii ''exfer-walletd/v1/vault''"
definition mnemonic_aad :: bytes where "mnemonic_aad = ascii ''exfer-walletd/v1/mnemonic''"
definition evm_key_aad :: bytes where "evm_key_aad = ascii ''exfer-walletd/v1/evm-key''"
definition evm_mnemonic_aad :: bytes where "evm_mnemonic_aad = ascii ''exfer-walletd/v1/evm-mnemonic''"
definition std_mnemonic_domain :: bytes where "std_mnemonic_domain = ascii ''EXFER-MNEMONIC-ED25519-V1''"

definition key_file :: "string \<Rightarrow> string" where "key_file addr = addr @ ''.key.enc''"
definition mnemonic_file :: "string \<Rightarrow> string" where "mnemonic_file addr = addr @ ''.mnemonic.enc''"
definition evm_key_file :: string where "evm_key_file = ''evm.key.enc''"
definition evm_mnemonic_file :: string where "evm_mnemonic_file = ''evm.mnemonic.enc''"

text \<open>A write goes to a temporary file that is renamed, so the file itself changes in one call.\<close>

definition write_sealed :: "string \<Rightarrow> bytes \<Rightarrow> unit kop" where
  "write_sealed name blob = kfs ''write'' (\<lambda>s. s\<lparr>sealed_files := (sealed_files s)(name := Some blob)\<rparr>)"

definition remove_sealed :: "string \<Rightarrow> unit kop" where
  "remove_sealed name = kfs ''remove'' (\<lambda>s. s\<lparr>sealed_files := (sealed_files s)(name := None)\<rparr>)"

definition read_sealed :: "string \<Rightarrow> bytes kop" where
  "read_sealed name = read_file (\<lambda>s. sealed_files s name)"

definition save_state :: "unit kop" where
  "save_state = kfs ''state'' (\<lambda>s. s\<lparr>state_file := Some (memory s)\<rparr>)"

definition change_state :: "(key_state \<Rightarrow> key_state) \<Rightarrow> unit kop" where
  "change_state f = kmem (\<lambda>s. s\<lparr>memory := f (memory s)\<rparr>)"

definition cache_key :: "string \<Rightarrow> wallet_key \<Rightarrow> unit kop" where
  "cache_key addr k = kmem (\<lambda>s. s\<lparr>signer_cache := (signer_cache s)(addr := Some k)\<rparr>)"

definition seal :: "kit \<Rightarrow> bytes \<Rightarrow> bytes \<Rightarrow> bytes \<Rightarrow> bytes kop" where
  "seal k pass aad payload =
     kbind (fill_bytes salt_len) (\<lambda>salt. kbind (fill_bytes nonce_len) (\<lambda>nonce.
     kres (seal_with (cipher k) salt nonce pass aad payload)))"

definition seal_own :: "kit \<Rightarrow> bytes \<Rightarrow> bytes \<Rightarrow> bytes kop" where
  "seal_own k aad payload = kbind (kget passwd) (\<lambda>pass. seal k pass aad payload)"

definition of_length :: "error \<Rightarrow> nat \<Rightarrow> bytes \<Rightarrow> bytes res" where
  "of_length e n b = (if length b = n then Inr b else Inl e)"

section \<open>Keys\<close>

definition key_from_secret :: "kit \<Rightarrow> bytes \<Rightarrow> wallet_key" where
  "key_from_secret k secret =
     \<lparr>key_secret = secret, key_pubkey = verifying_key k secret, key_address = pubkey_hash k (verifying_key k secret)\<rparr>"

definition address_hex :: "kit \<Rightarrow> wallet_key \<Rightarrow> string" where
  "address_hex k w = hex_of_bytes k (key_address w)"

definition derived_secret :: "kit \<Rightarrow> bytes \<Rightarrow> u32 \<Rightarrow> bytes" where
  "derived_secret k seed index = slip10 k seed [44, exfer_coin_type, 0, 0, index]"

text \<open>On a keyring without a seed \<open>derive\<close> panics; the callers run it on a thread whose panic is an error.\<close>

definition derive_key :: "kit \<Rightarrow> u32 \<Rightarrow> wallet_key kop" where
  "derive_key k index = kbind (kget seed64) (\<lambda>seed.
     case seed of None \<Rightarrow> kraise (Internal ''blocking task panicked'')
     | Some s \<Rightarrow> kret (key_from_secret k (derived_secret k s index)))"

definition standard_secret :: "kit \<Rightarrow> bytes \<Rightarrow> bytes" where
  "standard_secret k entropy = sha256_of k (std_mnemonic_domain @ bip39_seed k entropy)"

definition evm_secret_from_seed :: "kit \<Rightarrow> bytes \<Rightarrow> bytes res" where
  "evm_secret_from_seed k seed = ok_or (Internal ''EVM derive failed'') (bip32_evm k seed)"

text \<open>\<open>evm_address\<close>, as the text the store keeps.\<close>

definition evm_address_text :: "kit \<Rightarrow> bytes \<Rightarrow> string res" where
  "evm_address_text k secret = bind_ok (evm_address (secp k) secret) (\<lambda>a. Inr (checksummed (secp k) a))"

definition parse_phrase :: "kit \<Rightarrow> string \<Rightarrow> bytes res" where
  "parse_phrase k phrase = ok_or (BadParams ''invalid recovery phrase'') (bip39_parse k (trim phrase))"

definition words_of :: "kit \<Rightarrow> bytes \<Rightarrow> string list res" where
  "words_of k entropy = ok_or (Internal ''mnemonic from entropy'') (bip39_words k entropy)"

definition generate_mnemonic :: "bytes kop" where
  "generate_mnemonic = fill_bytes 32"

section \<open>Opening\<close>

text \<open>The directory as a new process finds it.\<close>

definition cold :: "keystore \<Rightarrow> keystore" where
  "cold s = s\<lparr>seed64 := None, fresh_mnemonic := None, passwd := [], memory := default_state, signer_cache := (\<lambda>_. None)\<rparr>"

definition unseal_entropy :: "kit \<Rightarrow> bytes \<Rightarrow> bytes kop" where
  "unseal_entropy k pass =
     kbind (read_file seed_file) (\<lambda>blob.
     case unseal (cipher k) pass seed_aad blob of
       Inl _ \<Rightarrow> kraise (KeystoreLocked ''wrong passphrase'')
     | Inr entropy \<Rightarrow> kres (of_length (Internal ''sealed entropy'') 32 entropy))"

definition verify_passphrase :: "kit \<Rightarrow> bytes \<Rightarrow> unit kop" where
  "verify_passphrase k pass =
     kbind (kget seed64) (\<lambda>seed.
     if seed \<noteq> None then kbind (unseal_entropy k pass) (\<lambda>_. kret ())
     else kbind (kget (\<lambda>s. imported (memory s))) (\<lambda>addrs.
       case addrs of
         [] \<Rightarrow> kret ()
       | addr # _ \<Rightarrow> kbind (read_sealed (key_file addr)) (\<lambda>blob.
           case unseal (cipher k) pass imported_aad blob of
             Inl _ \<Rightarrow> kraise (KeystoreLocked ''wrong passphrase'')
           | Inr _ \<Rightarrow> kret ())))"

definition write_seed :: "bytes \<Rightarrow> unit kop" where
  "write_seed blob = kfs ''write'' (\<lambda>s. s\<lparr>seed_file := Some blob\<rparr>)"

definition load_or_default :: "unit kop" where
  "load_or_default =
     kbind (kget state_file) (\<lambda>f. case f of
       None \<Rightarrow> change_state (\<lambda>_. default_state)
     | Some st \<Rightarrow> kseq (kfs ''read'' (\<lambda>s. s)) (change_state (\<lambda>_. st)))"

definition make_dirs :: "unit kop" where
  "make_dirs = kseq (kfs ''create_dir_all'' (\<lambda>s. s)) (kfs ''create_dir_all'' (\<lambda>s. s))"

definition open_inner :: "kit \<Rightarrow> bytes \<Rightarrow> bool \<Rightarrow> unit kop" where
  "open_inner k pass generate_seed_if_missing =
     kseq make_dirs
     (kbind (kget seed_file) (\<lambda>f.
      kbind
        (if f \<noteq> None then
           kbind (read_file seed_file) (\<lambda>blob.
           kbind (kres (unseal (cipher k) pass seed_aad blob)) (\<lambda>e.
           kbind (kres (of_length (KeystoreLocked ''seed file has wrong length'') 32 e)) (\<lambda>entropy.
           kret (Some (bip39_seed k entropy), None))))
         else if generate_seed_if_missing then
           kbind generate_mnemonic (\<lambda>e.
           kbind (kres (of_length (Internal ''24-word entropy'') 32 e)) (\<lambda>entropy.
           kbind (seal k pass seed_aad entropy) (\<lambda>blob.
           kseq (write_seed blob) (kret (Some (bip39_seed k entropy), bip39_words k entropy)))))
         else kret (None, None))
      (\<lambda>(seed, words).
      kseq load_or_default
        (kmem (\<lambda>s. s\<lparr>seed64 := seed, fresh_mnemonic := words, passwd := pass, signer_cache := (\<lambda>_. None)\<rparr>)))))"

definition open_or_init_fresh :: "kit \<Rightarrow> bytes \<Rightarrow> unit kop" where
  "open_or_init_fresh k pass = open_inner k pass True"

definition open_keyring :: "kit \<Rightarrow> bytes \<Rightarrow> unit kop" where
  "open_keyring k pass =
     kseq (open_inner k pass False)
     (kbind (kget seed64) (\<lambda>seed. if seed = None then verify_passphrase k pass else kret ()))"

text \<open>\<open>init_from_mnemonic\<close>, run on a directory that no store has open.\<close>

definition init_from_mnemonic :: "kit \<Rightarrow> bytes \<Rightarrow> string \<Rightarrow> unit kop" where
  "init_from_mnemonic k pass phrase =
     kseq make_dirs
     (kbind (kget seed_file) (\<lambda>f.
      if f \<noteq> None then kraise (WalletAlreadyExists ''a seed already exists'')
      else
        kbind (kres (parse_phrase k phrase)) (\<lambda>e.
        kbind (kres (of_length (BadParams ''recovery phrase must be 24 words'') 32 e)) (\<lambda>entropy.
        kbind (seal k pass seed_aad entropy) (\<lambda>blob.
        kseq (write_seed blob) (kfs ''state'' (\<lambda>s. s\<lparr>state_file := Some default_state\<rparr>)))))))"

definition take_fresh_mnemonic :: "string list option kop" where
  "take_fresh_mnemonic = kbind (kget fresh_mnemonic) (\<lambda>w. kseq (kmem (\<lambda>s. s\<lparr>fresh_mnemonic := None\<rparr>)) (kret w))"

section \<open>Addresses\<close>

definition add_label :: "string \<Rightarrow> string option \<Rightarrow> key_state \<Rightarrow> key_state" where
  "add_label addr lbl st = (case lbl of None \<Rightarrow> st | Some l \<Rightarrow> st\<lparr>labels := map_insert addr l (labels st)\<rparr>)"

text \<open>A new derived address: its text, its public key and its index.\<close>

definition create_derived :: "kit \<Rightarrow> string option \<Rightarrow> (string \<times> string \<times> u32) kop" where
  "create_derived k lbl =
     kbind (kget seed64) (\<lambda>seed.
     if seed = None then kraise (BadParams ''this wallet has no HD seed'')
     else kbind (kget (\<lambda>s. next_index (memory s))) (\<lambda>index.
       if index = - 1 then kraise (Internal ''HD index exhausted'')
       else kbind (derive_key k index) (\<lambda>w.
         let addr = address_hex k w in
         kseq (change_state (\<lambda>st. add_label addr lbl
             (st\<lparr>next_index := index + 1, derived := map_insert addr index (derived st)\<rparr>)))
         (kseq save_state
         (kseq (cache_key addr w) (kret (addr, hex_of_bytes k (key_pubkey w), index)))))))"

definition managed :: "key_state \<Rightarrow> string \<Rightarrow> bool" where
  "managed st addr \<longleftrightarrow> map_of (derived st) addr \<noteq> None \<or> addr \<in> set (imported st)"

definition wrong_key_length :: error where
  "wrong_key_length = KeystoreLocked ''imported key has wrong length''"

definition load_by_address :: "kit \<Rightarrow> string \<Rightarrow> wallet_key kop" where
  "load_by_address k addr_in =
     (let addr = lower addr_in in
      kbind (kget (\<lambda>s. signer_cache s addr)) (\<lambda>hit. case hit of Some w \<Rightarrow> kret w | None \<Rightarrow>
      kbind (kget memory) (\<lambda>st.
      kbind
        (case map_of (derived st) addr of
           Some i \<Rightarrow> derive_key k i
         | None \<Rightarrow>
             if addr \<in> set (imported st) then
               kbind (read_sealed (key_file addr)) (\<lambda>blob.
               kbind (kget passwd) (\<lambda>pass.
               kbind (kres (unseal (cipher k) pass imported_aad blob)) (\<lambda>b.
               kbind (kres (of_length wrong_key_length 32 b)) (\<lambda>secret.
               kret (key_from_secret k secret)))))
             else kraise (WalletNotFound addr))
      (\<lambda>w. kseq (cache_key addr w) (kret w)))))"

definition reveal_mnemonic :: "kit \<Rightarrow> bytes \<Rightarrow> string list kop" where
  "reveal_mnemonic k pass =
     kbind (kget seed64) (\<lambda>seed.
     if seed = None then kraise (BadParams ''this wallet has no seed phrase'')
     else kbind (unseal_entropy k pass) (\<lambda>e. kres (words_of k e)))"

definition reveal_secret :: "kit \<Rightarrow> string \<Rightarrow> bytes \<Rightarrow> bytes kop" where
  "reveal_secret k addr_in pass =
     (let addr = lower addr_in in
      kbind (kget memory) (\<lambda>st.
      case map_of (derived st) addr of
        Some i \<Rightarrow> kbind (unseal_entropy k pass) (\<lambda>e. kret (derived_secret k (bip39_seed k e) i))
      | None \<Rightarrow>
          if addr \<in> set (imported st) then
            kbind (read_sealed (key_file addr)) (\<lambda>blob.
            case unseal (cipher k) pass imported_aad blob of
              Inl _ \<Rightarrow> kraise (KeystoreLocked ''wrong passphrase'')
            | Inr b \<Rightarrow> kres (of_length wrong_key_length 32 b))
          else kraise (WalletNotFound addr)))"

definition import_secret :: "kit \<Rightarrow> bytes \<Rightarrow> string option \<Rightarrow> string kop" where
  "import_secret k secret lbl =
     (let w = key_from_secret k secret; addr = address_hex k w in
      kbind (seal_own k imported_aad secret) (\<lambda>blob.
      kseq (write_sealed (key_file addr) blob)
      (kbind (kget memory) (\<lambda>st.
       if managed st addr then kraise (WalletAlreadyExists addr)
       else
         kseq (change_state (\<lambda>st. add_label addr lbl (st\<lparr>imported := imported st @ [addr]\<rparr>)))
         (kseq save_state (kseq (cache_key addr w) (kret addr)))))))"

definition exists_address :: "string \<Rightarrow> bool kop" where
  "exists_address addr_in = kget (\<lambda>s. managed (memory s) (lower addr_in))"

definition create_independent :: "kit \<Rightarrow> string option \<Rightarrow> (string \<times> string) kop" where
  "create_independent k lbl =
     kbind (fill_bytes 32) (\<lambda>secret.
     kbind (import_secret k secret lbl) (\<lambda>addr.
     kret (addr, hex_of_bytes k (key_pubkey (key_from_secret k secret)))))"

text \<open>A failure to store the phrase is only logged.\<close>

definition seal_standard_mnemonic :: "kit \<Rightarrow> string \<Rightarrow> bytes \<Rightarrow> unit kop" where
  "seal_standard_mnemonic k addr entropy =
     kignore (kbind (seal_own k mnemonic_aad entropy) (\<lambda>blob. write_sealed (mnemonic_file addr) blob))"

definition create_standard :: "kit \<Rightarrow> string option \<Rightarrow> (string \<times> string) kop" where
  "create_standard k lbl =
     kbind generate_mnemonic (\<lambda>entropy.
     let secret = standard_secret k entropy in
     kbind (import_secret k secret lbl) (\<lambda>addr.
     kseq (seal_standard_mnemonic k addr entropy)
     (kret (addr, hex_of_bytes k (key_pubkey (key_from_secret k secret))))))"

definition import_mnemonic :: "kit \<Rightarrow> string \<Rightarrow> string option \<Rightarrow> string kop" where
  "import_mnemonic k phrase lbl =
     kbind (kres (parse_phrase k phrase)) (\<lambda>e.
     kbind (kres (of_length (BadParams ''recovery phrase must be 24 words'') 32 e)) (\<lambda>secret.
     import_secret k secret lbl))"

definition import_standard_mnemonic :: "kit \<Rightarrow> string \<Rightarrow> string option \<Rightarrow> string kop" where
  "import_standard_mnemonic k phrase lbl =
     kbind (kres (parse_phrase k phrase)) (\<lambda>e.
     kbind (kres (of_length (BadParams ''recovery phrase must be 24 words'') 32 e)) (\<lambda>entropy.
     kbind (import_secret k (standard_secret k entropy) lbl) (\<lambda>addr.
     kseq (seal_standard_mnemonic k addr entropy) (kret addr))))"

definition reveal_address_mnemonic :: "kit \<Rightarrow> string \<Rightarrow> bytes \<Rightarrow> string list kop" where
  "reveal_address_mnemonic k addr_in pass =
     (let addr = lower addr_in in
      kbind (kget (\<lambda>s. sealed_files s (mnemonic_file addr))) (\<lambda>f.
      if f \<noteq> None then
        kbind (read_sealed (mnemonic_file addr)) (\<lambda>blob.
        kbind (kres (unseal (cipher k) pass mnemonic_aad blob)) (\<lambda>e. kres (words_of k e)))
      else kbind (reveal_secret k addr pass) (\<lambda>secret. kres (words_of k secret))))"

definition remove_if_present :: "string \<Rightarrow> unit kop" where
  "remove_if_present name =
     kbind (kget (\<lambda>s. sealed_files s name)) (\<lambda>f. if f \<noteq> None then remove_sealed name else kret ())"

definition forget :: "string \<Rightarrow> key_state \<Rightarrow> key_state" where
  "forget addr st = st\<lparr>derived := map_remove addr (derived st), imported := remove1 addr (imported st),
     labels := map_remove addr (labels st)\<rparr>"

definition delete_address :: "kit \<Rightarrow> string \<Rightarrow> bytes \<Rightarrow> unit kop" where
  "delete_address k addr_in pass =
     (let addr = lower addr_in in
      kseq (verify_passphrase k pass)
      (kbind (kget memory) (\<lambda>st.
       if \<not> managed st addr then kraise (WalletNotFound addr)
       else
         kseq (change_state (forget addr))
         (kseq save_state
         (kseq (kmem (\<lambda>s. s\<lparr>signer_cache := (signer_cache s)(addr := None)\<rparr>))
         (if addr \<in> set (imported st) then
            kseq (remove_if_present (key_file addr)) (kignore (remove_if_present (mnemonic_file addr)))
          else kret ()))))))"

record address_entry =
  entry_address :: string
  entry_index :: "u32 option"
  entry_label :: "string option"
  entry_imported :: bool

definition entries_of :: "key_state \<Rightarrow> address_entry list" where
  "entries_of st =
     map (\<lambda>(addr, i). \<lparr>entry_address = addr, entry_index = Some i, entry_label = map_of (labels st) addr,
        entry_imported = False\<rparr>) (sort_key snd (derived st)) @
     map (\<lambda>addr. \<lparr>entry_address = addr, entry_index = None, entry_label = map_of (labels st) addr,
        entry_imported = True\<rparr>) (sort (imported st))"

definition list_entries :: "address_entry list kop" where
  "list_entries = kget (\<lambda>s. entries_of (memory s))"

section \<open>The BSC key\<close>

definition evm_secret :: "kit \<Rightarrow> bytes kop" where
  "evm_secret k =
     kbind (kget (\<lambda>s. sealed_files s evm_key_file)) (\<lambda>f.
     if f \<noteq> None then
       kbind (read_sealed evm_key_file) (\<lambda>blob.
       kbind (kget passwd) (\<lambda>pass.
       kbind (kres (unseal (cipher k) pass evm_key_aad blob)) (\<lambda>v.
       kres (of_length (Internal ''evm.key.enc wrong length'') 32 v))))
     else kbind (kget seed64) (\<lambda>seed. case seed of
       Some s \<Rightarrow> kres (evm_secret_from_seed k s)
     | None \<Rightarrow> kraise EvmKeyNotCreated))"

definition reveal_evm_secret :: "kit \<Rightarrow> bytes \<Rightarrow> bytes kop" where
  "reveal_evm_secret k pass = kseq (verify_passphrase k pass) (evm_secret k)"

definition evm_address_opt :: "kit \<Rightarrow> string option kop" where
  "evm_address_opt k =
     kbind (kget (\<lambda>s. evm_key (memory s))) (\<lambda>meta. case meta of
       Some m \<Rightarrow> kret (Some (evm_addr m))
     | None \<Rightarrow> kbind (kget seed64) (\<lambda>seed.
         if seed \<noteq> None then
           kbind (evm_secret k) (\<lambda>secret. kbind (kres (evm_address_text k secret)) (\<lambda>a. kret (Some a)))
         else kret None))"

definition persist_evm_key :: "kit \<Rightarrow> bytes \<Rightarrow> bytes option \<Rightarrow> string \<Rightarrow> evm_key_source \<Rightarrow> unit kop" where
  "persist_evm_key k secret mnemonic addr source =
     kbind (seal_own k evm_key_aad secret) (\<lambda>key_blob.
     kseq (write_sealed evm_key_file key_blob)
     (kseq
       (case mnemonic of
          Some entropy \<Rightarrow>
            kbind (kattempt (kbind (seal_own k evm_mnemonic_aad entropy) (write_sealed evm_mnemonic_file))) (\<lambda>r.
            case r of Inr _ \<Rightarrow> kret ()
            | Inl e \<Rightarrow> kseq (kignore (remove_sealed evm_key_file)) (kraise e))
        | None \<Rightarrow> kignore (remove_if_present evm_mnemonic_file))
     (kbind now_secs (\<lambda>now.
      kseq (change_state (\<lambda>st. st\<lparr>evm_key := Some \<lparr>evm_addr = addr, created_secs = now, evm_source = source\<rparr>\<rparr>))
      (kbind (kattempt save_state) (\<lambda>r.
       case r of Inr _ \<Rightarrow> kret ()
       | Inl e \<Rightarrow> kseq (kignore (remove_sealed evm_key_file)) (kseq (kignore (remove_sealed evm_mnemonic_file)) (kraise e))))))))"

definition create_evm_key :: "kit \<Rightarrow> bool \<Rightarrow> (string \<times> string list) kop" where
  "create_evm_key k force =
     kbind (kget (\<lambda>s. evm_key (memory s))) (\<lambda>meta.
     if meta \<noteq> None then kraise (WalletAlreadyExists ''an independent BSC/EVM key already exists'')
     else kbind (kget seed64) (\<lambda>seed.
       if seed \<noteq> None \<and> \<not> force then kraise (BadParams ''this wallet already has a seed-derived BSC addr_in'')
       else
         kbind generate_mnemonic (\<lambda>entropy.
         kbind (kres (evm_secret_from_seed k (bip39_seed k entropy))) (\<lambda>secret.
         kbind (kres (evm_address_text k secret)) (\<lambda>addr.
         kbind (kres (words_of k entropy)) (\<lambda>words.
         kseq (persist_evm_key k secret (Some entropy) addr Generated) (kret (addr, words))))))))"

definition reveal_evm_mnemonic :: "kit \<Rightarrow> bytes \<Rightarrow> string list kop" where
  "reveal_evm_mnemonic k pass =
     kseq (verify_passphrase k pass)
     (kbind (kget (\<lambda>s. map_option evm_source (evm_key (memory s)))) (\<lambda>source. case source of
        None \<Rightarrow> reveal_mnemonic k pass
      | Some ImportedKey \<Rightarrow> kraise (BadParams ''this BNB wallet was imported by raw private key'')
      | Some _ \<Rightarrow>
          kbind (read_sealed evm_mnemonic_file) (\<lambda>blob.
          kbind (kres (unseal (cipher k) pass evm_mnemonic_aad blob)) (\<lambda>e. kres (words_of k e)))))"

definition guard_evm_overwrite :: "bool \<Rightarrow> unit kop" where
  "guard_evm_overwrite overwrite =
     kbind (kget (\<lambda>s. evm_key (memory s))) (\<lambda>meta.
     if meta \<noteq> None \<and> \<not> overwrite then kraise (WalletAlreadyExists ''pass overwrite to replace it'') else kret ())"

definition import_evm_mnemonic :: "kit \<Rightarrow> string \<Rightarrow> bool \<Rightarrow> string kop" where
  "import_evm_mnemonic k phrase overwrite =
     kseq (guard_evm_overwrite overwrite)
     (kbind (kres (parse_phrase k phrase)) (\<lambda>entropy.
      if length entropy \<noteq> 16 \<and> length entropy \<noteq> 32 then kraise (BadParams ''recovery phrase must be 12 or 24 words'')
      else
        kbind (kres (evm_secret_from_seed k (bip39_seed k entropy))) (\<lambda>secret.
        kbind (kres (evm_address_text k secret)) (\<lambda>addr.
        kseq (persist_evm_key k secret (Some entropy) addr ImportedMnemonic) (kret addr)))))"

definition import_evm_key :: "kit \<Rightarrow> bytes \<Rightarrow> bool \<Rightarrow> string kop" where
  "import_evm_key k secret overwrite =
     kseq (guard_evm_overwrite overwrite)
     (kbind (kres (case evm_address_text k secret of Inl _ \<Rightarrow> Inl (BadParams ''invalid secp256k1 private key'') | Inr a \<Rightarrow> Inr a)) (\<lambda>addr.
      kseq (persist_evm_key k secret None addr ImportedKey) (kret addr)))"

definition delete_evm_key :: "kit \<Rightarrow> bytes \<Rightarrow> unit kop" where
  "delete_evm_key k pass =
     kseq (verify_passphrase k pass)
     (kbind (kget (\<lambda>s. evm_key (memory s))) (\<lambda>meta.
      if meta = None then kraise (WalletNotFound ''no independent BSC/EVM key'')
      else
        kbind (kget (\<lambda>s. sealed_files s evm_key_file)) (\<lambda>f.
        kseq
          (if f \<noteq> None then
             kbind (read_sealed evm_key_file) (\<lambda>blob.
             kbind (kres (unseal (cipher k) pass evm_key_aad blob)) (\<lambda>_. kret ()))
           else kret ())
        (kseq (change_state (\<lambda>st. st\<lparr>evm_key := None\<rparr>))
        (kseq save_state
        (kseq (remove_if_present evm_key_file) (kignore (remove_if_present evm_mnemonic_file))))))))"

section \<open>The vault\<close>

definition source_json :: "evm_key_source \<Rightarrow> json" where
  "source_json source = JStr (case source of Generated \<Rightarrow> ''Generated'' | ImportedMnemonic \<Rightarrow> ''ImportedMnemonic''
     | ImportedKey \<Rightarrow> ''ImportedKey'')"

definition source_of_json :: "json \<Rightarrow> evm_key_source option" where
  "source_of_json v =
     (if v = JStr ''Generated'' then Some Generated else if v = JStr ''ImportedMnemonic'' then Some ImportedMnemonic
      else if v = JStr ''ImportedKey'' then Some ImportedKey else None)"

definition export_evm_for_vault :: "kit \<Rightarrow> json option kop" where
  "export_evm_for_vault k =
     kbind (kget (\<lambda>s. map_option evm_source (evm_key (memory s)))) (\<lambda>source. case source of
       None \<Rightarrow> kret None
     | Some src \<Rightarrow>
         kbind (evm_secret k) (\<lambda>secret.
         let fs = [(''secret_hex'', JStr (hex_of_bytes k secret)), (''source'', source_json src)] in
         kbind (kget (\<lambda>s. sealed_files s evm_mnemonic_file)) (\<lambda>f.
         if src \<noteq> ImportedKey \<and> f \<noteq> None then
           kbind (read_sealed evm_mnemonic_file) (\<lambda>blob.
           kbind (kget passwd) (\<lambda>pass.
           kbind (kres (unseal (cipher k) pass evm_mnemonic_aad blob)) (\<lambda>e.
           kret (Some (JObj (fs @ [(''mnemonic_entropy_hex'', JStr (hex_of_bytes k e))]))))))
         else kret (Some (JObj fs)))))"

definition key_json :: "kit \<Rightarrow> address_entry \<Rightarrow> wallet_key \<Rightarrow> json" where
  "key_json k e w = JObj [(''address'', JStr (entry_address e)), (''secret_hex'', JStr (hex_of_bytes k (key_secret w))),
     (''label'', case entry_label e of None \<Rightarrow> JNull | Some l \<Rightarrow> JStr l)]"

fun keys_json :: "kit \<Rightarrow> address_entry list \<Rightarrow> json list kop" where
  "keys_json k [] = kret []"
| "keys_json k (e # es) = kbind (load_by_address k (entry_address e)) (\<lambda>w.
     kbind (keys_json k es) (\<lambda>js. kret (key_json k e w # js)))"

text \<open>The picked entries, or the addresses that are not managed, joined.\<close>

fun joined :: "string list \<Rightarrow> string" where
  "joined [] = []"
| "joined [x] = x"
| "joined (x # xs) = x @ '', '' @ joined xs"

definition pick_entries :: "string list \<Rightarrow> address_entry list \<Rightarrow> address_entry list res" where
  "pick_entries addresses all =
     (if addresses = [] then Inr all
      else
        let want = sort (remdups (map lower addresses));
            picked = filter (\<lambda>e. lower (entry_address e) \<in> set want) all in
        if length picked \<noteq> length want then
          Inl (WalletNotFound (joined (filter (\<lambda>a. a \<notin> set (map (\<lambda>e. lower (entry_address e)) picked)) want)))
        else Inr picked)"

definition export_selected :: "kit \<Rightarrow> string list \<Rightarrow> bytes \<Rightarrow> bytes kop" where
  "export_selected k addresses pass =
     kbind list_entries (\<lambda>all.
     kbind (kres (pick_entries addresses all)) (\<lambda>selected.
     kseq (case selected of [] \<Rightarrow> kret ()
           | e # _ \<Rightarrow> kbind (reveal_secret k (entry_address e) pass) (\<lambda>_. kret ()))
     (kbind (keys_json k selected) (\<lambda>keys.
      kbind (if addresses = [] then export_evm_for_vault k else kret None) (\<lambda>evm.
      let doc = JObj ([(''version'', JInt 1), (''keys'', JArr keys)]
                  @ (case evm of None \<Rightarrow> [] | Some v \<Rightarrow> [(''evm_key'', v)])) in
      seal k pass vault_aad (json_text k doc))))))"

definition export_vault :: "kit \<Rightarrow> bytes \<Rightarrow> bytes kop" where
  "export_vault k pass = export_selected k [] pass"

definition restore_evm_from_vault :: "kit \<Rightarrow> json \<Rightarrow> unit kop" where
  "restore_evm_from_vault k evm =
     kbind (kget (\<lambda>s. evm_key (memory s))) (\<lambda>meta.
     if meta \<noteq> None then kret ()
     else
       kbind (kres (ok_or (ParseError ''vault evm_key missing secret_hex'') (Option.bind (jget evm ''secret_hex'') as_str))) (\<lambda>hex.
       kbind (kres (ok_or (BadHex ''vault evm secret'') (bytes_of_hex k hex))) (\<lambda>raw.
       kbind (kres (of_length (ParseError ''vault evm secret not 32 bytes'') 32 raw)) (\<lambda>secret.
       kbind (kres (case evm_address_text k secret of
                Inl _ \<Rightarrow> Inl (ParseError ''vault evm secret is not a valid key'') | Inr a \<Rightarrow> Inr a)) (\<lambda>addr.
       let source = (case Option.bind (jget evm ''source'') source_of_json of Some s \<Rightarrow> s | None \<Rightarrow> ImportedKey) in
       kbind (case Option.bind (jget evm ''mnemonic_entropy_hex'') as_str of
                None \<Rightarrow> kret None
              | Some h \<Rightarrow>
                  kbind (kres (ok_or (BadHex ''vault evm entropy'') (bytes_of_hex k h))) (\<lambda>ent.
                  kbind (kres (ok_or (ParseError ''vault evm mnemonic'') (bip39_words k ent))) (\<lambda>_. kret (Some ent)))) (\<lambda>mnemonic.
       persist_evm_key k secret mnemonic addr source))))))"

text \<open>The secret and the label of one entry of the vault.\<close>

definition vault_key :: "kit \<Rightarrow> json \<Rightarrow> (bytes \<times> string option) res" where
  "vault_key k v =
     bind_ok (ok_or (ParseError ''vault: key missing secret_hex'') (Option.bind (jget v ''secret_hex'') as_str)) (\<lambda>hex.
     bind_ok (ok_or (BadHex ''vault secret'') (bytes_of_hex k hex)) (\<lambda>raw.
     bind_ok (of_length (ParseError ''vault: secret not 32 bytes'') 32 raw) (\<lambda>secret.
     Inr (secret, Option.bind (jget v ''label'') as_str))))"

fun import_keys :: "kit \<Rightarrow> json list \<Rightarrow> string list kop" where
  "import_keys k [] = kret []"
| "import_keys k (v # vs) =
     kbind (kres (vault_key k v)) (\<lambda>(secret, lbl).
     kbind (exists_address (address_hex k (key_from_secret k secret))) (\<lambda>known.
     if known then import_keys k vs
     else kbind (import_secret k secret lbl) (\<lambda>addr.
       kbind (import_keys k vs) (\<lambda>addrs. kret (addr # addrs)))))"

definition vault_keys :: "json \<Rightarrow> json list res" where
  "vault_keys doc = ok_or (ParseError ''vault: missing keys'') (Option.bind (jget doc ''keys'') as_array)"

definition import_vault :: "kit \<Rightarrow> bytes \<Rightarrow> bytes \<Rightarrow> string list kop" where
  "import_vault k blob pass =
     kbind (kres (unseal (cipher k) pass vault_aad blob)) (\<lambda>text.
     kbind (kres (ok_or (ParseError ''vault'') (json_of_text k text))) (\<lambda>doc.
     kbind (kres (vault_keys doc)) (\<lambda>keys.
     kbind (import_keys k keys) (\<lambda>addrs.
     kseq (case jget doc ''evm_key'' of Some evm \<Rightarrow> restore_evm_from_vault k evm | None \<Rightarrow> kret ()) (kret addrs)))))"

text \<open>\<open>validate_vault\<close>: the number of keys of a vault, without a store.\<close>

definition validate_vault :: "kit \<Rightarrow> bytes \<Rightarrow> bytes \<Rightarrow> nat res" where
  "validate_vault k blob pass =
     bind_ok (unseal (cipher k) pass vault_aad blob) (\<lambda>text.
     bind_ok (ok_or (ParseError ''vault'') (json_of_text k text)) (\<lambda>doc.
     bind_ok (vault_keys doc) (\<lambda>keys. Inr (length keys))))"

end
