(* ===== verification/KeyringSafe.thy ===== *)
theory KeyringSafe imports Keyring begin

text \<open>
  What the keystore keeps: every address it lists, in memory or in the file a restart reads, has its key in
  the seed or in a sealed file that the passphrase of the store opens, whichever calls of the file system
  fail.  From this follow what a loaded key is, what a passphrase guards, and what a deletion leaves.
\<close>

section \<open>Steps of the store\<close>

definition kwp :: "'a kop \<Rightarrow> host \<Rightarrow> keystore \<Rightarrow> (keystore \<Rightarrow> 'a res \<Rightarrow> bool) \<Rightarrow> bool" where
  "kwp m h s Q = (case m h s of (s1, r) \<Rightarrow> Q s1 r)"

named_theorems kwp_simps \<open>evaluation of store operations\<close>

lemma kwp_run: "kwp m h s Q = Q (fst (m h s)) (snd (m h s))"
  by (simp add: kwp_def case_prod_beta)

lemma kwp_prim [kwp_simps]:
  "kwp (kret x) h s Q = Q s (Inr x)"
  "kwp (kraise d) h s R = R s (Inl d)"
  "kwp (kres r) h s Q = Q s r"
  "kwp (kget f) h s Q = Q s (Inr (f s))"
  "kwp (kmem g) h s S = S (g s) (Inr ())"
  by (simp_all add: kwp_def kret_def kraise_def kres_def kget_def kmem_def)

lemma kwp_bind [kwp_simps]:
  "kwp (kbind m f) h s Q = kwp m h s (\<lambda>s1 r. case r of Inl d \<Rightarrow> Q s1 (Inl d) | Inr x \<Rightarrow> kwp (f x) h s1 Q)"
  by (auto simp: kwp_def kbind_def split: prod.splits sum.splits)

lemma kwp_seq [kwp_simps]:
  "kwp (kseq m n) h s Q = kwp m h s (\<lambda>s1 r. case r of Inl d \<Rightarrow> Q s1 (Inl d) | Inr _ \<Rightarrow> kwp n h s1 Q)"
  by (simp add: kseq_def kwp_bind)

lemma kwp_attempt [kwp_simps]: "kwp (kattempt m) h s Q = kwp m h s (\<lambda>s1 r. Q s1 (Inr r))"
  by (auto simp: kwp_def kattempt_def split: prod.splits)

lemma kwp_ignore [kwp_simps]: "kwp (kignore m) h s Q = kwp m h s (\<lambda>s1 r. Q s1 (Inr ()))"
  by (simp add: kignore_def kwp_simps)

lemma kwp_fs [kwp_simps]:
  "kwp (kfs l f) h s Q = (let s1 = s\<lparr>ticks := ticks s + 1\<rparr> in
     if io_fails h (ticks s) then Q s1 (Inl (Io l)) else Q (f s1) (Inr ()))"
  by (simp add: kwp_def kfs_def Let_def)

lemma kwp_fill [kwp_simps]:
  "kwp (fill_bytes n) h s Q = Q (s\<lparr>ticks := ticks s + 1\<rparr>) (Inr (os_random h (ticks s) n))"
  "kwp now_secs h s R = R (s\<lparr>ticks := ticks s + 1\<rparr>) (Inr (os_clock h (ticks s)))"
  by (simp_all add: kwp_def fill_bytes_def now_secs_def)

lemma kwp_read [kwp_simps]:
  "kwp (read_file f) h s Q = (let s1 = s\<lparr>ticks := ticks s + 1\<rparr> in
     if io_fails h (ticks s) then Q s1 (Inl (Io ''read'')) else Q s1 (ok_or (Io ''not found'') (f s1)))"
  by (simp add: read_file_def kwp_simps Let_def)

lemma kwp_mono: "kwp m h s P \<Longrightarrow> (\<And>s1 r. P s1 r \<Longrightarrow> Q s1 r) \<Longrightarrow> kwp m h s Q"
  by (simp add: kwp_run)

lemma kwp_both:
  "kwp m h s P \<Longrightarrow> kwp m h s Q \<Longrightarrow> (\<And>t r. P t r \<Longrightarrow> Q t r \<Longrightarrow> R t r) \<Longrightarrow> kwp m h s R"
  by (simp add: kwp_run)

section \<open>What is relied upon\<close>

text \<open>
  Of the operating system: as many random bytes as asked for.  Of the libraries: the cipher, secrets of 32
  bytes, addresses of 32 bytes that no two secrets share, and \<open>hex\<close> in lower case that reads back.
\<close>

definition host_ok :: "host \<Rightarrow> bool" where
  "host_ok h \<longleftrightarrow> (\<forall>i n. length (os_random h i n) = n)"

definition own_address :: "kit \<Rightarrow> bytes \<Rightarrow> string" where
  "own_address k secret = address_hex k (key_from_secret k secret)"

definition kit_ok :: "kit \<Rightarrow> bool" where
  "kit_ok k \<longleftrightarrow> aead_ok (cipher k)
     \<and> (\<forall>sd p. length (slip10 k sd p) = 32) \<and> (\<forall>m. length (sha256_of k m) = 32)
     \<and> (\<forall>b. lower (hex_of_bytes k b) = hex_of_bytes k b \<and> length (hex_of_bytes k b) = 2 * length b)
     \<and> (\<forall>b. bytes_of_hex k (hex_of_bytes k b) = Some b)
     \<and> (\<forall>b. length (pubkey_hash k b) = 32)
     \<and> (\<forall>x y. length x = 32 \<longrightarrow> length y = 32 \<longrightarrow> own_address k x = own_address k y \<longrightarrow> x = y)"

lemma kit_okD:
  assumes "kit_ok k"
  shows "aead_ok (cipher k)" "length (slip10 k sd p) = 32" "length (sha256_of k m) = 32"
    "lower (hex_of_bytes k b) = hex_of_bytes k b" "length (hex_of_bytes k b) = 2 * length b"
    "bytes_of_hex k (hex_of_bytes k b) = Some b"
    "length x = 32 \<Longrightarrow> length y = 32 \<Longrightarrow> own_address k x = own_address k y \<Longrightarrow> x = y"
    "length (own_address k x) = 64" "lower (own_address k x) = own_address k x"
  by (insert assms, unfold kit_ok_def) (simp_all add: own_address_def address_hex_def key_from_secret_def)

lemma unseal_one:
  assumes "aead_ok a" "unseal a p d b = Inr m" "unseal a q e b = Inr n"
  shows "q = p \<and> e = d \<and> n = m"
proof -
  let ?salt = "take salt_len (drop 5 b)" and ?nonce = "take nonce_len (drop (5 + salt_len) b)" and ?ct = "drop header_len b"
  obtain x where x: "argon2id a p ?salt = Some x" "decrypt a x ?nonce d ?ct = Some m"
    using assms(2) by (auto simp: unseal_def Let_def derive_kek_def result_simps split: if_splits)
  obtain y where y: "argon2id a q ?salt = Some y" "decrypt a y ?nonce e ?ct = Some n"
    using assms(3) by (auto simp: unseal_def Let_def derive_kek_def result_simps split: if_splits)
  have "encrypt a x ?nonce d m = encrypt a y ?nonce e n"
    using x(2) y(2) by (simp add: aead_okD(4) [OF assms(1)])
  then have "x = y \<and> d = e \<and> m = n" by (rule aead_okD(5) [OF assms(1)])
  moreover from this have "p = q" using aead_okD(2) [OF assms(1), of p ?salt q] x(1) y(1) by simp
  ultimately show ?thesis by simp
qed

lemma kwp_seal:
  assumes "kit_ok k" "host_ok h"
    and "\<And>b. unseal (cipher k) pass aad b = Inr m \<Longrightarrow> Q (s\<lparr>ticks := ticks s + 2\<rparr>) (Inr b)"
  shows "kwp (seal k pass aad m) h s Q"
proof -
  let ?salt = "os_random h (ticks s) salt_len" and ?nonce = "os_random h (ticks s + 1) nonce_len"
  obtain b where b: "seal_with (cipher k) ?salt ?nonce pass aad m = Inr b"
    using seal_total [OF kit_okD(1) [OF assms(1)]] by blast
  have salt: "length ?salt = salt_len" "length ?nonce = nonce_len" using assms(2) by (simp_all add: host_ok_def)
  have "unseal (cipher k) pass aad b = (if pass = pass \<and> aad = aad then Inr m else Inl (KeystoreLocked ''decryption failed''))"
    by (rule unseal_sealed [OF kit_okD(1) [OF assms(1)] b salt])
  then have "unseal (cipher k) pass aad b = Inr m" by simp
  from assms(3) [OF this] b show ?thesis by (simp add: seal_def kwp_simps)
qed

section \<open>Every listed address has its key\<close>

definition key_at :: "kit \<Rightarrow> keystore \<Rightarrow> string \<Rightarrow> bytes \<Rightarrow> bool" where
  "key_at k s addr secret \<longleftrightarrow> length secret = 32 \<and> addr = own_address k secret
     \<and> (\<exists>b. sealed_files s (key_file addr) = Some b \<and> unseal (cipher k) (passwd s) imported_aad b = Inr secret)"

definition backed :: "kit \<Rightarrow> keystore \<Rightarrow> key_state \<Rightarrow> bool" where
  "backed k s st \<longleftrightarrow> distinct (imported st) \<and> ordered (derived st)
     \<and> (\<forall>addr i. map_of (derived st) addr = Some i \<longrightarrow> i < next_index st
          \<and> (\<exists>sd. seed64 s = Some sd \<and> addr = own_address k (derived_secret k sd i)))
     \<and> (\<forall>addr \<in> set (imported st). \<exists>secret. key_at k s addr secret)"

lemma key_backedD:
  "backed k s st \<Longrightarrow> map_of (derived st) addr = Some i \<Longrightarrow>
     i < next_index st \<and> (\<exists>sd. seed64 s = Some sd \<and> addr = own_address k (derived_secret k sd i))"
  "backed k s st \<Longrightarrow> addr \<in> set (imported st) \<Longrightarrow> \<exists>secret. key_at k s addr secret"
  by (simp_all add: backed_def)

definition seed_kept :: "kit \<Rightarrow> keystore \<Rightarrow> bool" where
  "seed_kept k s \<longleftrightarrow> (seed64 s = None \<longrightarrow> seed_file s = None) \<and> (\<forall>sd. seed64 s = Some sd \<longrightarrow> (\<exists>b e. seed_file s = Some b
     \<and> unseal (cipher k) (passwd s) seed_aad b = Inr e \<and> length e = 32 \<and> sd = bip39_seed k e))"

definition cache_kept :: "kit \<Rightarrow> keystore \<Rightarrow> bool" where
  "cache_kept k s \<longleftrightarrow> (\<forall>addr w. signer_cache s addr = Some w \<longrightarrow> addr = address_hex k w
     \<and> w = key_from_secret k (key_secret w) \<and> length (key_secret w) = 32)"

definition well_kept :: "kit \<Rightarrow> keystore \<Rightarrow> bool" where
  "well_kept k s \<longleftrightarrow> backed k s (memory s) \<and> (\<forall>st. state_file s = Some st \<longrightarrow> backed k s st)
     \<and> seed_kept k s \<and> cache_kept k s"

text \<open>Only the seed, the passphrase and the files of the keys matter.\<close>

definition same_keys :: "keystore \<Rightarrow> keystore \<Rightarrow> bool" where
  "same_keys s t \<longleftrightarrow> seed64 t = seed64 s \<and> seed_file t = seed_file s \<and> passwd t = passwd s
     \<and> (\<forall>addr. length addr = 64 \<longrightarrow> sealed_files t (key_file addr) = sealed_files s (key_file addr))"

lemma key_at_same: "kit_ok k \<Longrightarrow> same_keys s t \<Longrightarrow> key_at k s addr secret \<Longrightarrow> key_at k t addr secret"
  by (auto simp: same_keys_def key_at_def kit_okD(8))

lemma backed_same: "kit_ok k \<Longrightarrow> same_keys s t \<Longrightarrow> backed k s st \<Longrightarrow> backed k t st"
  by (auto simp: backed_def same_keys_def dest!: bspec intro: key_at_same [unfolded same_keys_def])

lemma well_kept_same:
  assumes "kit_ok k" "well_kept k s" "same_keys s t" "backed k s (memory t)"
    "\<And>st. state_file t = Some st \<Longrightarrow> backed k s st" "cache_kept k t"
  shows "well_kept k t"
  using assms backed_same [OF assms(1,3)] by (auto simp: well_kept_def seed_kept_def same_keys_def)

lemma file_names:
  "key_file a = key_file b \<longleftrightarrow> a = b" "mnemonic_file a \<noteq> key_file b"
  "length a = 64 \<Longrightarrow> evm_key_file \<noteq> key_file a" "evm_mnemonic_file \<noteq> key_file a"
proof -
  have "False" if "mnemonic_file a = key_file b"
  proof -
    have "rev (mnemonic_file a) = rev (key_file b)" using that by simp
    then show False by (simp add: mnemonic_file_def key_file_def)
  qed
  then show "mnemonic_file a \<noteq> key_file b" by blast
  have "False" if "evm_mnemonic_file = key_file a"
  proof -
    have "rev evm_mnemonic_file = rev (key_file a)" using that by simp
    then show False by (simp add: evm_mnemonic_file_def key_file_def)
  qed
  then show "evm_mnemonic_file \<noteq> key_file a" by blast
  show "length a = 64 \<Longrightarrow> evm_key_file \<noteq> key_file a"
    by (auto simp: evm_key_file_def key_file_def dest: arg_cong [where f = length])
qed (simp add: key_file_def)

lemmas file_names' [simp] = file_names file_names(2) [THEN not_sym] file_names(3) [THEN not_sym] file_names(4) [THEN not_sym]

lemma well_kept_ticks [simp]: "well_kept k (s\<lparr>ticks := n\<rparr>) = well_kept k s"
  by (simp add: well_kept_def backed_def key_at_def seed_kept_def cache_kept_def)

text \<open>Files other than those of the keys.\<close>

lemma well_kept_files:
  assumes "well_kept k s" "kit_ok k" "\<And>a. length a = 64 \<Longrightarrow> name \<noteq> key_file a" "F = (sealed_files s)(name := x)"
  shows "well_kept k (s\<lparr>sealed_files := F\<rparr>)"
  by (rule well_kept_same [OF assms(2,1)])
     (use assms in \<open>auto simp: same_keys_def well_kept_def backed_def key_at_def cache_kept_def\<close>)

text \<open>A change of the list of BSC keys.\<close>

lemma backed_evm [simp]: "backed k s (st\<lparr>evm_key := x\<rparr>) = backed k s st"
  by (simp add: backed_def)

lemma add_label_simps [simp]:
  "derived (add_label a l st) = derived st" "imported (add_label a l st) = imported st"
  "next_index (add_label a l st) = next_index st" "evm_key (add_label a l st) = evm_key st"
  by (simp_all add: add_label_def split: option.split)

lemma backed_label [simp]: "backed k s (add_label a l st) = backed k s st"
  by (simp add: backed_def)

lemma well_kept_memory:
  assumes "well_kept k s" "kit_ok k" "backed k s st"
  shows "well_kept k (s\<lparr>memory := st\<rparr>)"
  by (rule well_kept_same [OF assms(2,1)]) (use assms in \<open>auto simp: same_keys_def well_kept_def cache_kept_def\<close>)

lemma well_kept_saved:
  assumes "well_kept k s" "kit_ok k" "m = memory s"
  shows "well_kept k (s\<lparr>state_file := Some m\<rparr>)"
  by (rule well_kept_same [OF assms(2,1)]) (use assms in \<open>auto simp: same_keys_def well_kept_def cache_kept_def\<close>)

lemma well_kept_cached:
  assumes "well_kept k s" "kit_ok k" "w = key_from_secret k secret" "length secret = 32" "addr = own_address k secret"
    "C = (signer_cache s)(addr := Some w)"
  shows "well_kept k (s\<lparr>signer_cache := C\<rparr>)"
  by (rule well_kept_same [OF assms(2,1)])
     (use assms in \<open>auto simp: same_keys_def well_kept_def cache_kept_def own_address_def key_from_secret_def\<close>)

lemma well_kept_uncached:
  "well_kept k s \<Longrightarrow> C = (signer_cache s)(addr := None) \<Longrightarrow> well_kept k (s\<lparr>signer_cache := C\<rparr>)"
  by (simp add: well_kept_def backed_def key_at_def seed_kept_def cache_kept_def)

text \<open>A key file written anew for the address of its secret.\<close>

lemma well_kept_written:
  assumes "well_kept k s" "kit_ok k" "unseal (cipher k) (passwd s) imported_aad b = Inr secret" "length secret = 32"
  shows "well_kept k (s\<lparr>sealed_files := (sealed_files s)(key_file (own_address k secret) := Some b)\<rparr>)"
    (is "well_kept k ?t")
proof -
  have at: "key_at k ?t addr x" if "key_at k s addr x" for addr x
  proof (cases "addr = own_address k secret")
    case True
    then have "x = secret" using that kit_okD(7) [OF assms(2)] assms(4) by (auto simp: key_at_def)
    then show ?thesis using True assms(3,4) by (simp add: key_at_def)
  next
    case False
    then show ?thesis using that by (auto simp: key_at_def)
  qed
  then have "backed k ?t st" if "backed k s st" for st using that by (force simp: backed_def)
  then show ?thesis using assms(1) by (auto simp: well_kept_def seed_kept_def cache_kept_def)
qed

lemma key_at_written:
  "unseal (cipher k) (passwd s) imported_aad b = Inr secret \<Longrightarrow> length secret = 32 \<Longrightarrow>
     key_at k (s\<lparr>sealed_files := (sealed_files s)(key_file (own_address k secret) := Some b)\<rparr>) (own_address k secret) secret"
  by (simp add: key_at_def)

section \<open>Operations keep the keys\<close>

text \<open>The lists a restart reads.\<close>

definition on_disk :: "keystore \<Rightarrow> key_state" where
  "on_disk s = (case state_file s of None \<Rightarrow> default_state | Some st \<Rightarrow> st)"

text \<open>
  What one operation leaves: the store is well kept, its passphrase and seed are the same, and of the listed
  addresses, and of those that a restart lists too, only those of \<open>D\<close> may be gone.
\<close>

definition kept_to :: "kit \<Rightarrow> string set \<Rightarrow> keystore \<Rightarrow> keystore \<Rightarrow> bool" where
  "kept_to k D s t \<longleftrightarrow> well_kept k t \<and> passwd t = passwd s \<and> seed64 t = seed64 s
     \<and> (\<forall>addr. addr \<notin> D \<longrightarrow> managed (memory s) addr \<longrightarrow> managed (memory t) addr)
     \<and> (\<forall>addr. addr \<notin> D \<longrightarrow> managed (memory s) addr \<longrightarrow> managed (on_disk s) addr \<longrightarrow> managed (on_disk t) addr)"

definition kstep :: "kit \<Rightarrow> string set \<Rightarrow> 'a kop \<Rightarrow> bool" where
  "kstep k D m \<longleftrightarrow> (\<forall>h s. host_ok h \<longrightarrow> well_kept k s \<longrightarrow> kwp m h s (\<lambda>t _. kept_to k D s t))"

named_theorems kstep_intros \<open>operations that keep the keys\<close>

lemma kstepI: "(\<And>h s. host_ok h \<Longrightarrow> well_kept k s \<Longrightarrow> kwp m h s (\<lambda>t _. kept_to k D s t)) \<Longrightarrow> kstep k D m"
  by (simp add: kstep_def)

lemma kept_refl: "well_kept k s \<Longrightarrow> kept_to k D s s"
  by (simp add: kept_to_def on_disk_def)

lemma kept_trans: "kept_to k D s t \<Longrightarrow> kept_to k D t u \<Longrightarrow> kept_to k D s u"
  by (simp add: kept_to_def on_disk_def)

lemma kstepD:
  assumes "kstep k D m" "host_ok h" "kept_to k D s t"
  shows "kwp m h t (\<lambda>u _. kept_to k D s u)"
proof -
  have "well_kept k t" using assms(3) by (simp add: kept_to_def on_disk_def)
  then have "kwp m h t (\<lambda>u _. kept_to k D t u)" using assms(1,2) unfolding kstep_def by blast
  then show ?thesis by (rule kwp_mono) (rule kept_trans [OF assms(3)])
qed

lemma kstep_prim [kstep_intros]:
  "kstep k D (kret x)" "kstep k D (kraise d)" "kstep k D (kres r)" "kstep k D (kget f)"
  "kstep k D (read_file g)" "kstep k D (fill_bytes n)" "kstep k D now_secs"
  by (simp_all add: kstep_def kwp_simps kept_to_def on_disk_def Let_def on_disk_def)

lemma kstep_bind [kstep_intros]:
  assumes "kstep k D m" "\<And>x. kstep k D (f x)"
  shows "kstep k D (kbind m f)"
proof (rule kstepI)
  fix h s assume h: "host_ok h" and s: "well_kept k s"
  have "kwp m h s (\<lambda>t r. kept_to k D s t)" using assms(1) h s by (simp add: kstep_def)
  then show "kwp (kbind m f) h s (\<lambda>t _. kept_to k D s t)"
    unfolding kwp_bind
  proof (rule kwp_mono)
    fix t r assume t: "kept_to k D s t"
    then have "kwp (f x) h t (\<lambda>u _. kept_to k D s u)" for x by (rule kstepD [OF assms(2) h])
    then show "case r of Inl d \<Rightarrow> kept_to k D s t | Inr x \<Rightarrow> kwp (f x) h t (\<lambda>t _. kept_to k D s t)"
      using t by (cases r) simp_all
  qed
qed

lemma kstep_seq [kstep_intros]: "kstep k D m \<Longrightarrow> kstep k D n \<Longrightarrow> kstep k D (kseq m n)"
  unfolding kseq_def by (rule kstep_bind)

lemma kstep_attempt [kstep_intros]: "kstep k D m \<Longrightarrow> kstep k D (kattempt m)" "kstep k D m \<Longrightarrow> kstep k D (kignore m)"
  by (simp_all add: kstep_def kwp_simps)

lemma kstep_if [kstep_intros]: "(c \<Longrightarrow> kstep k D m) \<Longrightarrow> (\<not> c \<Longrightarrow> kstep k D n) \<Longrightarrow> kstep k D (if c then m else n)"
  by simp

lemma kstep_cases [kstep_intros]:
  "(x = None \<Longrightarrow> kstep k D m) \<Longrightarrow> (\<And>y. x = Some y \<Longrightarrow> kstep k D (f y)) \<Longrightarrow> kstep k D (case x of None \<Rightarrow> m | Some y \<Rightarrow> f y)"
  "(\<And>e. r = Inl e \<Longrightarrow> kstep k D (g e)) \<Longrightarrow> (\<And>y. r = Inr y \<Longrightarrow> kstep k D (f' y)) \<Longrightarrow>
     kstep k D (case r of Inl e \<Rightarrow> g e | Inr y \<Rightarrow> f' y)"
  "(xs = [] \<Longrightarrow> kstep k D m') \<Longrightarrow> (\<And>y ys. xs = y # ys \<Longrightarrow> kstep k D (l y ys)) \<Longrightarrow>
     kstep k D (case xs of [] \<Rightarrow> m' | y # ys \<Rightarrow> l y ys)"
  "(\<And>a b. z = (a, b) \<Longrightarrow> kstep k D (p a b)) \<Longrightarrow> kstep k D (case z of (a, b) \<Rightarrow> p a b)"
  by (simp_all split: option.split sum.split list.split prod.split)

lemma kstep_mono: "kstep k D m \<Longrightarrow> D \<subseteq> E \<Longrightarrow> kstep k E m"
  by (simp add: kstep_def kwp_run kept_to_def on_disk_def) blast

lemma kstep_seal [kstep_intros]: "kit_ok k \<Longrightarrow> kstep k D (seal k pass aad m)" "kit_ok k \<Longrightarrow> kstep k D (seal_own k aad m)"
  unfolding seal_own_def seal_def by (intro kstep_intros)+

lemma kstep_files [kstep_intros]:
  assumes "kit_ok k" "\<And>a. length a = 64 \<Longrightarrow> name \<noteq> key_file a"
  shows "kstep k D (write_sealed name b)" "kstep k D (remove_sealed name)" "kstep k D (remove_if_present name)"
    "kstep k D (read_sealed nm)"
proof -
  have "well_kept k (s\<lparr>ticks := n, sealed_files := (sealed_files s)(name := x)\<rparr>)" if "well_kept k s" for s n x
    by (rule well_kept_files [OF _ assms(1,2)]) (simp_all add: that)
  note this [simp]
  show "kstep k D (write_sealed name b)" "kstep k D (remove_sealed name)"
    "kstep k D (remove_if_present name)" "kstep k D (read_sealed nm)"
    by (simp_all add: kstep_def write_sealed_def remove_sealed_def remove_if_present_def read_sealed_def kwp_simps
      kept_to_def on_disk_def Let_def)
qed

lemma kstep_save [kstep_intros]: "kit_ok k \<Longrightarrow> kstep k D save_state"
  by (simp add: kstep_def save_state_def kwp_simps kept_to_def on_disk_def Let_def well_kept_saved)

lemma kstep_evm_meta [kstep_intros]: "kit_ok k \<Longrightarrow> kstep k D (change_state (\<lambda>st. st\<lparr>evm_key := x\<rparr>))"
proof -
  assume k: "kit_ok k"
  have "backed k s (memory s)" if "well_kept k s" for s using that by (simp add: well_kept_def)
  then show ?thesis using k
    by (simp add: kstep_def change_state_def kwp_simps kept_to_def on_disk_def managed_def well_kept_memory)
qed

text \<open>A loaded key is the key of the address it was asked for.\<close>

lemma load_post:
  assumes "kit_ok k" "host_ok h" "well_kept k s"
  shows "kwp (load_by_address k a) h s (\<lambda>t r. kept_to k {} s t \<and> (\<forall>w. r = Inr w \<longrightarrow>
     address_hex k w = lower a \<and> w = key_from_secret k (key_secret w) \<and> length (key_secret w) = 32))"
    (is "kwp _ h s ?Q")
proof -
  let ?a = "lower a"
  have kept: "?Q (s1\<lparr>signer_cache := (signer_cache s1)(?a := Some (key_from_secret k x))\<rparr>) (Inr (key_from_secret k x))"
    if "s1 = s\<lparr>ticks := n\<rparr>" "length x = 32" "?a = own_address k x" for s1 n x
    using well_kept_cached [of k s1, OF _ assms(1) refl that(2,3)] assms(3) that
    by (auto simp: kept_to_def on_disk_def own_address_def key_from_secret_def)
  have same: "?Q (s\<lparr>ticks := n\<rparr>) (Inl e)" "?Q s (Inl e)" for n e
    using assms(3) by (simp_all add: kept_to_def on_disk_def)
  show ?thesis
  proof (cases "signer_cache s ?a")
    case (Some w)
    then show ?thesis using assms(3)
      by (auto simp: load_by_address_def Let_def kwp_simps kept_refl well_kept_def cache_kept_def)
  next
    case None
    have b: "backed k s (memory s)" using assms(3) by (simp add: well_kept_def)
    consider i where "map_of (derived (memory s)) ?a = Some i"
      | "map_of (derived (memory s)) ?a = None" "?a \<in> set (imported (memory s))"
      | "map_of (derived (memory s)) ?a = None" "?a \<notin> set (imported (memory s))"
      by fastforce
    then show ?thesis
    proof cases
      case (1 i)
      then obtain sd where sd: "seed64 s = Some sd" "?a = own_address k (derived_secret k sd i)"
        using key_backedD(1) [OF b] by blast
      show ?thesis
        using kept [of s "ticks s" "derived_secret k sd i"] sd None 1 kit_okD(2) [OF assms(1)]
        by (simp add: load_by_address_def Let_def kwp_simps derive_key_def cache_key_def derived_secret_def)
    next
      case 2
      then obtain x bl where x: "length x = 32" "?a = own_address k x" "sealed_files s (key_file ?a) = Some bl"
        "unseal (cipher k) (passwd s) imported_aad bl = Inr x"
        using key_backedD(2) [OF b 2(2)] by (auto simp: key_at_def)
      have "kwp (load_by_address k a) h s Q \<longleftrightarrow> (let s1 = s\<lparr>ticks := ticks s + 1\<rparr> in
          if io_fails h (ticks s) then Q s1 (Inl (Io ''read''))
          else Q (s1\<lparr>signer_cache := (signer_cache s1)(?a := Some (key_from_secret k x))\<rparr>) (Inr (key_from_secret k x)))" for Q
        using None 2 x by (simp add: load_by_address_def Let_def kwp_simps read_sealed_def of_length_def cache_key_def)
      then show ?thesis using kept [OF refl x(1,2)] same(1) by (simp add: Let_def)
    next
      case 3
      then show ?thesis using None same(2) by (simp add: load_by_address_def Let_def kwp_simps)
    qed
  qed
qed

lemma kstep_load [kstep_intros]: "kit_ok k \<Longrightarrow> kstep k D (load_by_address k a)"
proof -
  assume k: "kit_ok k"
  have "kstep k {} (load_by_address k a)"
    by (rule kstepI, rule kwp_mono [OF load_post [OF k]]) auto
  then show ?thesis by (rule kstep_mono) simp
qed

text \<open>An imported key is listed, in its file and in the cache, or nothing is listed anew.\<close>

lemma backed_imported:
  assumes "backed k s st" "\<not> managed st addr" "key_at k s addr secret"
  shows "backed k s (add_label addr lb (st\<lparr>imported := imported st @ [addr]\<rparr>))"
  using assms by (auto simp: backed_def managed_def)

lemma import_post:
  assumes "kit_ok k" "host_ok h" "well_kept k s" "length secret = 32"
  shows "kwp (import_secret k secret lb) h s (\<lambda>t r. kept_to k {} s t \<and> (\<forall>a. r = Inr a \<longrightarrow>
     a = own_address k secret \<and> a \<in> set (imported (memory t)) \<and> key_at k t a secret
       \<and> state_file t = Some (memory t) \<and> (\<forall>b. managed (memory t) b \<longleftrightarrow> managed (memory s) b \<or> b = a)))"
proof -
  let ?a = "own_address k secret" and ?Q = "\<lambda>t r. kept_to k {} s t \<and> (\<forall>a. r = Inr a \<longrightarrow>
     a = own_address k secret \<and> a \<in> set (imported (memory t)) \<and> key_at k t a secret
       \<and> state_file t = Some (memory t) \<and> (\<forall>b. managed (memory t) b \<longleftrightarrow> managed (memory s) b \<or> b = a))"
  have step: "kwp (kseq (write_sealed (key_file ?a) b)
      (kbind (kget memory) (\<lambda>st. if managed st ?a then kraise (WalletAlreadyExists ?a)
       else kseq (change_state (\<lambda>st. add_label ?a lb (st\<lparr>imported := imported st @ [?a]\<rparr>)))
         (kseq save_state (kseq (cache_key ?a (key_from_secret k secret)) (kret ?a)))))) h (s\<lparr>ticks := n\<rparr>) ?Q"
    if b: "unseal (cipher k) (passwd s) imported_aad b = Inr secret" for b n
  proof -
    define u where "u = s\<lparr>ticks := n + 1, sealed_files := (sealed_files s)(key_file ?a := Some b)\<rparr>"
    have u: "well_kept k u" "key_at k u ?a secret"
      using well_kept_written [of k "s\<lparr>ticks := n + 1\<rparr>" b secret] key_at_written [of k "s\<lparr>ticks := n + 1\<rparr>" b secret]
        assms b by (simp_all add: u_def)
    have at: "key_at k t ?a secret" if "sealed_files t = sealed_files u" "passwd t = passwd u" for t
      using u(2) that by (simp add: key_at_def)
    define v where "v = u\<lparr>memory := add_label ?a lb ((memory u)\<lparr>imported := imported (memory u) @ [?a]\<rparr>)\<rparr>"
    have v: "well_kept k v" if "\<not> managed (memory s) ?a"
      unfolding v_def
      by (rule well_kept_memory [OF u(1) assms(1)], rule backed_imported [OF _ _ u(2)])
         (use u(1) that in \<open>simp_all add: well_kept_def u_def\<close>)
    have mem: "managed (memory v) a" if "managed (memory s) a" for a
      using that by (auto simp: v_def u_def managed_def)
    have lists: "?a \<in> set (imported (memory v))" "managed (memory v) b \<longleftrightarrow> managed (memory s) b \<or> b = ?a" for b
      by (auto simp: v_def u_def managed_def)
    have w: "well_kept k (v\<lparr>ticks := m, state_file := Some (memory v)\<rparr>)" if "\<not> managed (memory s) ?a" for m
      by (rule well_kept_saved [OF _ assms(1)]) (simp_all add: v that)
    have x: "well_kept k (v\<lparr>ticks := m, state_file := Some (memory v),
        signer_cache := (signer_cache v)(?a := Some (key_from_secret k secret))\<rparr>)" if "\<not> managed (memory s) ?a" for m
      by (rule well_kept_cached [OF w [OF that] assms(1) refl assms(4) refl]) simp
    have same: "passwd v = passwd s" "seed64 v = seed64 s" "sealed_files v = sealed_files u" "passwd u = passwd s"
      "seed64 u = seed64 s" "memory u = memory s" "state_file v = state_file s" "state_file u = state_file s"
      by (simp_all add: u_def v_def)
    have "kept_to k {} s (s\<lparr>ticks := n + 1\<rparr>)" using assms(3) by (simp add: kept_to_def on_disk_def)
    moreover have "kept_to k {} s u" using u(1) same by (simp add: kept_to_def on_disk_def)
    moreover have "kept_to k {} s (v\<lparr>ticks := n + 2\<rparr>)" if "\<not> managed (memory s) ?a"
      using v that mem same by (simp add: kept_to_def on_disk_def)
    moreover have "kept_to k {} s (v\<lparr>ticks := n + 2, state_file := Some (memory v),
        signer_cache := (signer_cache v)(?a := Some (key_from_secret k secret))\<rparr>)" if "\<not> managed (memory s) ?a"
      using x that mem same by (simp add: kept_to_def on_disk_def)
    ultimately show ?thesis
      using lists at same
      by (simp add: write_sealed_def kwp_simps Let_def change_state_def save_state_def cache_key_def
          u_def [symmetric] v_def u_def)
  qed
  show ?thesis
    unfolding import_secret_def Let_def own_address_def [symmetric] seal_own_def
    by (subst kwp_bind, subst kwp_bind, simp only: kwp_prim sum.case)
       (rule kwp_seal [OF assms(1,2)], simp only: sum.case, rule step)
qed

text \<open>A host on which no call of the file system fails; there the import of a new key succeeds.\<close>

definition steady :: "host \<Rightarrow> bool" where
  "steady h \<longleftrightarrow> (\<forall>i. \<not> io_fails h i)"

lemma import_succeeds:
  assumes "kit_ok k" "host_ok h" "steady h" "\<not> managed (memory s) (own_address k x)"
  shows "kwp (import_secret k x lb) h s (\<lambda>t r. r = Inr (own_address k x))"
proof -
  have step: "kwp (kseq (write_sealed (key_file a) b) (kbind (kget memory) (\<lambda>st. if managed st a then kraise e
       else kseq (change_state f) (kseq save_state (kseq (cache_key a w) (kret a)))))) h (s\<lparr>ticks := n\<rparr>) (\<lambda>t r. r = Inr a)"
    if "\<not> managed (memory s) a" for a b e f w n
    using that assms(3) by (simp add: write_sealed_def kwp_simps change_state_def save_state_def cache_key_def Let_def steady_def)
  show ?thesis
    unfolding import_secret_def Let_def own_address_def [symmetric] seal_own_def
    by (subst kwp_bind, subst kwp_bind, simp only: kwp_prim sum.case)
       (rule kwp_seal [OF assms(1,2)], simp only: sum.case, rule step [OF assms(4)])
qed

lemma kstep_import [kstep_intros]: "kit_ok k \<Longrightarrow> length secret = 32 \<Longrightarrow> kstep k D (import_secret k secret lb)"
proof -
  assume k: "kit_ok k" "length secret = 32"
  have "kstep k {} (import_secret k secret lb)"
    by (rule kstepI, rule kwp_mono [OF import_post [OF k(1) _ _ k(2)]]) auto
  then show ?thesis by (rule kstep_mono) simp
qed

text \<open>A new derived address takes the next index, and the index is used up.\<close>

lemma next_index_grows: "i < j \<Longrightarrow> j \<noteq> - 1 \<Longrightarrow> i < j + (1 :: u32)" "j \<noteq> - 1 \<Longrightarrow> j < j + (1 :: u32)"
proof -
  have "j < j + 1" if "j \<noteq> - 1"
    using that by (metis add.commute eq_neg_iff_add_eq_0 unatSuc lessI word_less_nat_alt)
  then show "i < j \<Longrightarrow> j \<noteq> - 1 \<Longrightarrow> i < j + 1" "j \<noteq> - 1 \<Longrightarrow> j < j + 1" by auto
qed

lemma backed_derived:
  assumes "backed k s st" "seed64 s = Some sd" "next_index st \<noteq> - 1"
  shows "backed k s (add_label a lb (st\<lparr>next_index := next_index st + 1,
     derived := map_insert (own_address k (derived_secret k sd (next_index st))) (next_index st) (derived st)\<rparr>))"
  using assms next_index_grows(1) [OF _ assms(3)] next_index_grows(2) [OF assms(3)]
  by (auto simp: backed_def ordered_insert dest: key_at_same [unfolded same_keys_def])

lemma kstep_create [kstep_intros]:
  assumes k: "kit_ok k"
  shows "kstep k D (create_derived k lb)"
proof (rule kstepI)
  fix h s assume h: "host_ok h" and s: "well_kept k s"
  let ?i = "next_index (memory s)"
  show "kwp (create_derived k lb) h s (\<lambda>t _. kept_to k D s t)"
  proof (cases "seed64 s = None \<or> ?i = - 1")
    case True
    then show ?thesis using s by (auto simp: create_derived_def kwp_simps kept_refl)
  next
    case False
    then obtain sd where sd: "seed64 s = Some sd" and i: "?i \<noteq> - 1" by auto
    let ?x = "derived_secret k sd ?i"
    let ?a = "own_address k ?x"
    define v where "v = s\<lparr>memory := add_label ?a lb ((memory s)\<lparr>next_index := ?i + 1,
      derived := map_insert ?a ?i (derived (memory s))\<rparr>)\<rparr>"
    have v: "well_kept k v"
      unfolding v_def by (rule well_kept_memory [OF s k], rule backed_derived [OF _ sd i]) (use s in \<open>simp add: well_kept_def\<close>)
    have w: "well_kept k (v\<lparr>ticks := m, state_file := Some (memory v)\<rparr>)" for m
      by (rule well_kept_saved [OF _ k]) (simp_all add: v)
    have x: "well_kept k (v\<lparr>ticks := m, state_file := Some (memory v), signer_cache := (signer_cache v)(?a := Some (key_from_secret k ?x))\<rparr>)" for m
      by (rule well_kept_cached [OF w k refl _ refl]) (simp_all add: derived_secret_def kit_okD(2) [OF k])
    have mem: "managed (memory v) a" if "managed (memory s) a" for a
      using that by (auto simp: v_def managed_def)
    have same: "passwd v = passwd s" "seed64 v = seed64 s" "state_file v = state_file s" by (simp_all add: v_def)
    have "kept_to k D s (v\<lparr>ticks := m\<rparr>)" for m using v mem same by (simp add: kept_to_def on_disk_def)
    moreover have "kept_to k D s (v\<lparr>ticks := m, state_file := Some (memory v), signer_cache := (signer_cache v)(?a := Some (key_from_secret k ?x))\<rparr>)" for m
      using x mem same by (simp add: kept_to_def on_disk_def)
    ultimately show ?thesis using sd i
      by (simp add: create_derived_def kwp_simps Let_def derive_key_def change_state_def save_state_def cache_key_def
          own_address_def [symmetric] v_def)
  qed
qed

text \<open>A deletion: first the lists, then the state file, and the key only when both have lost the address.\<close>

lemma backed_forget: "backed k s st \<Longrightarrow> backed k s (forget a st)"
  by (auto simp: backed_def forget_def ordered_remove dest: notin_set_remove1 split: if_splits)

lemma well_kept_dropped:
  assumes "well_kept k s" "a \<notin> set (imported (memory s))" "state_file s = Some (memory s)"
    "F = (sealed_files s)(key_file a := None)"
  shows "well_kept k (s\<lparr>sealed_files := F\<rparr>)"
proof -
  have "backed k (s\<lparr>sealed_files := F\<rparr>) (memory s)"
    using assms by (fastforce simp: well_kept_def backed_def key_at_def)
  then show ?thesis using assms(1,3) by (auto simp: well_kept_def seed_kept_def cache_kept_def)
qed

lemma kstep_verify [kstep_intros]: "kit_ok k \<Longrightarrow> kstep k D (verify_passphrase k pass)"
  unfolding verify_passphrase_def unseal_entropy_def read_sealed_def by (intro kstep_intros)

lemma kstep_drop_phrase [kstep_intros]: "kit_ok k \<Longrightarrow> kstep k D (kignore (remove_if_present (mnemonic_file a)))"
  by (intro kstep_intros) simp_all

lemma drop_key_kept:
  assumes k: "kit_ok k" and h: "host_ok h" and t: "kept_to k D s t"
    and a: "a \<notin> set (imported (memory t))" "state_file t = Some (memory t)"
  shows "kwp (kseq (remove_if_present (key_file a)) (kignore (remove_if_present (mnemonic_file a)))) h t (\<lambda>u _. kept_to k D s u)"
proof -
  have t': "well_kept k t" using t by (simp add: kept_to_def on_disk_def)
  have "well_kept k (t\<lparr>ticks := m, sealed_files := (sealed_files t)(key_file a := None)\<rparr>)" for m
    by (rule well_kept_dropped [of _ _ a]) (use t' a in simp_all)
  then have *: "kept_to k D s (t\<lparr>ticks := m, sealed_files := (sealed_files t)(key_file a := None)\<rparr>)" "kept_to k D s (t\<lparr>ticks := m\<rparr>)" for m
    using t by (simp_all add: kept_to_def on_disk_def)
  note rest = kstepD [OF kstep_drop_phrase [OF k] h]
  show ?thesis
    unfolding kwp_seq
    by (simp add: remove_if_present_def [of "key_file a"] remove_sealed_def kwp_simps(6,5,7) kwp_bind kwp_fs kwp_prim Let_def * rest t)
qed

lemma kstep_delete: "kit_ok k \<Longrightarrow> kstep k {lower a} (delete_address k a pass)"
proof (rule kstepI)
  fix h s assume k: "kit_ok k" and h: "host_ok h" and s: "well_kept k s"
  let ?a = "lower a" and ?P = "\<lambda>t _. kept_to k {lower a} s t"
  have rest: "kwp (kseq (change_state (forget ?a)) (kseq save_state
      (kseq (kmem (\<lambda>s. s\<lparr>signer_cache := (signer_cache s)(?a := None)\<rparr>))
        (if ?a \<in> set (imported (memory t)) then kseq (remove_if_present (key_file ?a)) (kignore (remove_if_present (mnemonic_file ?a)))
         else kret ())))) h t ?P"
    if t: "kept_to k {?a} s t" for t
  proof -
    have t': "well_kept k t" using t by (simp add: kept_to_def on_disk_def)
    then have b: "backed k t (memory t)" by (simp add: well_kept_def)
    define v where "v = t\<lparr>memory := forget ?a (memory t)\<rparr>"
    have v: "well_kept k v" unfolding v_def by (rule well_kept_memory [OF t' k backed_forget [OF b]])
    have mem: "managed (memory v) x" if "managed (memory t) x" "x \<noteq> ?a" for x
      using that by (auto simp: v_def managed_def forget_def)
    have to_v: "kept_to k {?a} s u" if "well_kept k u" "passwd u = passwd v" "seed64 u = seed64 v" "memory u = memory v"
      "state_file u = state_file v \<or> state_file u = Some (memory u)" for u
      using that t mem by (auto simp: kept_to_def on_disk_def v_def)
    define w where "w = v\<lparr>ticks := ticks t + 1, state_file := Some (memory v), signer_cache := (signer_cache v)(?a := None)\<rparr>"
    have w: "well_kept k w"
      unfolding w_def by (rule well_kept_uncached, rule well_kept_saved [OF _ k]) (simp_all add: v)
    have "kept_to k {?a} s w" by (rule to_v) (simp_all add: w, simp_all add: w_def)
    moreover have "?a \<notin> set (imported (memory w))" using b by (simp add: w_def v_def forget_def backed_def)
    ultimately have "kwp (kseq (remove_if_present (key_file ?a)) (kignore (remove_if_present (mnemonic_file ?a)))) h w ?P"
      by (rule drop_key_kept [OF k h]) (simp add: w_def)
    moreover have "kept_to k {?a} s (v\<lparr>ticks := ticks t + 1\<rparr>)" by (rule to_v) (simp_all add: v)
    ultimately show ?thesis
      using \<open>kept_to k {?a} s w\<close>
      by (simp add: kwp_seq kwp_prim change_state_def save_state_def kwp_fs Let_def v_def w_def)
  qed
  have "kwp (verify_passphrase k pass) h s ?P" by (rule kstepD [OF kstep_verify [OF k] h kept_refl [OF s]])
  then show "kwp (delete_address k a pass) h s ?P"
    unfolding delete_address_def Let_def kwp_seq [of "verify_passphrase k pass"]
  proof (rule kwp_mono)
    fix t r assume "?P t r"
    then show "case r of Inl d \<Rightarrow> ?P t (Inl d) | Inr _ \<Rightarrow> kwp (kbind (kget memory) (\<lambda>st.
        if \<not> managed st ?a then kraise (WalletNotFound ?a) else kseq (change_state (forget ?a)) (kseq save_state
          (kseq (kmem (\<lambda>s. s\<lparr>signer_cache := (signer_cache s)(?a := None)\<rparr>))
          (if ?a \<in> set (imported st) then kseq (remove_if_present (key_file ?a)) (kignore (remove_if_present (mnemonic_file ?a)))
           else kret ()))))) h t ?P"
      using rest [of t] by (simp add: kwp_bind kwp_prim split: sum.split)
  qed
qed

section \<open>Every operation\<close>

lemma kstep_reveal [kstep_intros]:
  assumes k: "kit_ok k"
  shows "kstep k D (unseal_entropy k pass)" "kstep k D (reveal_mnemonic k pass)" "kstep k D (reveal_secret k a pass)"
    "kstep k D (reveal_address_mnemonic k a pass)" "kstep k D (derive_key k i)" "kstep k D (evm_secret k)"
    "kstep k D (reveal_evm_secret k pass)" "kstep k D (evm_address_opt k)" "kstep k D (export_evm_for_vault k)"
  by (simp_all only: unseal_entropy_def reveal_mnemonic_def reveal_secret_def reveal_address_mnemonic_def Let_def read_sealed_def
      derive_key_def evm_secret_def reveal_evm_secret_def evm_address_opt_def export_evm_for_vault_def)
     (intro kstep_intros k)+

lemma kstep_reveal_evm_mnemonic [kstep_intros]: "kit_ok k \<Longrightarrow> kstep k D (reveal_evm_mnemonic k pass)"
  unfolding reveal_evm_mnemonic_def read_sealed_def
  by (intro kstep_intros) (auto split: evm_key_source.split intro!: kstep_intros)

text \<open>Bytes whose number is known.\<close>

lemma kstep_bind_length:
  "(\<And>x. length x = n \<Longrightarrow> kstep k D (f x)) \<Longrightarrow> kstep k D (kbind (kres (of_length e n b)) f)"
  by (auto simp: kstep_def kwp_simps of_length_def kept_refl)

lemma kstep_bind_fill: "(\<And>x. length x = n \<Longrightarrow> kstep k D (f x)) \<Longrightarrow> kstep k D (kbind (fill_bytes n) f)"
proof (rule kstepI)
  fix h s assume f: "\<And>x. length x = n \<Longrightarrow> kstep k D (f x)" and h: "host_ok h" and s: "well_kept k s"
  then have "kstep k D (f (os_random h (ticks s) n))" by (intro f) (simp add: host_ok_def)
  moreover have "kept_to k D s (s\<lparr>ticks := ticks s + 1\<rparr>)" using s by (simp add: kept_to_def on_disk_def)
  ultimately show "kwp (kbind (fill_bytes n) f) h s (\<lambda>t _. kept_to k D s t)"
    using kstepD [OF _ h] by (simp add: kwp_simps)
qed

lemma kstep_new_keys [kstep_intros]:
  assumes k: "kit_ok k"
  shows "kstep k D (seal_standard_mnemonic k a e)" "kstep k D (create_standard k lb)"
    "kstep k D (import_mnemonic k p lb)" "kstep k D (import_standard_mnemonic k p lb)"
proof -
  show *: "kstep k D (seal_standard_mnemonic k a e)" for a e
    unfolding seal_standard_mnemonic_def by (intro kstep_intros k) simp_all
  have l: "length (standard_secret k e) = 32" for e by (simp add: standard_secret_def kit_okD(3) [OF k])
  show "kstep k D (create_standard k lb)" "kstep k D (import_standard_mnemonic k p lb)"
    unfolding create_standard_def import_standard_mnemonic_def Let_def generate_mnemonic_def by (intro kstep_intros k l *)+
  show "kstep k D (import_mnemonic k p lb)"
    unfolding import_mnemonic_def
    by (rule kstep_bind, rule kstep_prim, rule kstep_bind_length, rule kstep_import [OF k])
qed

lemma kstep_create_independent [kstep_intros]: "kit_ok k \<Longrightarrow> kstep k D (create_independent k lb)"
  unfolding create_independent_def
  by (rule kstep_bind_fill, rule kstep_bind, erule (1) kstep_import, rule kstep_prim)

end
