(* ===== verification/KeyringSample.thy ===== *)
theory KeyringSample imports KeyringSafe "HOL-Library.Countable" begin

text \<open>
  Libraries and an operating system that do what the keystore relies on, and stores made with them: the
  statements about the keystore are applied to these.
\<close>

fun letters :: "bytes \<Rightarrow> string" where
  "letters [] = []"
| "letters (b # bs) = char_of (97 + unat b div 16) # char_of (97 + unat b mod 16) # letters bs"

fun unletters :: "string \<Rightarrow> bytes option" where
  "unletters [] = Some []"
| "unletters [c] = None"
| "unletters (c # d # cs) = map_option (Cons (word_of_nat ((of_char c - 97) * 16 + (of_char d - 97)))) (unletters cs)"

lemma letters_spec: "lower (letters b) = letters b" "length (letters b) = 2 * length b" "unletters (letters b) = Some b"
proof -
  have small: "unat x div 16 < 16" for x :: u8 using word_unat_less [of x] by simp
  have c: "(97 + n) mod 256 = 97 + n" if "n < 16" for n :: nat using that by simp
  have m: "(97 + unat x mod 16) mod 256 = 97 + unat x mod 16" "(97 + unat x div 16) mod 256 = 97 + unat x div 16" for x :: u8
    by (rule c, simp) (rule c, rule small)
  show "lower (letters b) = letters b"
    by (induction b) (simp_all add: lower_def Let_def m)
  show "length (letters b) = 2 * length b" by (induction b) simp_all
  have undone: "word_of_nat ((97 + unat x div 16 - 97) * 16 + (97 + unat x mod 16 - 97)) = x" for x :: u8
    by (simp add: word_unat_eq_iff)
  show "unletters (letters b) = Some b"
    by (induction b) (simp_all add: m undone)
qed

instance json :: countable by countable_datatype

definition fixed32 :: "bytes \<Rightarrow> bytes" where
  "fixed32 b = take 32 (b @ replicate 32 0)"

lemma fixed32: "length (fixed32 b) = 32" "length b = 32 \<Longrightarrow> fixed32 b = b"
  by (simp_all add: fixed32_def)

definition sample_kit :: kit where
  "sample_kit = \<lparr>cipher = sample_aead, verifying_key = (\<lambda>x. x), pubkey_hash = fixed32,
     slip10 = (\<lambda>sd p. fixed32 (u32_to_be (last p) @ sd)), bip39_parse = unletters, bip39_words = (\<lambda>e. Some [letters e]),
     bip39_seed = (\<lambda>e. e), bip32_evm = (\<lambda>sd. Some (fixed32 sd)), sha256_of = fixed32, secp = sample_alloy,
     hex_of_bytes = letters, bytes_of_hex = unletters,
     json_text = (\<lambda>v. replicate (to_nat v) 0), json_of_text = (\<lambda>b. Some (from_nat (length b)))\<rparr>"

definition quiet_host :: host where
  "quiet_host = \<lparr>io_fails = (\<lambda>_. False), os_random = (\<lambda>i n. replicate n (word_of_nat i)), os_clock = (\<lambda>_. 0)\<rparr>"

definition empty_store :: "bytes \<Rightarrow> keystore" where
  "empty_store pass = \<lparr>seed_file = None, state_file = None, sealed_files = (\<lambda>_. None), seed64 = None, fresh_mnemonic = None,
     passwd = pass, memory = default_state, signer_cache = (\<lambda>_. None), ticks = 0\<rparr>"

lemma sample_address: "length x = 32 \<Longrightarrow> own_address sample_kit x = letters x"
  by (simp add: own_address_def address_hex_def key_from_secret_def sample_kit_def fixed32)

lemma sample_kit_ok: "kit_ok sample_kit"
proof -
  have "own_address sample_kit x = own_address sample_kit y \<Longrightarrow> x = y" if "length x = 32" "length y = 32" for x y
    using that letters_spec(3) by (metis sample_address option.inject)
  moreover have "cipher sample_kit = sample_aead" "slip10 sample_kit sd p = fixed32 (u32_to_be (last p) @ sd)"
    "sha256_of sample_kit m = fixed32 m" "pubkey_hash sample_kit m = fixed32 m" "hex_of_bytes sample_kit m = letters m"
    "bytes_of_hex sample_kit h = unletters h" for sd p m h
    by (simp_all add: sample_kit_def)
  ultimately show ?thesis
    using sample_aead_ok letters_spec fixed32(1) by (simp add: kit_ok_def)
qed

lemma sample_json: "json_of_text sample_kit (json_text sample_kit v) = Some v"
  by (simp add: sample_kit_def)

lemma quiet_host_ok: "host_ok quiet_host" "\<not> io_fails quiet_host i"
  by (simp_all add: host_ok_def quiet_host_def)

lemma empty_store_kept: "well_kept k (empty_store pass)"
  by (simp add: well_kept_def backed_def seed_kept_def cache_kept_def empty_store_def default_state_def ordered_def)

text \<open>A key of its own, imported into a store that is empty.\<close>

definition sample_secret :: bytes where "sample_secret = replicate 32 5"
definition sample_name :: string where "sample_name = letters sample_secret"

definition one_key :: keystore where
  "one_key = fst (import_secret sample_kit sample_secret None quiet_host (empty_store [112]))"

lemma one_key:
  "import_secret sample_kit sample_secret None quiet_host (empty_store [112]) = (one_key, Inr sample_name)"
  "well_kept sample_kit one_key" "managed (memory one_key) sample_name" "passwd one_key = [112]" "seed64 one_key = None"
  "state_file one_key = Some (memory one_key)"
proof -
  have l: "length sample_secret = 32" by (simp add: sample_secret_def)
  have name: "own_address sample_kit sample_secret = sample_name" using l by (simp add: sample_address sample_name_def)
  have "snd (import_secret sample_kit sample_secret None quiet_host (empty_store [112])) = Inr (own_address sample_kit sample_secret)"
    using import_succeeds [OF sample_kit_ok quiet_host_ok(1), of "empty_store [112]" sample_secret None]
    by (simp add: kwp_run steady_def quiet_host_ok(2) empty_store_def managed_def default_state_def)
  then show i: "import_secret sample_kit sample_secret None quiet_host (empty_store [112]) = (one_key, Inr sample_name)"
    by (simp add: one_key_def prod_eq_iff name)
  have "kept_to sample_kit {} (empty_store [112]) one_key \<and> managed (memory one_key) sample_name
      \<and> state_file one_key = Some (memory one_key)"
    using import_post [OF sample_kit_ok quiet_host_ok(1) empty_store_kept [of _ "[112]"] l, of None, unfolded kwp_def i]
    by (simp add: name)
  then show "well_kept sample_kit one_key" "managed (memory one_key) sample_name" "passwd one_key = [112]" "seed64 one_key = None"
    "state_file one_key = Some (memory one_key)"
    by (simp_all add: kept_to_def empty_store_def)
qed

end
