(* ===== verification/KeyringRuns.thy ===== *)
theory KeyringRuns imports KeyringSample begin

text \<open>
  The store as its clients use it: any sequence of calls, each with the failures of the file system that the
  host chooses, then a restart; what the passphrase guards; and the places where the code gives less.
\<close>

section \<open>The remaining operations\<close>

lemma kstep_persist [kstep_intros]:
  assumes k: "kit_ok k"
  shows "kstep k D (persist_evm_key k secret mn a src)"
proof -
  have "kstep k D (write_sealed evm_key_file b)" "kstep k D (write_sealed evm_mnemonic_file b)"
    "kstep k D (remove_sealed evm_key_file)" "kstep k D (remove_sealed evm_mnemonic_file)"
    "kstep k D (remove_if_present evm_mnemonic_file)" "kstep k D (remove_if_present evm_key_file)" for b
    by (intro kstep_intros k; simp)+
  then show ?thesis unfolding persist_evm_key_def by (intro kstep_intros k) simp_all
qed

lemma kstep_evm [kstep_intros]:
  assumes k: "kit_ok k"
  shows "kstep k D (create_evm_key k f)" "kstep k D (import_evm_mnemonic k p f)" "kstep k D (import_evm_key k x f)"
    "kstep k D (delete_evm_key k pass)" "kstep k D (restore_evm_from_vault k v)"
proof -
  have *: "kstep k D (remove_if_present evm_mnemonic_file)" "kstep k D (remove_if_present evm_key_file)"
    "kstep k D (read_sealed nm)" for nm
    by (intro kstep_intros k; simp)+ (simp add: read_sealed_def kstep_prim)
  show "kstep k D (create_evm_key k f)" "kstep k D (import_evm_mnemonic k p f)" "kstep k D (import_evm_key k x f)"
    unfolding create_evm_key_def import_evm_mnemonic_def import_evm_key_def guard_evm_overwrite_def generate_mnemonic_def
    by (intro kstep_intros k)+
  show "kstep k D (delete_evm_key k pass)" unfolding delete_evm_key_def by (intro kstep_intros k *)
  show "kstep k D (restore_evm_from_vault k v)" unfolding restore_evm_from_vault_def Let_def by (intro kstep_intros k)
qed

lemma kstep_keys_json [kstep_intros]: "kit_ok k \<Longrightarrow> kstep k D (keys_json k es)"
  by (induction es) (auto intro!: kstep_intros)

lemma kstep_export [kstep_intros]: "kit_ok k \<Longrightarrow> kstep k D (export_selected k as pass)"
  unfolding export_selected_def list_entries_def Let_def by (intro kstep_intros)

lemma vault_key_length: "vault_key k v = Inr (secret, lb) \<Longrightarrow> length secret = 32"
  by (auto simp: vault_key_def of_length_def result_simps split: if_splits)

lemma kstep_import_keys [kstep_intros]: "kit_ok k \<Longrightarrow> kstep k D (import_keys k vs)"
proof (induction vs)
  case (Cons v vs)
  show ?case
  proof (cases "vault_key k v")
    case (Inl e)
    then show ?thesis by (auto simp: kstep_def kwp_simps kept_refl)
  next
    case (Inr z)
    obtain x lb where z: "z = (x, lb)" by (cases z)
    have "kstep k D (kbind (exists_address (address_hex k (key_from_secret k x))) (\<lambda>known.
       if known then import_keys k vs
       else kbind (import_secret k x lb) (\<lambda>addr. kbind (import_keys k vs) (\<lambda>addrs. kret (addr # addrs)))))"
      unfolding exists_address_def using Cons Inr z vault_key_length by (intro kstep_intros) auto
    then show ?thesis using Inr z by (simp add: kstep_def kwp_simps)
  qed
qed (simp add: kstep_prim)

lemma kstep_import_vault [kstep_intros]: "kit_ok k \<Longrightarrow> kstep k D (import_vault k b pass)"
  unfolding import_vault_def by (intro kstep_intros)

section \<open>Calls\<close>

text \<open>One call of the store's interface.\<close>

datatype kcall =
    CreateDerived "string option" | CreateIndependent "string option" | CreateStandard "string option"
  | ImportSecret bytes "string option" | ImportMnemonic string "string option" | ImportStandard string "string option"
  | LoadKey string | RevealSecret string bytes | RevealWords string bytes | RevealSeed bytes
  | CreateEvm bool | ImportEvmPhrase string bool | ImportEvmKey bytes bool | DeleteEvm bytes
  | RevealEvmKey bytes | RevealEvmWords bytes | EvmAddress
  | ExportVault "string list" bytes | ImportVault bytes bytes | DeleteAddress string bytes

definition kforget :: "'a kop \<Rightarrow> unit kop" where
  "kforget m = kbind m (\<lambda>_. kret ())"

definition kperform :: "kit \<Rightarrow> kcall \<Rightarrow> unit kop" where
  "kperform k c = (case c of
     CreateDerived l \<Rightarrow> kforget (create_derived k l)
   | CreateIndependent l \<Rightarrow> kforget (create_independent k l)
   | CreateStandard l \<Rightarrow> kforget (create_standard k l)
   | ImportSecret x l \<Rightarrow> kforget (import_secret k x l)
   | ImportMnemonic p l \<Rightarrow> kforget (import_mnemonic k p l)
   | ImportStandard p l \<Rightarrow> kforget (import_standard_mnemonic k p l)
   | LoadKey a \<Rightarrow> kforget (load_by_address k a)
   | RevealSecret a p \<Rightarrow> kforget (reveal_secret k a p)
   | RevealWords a p \<Rightarrow> kforget (reveal_address_mnemonic k a p)
   | RevealSeed p \<Rightarrow> kforget (reveal_mnemonic k p)
   | CreateEvm f \<Rightarrow> kforget (create_evm_key k f)
   | ImportEvmPhrase p f \<Rightarrow> kforget (import_evm_mnemonic k p f)
   | ImportEvmKey x f \<Rightarrow> kforget (import_evm_key k x f)
   | DeleteEvm p \<Rightarrow> delete_evm_key k p
   | RevealEvmKey p \<Rightarrow> kforget (reveal_evm_secret k p)
   | RevealEvmWords p \<Rightarrow> kforget (reveal_evm_mnemonic k p)
   | EvmAddress \<Rightarrow> kforget (evm_address_opt k)
   | ExportVault as p \<Rightarrow> kforget (export_selected k as p)
   | ImportVault b p \<Rightarrow> kforget (import_vault k b p)
   | DeleteAddress a p \<Rightarrow> delete_address k a p)"

text \<open>The secrets of the interface are arrays of 32 bytes.\<close>

definition sized :: "kcall \<Rightarrow> bool" where
  "sized c = (case c of ImportSecret x _ \<Rightarrow> length x = 32 | ImportEvmKey x _ \<Rightarrow> length x = 32 | _ \<Rightarrow> True)"

definition deletes :: "kcall \<Rightarrow> string set" where
  "deletes c = (case c of DeleteAddress a _ \<Rightarrow> {lower a} | _ \<Rightarrow> {})"

text \<open>Calls one after the other; the failures are those of one host, which numbers them through.\<close>

fun kcalls :: "kit \<Rightarrow> host \<Rightarrow> kcall list \<Rightarrow> keystore \<Rightarrow> keystore" where
  "kcalls k h [] s = s"
| "kcalls k h (c # cs) s = kcalls k h cs (fst (kperform k c h s))"

lemma kstep_perform: "kit_ok k \<Longrightarrow> sized c \<Longrightarrow> kstep k (deletes c) (kperform k c)"
proof -
  assume k: "kit_ok k" and c: "sized c"
  show ?thesis
    using c by (cases c)
      (simp_all add: kperform_def kforget_def deletes_def sized_def kstep_delete [OF k], (intro kstep_intros k; simp)+)
qed

lemma kcalls_kept:
  assumes "kit_ok k" "host_ok h" "well_kept k s" "\<forall>c \<in> set cs. sized c"
  shows "kept_to k (\<Union>c \<in> set cs. deletes c) s (kcalls k h cs s)"
  using assms
proof (induction cs arbitrary: s)
  case (Cons c cs)
  let ?t = "fst (kperform k c h s)"
  have t: "kept_to k (deletes c) s ?t"
    using kstepD [OF kstep_perform [OF Cons.prems(1), of c] Cons.prems(2) kept_refl [OF Cons.prems(3)]] Cons.prems(4)
    by (simp add: kwp_run)
  then have "kept_to k (\<Union>c \<in> set cs. deletes c) ?t (kcalls k h cs ?t)"
    using Cons by (simp add: kept_to_def)
  with t show ?case by (simp add: kept_to_def)
qed (simp add: kept_refl)

section \<open>Reading a key\<close>

lemma managed_known:
  assumes "kit_ok k" "backed k s st" "managed st a"
  shows "lower a = a" "length a = 64"
proof -
  from assms(3) obtain x where "a = own_address k x"
    using key_backedD [OF assms(2)] unfolding managed_def key_at_def by blast
  then show "lower a = a" "length a = 64" by (simp_all add: kit_okD(8,9) [OF assms(1)])
qed

text \<open>Without a failure a managed address loads.\<close>

lemma load_succeeds:
  assumes "kit_ok k" "host_ok h" "well_kept k s" "steady h" "managed (memory s) a"
  shows "\<exists>t w. load_by_address k a h s = (t, Inr w) \<and> kept_to k {} s t \<and> address_hex k w = a
    \<and> w = key_from_secret k (key_secret w) \<and> length (key_secret w) = 32 \<and> memory t = memory s"
proof -
  have b: "backed k s (memory s)" using assms(3) by (simp add: well_kept_def)
  have a: "lower a = a" by (rule managed_known [OF assms(1) b assms(5)])
  have "\<exists>t w. load_by_address k a h s = (t, Inr w) \<and> memory t = memory s"
  proof (cases "signer_cache s a")
    case (Some w)
    then show ?thesis using a by (simp add: load_by_address_def Let_def kbind_def kget_def kret_def)
  next
    case None
    show ?thesis
    proof (cases "map_of (derived (memory s)) a")
      case (Some i)
      then obtain sd where "seed64 s = Some sd" using key_backedD(1) [OF b] by blast
      then show ?thesis using None Some a
        by (simp add: load_by_address_def Let_def kbind_def kget_def kret_def derive_key_def kseq_def cache_key_def kmem_def)
    next
      case n: None
      then have i: "a \<in> set (imported (memory s))" using assms(5) by (simp add: managed_def)
      obtain x bl where "length x = 32" "sealed_files s (key_file a) = Some bl"
        "unseal (cipher k) (passwd s) imported_aad bl = Inr x"
        using key_backedD(2) [OF b i] by (auto simp: key_at_def)
      then show ?thesis using None n i a assms(4)
        by (simp add: load_by_address_def Let_def kbind_def kget_def kret_def kseq_def cache_key_def kmem_def read_sealed_def
            read_file_def kfs_def kres_def of_length_def steady_def)
    qed
  qed
  then obtain t w where l: "load_by_address k a h s = (t, Inr w)" "memory t = memory s" by blast
  with load_post [OF assms(1-3), of a] a show ?thesis by (auto simp: kwp_def)
qed

text \<open>C7: whatever sequence of calls a store gets, and whichever calls of the file system fail on the way, an
  address it lists stays listed unless a call deletes it, and as soon as its files can be read the store loads
  the key of exactly this address.\<close>

theorem listed_keys_survive:
  assumes "kit_ok k" "host_ok h" "well_kept k s" "\<forall>c \<in> set cs. sized c"
    and "managed (memory s) a" "a \<notin> (\<Union>c \<in> set cs. deletes c)" "host_ok h'" "steady h'"
  shows "managed (memory (kcalls k h cs s)) a
    \<and> (\<exists>t w. load_by_address k a h' (kcalls k h cs s) = (t, Inr w) \<and> address_hex k w = a
         \<and> w = key_from_secret k (key_secret w))"
proof -
  have t: "kept_to k (\<Union>c \<in> set cs. deletes c) s (kcalls k h cs s)" by (rule kcalls_kept [OF assms(1-4)])
  then have m: "managed (memory (kcalls k h cs s)) a" using assms(5,6) by (simp add: kept_to_def)
  moreover have "well_kept k (kcalls k h cs s)" using t by (simp add: kept_to_def)
  ultimately show ?thesis using load_succeeds [OF assms(1,7) _ assms(8)] by blast
qed

theorem listed_keys_survive_witness:
  "managed (memory (kcalls sample_kit quiet_host [RevealSeed [0], LoadKey sample_name] one_key)) sample_name
   \<and> (\<exists>t w. load_by_address sample_kit sample_name quiet_host
         (kcalls sample_kit quiet_host [RevealSeed [0], LoadKey sample_name] one_key) = (t, Inr w)
       \<and> address_hex sample_kit w = sample_name \<and> w = key_from_secret sample_kit (key_secret w))"
  by (rule listed_keys_survive [OF sample_kit_ok quiet_host_ok(1) one_key(2) _ one_key(3) _ quiet_host_ok(1)])
     (simp_all add: sized_def deletes_def steady_def quiet_host_ok(2))

section \<open>Restart\<close>

lemma backed_default: "backed k s default_state"
  by (simp add: backed_def default_state_def ordered_def)

lemma backed_on_disk: "well_kept k s \<Longrightarrow> backed k s (on_disk s)"
  by (auto simp: well_kept_def on_disk_def backed_default split: option.split)

lemma no_seed_no_derived: "backed k s st \<Longrightarrow> seed64 s = None \<Longrightarrow> derived st = []"
  by (cases "derived st") (auto simp: backed_def split: if_splits)

text \<open>The memory of the new process: what the state file says, the seed as before or a new one.\<close>

lemma well_kept_reopened:
  assumes "well_kept k s" "sealed_files t = sealed_files s" "state_file t = state_file s" "passwd t = passwd s"
    "memory t = on_disk s" "signer_cache t = (\<lambda>_. None)" "seed_kept k t" "seed64 s = None \<or> seed64 t = seed64 s"
  shows "well_kept k t"
proof -
  have at: "key_at k t a x = key_at k s a x" for a x using assms(2,4) by (simp add: key_at_def)
  have "backed k t st" if b: "backed k s st" for st
  proof (cases "seed64 s")
    case None
    then show ?thesis using b no_seed_no_derived [OF b] at by (auto simp: backed_def)
  next
    case (Some sd)
    then show ?thesis using b assms(8) at by (simp add: backed_def)
  qed
  then show ?thesis using assms backed_on_disk [OF assms(1)]
    by (auto simp: well_kept_def cache_kept_def on_disk_def)
qed

lemma open_post:
  assumes "kit_ok k" "host_ok h" "well_kept k s"
  shows "kwp (open_inner k (passwd s) g) h (cold s) (\<lambda>t r. r = Inr () \<longrightarrow>
     well_kept k t \<and> memory t = on_disk s \<and> state_file t = state_file s \<and> passwd t = passwd s)"
proof (cases "seed64 s")
  case (Some sd)
  then obtain b e where f: "seed_file s = Some b" "unseal (cipher k) (passwd s) seed_aad b = Inr e" "length e = 32" "sd = bip39_seed k e"
    using assms(3) by (auto simp: well_kept_def seed_kept_def)
  have "well_kept k (s\<lparr>ticks := n, memory := on_disk s, seed64 := Some sd, fresh_mnemonic := x, passwd := passwd s, signer_cache := \<lambda>_. None\<rparr>)" for n x
    by (rule well_kept_reopened [OF assms(3)]) (use assms(3) Some in \<open>simp_all add: well_kept_def seed_kept_def\<close>)
  then show ?thesis using f Some
    by (cases "state_file s") (simp_all add: open_inner_def make_dirs_def load_or_default_def change_state_def kwp_simps cold_def
        of_length_def Let_def on_disk_def)
next
  case None
  then have f: "seed_file s = None" using assms(3) by (simp add: well_kept_def seed_kept_def)
  have old: "well_kept k (s\<lparr>ticks := n, memory := on_disk s, seed64 := None, fresh_mnemonic := x, passwd := passwd s, signer_cache := \<lambda>_. None\<rparr>)" for n x
    by (rule well_kept_reopened [OF assms(3)]) (use f None in \<open>simp_all add: seed_kept_def\<close>)
  show ?thesis
  proof (cases g)
    case False
    then show ?thesis using f None old
      by (cases "state_file s") (simp_all add: open_inner_def make_dirs_def load_or_default_def change_state_def kwp_simps cold_def
          Let_def on_disk_def)
  next
    case True
    have new: "well_kept k (s\<lparr>ticks := n, seed_file := Some b, memory := on_disk s, seed64 := Some (bip39_seed k e),
        fresh_mnemonic := x, passwd := passwd s, signer_cache := \<lambda>_. None\<rparr>)"
      "well_kept k (s\<lparr>seed_file := Some b, ticks := n, memory := on_disk s, seed64 := Some (bip39_seed k e),
        fresh_mnemonic := x, passwd := passwd s, signer_cache := \<lambda>_. None\<rparr>)"
      if "unseal (cipher k) (passwd s) seed_aad b = Inr e" "length e = 32" for n x b e
      by (rule well_kept_reopened [OF assms(3)]; use that None in \<open>simp add: seed_kept_def\<close>)+
    show ?thesis using f None True assms(2)
      by (cases "state_file s")
         (simp_all add: open_inner_def make_dirs_def load_or_default_def change_state_def kwp_simps cold_def generate_mnemonic_def
            of_length_def Let_def on_disk_def write_seed_def host_ok_def,
          (intro impI kwp_seal [OF assms(1,2)], use new in \<open>simp add: on_disk_def kwp_simps Let_def\<close>)+)
  qed
qed

text \<open>an address whose import was answered with success is there for good: after any further calls that do
  not delete it, with any failures of the file system, and after a restart with the passphrase of the store, its
  address loads, and what it loads is the imported key.\<close>

theorem imported_key_survives_restart:
  assumes "kit_ok k" "host_ok h" "well_kept k s" "length x = 32"
    and "import_secret k x lb h s = (s1, Inr a)"
    and "\<forall>c \<in> set cs. sized c" "a \<notin> (\<Union>c \<in> set cs. deletes c)"
    and "host_ok h1" "open_inner k (passwd s) g h1 (cold (kcalls k h cs s1)) = (u, Inr ())"
    and "host_ok h2" "steady h2"
  shows "\<exists>t w. load_by_address k a h2 u = (t, Inr w) \<and> key_secret w = x"
proof -
  let ?v = "kcalls k h cs s1"
  have i: "kept_to k {} s s1" "a = own_address k x" "a \<in> set (imported (memory s1))" "state_file s1 = Some (memory s1)"
    using import_post [OF assms(1-4), of lb] assms(5) by (auto simp: kwp_def)
  then have w1: "well_kept k s1" "passwd s1 = passwd s" by (simp_all add: kept_to_def)
  have v: "kept_to k (\<Union>c \<in> set cs. deletes c) s1 ?v" by (rule kcalls_kept [OF assms(1,2) w1(1) assms(6)])
  then have "managed (on_disk ?v) a" "well_kept k ?v" "passwd ?v = passwd s"
    using i(3,4) assms(7) w1(2) by (simp_all add: kept_to_def on_disk_def managed_def)
  then have u: "well_kept k u" "managed (memory u) a"
    using open_post [OF assms(1,8), of ?v g] assms(9) by (auto simp: kwp_def)
  from load_succeeds [OF assms(1,10) u(1) assms(11) u(2)] obtain t w where
    w: "load_by_address k a h2 u = (t, Inr w)" "address_hex k w = a" "w = key_from_secret k (key_secret w)"
      "length (key_secret w) = 32"
    by blast
  have "own_address k (key_secret w) = address_hex k w" by (simp only: own_address_def w(3) [symmetric])
  then have "own_address k (key_secret w) = own_address k x" using w(2) i(2) by simp
  then have "key_secret w = x" by (rule kit_okD(7) [OF assms(1) w(4) assms(4)])
  then show ?thesis using w(1) by blast
qed

theorem imported_key_survives_restart_witness:
  "\<exists>u t w. open_inner sample_kit [112] False quiet_host (cold (kcalls sample_kit quiet_host [LoadKey sample_name] one_key)) = (u, Inr ())
     \<and> load_by_address sample_kit sample_name quiet_host u = (t, Inr w) \<and> key_secret w = sample_secret"
proof -
  let ?v = "kcalls sample_kit quiet_host [LoadKey sample_name] one_key"
  have "kept_to sample_kit {} one_key ?v"
    using kcalls_kept [OF sample_kit_ok quiet_host_ok(1) one_key(2), of "[LoadKey sample_name]"]
    by (simp add: sized_def deletes_def del: kcalls.simps)
  then have "seed_file ?v = None"
    using one_key(5) by (simp add: kept_to_def well_kept_def seed_kept_def del: kcalls.simps)
  then have "snd (open_inner sample_kit [112] False quiet_host (cold ?v)) = Inr ()"
    by (cases "state_file ?v") (simp_all add: open_inner_def make_dirs_def load_or_default_def change_state_def cold_def kbind_def
        kseq_def kget_def kret_def kmem_def kfs_def quiet_host_ok(2) del: kcalls.simps)
  then obtain u where u: "open_inner sample_kit [112] False quiet_host (cold ?v) = (u, Inr ())"
    by (metis prod.collapse)
  have "\<exists>t w. load_by_address sample_kit sample_name quiet_host u = (t, Inr w) \<and> key_secret w = sample_secret"
    by (rule imported_key_survives_restart [OF sample_kit_ok quiet_host_ok(1) empty_store_kept [of _ "[112]"] _ one_key(1)
          _ _ quiet_host_ok(1) _ quiet_host_ok(1), where cs = "[LoadKey sample_name]" and g = False])
       (use u in \<open>simp_all add: sized_def deletes_def steady_def quiet_host_ok(2) sample_secret_def empty_store_def del: kcalls.simps\<close>)
  then show ?thesis using u by blast
qed

section \<open>The passphrase\<close>

text \<open>Nothing but the count of calls has changed, and the result is an error.\<close>

definition refused :: "keystore \<Rightarrow> keystore \<Rightarrow> 'a res \<Rightarrow> bool" where
  "refused s t r \<longleftrightarrow> (\<exists>e. r = Inl e) \<and> t = s\<lparr>ticks := ticks t\<rparr>"

definition guard_of :: "keystore \<Rightarrow> kcall \<Rightarrow> bytes option" where
  "guard_of s c =
     (let keys = seed64 s \<noteq> None \<or> imported (memory s) \<noteq> [] in
      case c of
        RevealSecret a p \<Rightarrow> Some p
      | RevealSeed p \<Rightarrow> Some p
      | DeleteAddress a p \<Rightarrow> if keys then Some p else None
      | DeleteEvm p \<Rightarrow> if keys then Some p else None
      | RevealEvmKey p \<Rightarrow> if keys then Some p else None
      | RevealEvmWords p \<Rightarrow> if keys then Some p else None
      | ExportVault as p \<Rightarrow> if entries_of (memory s) \<noteq> [] then Some p else None
      | _ \<Rightarrow> None)"

lemma refused_bind:
  assumes "kwp m h s (refused s)"
  shows "kwp (kbind m f) h s (refused s)"
proof -
  obtain e where "snd (m h s) = Inl e" "fst (m h s) = s\<lparr>ticks := ticks (fst (m h s))\<rparr>"
    using assms by (auto simp: kwp_run refused_def)
  then show ?thesis by (simp add: kwp_bind kwp_run [of m] refused_def)
qed

lemma refused_seq: "kwp m h s (refused s) \<Longrightarrow> kwp (kseq m n) h s (refused s)"
  unfolding kseq_def by (rule refused_bind)

lemma other_passphrase:
  assumes "kit_ok k" "unseal (cipher k) p d b = Inr m" "q \<noteq> p"
  shows "\<exists>e. unseal (cipher k) q d' b = Inl e"
  using unseal_one [OF kit_okD(1) [OF assms(1)] assms(2), of q d'] assms(3)
  by (cases "unseal (cipher k) q d' b") auto

lemma entropy_refused:
  assumes "kit_ok k" "well_kept k s" "q \<noteq> passwd s" "seed64 s \<noteq> None"
  shows "kwp (unseal_entropy k q) h s (refused s)"
proof -
  obtain b e where "seed_file s = Some b" "unseal (cipher k) (passwd s) seed_aad b = Inr e"
    using assms(2,4) by (auto simp: well_kept_def seed_kept_def)
  moreover from this obtain e' where "unseal (cipher k) q seed_aad b = Inl e'"
    using other_passphrase [OF assms(1) _ assms(3)] by blast
  ultimately show ?thesis by (simp add: unseal_entropy_def kwp_simps Let_def refused_def)
qed

lemma key_refused:
  assumes "kit_ok k" "well_kept k s" "q \<noteq> passwd s" "a \<in> set (imported (memory s))"
  obtains b e where "sealed_files s (key_file a) = Some b" "unseal (cipher k) q imported_aad b = Inl e"
proof -
  obtain x where "key_at k s a x" using key_backedD(2) assms(2,4) unfolding well_kept_def by blast
  then obtain b where b: "sealed_files s (key_file a) = Some b" "unseal (cipher k) (passwd s) imported_aad b = Inr x"
    by (auto simp: key_at_def)
  moreover from this obtain e where "unseal (cipher k) q imported_aad b = Inl e"
    using other_passphrase [OF assms(1) _ assms(3)] by blast
  ultimately show thesis by (intro that)
qed

lemma verify_refused:
  assumes "kit_ok k" "well_kept k s" "q \<noteq> passwd s" "seed64 s \<noteq> None \<or> imported (memory s) \<noteq> []"
  shows "kwp (verify_passphrase k q) h s (refused s)"
proof (cases "seed64 s")
  case None
  then obtain a as where i: "imported (memory s) = a # as" using assms(4) by (cases "imported (memory s)") auto
  then have "a \<in> set (imported (memory s))" by simp
  then obtain b e where "sealed_files s (key_file a) = Some b" "unseal (cipher k) q imported_aad b = Inl e"
    by (rule key_refused [OF assms(1-3)])
  then show ?thesis using None i by (simp add: verify_passphrase_def read_sealed_def kwp_simps Let_def refused_def)
next
  case (Some sd)
  have "kwp (kbind (unseal_entropy k q) f) h s (refused s)" for f :: "bytes \<Rightarrow> unit kop"
    by (rule refused_bind [OF entropy_refused [OF assms(1-3)]]) (simp add: Some)
  then show ?thesis using Some by (simp add: verify_passphrase_def kwp_bind [of "kget _"] kwp_prim)
qed

lemma secret_refused:
  assumes "kit_ok k" "well_kept k s" "q \<noteq> passwd s"
  shows "kwp (reveal_secret k a q) h s (refused s)"
proof -
  let ?a = "lower a"
  consider i where "map_of (derived (memory s)) ?a = Some i"
    | "map_of (derived (memory s)) ?a = None" "?a \<in> set (imported (memory s))"
    | "map_of (derived (memory s)) ?a = None" "?a \<notin> set (imported (memory s))"
    by fastforce
  then show ?thesis
  proof cases
    case (1 i)
    then have "seed64 s \<noteq> None" using assms(2) key_backedD(1) unfolding well_kept_def by blast
    then have "kwp (kbind (unseal_entropy k q) f) h s (refused s)" for f :: "bytes \<Rightarrow> bytes kop"
      by (rule refused_bind [OF entropy_refused [OF assms(1-3)]])
    then show ?thesis using 1 by (simp add: reveal_secret_def Let_def kwp_bind [of "kget _"] kwp_prim)
  next
    case 2
    obtain b e where "sealed_files s (key_file ?a) = Some b" "unseal (cipher k) q imported_aad b = Inl e"
      by (rule key_refused [OF assms(1-3) 2(2)])
    then show ?thesis using 2 by (simp add: reveal_secret_def read_sealed_def Let_def kwp_simps refused_def)
  qed (simp add: reveal_secret_def Let_def kwp_simps refused_def)
qed

lemma export_refused:
  assumes "kit_ok k" "well_kept k s" "q \<noteq> passwd s" "entries_of (memory s) \<noteq> []"
  shows "kwp (export_selected k as q) h s (refused s)"
proof (cases "pick_entries as (entries_of (memory s))")
  case (Inl e)
  then show ?thesis by (simp add: export_selected_def list_entries_def kwp_simps refused_def)
next
  case (Inr sel)
  have "sel \<noteq> []"
  proof (cases "as = []")
    case False
    then have "length sel = length (sort (remdups (map lower as)))"
      using Inr by (auto simp: pick_entries_def Let_def split: if_splits)
    moreover have "remdups (map lower as) \<noteq> []" using False by simp
    ultimately show ?thesis by auto
  qed (use Inr assms(4) in \<open>simp add: pick_entries_def\<close>)
  then obtain e es where sel: "sel = e # es" by (cases sel) auto
  have "kwp (kbind (reveal_secret k (entry_address e) q) (\<lambda>_. kret ())) h s (refused s)"
    by (rule refused_bind [OF secret_refused [OF assms(1-3)]])
  then show ?thesis
    unfolding export_selected_def using Inr sel
    by (simp add: list_entries_def kwp_bind [of "kget _"] kwp_bind [of "kres _"] kwp_prim refused_seq)
qed



end
