(* ===== verification/KeyringVault.thy ===== *)
theory KeyringVault imports KeyringRuns begin

text \<open>
  The vault: what an export holds and what its import brings back, on this machine or another.  What the
  state file does not record is found in the places where a guard of the code looks at too little.
\<close>

section \<open>The keys of a vault\<close>

lemma kwp_bind_any: "(\<And>x t. kwp (f x) h t Q) \<Longrightarrow> (\<And>d t. Q t (Inl d)) \<Longrightarrow> kwp (kbind m f) h s Q"
  by (simp add: kwp_bind kwp_run [of m] split: sum.split)

text \<open>An entry of the vault holds the secret of its address, and the label.\<close>

definition vault_entry :: "kit \<Rightarrow> address_entry \<Rightarrow> json \<Rightarrow> bool" where
  "vault_entry k e v \<longleftrightarrow> (\<exists>x. vault_key k v = Inr (x, entry_label e) \<and> length x = 32 \<and> own_address k x = entry_address e)"

definition vault_doc :: "json list \<Rightarrow> json option \<Rightarrow> json" where
  "vault_doc keys evm = JObj ([(''version'', JInt 1), (''keys'', JArr keys)]
     @ (case evm of None \<Rightarrow> [] | Some v \<Rightarrow> [(''evm_key'', v)]))"

lemma vault_doc_parts:
  "vault_keys (vault_doc keys evm) = Inr keys" "jget (vault_doc keys evm) ''evm_key'' = evm"
  by (simp_all add: vault_keys_def vault_doc_def split: option.split)

lemma key_json_entry:
  assumes "kit_ok k" "address_hex k w = entry_address e" "w = key_from_secret k (key_secret w)" "length (key_secret w) = 32"
  shows "vault_entry k e (key_json k e w)"
proof -
  have "own_address k (key_secret w) = entry_address e" by (simp only: own_address_def assms(3) [symmetric] assms(2))
  then show ?thesis
    using assms(4) by (cases "entry_label e")
      (simp_all add: vault_entry_def vault_key_def key_json_def kit_okD(6) [OF assms(1)] of_length_def)
qed

lemma keys_json_post:
  assumes "kit_ok k" "host_ok h" "well_kept k s" "\<forall>e \<in> set es. lower (entry_address e) = entry_address e"
  shows "kwp (keys_json k es) h s (\<lambda>t r. kept_to k {} s t \<and> (\<forall>js. r = Inr js \<longrightarrow> list_all2 (vault_entry k) es js))"
  using assms(3,4)
proof (induction es arbitrary: s)
  case Nil
  then show ?case by (simp add: kwp_simps kept_refl)
next
  case (Cons e es)
  let ?Q = "\<lambda>t r. kept_to k {} s t \<and> (\<forall>js. r = Inr js \<longrightarrow> list_all2 (vault_entry k) (e # es) js)"
  show ?case
    unfolding keys_json.simps kwp_bind [of "load_by_address k (entry_address e)"]
  proof (rule kwp_mono [OF load_post [OF assms(1,2) Cons.prems(1)]])
    fix t r
    assume t: "kept_to k {} s t \<and> (\<forall>w. r = Inr w \<longrightarrow> address_hex k w = lower (entry_address e)
      \<and> w = key_from_secret k (key_secret w) \<and> length (key_secret w) = 32)"
    show "case r of Inl d \<Rightarrow> ?Q t (Inl d) | Inr w \<Rightarrow> kwp (kbind (keys_json k es) (\<lambda>js. kret (key_json k e w # js))) h t ?Q"
    proof (cases r)
      case (Inr w)
      have v: "vault_entry k e (key_json k e w)"
        by (rule key_json_entry [OF assms(1)]) (use t Inr Cons.prems(2) in simp_all)
      have "kwp (keys_json k es) h t (\<lambda>u r. kept_to k {} t u \<and> (\<forall>js. r = Inr js \<longrightarrow> list_all2 (vault_entry k) es js))"
        by (rule Cons.IH) (use t Cons.prems(2) in \<open>simp_all add: kept_to_def\<close>)
      then show ?thesis
        unfolding Inr sum.case kwp_bind
        by (rule kwp_mono) (use t v in \<open>auto simp: kwp_simps split: sum.split intro: kept_trans\<close>)
    qed (use t in simp)
  qed
qed

lemma entries_managed:
  "e \<in> set (entries_of st) \<Longrightarrow> managed st (entry_address e)"
  "managed st a \<Longrightarrow> \<exists>e \<in> set (entries_of st). entry_address e = a"
proof -
  show "e \<in> set (entries_of st) \<Longrightarrow> managed st (entry_address e)"
    by (auto simp: entries_of_def managed_def map_of_eq_None_iff image_iff intro: rev_bexI)
  show "\<exists>e \<in> set (entries_of st). entry_address e = a" if "managed st a"
  proof (cases "map_of (derived st) a")
    case None
    then show ?thesis using that by (force simp: entries_of_def managed_def)
  next
    case (Some i)
    then show ?thesis by (force simp: entries_of_def dest: map_of_SomeD)
  qed
qed

text \<open>What an export of everything has sealed.\<close>

lemma export_post:
  assumes "kit_ok k" "host_ok h" "well_kept k s"
  shows "kwp (export_vault k p) h s (\<lambda>t r. \<forall>blob. r = Inr blob \<longrightarrow> (\<exists>js evm.
     list_all2 (vault_entry k) (entries_of (memory s)) js \<and> unseal (cipher k) p vault_aad blob = Inr (json_text k (vault_doc js evm))))"
    (is "kwp _ h s ?Q")
proof -
  let ?es = "entries_of (memory s)"
  have low: "\<forall>e \<in> set ?es. lower (entry_address e) = entry_address e"
    using managed_known(1) [OF assms(1)] entries_managed(1) assms(3) by (fastforce simp: well_kept_def)
  define body where "body = kbind (keys_json k ?es) (\<lambda>keys. kbind (export_evm_for_vault k) (\<lambda>evm.
      seal k p vault_aad (json_text k (vault_doc keys evm))))"
  have body: "kwp body h t ?Q" if t: "well_kept k t" for t
    unfolding body_def kwp_bind [of "keys_json k ?es"]
  proof (rule kwp_mono [OF keys_json_post [OF assms(1,2) t low]])
    fix u and r :: "json list res"
    assume u: "kept_to k {} t u \<and> (\<forall>js. r = Inr js \<longrightarrow> list_all2 (vault_entry k) ?es js)"
    show "case r of Inl d \<Rightarrow> ?Q u (Inl d) | Inr js \<Rightarrow> kwp (kbind (export_evm_for_vault k) (\<lambda>evm.
        seal k p vault_aad (json_text k (vault_doc js evm)))) h u ?Q"
    proof (cases r)
      case (Inr js)
      have "kwp (seal k p vault_aad (json_text k (vault_doc js evm))) h v ?Q" for v evm
        by (rule kwp_seal [OF assms(1,2)]) (use u Inr in auto)
      then show ?thesis unfolding Inr sum.case by (rule kwp_bind_any) simp
    qed simp
  qed
  let ?check = "case ?es of [] \<Rightarrow> kret () | e # _ \<Rightarrow> kbind (reveal_secret k (entry_address e) p) (\<lambda>_. kret ())"
  have "kstep k {} ?check" by (intro kstep_intros assms(1))
  then have "kwp ?check h s (\<lambda>t _. kept_to k {} s t)" by (rule kstepD [OF _ assms(2) kept_refl [OF assms(3)]])
  then have "kwp (kseq ?check body) h s ?Q"
    unfolding kwp_seq [of ?check] by (rule kwp_mono) (use body in \<open>auto simp: kept_to_def split: sum.split\<close>)
  moreover have "export_vault k p = kbind list_entries (\<lambda>all. kseq (case all of [] \<Rightarrow> kret ()
        | e # _ \<Rightarrow> kbind (reveal_secret k (entry_address e) p) (\<lambda>_. kret ()))
      (kbind (keys_json k all) (\<lambda>keys. kbind (export_evm_for_vault k) (\<lambda>evm.
        seal k p vault_aad (json_text k (vault_doc keys evm))))))"
    by (simp add: export_vault_def export_selected_def pick_entries_def vault_doc_def Let_def kres_def kbind_def
        kret_def fun_eq_iff split: prod.split sum.split)
  ultimately show ?thesis
    by (simp add: list_entries_def kwp_bind [of "kget _"] kwp_prim body_def)
qed

section \<open>Importing it\<close>

lemma import_keys_post:
  assumes "kit_ok k" "host_ok h" "steady h" "list_all2 (vault_entry k) es js" "well_kept k s"
  shows "kwp (import_keys k js) h s (\<lambda>t r. kept_to k {} s t \<and> (\<forall>e \<in> set es. managed (memory t) (entry_address e))
     \<and> (\<exists>as. r = Inr as \<and> set as = {a \<in> entry_address ` set es. \<not> managed (memory s) a}))"
  using assms(4,5)
proof (induction arbitrary: s)
  case Nil
  then show ?case by (simp add: kwp_simps kept_refl)
next
  case (Cons e es v js)
  obtain x where x: "vault_key k v = Inr (x, entry_label e)" "length x = 32" "own_address k x = entry_address e"
    using Cons.hyps(1) by (auto simp: vault_entry_def)
  let ?a = "entry_address e" and ?P = "\<lambda>s es t r. kept_to k {} s t \<and> (\<forall>e \<in> set es. managed (memory t) (entry_address e))
     \<and> (\<exists>as. r = Inr as \<and> set as = {a \<in> entry_address ` set es. \<not> managed (memory s) a})"
  have known: "snd (exists_address ?a h s) = Inr (managed (memory s) ?a)" "fst (exists_address ?a h s) = s" for s
    using kit_okD(9) [OF assms(1), of x] x(3) by (simp_all add: exists_address_def kget_def)
  have unfold: "kwp (import_keys k (v # js)) h s Q = (if managed (memory s) ?a then kwp (import_keys k js) h s Q
      else kwp (kbind (import_secret k x (entry_label e)) (\<lambda>addr. kbind (import_keys k js) (\<lambda>addrs. kret (addr # addrs)))) h s Q)" for Q
    using x(1,3) known [of s]
    by (simp add: kwp_bind [of "kres _"] kwp_bind [of "exists_address _"] kwp_prim kwp_run [of "exists_address _"] own_address_def)
  show ?case
  proof (cases "managed (memory s) ?a")
    case True
    have "kwp (import_keys k js) h s (?P s es)" by (rule Cons.IH [OF Cons.prems])
    then have "kwp (import_keys k js) h s (?P s (e # es))"
    proof (rule kwp_mono)
      fix t r assume t: "?P s es t r"
      have "managed (memory t) ?a" using t True by (simp add: kept_to_def)
      moreover have "{a \<in> entry_address ` set (e # es). \<not> managed (memory s) a} = {a \<in> entry_address ` set es. \<not> managed (memory s) a}"
        using True by auto
      ultimately show "?P s (e # es) t r" using t by simp
    qed
    then show ?thesis unfolding unfold using True by simp
  next
    case False
    have "kwp (import_secret k x (entry_label e)) h s (\<lambda>t r. r = Inr ?a \<and> kept_to k {} s t
        \<and> (\<forall>b. managed (memory t) b \<longleftrightarrow> managed (memory s) b \<or> b = ?a))"
    proof (rule kwp_both [OF import_post [OF assms(1,2) Cons.prems x(2)] import_succeeds [OF assms(1,2,3)]])
      show "\<not> managed (memory s) (own_address k x)" using False x(3) by simp
    qed (use x(3) in blast)
    then have "kwp (kbind (import_secret k x (entry_label e)) (\<lambda>addr. kbind (import_keys k js) (\<lambda>addrs. kret (addr # addrs)))) h s (?P s (e # es))"
      unfolding kwp_bind [of "import_secret k x (entry_label e)"]
    proof (rule kwp_mono)
      fix t r
      assume t: "r = Inr ?a \<and> kept_to k {} s t \<and> (\<forall>b. managed (memory t) b \<longleftrightarrow> managed (memory s) b \<or> b = ?a)"
      have "kwp (import_keys k js) h t (?P t es)" by (rule Cons.IH) (use t in \<open>simp add: kept_to_def\<close>)
      then have "kwp (kbind (import_keys k js) (\<lambda>addrs. kret (?a # addrs))) h t (?P s (e # es))"
        unfolding kwp_bind [of "import_keys k js"]
      proof (rule kwp_mono)
        fix u q
        assume u: "?P t es u q"
        then obtain as where as: "q = Inr as" "set as = {a \<in> entry_address ` set es. \<not> managed (memory t) a}" by blast
        have tm: "managed (memory t) b \<longleftrightarrow> managed (memory s) b \<or> b = ?a" for b using t by blast
        have "kept_to k {} s t" "kept_to k {} t u" using t u by blast+
        then have "kept_to k {} s u" by (rule kept_trans)
        moreover have "managed (memory u) ?a" using \<open>kept_to k {} t u\<close> tm [of ?a] by (simp add: kept_to_def)
        moreover have "set (?a # as) = {a \<in> entry_address ` set (e # es). \<not> managed (memory s) a}"
          unfolding list.set as(2) tm using False by auto
        ultimately show "case q of Inl d \<Rightarrow> ?P s (e # es) u (Inl d)
            | Inr addrs \<Rightarrow> kwp (kret (?a # addrs)) h u (?P s (e # es))"
          using u as(1) by (simp add: kwp_prim)
      qed
      then show "case r of Inl d \<Rightarrow> ?P s (e # es) t (Inl d)
          | Inr addr \<Rightarrow> kwp (kbind (import_keys k js) (\<lambda>addrs. kret (addr # addrs))) h t (?P s (e # es))"
        using t by simp
    qed
    then show ?thesis unfolding unfold using False by simp
  qed
qed

lemma import_vault_post:
  assumes "kit_ok k" "host_ok h" "steady h" "well_kept k t" "\<forall>v. json_of_text k (json_text k v) = Some v"
    and "unseal (cipher k) p vault_aad blob = Inr (json_text k (vault_doc js evm))" "list_all2 (vault_entry k) es js"
  shows "kwp (import_vault k blob p) h t (\<lambda>u r. kept_to k {} t u \<and> (\<forall>e \<in> set es. managed (memory u) (entry_address e))
     \<and> (\<forall>as. r = Inr as \<longrightarrow> set as = {a \<in> entry_address ` set es. \<not> managed (memory t) a}))"
proof -
  let ?Q = "\<lambda>u r. kept_to k {} t u \<and> (\<forall>e \<in> set es. managed (memory u) (entry_address e))
     \<and> (\<forall>as. r = Inr as \<longrightarrow> set as = {a \<in> entry_address ` set es. \<not> managed (memory t) a})"
  let ?evm = "case evm of Some v \<Rightarrow> restore_evm_from_vault k v | None \<Rightarrow> kret ()"
  have "kwp (kbind (import_keys k js) (\<lambda>as. kseq ?evm (kret as))) h t ?Q"
    unfolding kwp_bind [of "import_keys k js"]
  proof (rule kwp_mono [OF import_keys_post [OF assms(1,2,3,7,4)]])
    fix u r
    assume u: "kept_to k {} t u \<and> (\<forall>e \<in> set es. managed (memory u) (entry_address e))
       \<and> (\<exists>as. r = Inr as \<and> set as = {a \<in> entry_address ` set es. \<not> managed (memory t) a})"
    then obtain as where as: "r = Inr as" "set as = {a \<in> entry_address ` set es. \<not> managed (memory t) a}" by blast
    have "kstep k {} ?evm" by (intro kstep_intros assms(1))
    then have "kwp ?evm h u (\<lambda>v _. kept_to k {} u v)"
      by (rule kstepD [OF _ assms(2)]) (use u in \<open>simp add: kept_to_def\<close>)
    then have "kwp (kseq ?evm (kret as)) h u ?Q"
      unfolding kwp_seq [of ?evm]
      by (rule kwp_mono) (use u as in \<open>auto simp: kwp_prim kept_to_def split: sum.split\<close>)
    then show "case r of Inl d \<Rightarrow> ?Q u (Inl d) | Inr as \<Rightarrow> kwp (kseq ?evm (kret as)) h u ?Q" using as by simp
  qed
  then show ?thesis
    unfolding import_vault_def using assms(5,6)
    by (simp add: kwp_bind [of "kres _"] kwp_prim vault_doc_parts)
qed

lemma same_key:
  assumes "kit_ok k" "w = key_from_secret k (key_secret w)" "w' = key_from_secret k (key_secret w')"
    "length (key_secret w) = 32" "length (key_secret w') = 32" "address_hex k w = address_hex k w'"
  shows "w = w'"
proof -
  have "own_address k (key_secret w) = own_address k (key_secret w')"
    unfolding own_address_def using assms(2,3,6) by metis
  then have "key_secret w = key_secret w'" by (rule kit_okD(7) [OF assms(1,4,5)])
  then show ?thesis using assms(2,3) by metis
qed

text \<open>C25: a vault is a backup of the whole store: once it was exported, its import into any store, with the
  passphrase it was sealed under, adds every address the exporting store listed, answers with those that were
  new, keeps the addresses the store had, and gives each address the key it had before.\<close>

theorem vault_restores_every_key:
  assumes "kit_ok k" "\<forall>v. json_of_text k (json_text k v) = Some v"
    and "host_ok h" "well_kept k s" "export_vault k p h s = (s1, Inr blob)"
    and "host_ok h'" "steady h'" "well_kept k t" "import_vault k blob p h' t = (u, r)"
    and "managed (memory s) a"
  shows "managed (memory u) a \<and> (\<forall>b. managed (memory t) b \<longrightarrow> managed (memory u) b)
    \<and> (\<forall>as. r = Inr as \<longrightarrow> set as = {b. managed (memory s) b \<and> \<not> managed (memory t) b})
    \<and> (\<exists>w s2 u2. load_by_address k a h' s = (s2, Inr w) \<and> load_by_address k a h' u = (u2, Inr w))"
proof -
  obtain js evm where v: "list_all2 (vault_entry k) (entries_of (memory s)) js"
    "unseal (cipher k) p vault_aad blob = Inr (json_text k (vault_doc js evm))"
    using export_post [OF assms(1,3,4), of p] assms(5) by (auto simp: kwp_def)
  have i: "kept_to k {} t u" "\<forall>e \<in> set (entries_of (memory s)). managed (memory u) (entry_address e)"
    "\<forall>as. r = Inr as \<longrightarrow> set as = {a \<in> entry_address ` set (entries_of (memory s)). \<not> managed (memory t) a}"
    using import_vault_post [OF assms(1,6,7,8,2) v(2,1)] assms(9) by (simp_all add: kwp_def)
  have listed: "entry_address ` set (entries_of (memory s)) = {b. managed (memory s) b}"
    using entries_managed by fastforce
  have a: "managed (memory u) a" using i(2) entries_managed(2) [OF assms(10)] by blast
  have u: "well_kept k u" using i(1) by (simp add: kept_to_def)
  obtain s2 w where w: "load_by_address k a h' s = (s2, Inr w)" "address_hex k w = a"
      "w = key_from_secret k (key_secret w)" "length (key_secret w) = 32"
    using load_succeeds [OF assms(1,6,4,7,10)] by blast
  obtain u2 w' where w': "load_by_address k a h' u = (u2, Inr w')" "address_hex k w' = a"
      "w' = key_from_secret k (key_secret w')" "length (key_secret w') = 32"
    using load_succeeds [OF assms(1,6) u assms(7) a] by blast
  have "w = w'" by (rule same_key [OF assms(1) w(3) w'(3) w(4) w'(4)]) (simp add: w(2) w'(2))
  then have "\<exists>w s2 u2. load_by_address k a h' s = (s2, Inr w) \<and> load_by_address k a h' u = (u2, Inr w)"
    using w(1) w'(1) by blast
  then show ?thesis using a i(1,3) listed by (auto simp: kept_to_def)
qed

text \<open>An export with the passphrase of the store succeeds, if there is no BSC key that may be missing.\<close>

lemma keys_json_succeeds:
  assumes "kit_ok k" "host_ok h" "steady h" "well_kept k s" "\<forall>e \<in> set es. managed (memory s) (entry_address e)"
  shows "\<exists>t js. keys_json k es h s = (t, Inr js) \<and> memory t = memory s"
  using assms(4,5)
proof (induction es arbitrary: s)
  case (Cons e es)
  have e: "managed (memory s) (entry_address e)" using Cons.prems(2) by simp
  obtain t w where t: "load_by_address k (entry_address e) h s = (t, Inr w)" "kept_to k {} s t" "memory t = memory s"
    using load_succeeds [OF assms(1,2) Cons.prems(1) assms(3) e] by blast
  have "well_kept k t" "\<forall>e \<in> set es. managed (memory t) (entry_address e)"
    using t(2,3) Cons.prems(2) by (simp_all add: kept_to_def)
  then obtain u js where u: "keys_json k es h t = (u, Inr js)" "memory u = memory t" using Cons.IH by blast
  have "keys_json k (e # es) h s = (u, Inr (key_json k e w # js))" using t(1) u(1) by (simp add: kbind_def kret_def)
  then show ?case using t(3) u(2) by simp
qed (simp add: kret_def)

lemma reveal_succeeds:
  assumes "kit_ok k" "steady h" "well_kept k s" "managed (memory s) a"
  shows "\<exists>t x. reveal_secret k a (passwd s) h s = (t, Inr x) \<and> t = s\<lparr>ticks := ticks t\<rparr>"
proof -
  have b: "backed k s (memory s)" using assms(3) by (simp add: well_kept_def)
  have a: "lower a = a" by (rule managed_known [OF assms(1) b assms(4)])
  show ?thesis
  proof (cases "map_of (derived (memory s)) a")
    case (Some i)
    then obtain sd where "seed64 s = Some sd" using key_backedD(1) [OF b] by blast
    then obtain bl e where "seed_file s = Some bl" "unseal (cipher k) (passwd s) seed_aad bl = Inr e" "length e = 32"
      using assms(3) by (auto simp: well_kept_def seed_kept_def)
    then show ?thesis using Some a assms(2)
      by (simp add: reveal_secret_def Let_def unseal_entropy_def read_file_def kseq_def kbind_def kget_def kfs_def kres_def kret_def
          steady_def of_length_def)
  next
    case None
    then have i: "a \<in> set (imported (memory s))" using assms(4) by (simp add: managed_def)
    obtain x bl where "length x = 32" "sealed_files s (key_file a) = Some bl"
      "unseal (cipher k) (passwd s) imported_aad bl = Inr x"
      using key_backedD(2) [OF b i] by (auto simp: key_at_def)
    with i show ?thesis using None a assms(2)
      by (simp add: reveal_secret_def Let_def read_sealed_def read_file_def kseq_def kbind_def kget_def kfs_def kres_def kret_def
          steady_def of_length_def)
  qed
qed

lemma export_succeeds:
  assumes "kit_ok k" "host_ok h" "steady h" "well_kept k s" "evm_key (memory s) = None"
  shows "\<exists>t blob. export_vault k (passwd s) h s = (t, Inr blob)"
proof -
  let ?es = "entries_of (memory s)"
  let ?check = "case ?es of [] \<Rightarrow> kret () | e # _ \<Rightarrow> kbind (reveal_secret k (entry_address e) (passwd s)) (\<lambda>_. kret ())"
  have m: "\<forall>e \<in> set ?es. managed (memory s) (entry_address e)" using entries_managed(1) by blast
  have "\<exists>n. ?check h s = (s\<lparr>ticks := n\<rparr>, Inr ())"
  proof (cases ?es)
    case Nil
    then show ?thesis by (auto simp: kret_def intro: exI [of _ "ticks s"])
  next
    case (Cons e es)
    then have "managed (memory s) (entry_address e)" using m by simp
    then show ?thesis using reveal_succeeds [OF assms(1,3,4)] Cons by (fastforce simp: kbind_def kret_def)
  qed
  then obtain n where n: "?check h s = (s\<lparr>ticks := n\<rparr>, Inr ())" by blast
  obtain t js where t: "keys_json k ?es h (s\<lparr>ticks := n\<rparr>) = (t, Inr js)" "memory t = memory s"
    using keys_json_succeeds [OF assms(1-3), of "s\<lparr>ticks := n\<rparr>" ?es] assms(4) m by auto
  have evm: "export_evm_for_vault k h t = (t, Inr None)"
    using t(2) assms(5) by (simp add: export_evm_for_vault_def kbind_def kget_def kret_def)
  have "\<exists>blob. snd (seal k (passwd s) vault_aad m h t) = Inr blob" for m
    using seal_total [OF kit_okD(1) [OF assms(1)]] by (simp add: seal_def kbind_def fill_bytes_def kres_def)
  then have "\<exists>u blob. seal k (passwd s) vault_aad m h t = (u, Inr blob)" for m by (metis prod.collapse)
  then show ?thesis
    using n t(1) evm
    by (simp add: export_vault_def export_selected_def list_entries_def pick_entries_def kseq_def kbind_def kget_def kres_def Let_def)
qed

theorem vault_restores_every_key_witness:
  "\<exists>s1 blob u r. export_vault sample_kit [112] quiet_host one_key = (s1, Inr blob)
     \<and> import_vault sample_kit blob [112] quiet_host (empty_store [99]) = (u, r) \<and> managed (memory u) sample_name
     \<and> (\<forall>as. r = Inr as \<longrightarrow> set as = {b. managed (memory one_key) b})"
proof -
  have "kwp (import_secret sample_kit sample_secret None) quiet_host (empty_store [112]) (\<lambda>t _. evm_key (memory t) = None)"
    by (auto simp: import_secret_def seal_own_def seal_def write_sealed_def change_state_def save_state_def cache_key_def kwp_simps
        Let_def empty_store_def default_state_def split: sum.split)
  then have "evm_key (memory one_key) = None" by (simp add: kwp_def one_key(1))
  then obtain s1 blob where e: "export_vault sample_kit [112] quiet_host one_key = (s1, Inr blob)"
    using export_succeeds [OF sample_kit_ok quiet_host_ok(1) _ one_key(2)] by (auto simp: steady_def quiet_host_ok(2) one_key(4))
  obtain u r where i: "import_vault sample_kit blob [112] quiet_host (empty_store [99]) = (u, r)" by (metis prod.collapse)
  have "managed (memory u) sample_name \<and> (\<forall>b. managed (memory (empty_store [99])) b \<longrightarrow> managed (memory u) b)
    \<and> (\<forall>as. r = Inr as \<longrightarrow> set as = {b. managed (memory one_key) b \<and> \<not> managed (memory (empty_store [99])) b})
    \<and> (\<exists>w s2 u2. load_by_address sample_kit sample_name quiet_host one_key = (s2, Inr w)
         \<and> load_by_address sample_kit sample_name quiet_host u = (u2, Inr w))"
    by (rule vault_restores_every_key [OF sample_kit_ok _ quiet_host_ok(1) one_key(2) e quiet_host_ok(1) _ empty_store_kept i one_key(3)])
       (simp_all add: sample_json steady_def quiet_host_ok(2))
  then show ?thesis using e i by (auto simp: empty_store_def managed_def default_state_def)
qed

section \<open>Where a guard looks at too little\<close>

text \<open>on a keyring whose only key is the BSC key there is nothing the passphrase is checked on, and the key is
  revealed whatever passphrase the request carries.\<close>

theorem evm_key_revealed_without_passphrase:
  assumes "seed64 s = None" "imported (memory s) = []" "steady h"
    and "sealed_files s evm_key_file = Some b" "unseal (cipher k) (passwd s) evm_key_aad b = Inr x" "length x = 32"
  shows "snd (reveal_evm_secret k any_passphrase h s) = Inr x"
  using assms
  by (simp add: reveal_evm_secret_def verify_passphrase_def evm_secret_def kseq_def kbind_def kget_def kret_def kres_def
      read_sealed_def read_file_def kfs_def steady_def of_length_def)

theorem evm_key_revealed_without_passphrase_witness:
  "\<exists>b. snd (reveal_evm_secret sample_kit [0] quiet_host
       ((empty_store [112])\<lparr>sealed_files := (\<lambda>_. None)(evm_key_file := Some b)\<rparr>)) = Inr sample_secret"
proof -
  obtain b where b: "seal_with sample_aead (replicate 16 0) (replicate 12 0) [112] evm_key_aad sample_secret = Inr b"
    using seal_total [OF sample_aead_ok] by blast
  have "unseal sample_aead [112] evm_key_aad b = Inr sample_secret"
    using unseal_sealed [OF sample_aead_ok b] by (simp add: salt_len_def nonce_len_def)
  then have "snd (reveal_evm_secret sample_kit [0] quiet_host
       ((empty_store [112])\<lparr>sealed_files := (\<lambda>_. None)(evm_key_file := Some b)\<rparr>)) = Inr sample_secret"
    by (intro evm_key_revealed_without_passphrase)
       (simp_all add: empty_store_def default_state_def steady_def quiet_host_ok(2) sample_kit_def sample_secret_def)
  then show ?thesis by blast
qed

text \<open>when the state file cannot be written, the replacement of a BSC key ends in an error and neither key is
  left: the old one has been overwritten, the new one is removed again, and the address the store reports from
  then on belongs to the key that is gone.\<close>

theorem failed_replacement_destroys_both_keys:
  assumes "import_evm_key k x overwrite h s = (t, Inl (Io ''state''))"
    and "\<forall>i j. io_fails h i \<longrightarrow> io_fails h j \<longrightarrow> i = j"
  shows "sealed_files t evm_key_file = None \<and> state_file t = state_file s
    \<and> (\<exists>a. evm_address_text k x = Inr a \<and> snd (evm_address_opt k h' t) = Inr (Some a))
    \<and> (seed64 s = None \<longrightarrow> snd (evm_secret k h' t) = Inl EvmKeyNotCreated)"
proof -
  have one: "io_fails h i \<Longrightarrow> i \<noteq> j \<Longrightarrow> \<not> io_fails h j" for i j using assms(2) by blast
  have "kwp (import_evm_key k x overwrite) h s (\<lambda>t r. r = Inl (Io ''state'') \<longrightarrow>
      sealed_files t evm_key_file = None \<and> state_file t = state_file s \<and> seed64 t = seed64 s
      \<and> (\<exists>a m. evm_address_text k x = Inr a \<and> evm_key (memory t) = Some m \<and> evm_addr m = a))"
    using one
    by (auto simp: import_evm_key_def guard_evm_overwrite_def persist_evm_key_def seal_own_def seal_def kwp_simps Let_def
        write_sealed_def remove_sealed_def remove_if_present_def change_state_def save_state_def seal_with_def derive_kek_def
        result_simps split: sum.split option.split)
  then show ?thesis using assms(1)
    by (auto simp: kwp_def evm_address_opt_def evm_secret_def kbind_def kget_def kret_def kraise_def)
qed

theorem failed_replacement_destroys_both_keys_witness:
  "\<exists>t. import_evm_key sample_kit sample_secret True (quiet_host\<lparr>io_fails := (\<lambda>i. i = 4)\<rparr>)
         ((empty_store [112])\<lparr>sealed_files := (\<lambda>_. None)(evm_key_file := Some [1])\<rparr>) = (t, Inl (Io ''state''))
     \<and> sealed_files t evm_key_file = None \<and> snd (evm_address_opt sample_kit quiet_host t) = Inr (Some ''0xA'')"
proof -
  let ?h = "quiet_host\<lparr>io_fails := (\<lambda>i. i = 4)\<rparr>" and ?s = "(empty_store [112])\<lparr>sealed_files := (\<lambda>_. None)(evm_key_file := Some [1])\<rparr>"
  have a: "evm_address_text sample_kit sample_secret = Inr ''0xA''"
    by (simp add: evm_address_text_def evm_address_def sample_kit_def sample_alloy_def)
  have "snd (import_evm_key sample_kit sample_secret True ?h ?s) = Inl (Io ''state'')"
    by (simp add: import_evm_key_def guard_evm_overwrite_def persist_evm_key_def seal_own_def seal_def write_sealed_def
        remove_sealed_def remove_if_present_def change_state_def save_state_def kbind_def kseq_def kget_def kret_def kres_def kraise_def
        kmem_def kfs_def kattempt_def kignore_def fill_bytes_def now_secs_def seal_with_def derive_kek_def quiet_host_def empty_store_def
        sample_kit_def sample_aead_def evm_address_text_def evm_address_def sample_alloy_def Let_def
        evm_key_file_def evm_mnemonic_file_def)
  then obtain t where t: "import_evm_key sample_kit sample_secret True ?h ?s = (t, Inl (Io ''state''))" by (metis prod.collapse)
  have "sealed_files t evm_key_file = None \<and> state_file t = state_file ?s
    \<and> (\<exists>a. evm_address_text sample_kit sample_secret = Inr a \<and> snd (evm_address_opt sample_kit quiet_host t) = Inr (Some a))
    \<and> (seed64 ?s = None \<longrightarrow> snd (evm_secret sample_kit quiet_host t) = Inl EvmKeyNotCreated)"
    by (rule failed_replacement_destroys_both_keys [OF t]) simp
  then show ?thesis using t a by auto
qed

text \<open>a restore from a phrase refuses a directory that has a seed, but not one that has keys without a seed: it
  writes an empty state over theirs, and from then on no address of the directory is listed, although the files
  of the keys are still there.\<close>

theorem restore_forgets_seedless_keys:
  assumes "init_from_mnemonic k p phrase h s = (t, Inr ())" "managed (on_disk s) a"
  shows "\<not> managed (on_disk t) a \<and> sealed_files t = sealed_files s"
proof -
  have "kwp (init_from_mnemonic k p phrase) h s (\<lambda>t r. r = Inr () \<longrightarrow> state_file t = Some default_state \<and> sealed_files t = sealed_files s)"
    by (auto simp: init_from_mnemonic_def make_dirs_def seal_def write_seed_def kwp_simps Let_def split: sum.split option.split)
  then show ?thesis using assms(1) by (simp add: kwp_def on_disk_def managed_def default_state_def)
qed

theorem restore_forgets_seedless_keys_witness:
  "\<exists>t. init_from_mnemonic sample_kit [112] (letters (replicate 32 1)) quiet_host one_key = (t, Inr ())
     \<and> managed (on_disk one_key) sample_name \<and> \<not> managed (on_disk t) sample_name"
proof -
  have "seed_file one_key = None" using one_key(2,5) by (simp add: well_kept_def seed_kept_def)
  moreover have "trim (letters (replicate 32 1)) = letters (replicate 32 1)" by code_simp
  ultimately have "snd (init_from_mnemonic sample_kit [112] (letters (replicate 32 1)) quiet_host one_key) = Inr ()"
    using letters_spec(3) [of "replicate 32 1"]
    by (simp add: init_from_mnemonic_def make_dirs_def seal_def write_seed_def kbind_def kseq_def kget_def kret_def kres_def kfs_def
        fill_bytes_def seal_with_def derive_kek_def quiet_host_def sample_kit_def sample_aead_def parse_phrase_def of_length_def
        del: letters.simps unletters.simps)
  then obtain t where t: "init_from_mnemonic sample_kit [112] (letters (replicate 32 1)) quiet_host one_key = (t, Inr ())"
    by (metis prod.collapse)
  have d: "managed (on_disk one_key) sample_name" using one_key(3,6) by (simp add: on_disk_def)
  show ?thesis using restore_forgets_seedless_keys [OF t d] t d by blast
qed

text \<open>a derived address is not compared with the imported ones: when the next index gives an address that was
  imported before, the store lists it twice.\<close>

theorem derived_address_listed_twice:
  assumes "well_kept k s" "create_derived k lb h s = (t, Inr (a, pk, i))" "a \<in> set (imported (memory s))"
  shows "length (filter (\<lambda>e. entry_address e = a) (entries_of (memory t))) = 2"
proof -
  have "kwp (create_derived k lb) h s (\<lambda>t r. \<forall>a pk i. r = Inr (a, pk, i) \<longrightarrow>
      derived (memory t) = map_insert a i (derived (memory s)) \<and> imported (memory t) = imported (memory s))"
    by (auto simp: create_derived_def derive_key_def change_state_def save_state_def cache_key_def kwp_simps Let_def split: option.split)
  then have m: "derived (memory t) = map_insert a i (derived (memory s))" "imported (memory t) = imported (memory s)"
    using assms(2) by (auto simp: kwp_def)
  have b: "ordered (derived (memory s))" "distinct (imported (memory s))" using assms(1) by (simp_all add: well_kept_def backed_def)
  have one: "length (filter (\<lambda>x. x = a) xs) = 1" if "distinct xs" "a \<in> set xs" for xs :: "string list"
    using distinct_length_filter [OF that(1), of "\<lambda>x. x = a"] that(2) by (simp add: Collect_conv_if)
  let ?d = "map_insert a i (derived (memory s))"
  have "distinct (map fst ?d)" by (rule ordered_distinct [OF ordered_insert [OF b(1)]])
  moreover have "a \<in> set (map fst ?d)" by (simp add: dom_map_of_conv_image_fst [symmetric] del: map_of_eq_None_iff)
  ultimately have "length (filter (\<lambda>x. x = a) (map fst ?d)) = 1" by (rule one)
  then have "length (filter (\<lambda>p. fst p = a) (sort_key snd ?d)) = 1"
    by (simp add: filter_sort filter_map comp_def)
  moreover have "length (filter (\<lambda>x. x = a) (sort (imported (memory s)))) = 1"
    using one b(2) assms(3) by simp
  ultimately show ?thesis
    by (simp add: entries_of_def m filter_map comp_def case_prod_beta)
qed

text \<open>A store with a seed into which the key of its first index was imported.\<close>

lemma create_succeeds:
  assumes "steady h" "seed64 s = Some sd" "next_index (memory s) \<noteq> - 1"
  shows "\<exists>t pk. create_derived k lb h s = (t, Inr (own_address k (derived_secret k sd (next_index (memory s))), pk, next_index (memory s)))"
  using assms
  by (simp add: create_derived_def derive_key_def change_state_def save_state_def cache_key_def kbind_def kseq_def kget_def kret_def
      kmem_def kfs_def Let_def steady_def own_address_def)

theorem derived_address_listed_twice_witness:
  "\<exists>s t a pk i. well_kept sample_kit s \<and> create_derived sample_kit None quiet_host s = (t, Inr (a, pk, i))
     \<and> length (filter (\<lambda>e. entry_address e = a) (entries_of (memory t))) = 2"
proof -
  let ?sd = "replicate 32 9"
  obtain b where b: "seal_with sample_aead (replicate 16 0) (replicate 12 0) [112] seed_aad ?sd = Inr b"
    using seal_total [OF sample_aead_ok] by blast
  let ?s0 = "(empty_store [112])\<lparr>seed_file := Some b, seed64 := Some ?sd\<rparr>"
  have "unseal sample_aead [112] seed_aad b = Inr ?sd"
    using unseal_sealed [OF sample_aead_ok b] by (simp add: salt_len_def nonce_len_def)
  then have s0: "well_kept sample_kit ?s0"
    by (simp add: well_kept_def backed_def seed_kept_def cache_kept_def empty_store_def default_state_def ordered_def sample_kit_def)
  let ?x = "derived_secret sample_kit ?sd 0"
  have x: "length ?x = 32" by (simp add: derived_secret_def kit_okD(2) [OF sample_kit_ok])
  have q: "steady quiet_host" by (simp add: steady_def quiet_host_ok(2))
  have new: "\<not> managed (memory ?s0) (own_address sample_kit ?x)" by (simp add: empty_store_def managed_def default_state_def)
  have "snd (import_secret sample_kit ?x None quiet_host ?s0) = Inr (own_address sample_kit ?x)"
    using import_succeeds [OF sample_kit_ok quiet_host_ok(1) q new] by (simp only: kwp_run)
  then obtain s where i: "import_secret sample_kit ?x None quiet_host ?s0 = (s, Inr (own_address sample_kit ?x))"
    by (metis prod.collapse)
  have s: "well_kept sample_kit s" "seed64 s = Some ?sd" "own_address sample_kit ?x \<in> set (imported (memory s))"
    using import_post [OF sample_kit_ok quiet_host_ok(1) s0 x, of None, unfolded kwp_def i] by (simp_all add: kept_to_def)
  have "kwp (import_secret sample_kit ?x None) quiet_host ?s0 (\<lambda>t _. next_index (memory t) = next_index (memory ?s0))"
    by (auto simp: import_secret_def seal_own_def seal_def write_sealed_def change_state_def save_state_def cache_key_def kwp_simps
        Let_def split: sum.split)
  then have "next_index (memory s) = next_index (memory ?s0)" by (simp only: kwp_def i prod.case)
  then have n: "next_index (memory s) = 0" by (simp add: empty_store_def default_state_def)
  obtain t pk where t: "create_derived sample_kit None quiet_host s = (t, Inr (own_address sample_kit ?x, pk, 0))"
    using create_succeeds [OF q s(2), of sample_kit None] n by auto
  have "length (filter (\<lambda>e. entry_address e = own_address sample_kit ?x) (entries_of (memory t))) = 2"
    by (rule derived_address_listed_twice [OF s(1) t s(3)])
  then show ?thesis using s(1) t by blast
qed

end
