(* ===== verification/ApiSpend.thy ===== *)
theory ApiSpend imports Allowance Idempotency TxHtlc KeyringRuns begin

text \<open>
  The spending methods of the API (\<open>src/api/mod.rs\<close>): \<open>transfer\<close>, \<open>htlc_lock\<close>, \<open>htlc_claim\<close> and
  \<open>htlc_reclaim\<close>, which put the keystore, the allowance ledger, the idempotency cache, the coin selection, the
  broadcast, the watchdog and the HTLC index together.  \<open>wallet\<close> is what the daemon keeps between calls, and
  \<open>site\<close> is what one call finds around it: libraries, node, clock, and the failures of file system and database.
  A call is one step here; the interleavings of two calls are the subject of \<open>Idempotency\<close> and \<open>Inflight\<close>.
\<close>

section \<open>State and surroundings\<close>

record wallet =
  wl_keys :: keystore
  wl_ledger :: ledger
  wl_claims :: claims
  wl_cache :: "transfer_receipt slots"
  wl_notifiers :: nat
  wl_index :: index
  wl_watch :: "watch option"

record 'p site =
  st_kit :: kit
  st_host :: host
  st_chain :: chain
  st_cov :: "'p covenants"
  st_codec :: codec
  st_node :: node
  st_spend :: spend_node
  parse_any :: "string \<Rightarrow> bytes option"
  ed25519_sign :: "bytes \<Rightarrow> bytes \<Rightarrow> bytes"
  max_datum_size :: nat
  sip_hash :: "bytes \<Rightarrow> u64"
  ledger_fails :: faults
  refund_fails :: faults
  index_fails :: faults
  now_unix :: u64
  st_clock :: "nat \<Rightarrow> nat"
  cache_time :: nat
  stored_time :: nat
  lock_time :: nat

section \<open>Addresses\<close>

text \<open>\<open>parse_any\<close> of the crate reads an address in hex or bech32m for the network of this node.\<close>

definition parse_address :: "'p site \<Rightarrow> string \<Rightarrow> bytes res" where
  "parse_address si s = ok_or (BadHex '''') (parse_any si s)"

definition parse_address_hex :: "'p site \<Rightarrow> string \<Rightarrow> (string \<times> bytes) res" where
  "parse_address_hex si s =
     bind_ok (parse_address si s) (\<lambda>b. Inr (hex_encode (st_chain si) b, b))"

text \<open>A loaded key as the transaction engine uses it.\<close>

definition signer_of :: "'p site \<Rightarrow> wallet_key \<Rightarrow> signer" where
  "signer_of si k =
     \<lparr>signer_address = key_address k, signer_pubkey = key_pubkey k, sign_bytes = ed25519_sign si (key_secret k)\<rparr>"

definition load_signer :: "'p site \<Rightarrow> string \<Rightarrow> wallet \<Rightarrow> wallet \<times> signer res" where
  "load_signer si addr w =
     (case load_by_address (st_kit si) addr (st_host si) (wl_keys w) of
        (ks, r) \<Rightarrow> (w\<lparr>wl_keys := ks\<rparr>, bind_ok r (\<lambda>k. Inr (signer_of si k))))"

section \<open>Transfer\<close>

record transfer_output =
  to_address :: string
  to_value :: u64

record transfer_params =
  tp_from :: string
  tp_outputs :: "transfer_output list"
  tp_fee_rate :: "u64 option"
  tp_fee :: "u64 option"
  tp_max_fee :: "u64 option"
  tp_client_token :: "string option"
  tp_datum :: "string option"

definition max_outputs :: nat where "max_outputs = 16"
definition default_max_fee :: u64 where "default_max_fee = 2000000"

text \<open>A string is its UTF-8 bytes, so \<open>is_ascii\<close> looks at the top bit of each.\<close>

definition is_ascii :: "string \<Rightarrow> bool" where
  "is_ascii s \<longleftrightarrow> list_all (\<lambda>c. (of_char c :: nat) < 128) s"

definition exclusive_fees :: "u64 option \<Rightarrow> u64 option \<Rightarrow> unit res" where
  "exclusive_fees fee rate =
     ensure (BadParams ''`fee` and `fee_rate` are mutually exclusive'') (fee = None \<or> rate = None)"

definition fee_choice_of :: "u64 option \<Rightarrow> u64 option \<Rightarrow> fee_choice" where
  "fee_choice_of fee rate =
     (case fee of Some f \<Rightarrow> Absolute f | None \<Rightarrow> (case rate of Some r \<Rightarrow> Rate r | None \<Rightarrow> Rate 1))"

definition fee_cap :: "u64 option \<Rightarrow> u64" where
  "fee_cap m = (case m of Some f \<Rightarrow> f | None \<Rightarrow> default_max_fee)"

definition check_token :: "string option \<Rightarrow> unit res" where
  "check_token token =
     (case token of
        None \<Rightarrow> Inr ()
      | Some t \<Rightarrow> ensure (BadParams ''transfer: client_token must be 8..=128 ASCII characters'')
                    (8 \<le> length t \<and> length t \<le> 128 \<and> is_ascii t))"

definition spend_sum :: "transfer_output list \<Rightarrow> u64" where
  "spend_sum outs = foldl (\<lambda>a o'. saturating_add a (to_value o')) 0 outs"

definition recipients_of :: "'p site \<Rightarrow> transfer_output list \<Rightarrow> (bytes \<times> u64) list res" where
  "recipients_of si outs =
     map_ok (\<lambda>o'. bind_ok (parse_address si (to_address o')) (\<lambda>b. Inr (b, to_value o'))) outs"

text \<open>The checks before the keystore is touched: the address to load, and the recipients.\<close>

definition check_transfer :: "'p site \<Rightarrow> ledger \<Rightarrow> transfer_params \<Rightarrow> (string \<times> (bytes \<times> u64) list) res" where
  "check_transfer si l p =
     bind_ok (parse_address_hex si (tp_from p)) (\<lambda>(from_addr, _).
     bind_ok (ensure (BadParams ''transfer: outputs[] must not be empty'') (tp_outputs p \<noteq> [])) (\<lambda>_.
     bind_ok (ensure (TooManyOutputs (length (tp_outputs p)) max_outputs)
                (length (tp_outputs p) \<le> max_outputs)) (\<lambda>_.
     bind_ok (recipients_of si (tp_outputs p)) (\<lambda>recipients.
     bind_ok (exclusive_fees (tp_fee p) (tp_fee_rate p)) (\<lambda>_.
     bind_ok (check_token (tp_client_token p)) (\<lambda>_.
     bind_ok (check_per_tx l (spend_sum (tp_outputs p))) (\<lambda>_.
     Inr (from_addr, recipients))))))))"

definition decode_datum :: "'p site \<Rightarrow> string option \<Rightarrow> bytes option res" where
  "decode_datum si d =
     (case d of
        None \<Rightarrow> Inr None
      | Some h \<Rightarrow>
          bind_ok (ok_or (BadHex '''') (hex_decode (st_chain si) h)) (\<lambda>b.
          bind_ok (ensure (BadParams ''datum exceeds MAX_DATUM_SIZE'') (length b \<le> max_datum_size si)) (\<lambda>_.
          Inr (Some b))))"

text \<open>
  The bytes that \<open>fingerprint_transfer\<close> feeds the hasher: a string with the byte \<open>0xFF\<close> behind it, integers in
  little-endian order, and the discriminant of an \<open>Option\<close> as eight bytes.
\<close>

definition hash_str :: "string \<Rightarrow> bytes" where
  "hash_str s = ascii s @ [255]"

definition hash_u64 :: "u64 \<Rightarrow> bytes" where
  "hash_u64 n = rev (u64_to_be n)"

definition fee_bytes :: "fee_choice \<Rightarrow> bytes" where
  "fee_bytes c = (case c of Absolute f \<Rightarrow> 0 # hash_u64 f | Rate r \<Rightarrow> 1 # hash_u64 r)"

definition fingerprint_bytes :: "transfer_params \<Rightarrow> fee_choice \<Rightarrow> u64 \<Rightarrow> bytes" where
  "fingerprint_bytes p choice max_fee =
     hash_str (lower (tp_from p))
     @ concat (map (\<lambda>o'. hash_str (lower (to_address o')) @ hash_u64 (to_value o')) (tp_outputs p))
     @ (case tp_datum p of None \<Rightarrow> hash_u64 0 | Some d \<Rightarrow> hash_u64 1 @ hash_str (lower d))
     @ fee_bytes choice @ hash_u64 max_fee"

definition fingerprint_transfer :: "'p site \<Rightarrow> transfer_params \<Rightarrow> fee_choice \<Rightarrow> u64 \<Rightarrow> u64" where
  "fingerprint_transfer si p choice max_fee = sip_hash si (fingerprint_bytes p choice max_fee)"

text \<open>
  The unit of work: reserve, transfer, and give the reservation back when the transfer failed.  The results are
  the wallet, what was sent to the node, and the receipt.
\<close>

definition run_transfer ::
    "'p site \<Rightarrow> signer \<Rightarrow> (bytes \<times> u64) list \<Rightarrow> bytes option \<Rightarrow> fee_choice \<Rightarrow> u64 \<Rightarrow> u64 \<Rightarrow>
     wallet \<Rightarrow> wallet \<times> string list \<times> transfer_receipt res" where
  "run_transfer si sg recipients d choice max_fee paid w =
     (case reserve (ledger_fails si) (wl_ledger w) paid (now_unix si) of
        (l1, Inl e) \<Rightarrow> (w\<lparr>wl_ledger := l1\<rparr>, [], Inl e)
      | (l1, Inr _) \<Rightarrow>
          (case transfer (st_chain si) (st_node si) sg recipients d choice max_fee (st_clock si) (wl_claims w) of
             (cs, txs, Inr r) \<Rightarrow> (w\<lparr>wl_ledger := l1, wl_claims := cs\<rparr>, txs, Inr r)
           | (cs, txs, Inl e) \<Rightarrow>
               (w\<lparr>wl_ledger := refund (refund_fails si) l1 paid (now_unix si), wl_claims := cs\<rparr>, txs, Inl e)))"

text \<open>
  \<open>get_or_run\<close> around it.  A call that meets a computation of another one waits for that; it has no answer in this
  step, which is \<open>None\<close>.
\<close>

definition run_once ::
    "'p site \<Rightarrow> string \<Rightarrow> u64 \<Rightarrow> (wallet \<Rightarrow> wallet \<times> string list \<times> transfer_receipt res) \<Rightarrow>
     wallet \<Rightarrow> wallet \<times> string list \<times> transfer_receipt res option" where
  "run_once si token fp f w =
     (case choose_action (cache_time si) (wl_notifiers w) (wl_cache w) token fp of
        (m, Return r) \<Rightarrow> (w\<lparr>wl_cache := m\<rparr>, [], Some r)
      | (m, Wait _) \<Rightarrow> (w\<lparr>wl_cache := m\<rparr>, [], None)
      | (m, Compute n) \<Rightarrow>
          (case f (w\<lparr>wl_cache := m, wl_notifiers := Suc n\<rparr>) of
             (w1, txs, r) \<Rightarrow>
               (w1\<lparr>wl_cache := store_result (stored_time si) (wl_cache w1) token fp r\<rparr>, txs, Some r)))"

definition transfer_method ::
    "'p site \<Rightarrow> transfer_params \<Rightarrow> wallet \<Rightarrow> wallet \<times> string list \<times> transfer_receipt res option" where
  "transfer_method si p w =
     (case check_transfer si (wl_ledger w) p of
        Inl e \<Rightarrow> (w, [], Some (Inl e))
      | Inr (from_addr, recipients) \<Rightarrow>
          (case load_signer si from_addr w of
             (w1, Inl e) \<Rightarrow> (w1, [], Some (Inl e))
           | (w1, Inr sg) \<Rightarrow>
               (case decode_datum si (tp_datum p) of
                  Inl e \<Rightarrow> (w1, [], Some (Inl e))
                | Inr d \<Rightarrow>
                    let choice = fee_choice_of (tp_fee p) (tp_fee_rate p);
                        max_fee = fee_cap (tp_max_fee p);
                        run = run_transfer si sg recipients d choice max_fee (spend_sum (tp_outputs p))
                    in (case tp_client_token p of
                          Some token \<Rightarrow> run_once si token (fingerprint_transfer si p choice max_fee) run w1
                        | None \<Rightarrow> (case run w1 of (w2, txs, r) \<Rightarrow> (w2, txs, Some r))))))"

definition allowance_status_method :: "'p site \<Rightarrow> wallet \<Rightarrow> allowance_status res" where
  "allowance_status_method si w = Allowance.status (ledger_fails si) (wl_ledger w) (now_unix si)"

section \<open>Locking, claiming and reclaiming\<close>

record htlc_lock_params =
  hl_from :: string
  hl_receiver :: string
  hl_hash_lock :: string
  hl_timeout :: u64
  hl_paid :: u64
  hl_fee_rate :: "u64 option"
  hl_fee :: "u64 option"
  hl_max_fee :: "u64 option"

record htlc_claim_params =
  hc_from :: string
  hc_lock_tx_id :: string
  hc_output_index :: u32
  hc_preimage :: string
  hc_sender :: string
  hc_timeout :: u64
  hc_fee :: "u64 option"

record htlc_reclaim_params =
  hx_from :: string
  hx_lock_tx_id :: string
  hx_output_index :: u32
  hx_receiver :: string
  hx_hash_lock :: string
  hx_timeout :: u64
  hx_fee :: "u64 option"

definition max_preimage_bytes :: nat where "max_preimage_bytes = 1024"

definition eager_lock_record ::
    "bytes \<Rightarrow> u32 \<Rightarrow> bytes \<Rightarrow> bytes \<Rightarrow> bytes \<Rightarrow> u64 \<Rightarrow> u64 \<Rightarrow> u64 \<Rightarrow> htlc_record" where
  "eager_lock_record lock_tx_id i sender receiver hash expiry paid height =
     \<lparr>hr_lock_tx_id = lock_tx_id, hr_output_index = i,
      hr_params = \<lparr>hp_sender = sender, hp_receiver = receiver, hp_hash_lock = hash, hp_timeout_height = expiry\<rparr>,
      hr_amount = paid, hr_lock_height = None, hr_state = Locked, hr_claim = None, hr_reclaim = None,
      hr_role = Sender, hr_last_indexed = height\<rparr>"

text \<open>The eager write after a lock: whatever goes wrong with it, the lock has happened and the call succeeds.\<close>

definition note_lock :: "'p site \<Rightarrow> htlc_lock_params \<Rightarrow> signer \<Rightarrow> bytes \<Rightarrow> bytes \<Rightarrow> lock_receipt \<Rightarrow> wallet \<Rightarrow> wallet" where
  "note_lock si p sg receiver hash rc w =
     (case (decode_hash (st_chain si) (lk_tx_id rc), decode_hash (st_chain si) (hl_from p)) of
        (Inr tx_id, Inr owner) \<Rightarrow>
          w\<lparr>wl_index := fst (upsert_htlc (index_fails si) (st_codec si)
               (eager_lock_record tx_id (lk_output_index rc) (signer_pubkey sg) receiver hash (hl_timeout p)
                  (lk_amount rc) (lk_built_at_height rc)) owner (wl_index w))\<rparr>
      | _ \<Rightarrow> w)"

definition check_lock :: "'p site \<Rightarrow> wallet \<Rightarrow> htlc_lock_params \<Rightarrow> (bytes \<times> bytes) res" where
  "check_lock si w p =
     bind_ok (ensure_64_hex (hl_from p)) (\<lambda>_.
     bind_ok (ensure_64_hex (hl_receiver p)) (\<lambda>_.
     bind_ok (ensure_64_hex (hl_hash_lock p)) (\<lambda>_.
     bind_ok (exclusive_fees (hl_fee p) (hl_fee_rate p)) (\<lambda>_.
     bind_ok (ensure (InFlightExhausted (hl_paid p) 0 0 0) (\<not> locks_held (lock_time si) (wl_claims w))) (\<lambda>_.
     bind_ok (decode_hash (st_chain si) (hl_receiver p)) (\<lambda>receiver.
     bind_ok (decode_hash (st_chain si) (hl_hash_lock p)) (\<lambda>hash.
     bind_ok (check_per_tx (wl_ledger w) (hl_paid p)) (\<lambda>_.
     Inr (receiver, hash)))))))))"

definition run_lock ::
    "'p site \<Rightarrow> htlc_lock_params \<Rightarrow> signer \<Rightarrow> bytes \<Rightarrow> bytes \<Rightarrow> wallet \<Rightarrow> wallet \<times> string list \<times> lock_receipt res" where
  "run_lock si p sg receiver hash w =
     (case reserve (ledger_fails si) (wl_ledger w) (hl_paid p) (now_unix si) of
        (l1, Inl e) \<Rightarrow> (w\<lparr>wl_ledger := l1\<rparr>, [], Inl e)
      | (l1, Inr _) \<Rightarrow>
          (case htlc_lock (st_chain si) (st_cov si) (st_node si) sg receiver hash (hl_timeout p) (hl_paid p)
                  (fee_choice_of (hl_fee p) (hl_fee_rate p))
                  (fee_cap (hl_max_fee p))
                  (st_clock si) (lock_time si) (wl_claims w) (wl_watch w) of
             (cs, wt, txs, Inr rc) \<Rightarrow>
               (note_lock si p sg receiver hash rc (w\<lparr>wl_ledger := l1, wl_claims := cs, wl_watch := wt\<rparr>), txs, Inr rc)
           | (cs, wt, txs, Inl e) \<Rightarrow>
               (w\<lparr>wl_ledger := refund (refund_fails si) l1 (hl_paid p) (now_unix si), wl_claims := cs,
                  wl_watch := wt\<rparr>, txs, Inl e)))"

definition htlc_lock_method ::
    "'p site \<Rightarrow> htlc_lock_params \<Rightarrow> wallet \<Rightarrow> wallet \<times> string list \<times> lock_receipt res" where
  "htlc_lock_method si p w =
     (case check_lock si w p of
        Inl e \<Rightarrow> (w, [], Inl e)
      | Inr (receiver, hash) \<Rightarrow>
          (case load_signer si (hl_from p) w of
             (w1, Inl e) \<Rightarrow> (w1, [], Inl e)
           | (w1, Inr sg) \<Rightarrow> run_lock si p sg receiver hash w1))"

definition check_claim :: "'p site \<Rightarrow> htlc_claim_params \<Rightarrow> (bytes \<times> bytes \<times> bytes) res" where
  "check_claim si p =
     bind_ok (ensure_64_hex (hc_from p)) (\<lambda>_.
     bind_ok (ensure_64_hex (hc_lock_tx_id p)) (\<lambda>_.
     bind_ok (ensure_64_hex (hc_sender p)) (\<lambda>_.
     bind_ok (ok_or (BadHex '''') (hex_decode (st_chain si) (hc_preimage p))) (\<lambda>secret.
     bind_ok (ensure (BadParams ''htlc_claim: preimage must be 1..=1024 bytes'')
                (secret \<noteq> [] \<and> length secret \<le> max_preimage_bytes)) (\<lambda>_.
     bind_ok (decode_hash (st_chain si) (hc_lock_tx_id p)) (\<lambda>lock_tx_id.
     bind_ok (decode_hash (st_chain si) (hc_sender p)) (\<lambda>sender.
     Inr (lock_tx_id, secret, sender))))))))"

definition htlc_claim_method ::
    "'p site \<Rightarrow> htlc_claim_params \<Rightarrow> wallet \<Rightarrow> wallet \<times> string list \<times> spend_receipt res" where
  "htlc_claim_method si p w =
     (case check_claim si p of
        Inl e \<Rightarrow> (w, [], Inl e)
      | Inr (lock_tx_id, secret, sender) \<Rightarrow>
          (case load_signer si (hc_from p) w of
             (w1, Inl e) \<Rightarrow> (w1, [], Inl e)
           | (w1, Inr sg) \<Rightarrow>
               (w1, htlc_claim (st_chain si) (st_cov si) (st_spend si) sg lock_tx_id (hc_output_index p) secret
                      sender (hc_timeout p) (hc_fee p))))"

definition check_reclaim :: "'p site \<Rightarrow> htlc_reclaim_params \<Rightarrow> (bytes \<times> bytes \<times> bytes) res" where
  "check_reclaim si p =
     bind_ok (ensure_64_hex (hx_from p)) (\<lambda>_.
     bind_ok (ensure_64_hex (hx_lock_tx_id p)) (\<lambda>_.
     bind_ok (ensure_64_hex (hx_receiver p)) (\<lambda>_.
     bind_ok (ensure_64_hex (hx_hash_lock p)) (\<lambda>_.
     bind_ok (decode_hash (st_chain si) (hx_lock_tx_id p)) (\<lambda>lock_tx_id.
     bind_ok (decode_hash (st_chain si) (hx_receiver p)) (\<lambda>receiver.
     bind_ok (decode_hash (st_chain si) (hx_hash_lock p)) (\<lambda>hash.
     Inr (lock_tx_id, receiver, hash))))))))"

definition htlc_reclaim_method ::
    "'p site \<Rightarrow> htlc_reclaim_params \<Rightarrow> wallet \<Rightarrow> wallet \<times> string list \<times> spend_receipt res" where
  "htlc_reclaim_method si p w =
     (case check_reclaim si p of
        Inl e \<Rightarrow> (w, [], Inl e)
      | Inr (lock_tx_id, receiver, hash) \<Rightarrow>
          (case load_signer si (hx_from p) w of
             (w1, Inl e) \<Rightarrow> (w1, [], Inl e)
           | (w1, Inr sg) \<Rightarrow>
               (w1, htlc_reclaim (st_chain si) (st_cov si) (st_spend si) sg lock_tx_id (hx_output_index p) receiver
                      hash (hx_timeout p) (hx_fee p))))"

end
