(* ===== verification/ApiRuns.thy ===== *)
theory ApiRuns imports ApiSpend begin

text \<open>
  The spending methods together: any sequence of calls of \<open>transfer\<close>, \<open>htlc_lock\<close>, \<open>htlc_claim\<close> and
  \<open>htlc_reclaim\<close>, each at a site of its own.  What leaves the wallet is held against the allowance, and a
  repeated transfer against the one it repeats.
\<close>

section \<open>Calls\<close>

datatype spend_call =
    DoTransfer transfer_params | DoLock htlc_lock_params | DoClaim htlc_claim_params | DoReclaim htlc_reclaim_params

fun answered :: "'r res option \<Rightarrow> bool" where
  "answered (Some (Inr _)) = True"
| "answered _ = False"

fun serve :: "'p site \<Rightarrow> spend_call \<Rightarrow> wallet \<Rightarrow> wallet \<times> string list \<times> bool" where
  "serve si (DoTransfer p) w = (case transfer_method si p w of (w1, txs, r) \<Rightarrow> (w1, txs, answered r))"
| "serve si (DoLock p) w = (case htlc_lock_method si p w of (w1, txs, r) \<Rightarrow> (w1, txs, answered (Some r)))"
| "serve si (DoClaim p) w = (case htlc_claim_method si p w of (w1, txs, r) \<Rightarrow> (w1, txs, answered (Some r)))"
| "serve si (DoReclaim p) w = (case htlc_reclaim_method si p w of (w1, txs, r) \<Rightarrow> (w1, txs, answered (Some r)))"

text \<open>What a call asks to pay, and what it has paid when it sent something and succeeded.\<close>

fun asked :: "spend_call \<Rightarrow> u64" where
  "asked (DoTransfer p) = spend_sum (tp_outputs p)"
| "asked (DoLock p) = hl_paid p"
| "asked (DoClaim p) = 0"
| "asked (DoReclaim p) = 0"

definition outflow :: "'p site \<Rightarrow> spend_call \<Rightarrow> wallet \<Rightarrow> nat" where
  "outflow si c w = (case serve si c w of (_, txs, ok) \<Rightarrow> if ok \<and> txs \<noteq> [] then unat (asked c) else 0)"

fun served :: "('p site \<times> spend_call) list \<Rightarrow> wallet \<Rightarrow> wallet" where
  "served [] w = w"
| "served ((si, c) # cs) w = served cs (fst (serve si c w))"

text \<open>The payments that fell into one window of the ledger.\<close>

fun outflow_in :: "u64 \<Rightarrow> ('p site \<times> spend_call) list \<Rightarrow> wallet \<Rightarrow> nat" where
  "outflow_in b [] w = 0"
| "outflow_in b ((si, c) # cs) w =
     (if bucket (wl_ledger w) (now_unix si) = b then outflow si c w else 0) + outflow_in b cs (fst (serve si c w))"

section \<open>What one call does to each part of the wallet\<close>

lemma load_signer_parts:
  assumes "load_signer si a w = (w1, r)"
  shows "wl_ledger w1 = wl_ledger w" "wl_claims w1 = wl_claims w" "wl_cache w1 = wl_cache w"
    "wl_index w1 = wl_index w" "wl_notifiers w1 = wl_notifiers w" "wl_watch w1 = wl_watch w"
  using assms by (auto simp: load_signer_def split: prod.splits)

lemma note_lock_parts [simp]:
  "wl_ledger (note_lock si p sg rv hs rc w) = wl_ledger w" "wl_cache (note_lock si p sg rv hs rc w) = wl_cache w"
  "wl_claims (note_lock si p sg rv hs rc w) = wl_claims w" "wl_notifiers (note_lock si p sg rv hs rc w) = wl_notifiers w"
  "wl_keys (note_lock si p sg rv hs rc w) = wl_keys w"
  by (auto simp: note_lock_def split: sum.splits)

text \<open>
  What a spend does to the ledger: nothing, when nothing was reserved and sent; else the reservation stands when it
  succeeded, and is handed back when it did not.
\<close>

definition budgeted :: "'p site \<Rightarrow> u64 \<Rightarrow> ledger \<Rightarrow> ledger \<Rightarrow> string list \<Rightarrow> bool \<Rightarrow> bool" where
  "budgeted si paid l l' txs ok \<longleftrightarrow>
     l' = l \<and> txs = []
   \<or> (\<exists>l1. reserve (ledger_fails si) l paid (now_unix si) = (l1, Inr ())
        \<and> l' = (if ok then l1 else refund (refund_fails si) l1 paid (now_unix si)))"

lemma run_transfer_budgeted:
  assumes "run_transfer si sg rs d choice max_fee paid w = (w1, txs, r)"
  shows "budgeted si paid (wl_ledger w) (wl_ledger w1) txs (answered (Some r))"
    and "wl_cache w1 = wl_cache w \<and> wl_notifiers w1 = wl_notifiers w \<and> wl_index w1 = wl_index w"
  using assms by (auto simp: run_transfer_def budgeted_def dest: reserve_err_unchanged split: prod.splits sum.splits)

lemma run_once_budgeted:
  assumes f: "\<And>w w1 txs r. f w = (w1, txs, r) \<Longrightarrow> budgeted si paid (wl_ledger w) (wl_ledger w1) txs (answered (Some r))"
    and run: "run_once si token fp f w = (w1, txs, r)"
  shows "budgeted si paid (wl_ledger w) (wl_ledger w1) txs (answered r)"
proof -
  obtain m a where m: "choose_action (cache_time si) (wl_notifiers w) (wl_cache w) token fp = (m, a)" by fastforce
  show ?thesis
  proof (cases a)
    case (Compute n)
    let ?w = "w\<lparr>wl_cache := m, wl_notifiers := Suc n\<rparr>"
    obtain w2 tx q where q: "f ?w = (w2, tx, q)" by (cases "f ?w") auto
    show ?thesis using f [OF q] run m Compute q by (auto simp: run_once_def)
  qed (use run m in \<open>auto simp: run_once_def budgeted_def\<close>)
qed

text \<open>A transfer is refused before anything is reserved, or it runs, behind its token or without one.\<close>

lemma transfer_method_cases:
  assumes "transfer_method si p w = (w1, txs, q)"
  obtains (refused) e where "q = Some (Inl e)" "txs = []" "w1 = w \<or> (\<exists>a x. load_signer si a w = (w1, x))"
  | (ran) a rs w2 sg d choice f where "check_transfer si (wl_ledger w) p = Inr (a, rs)"
    "load_signer si a w = (w2, Inr sg)" "decode_datum si (tp_datum p) = Inr d"
    "choice = fee_choice_of (tp_fee p) (tp_fee_rate p)"
    "f = run_transfer si sg rs d choice (fee_cap (tp_max_fee p)) (spend_sum (tp_outputs p))"
    "tp_client_token p = None \<Longrightarrow> \<exists>r. f w2 = (w1, txs, r) \<and> q = Some r"
    "\<And>token. tp_client_token p = Some token \<Longrightarrow>
       run_once si token (fingerprint_transfer si p choice (fee_cap (tp_max_fee p))) f w2 = (w1, txs, q)"
proof (cases "check_transfer si (wl_ledger w) p")
  case (Inl e)
  then show ?thesis using assms refused [of e] by (auto simp: transfer_method_def)
next
  case (Inr y)
  obtain a rs where y: "y = (a, rs)" by (cases y)
  obtain w2 x where load: "load_signer si a w = (w2, x)" by fastforce
  show ?thesis
  proof (cases x)
    case (Inl e)
    then have "q = Some (Inl e)" "txs = []" "w1 = w2" using assms Inr y load by (auto simp: transfer_method_def)
    then show ?thesis using refused load by blast
  next
    case x: (Inr sg)
    show ?thesis
    proof (cases "decode_datum si (tp_datum p)")
      case (Inl e)
      then have "q = Some (Inl e)" "txs = []" "w1 = w2" using assms Inr y load x by (auto simp: transfer_method_def)
      then show ?thesis using refused load by blast
    next
      case d: (Inr d)
      show ?thesis
        using assms Inr y load x d
        by (intro ran [of a rs w2 sg d])
           (auto simp: transfer_method_def Let_def split: option.splits prod.splits)
    qed
  qed
qed

lemma transfer_method_budgeted:
  assumes "transfer_method si p w = (w1, txs, r)"
  shows "budgeted si (spend_sum (tp_outputs p)) (wl_ledger w) (wl_ledger w1) txs (answered r)"
  using assms
proof (cases rule: transfer_method_cases)
  case refused
  then show ?thesis by (auto simp: budgeted_def load_signer_parts)
next
  case (ran a rs w2 sg d choice f)
  note parts = load_signer_parts [OF ran(2)]
  have f: "budgeted si (spend_sum (tp_outputs p)) (wl_ledger w) (wl_ledger w1) txs (answered (Some r))"
    if "f w = (w1, txs, r)" for w w1 txs r
    using that unfolding ran(5) by (rule run_transfer_budgeted)
  show ?thesis
  proof (cases "tp_client_token p")
    case None
    then show ?thesis using ran(6) f [of w2] parts by auto
  next
    case (Some token)
    from run_once_budgeted [of f si, OF f ran(7) [OF Some]] show ?thesis by (simp add: parts)
  qed
qed

lemma run_lock_budgeted:
  assumes "run_lock si p sg rv hs w = (w1, txs, r)"
  shows "budgeted si (hl_paid p) (wl_ledger w) (wl_ledger w1) txs (answered (Some r))"
    and "wl_cache w1 = wl_cache w \<and> wl_notifiers w1 = wl_notifiers w"
  using assms by (auto simp: run_lock_def budgeted_def dest: reserve_err_unchanged split: prod.splits sum.splits)

lemma htlc_lock_method_budgeted:
  assumes "htlc_lock_method si p w = (w1, txs, r)"
  shows "budgeted si (hl_paid p) (wl_ledger w) (wl_ledger w1) txs (answered (Some r))
    \<and> wl_cache w1 = wl_cache w \<and> wl_notifiers w1 = wl_notifiers w"
proof (cases "check_lock si w p")
  case (Inl e)
  then show ?thesis using assms by (auto simp: htlc_lock_method_def budgeted_def)
next
  case (Inr x)
  obtain rv hs where x: "x = (rv, hs)" by (cases x)
  obtain w2 q where load: "load_signer si (hl_from p) w = (w2, q)" by fastforce
  note parts = load_signer_parts [OF load]
  show ?thesis
  proof (cases q)
    case (Inl e)
    then show ?thesis using assms Inr x load parts by (auto simp: htlc_lock_method_def budgeted_def)
  next
    case q: (Inr sg)
    then have "run_lock si p sg rv hs w2 = (w1, txs, r)" using assms Inr x load by (simp add: htlc_lock_method_def)
    from run_lock_budgeted [OF this] show ?thesis by (simp add: parts)
  qed
qed

lemma spends_leave_ledger:
  "htlc_claim_method si p w = (w1, txs, r) \<Longrightarrow> wl_ledger w1 = wl_ledger w \<and> wl_cache w1 = wl_cache w \<and> wl_claims w1 = wl_claims w"
  "htlc_reclaim_method si q w = (w1, txs, r) \<Longrightarrow> wl_ledger w1 = wl_ledger w \<and> wl_cache w1 = wl_cache w \<and> wl_claims w1 = wl_claims w"
  by (auto simp: htlc_claim_method_def htlc_reclaim_method_def load_signer_parts split: prod.splits sum.splits)

lemma serve_budgeted:
  assumes "serve si c w = (w1, txs, ok)"
  shows "budgeted si (asked c) (wl_ledger w) (wl_ledger w1) txs ok
    \<or> asked c = 0 \<and> wl_ledger w1 = wl_ledger w"
  using assms
  by (cases c) (auto dest: transfer_method_budgeted htlc_lock_method_budgeted spends_leave_ledger split: prod.splits)

section \<open>The allowance\<close>

lemma budgeted_counts:
  assumes "budgeted si paid l l' txs ok" "metered_ledger l"
  shows "metered_ledger l' \<and> caps l' = caps l
    \<and> spent l b + (if bucket l (now_unix si) = b \<and> ok \<and> txs \<noteq> [] then unat paid else 0) \<le> spent l' b"
  using assms(1) unfolding budgeted_def
proof
  assume "l' = l \<and> txs = []"
  then show ?thesis using assms(2) by simp
next
  assume "\<exists>l1. reserve (ledger_fails si) l paid (now_unix si) = (l1, Inr ())
    \<and> l' = (if ok then l1 else refund (refund_fails si) l1 paid (now_unix si))"
  then obtain l1 where l1: "reserve (ledger_fails si) l paid (now_unix si) = (l1, Inr ())"
    and l': "l' = (if ok then l1 else refund (refund_fails si) l1 paid (now_unix si))" by blast
  have k: "metered_ledger l1" "caps l1 = caps l" "bucket l1 = bucket l"
    using ledger.charge_keeps [OF assms(2) l1] reserve_caps [of "ledger_fails si" l paid "now_unix si"] l1 by auto
  have c: "spent l1 b = (if b = bucket l (now_unix si) then spent l b + unat paid else spent l b)"
    by (rule ledger.charge_ok [OF assms(2) l1])
  show ?thesis
  proof (cases ok)
    case True
    then show ?thesis using k c l' by auto
  next
    case False
    have "metered_ledger l'" using ledger.release_keeps [OF k(1)] l' False by simp
    moreover have "spent l1 b \<le> spent l' b + (if b = bucket l1 (now_unix si) then unat paid else 0)"
      using ledger.release_bounds [OF k(1)] l' False by simp
    ultimately show ?thesis using k c l' False by (auto split: if_splits)
  qed
qed

lemma serve_counts:
  assumes "metered_ledger (wl_ledger w)"
  shows "metered_ledger (wl_ledger (fst (serve si c w))) \<and> caps (wl_ledger (fst (serve si c w))) = caps (wl_ledger w)
    \<and> spent (wl_ledger w) b + (if bucket (wl_ledger w) (now_unix si) = b then outflow si c w else 0)
        \<le> spent (wl_ledger (fst (serve si c w))) b"
proof -
  obtain w1 txs ok where s: "serve si c w = (w1, txs, ok)" by (cases "serve si c w") auto
  from serve_budgeted [OF s] show ?thesis
    using budgeted_counts [OF _ assms, of si "asked c" "wl_ledger w1" txs ok b] assms s
    by (auto simp: outflow_def split: if_splits)
qed

lemma served_counts:
  assumes "metered_ledger (wl_ledger w)"
  shows "metered_ledger (wl_ledger (served cs w)) \<and> caps (wl_ledger (served cs w)) = caps (wl_ledger w)
    \<and> spent (wl_ledger w) b + outflow_in b cs w \<le> spent (wl_ledger (served cs w)) b"
  using assms
proof (induction cs arbitrary: w)
  case (Cons x cs)
  obtain si c where x: "x = (si, c)" by (cases x)
  note s = serve_counts [OF Cons.prems, of si c b]
  then show ?case using Cons.IH [of "fst (serve si c w)"] x by auto
qed simp

text \<open>C3: The promise of the spend allowance, for the daemon as a whole.  Whatever sequence of transfers, locks, claims
  and reclaims is called, at whatever times and with whatever failures of the node and of the database, the
  amounts of the payments that went through in one window of the ledger add up to at most the ceiling of the
  period, less what the window had already counted.\<close>

theorem spending_stays_within_allowance:
  assumes "metered_ledger (wl_ledger w)" and "per_period (caps (wl_ledger w)) = Some limit"
  shows "spent (wl_ledger w) b + outflow_in b requests w \<le> unat limit"
proof -
  note s = served_counts [OF assms(1), of requests b]
  have "spent (wl_ledger (served requests w)) b \<le> period_ceiling (wl_ledger (served requests w))"
    using s ledger.metered_bound by blast
  then show ?thesis using s assms(2) by (simp add: period_ceiling_def)
qed


lemma reserve_passes_cap: "reserve f l a now = (l', Inr u) \<Longrightarrow> check_per_tx l a = Inr ()"
  by (auto simp: reserve_def split: sum.splits)

lemma reserve_within:
  assumes "reserve f l a now = (l', Inr u)" "metered_ledger l" "per_period (caps l) = Some limit"
  shows "spent l (bucket l now) + unat a \<le> unat limit"
proof -
  have lim: "limit < u64_max" using assms(2,3) by (auto simp: metered_ledger_def)
  show ?thesis using reserve_ok_spent(1) [OF assms(1,3) lim, of "bucket l now"] reserve_ok_spent(2) [OF assms(1,3) lim] by simp
qed

text \<open>No transaction is handed to the node beyond the allowance, whatever becomes of it afterwards.  When a
  spending call sends anything, its amount is within the ceiling of a transaction, and together with what the
  window had counted it is within the ceiling of the period.\<close>

theorem nothing_sent_over_allowance:
  assumes "serve si c w = (w1, txs, ok)" and "txs \<noteq> []" and "metered_ledger (wl_ledger w)"
    and "per_period (caps (wl_ledger w)) = Some limit"
  shows "(\<forall>cap. per_tx (caps (wl_ledger w)) = Some cap \<longrightarrow> unat (asked c) \<le> unat cap)
    \<and> spent (wl_ledger w) (bucket (wl_ledger w) (now_unix si)) + unat (asked c) \<le> unat limit"
proof -
  have bound: "spent (wl_ledger w) b \<le> unat limit" for b
    using ledger.metered_bound [OF assms(3), of b] assms(4) by (simp add: period_ceiling_def)
  from serve_budgeted [OF assms(1)] show ?thesis
  proof
    assume "budgeted si (asked c) (wl_ledger w) (wl_ledger w1) txs ok"
    then obtain l1 where l1: "reserve (ledger_fails si) (wl_ledger w) (asked c) (now_unix si) = (l1, Inr ())"
      using assms(2) by (auto simp: budgeted_def)
    have "check_per_tx (wl_ledger w) (asked c) = Inr ()" by (rule reserve_passes_cap [OF l1])
    then show ?thesis using reserve_within [OF l1 assms(3,4)] by (simp add: check_per_tx_ok)
  next
    assume "asked c = 0 \<and> wl_ledger w1 = wl_ledger w"
    then show ?thesis using bound by simp
  qed
qed

section \<open>A site and a wallet\<close>

definition api_chain :: chain where
  "api_chain = sample_chain\<lparr>hex_encode := letters, hex_decode := unletters\<rparr>"

definition coin_node :: "string res \<Rightarrow> node" where
  "coin_node reply = \<lparr>get_address_utxos = (\<lambda>_. Inr \<lparr>tip_height = 9,
       utxos = [\<lparr>utxo_tx_id = letters (replicate 32 1), utxo_index = 0, utxo_value = 1000\<rparr>]\<rparr>),
     send_raw_transaction = (\<lambda>_. reply)\<rparr>"

definition api_site :: "string res \<Rightarrow> unit site" where
  "api_site reply = \<lparr>st_kit = sample_kit, st_host = quiet_host, st_chain = api_chain,
     st_cov = \<lparr>build_htlc_program = (\<lambda>_ _ _ _. ()), serialize_program = (\<lambda>_. [5]), compute_cost = (\<lambda>_. None),
       serialize_value = (\<lambda>_. []), min_fee_with_script_cost = (\<lambda>_ _ _. None), authenticate_tx = (\<lambda>_ _ _ _. None),
       sha256 = (\<lambda>b. b)\<rparr>,
     st_codec = \<lparr>ser_htlc = (\<lambda>_. None), de_htlc = (\<lambda>_. None), ser_meta = (\<lambda>_. None), de_meta = (\<lambda>_. None),
       base64_encode = (\<lambda>_. []), base64_decode = (\<lambda>_. None)\<rparr>,
     st_node = coin_node reply,
     st_spend = \<lparr>tx_hex_of = (\<lambda>_. Inr []), tip_now = Inr 0, send_raw = (\<lambda>_. Inr [])\<rparr>,
     parse_any = unletters, ed25519_sign = (\<lambda>_ m. m), max_datum_size = 4096, sip_hash = (\<lambda>_. 0),
     ledger_fails = no_faults, refund_fails = no_faults, index_fails = no_faults, now_unix = 12,
     st_clock = (\<lambda>_. 0), cache_time = 0, stored_time = 0, lock_time = 0\<rparr>"

definition api_keys :: keystore where
  "api_keys = (empty_store [112])\<lparr>signer_cache := [sample_name \<mapsto> key_from_secret sample_kit sample_secret]\<rparr>"

definition api_wallet :: wallet where
  "api_wallet = \<lparr>wl_keys = api_keys, wl_ledger = sample_ledger, wl_claims = no_claims, wl_cache = [], wl_notifiers = 0,
     wl_index = empty_index, wl_watch = None\<rparr>"

definition api_pay :: "string option \<Rightarrow> u64 \<Rightarrow> transfer_params" where
  "api_pay token fee = \<lparr>tp_from = sample_name, tp_outputs = [\<lparr>to_address = sample_name, to_value = 50\<rparr>],
     tp_fee_rate = None, tp_fee = Some fee, tp_max_fee = Some 1000, tp_client_token = token, tp_datum = None\<rparr>"

lemma load_cached:
  assumes "signer_cache (wl_keys w) (lower a) = Some k"
  shows "load_signer si a w = (w, Inr (signer_of si k))"
  using assms by (simp add: load_signer_def load_by_address_def Let_def kbind_def kget_def kret_def)

lemma api_loads: "load_signer (api_site reply) sample_name api_wallet =
    (api_wallet, Inr (signer_of (api_site reply) (key_from_secret sample_kit sample_secret)))"
  by (rule load_cached) (simp add: api_wallet_def api_keys_def sample_name_def letters_spec)

lemma api_checks:
  "check_transfer (api_site reply) sample_ledger (api_pay None fee) = Inr (sample_name, [(sample_secret, 50)])"
  by (simp add: check_transfer_def api_pay_def parse_address_hex_def parse_address_def api_site_def api_chain_def
        sample_name_def letters_spec max_outputs_def recipients_of_def exclusive_fees_def check_token_def
        check_per_tx_def sample_ledger_def spend_sum_def saturating_add_def)


lemma api_site_simps [simp]:
  "st_chain (api_site reply) = api_chain" "st_node (api_site reply) = coin_node reply"
  "ledger_fails (api_site reply) = no_faults" "refund_fails (api_site reply) = no_faults"
  "now_unix (api_site reply) = 12" "st_clock (api_site reply) = (\<lambda>_. 0)"
  by (simp_all add: api_site_def)

lemma api_reserves: "reserve no_faults sample_ledger 50 12 =
    (sample_ledger\<lparr>spent_by_bucket := [u64_to_be 1 \<mapsto> u64_to_be 50]\<rparr>, Inr ())"
  by (simp add: reserve_def check_per_tx_def sample_ledger_def bucket_def decode_counter_def Let_def saturating_add_def)

lemma api_transfers:
  assumes "fee = 900"
  shows "\<exists>cs r. transfer api_chain (coin_node (Inr (letters [2]))) (signer_of (api_site reply) k) [(sample_secret, 50)] None
      (Absolute fee) 1000 (\<lambda>_. 0) no_claims = (cs, [letters [3, 4]], Inr r) \<and> tr_fee r = fee"
  using assms
  by (simp add: transfer_def build_sign_broadcast_def build_only_def broadcast_built_def api_chain_def sample_chain_def
        coin_node_def no_claims_def recipient_outputs_def signer_of_def largest_first_def
        decode_hash_def estimate_def fee_estimate_max_iters_def numeral_3_eq_3 letters_spec
        checked_add_def select_and_claim_def retain_live_def select_coins_def scan_step_def scan_start_def
        saturating_add_def assemble_def settle_fee_def sum_words_def with_change_def receipt_of_def
        payment_outputs_def attach_datum_def plain_output_def sign_tx_def Let_def)


lemma api_loses:
  shows "\<exists>cs. transfer api_chain (coin_node (Inl (UpstreamUnreachable []))) (signer_of (api_site reply) k) [(sample_secret, 50)] None
      (Absolute 10) 1000 (\<lambda>_. 0) no_claims = (cs, [letters [3, 4]], Inl (UpstreamUnreachable []))"
  by (simp add: transfer_def build_sign_broadcast_def build_only_def broadcast_built_def api_chain_def sample_chain_def
        coin_node_def no_claims_def recipient_outputs_def signer_of_def largest_first_def
        decode_hash_def estimate_def fee_estimate_max_iters_def numeral_3_eq_3 letters_spec
        checked_add_def select_and_claim_def retain_live_def select_coins_def scan_step_def scan_start_def
        saturating_add_def assemble_def settle_fee_def sum_words_def with_change_def
        payment_outputs_def attach_datum_def plain_output_def sign_tx_def Let_def)

lemma api_pays:
  "transfer_method (api_site reply) (api_pay None fee) api_wallet =
     (case run_transfer (api_site reply) (signer_of (api_site reply) (key_from_secret sample_kit sample_secret))
             [(sample_secret, 50)] None (Absolute fee) 1000 50 api_wallet of (w2, txs, r) \<Rightarrow> (w2, txs, Some r))"
proof -
  have "wl_ledger api_wallet = sample_ledger" by (simp add: api_wallet_def)
  then show ?thesis
    by (simp add: transfer_method_def api_checks api_loads Let_def)
       (simp add: api_pay_def decode_datum_def fee_choice_of_def fee_cap_def spend_sum_def saturating_add_def)
qed

lemma api_parts [simp]: "wl_ledger api_wallet = sample_ledger" "wl_claims api_wallet = no_claims"
  by (simp_all add: api_wallet_def)

lemma sample_metered: "metered_ledger sample_ledger" "per_period (caps sample_ledger) = Some 100"
  using sample_ledger_ok by (auto simp: metered_ledger_def word_less_nat_alt unat_minus_one_max)

text \<open>The allowance does not see fees.  The ledger of this wallet allows 60 per transaction and 100 per
  period; a transfer of 50 with a fee of 900 is admitted, sent and answered with a receipt, and counts as 50.  Both
  the fee and its own cap \<open>max_fee\<close> are fields of the request, so whoever holds the spend token chooses them.\<close>

theorem fees_escape_allowance:
  "per_tx (caps (wl_ledger api_wallet)) = Some 60 \<and> per_period (caps (wl_ledger api_wallet)) = Some 100
   \<and> (\<exists>w1 r. transfer_method (api_site (Inr (letters [2]))) (api_pay None 900) api_wallet = (w1, [letters [3, 4]], Some (Inr r))
        \<and> tr_fee r = 900 \<and> spent (wl_ledger w1) 1 = 50)"
proof -
  obtain cs r where t: "transfer api_chain (coin_node (Inr (letters [2])))
      (signer_of (api_site (Inr (letters [2]))) (key_from_secret sample_kit sample_secret)) [(sample_secret, 50)] None
      (Absolute 900) 1000 (\<lambda>_. 0) no_claims = (cs, [letters [3, 4]], Inr r)" "tr_fee r = 900"
    using api_transfers [OF refl] by blast
  have caps: "per_tx (caps sample_ledger) = Some 60" "per_period (caps sample_ledger) = Some 100"
    by (simp_all add: sample_ledger_def)
  have "spent (sample_ledger\<lparr>spent_by_bucket := [u64_to_be 1 \<mapsto> u64_to_be 50]\<rparr>) 1 = 50"
    by (simp add: spent_def)
  then show ?thesis using t caps
    by (simp add: api_pays run_transfer_def api_reserves del: letters.simps)
qed




section \<open>Retries\<close>

text \<open>What the calls in between leave of a remembered transfer, of the ceilings and of a loaded key.\<close>

definition remembers :: "wallet \<Rightarrow> string \<Rightarrow> nat \<Rightarrow> u64 \<Rightarrow> transfer_receipt \<Rightarrow> bool" where
  "remembers w token t fp r \<longleftrightarrow> distinct (map fst (wl_cache w)) \<and> map_of (wl_cache w) token = Some (Done t fp r)"

lemma store_result_keeps:
  assumes "length m < max_done_entries" "k \<noteq> token"
  shows "map_of (store_result now m token fp res) k = map_of m k"
  using assms by (auto simp: store_result_def update_conv' delete_conv' split: sum.splits)

lemma length_update_le: "length (AList.update k v m) \<le> Suc (length m)"
  by (induction m) auto

lemma run_once_keeps:
  assumes f: "\<And>w w1 txs r. f w = (w1, txs, r) \<Longrightarrow> wl_cache w1 = wl_cache w"
    and run: "run_once si other fp' f w = (w1, txs, q)"
    and r: "remembers w token t fp r" "cache_time si - t < ttl" "Suc (length (wl_cache w)) < max_done_entries"
  shows "remembers w1 token t fp r"
proof -
  obtain m a where m: "choose_action (cache_time si) (wl_notifiers w) (wl_cache w) other fp' = (m, a)" by fastforce
  have d: "distinct (map fst (wl_cache w))" and e: "map_of (wl_cache w) token = Some (Done t fp r)"
    using r(1) by (simp_all add: remembers_def)
  have g: "map_of (gc (cache_time si) (wl_cache w)) token = Some (Done t fp r)"
    using d e r(2) by (auto simp: map_of_gc)
  have k: "distinct (map fst m)" "token \<noteq> other \<or> a \<noteq> Compute (wl_notifiers w) \<Longrightarrow> map_of m token = Some (Done t fp r)"
    using choose_action_distinct [OF m d] choose_action_lookup [OF m d, of token] g by auto
  show ?thesis
  proof (cases a)
    case (Compute n)
    note c = choose_action_compute [OF m [unfolded Compute]]
    then have ne: "token \<noteq> other" using g by auto
    obtain w2 tx x where f': "f (w\<lparr>wl_cache := m, wl_notifiers := Suc n\<rparr>) = (w2, tx, x)"
      by (cases "f (w\<lparr>wl_cache := m, wl_notifiers := Suc n\<rparr>)") auto
    have w2: "wl_cache w2 = m" using f [OF f'] by simp
    have "length (gc (cache_time si) (wl_cache w)) \<le> length (wl_cache w)" by (simp add: gc_def)
    moreover have "m = AList.update other (InFlight (wl_notifiers w)) (gc (cache_time si) (wl_cache w))"
      using m c Compute by (auto simp: choose_action_def Let_def)
    ultimately have "length m \<le> Suc (length (wl_cache w))"
      using length_update_le [of other "InFlight (wl_notifiers w)" "gc (cache_time si) (wl_cache w)"] by simp
    then have len: "length m < max_done_entries" using r(3) by simp
    have w1: "wl_cache w1 = store_result (stored_time si) m other fp' x"
      using run m Compute f' w2 by (auto simp: run_once_def)
    then show ?thesis
      using store_result_keeps [OF len ne] store_result_distinct [OF k(1)] k(2) ne by (simp add: remembers_def)
  qed (use run m k in \<open>auto simp: run_once_def remembers_def\<close>)
qed


lemma run_transfer_cache: "run_transfer si sg rs d choice max_fee paid w = (w1, txs, r) \<Longrightarrow> wl_cache w1 = wl_cache w \<and> wl_keys w1 = wl_keys w"
  by (auto simp: run_transfer_def split: prod.splits sum.splits)

lemma run_once_keys:
  assumes "\<And>w w1 txs r. f w = (w1, txs, r) \<Longrightarrow> wl_keys w1 = wl_keys w" "run_once si token fp f w = (w1, txs, q)"
  shows "wl_keys w1 = wl_keys w"
proof -
  obtain m a where m: "choose_action (cache_time si) (wl_notifiers w) (wl_cache w) token fp = (m, a)" by fastforce
  show ?thesis
  proof (cases a)
    case (Compute n)
    obtain w2 tx x where f: "f (w\<lparr>wl_cache := m, wl_notifiers := Suc n\<rparr>) = (w2, tx, x)"
      by (cases "f (w\<lparr>wl_cache := m, wl_notifiers := Suc n\<rparr>)") auto
    from assms(1) [OF f] show ?thesis using assms(2) m Compute f by (auto simp: run_once_def)
  qed (use assms(2) m in \<open>auto simp: run_once_def\<close>)
qed


lemma transfer_method_keeps:
  assumes "transfer_method si p w = (w1, txs, q)"
    and "remembers w token t fp r" "cache_time si - t < ttl" "Suc (length (wl_cache w)) < max_done_entries"
  shows "remembers w1 token t fp r"
  using assms(1)
proof (cases rule: transfer_method_cases)
  case refused
  then show ?thesis using assms(2) by (auto simp: remembers_def load_signer_parts)
next
  case (ran a rs w2 sg d choice f)
  have f: "wl_cache w1 = wl_cache w" if "f w = (w1, txs, r)" for w w1 txs r
    using that run_transfer_budgeted(2) unfolding ran(5) by blast
  have w2: "remembers w2 token t fp r" "Suc (length (wl_cache w2)) < max_done_entries"
    using assms(2,4) load_signer_parts(3) [OF ran(2)] by (simp_all add: remembers_def)
  show ?thesis
  proof (cases "tp_client_token p")
    case None
    then show ?thesis using ran(6) f [of w2] w2(1) by (auto simp: remembers_def)
  next
    case (Some tk)
    from run_once_keeps [of f, OF f ran(7) [OF Some] w2(1) assms(3) w2(2)] show ?thesis .
  qed
qed

lemma serve_keeps:
  assumes "remembers w token t fp r" "cache_time si - t < ttl" "Suc (length (wl_cache w)) < max_done_entries"
  shows "remembers (fst (serve si c w)) token t fp r"
proof (cases c)
  case (DoTransfer p)
  obtain w1 txs q where m: "transfer_method si p w = (w1, txs, q)" by (cases "transfer_method si p w") auto
  from transfer_method_keeps [OF m assms] show ?thesis using m DoTransfer by simp
next
  case (DoLock p)
  obtain w1 txs q where m: "htlc_lock_method si p w = (w1, txs, q)" by (cases "htlc_lock_method si p w") auto
  then have "wl_cache w1 = wl_cache w" using htlc_lock_method_budgeted [OF m] by simp
  then show ?thesis using assms(1) m DoLock by (simp add: remembers_def)
next
  case (DoClaim p)
  obtain w1 txs q where m: "htlc_claim_method si p w = (w1, txs, q)" by (cases "htlc_claim_method si p w") auto
  then have "wl_cache w1 = wl_cache w" using spends_leave_ledger(1) [OF m] by simp
  then show ?thesis using assms(1) m DoClaim by (simp add: remembers_def)
next
  case (DoReclaim p)
  obtain w1 txs q where m: "htlc_reclaim_method si p w = (w1, txs, q)" by (cases "htlc_reclaim_method si p w") auto
  then have "wl_cache w1 = wl_cache w" using spends_leave_ledger(2) [OF m] by simp
  then show ?thesis using assms(1) m DoReclaim by (simp add: remembers_def)
qed

lemma serve_caps: "caps (wl_ledger (fst (serve si c w))) = caps (wl_ledger w)"
proof -
  obtain w1 txs ok where s: "serve si c w = (w1, txs, ok)" by (cases "serve si c w") auto
  have "caps l1 = caps l" if "reserve f l a n = (l1, x)" for f l a n l1 x using reserve_caps [of f l a n] that by simp
  then show ?thesis using serve_budgeted [OF s] s by (auto simp: budgeted_def)
qed

text \<open>A key that was loaded is in the memory of the keystore and stays there.\<close>

definition has_key :: "string \<Rightarrow> wallet \<Rightarrow> bool" where
  "has_key a w \<longleftrightarrow> signer_cache (wl_keys w) a \<noteq> None"

lemma load_has_key:
  assumes "load_signer si a w = (w1, x)"
  shows "has_key b w \<Longrightarrow> has_key b w1" and "x = Inr sg \<Longrightarrow> has_key (lower a) w1"
proof -
  have "kwp (load_by_address k a) h s (\<lambda>t r. (signer_cache s b \<noteq> None \<longrightarrow> signer_cache t b \<noteq> None)
      \<and> (\<forall>y. r = Inr y \<longrightarrow> signer_cache t (lower a) \<noteq> None))" for k h s
    unfolding load_by_address_def Let_def
    by (auto simp: kwp_simps derive_key_def read_sealed_def cache_key_def Let_def split: option.splits sum.splits)
  from this [of "st_kit si" "st_host si" "wl_keys w"] assms
  show "has_key b w \<Longrightarrow> has_key b w1" "x = Inr sg \<Longrightarrow> has_key (lower a) w1"
    by (auto simp: has_key_def load_signer_def kwp_def result_simps split: prod.splits)
qed

lemma transfer_method_has_key:
  assumes "transfer_method si p w = (w1, txs, q)" "has_key b w"
  shows "has_key b w1"
  using assms(1)
proof (cases rule: transfer_method_cases)
  case refused
  then show ?thesis using assms(2) load_has_key(1) by blast
next
  case (ran a rs w2 sg d choice f)
  have w2: "has_key b w2" by (rule load_has_key(1) [OF ran(2) assms(2)])
  have f: "wl_keys w1 = wl_keys w" if "f w = (w1, txs, r)" for w w1 txs r
    using that run_transfer_cache unfolding ran(5) by blast
  show ?thesis
  proof (cases "tp_client_token p")
    case None
    then show ?thesis using ran(6) f [of w2] w2 by (auto simp: has_key_def)
  next
    case (Some token)
    from run_once_keys [of f, OF f ran(7) [OF Some]] show ?thesis using w2 by (simp add: has_key_def)
  qed
qed

lemma run_lock_keys: "run_lock si p sg rv hs w = (w1, txs, r) \<Longrightarrow> wl_keys w1 = wl_keys w"
  by (auto simp: run_lock_def split: prod.splits sum.splits)

lemma serve_has_key:
  assumes "has_key b w"
  shows "has_key b (fst (serve si c w))"
proof (cases c)
  case (DoTransfer p)
  obtain w1 txs q where m: "transfer_method si p w = (w1, txs, q)" by (cases "transfer_method si p w") auto
  from transfer_method_has_key [OF m assms] show ?thesis using m DoTransfer by simp
next
  case (DoLock p)
  then show ?thesis using assms
    by (auto simp: htlc_lock_method_def dest: load_has_key(1) run_lock_keys split: prod.splits sum.splits)
       (auto simp: has_key_def dest: load_has_key(1) [unfolded has_key_def] dest!: run_lock_keys)
next
  case (DoClaim p)
  then show ?thesis using assms
    by (auto simp: htlc_claim_method_def dest: load_has_key(1) split: prod.splits sum.splits)
next
  case (DoReclaim p)
  then show ?thesis using assms
    by (auto simp: htlc_reclaim_method_def dest: load_has_key(1) split: prod.splits sum.splits)
qed

text \<open>The calls in between come within the hour of the first one and find room in the cache.\<close>

fun recent :: "nat \<Rightarrow> ('p site \<times> spend_call) list \<Rightarrow> wallet \<Rightarrow> bool" where
  "recent t [] w \<longleftrightarrow> True"
| "recent t ((si, c) # cs) w \<longleftrightarrow> cache_time si - t < ttl \<and> Suc (length (wl_cache w)) < max_done_entries
     \<and> recent t cs (fst (serve si c w))"

lemma served_keeps:
  assumes "remembers w token t fp r" "has_key b w" "recent t cs w"
  shows "remembers (served cs w) token t fp r \<and> has_key b (served cs w) \<and> caps (wl_ledger (served cs w)) = caps (wl_ledger w)"
  using assms
proof (induction cs arbitrary: w)
  case (Cons x cs)
  obtain si c where x: "x = (si, c)" by (cases x)
  show ?case
    using Cons.IH [of "fst (serve si c w)"] serve_keeps [OF Cons.prems(1), of si c] serve_has_key [OF Cons.prems(2), of si c]
      Cons.prems(3) serve_caps [of si c w] by (simp add: x)
qed simp

definition same_libraries :: "'p site \<Rightarrow> 'p site \<Rightarrow> bool" where
  "same_libraries si sj \<longleftrightarrow> parse_any sj = parse_any si \<and> st_chain sj = st_chain si \<and> sip_hash sj = sip_hash si
     \<and> max_datum_size sj = max_datum_size si"

lemma check_transfer_same:
  "same_libraries si sj \<Longrightarrow> caps l' = caps l \<Longrightarrow> check_transfer sj l' p = check_transfer si l p"
  by (simp add: check_transfer_def same_libraries_def parse_address_hex_def parse_address_def recipients_of_def check_per_tx_def)


lemma run_once_stores:
  assumes f: "\<And>w w1 txs r. f w = (w1, txs, r) \<Longrightarrow> wl_cache w1 = wl_cache w"
    and run: "run_once si token fp f w = (w1, txs, Some (Inr r))" "txs \<noteq> []" and d: "distinct (map fst (wl_cache w))"
  shows "remembers w1 token (stored_time si) fp r"
proof -
  obtain m a where m: "choose_action (cache_time si) (wl_notifiers w) (wl_cache w) token fp = (m, a)" by fastforce
  show ?thesis
  proof (cases a)
    case (Compute n)
    obtain w2 tx x where f': "f (w\<lparr>wl_cache := m, wl_notifiers := Suc n\<rparr>) = (w2, tx, x)"
      by (cases "f (w\<lparr>wl_cache := m, wl_notifiers := Suc n\<rparr>)") auto
    have w1: "wl_cache w1 = store_result (stored_time si) m token fp (Inr r)"
      using run m Compute f' f [OF f'] by (auto simp: run_once_def)
    have "distinct (map fst m)" by (rule choose_action_distinct [OF m d])
    then show ?thesis using w1 store_result_distinct [of m "stored_time si" token fp "Inr r"]
      by (simp add: remembers_def store_result_def Let_def update_conv')
  qed (use run m in \<open>auto simp: run_once_def\<close>)
qed

lemma run_once_remembered:
  assumes "remembers w token t fp r" "cache_time si - t < ttl"
  shows "\<exists>m. run_once si token fp f w = (w\<lparr>wl_cache := m\<rparr>, [], Some (Inr r))"
  using assms
  by (intro exI [of _ "gc (cache_time si) (wl_cache w)"]) (simp add: run_once_def choose_action_def remembers_def map_of_gc Let_def)

text \<open>C13: A transfer with a token is paid once.  After a transfer that sent something and succeeded, the same
  request with the same token, made within the hour and with any other spending calls in between, is answered
  with the same receipt: nothing is sent, nothing is charged to the allowance, and no coin is claimed.  The cache
  must have had room for the calls in between, since a full one drops its oldest entry.\<close>

theorem retry_spends_nothing:
  assumes "transfer_method si p w = (w1, txs, Some (Inr r))" and "txs \<noteq> []" and "tp_client_token p = Some token"
    and "distinct (map fst (wl_cache w))" and "recent (stored_time si) between w1"
    and "same_libraries si sj" and "cache_time sj - stored_time si < ttl"
  shows "\<exists>w3. transfer_method sj p (served between w1) = (w3, [], Some (Inr r))
    \<and> wl_ledger w3 = wl_ledger (served between w1) \<and> wl_claims w3 = wl_claims (served between w1)"
  using assms(1)
proof (cases rule: transfer_method_cases)
  case refused
  then show ?thesis by simp
next
  case (ran a rs w2 sg d choice f)
  let ?fp = "fingerprint_transfer si p choice (fee_cap (tp_max_fee p))" and ?w = "served between w1"
  have f: "wl_cache w1 = wl_cache w \<and> wl_keys w1 = wl_keys w" if "f w = (w1, txs, r)" for w w1 txs r
    using that run_transfer_cache unfolding ran(5) by blast
  have w2: "distinct (map fst (wl_cache w2))" using load_signer_parts(3) [OF ran(2)] assms(4) by simp
  have stored: "remembers w1 token (stored_time si) ?fp r"
    by (rule run_once_stores [OF conjunct1 [OF f] ran(7) [OF assms(3)] assms(2) w2])
  have key: "has_key (lower a) w1"
    using run_once_keys [OF conjunct2 [OF f] ran(7) [OF assms(3)]] load_has_key(2) [OF ran(2) refl]
    by (simp add: has_key_def)
  have caps: "caps (wl_ledger w1) = caps (wl_ledger w)" using serve_caps [of si "DoTransfer p" w] assms(1) by simp
  note kept = served_keeps [OF stored key assms(5)]
  have check: "check_transfer sj (wl_ledger ?w) p = Inr (a, rs)"
    using check_transfer_same [OF assms(6), of "wl_ledger ?w" "wl_ledger w" p] kept caps ran(1) by simp
  obtain k where "signer_cache (wl_keys ?w) (lower a) = Some k" using kept by (auto simp: has_key_def)
  note load = load_cached [OF this, of sj]
  have "decode_datum sj (tp_datum p) = Inr d" "fingerprint_transfer sj p choice (fee_cap (tp_max_fee p)) = ?fp"
    using assms(6) ran(3) by (simp_all add: same_libraries_def decode_datum_def fingerprint_transfer_def split: option.splits)
  moreover obtain m where "run_once sj token ?fp (run_transfer sj (signer_of sj k) rs d choice (fee_cap (tp_max_fee p))
      (spend_sum (tp_outputs p))) ?w = (?w\<lparr>wl_cache := m\<rparr>, [], Some (Inr r))"
    using run_once_remembered [of ?w token _ ?fp r sj, OF conjunct1 [OF kept] assms(7)] by blast
  ultimately show ?thesis using check load assms(3) ran(4) by (simp add: transfer_method_def Let_def)
qed


definition retry_token :: string where "retry_token = ''retry-01''"

lemma token_checks:
  "check_transfer (api_site reply) sample_ledger (api_pay (Some retry_token) fee) = Inr (sample_name, [(sample_secret, 50)])"
proof -
  have "check_token (Some retry_token) = Inr ()" by (simp add: check_token_def retry_token_def is_ascii_def)
  moreover have "tp_client_token (api_pay (Some retry_token) fee) = Some retry_token" by (simp add: api_pay_def)
  ultimately show ?thesis using api_checks [of reply fee]
    by (simp add: check_transfer_def api_pay_def check_token_def result_simps split: prod.splits)
qed

lemma retry_spends_nothing_witness:
  "\<exists>w1 w3 r. transfer_method (api_site (Inr (letters [2]))) (api_pay (Some retry_token) 900) api_wallet = (w1, [letters [3, 4]], Some (Inr r))
     \<and> transfer_method (api_site (Inr (letters [2]))) (api_pay (Some retry_token) 900) w1 = (w3, [], Some (Inr r))
     \<and> wl_ledger w3 = wl_ledger w1"
proof -
  let ?site = "api_site (Inr (letters [2]))" and ?p = "api_pay (Some retry_token) 900"
  obtain cs r where t: "transfer api_chain (coin_node (Inr (letters [2])))
      (signer_of ?site (key_from_secret sample_kit sample_secret)) [(sample_secret, 50)] None
      (Absolute 900) 1000 (\<lambda>_. 0) no_claims = (cs, [letters [3, 4]], Inr r)"
    using api_transfers [OF refl] by blast
  have p: "tp_client_token ?p = Some retry_token" "tp_datum ?p = None" "tp_fee ?p = Some 900" "tp_fee_rate ?p = None"
    "tp_max_fee ?p = Some 1000" "spend_sum (tp_outputs ?p) = 50"
    by (simp_all add: api_pay_def spend_sum_def saturating_add_def)
  have run: "run_transfer ?site (signer_of ?site (key_from_secret sample_kit sample_secret)) [(sample_secret, 50)] None
      (Absolute 900) 1000 50 (api_wallet\<lparr>wl_cache := m, wl_notifiers := n\<rparr>)
      = (api_wallet\<lparr>wl_cache := m, wl_notifiers := n,
           wl_ledger := sample_ledger\<lparr>spent_by_bucket := [u64_to_be 1 \<mapsto> u64_to_be 50]\<rparr>, wl_claims := cs\<rparr>,
         [letters [3, 4]], Inr r)" for m n
    using t by (simp add: run_transfer_def api_reserves del: letters.simps)
  obtain w1 where w1: "transfer_method ?site ?p api_wallet = (w1, [letters [3, 4]], Some (Inr r))"
    by (simp add: transfer_method_def token_checks api_loads p decode_datum_def fee_choice_of_def fee_cap_def Let_def
          run_once_def choose_action_def gc_def run del: letters.simps) (simp add: api_wallet_def run del: letters.simps)
  from retry_spends_nothing [OF w1 _ p(1), of "[]" ?site] w1 show ?thesis
    by (auto simp: api_wallet_def same_libraries_def ttl_def api_site_def)
qed


lemma nothing_sent_over_allowance_witness:
  "\<exists>w1. serve (api_site (Inl (UpstreamUnreachable []))) (DoTransfer (api_pay None 10)) api_wallet = (w1, [letters [3, 4]], False)
      \<and> spent sample_ledger (bucket sample_ledger 12) + unat (50 :: u64) \<le> unat (100 :: u64)"
proof -
  let ?site = "api_site (Inl (UpstreamUnreachable []))"
  obtain cs where "transfer api_chain (coin_node (Inl (UpstreamUnreachable [])))
      (signer_of ?site (key_from_secret sample_kit sample_secret)) [(sample_secret, 50)] None
      (Absolute 10) 1000 (\<lambda>_. 0) no_claims = (cs, [letters [3, 4]], Inl (UpstreamUnreachable []))"
    using api_loses by blast
  then obtain w1 where s: "serve ?site (DoTransfer (api_pay None 10)) api_wallet = (w1, [letters [3, 4]], False)"
    by (simp add: api_pays run_transfer_def api_reserves del: letters.simps)
  have "asked (DoTransfer (api_pay None 10)) = 50" by (simp add: api_pay_def spend_sum_def saturating_add_def)
  with nothing_sent_over_allowance [OF s _ _ , of 100] s sample_metered show ?thesis by simp
qed

lemma spending_stays_within_allowance_witness:
  "spent sample_ledger 1 + outflow_in 1 [(api_site (Inr (letters [2])), DoTransfer (api_pay None 900))] api_wallet \<le> unat (100 :: u64)"
  using spending_stays_within_allowance [of api_wallet 100 1 "[(api_site (Inr (letters [2])), DoTransfer (api_pay None 900))]"]
    sample_metered by simp

end
