(* ===== verification/ApiFingerprint.thy ===== *)
theory ApiFingerprint imports ApiRuns begin

text \<open>
  What the fingerprint of a transfer covers: the bytes that \<open>fingerprint_transfer\<close> hashes (\<open>src/api/mod.rs\<close>)
  are read back into the fields they came from.
\<close>

section \<open>Reading the bytes\<close>

lemma unat_of_char: "unat (of_char c :: u8) = of_char c"
proof -
  have "(of_char c :: u8) = word_of_nat (of_char c)" by (simp only: of_nat_of_char)
  then have "unat (of_char c :: u8) = of_char c mod 256" by (simp only: unat_of_nat_u8)
  then show ?thesis by simp
qed

lemma ascii_inject: "ascii s = ascii t \<Longrightarrow> s = t"
proof -
  have "inj (of_char :: char \<Rightarrow> u8)"
    by (rule injI) (metis unat_of_char of_char_eq_iff)
  then show "ascii s = ascii t \<Longrightarrow> s = t" by (simp add: ascii_def inj_map_eq_map)
qed

text \<open>Text of an address: not empty, and of printable ASCII.\<close>

definition readable :: "string \<Rightarrow> bool" where
  "readable s \<longleftrightarrow> s \<noteq> [] \<and> (\<forall>c \<in> set s. 32 \<le> (of_char c :: nat) \<and> (of_char c :: nat) < 128)"

lemma readable_lower: "readable s \<Longrightarrow> readable (lower s)"
  by (auto simp: readable_def lower_def Let_def)

lemma readable_bytes:
  assumes "readable s"
  shows "255 \<notin> set (ascii s)" and "\<exists>b bs. ascii s = b # bs \<and> 1 < unat b"
proof -
  show "255 \<notin> set (ascii s)"
  proof
    assume "255 \<in> set (ascii s)"
    then obtain c where c: "c \<in> set s" "(of_char c :: u8) = 255" by (auto simp: ascii_def)
    then have "(of_char c :: nat) = unat (255 :: u8)" using unat_of_char [of c] by simp
    then show False using assms c(1) by (auto simp: readable_def)
  qed
  show "\<exists>b bs. ascii s = b # bs \<and> 1 < unat b"
    using assms by (cases s) (auto simp: readable_def ascii_def unat_of_char)
qed

lemma hash_str_split:
  assumes "hash_str s @ x = hash_str t @ y" "255 \<notin> set (ascii s)" "255 \<notin> set (ascii t)"
  shows "s = t \<and> x = y"
proof -
  have u: "as = bs \<and> x = y" if "as @ 255 # x = bs @ 255 # y" "255 \<notin> set as" "255 \<notin> set bs" for as bs :: bytes
    using that
  proof (induction as arbitrary: bs)
    case Nil
    then show ?case by (cases bs) auto
  next
    case (Cons a as)
    then show ?case by (cases bs) auto
  qed
  show ?thesis using u [of "ascii s" "ascii t"] assms ascii_inject by (auto simp: hash_str_def)
qed

lemma hash_u64_split: "hash_u64 m @ x = hash_u64 n @ y \<longleftrightarrow> m = n \<and> x = y"
  by (simp add: hash_u64_def)

lemma hash_u64_head: "hash_u64 n = word_of_nat (unat n) # rev (be_of 7 (unat n div 256))"
proof -
  have "be_of 8 (unat n) = be_of (Suc 7) (unat n)" by simp
  then show ?thesis by (simp only: hash_u64_def u64_to_be_def be_of.simps rev_append rev_singleton_conv append_Cons append_Nil rev.simps)
qed

lemma fee_bytes_split: "fee_bytes c @ x = fee_bytes d @ y \<Longrightarrow> c = d \<and> x = y"
  by (cases c; cases d) (auto simp: fee_bytes_def hash_u64_split)

definition payment_bytes :: "transfer_output list \<Rightarrow> bytes" where
  "payment_bytes outs = concat (map (\<lambda>o'. hash_str (lower (to_address o')) @ hash_u64 (to_value o')) outs)"

definition payments :: "transfer_output list \<Rightarrow> (string \<times> u64) list" where
  "payments outs = map (\<lambda>o'. (lower (to_address o'), to_value o')) outs"

text \<open>No address begins like the mark of the datum, so the end of the list of outputs is where it seems.\<close>

lemma payment_bytes_split:
  assumes "payment_bytes xs @ b # x = payment_bytes ys @ c # y" "unat b \<le> 1" "unat c \<le> 1"
    "\<forall>o' \<in> set xs. readable (to_address o')" "\<forall>o' \<in> set ys. readable (to_address o')"
  shows "payments xs = payments ys \<and> b # x = c # y"
  using assms
proof (induction xs arbitrary: ys)
  case Nil
  then show ?case
    using readable_bytes(2) [OF readable_lower, of "to_address (hd ys)"]
    by (cases ys) (auto simp: payment_bytes_def payments_def hash_str_def)
next
  case (Cons o' xs)
  have r: "readable (lower (to_address o'))" using Cons.prems(4) by (simp add: readable_lower)
  show ?case
  proof (cases ys)
    case Nil
    then show ?thesis using Cons.prems readable_bytes(2) [OF r] by (auto simp: payment_bytes_def hash_str_def)
  next
    case (Cons o2 zs)
    have r2: "readable (lower (to_address o2))" using \<open>\<forall>o' \<in> set ys. _\<close> Cons by (simp add: readable_lower)
    have "hash_str (lower (to_address o')) @ hash_u64 (to_value o') @ payment_bytes xs @ b # x
      = hash_str (lower (to_address o2)) @ hash_u64 (to_value o2) @ payment_bytes zs @ c # y"
      using Cons.prems(1) Cons by (simp add: payment_bytes_def)
    from hash_str_split [OF this readable_bytes(1) [OF r] readable_bytes(1) [OF r2]]
    have "lower (to_address o') = lower (to_address o2)" "to_value o' = to_value o2"
      "payment_bytes xs @ b # x = payment_bytes zs @ c # y" by (auto simp: hash_u64_split)
    then show ?thesis using Cons.IH [of zs] Cons.prems Cons by (simp add: payments_def)
  qed
qed


lemma fingerprint_split:
  assumes "fingerprint_bytes p c m = fingerprint_bytes q d n"
    and p: "readable (tp_from p)" "\<forall>o' \<in> set (tp_outputs p). readable (to_address o')"
    and q: "readable (tp_from q)" "\<forall>o' \<in> set (tp_outputs q). readable (to_address o')"
    and datum: "\<And>s. tp_datum p = Some s \<or> tp_datum q = Some s \<Longrightarrow> 255 \<notin> set (ascii (lower s))"
  shows "lower (tp_from p) = lower (tp_from q) \<and> payments (tp_outputs p) = payments (tp_outputs q)
    \<and> map_option lower (tp_datum p) = map_option lower (tp_datum q) \<and> c = d \<and> m = n"
proof -
  define tail where "tail p c m = (case tp_datum p of None \<Rightarrow> hash_u64 0 | Some s \<Rightarrow> hash_u64 1 @ hash_str (lower s))
     @ fee_bytes c @ hash_u64 m" for p :: transfer_params and c m
  have eq: "hash_str (lower (tp_from p)) @ payment_bytes (tp_outputs p) @ tail p c m
      = hash_str (lower (tp_from q)) @ payment_bytes (tp_outputs q) @ tail q d n"
    using assms(1) by (simp add: fingerprint_bytes_def payment_bytes_def tail_def)
  from hash_str_split [OF this readable_bytes(1) [OF readable_lower [OF p(1)]] readable_bytes(1) [OF readable_lower [OF q(1)]]]
  have from_eq: "lower (tp_from p) = lower (tp_from q)"
    and rest: "payment_bytes (tp_outputs p) @ tail p c m = payment_bytes (tp_outputs q) @ tail q d n" by auto
  have small: "\<exists>b x. tail p c m = b # x \<and> unat b \<le> 1" for p c m
    by (auto simp: tail_def hash_u64_head split: option.splits)
  obtain b x b' x' where t: "tail p c m = b # x" "unat b \<le> 1" "tail q d n = b' # x'" "unat b' \<le> 1"
    using small by metis
  from payment_bytes_split [OF rest [unfolded t(1,3)] t(2,4) p(2) q(2)]
  have pay: "payments (tp_outputs p) = payments (tp_outputs q)" and tails: "tail p c m = tail q d n" using t by simp_all
  have ne: "hash_u64 0 @ as \<noteq> hash_u64 1 @ bs" for as bs by (simp add: hash_u64_head)
  have fees: "fee_bytes c @ hash_u64 m = fee_bytes d @ hash_u64 n \<Longrightarrow> c = d \<and> m = n"
    using fee_bytes_split [of c "hash_u64 m" d "hash_u64 n"] hash_u64_split [of m "[]" n "[]"] by simp
  have "map_option lower (tp_datum p) = map_option lower (tp_datum q) \<and> c = d \<and> m = n"
  proof (cases "tp_datum p")
    case None
    then show ?thesis using tails ne fees by (cases "tp_datum q") (auto simp: tail_def hash_u64_split)
  next
    case (Some s)
    show ?thesis
    proof (cases "tp_datum q")
      case None
      then show ?thesis using tails Some ne [symmetric] by (auto simp: tail_def)
    next
      case q': (Some t)
      then have "hash_str (lower s) @ fee_bytes c @ hash_u64 m = hash_str (lower t) @ fee_bytes d @ hash_u64 n"
        using tails Some by (simp add: tail_def hash_u64_split)
      from hash_str_split [OF this datum datum] Some q' fees show ?thesis by auto
    qed
  qed
  then show ?thesis using from_eq pay by blast
qed

text \<open>What is relied upon of the codecs: they read printable text, and upper and lower case mean the same.\<close>

definition plain_codecs :: "'p site \<Rightarrow> bool" where
  "plain_codecs si \<longleftrightarrow>
     (\<forall>s a. parse_any si s = Some a \<longrightarrow> readable s)
   \<and> (\<forall>s t a b. parse_any si s = Some a \<longrightarrow> parse_any si t = Some b \<longrightarrow> lower s = lower t \<longrightarrow> a = b)
   \<and> (\<forall>s b. hex_decode (st_chain si) s = Some b \<longrightarrow> s = [] \<or> readable s)
   \<and> (\<forall>s t. lower s = lower t \<longrightarrow> hex_decode (st_chain si) s = hex_decode (st_chain si) t)"

lemma check_transfer_ok:
  assumes "check_transfer si l p = Inr (a, rs)"
  shows "\<exists>b. parse_any si (tp_from p) = Some b \<and> a = hex_encode (st_chain si) b"
    and "recipients_of si (tp_outputs p) = Inr rs"
  using assms by (auto simp: check_transfer_def parse_address_hex_def parse_address_def result_simps)

lemma recipients_same:
  assumes "plain_codecs si" "recipients_of si xs = Inr rs" "recipients_of si ys = Inr ss" "payments xs = payments ys"
  shows "rs = ss"
  using assms(2-4)
proof (induction xs arbitrary: ys rs ss)
  case Nil
  then show ?case by (auto simp: recipients_of_def payments_def)
next
  case (Cons x xs)
  obtain y zs where y: "ys = y # zs" "lower (to_address x) = lower (to_address y)" "to_value x = to_value y"
    "payments xs = payments zs" using Cons.prems(3) by (cases ys) (auto simp: payments_def)
  obtain a b ra rb where ab: "parse_any si (to_address x) = Some a" "parse_any si (to_address y) = Some b"
    "recipients_of si xs = Inr ra" "recipients_of si zs = Inr rb" "rs = (a, to_value x) # ra" "ss = (b, to_value y) # rb"
    using Cons.prems(1,2) y(1) by (auto simp: recipients_of_def parse_address_def result_simps)
  have "a = b" using assms(1) ab(1,2) y(2) unfolding plain_codecs_def by blast
  then show ?case using Cons.IH [OF ab(3,4) y(4)] ab y(3) by simp
qed

lemma recipients_readable:
  assumes "plain_codecs si" "recipients_of si xs = Inr rs"
  shows "\<forall>x \<in> set xs. readable (to_address x)"
  using assms(2)
proof (induction xs arbitrary: rs)
  case (Cons x xs)
  then obtain a ra where "parse_any si (to_address x) = Some a" "recipients_of si xs = Inr ra"
    by (auto simp: recipients_of_def parse_address_def result_simps)
  moreover from this(1) have "readable (to_address x)" using assms(1) unfolding plain_codecs_def by blast
  ultimately show ?case using Cons.IH by simp
qed simp

text \<open>C36: The fingerprint of a transfer tells payments apart.  Two transfers that pass their checks and feed the
  hasher the same bytes, as they must for a token of the one to be answered with the receipt of the other unless
  the hash collides, have the same payer, the same recipients and amounts in the same order, the same datum, and
  the same fee and fee cap: no boundary between two fields can be shifted.\<close>

theorem fingerprint_determines_payment:
  assumes "plain_codecs si"
    and "fingerprint_bytes p c m = fingerprint_bytes q d n"
    and "check_transfer si l p = Inr (a, rs)" and "check_transfer si l' q = Inr (b, ss)"
    and "decode_datum si (tp_datum p) = Inr dp" and "decode_datum si (tp_datum q) = Inr dq"
  shows "a = b \<and> rs = ss \<and> dp = dq \<and> c = d \<and> m = n"
proof -
  note cp = check_transfer_ok [OF assms(3)] and cq = check_transfer_ok [OF assms(4)]
  have r: "readable (tp_from p)" "readable (tp_from q)"
    using cp(1) cq(1) assms(1) unfolding plain_codecs_def by blast+
  have hex: "255 \<notin> set (ascii (lower s))" if "hex_decode (st_chain si) s = Some x" for s x
  proof -
    from that have "s = [] \<or> readable s" using assms(1) unfolding plain_codecs_def by blast
    then show ?thesis using readable_bytes(1) [OF readable_lower] by (auto simp: lower_def ascii_def)
  qed
  have datum: "255 \<notin> set (ascii (lower s))" if "tp_datum p = Some s \<or> tp_datum q = Some s" for s
    using that assms(5,6) hex by (auto simp: decode_datum_def result_simps)
  note same = fingerprint_split [OF assms(2) r(1) recipients_readable [OF assms(1) cp(2)] r(2)
      recipients_readable [OF assms(1) cq(2)] datum]
  have "rs = ss" using recipients_same [OF assms(1) cp(2) cq(2)] same by blast
  moreover have "a = b"
  proof -
    obtain x y where xy: "parse_any si (tp_from p) = Some x" "a = hex_encode (st_chain si) x"
      "parse_any si (tp_from q) = Some y" "b = hex_encode (st_chain si) y" using cp(1) cq(1) by blast
    have "x = y" using assms(1) xy(1,3) same unfolding plain_codecs_def by blast
    then show ?thesis using xy by simp
  qed
  moreover have "dp = dq"
  proof -
    have md: "map_option lower (tp_datum p) = map_option lower (tp_datum q)" using same by blast
    show ?thesis
    proof (cases "tp_datum p")
      case None
      then show ?thesis using md assms(5,6) by (simp add: decode_datum_def)
    next
      case (Some s)
      then obtain t where t: "tp_datum q = Some t" "lower s = lower t" using md by (cases "tp_datum q") auto
      have "hex_decode (st_chain si) s = hex_decode (st_chain si) t" using assms(1) t(2) unfolding plain_codecs_def by blast
      then have "decode_datum si (Some s) = decode_datum si (Some t)" by (simp add: decode_datum_def)
      then show ?thesis using assms(5,6) Some t(1) by simp
    qed
  qed
  ultimately show ?thesis using same by blast
qed


definition plain_site :: "unit site" where
  "plain_site = (api_site (Inr []))\<lparr>
     st_chain := api_chain\<lparr>hex_decode := (\<lambda>s. if readable s then Some (ascii (lower s)) else None)\<rparr>,
     parse_any := (\<lambda>s. if readable s then Some (ascii (lower s)) else None)\<rparr>"

definition datum_pay :: "string \<Rightarrow> transfer_params" where
  "datum_pay s = (api_pay None 900)\<lparr>tp_datum := Some s\<rparr>"

lemma plain_codecs_hold: "plain_codecs plain_site"
proof -
  let ?f = "\<lambda>s. if readable s then Some (ascii (lower s)) else None"
  have f: "parse_any plain_site = ?f" "hex_decode (st_chain plain_site) = ?f" by (simp_all add: plain_site_def)
  have iff: "readable s = readable (lower s)" for s
    by (auto simp: readable_def lower_def Let_def split: if_splits)
  have case_blind: "?f s = ?f t" if "lower s = lower t" for s t
  proof -
    have "readable s = readable t" using iff [of s] iff [of t] that by metis
    then show ?thesis using that by simp
  qed
  show ?thesis
    unfolding plain_codecs_def f
  proof (intro conjI allI impI)
    fix s t a b
    assume "?f s = Some a" "?f t = Some b" "lower s = lower t"
    then show "a = b" using case_blind [of s t] by simp
  next
    fix s t :: string
    assume "lower s = lower t"
    then show "?f s = ?f t" by (rule case_blind)
  qed (auto split: if_splits)
qed

lemma readable_letters: "b \<noteq> [] \<Longrightarrow> readable (letters b)"
proof -
  have n: "(97 + n) mod 256 = 97 + n" if "n < 16" for n :: nat using that by simp
  have d: "unat x div 16 < 16" for x :: u8 using word_unat_less [of x] by simp
  have "\<forall>c \<in> set (letters b). 97 \<le> (of_char c :: nat) \<and> (of_char c :: nat) < 113"
    by (induction b) (auto simp: n n [OF d] less_imp_le d)
  moreover assume "b \<noteq> []"
  ultimately show ?thesis by (cases b) (auto simp: readable_def)
qed

lemma fingerprint_determines_payment_witness:
  "\<exists>d. decode_datum plain_site (Some ''AB'') = Inr d \<and> decode_datum plain_site (Some ''ab'') = Inr d"
proof -
  have low: "lower ''AB'' = lower ''ab''" by code_simp
  have "readable ''AB''" "readable ''ab''" by (simp_all add: readable_def)
  then obtain da db where d: "decode_datum plain_site (Some ''AB'') = Inr da" "decode_datum plain_site (Some ''ab'') = Inr db"
    by (simp add: decode_datum_def plain_site_def api_site_def ascii_def lower_def)
  have name: "readable sample_name"
    unfolding sample_name_def by (rule readable_letters) (simp add: sample_secret_def)
  have same: "fingerprint_bytes (datum_pay ''AB'') (Absolute 900) 1000 = fingerprint_bytes (datum_pay ''ab'') (Absolute 900) 1000"
    by (simp add: fingerprint_bytes_def datum_pay_def low)
  have check: "\<exists>a rs. check_transfer plain_site sample_ledger (datum_pay s) = Inr (a, rs)" for s
    using name by (simp add: check_transfer_def datum_pay_def api_pay_def parse_address_hex_def parse_address_def plain_site_def
        max_outputs_def recipients_of_def exclusive_fees_def check_token_def
        check_per_tx_def sample_ledger_def spend_sum_def saturating_add_def)
  obtain a rs b ss where c: "check_transfer plain_site sample_ledger (datum_pay ''AB'') = Inr (a, rs)"
    "check_transfer plain_site sample_ledger (datum_pay ''ab'') = Inr (b, ss)" using check by meson
  have "tp_datum (datum_pay s) = Some s" for s by (simp add: datum_pay_def)
  with fingerprint_determines_payment [OF plain_codecs_hold same c] d show ?thesis by auto
qed

end
