(* ===== verification/Quote.thy ===== *)
theory Quote imports ApiSpend begin

text \<open>
  Signed statements: the proof of ownership of a message (\<open>src/api/signmsg.rs\<close>) and the price credential
  EXFER-QUOTE (\<open>src/api/quote.rs\<close>).  Text is its UTF-8 bytes.  The curve is a parameter: which byte strings are
  points, which keys are weak, and which signatures verify; random bytes and the clock are arguments.
\<close>

record curve =
  valid_point :: "bytes \<Rightarrow> bool"
  weak_key :: "bytes \<Rightarrow> bool"
  verifies :: "bytes \<Rightarrow> bytes \<Rightarrow> bytes \<Rightarrow> bool"

definition signature_length :: nat where "signature_length = 64"

section \<open>Messages\<close>

definition msg_domain :: bytes where "msg_domain = ascii ''EXFER-MSG''"

definition domain_message :: "bytes \<Rightarrow> bytes" where
  "domain_message m = msg_domain @ m"

definition address_for_pubkey :: "'p site \<Rightarrow> bytes \<Rightarrow> bytes" where
  "address_for_pubkey si pk = pubkey_hash (st_kit si) pk"

record signed_message =
  sm_signature :: string
  sm_pubkey :: string
  sm_address :: string

definition sign_message :: "'p site \<Rightarrow> string \<Rightarrow> bytes \<Rightarrow> wallet \<Rightarrow> wallet \<times> signed_message res" where
  "sign_message si addr m w =
     (case ensure_64_hex addr of
        Inl e \<Rightarrow> (w, Inl e)
      | Inr _ \<Rightarrow>
          (case load_signer si addr w of
             (w1, Inl e) \<Rightarrow> (w1, Inl e)
           | (w1, Inr sg) \<Rightarrow>
               (w1, Inr \<lparr>sm_signature = hex_encode (st_chain si) (sign_bytes sg (domain_message m)),
                         sm_pubkey = hex_encode (st_chain si) (signer_pubkey sg),
                         sm_address = hex_encode (st_chain si) (signer_address sg)\<rparr>)))"

text \<open>Whether the signature holds, and the address of the key.\<close>

definition verify_message ::
    "'p site \<Rightarrow> curve \<Rightarrow> string \<Rightarrow> string \<Rightarrow> bytes \<Rightarrow> string option \<Rightarrow> (bool \<times> string) res" where
  "verify_message si cv pubkey sig m claimed =
     bind_ok (ensure_64_hex pubkey) (\<lambda>_.
     bind_ok (case claimed of None \<Rightarrow> Inr () | Some a \<Rightarrow> ensure_64_hex a) (\<lambda>_.
     bind_ok (ok_or (BadHex ''pubkey'') (hex_decode (st_chain si) pubkey)) (\<lambda>pk.
     bind_ok (ensure (BadAddressLen (length pk)) (length pk = 32)) (\<lambda>_.
     bind_ok (ok_or (BadHex ''signature'') (hex_decode (st_chain si) sig)) (\<lambda>sg.
     bind_ok (ensure (BadParams ''signature: expected 64 bytes'') (length sg = signature_length)) (\<lambda>_.
     let computed = hex_encode (st_chain si) (address_for_pubkey si pk);
         sig_ok = valid_point cv pk \<and> verifies cv pk (domain_message m) sg;
         addr_ok = (case claimed of Some a \<Rightarrow> eq_ignore_case a computed | None \<Rightarrow> True)
     in Inr (sig_ok \<and> addr_ok, computed)))))))"

section \<open>The quote and its image\<close>

definition quote_domain :: bytes where "quote_domain = ascii ''EXFER-QUOTE''"
definition quote_version :: u8 where "quote_version = 1"
definition max_ttl :: u64 where "max_ttl = 3600"
definition max_skew :: u64 where "max_skew = 60"
definition max_memo_bytes :: nat where "max_memo_bytes = 256"
definition min_currency_len :: nat where "min_currency_len = 3"
definition max_currency_len :: nat where "max_currency_len = 12"

record quote =
  q_version :: u8
  q_id :: bytes
  q_currency :: bytes
  q_amount_minor :: u64
  q_rate :: u64
  q_exfer_amount :: u64
  q_payee :: bytes
  q_payer :: "bytes option"
  q_issued_at :: u64
  q_expires :: u64
  q_memo :: bytes

definition payer_bytes :: "bytes option \<Rightarrow> bytes" where
  "payer_bytes p = (case p of Some pk \<Rightarrow> 1 # pk | None \<Rightarrow> [0])"

definition signing_image :: "quote \<Rightarrow> bytes \<Rightarrow> bytes" where
  "signing_image q genesis =
     quote_domain @ genesis @ [q_version q] @ q_id q @ [word_of_nat (length (q_currency q))] @ q_currency q
     @ u64_to_be (q_amount_minor q) @ u64_to_be (q_rate q) @ u64_to_be (q_exfer_amount q) @ q_payee q
     @ payer_bytes (q_payer q) @ u64_to_be (q_issued_at q) @ u64_to_be (q_expires q)
     @ u16_to_be (word_of_nat (length (q_memo q))) @ q_memo q"

definition is_currency_byte :: "u8 \<Rightarrow> bool" where
  "is_currency_byte b \<longleftrightarrow> 65 \<le> b \<and> b \<le> 90 \<or> 48 \<le> b \<and> b \<le> 57"

definition check_bounds :: "quote \<Rightarrow> string + unit" where
  "check_bounds q =
     (if q_version q \<noteq> quote_version then Inl ''unsupported version''
      else if \<not> (min_currency_len \<le> length (q_currency q) \<and> length (q_currency q) \<le> max_currency_len)
      then Inl ''currency length''
      else if \<not> list_all is_currency_byte (q_currency q) then Inl ''currency must be [A-Z0-9]''
      else if length (q_memo q) > max_memo_bytes then Inl ''memo exceeds 256 bytes''
      else Inr ())"

text \<open>The strict decoder: fields are taken off the front; nothing may be left behind the memo.\<close>

definition take_field :: "nat \<Rightarrow> string \<Rightarrow> bytes \<Rightarrow> string + (bytes \<times> bytes)" where
  "take_field n what b =
     (if length b < n then Inl (''truncated reading '' @ what) else Inr (take n b, drop n b))"

definition take_payer :: "bytes \<Rightarrow> string + (bytes option \<times> bytes)" where
  "take_payer b =
     bind_ok (take_field 1 ''payer_flag'' b) (\<lambda>(flag, b).
     if hd flag = 0 then Inr (None, b)
     else if hd flag = 1 then bind_ok (take_field 32 ''payer_pubkey'' b) (\<lambda>(pk, b). Inr (Some pk, b))
     else Inl ''payer_flag not in {0,1}'')"

definition decode_image_strict :: "bytes \<Rightarrow> string + (quote \<times> bytes)" where
  "decode_image_strict raw =
     bind_ok (take_field (length quote_domain) ''domain tag'' raw) (\<lambda>(tag, b).
     bind_ok (ensure ''bad domain tag'' (tag = quote_domain)) (\<lambda>_.
     bind_ok (take_field 32 ''genesis'' b) (\<lambda>(genesis, b).
     bind_ok (take_field 1 ''version'' b) (\<lambda>(version, b).
     bind_ok (take_field 16 ''quote_id'' b) (\<lambda>(qid, b).
     bind_ok (take_field 1 ''currency_len'' b) (\<lambda>(clen, b).
     bind_ok (take_field (unat (hd clen)) ''currency'' b) (\<lambda>(currency, b).
     bind_ok (ensure ''currency not UTF-8'' (utf8_valid currency)) (\<lambda>_.
     bind_ok (take_field 8 ''amount_minor'' b) (\<lambda>(amount_minor, b).
     bind_ok (take_field 8 ''rate'' b) (\<lambda>(rate, b).
     bind_ok (take_field 8 ''exfer_amount'' b) (\<lambda>(exfer_amount, b).
     bind_ok (take_field 32 ''payee_pubkey'' b) (\<lambda>(payee, b).
     bind_ok (take_payer b) (\<lambda>(payer, b).
     bind_ok (take_field 8 ''issued_at'' b) (\<lambda>(issued_at, b).
     bind_ok (take_field 8 ''expires_at'' b) (\<lambda>(expires_at, b).
     bind_ok (take_field 2 ''memo_len'' b) (\<lambda>(mlen, b).
     bind_ok (take_field (be_val mlen) ''memo'' b) (\<lambda>(memo, b).
     bind_ok (ensure ''memo not UTF-8'' (utf8_valid memo)) (\<lambda>_.
     bind_ok (ensure ''trailing bytes after memo'' (b = [])) (\<lambda>_.
     Inr (\<lparr>q_version = hd version, q_id = qid, q_currency = currency, q_amount_minor = u64_from_be amount_minor,
           q_rate = u64_from_be rate, q_exfer_amount = u64_from_be exfer_amount, q_payee = payee, q_payer = payer,
           q_issued_at = u64_from_be issued_at, q_expires = u64_from_be expires_at, q_memo = memo\<rparr>,
          genesis))))))))))))))))))))"

section \<open>The JSON form\<close>

definition decode_fixed :: "'p site \<Rightarrow> nat \<Rightarrow> string \<Rightarrow> string \<Rightarrow> bytes res" where
  "decode_fixed si n field s =
     bind_ok (ok_or (BadHex field) (hex_decode (st_chain si) s)) (\<lambda>b.
     if length b = n then Inr b else Inl (BadParams field))"

record quote_json =
  qj_version :: u8
  qj_id :: string
  qj_currency :: bytes
  qj_amount_minor :: u64
  qj_rate :: u64
  qj_exfer_amount :: u64
  qj_payee :: string
  qj_payer :: "string option"
  qj_issued_at :: u64
  qj_expires_at :: u64
  qj_memo :: bytes
  qj_signer :: string
  qj_signature :: string

definition decode_payer :: "'p site \<Rightarrow> string option \<Rightarrow> bytes option res" where
  "decode_payer si p =
     (case p of Some s \<Rightarrow> bind_ok (decode_fixed si 32 ''payer_pubkey'' s) (\<lambda>b. Inr (Some b)) | None \<Rightarrow> Inr None)"

definition quote_from_json :: "'p site \<Rightarrow> quote_json \<Rightarrow> quote res" where
  "quote_from_json si j =
     bind_ok (decode_fixed si 16 ''quote_id'' (qj_id j)) (\<lambda>qid.
     bind_ok (decode_fixed si 32 ''payee_pubkey'' (qj_payee j)) (\<lambda>payee.
     bind_ok (decode_payer si (qj_payer j)) (\<lambda>payer.
     Inr \<lparr>q_version = qj_version j, q_id = qid, q_currency = qj_currency j, q_amount_minor = qj_amount_minor j,
          q_rate = qj_rate j, q_exfer_amount = qj_exfer_amount j, q_payee = payee, q_payer = payer,
          q_issued_at = qj_issued_at j, q_expires = qj_expires_at j, q_memo = qj_memo j\<rparr>)))"

definition json_of_quote :: "'p site \<Rightarrow> quote \<Rightarrow> bytes \<Rightarrow> bytes \<Rightarrow> quote_json" where
  "json_of_quote si q signer sig =
     (let hex = hex_encode (st_chain si) in
      \<lparr>qj_version = q_version q, qj_id = hex (q_id q), qj_currency = q_currency q, qj_amount_minor = q_amount_minor q,
       qj_rate = q_rate q, qj_exfer_amount = q_exfer_amount q, qj_payee = hex (q_payee q),
       qj_payer = map_option hex (q_payer q), qj_issued_at = q_issued_at q, qj_expires_at = q_expires q,
       qj_memo = q_memo q, qj_signer = hex signer, qj_signature = hex sig\<rparr>)"

section \<open>Issuing\<close>

record quote_issue_params =
  qp_address :: string
  qp_payee :: string
  qp_currency :: bytes
  qp_amount_minor :: u64
  qp_rate :: u64
  qp_exfer_amount :: u64
  qp_ttl_secs :: u64
  qp_payer :: "string option"
  qp_memo :: "bytes option"
  qp_id :: "string option"

record issued_quote =
  iq_quote :: quote_json
  iq_signature :: string
  iq_signer_address :: string
  iq_payee_address :: string
  iq_genesis :: string
  iq_image :: string
  iq_preimage :: string
  iq_hash_lock :: string

text \<open>What one call finds: the genesis the node reports, the clock, random bytes.\<close>

record quote_env =
  qe_genesis :: "string res"
  qe_now :: "u64 option"
  qe_random_id :: bytes
  qe_preimage :: bytes

definition live_genesis :: "'p site \<Rightarrow> quote_env \<Rightarrow> (string \<times> bytes) res" where
  "live_genesis si ev =
     bind_ok (qe_genesis ev) (\<lambda>g.
     bind_ok (ensure (UpstreamUnexpected ''no genesis_block_id'') (g \<noteq> [])) (\<lambda>_.
     case decode_fixed si 32 ''genesis_block_id'' g of
       Inl _ \<Rightarrow> Inl (UpstreamUnexpected ''node genesis_block_id'') | Inr b \<Rightarrow> Inr (g, b)))"

definition clock_now :: "quote_env \<Rightarrow> u64 res" where
  "clock_now ev = ok_or (Internal ''clock before epoch'') (qe_now ev)"

text \<open>The quote before it is signed.\<close>

definition draft_quote :: "'p site \<Rightarrow> curve \<Rightarrow> quote_env \<Rightarrow> quote_issue_params \<Rightarrow> (quote \<times> string \<times> bytes) res" where
  "draft_quote si cv ev p =
     bind_ok (live_genesis si ev) (\<lambda>(g, genesis).
     bind_ok (case qp_id p of Some s \<Rightarrow> decode_fixed si 16 ''quote_id'' s | None \<Rightarrow> Inr (qe_random_id ev)) (\<lambda>qid.
     bind_ok (decode_fixed si 32 ''payee_pubkey'' (qp_payee p)) (\<lambda>payee.
     bind_ok (decode_payer si (qp_payer p)) (\<lambda>payer.
     bind_ok (ensure (BadParams ''ttl_secs must be in (0, 3600]'') (\<not> (qp_ttl_secs p = 0 \<or> qp_ttl_secs p > max_ttl))) (\<lambda>_.
     bind_ok (clock_now ev) (\<lambda>now.
     let q = \<lparr>q_version = quote_version, q_id = qid, q_currency = qp_currency p, q_amount_minor = qp_amount_minor p,
              q_rate = qp_rate p, q_exfer_amount = qp_exfer_amount p, q_payee = payee, q_payer = payer,
              q_issued_at = now, q_expires = now + qp_ttl_secs p,
              q_memo = (case qp_memo p of Some m \<Rightarrow> m | None \<Rightarrow> [])\<rparr>
     in
     bind_ok (case check_bounds q of Inl m \<Rightarrow> Inl (BadParams m) | Inr _ \<Rightarrow> Inr ()) (\<lambda>_.
     bind_ok (ensure (BadParams ''payee_pubkey is a weak/small-order key'') (\<not> weak_key cv payee)) (\<lambda>_.
     bind_ok (ensure (BadParams ''payer_pubkey is a weak/small-order key'')
                (case payer of Some pk \<Rightarrow> \<not> weak_key cv pk | None \<Rightarrow> True)) (\<lambda>_.
     Inr (q, g, genesis))))))))))"

definition quote_issue ::
    "'p site \<Rightarrow> curve \<Rightarrow> quote_env \<Rightarrow> quote_issue_params \<Rightarrow> wallet \<Rightarrow> wallet \<times> issued_quote res" where
  "quote_issue si cv ev p w =
     (case draft_quote si cv ev p of
        Inl e \<Rightarrow> (w, Inl e)
      | Inr (q, g, genesis) \<Rightarrow>
          (case load_signer si (qp_address p) w of
             (w1, Inl e) \<Rightarrow> (w1, Inl e)
           | (w1, Inr sg) \<Rightarrow>
               (w1,
                let hex = hex_encode (st_chain si);
                    image = signing_image q genesis;
                    sig = sign_bytes sg image
                in if weak_key cv (signer_pubkey sg) then Inl (Internal ''signer key is a weak/small-order key'')
                   else Inr \<lparr>iq_quote = json_of_quote si q (signer_pubkey sg) sig, iq_signature = hex sig,
                             iq_signer_address = hex (signer_address sg),
                             iq_payee_address = hex (address_for_pubkey si (q_payee q)), iq_genesis = g,
                             iq_image = hex image, iq_preimage = hex (qe_preimage ev),
                             iq_hash_lock = hex (sha256_of (st_kit si) (qe_preimage ev))\<rparr>)))"

section \<open>Verifying\<close>

definition accept_check :: "curve \<Rightarrow> quote \<Rightarrow> bytes \<Rightarrow> bytes \<Rightarrow> bytes \<Rightarrow> u64 \<Rightarrow> string + unit" where
  "accept_check cv q signer sig genesis now =
     bind_ok (check_bounds q) (\<lambda>_.
     bind_ok (ensure ''signer_pubkey is a weak/small-order key'' (\<not> weak_key cv signer)) (\<lambda>_.
     bind_ok (ensure ''payee_pubkey is a weak/small-order key'' (\<not> weak_key cv (q_payee q))) (\<lambda>_.
     bind_ok (ensure ''payer_pubkey is a weak/small-order key''
                (case q_payer q of Some pk \<Rightarrow> \<not> weak_key cv pk | None \<Rightarrow> True)) (\<lambda>_.
     bind_ok (ensure ''signer_pubkey is not a valid Ed25519 point'' (valid_point cv signer)) (\<lambda>_.
     bind_ok (ensure ''signature does not verify over the image'' (verifies cv signer (signing_image q genesis) sig)) (\<lambda>_.
     bind_ok (ensure ''issued_at must be strictly before expires_at'' (\<not> q_issued_at q \<ge> q_expires q)) (\<lambda>_.
     bind_ok (ensure ''ttl exceeds MAX_TTL'' (\<not> q_expires q - q_issued_at q > max_ttl)) (\<lambda>_.
     bind_ok (ensure ''issued_at is too far in the future (skew)'' (\<not> q_issued_at q > saturating_add now max_skew)) (\<lambda>_.
     ensure ''quote has expired'' (\<not> now \<ge> q_expires q))))))))))"

record quote_verdict =
  qv_valid :: bool
  qv_reason :: "string option"
  qv_signer_address :: string
  qv_payee_address :: string
  qv_genesis :: string

definition quote_verify :: "'p site \<Rightarrow> curve \<Rightarrow> quote_env \<Rightarrow> quote_json \<Rightarrow> quote_verdict res" where
  "quote_verify si cv ev j =
     bind_ok (quote_from_json si j) (\<lambda>q.
     bind_ok (decode_fixed si 32 ''signer_pubkey'' (qj_signer j)) (\<lambda>signer.
     bind_ok (ok_or (BadHex ''signature'') (hex_decode (st_chain si) (qj_signature j))) (\<lambda>sig.
     bind_ok (ensure (BadParams ''signature: expected 64 bytes'') (length sig = signature_length)) (\<lambda>_.
     bind_ok (live_genesis si ev) (\<lambda>(g, genesis).
     bind_ok (clock_now ev) (\<lambda>now.
     let outcome = accept_check cv q signer sig genesis now;
         hex = hex_encode (st_chain si)
     in Inr \<lparr>qv_valid = (outcome = Inr ()), qv_reason = (case outcome of Inl m \<Rightarrow> Some m | Inr _ \<Rightarrow> None),
             qv_signer_address = hex (address_for_pubkey si signer),
             qv_payee_address = hex (address_for_pubkey si (q_payee q)), qv_genesis = g\<rparr>))))))"

end
