(* ===== verification/QuoteRules.thy ===== *)
theory QuoteRules imports Quote ApiRuns begin

text \<open>
  What a quote and a signed message promise: the image determines the quote, images of the two domains never
  coincide, and what was issued is accepted exactly while it is alive.
\<close>

section \<open>The image\<close>

lemma take_field_ok: "take_field n what b = Inr (a, r) \<longleftrightarrow> b = a @ r \<and> length a = n"
  by (auto simp: take_field_def)

lemma take_field_append: "length a = n \<Longrightarrow> take_field n what (a @ r) = Inr (a, r)"
  by (simp add: take_field_ok)

definition well_sized :: "quote \<Rightarrow> bytes \<Rightarrow> bool" where
  "well_sized q genesis \<longleftrightarrow> length genesis = 32 \<and> length (q_id q) = 16 \<and> length (q_payee q) = 32
     \<and> (case q_payer q of Some pk \<Rightarrow> length pk = 32 | None \<Rightarrow> True)
     \<and> length (q_currency q) < 256 \<and> length (q_memo q) < 65536 \<and> utf8_valid (q_currency q) \<and> utf8_valid (q_memo q)"

lemma take_one [simp]: "take_field (Suc 0) what (x # r) = Inr ([x], r)"
  by (simp add: take_field_def)

lemma take_all [simp]: "take_field (length a) what a = Inr (a, [])"
  by (simp add: take_field_def)

lemma take_payer_append:
  assumes "case p of Some pk \<Rightarrow> length pk = 32 | None \<Rightarrow> True"
  shows "take_payer (payer_bytes p @ r) = Inr (p, r)"
  using assms by (cases p) (simp_all add: take_payer_def payer_bytes_def take_field_append)

lemma take_payer_ok:
  "take_payer b = Inr (p, r) \<Longrightarrow> b = payer_bytes p @ r \<and> (case p of Some pk \<Rightarrow> length pk = 32 | None \<Rightarrow> True)"
  by (auto simp: take_payer_def payer_bytes_def result_simps take_field_ok length_Suc_conv split: if_splits)

lemma u8_bound: "unat (x :: u8) < 256"
  using word_unat_less [of x] by simp

lemma be_of_short: "length mlen = 2 \<Longrightarrow> u16_to_be (word_of_nat (be_val mlen)) = mlen \<and> be_val mlen < 65536"
proof
  assume l: "length mlen = 2"
  show b: "be_val mlen < 65536" using be_val_bound [of mlen] l by simp
  have "unat (word_of_nat (be_val mlen) :: u16) = be_val mlen" using b by (simp add: unat_of_nat take_bit_eq_mod)
  then show "u16_to_be (word_of_nat (be_val mlen)) = mlen" using be_of_be_val [of mlen] l by (simp add: u16_to_be_def)
qed

lemma image_decodes:
  assumes "well_sized q g"
  shows "decode_image_strict (signing_image q g) = Inr (q, g)"
proof -
  note size = assms [unfolded well_sized_def]
  have m: "unat (word_of_nat (length (q_memo q)) :: u16) = length (q_memo q)"
    "unat (word_of_nat (length (q_currency q)) :: u8) = length (q_currency q)"
    using size by (simp_all add: unat_of_nat take_bit_eq_mod)
  show ?thesis using size
    by (simp add: decode_image_strict_def signing_image_def take_field_append take_payer_append ensure_def m del: u16_to_be_def)
qed

lemma decoded_image:
  assumes "decode_image_strict b = Inr (q, g)"
  shows "well_sized q g \<and> b = signing_image q g"
  using assms
  by (auto simp: decode_image_strict_def result_simps take_field_ok length_Suc_conv well_sized_def signing_image_def
      be_of_short u64_to_be_from_be u8_bound dest!: take_payer_ok)

text \<open>The image of a quote is a faithful encoding.  The strict decoder accepts exactly the images of well-sized
  quotes, and gives back the quote and the genesis the image was made from: no two quotes, and no quote under two
  genesis blocks, share an image, and nothing but an image of a quote decodes.\<close>

theorem quote_image_roundtrip:
  "decode_image_strict b = Inr (q, g) \<longleftrightarrow> well_sized q g \<and> b = signing_image q g"
  using image_decodes decoded_image by blast

section \<open>Keys that sign\<close>

text \<open>Of the libraries: \<open>hex\<close> reads back what it wrote, and what a key signs verifies under its public key.\<close>

definition hex_reads_back :: "'p site \<Rightarrow> bool" where
  "hex_reads_back si \<longleftrightarrow> (\<forall>b. hex_decode (st_chain si) (hex_encode (st_chain si) b) = Some b)"

definition signs_soundly :: "'p site \<Rightarrow> curve \<Rightarrow> bool" where
  "signs_soundly si cv \<longleftrightarrow> (\<forall>x m. length x = 32 \<longrightarrow> length (verifying_key (st_kit si) x) = 32
     \<and> valid_point cv (verifying_key (st_kit si) x) \<and> length (ed25519_sign si x m) = signature_length
     \<and> verifies cv (verifying_key (st_kit si) x) m (ed25519_sign si x m))"

lemma signs_soundlyD:
  assumes "signs_soundly si cv" "length x = 32"
  shows "length (verifying_key (st_kit si) x) = 32" "valid_point cv (verifying_key (st_kit si) x)"
    "length (ed25519_sign si x m) = signature_length" "verifies cv (verifying_key (st_kit si) x) m (ed25519_sign si x m)"
  using assms by (simp_all add: signs_soundly_def)

lemma signer_of_simps [simp]:
  "signer_pubkey (signer_of si (key_from_secret k x)) = verifying_key k x"
  "signer_address (signer_of si (key_from_secret k x)) = pubkey_hash k (verifying_key k x)"
  "sign_bytes (signer_of si (key_from_secret k x)) = ed25519_sign si x"
  by (simp_all add: signer_of_def key_from_secret_def)

lemma loaded_signer:
  assumes "kit_ok (st_kit si)" "host_ok (st_host si)" "well_kept (st_kit si) (wl_keys w)"
    and "load_signer si a w = (w1, Inr sg)"
  obtains x where "length x = 32" "sg = signer_of si (key_from_secret (st_kit si) x)" "own_address (st_kit si) x = lower a"
proof -
  obtain ks k where l: "load_by_address (st_kit si) a (st_host si) (wl_keys w) = (ks, Inr k)" "sg = signer_of si k"
    using assms(4) by (auto simp: load_signer_def result_simps split: prod.splits)
  then have "address_hex (st_kit si) k = lower a \<and> k = key_from_secret (st_kit si) (key_secret k) \<and> length (key_secret k) = 32"
    using load_post [OF assms(1-3), of a] by (simp add: kwp_def)
  then show ?thesis using l(2) that [of "key_secret k"] by (simp add: own_address_def)
qed

lemma decode_fixed_hex: "hex_reads_back si \<Longrightarrow> length b = n \<Longrightarrow> decode_fixed si n field (hex_encode (st_chain si) b) = Inr b"
  by (simp add: decode_fixed_def hex_reads_back_def ok_or_def)

lemma decode_fixed_ok: "decode_fixed si n field s = Inr b \<longleftrightarrow> hex_decode (st_chain si) s = Some b \<and> length b = n"
  by (auto simp: decode_fixed_def result_simps split: if_splits)

lemma live_genesis_ok: "live_genesis si ev = Inr (g, genesis) \<Longrightarrow> hex_decode (st_chain si) g = Some genesis \<and> length genesis = 32"
  unfolding live_genesis_def result_simps by (elim exE conjE, simp split: sum.splits add: decode_fixed_ok)

section \<open>Issuing, then verifying\<close>

definition image_fields :: "quote \<Rightarrow> bool" where
  "image_fields q \<longleftrightarrow> length (q_id q) = 16 \<and> length (q_payee q) = 32
     \<and> (case q_payer q of Some pk \<Rightarrow> length pk = 32 | None \<Rightarrow> True)"

lemma decode_payer_ok: "decode_payer si s = Inr p \<Longrightarrow> case p of Some pk \<Rightarrow> length pk = 32 | None \<Rightarrow> True"
  by (auto simp: decode_payer_def result_simps decode_fixed_ok split: option.splits)

lemma drafted:
  assumes "draft_quote si cv ev p = Inr (q, g, genesis)" "length (qe_random_id ev) = 16" "qe_now ev = Some t"
  shows "image_fields q" "check_bounds q = Inr ()" "\<not> weak_key cv (q_payee q)"
    "case q_payer q of Some pk \<Rightarrow> \<not> weak_key cv pk | None \<Rightarrow> True"
    "q_issued_at q = t" "q_expires q = t + qp_ttl_secs p" "qp_ttl_secs p \<noteq> 0" "qp_ttl_secs p \<le> max_ttl"
    "live_genesis si ev = Inr (g, genesis)"
proof -
  obtain qid payee payer where f:
    "(case qp_id p of Some s \<Rightarrow> decode_fixed si 16 ''quote_id'' s | None \<Rightarrow> Inr (qe_random_id ev)) = Inr qid"
    "decode_fixed si 32 ''payee_pubkey'' (qp_payee p) = Inr payee" "decode_payer si (qp_payer p) = Inr payer"
    "\<not> (qp_ttl_secs p = 0 \<or> qp_ttl_secs p > max_ttl)" "live_genesis si ev = Inr (g, genesis)"
    "(case check_bounds q of Inl m \<Rightarrow> Inl (BadParams m) | Inr _ \<Rightarrow> Inr ()) = Inr ()"
    "\<not> weak_key cv payee" "case payer of Some pk \<Rightarrow> \<not> weak_key cv pk | None \<Rightarrow> True"
    and q: "q_id q = qid" "q_payee q = payee" "q_payer q = payer" "q_issued_at q = t" "q_expires q = t + qp_ttl_secs p"
    using assms(1,3) by (auto simp: draft_quote_def result_simps clock_now_def Let_def)
  have "length qid = 16" using f(1) assms(2) by (auto simp: decode_fixed_ok split: option.splits)
  then show "image_fields q" using f(2) decode_payer_ok [OF f(3)] by (simp add: image_fields_def q decode_fixed_ok)
  show "check_bounds q = Inr ()" using f(6) by (auto split: sum.splits)
qed (use assms(1,3) in \<open>auto simp: draft_quote_def result_simps clock_now_def Let_def\<close>)

lemma json_reads_back:
  assumes "hex_reads_back si" "image_fields q"
  shows "quote_from_json si (json_of_quote si q signer sg) = Inr q"
proof -
  have "decode_payer si (map_option (hex_encode (st_chain si)) (q_payer q)) = Inr (q_payer q)"
    using assms by (cases "q_payer q") (simp_all add: decode_payer_def decode_fixed_hex image_fields_def)
  then show ?thesis using assms
    by (simp add: quote_from_json_def json_of_quote_def Let_def decode_fixed_hex image_fields_def)
qed

lemma accepted_alive:
  assumes "check_bounds q = Inr ()" "\<not> weak_key cv signer" "\<not> weak_key cv (q_payee q)"
    and "case q_payer q of Some pk \<Rightarrow> \<not> weak_key cv pk | None \<Rightarrow> True"
    and "valid_point cv signer" "verifies cv signer (signing_image q g) sg"
    and "q_expires q = q_issued_at q + life" "life \<noteq> 0" "life \<le> max_ttl" "unat (q_issued_at q) + unat max_ttl < 2 ^ 64"
  shows "accept_check cv q signer sg g now = Inr () \<longleftrightarrow>
    q_issued_at q \<le> saturating_add now max_skew \<and> now < q_expires q"
proof -
  have "unat life \<le> unat max_ttl" using assms(9) by (simp add: word_le_nat_alt)
  then have "unat (q_expires q) = unat (q_issued_at q) + unat life" using assms(7,10) by (simp add: unat_word_ariths)
  moreover have "0 < unat life" using assms(8) by (simp add: unat_gt_0)
  ultimately have less: "q_issued_at q < q_expires q" by (simp add: word_less_nat_alt)
  have "q_expires q - q_issued_at q = life" using assms(7) by simp
  with less show ?thesis using assms(1-6,9)
    by (auto simp: accept_check_def ensure_def not_le split: if_splits)
qed

text \<open>What the wallet issues, it accepts.  A quote the daemon signed is read back from its JSON form and passes
  every check of another daemon on the same chain, under its own clock, exactly while it lives: from \<open>max_skew\<close>
  seconds before it was issued until just before it expires.  The addresses reported for signer and payee are
  those that the issuer announced.\<close>

theorem issued_quote_verifies:
  assumes "kit_ok (st_kit si)" "host_ok (st_host si)" "well_kept (st_kit si) (wl_keys w)"
    and "signs_soundly si cv" "hex_reads_back si" "length (qe_random_id ev) = 16"
    and "quote_issue si cv ev p w = (w1, Inr iq)"
    and "qe_now ev = Some t" "unat t + unat max_ttl < 2 ^ 64"
    and "qe_genesis ev' = qe_genesis ev" "qe_now ev' = Some now"
  shows "\<exists>v. quote_verify si cv ev' (iq_quote iq) = Inr v
    \<and> (qv_valid v \<longleftrightarrow> t \<le> saturating_add now max_skew \<and> now < t + qp_ttl_secs p)
    \<and> qv_signer_address v = iq_signer_address iq \<and> qv_payee_address v = iq_payee_address iq"
proof -
  obtain q g genesis sg where d: "draft_quote si cv ev p = Inr (q, g, genesis)" and l: "load_signer si (qp_address p) w = (w1, Inr sg)"
    and strong: "\<not> weak_key cv (signer_pubkey sg)"
    and iq: "iq_quote iq = json_of_quote si q (signer_pubkey sg) (sign_bytes sg (signing_image q genesis))"
      "iq_signer_address iq = hex_encode (st_chain si) (signer_address sg)"
      "iq_payee_address iq = hex_encode (st_chain si) (address_for_pubkey si (q_payee q))"
    using assms(7) by (auto simp: quote_issue_def Let_def split: sum.splits prod.splits if_splits)
  obtain x where x: "length x = 32" "sg = signer_of si (key_from_secret (st_kit si) x)"
    using loaded_signer [OF assms(1-3) l] by blast
  note q = drafted [OF d assms(6,8)] and sound = signs_soundlyD [OF assms(4) x(1)]
  let ?pk = "signer_pubkey sg" and ?sig = "sign_bytes sg (signing_image q genesis)"
  have alive: "accept_check cv q ?pk ?sig genesis now = Inr () \<longleftrightarrow>
      q_issued_at q \<le> saturating_add now max_skew \<and> now < q_expires q"
    by (rule accepted_alive [OF q(2) strong q(3,4) _ _ q(6) [folded q(5)] q(7,8)])
      (use sound x(2) assms(9) q(5) in simp_all)
  have parsed: "quote_from_json si (iq_quote iq) = Inr q" unfolding iq(1) by (rule json_reads_back [OF assms(5) q(1)])
  have j: "decode_fixed si 32 ''signer_pubkey'' (qj_signer (iq_quote iq)) = Inr ?pk"
    "hex_decode (st_chain si) (qj_signature (iq_quote iq)) = Some ?sig"
    using assms(5) sound x(2) by (simp_all add: iq(1) json_of_quote_def Let_def decode_fixed_hex hex_reads_back_def)
  have "live_genesis si ev' = Inr (g, genesis)" using q(9) assms(10) by (simp add: live_genesis_def)
  then show ?thesis
    using parsed j alive sound x(2) assms(11) q(5,6)
    by (simp add: quote_verify_def clock_now_def ok_or_def ensure_def Let_def iq(2,3) address_for_pubkey_def)
qed

text \<open>A curve on which a signature is the beginning of key and message, and a daemon that signs with it.\<close>

definition short_sign :: "bytes \<Rightarrow> bytes \<Rightarrow> bytes" where
  "short_sign x m = take 64 (x @ m @ replicate 64 0)"

definition short_curve :: curve where
  "short_curve = \<lparr>valid_point = (\<lambda>_. True), weak_key = (\<lambda>_. False), verifies = (\<lambda>pk m s. s = short_sign pk m)\<rparr>"

definition quote_site :: "unit site" where
  "quote_site = (api_site (Inr []))\<lparr>ed25519_sign := short_sign\<rparr>"

definition price :: quote_issue_params where
  "price = \<lparr>qp_address = sample_name, qp_payee = sample_name, qp_currency = ascii ''USD'', qp_amount_minor = 250,
     qp_rate = 4, qp_exfer_amount = 1000, qp_ttl_secs = 60, qp_payer = None, qp_memo = None, qp_id = None\<rparr>"

definition noon :: "u64 \<Rightarrow> quote_env" where
  "noon now = \<lparr>qe_genesis = Inr sample_name, qe_now = Some now, qe_random_id = replicate 16 9, qe_preimage = [1]\<rparr>"

lemma quote_site_ok: "kit_ok (st_kit quote_site)" "host_ok (st_host quote_site)"
    "well_kept (st_kit quote_site) (wl_keys api_wallet)" "signs_soundly quote_site short_curve" "hex_reads_back quote_site"
proof -
  have k: "st_kit quote_site = sample_kit" "st_host quote_site = quiet_host" "st_chain quote_site = api_chain"
    "ed25519_sign quote_site = short_sign" by (simp_all add: quote_site_def api_site_def)
  show "kit_ok (st_kit quote_site)" "host_ok (st_host quote_site)" by (simp_all add: k sample_kit_ok quiet_host_ok)
  have l: "length sample_secret = 32" by (simp add: sample_secret_def)
  have "well_kept sample_kit ((empty_store [112])\<lparr>signer_cache := (signer_cache (empty_store [112]))
      (sample_name := Some (key_from_secret sample_kit sample_secret))\<rparr>)"
    by (rule well_kept_cached [OF empty_store_kept sample_kit_ok refl l]) (simp_all add: sample_address [OF l] sample_name_def fun_upd_def)
  then show "well_kept (st_kit quote_site) (wl_keys api_wallet)"
    by (simp add: k api_wallet_def api_keys_def empty_store_def)
  show "signs_soundly quote_site short_curve"
    by (auto simp: signs_soundly_def k sample_kit_def short_curve_def short_sign_def signature_length_def min_def)
  show "hex_reads_back quote_site" by (simp add: hex_reads_back_def k api_chain_def letters_spec)
qed

lemma sample_named: "sample_name \<noteq> []"
  using letters_spec(2) [of sample_secret] by (auto simp: sample_name_def sample_secret_def)

lemma noon_genesis: "live_genesis quote_site (noon now) = Inr (sample_name, sample_secret)"
proof -
  have "decode_fixed quote_site 32 f sample_name = Inr sample_secret" for f
    by (simp add: decode_fixed_def quote_site_def api_chain_def sample_name_def letters_spec ok_or_def sample_secret_def)
  then show ?thesis using sample_named by (simp add: live_genesis_def noon_def ensure_def)
qed

lemma price_issued: "\<exists>iq. quote_issue quote_site short_curve (noon 1000) price api_wallet = (api_wallet, Inr iq)"
proof -
  have d: "decode_fixed quote_site 32 f sample_name = Inr sample_secret" for f
    by (simp add: decode_fixed_def quote_site_def api_chain_def sample_name_def letters_spec ok_or_def sample_secret_def)
  have b: "list_all is_currency_byte (ascii ''USD'') \<and> length (ascii ''USD'') = 3" by code_simp
  have load: "load_signer quote_site sample_name api_wallet =
      (api_wallet, Inr (signer_of quote_site (key_from_secret sample_kit sample_secret)))"
    by (rule load_cached) (simp add: api_wallet_def api_keys_def sample_name_def letters_spec)
  have "qp_id price = None" "qe_now (noon 1000) = Some 1000" "qe_random_id (noon 1000) = replicate 16 9"
    by (simp_all add: price_def noon_def)
  then have "\<exists>q. draft_quote quote_site short_curve (noon 1000) price = Inr (q, sample_name, sample_secret)"
    using b by (simp add: draft_quote_def noon_genesis price_def d decode_payer_def clock_now_def ok_or_def ensure_def Let_def
        check_bounds_def quote_version_def min_currency_len_def max_currency_len_def max_memo_bytes_def max_ttl_def short_curve_def)
  then show ?thesis using load by (auto simp: quote_issue_def price_def Let_def short_curve_def)
qed

theorem issued_quote_verifies_witness:
  "\<exists>iq v u. quote_issue quote_site short_curve (noon 1000) price api_wallet = (api_wallet, Inr iq)
     \<and> quote_verify quote_site short_curve (noon 1059) (iq_quote iq) = Inr v \<and> qv_valid v
     \<and> quote_verify quote_site short_curve (noon 1060) (iq_quote iq) = Inr u \<and> \<not> qv_valid u"
proof -
  obtain iq where iq: "quote_issue quote_site short_curve (noon 1000) price api_wallet = (api_wallet, Inr iq)"
    using price_issued by blast
  have "\<exists>v. quote_verify quote_site short_curve (noon now) (iq_quote iq) = Inr v
      \<and> (qv_valid v \<longleftrightarrow> 1000 \<le> saturating_add now max_skew \<and> now < 1000 + qp_ttl_secs price)
      \<and> qv_signer_address v = iq_signer_address iq \<and> qv_payee_address v = iq_payee_address iq" for now
    by (rule issued_quote_verifies [OF quote_site_ok _ iq]) (simp_all add: noon_def max_ttl_def)
  from this [of 1059] this [of 1060] iq show ?thesis
    by (auto simp: price_def saturating_add_def max_skew_def)
qed

section \<open>What a valid quote proves\<close>

lemma ascii_text: "list_all (\<lambda>b. b < 0x80) bs \<Longrightarrow> utf8_valid bs"
  by (induction bs) auto

lemma currency_text: "list_all is_currency_byte bs \<Longrightarrow> utf8_valid bs"
  by (rule ascii_text) (auto simp: list_all_iff is_currency_byte_def word_less_nat_alt word_le_nat_alt)

lemma image_tag: "take 11 (signing_image q g) = quote_domain"
proof -
  have "length quote_domain = 11" by (simp add: quote_domain_def ascii_def)
  then show ?thesis by (simp add: signing_image_def)
qed

lemma message_tag: "take 11 (domain_message m) \<noteq> quote_domain"
proof
  assume "take 11 (domain_message m) = quote_domain"
  then have "take 9 (take 11 (domain_message m)) = take 9 quote_domain" by simp
  then show False by (simp add: domain_message_def msg_domain_def quote_domain_def ascii_def)
qed

lemma bounded_image:
  assumes "check_bounds q = Inr ()" "image_fields q" "length g = 32" "utf8_valid (q_memo q)"
  shows "well_sized q g"
proof -
  have "length (q_currency q) < 256" "length (q_memo q) < 65536" "list_all is_currency_byte (q_currency q)"
    using assms(1) by (auto simp: check_bounds_def max_currency_len_def max_memo_bytes_def split: if_splits)
  then show ?thesis using assms(2-4) currency_text by (simp add: well_sized_def image_fields_def)
qed

lemma from_json_fields: "quote_from_json si j = Inr q \<Longrightarrow> image_fields q \<and> q_memo q = qj_memo j"
  by (auto simp: quote_from_json_def result_simps image_fields_def decode_fixed_ok dest: decode_payer_ok)

text \<open>C27: A valid quote was issued as it stands.  Suppose that the signature on a quote is one the key made, for a
  message of a user, for a quote it issued under some genesis, or for anything else that does not begin with the
  tag of quotes.  If \<open>quote_verify\<close> calls the quote valid, then every field of it, down to the payer and the memo,
  is as in a quote that was issued, and it was issued for the chain the daemon is on: neither a signed message nor
  a quote for another chain can pass for it, and the clock is within its life.\<close>

theorem valid_quote_was_issued:
  assumes "quote_verify si cv ev j = Inr v" "qv_valid v"
    and "hex_decode (st_chain si) (qj_signer j) = Some pk" "hex_decode (st_chain si) (qj_signature j) = Some sg"
    and "\<And>m. verifies cv pk m sg \<Longrightarrow> m \<in> domain_message ` texts \<union> (\<lambda>(q, g). signing_image q g) ` issued
           \<union> {m. take 11 m \<noteq> quote_domain}"
    and "\<forall>(q, g) \<in> issued. well_sized q g" and "utf8_valid (qj_memo j)"
  shows "\<exists>q g. (q, g) \<in> issued \<and> quote_from_json si j = Inr q \<and> hex_decode (st_chain si) (qv_genesis v) = Some g
    \<and> (\<exists>now. qe_now ev = Some now \<and> q_issued_at q \<le> saturating_add now max_skew \<and> now < q_expires q)"
proof -
  obtain q g genesis now where q: "quote_from_json si j = Inr q" and g: "live_genesis si ev = Inr (g, genesis)"
    and now: "qe_now ev = Some now" and ok: "accept_check cv q pk sg genesis now = Inr ()" and v: "qv_genesis v = g"
    using assms(1-4) by (auto simp: quote_verify_def result_simps decode_fixed_ok clock_now_def Let_def)
  have gen: "length genesis = 32" "hex_decode (st_chain si) g = Some genesis"
    using live_genesis_ok [OF g] by simp_all
  have sizes: "well_sized q genesis"
    using bounded_image [OF _ _ gen(1)] ok from_json_fields [OF q] assms(7) by (simp add: accept_check_def result_simps)
  have "verifies cv pk (signing_image q genesis) sg" using ok by (simp add: accept_check_def result_simps)
  from assms(5) [OF this] have "signing_image q genesis \<in> domain_message ` texts
      \<or> signing_image q genesis \<in> (\<lambda>(q, g). signing_image q g) ` issued" using image_tag [of q genesis] by blast
  moreover have "signing_image q genesis \<notin> domain_message ` texts"
  proof
    assume "signing_image q genesis \<in> domain_message ` texts"
    then obtain m where "signing_image q genesis = domain_message m" by blast
    then show False using message_tag [of m] image_tag [of q genesis] by simp
  qed
  ultimately obtain q' g' where i: "(q', g') \<in> issued" "signing_image q genesis = signing_image q' g'" by auto
  have "well_sized q' g'" using assms(6) i(1) by blast
  from image_decodes [OF this] have "decode_image_strict (signing_image q genesis) = Inr (q', g')" by (simp only: i(2))
  then have "(q, genesis) = (q', g')" using image_decodes [OF sizes] by simp
  moreover have "q_issued_at q \<le> saturating_add now max_skew \<and> now < q_expires q"
    using ok by (simp add: accept_check_def result_simps not_less not_le)
  ultimately show ?thesis using i(1) q gen(2) now v by blast
qed

definition paid_quote :: quote where
  "paid_quote = \<lparr>q_version = 1, q_id = replicate 16 9, q_currency = ascii ''USD'', q_amount_minor = 250, q_rate = 4,
     q_exfer_amount = 1000, q_payee = sample_secret, q_payer = None, q_issued_at = 1000, q_expires = 1060, q_memo = []\<rparr>"

definition one_signature :: curve where
  "one_signature = \<lparr>valid_point = (\<lambda>_. True), weak_key = (\<lambda>_. False),
     verifies = (\<lambda>pk m s. m = signing_image paid_quote sample_secret)\<rparr>"

theorem valid_quote_was_issued_witness:
  "\<exists>v. quote_verify quote_site one_signature (noon 1059) (json_of_quote quote_site paid_quote sample_secret (replicate 64 0)) = Inr v
     \<and> qv_valid v \<and> quote_from_json quote_site (json_of_quote quote_site paid_quote sample_secret (replicate 64 0)) = Inr paid_quote"
proof -
  let ?j = "json_of_quote quote_site paid_quote sample_secret (replicate 64 0)"
  have f: "image_fields paid_quote" "q_memo paid_quote = []" by (simp_all add: image_fields_def paid_quote_def sample_secret_def)
  have usd: "list_all is_currency_byte (ascii ''USD'') \<and> length (ascii ''USD'') = 3" by code_simp
  then have b: "check_bounds paid_quote = Inr ()"
    by (simp add: check_bounds_def paid_quote_def quote_version_def min_currency_len_def max_currency_len_def max_memo_bytes_def)
  have w: "well_sized paid_quote sample_secret"
    by (rule bounded_image [OF b f(1)]) (simp_all add: f(2) sample_secret_def)
  have p: "quote_from_json quote_site ?j = Inr paid_quote" by (rule json_reads_back [OF quote_site_ok(5) f(1)])
  have d: "hex_decode (st_chain quote_site) (hex_encode (st_chain quote_site) x) = Some x" for x
    using quote_site_ok(5) by (simp add: hex_reads_back_def)
  then have s: "hex_decode (st_chain quote_site) (qj_signer ?j) = Some sample_secret"
    "hex_decode (st_chain quote_site) (qj_signature ?j) = Some (replicate 64 0)" by (simp_all add: json_of_quote_def Let_def)
  have a: "accept_check one_signature paid_quote sample_secret (replicate 64 0) sample_secret 1059 = Inr ()"
    using b by (simp add: accept_check_def ensure_def one_signature_def)
      (simp add: paid_quote_def max_ttl_def max_skew_def saturating_add_def)
  have "live_genesis quote_site (noon 1059) = Inr (sample_name, sample_secret)" by (rule noon_genesis)
  moreover have "decode_fixed quote_site 32 ''signer_pubkey'' (qj_signer ?j) = Inr sample_secret"
    using s(1) by (simp add: decode_fixed_ok sample_secret_def)
  ultimately obtain v where v: "quote_verify quote_site one_signature (noon 1059) ?j = Inr v" "qv_valid v"
    using p s a by (simp add: quote_verify_def ok_or_def ensure_def signature_length_def Let_def)
      (simp add: noon_def clock_now_def ok_or_def)
  have one: "m \<in> domain_message ` {} \<union> (\<lambda>(q, g). signing_image q g) ` {(paid_quote, sample_secret)} \<union> {m. take 11 m \<noteq> quote_domain}"
    if "verifies one_signature sample_secret m (replicate 64 0)" for m
    using that by (simp add: one_signature_def)
  have "utf8_valid (qj_memo ?j)" by (simp add: json_of_quote_def Let_def f(2))
  then have "\<exists>q g. (q, g) \<in> {(paid_quote, sample_secret)} \<and> quote_from_json quote_site ?j = Inr q"
    using valid_quote_was_issued [OF v s one] w by fast
  then show ?thesis using v by auto
qed

end
