(* ===== verification/TxDecode.thy ===== *)
theory TxDecode imports TxHtlc KeyringSample begin

text \<open>
  The decoded view of a transaction (\<open>src/tx/decode.rs\<close>): outputs and witnesses are read in place, the value
  behind an input is fetched with the parent transaction.  The parents are fetched concurrently and may arrive in
  any order: the order is an argument.  The outer option is \<open>None\<close> where the code panics, which it does when the
  crate hands it fewer witnesses than inputs.
\<close>

definition phase1_witness_len :: nat where "phase1_witness_len = 96"

record decoded_witness =
  dw_pubkey :: "string option"
  dw_signature :: "string option"
  dw_witness_hex :: "string option"
  dw_redeemer_hex :: "string option"

record decoded_input =
  di_prev_tx_id :: string
  di_output_index :: u32
  di_address :: "string option"
  di_script_hex :: "string option"
  di_value :: "u64 option"
  di_witness :: "decoded_witness option"

record decoded_out =
  do_address :: "string option"
  do_script_hex :: "string option"
  do_value :: u64
  do_datum :: "string option"
  do_datum_hash :: "string option"

record decoded_tx =
  dt_inputs :: "decoded_input list"
  dt_outputs :: "decoded_out list"
  dt_fee :: "u64 option"
  dt_total_in :: "u64 option"
  dt_total_out :: u64
  dt_size :: nat

type_synonym resolved_input = "string option \<times> string option \<times> u64"

section \<open>Scripts and witnesses\<close>

definition address_or_script :: "chain \<Rightarrow> bytes \<Rightarrow> string option \<times> string option" where
  "address_or_script ch s =
     (if length s = 32 then (Some (hex_encode ch s), None) else (None, Some (hex_encode ch s)))"

definition decoded_output :: "chain \<Rightarrow> tx_output \<Rightarrow> decoded_out" where
  "decoded_output ch out =
     (let (a, s) = address_or_script ch (script out) in
      \<lparr>do_address = a, do_script_hex = s, do_value = out_value out,
       do_datum = map_option (hex_encode ch) (datum out), do_datum_hash = map_option (hex_encode ch) (datum_hash out)\<rparr>)"

definition decode_witness :: "chain \<Rightarrow> tx_witness \<Rightarrow> decoded_witness option" where
  "decode_witness ch w =
     (if witness w = [] \<and> redeemer w = None then None
      else let red = map_option (hex_encode ch) (redeemer w) in
        if length (witness w) = phase1_witness_len then
          Some \<lparr>dw_pubkey = Some (hex_encode ch (take 32 (witness w))), dw_signature = Some (hex_encode ch (drop 32 (witness w))),
                dw_witness_hex = None, dw_redeemer_hex = red\<rparr>
        else
          Some \<lparr>dw_pubkey = None, dw_signature = None, dw_witness_hex = Some (hex_encode ch (witness w)),
                dw_redeemer_hex = red\<rparr>)"

definition address_from_witness :: "chain \<Rightarrow> kit \<Rightarrow> decoded_witness \<Rightarrow> string option" where
  "address_from_witness ch k w =
     Option.bind (dw_pubkey w) (\<lambda>h.
     Option.bind (hex_decode ch h) (\<lambda>pk.
     if length pk = 32 then Some (hex_encode ch (pubkey_hash k pk)) else None))"

section \<open>Parents\<close>

text \<open>\<open>None\<close> whatever goes wrong: the fetch, its hex, its parse, or the index.\<close>

definition resolve_input ::
    "chain \<Rightarrow> parser \<Rightarrow> (string \<Rightarrow> string res) \<Rightarrow> string \<Rightarrow> u32 \<Rightarrow> resolved_input option" where
  "resolve_input ch ps fetch prev_id n =
     (case fetch prev_id of
        Inl _ \<Rightarrow> None
      | Inr tx_hex \<Rightarrow>
          Option.bind (hex_decode ch tx_hex) (\<lambda>raw.
          Option.bind (parse_tx ps raw) (\<lambda>parent.
          if unat n < length (outputs parent) then
            let out = outputs parent ! unat n; (a, s) = address_or_script ch (script out) in Some (a, s, out_value out)
          else None)))"

text \<open>What arrives is put into its slot.\<close>

definition place_resolved :: "(nat \<times> resolved_input option) list \<Rightarrow> nat \<Rightarrow> resolved_input option list" where
  "place_resolved arrived n = foldl (\<lambda>slots (i, r). slots[i := r]) (replicate n None) arrived"

definition describe_input ::
    "chain \<Rightarrow> kit \<Rightarrow> tx_input \<Rightarrow> tx_witness \<Rightarrow> resolved_input option \<Rightarrow> decoded_input" where
  "describe_input ch k inp w r =
     (let dw = decode_witness ch w; own = Option.bind dw (address_from_witness ch k) in
      case r of
        Some (a, s, v) \<Rightarrow>
          \<lparr>di_prev_tx_id = hex_encode ch (prev_tx_id inp), di_output_index = prev_index inp,
           di_address = (case own of Some x \<Rightarrow> Some x | None \<Rightarrow> a), di_script_hex = s, di_value = Some v, di_witness = dw\<rparr>
      | None \<Rightarrow>
          \<lparr>di_prev_tx_id = hex_encode ch (prev_tx_id inp), di_output_index = prev_index inp,
           di_address = own, di_script_hex = None, di_value = None, di_witness = dw\<rparr>)"

definition add_resolved :: "u64 \<times> bool \<Rightarrow> resolved_input option \<Rightarrow> u64 \<times> bool" where
  "add_resolved s r = (case r of Some (_, _, v) \<Rightarrow> (saturating_add (fst s) v, snd s) | None \<Rightarrow> (fst s, True))"

definition decode_parsed ::
    "chain \<Rightarrow> parser \<Rightarrow> kit \<Rightarrow> (string \<Rightarrow> string res) \<Rightarrow> nat list \<Rightarrow> transaction \<Rightarrow> nat \<Rightarrow> decoded_tx" where
  "decode_parsed ch ps k fetch arrival tx raw_size =
     (let n = length (inputs tx);
          asked = (\<lambda>i. let inp = inputs tx ! i in (i, resolve_input ch ps fetch (hex_encode ch (prev_tx_id inp)) (prev_index inp)));
          resolved = place_resolved (map asked arrival) n;
          outs = map (decoded_output ch) (outputs tx);
          total_out = sum_list (map do_value outs);
          (total, missing) = foldl add_resolved (0, False) resolved
      in \<lparr>dt_inputs = map (\<lambda>i. describe_input ch k (inputs tx ! i) (witnesses tx ! i) (resolved ! i)) [0..<n],
          dt_outputs = outs,
          dt_fee = (if missing then None else Some (saturating_sub total total_out)),
          dt_total_in = (if missing then None else Some total),
          dt_total_out = total_out, dt_size = raw_size\<rparr>)"

definition decode_with_inputs ::
    "chain \<Rightarrow> parser \<Rightarrow> kit \<Rightarrow> (string \<Rightarrow> string res) \<Rightarrow> nat list \<Rightarrow> string \<Rightarrow> decoded_tx res option" where
  "decode_with_inputs ch ps k fetch arrival tx_hex =
     (case hex_decode ch tx_hex of
        None \<Rightarrow> Some (Inl (Internal ''tx_hex not hex''))
      | Some raw \<Rightarrow>
          (case parse_tx ps raw of
             None \<Rightarrow> Some (Inl (Internal ''tx_hex deserialize''))
           | Some tx \<Rightarrow>
               if length (inputs tx) \<le> length (witnesses tx)
               then Some (Inr (decode_parsed ch ps k fetch arrival tx (length raw)))
               else None))"

section \<open>Arrival order\<close>

lemma place_at:
  assumes "set (map fst arrived) \<subseteq> {..<n}" "distinct (map fst arrived)"
  shows "length (place_resolved arrived n) = n"
    and "(i, r) \<in> set arrived \<Longrightarrow> place_resolved arrived n ! i = r"
proof -
  have len: "length (foldl (\<lambda>slots (i, r). slots[i := r]) s as) = length s"
    for s :: "resolved_input option list" and as
    by (induction as arbitrary: s) auto
  then show "length (place_resolved arrived n) = n" by (simp add: place_resolved_def)
  have skip: "foldl (\<lambda>slots (i, r). slots[i := r]) s as ! i = s ! i" if "i \<notin> fst ` set as" for i and s :: "resolved_input option list" and as
    using that by (induction as arbitrary: s) auto
  have "foldl (\<lambda>slots (i, r). slots[i := r]) s as ! i = r"
    if "(i, r) \<in> set as" "distinct (map fst as)" "i < length s" for s :: "resolved_input option list" and as
    using that skip by (induction as arbitrary: s) (force simp: image_iff)+
  then show "place_resolved arrived n ! i = r" if "(i, r) \<in> set arrived"
    using that assms by (force simp: place_resolved_def)
qed

definition input_answer ::
    "chain \<Rightarrow> parser \<Rightarrow> (string \<Rightarrow> string res) \<Rightarrow> tx_input \<Rightarrow> resolved_input option" where
  "input_answer ch ps fetch inp = resolve_input ch ps fetch (hex_encode ch (prev_tx_id inp)) (prev_index inp)"

lemma resolved_in_order:
  assumes "distinct arrival" "set arrival = {..<length (inputs tx)}"
  shows "place_resolved (map (\<lambda>i. let inp = inputs tx ! i in (i, resolve_input ch ps fetch (hex_encode ch (prev_tx_id inp)) (prev_index inp)))
      arrival) (length (inputs tx)) = map (input_answer ch ps fetch) (inputs tx)" (is "place_resolved ?as ?n = _")
proof (rule nth_equalityI)
  have fst: "map fst ?as = arrival" by (simp add: comp_def Let_def)
  have a: "set (map fst ?as) \<subseteq> {..<?n}" "distinct (map fst ?as)" unfolding fst using assms by simp_all
  show "length (place_resolved ?as ?n) = length (map (input_answer ch ps fetch) (inputs tx))" using place_at(1) [OF a] by simp
  fix i
  assume "i < length (place_resolved ?as ?n)"
  then have i: "i < ?n" using place_at(1) [OF a] by simp
  then have "(i, input_answer ch ps fetch (inputs tx ! i)) \<in> set ?as" using assms(2)
    by (force simp: input_answer_def Let_def)
  from place_at(2) [OF a this] show "place_resolved ?as ?n ! i = map (input_answer ch ps fetch) (inputs tx) ! i" using i by simp
qed

section \<open>What the view says\<close>

lemma added:
  "foldl add_resolved (t, m) rs = (foldl saturating_add t (map (snd \<circ> snd) (concat (map (\<lambda>r. case r of Some x \<Rightarrow> [x] | None \<Rightarrow> []) rs))),
     m \<or> None \<in> set rs)"
  by (induction rs arbitrary: t m) (auto simp: add_resolved_def split: option.splits)

lemma saturating_fold:
  "unat t + sum_list (map unat vs) < 2 ^ 64 \<Longrightarrow> unat (foldl saturating_add (t :: u64) vs) = unat t + sum_list (map unat vs)"
proof (induction vs arbitrary: t)
  case (Cons v vs)
  then have "unat (saturating_add t v) = unat t + unat v" by (simp add: saturating_add_fits)
  then show ?case using Cons by simp
qed simp

definition input_amount :: "chain \<Rightarrow> parser \<Rightarrow> (string \<Rightarrow> string res) \<Rightarrow> tx_input \<Rightarrow> u64 option" where
  "input_amount ch ps fetch inp = map_option (snd \<circ> snd) (input_answer ch ps fetch inp)"

lemma described_value: "di_value (describe_input ch k inp w r) = map_option (snd \<circ> snd) r"
  by (auto simp: describe_input_def Let_def split: option.splits)

lemma decode_parsed_eq:
  assumes "distinct arrival" "set arrival = {..<length (inputs tx)}"
    and "rs = map (input_answer ch ps fetch) (inputs tx)"
  shows "decode_parsed ch ps k fetch arrival tx n =
     (let total = foldl saturating_add 0 (map (snd \<circ> snd) (concat (map (\<lambda>r. case r of Some x \<Rightarrow> [x] | None \<Rightarrow> []) rs)));
          outs = map (decoded_output ch) (outputs tx); total_out = sum_list (map do_value outs)
      in \<lparr>dt_inputs = map (\<lambda>i. describe_input ch k (inputs tx ! i) (witnesses tx ! i) (rs ! i)) [0..<length (inputs tx)],
          dt_outputs = outs,
          dt_fee = (if None \<in> set rs then None else Some (saturating_sub total total_out)),
          dt_total_in = (if None \<in> set rs then None else Some total), dt_total_out = total_out, dt_size = n\<rparr>)"
  unfolding decode_parsed_def Let_def resolved_in_order [OF assms(1,2), unfolded Let_def] assms(3) [symmetric] added
  by simp

lemma output_value: "do_value (decoded_output ch out) = out_value out"
  by (simp add: decoded_output_def split: prod.splits)

lemma decoded_amounts:
  assumes "distinct arrival" "set arrival = {..<length (inputs tx)}"
  shows "map di_value (dt_inputs (decode_parsed ch ps k fetch arrival tx n)) = map (input_amount ch ps fetch) (inputs tx)"
  unfolding decode_parsed_eq [OF assms refl] Let_def
  by (rule nth_equalityI) (simp_all add: described_value input_amount_def)

lemma amounts_known:
  "map (input_amount ch ps fetch) is = map Some vs \<Longrightarrow> None \<notin> set (map (input_answer ch ps fetch) is)
    \<and> map (snd \<circ> snd) (concat (map (\<lambda>r. case r of Some x \<Rightarrow> [x] | None \<Rightarrow> []) (map (input_answer ch ps fetch) is))) = vs"
proof (induction "is" arbitrary: vs)
  case (Cons i "is")
  then obtain v us where v: "vs = v # us" "input_amount ch ps fetch i = Some v" "map (input_amount ch ps fetch) is = map Some us"
    by (cases vs) auto
  then show ?case using Cons.IH [OF v(3)] by (auto simp: input_amount_def)
qed simp

lemma amount_unknown: "None \<in> set (map (input_answer ch ps fetch) is) \<longleftrightarrow> None \<in> set (map (input_amount ch ps fetch) is)"
  by (induction "is") (auto simp: input_amount_def)

text \<open>The amounts of a decoded transaction are right or absent.  In whatever order the parents arrive, the view
  is the same; each input has the value that the node's copy of its parent gives it; total and fee are absent
  exactly when the value of some input is; and if all are known and their sum fits, the total is that sum and
  the fee is what the outputs leave of it.\<close>

theorem decoded_accounts:
  assumes "decode_with_inputs ch ps k fetch arrival tx_hex = Some (Inr d)"
    and "hex_decode ch tx_hex = Some raw" "parse_tx ps raw = Some tx"
    and "distinct arrival" "set arrival = {..<length (inputs tx)}"
  shows "map di_value (dt_inputs d) = map (input_amount ch ps fetch) (inputs tx)
    \<and> (dt_total_in d = None \<longleftrightarrow> None \<in> set (map di_value (dt_inputs d)))
    \<and> (dt_fee d = None \<longleftrightarrow> None \<in> set (map di_value (dt_inputs d)))
    \<and> (\<forall>vs. map di_value (dt_inputs d) = map Some vs \<and> sum_list (map unat vs) < 2 ^ 64
          \<and> sum_list (map (unat \<circ> out_value) (outputs tx)) \<le> sum_list (map unat vs)
        \<longrightarrow> (\<exists>t f. dt_total_in d = Some t \<and> dt_fee d = Some f \<and> unat t = sum_list (map unat vs)
              \<and> unat f + sum_list (map (unat \<circ> out_value) (outputs tx)) = unat t))
    \<and> (\<forall>later. distinct later \<and> set later = {..<length (inputs tx)} \<longrightarrow>
         decode_with_inputs ch ps k fetch later tx_hex = Some (Inr d))"
proof -
  have d: "d = decode_parsed ch ps k fetch arrival tx (length raw)"
    using assms(1-3) by (simp add: decode_with_inputs_def split: if_splits)
  note vals = decoded_amounts [OF assms(4,5), of ch ps k fetch "length raw", folded d]
    and eq = decode_parsed_eq [OF assms(4,5) refl, of ch ps k fetch "length raw", folded d, unfolded Let_def]
  have same: "decode_with_inputs ch ps k fetch later tx_hex = Some (Inr d)"
    if "distinct later" "set later = {..<length (inputs tx)}" for later
    using assms(1-3) decode_parsed_eq [OF that refl, of ch ps k fetch "length raw"] eq
    by (simp add: decode_with_inputs_def Let_def split: if_splits)
  have none: "dt_total_in d = None \<longleftrightarrow> None \<in> set (map di_value (dt_inputs d))"
    "dt_fee d = None \<longleftrightarrow> None \<in> set (map di_value (dt_inputs d))"
    unfolding vals amount_unknown [symmetric] by (simp_all add: eq del: set_map)
  have sums: "\<exists>t f. dt_total_in d = Some t \<and> dt_fee d = Some f \<and> unat t = sum_list (map unat vs)
      \<and> unat f + sum_list (map (unat \<circ> out_value) (outputs tx)) = unat t"
    if v: "map di_value (dt_inputs d) = map Some vs" "sum_list (map unat vs) < 2 ^ 64"
      "sum_list (map (unat \<circ> out_value) (outputs tx)) \<le> sum_list (map unat vs)" for vs
  proof -
    note known = amounts_known [OF v(1) [unfolded vals]]
    let ?t = "foldl saturating_add (0 :: u64) vs" and ?o = "sum_list (map do_value (map (decoded_output ch) (outputs tx)))"
    have t: "unat ?t = sum_list (map unat vs)" using saturating_fold [of 0 vs] v(2) by simp
    have "unat (sum_list (map out_value os)) = sum_list (map (unat \<circ> out_value) os)"
      if "sum_list (map (unat \<circ> out_value) os) < 2 ^ 64" for os :: "tx_output list"
      using that by (induction os) (simp_all add: unat_word_ariths)
    then have o': "unat ?o = sum_list (map (unat \<circ> out_value) (outputs tx))"
      using v(2,3) by (simp add: output_value comp_def)
    have "dt_total_in d = Some ?t" "dt_fee d = Some (saturating_sub ?t ?o)" using known by (simp_all add: eq)
    moreover have "unat (saturating_sub ?t ?o) + unat ?o = unat ?t" using v(3) t o' by (simp add: arith_simps)
    ultimately show ?thesis using t o' by simp
  qed
  show ?thesis using vals none sums same by blast
qed

definition two_coins :: transaction where
  "two_coins = \<lparr>inputs = [\<lparr>prev_tx_id = [2], prev_index = 0\<rparr>, \<lparr>prev_tx_id = [3], prev_index = 0\<rparr>],
     outputs = [plain_output 25 sample_secret], witnesses = replicate 2 placeholder_witness\<rparr>"

definition letter_chain :: chain where
  "letter_chain = sample_chain\<lparr>hex_encode := letters, hex_decode := unletters\<rparr>"

definition three_txs :: parser where
  "three_txs = \<lparr>parse_htlc = (\<lambda>_. None),
     parse_tx = (\<lambda>raw. if raw = [1] then Some two_coins
       else if raw = [2] then Some \<lparr>inputs = [], outputs = [plain_output 10 sample_secret], witnesses = []\<rparr>
       else Some \<lparr>inputs = [], outputs = [plain_output 20 [9]], witnesses = []\<rparr>)\<rparr>"

theorem decoded_accounts_witness:
  "\<exists>d. decode_with_inputs letter_chain three_txs sample_kit Inr [1, 0] (letters [1]) = Some (Inr d)
     \<and> dt_total_in d = Some 30 \<and> dt_fee d = Some 5"
proof -
  let ?d = "decode_parsed letter_chain three_txs sample_kit Inr [1, 0] two_coins 1"
  have raw: "hex_decode letter_chain (letters b) = Some b" for b by (simp add: letter_chain_def letters_spec)
  have d: "decode_with_inputs letter_chain three_txs sample_kit Inr [1, 0] (letters [1]) = Some (Inr ?d)"
    using raw [of "[1]"] by (simp add: decode_with_inputs_def three_txs_def del: letters.simps) (simp add: two_coins_def)
  have order: "distinct [1, 0 :: nat]" "set [1, 0] = {..<length (inputs two_coins)}" by (auto simp: two_coins_def)
  have p: "parse_tx three_txs [1] = Some two_coins" by (simp add: three_txs_def)
  note claim = decoded_accounts [OF d raw p order]
  have e: "hex_encode letter_chain = letters" by (simp add: letter_chain_def)
  have "map (input_amount letter_chain three_txs Inr) (inputs two_coins) = map Some [10, 20]"
    by (simp add: two_coins_def input_amount_def input_answer_def resolve_input_def e raw three_txs_def plain_output_def
        split: prod.splits del: letters.simps)
  with claim have "map di_value (dt_inputs ?d) = map Some [10, 20]" by (simp only:)
  then obtain t f where t: "dt_total_in ?d = Some t" "dt_fee ?d = Some f" "unat t = 30"
    "unat f + sum_list (map (unat \<circ> out_value) (outputs two_coins)) = unat t"
    using conjunct1 [OF conjunct2 [OF conjunct2 [OF conjunct2 [OF claim]]], THEN spec, of "[10, 20]"]
    by (auto simp: two_coins_def plain_output_def)
  then have "t = 30" "f = 5" by (simp_all add: two_coins_def plain_output_def word_unat_eq_iff)
  with t d show ?thesis by blast
qed

section \<open>A claim that looks like a payment\<close>

text \<open>A claim with a preimage of 20 bytes is shown as a payment by somebody else.  Its witness is as long as the
  witness of a plain payment, 96 bytes, so the view splits it into a public key and a signature, hides its raw
  bytes, and names as the spender the hash of bytes that are no key, although the output it spends is a script.\<close>

theorem claim_read_as_payment:
  assumes "value_layout cv" "length secret = 20" "length sg = 64"
    and "\<And>b. hex_decode ch (hex_encode ch b) = Some b"
    and "w = \<lparr>witness = claim_witness cv secret sg, redeemer = red\<rparr>"
  shows "di_address (describe_input ch k inp w (Some (None, Some code, v))) =
      Some (hex_encode ch (pubkey_hash k ([1, 0, 5, 20, 0, 0, 0] @ secret @ [5, 64, 0, 0, 0])))
    \<and> di_script_hex (describe_input ch k inp w (Some (None, Some code, v))) = Some code
    \<and> map_option dw_witness_hex (decode_witness ch w) = Some None"
proof -
  let ?pk = "[1, 0, 5, 20, 0, 0, 0] @ secret @ [5, 64, 0, 0, 0]"
  have n: "rev (be_of 4 20) = [20, 0, 0, 0]" "rev (be_of 4 64) = [64, 0, 0, 0]" by code_simp+
  have "claim_witness cv secret sg = ?pk @ sg"
    using assms(1) n by (simp add: claim_witness_def value_layout_def assms(2,3) value_tag_left_def value_tag_unit_def value_tag_bytes_def)
  moreover have "length ?pk = 32" "length (?pk @ sg) = 96" using assms(2,3) by simp_all
  ultimately have dw: "decode_witness ch w = Some \<lparr>dw_pubkey = Some (hex_encode ch ?pk), dw_signature = Some (hex_encode ch sg),
      dw_witness_hex = None, dw_redeemer_hex = map_option (hex_encode ch) red\<rparr>"
    by (simp add: decode_witness_def assms(5) phase1_witness_len_def Let_def)
  have "address_from_witness ch k (the (decode_witness ch w)) = Some (hex_encode ch (pubkey_hash k ?pk))"
    using \<open>length ?pk = 32\<close> by (simp add: dw address_from_witness_def assms(4) del: append.simps)
  then show ?thesis by (simp add: describe_input_def dw Let_def)
qed

theorem claim_read_as_payment_witness:
  "\<exists>a. di_address (describe_input letter_chain sample_kit \<lparr>prev_tx_id = [2], prev_index = 0\<rparr>
      \<lparr>witness = claim_witness sample_covenants (replicate 20 8) (replicate 64 7), redeemer = None\<rparr> (Some (None, Some ''s'', 1))) = Some a"
proof -
  have "hex_decode letter_chain (hex_encode letter_chain b) = Some b" for b by (simp add: letter_chain_def letters_spec)
  from claim_read_as_payment [OF sample_layout _ _ this refl] show ?thesis by (metis length_replicate)
qed

end
