(* ===== verification/ApiWallet.thy ===== *)
theory ApiWallet imports ApiSpend Upstream begin

text \<open>
  The methods of the API that keep the wallet (\<open>src/api/mod.rs\<close>): keys and vaults, the guarded deletion, addresses,
  the balance of the wallet, the availability of coins, and the release of claims.  A passphrase is its UTF-8
  bytes.  What a node is asked in the course of a call is a function of the address asked about.
\<close>

section \<open>Keys\<close>

text \<open>A blocking task on the keystore.\<close>

definition on_keys :: "'p site \<Rightarrow> 'a kop \<Rightarrow> wallet \<Rightarrow> wallet \<times> 'a res" where
  "on_keys si m w = (case m (st_host si) (wl_keys w) of (ks, r) \<Rightarrow> (w\<lparr>wl_keys := ks\<rparr>, r))"

definition generate_address_method :: "'p site \<Rightarrow> string option \<Rightarrow> wallet \<Rightarrow> wallet \<times> (string \<times> string \<times> u32) res" where
  "generate_address_method si lbl = on_keys si (create_derived (st_kit si) lbl)"

definition generate_independent_address_method ::
    "'p site \<Rightarrow> string option \<Rightarrow> wallet \<Rightarrow> wallet \<times> (string \<times> string) res" where
  "generate_independent_address_method si lbl = on_keys si (create_independent (st_kit si) lbl)"

definition generate_standard_address_method ::
    "'p site \<Rightarrow> string option \<Rightarrow> wallet \<Rightarrow> wallet \<times> (string \<times> string) res" where
  "generate_standard_address_method si lbl = on_keys si (create_standard (st_kit si) lbl)"

definition export_vault_method :: "'p site \<Rightarrow> bytes \<Rightarrow> wallet \<Rightarrow> wallet \<times> string res" where
  "export_vault_method si pass w =
     (case on_keys si (export_vault (st_kit si) pass) w of
        (w1, r) \<Rightarrow> (w1, bind_ok r (\<lambda>blob. Inr (hex_encode (st_chain si) blob))))"

definition import_vault_method :: "'p site \<Rightarrow> string \<Rightarrow> bytes \<Rightarrow> wallet \<Rightarrow> wallet \<times> string list res" where
  "import_vault_method si vault_hex pass w =
     (case hex_decode (st_chain si) vault_hex of
        None \<Rightarrow> (w, Inl (BadHex ''vault_hex''))
      | Some blob \<Rightarrow> on_keys si (import_vault (st_kit si) blob pass) w)"

definition list_addresses_method :: "'p site \<Rightarrow> wallet \<Rightarrow> wallet \<times> address_entry list res" where
  "list_addresses_method si = on_keys si list_entries"

definition import_private_key_method :: "'p site \<Rightarrow> string \<Rightarrow> string option \<Rightarrow> wallet \<Rightarrow> wallet \<times> string res" where
  "import_private_key_method si secret_hex lbl w =
     (if length secret_hex \<noteq> 64 then (w, Inl (BadParams ''import_private_key: secret_hex must be 64 hex chars''))
      else case hex_decode (st_chain si) secret_hex of
        None \<Rightarrow> (w, Inl (BadHex ''import_private_key secret_hex''))
      | Some secret \<Rightarrow> on_keys si (import_secret (st_kit si) secret lbl) w)"

definition export_address_method :: "'p site \<Rightarrow> string \<Rightarrow> bytes \<Rightarrow> wallet \<Rightarrow> wallet \<times> (string \<times> string) res" where
  "export_address_method si addr pass w =
     (case ensure_64_hex addr of
        Inl e \<Rightarrow> (w, Inl e)
      | Inr _ \<Rightarrow>
          (case on_keys si (export_selected (st_kit si) [lower addr] pass) w of
             (w1, r) \<Rightarrow> (w1, bind_ok r (\<lambda>blob. Inr (lower addr, hex_encode (st_chain si) blob)))))"

definition import_mnemonic_method :: "'p site \<Rightarrow> string \<Rightarrow> string option \<Rightarrow> wallet \<Rightarrow> wallet \<times> string res" where
  "import_mnemonic_method si phrase lbl = on_keys si (import_mnemonic (st_kit si) phrase lbl)"

definition import_standard_mnemonic_method :: "'p site \<Rightarrow> string \<Rightarrow> string option \<Rightarrow> wallet \<Rightarrow> wallet \<times> string res" where
  "import_standard_mnemonic_method si phrase lbl = on_keys si (import_standard_mnemonic (st_kit si) phrase lbl)"

definition reveal_mnemonic_method :: "'p site \<Rightarrow> bytes \<Rightarrow> wallet \<Rightarrow> wallet \<times> string list res" where
  "reveal_mnemonic_method si pass = on_keys si (reveal_mnemonic (st_kit si) pass)"

definition reveal_private_key_method :: "'p site \<Rightarrow> string \<Rightarrow> bytes \<Rightarrow> wallet \<Rightarrow> wallet \<times> (string \<times> string) res" where
  "reveal_private_key_method si addr pass w =
     (case ensure_64_hex addr of
        Inl e \<Rightarrow> (w, Inl e)
      | Inr _ \<Rightarrow>
          (case on_keys si (reveal_secret (st_kit si) (lower addr) pass) w of
             (w1, r) \<Rightarrow> (w1, bind_ok r (\<lambda>secret. Inr (lower addr, hex_encode (st_chain si) secret)))))"

definition reveal_evm_private_key_method :: "'p site \<Rightarrow> bytes \<Rightarrow> wallet \<Rightarrow> wallet \<times> (string \<times> string) res" where
  "reveal_evm_private_key_method si pass w =
     (case on_keys si (reveal_evm_secret (st_kit si) pass) w of
        (w1, Inl e) \<Rightarrow> (w1, Inl e)
      | (w1, Inr secret) \<Rightarrow>
          (w1, bind_ok (evm_address_text (st_kit si) secret) (\<lambda>addr. Inr (addr, ''0x'' @ hex_encode (st_chain si) secret))))"

definition reveal_address_mnemonic_method :: "'p site \<Rightarrow> string \<Rightarrow> bytes \<Rightarrow> wallet \<Rightarrow> wallet \<times> (string \<times> string list) res" where
  "reveal_address_mnemonic_method si addr pass w =
     (case ensure_64_hex addr of
        Inl e \<Rightarrow> (w, Inl e)
      | Inr _ \<Rightarrow>
          (case on_keys si (reveal_address_mnemonic (st_kit si) (lower addr) pass) w of
             (w1, r) \<Rightarrow> (w1, bind_ok r (\<lambda>words. Inr (lower addr, words)))))"

section \<open>Deletion\<close>

record delete_params =
  dp_address :: string
  dp_passphrase :: bytes
  dp_force :: bool

text \<open>How the answer of the pool is read: a missing or ill-typed member counts as nothing.\<close>

definition owns_shares :: "json \<Rightarrow> bool" where
  "owns_shares pos =
     (let has = (case jget pos ''has_position'' of Some (JBool b) \<Rightarrow> b | _ \<Rightarrow> False);
          shares = (case Option.bind (jget pos ''shares'') as_str of Some s \<Rightarrow> s | None \<Rightarrow> ''0'')
      in has \<or> (shares \<noteq> ''0'' \<and> shares \<noteq> []))"

definition balance_guard :: "(string \<Rightarrow> u64 res) \<Rightarrow> string \<Rightarrow> unit res" where
  "balance_guard balance addr =
     (case balance addr of
        Inr b \<Rightarrow> if b > 0 then Inl (BadParams ''address still holds exfers'') else Inr ()
      | Inl _ \<Rightarrow> Inl (BadParams ''could not verify the balance''))"

definition pool_guard :: "(string \<Rightarrow> json res) option \<Rightarrow> string \<Rightarrow> unit res" where
  "pool_guard lp addr =
     (case lp of
        None \<Rightarrow> Inr ()
      | Some ask_pool \<Rightarrow>
          (case ask_pool addr of
             Inr pos \<Rightarrow> if owns_shares pos then Inl (BadParams ''address still owns liquidity-pool shares'') else Inr ()
           | Inl _ \<Rightarrow> Inl (BadParams ''could not verify the liquidity-pool position'')))"

definition delete_address_method ::
    "'p site \<Rightarrow> (string \<Rightarrow> u64 res) \<Rightarrow> (string \<Rightarrow> json res) option \<Rightarrow> delete_params \<Rightarrow> wallet \<Rightarrow> wallet \<times> string res" where
  "delete_address_method si balance lp p w =
     (let addr = lower (dp_address p) in
      case bind_ok (ensure_64_hex (dp_address p)) (\<lambda>_.
           if dp_force p then Inr ()
           else bind_ok (balance_guard balance addr) (\<lambda>_. pool_guard lp addr)) of
        Inl e \<Rightarrow> (w, Inl e)
      | Inr _ \<Rightarrow>
          (case on_keys si (delete_address (st_kit si) addr (dp_passphrase p)) w of
             (w1, r) \<Rightarrow> (w1, bind_ok r (\<lambda>_. Inr addr))))"

section \<open>Addresses and raw data\<close>

text \<open>The white space that \<open>trim\<close> removes, as UTF-8.\<close>

definition white_space :: "bytes list" where
  "white_space = map (\<lambda>b. [b]) [9, 10, 11, 12, 13, 32] @ [[0xC2, 0x85], [0xC2, 0xA0], [0xE1, 0x9A, 0x80]]
     @ map (\<lambda>n. [0xE2, 0x80, word_of_nat (128 + n)]) ([0..<11] @ [40, 41, 47]) @ [[0xE2, 0x81, 0x9F], [0xE3, 0x80, 0x80]]"

definition white_texts :: "string list" where
  "white_texts = map (map (\<lambda>b. char_of (unat b))) white_space"

fun trim_start :: "nat \<Rightarrow> string list \<Rightarrow> string \<Rightarrow> string" where
  "trim_start 0 ws s = s"
| "trim_start (Suc n) ws s =
     (case find (\<lambda>u. take (length u) s = u) ws of Some u \<Rightarrow> trim_start n ws (drop (length u) s) | None \<Rightarrow> s)"

definition str_trim :: "string \<Rightarrow> string" where
  "str_trim s =
     (let t = trim_start (length s) white_texts s
      in rev (trim_start (length t) (map rev white_texts) (rev t)))"

definition validate_address :: "'p site \<Rightarrow> string \<Rightarrow> bool \<times> string option" where
  "validate_address si s =
     (case parse_address si (str_trim s) of Inr b \<Rightarrow> (True, Some (hex_encode (st_chain si) b)) | Inl _ \<Rightarrow> (False, None))"

definition ensure_hex :: "string \<Rightarrow> unit res" where
  "ensure_hex s =
     (if length s mod 2 \<noteq> 0 then Inl (BadHex ''odd-length hex'')
      else if \<not> list_all is_hex_char s then Inl (BadHex ''non-hex character'')
      else Inr ())"

text \<open>Reads that only check their argument and pass the typed answer on.\<close>

definition get_block_by_id_method :: "(string \<Rightarrow> 'b res) \<Rightarrow> string \<Rightarrow> 'b res" where
  "get_block_by_id_method fetch block_id = bind_ok (ensure_64_hex block_id) (\<lambda>_. fetch block_id)"

definition get_block_id_at_height_method :: "(u64 \<Rightarrow> (u64 \<times> string \<times> 'b) res) \<Rightarrow> u64 \<Rightarrow> (u64 \<times> string) res" where
  "get_block_id_at_height_method fetch h = bind_ok (fetch h) (\<lambda>(height, block_id, _). Inr (height, block_id))"

definition by_address_method :: "'p site \<Rightarrow> (string \<Rightarrow> 'b res) \<Rightarrow> string \<Rightarrow> 'b res" where
  "by_address_method si fetch s = bind_ok (parse_address_hex si s) (\<lambda>(addr, _). fetch addr)"

definition by_hex_method :: "(string \<Rightarrow> 'b res) \<Rightarrow> string \<Rightarrow> 'b res" where
  "by_hex_method fetch s = bind_ok (ensure_hex s) (\<lambda>_. fetch s)"

definition proxy_to_indexer :: "(string \<Rightarrow> json \<Rightarrow> json res) option \<Rightarrow> string \<Rightarrow> json \<Rightarrow> json res" where
  "proxy_to_indexer indexer m p = (case indexer of Some f \<Rightarrow> f m p | None \<Rightarrow> Inl IndexerNotConfigured)"

section \<open>Availability of coins\<close>

record utxo_row = utxo_entry +
  row_height :: u64
  row_coinbase :: bool

datatype utxo_status = Immature | Reserved | Spending | Available

text \<open>\<open>maturity\<close> is \<open>COINBASE_MATURITY\<close> of the crate.\<close>

definition classify_utxo_status :: "u64 \<Rightarrow> bool \<Rightarrow> u64 \<Rightarrow> u64 \<Rightarrow> bool \<Rightarrow> bool \<Rightarrow> utxo_status" where
  "classify_utxo_status maturity coinbase height tip is_reserved is_spending =
     (if coinbase \<and> saturating_sub tip height < maturity then Immature
      else if is_reserved then Reserved
      else if is_spending then Spending
      else Available)"

record utxo_listing =
  ul_tip :: u64
  ul_rows :: "utxo_row list"

record annotated_listing =
  al_rows :: "(utxo_row \<times> utxo_status) list"
  al_available_value :: u64
  al_status_supported :: bool

text \<open>\<open>mempool\<close>: the outpoints spent by each unconfirmed transaction of the address.\<close>

definition annotate_utxo_status ::
    "chain \<Rightarrow> u64 \<Rightarrow> nat \<Rightarrow> (string \<times> u32) list list option res \<Rightarrow> utxo_listing \<Rightarrow> claims \<Rightarrow>
     claims \<times> annotated_listing res" where
  "annotate_utxo_status ch maturity now mempool out cs =
     (case pending_ops now cs of
        (cs1, ops) \<Rightarrow>
          (cs1, bind_ok mempool (\<lambda>m.
             let claimed = map (\<lambda>op. (hex_encode ch (op_tx_id op), output_index op)) ops;
                 spent = (case m of Some txs \<Rightarrow> concat txs | None \<Rightarrow> []);
                 tag = (\<lambda>r. classify_utxo_status maturity (row_coinbase r) (row_height r) (ul_tip out)
                          ((utxo_tx_id r, utxo_index r) \<in> set claimed) ((utxo_tx_id r, utxo_index r) \<in> set spent));
                 tagged = map (\<lambda>r. (r, tag r)) (ul_rows out)
             in Inr \<lparr>al_rows = tagged,
                     al_available_value = sum_list (map (utxo_value \<circ> fst) (filter (\<lambda>(_, s). s = Available) tagged)),
                     al_status_supported = (m \<noteq> None)\<rparr>)))"

section \<open>The balance of the wallet\<close>

record balance_node =
  bn_balance :: "string \<Rightarrow> u64 res"
  bn_balances :: "string list \<Rightarrow> (string \<times> u64) list res"
  bn_utxos :: "string \<Rightarrow> (nat \<times> bool) res"
  bn_utxos_batch :: "string list \<Rightarrow> (string \<times> nat \<times> bool) list res"
  bn_mempool :: "string \<Rightarrow> mempool_entry list res"
  bn_mempool_batch :: "string list \<Rightarrow> (string \<times> mempool_entry list) list res"

record balance_params =
  bp_utxos :: bool
  bp_pending :: bool
  bp_addresses :: "string list option"

record balance_row =
  br_entry :: address_entry
  br_balance :: u64
  br_utxo :: "(nat \<times> bool) option"
  br_pending :: "(u64 \<times> u64) option"

record pending_totals =
  pt_received :: u64
  pt_spent :: u64
  pt_projected :: u64

record wallet_balance =
  wb_entries :: "balance_row list"
  wb_total :: u64
  wb_pending_supported :: "bool option"
  wb_pending :: "pending_totals option"

text \<open>\<open>collect\<close> into a hash map: of two entries for a key the later one stays.\<close>

definition collected :: "('k \<times> 'v) list \<Rightarrow> 'k \<Rightarrow> 'v option" where
  "collected ps = map_of (rev ps)"

definition fan_out :: "(string \<Rightarrow> 'v res) \<Rightarrow> string list \<Rightarrow> (string \<times> 'v) list res" where
  "fan_out f addrs = map_ok (\<lambda>a. bind_ok (f a) (\<lambda>v. Inr (a, v))) addrs"

text \<open>One batched call; a node that lacks the method is asked address by address.\<close>

definition batched ::
    "(string list \<Rightarrow> (string \<times> 'v) list res) \<Rightarrow> (string \<Rightarrow> 'v res) \<Rightarrow> string list \<Rightarrow> (string \<Rightarrow> 'v option) res" where
  "batched batch one addrs =
     (if addrs = [] then Inr (\<lambda>_. None)
      else bind_ok (tolerant (batch addrs)) (\<lambda>b. case b of
             Some ps \<Rightarrow> Inr (collected ps)
           | None \<Rightarrow> bind_ok (fan_out one addrs) (\<lambda>ps. Inr (collected ps))))"

definition pending_pair :: "mempool_entry list \<Rightarrow> u64 \<times> u64" where
  "pending_pair txs = (pending_received txs, pending_spent txs)"

definition pending_map ::
    "balance_node \<Rightarrow> balance_params \<Rightarrow> string list \<Rightarrow> (string \<Rightarrow> (u64 \<times> u64) option) option res" where
  "pending_map nd p addrs =
     (if \<not> bp_pending p \<or> addrs = [] then Inr None
      else bind_ok (tolerant (bn_mempool_batch nd addrs)) (\<lambda>b.
             Inr (map_option (\<lambda>es. collected (map (\<lambda>(a, txs). (lower a, pending_pair txs)) es)) b)))"

definition pending_of ::
    "balance_node \<Rightarrow> (string \<Rightarrow> (u64 \<times> u64) option) option \<Rightarrow> string \<Rightarrow> (u64 \<times> u64) option res" where
  "pending_of nd pmap addr =
     (case pmap of
        Some m \<Rightarrow> Inr (m (lower addr))
      | None \<Rightarrow> bind_ok (tolerant (bn_mempool nd addr)) (\<lambda>r. Inr (map_option pending_pair r)))"

definition balance_row_of ::
    "balance_node \<Rightarrow> balance_params \<Rightarrow> (string \<Rightarrow> u64 option) \<Rightarrow> (string \<Rightarrow> (nat \<times> bool) option) \<Rightarrow>
     (string \<Rightarrow> (u64 \<times> u64) option) option \<Rightarrow> address_entry \<Rightarrow> balance_row res" where
  "balance_row_of nd p balances utxo_info pmap e =
     bind_ok (if bp_pending p then pending_of nd pmap (entry_address e) else Inr None) (\<lambda>pend.
     Inr \<lparr>br_entry = e, br_balance = (case balances (entry_address e) of Some b \<Rightarrow> b | None \<Rightarrow> 0),
          br_utxo = (if bp_utxos p then utxo_info (entry_address e) else None), br_pending = pend\<rparr>)"

text \<open>A stable sort: derived addresses by index, then the others by address.\<close>

definition sort_rows :: "balance_row list \<Rightarrow> balance_row list" where
  "sort_rows rows =
     sort_key (\<lambda>r. the (entry_index (br_entry r))) (filter (\<lambda>r. entry_index (br_entry r) \<noteq> None) rows)
     @ sort_key (\<lambda>r. entry_address (br_entry r)) (filter (\<lambda>r. entry_index (br_entry r) = None) rows)"

definition wallet_totals :: "balance_params \<Rightarrow> balance_row list \<Rightarrow> wallet_balance" where
  "wallet_totals p rows =
     (let total = sum_list (map br_balance rows);
          supported = list_all (\<lambda>r. br_pending r \<noteq> None) rows;
          received = sum_list (map (\<lambda>r. case br_pending r of Some (x, _) \<Rightarrow> x | None \<Rightarrow> 0) rows);
          spent = sum_list (map (\<lambda>r. case br_pending r of Some (_, y) \<Rightarrow> y | None \<Rightarrow> 0) rows)
      in \<lparr>wb_entries = rows, wb_total = total,
          wb_pending_supported = (if bp_pending p then Some supported else None),
          wb_pending = (if bp_pending p \<and> supported
            then Some \<lparr>pt_received = received, pt_spent = spent,
                       pt_projected = saturating_sub (saturating_add total received) spent\<rparr>
            else None)\<rparr>)"

definition wanted_entries :: "balance_params \<Rightarrow> address_entry list \<Rightarrow> address_entry list" where
  "wanted_entries p es =
     (case bp_addresses p of
        None \<Rightarrow> es
      | Some wanted \<Rightarrow> filter (\<lambda>e. lower (entry_address e) \<in> set (map lower wanted)) es)"

text \<open>The rows are made concurrently: \<open>arrive\<close> is the order in which they are done.\<close>

definition gather_balance ::
    "balance_node \<Rightarrow> (address_entry list \<Rightarrow> address_entry list) \<Rightarrow> balance_params \<Rightarrow> address_entry list \<Rightarrow> wallet_balance res" where
  "gather_balance nd arrive p listed =
     (let entries = wanted_entries p listed; addrs = map entry_address entries in
      bind_ok (batched (bn_balances nd) (bn_balance nd) addrs) (\<lambda>balances.
      bind_ok (if bp_utxos p then batched (bn_utxos_batch nd) (bn_utxos nd) addrs else Inr (\<lambda>_. None)) (\<lambda>utxo_info.
      bind_ok (pending_map nd p addrs) (\<lambda>pmap.
      bind_ok (map_ok (balance_row_of nd p balances utxo_info pmap) (arrive entries)) (\<lambda>rows.
      Inr (wallet_totals p (sort_rows rows)))))))"

definition get_wallet_balance ::
    "'p site \<Rightarrow> balance_node \<Rightarrow> (address_entry list \<Rightarrow> address_entry list) \<Rightarrow> balance_params \<Rightarrow> wallet \<Rightarrow> wallet \<times> wallet_balance res" where
  "get_wallet_balance si nd arrive p w =
     (case on_keys si list_entries w of (w1, r) \<Rightarrow> (w1, bind_ok r (gather_balance nd arrive p)))"

section \<open>Status, and claims given up\<close>

record daemon_status =
  ds_tip :: "(string \<times> u64) option"
  ds_upstream_ok :: bool
  ds_upstream_nodes :: "string list"
  ds_wallet_count :: nat
  ds_in_flight_utxos :: nat
  ds_in_flight_transfers :: nat

definition get_status :: "'p site \<Rightarrow> (string \<times> u64) res \<Rightarrow> string list \<Rightarrow> nat \<Rightarrow> wallet \<Rightarrow> wallet \<times> daemon_status res" where
  "get_status si tip nodes now w =
     (case on_keys si list_entries w of
        (w1, Inl e) \<Rightarrow> (w1, Inl e)
      | (w1, Inr es) \<Rightarrow>
          (case claims_len now (wl_claims w1) of
             (cs, n) \<Rightarrow>
          (case cache_len now (wl_cache w1) of
             (slots, running) \<Rightarrow>
               (w1\<lparr>wl_claims := cs, wl_cache := slots\<rparr>,
                Inr \<lparr>ds_tip = (case tip of Inr t \<Rightarrow> Some t | Inl _ \<Rightarrow> None), ds_upstream_ok = (case tip of Inr _ \<Rightarrow> True | Inl _ \<Rightarrow> False),
                     ds_upstream_nodes = nodes, ds_wallet_count = length es, ds_in_flight_utxos = n,
                     ds_in_flight_transfers = running\<rparr>))))"

definition read_outpoint :: "chain \<Rightarrow> string \<times> u32 \<Rightarrow> outpoint res" where
  "read_outpoint ch o' =
     bind_ok (ensure_64_hex (fst o')) (\<lambda>_.
     bind_ok (ok_or (BadHex '''') (hex_decode ch (fst o'))) (\<lambda>b. Inr (OutPoint b (snd o'))))"

text \<open>The numbers of claims released and left; \<open>t0\<close> and \<open>t1\<close> are the times of the two counts.\<close>

definition abandon_transfer ::
    "chain \<Rightarrow> nat \<Rightarrow> nat \<Rightarrow> (string \<times> u32) list \<Rightarrow> claims \<Rightarrow> claims \<times> (nat \<times> nat) res" where
  "abandon_transfer ch t0 t1 ops cs =
     (if ops = [] then (cs, Inl (BadParams ''abandon_transfer: outpoints[] must not be empty''))
      else case claims_len t0 cs of
        (cs1, n0) \<Rightarrow>
          (case map_ok (read_outpoint ch) ops of
             Inl e \<Rightarrow> (cs1, Inl e)
           | Inr converted \<Rightarrow>
               (case claims_len t1 (release converted cs1) of (cs2, n1) \<Rightarrow> (cs2, Inr (n0 - n1, n1)))))"

end
