(* ===== verification/HexSample.thy ===== *)
theory HexSample imports ApiRuns begin

text \<open>
  A daemon whose libraries read and write lower-case hex, with one imported key: the statements about methods
  that insist on hex are applied to it.
\<close>

section \<open>Hex\<close>

definition hex_digit :: "nat \<Rightarrow> char" where
  "hex_digit n = char_of (if n < 10 then 48 + n else 87 + n)"

definition digit_value :: "char \<Rightarrow> nat option" where
  "digit_value c = (let n = of_char c in
     if 48 \<le> n \<and> n \<le> 57 then Some (n - 48) else if 97 \<le> n \<and> n \<le> 102 then Some (n - 87) else None)"

fun hexes :: "bytes \<Rightarrow> string" where
  "hexes [] = []"
| "hexes (b # bs) = hex_digit (unat b div 16) # hex_digit (unat b mod 16) # hexes bs"

fun unhexes :: "string \<Rightarrow> bytes option" where
  "unhexes [] = Some []"
| "unhexes [c] = None"
| "unhexes (c # d # cs) =
     (case (digit_value c, digit_value d, unhexes cs) of
        (Some x, Some y, Some bs) \<Rightarrow> Some (word_of_nat (x * 16 + y) # bs)
      | _ \<Rightarrow> None)"

lemma hex_digit:
  assumes "n < 16"
  shows "digit_value (hex_digit n) = Some n" "is_hex_char (hex_digit n)" "lower [hex_digit n] = [hex_digit n]"
proof -
  have m: "(48 + n) mod 256 = 48 + n" "(87 + n) mod 256 = 87 + n" using assms by simp_all
  show "digit_value (hex_digit n) = Some n" "is_hex_char (hex_digit n)" "lower [hex_digit n] = [hex_digit n]"
    using assms by (auto simp: hex_digit_def digit_value_def is_hex_char_def lower_def Let_def m)
qed

lemma hexes_spec:
  "lower (hexes b) = hexes b" "length (hexes b) = 2 * length b" "unhexes (hexes b) = Some b" "list_all is_hex_char (hexes b)"
proof -
  have small: "unat x div 16 < 16" "unat x mod 16 < 16" for x :: u8 using word_unat_less [of x] by simp_all
  note d = hex_digit [OF small(1)] hex_digit [OF small(2)]
  have "lower (hex_digit (unat x div 16) # hex_digit (unat x mod 16) # s) = hex_digit (unat x div 16) # hex_digit (unat x mod 16) # lower s"
    for x :: u8 and s using d(3) [of x] d(6) [of x] by (simp add: lower_def)
  then show "lower (hexes b) = hexes b" by (induction b) (simp_all, simp add: lower_def)
  show "length (hexes b) = 2 * length b" "list_all is_hex_char (hexes b)" by (induction b) (simp_all add: d)
  have "word_of_nat (unat x div 16 * 16 + unat x mod 16) = x" for x :: u8 by (simp add: div_mult_mod_eq)
  then show "unhexes (hexes b) = Some b" by (induction b) (simp_all add: d)
qed

section \<open>The daemon\<close>

definition hex_kit :: kit where
  "hex_kit = sample_kit\<lparr>hex_of_bytes := hexes, bytes_of_hex := unhexes\<rparr>"

definition parse_hex_address :: "string \<Rightarrow> bytes option" where
  "parse_hex_address s = (case unhexes s of Some b \<Rightarrow> if length b = 32 then Some b else None | None \<Rightarrow> None)"

definition hex_site :: "unit site" where
  "hex_site = (api_site (Inr []))\<lparr>st_kit := hex_kit, st_chain := sample_chain\<lparr>hex_encode := hexes, hex_decode := unhexes\<rparr>,
     parse_any := parse_hex_address\<rparr>"

lemma hex_site_simps [simp]:
  "st_kit hex_site = hex_kit" "st_host hex_site = quiet_host" "hex_encode (st_chain hex_site) = hexes"
  "hex_decode (st_chain hex_site) = unhexes" "parse_any hex_site = parse_hex_address"
  by (simp_all add: hex_site_def api_site_def)

definition hex_name :: string where "hex_name = hexes sample_secret"

lemma hex_address: "length x = 32 \<Longrightarrow> own_address hex_kit x = hexes x"
  by (simp add: own_address_def address_hex_def key_from_secret_def hex_kit_def sample_kit_def fixed32)

lemma hex_kit_ok: "kit_ok hex_kit"
proof -
  have "own_address hex_kit x = own_address hex_kit y \<Longrightarrow> x = y" if "length x = 32" "length y = 32" for x y
    using that hexes_spec(3) by (metis hex_address option.inject)
  moreover have "cipher hex_kit = sample_aead" "slip10 hex_kit sd p = fixed32 (u32_to_be (last p) @ sd)"
    "sha256_of hex_kit m = fixed32 m" "pubkey_hash hex_kit m = fixed32 m" "hex_of_bytes hex_kit m = hexes m"
    "bytes_of_hex hex_kit h = unhexes h" for sd p m h
    by (simp_all add: hex_kit_def sample_kit_def)
  ultimately show ?thesis
    using sample_aead_ok hexes_spec fixed32(1) by (simp add: kit_ok_def)
qed

lemma singleton_list:
  assumes "distinct xs" "set xs = {x}"
  shows "xs = [x]"
proof (cases xs)
  case (Cons y ys)
  then have "y = x" "set ys \<subseteq> {x}" "x \<notin> set ys" using assms by auto
  then have "set ys = {}" by (metis insertI1 subset_singletonD)
  then show ?thesis using Cons \<open>y = x\<close> by simp
qed (use assms(2) in simp)

definition hex_keys :: keystore where
  "hex_keys = fst (import_secret hex_kit sample_secret None quiet_host (empty_store [112]))"

lemma hex_keys:
  "well_kept hex_kit hex_keys" "imported (memory hex_keys) = [hex_name]" "derived (memory hex_keys) = []"
  "passwd hex_keys = [112]" "seed64 hex_keys = None"
proof -
  have l: "length sample_secret = 32" by (simp add: sample_secret_def)
  have name: "own_address hex_kit sample_secret = hex_name" using l by (simp add: hex_address hex_name_def)
  have "snd (import_secret hex_kit sample_secret None quiet_host (empty_store [112])) = Inr (own_address hex_kit sample_secret)"
    using import_succeeds [OF hex_kit_ok quiet_host_ok(1), of "empty_store [112]" sample_secret None]
    by (simp add: kwp_run steady_def quiet_host_ok(2) empty_store_def managed_def default_state_def)
  then have i: "import_secret hex_kit sample_secret None quiet_host (empty_store [112]) = (hex_keys, Inr hex_name)"
    by (simp add: hex_keys_def prod_eq_iff name)
  have k: "kept_to hex_kit {} (empty_store [112]) hex_keys \<and> (\<forall>b. managed (memory hex_keys) b \<longleftrightarrow> b = hex_name)"
    using import_post [OF hex_kit_ok quiet_host_ok(1) empty_store_kept [of _ "[112]"] l, of None, unfolded kwp_def i]
    by (simp add: name) (simp add: empty_store_def managed_def default_state_def)
  then show w: "well_kept hex_kit hex_keys" and "passwd hex_keys = [112]" and s: "seed64 hex_keys = None"
    by (simp_all add: kept_to_def empty_store_def)
  have b: "backed hex_kit hex_keys (memory hex_keys)" using w by (simp add: well_kept_def)
  have "map_of (derived (memory hex_keys)) a = None" for a
    using key_backedD(1) [OF b, of a] s by (cases "map_of (derived (memory hex_keys)) a") auto
  then have "map_of (derived (memory hex_keys)) = Map.empty" by (rule ext)
  then show d: "derived (memory hex_keys) = []" by (simp only: map_of_eq_empty_iff)
  have "set (imported (memory hex_keys)) = {hex_name}" using k d by (auto simp: managed_def)
  moreover have "distinct (imported (memory hex_keys))" using b by (simp add: backed_def)
  ultimately show "imported (memory hex_keys) = [hex_name]"
    by (rule singleton_list [rotated])
qed

definition hex_wallet :: wallet where
  "hex_wallet = api_wallet\<lparr>wl_keys := hex_keys\<rparr>"

lemma hex_name_ok: "ensure_64_hex hex_name = Inr ()" "lower hex_name = hex_name" "length hex_name = 64"
  using hexes_spec [of sample_secret] by (simp_all add: ensure_64_hex_def hex_name_def sample_secret_def)

end
