(* ===== verification/ApiWalletRules.thy ===== *)
theory ApiWalletRules imports ApiWallet HexSample "HOL-Library.Multiset" begin

text \<open>
  What the methods of the wallet promise: what a deletion has checked, that a balance is the same from old and
  new nodes, the canonical form of addresses, the availability of coins and the release of claims.
\<close>

section \<open>Deletion\<close>

lemma lower_again: "lower (lower s) = lower s"
  by (auto simp: lower_def Let_def)

lemma delete_needs_passphrase:
  assumes "kit_ok k" "well_kept k s" "q \<noteq> passwd s" "managed (memory s) a"
  shows "memory (fst (delete_address k b q h s)) = memory s"
proof -
  have "seed64 s \<noteq> None \<or> imported (memory s) \<noteq> []"
    using assms(2,4) key_backedD(1) by (fastforce simp: managed_def well_kept_def)
  from verify_refused [OF assms(1-3) this]
  have "kwp (delete_address k b q) h s (refused s)"
    unfolding delete_address_def Let_def by (rule refused_seq)
  then obtain n where "fst (delete_address k b q h s) = s\<lparr>ticks := n\<rparr>" by (auto simp: kwp_run refused_def)
  then show ?thesis by simp
qed


section \<open>Balances\<close>

text \<open>Two nodes with the same data: one answers in batches, the other does not know the batched methods.\<close>

definition modern_node :: "(string \<Rightarrow> u64) \<Rightarrow> (string \<Rightarrow> nat \<times> bool) \<Rightarrow> (string \<Rightarrow> mempool_entry list) \<Rightarrow> balance_node" where
  "modern_node b u m = \<lparr>bn_balance = (\<lambda>a. Inr (b a)), bn_balances = (\<lambda>as. Inr (map (\<lambda>a. (a, b a)) as)),
     bn_utxos = (\<lambda>a. Inr (u a)), bn_utxos_batch = (\<lambda>as. Inr (map (\<lambda>a. (a, u a)) as)),
     bn_mempool = (\<lambda>a. Inr (m a)), bn_mempool_batch = (\<lambda>as. Inr (map (\<lambda>a. (a, m a)) as))\<rparr>"

definition legacy_node :: "(string \<Rightarrow> u64) \<Rightarrow> (string \<Rightarrow> nat \<times> bool) \<Rightarrow> (string \<Rightarrow> mempool_entry list) \<Rightarrow> balance_node" where
  "legacy_node b u m = (modern_node b u m)\<lparr>bn_balances := (\<lambda>_. Inl (UpstreamRpc (- 32601) [])),
     bn_utxos_batch := (\<lambda>_. Inl (UpstreamRpc (- 32601) [])), bn_mempool_batch := (\<lambda>_. Inl (UpstreamRpc (- 32601) []))\<rparr>"

definition listed_well :: "address_entry list \<Rightarrow> bool" where
  "listed_well es \<longleftrightarrow> distinct (map entry_index (filter (\<lambda>e. entry_index e \<noteq> None) es))
     \<and> distinct (map entry_address (filter (\<lambda>e. entry_index e = None) es)) \<and> (\<forall>e \<in> set es. lower (entry_address e) = entry_address e)"

definition plain_row ::
    "(string \<Rightarrow> u64) \<Rightarrow> (string \<Rightarrow> nat \<times> bool) \<Rightarrow> (string \<Rightarrow> mempool_entry list) \<Rightarrow> balance_params \<Rightarrow> address_entry \<Rightarrow> balance_row" where
  "plain_row b u m p e = \<lparr>br_entry = e, br_balance = b (entry_address e),
     br_utxo = (if bp_utxos p then Some (u (entry_address e)) else None),
     br_pending = (if bp_pending p then Some (pending_pair (m (entry_address e))) else None)\<rparr>"

lemma collected_graph: "collected (map (\<lambda>a. (a, f a)) as) a = (if a \<in> set as then Some (f a) else None)"
  by (simp add: collected_def rev_map map_of_map_restrict restrict_map_def)

lemma fan_out_total: "fan_out (\<lambda>a. Inr (f a)) as = Inr (map (\<lambda>a. (a, f a)) as)"
  by (induction as) (simp_all add: fan_out_def)

lemma batched_graph:
  "batched (\<lambda>as. Inr (map (\<lambda>a. (a, f a)) as)) one as = Inr (\<lambda>a. if a \<in> set as then Some (f a) else None)"
  "batched (\<lambda>_. Inl (UpstreamRpc (- 32601) [])) (\<lambda>a. Inr (f a)) as = Inr (\<lambda>a. if a \<in> set as then Some (f a) else None)"
  by (auto simp: batched_def tolerant_def collected_graph fan_out_total fun_eq_iff)

lemma map_ok_pure: "(\<And>x. x \<in> set xs \<Longrightarrow> f x = Inr (g x)) \<Longrightarrow> map_ok f xs = Inr (map g xs)"
  by (induction xs) simp_all

lemma pending_lookup:
  assumes "\<forall>a \<in> set as. lower a = a" "a \<in> set as"
  shows "collected (map (\<lambda>(a, txs). (lower a, pending_pair txs)) (map (\<lambda>a. (a, m a)) as)) (lower a) = Some (pending_pair (m a))"
proof -
  have "map (\<lambda>(a, txs). (lower a, pending_pair txs)) (map (\<lambda>a. (a, m a)) as) = map (\<lambda>a. (a, pending_pair (m a))) as"
    using assms(1) by simp
  then show ?thesis using assms by (simp only: collected_graph) simp
qed

lemma pending_answers:
  assumes "nd = modern_node b u m \<or> nd = legacy_node b u m" "\<forall>a \<in> set as. lower a = a" "a \<in> set as"
    and "pending_map nd p as = Inr pmap" "bp_pending p"
  shows "pending_of nd pmap a = Inr (Some (pending_pair (m a)))"
  using assms(1)
proof
  have ne: "as \<noteq> []" using assms(3) by auto
  assume nd: "nd = modern_node b u m"
  then have "pmap = Some (collected (map (\<lambda>(a, txs). (lower a, pending_pair txs)) (map (\<lambda>a. (a, m a)) as)))"
    using assms(4,5) ne by (simp add: pending_map_def modern_node_def tolerant_def del: map_map)
  then show ?thesis using pending_lookup [OF assms(2,3), of m] by (simp add: pending_of_def del: map_map)
next
  have ne: "as \<noteq> []" using assms(3) by auto
  assume nd: "nd = legacy_node b u m"
  then have "pmap = None" using assms(4,5) ne by (simp add: pending_map_def legacy_node_def tolerant_def)
  then show ?thesis using nd by (simp add: pending_of_def legacy_node_def modern_node_def tolerant_def)
qed

lemma rows_total:
  assumes "nd = modern_node b u m \<or> nd = legacy_node b u m" "\<forall>a \<in> set (map entry_address es). lower a = a" "set rs = set es"
    and "pending_map nd p (map entry_address es) = Inr pmap"
  shows "map_ok (balance_row_of nd p (\<lambda>a. if a \<in> set (map entry_address es) then Some (b a) else None)
      (\<lambda>a. if a \<in> set (map entry_address es) then Some (u a) else None) pmap) rs = Inr (map (plain_row b u m p) rs)"
proof (rule map_ok_pure)
  fix e
  assume "e \<in> set rs"
  then have e: "entry_address e \<in> set (map entry_address es)" using assms(3) by simp
  have "pending_of nd pmap (entry_address e) = Inr (Some (pending_pair (m (entry_address e))))" if "bp_pending p"
    using pending_answers [OF assms(1,2) e assms(4) that] .
  then show "balance_row_of nd p (\<lambda>a. if a \<in> set (map entry_address es) then Some (b a) else None)
      (\<lambda>a. if a \<in> set (map entry_address es) then Some (u a) else None) pmap e = Inr (plain_row b u m p e)"
    using e by (simp add: balance_row_of_def plain_row_def)
qed

lemma listed_well_filter:
  assumes "listed_well es"
  shows "listed_well (filter P es)"
proof -
  have "filter Q (filter P es) = filter P (filter Q es)" for Q by (simp add: conj_commute)
  then show ?thesis using assms unfolding listed_well_def by (auto simp del: filter_filter intro: distinct_map_filter)
qed

lemma rows_sorted:
  assumes "listed_well es" "mset rs = mset es"
  shows "sort_rows (map (plain_row b u m p) rs) = sort_rows (map (plain_row b u m p) es)"
proof -
  let ?g = "plain_row b u m p"
  have e: "br_entry (?g x) = x" for x by (simp add: plain_row_def)
  have set: "set rs = set es" using assms(2) by (rule mset_eq_setD)
  have same: "sort_key key (filter P (map ?g rs)) = sort_key key (filter P (map ?g es))"
    if "inj_on key {r \<in> set (map ?g rs). P r}" for P and key :: "balance_row \<Rightarrow> 'k :: linorder"
  proof (rule sort_key_inj_key_eq)
    have "image_mset ?g (mset rs) = image_mset ?g (mset es)" using assms(2) by simp
    then show "mset (filter P (map ?g rs)) = mset (sort_key key (filter P (map ?g es)))" by simp
    show "inj_on key (set (filter P (map ?g rs)))" using that by (simp add: Collect_conj_eq Int_commute)
  qed simp
  note inj = assms(1) [unfolded listed_well_def distinct_map]
  have one: "x = y" if "x \<in> set es" "y \<in> set es" "entry_index x = Some n" "entry_index y = Some n" for x y n
    by (rule inj_onD [OF conjunct2 [OF conjunct1 [OF inj]]]) (use that in simp_all)
  have two: "x = y" if "x \<in> set es" "y \<in> set es" "entry_index x = None" "entry_index y = None" "entry_address x = entry_address y" for x y
    by (rule inj_onD [OF conjunct2 [OF conjunct1 [OF conjunct2 [OF inj]]]]) (use that in simp_all)
  have i: "inj_on (\<lambda>r. the (entry_index (br_entry r))) {r \<in> set (map ?g rs). entry_index (br_entry r) \<noteq> None}"
  proof (rule inj_onI)
    fix r r'
    assume r: "r \<in> {r \<in> set (map ?g rs). entry_index (br_entry r) \<noteq> None}" "r' \<in> {r \<in> set (map ?g rs). entry_index (br_entry r) \<noteq> None}"
      and k: "the (entry_index (br_entry r)) = the (entry_index (br_entry r'))"
    obtain x y where x: "r = ?g x" "x \<in> set es" "r' = ?g y" "y \<in> set es" using r set by auto
    obtain n n' where n: "entry_index x = Some n" "entry_index y = Some n'" using r x e by auto
    then have "n = n'" using k by (simp add: x e)
    then show "r = r'" using one [OF x(2,4)] n x by simp
  qed
  have a: "inj_on (\<lambda>r. entry_address (br_entry r)) {r \<in> set (map ?g rs). entry_index (br_entry r) = None}"
  proof (rule inj_onI)
    fix r r'
    assume r: "r \<in> {r \<in> set (map ?g rs). entry_index (br_entry r) = None}" "r' \<in> {r \<in> set (map ?g rs). entry_index (br_entry r) = None}"
      and k: "entry_address (br_entry r) = entry_address (br_entry r')"
    obtain x y where x: "r = ?g x" "x \<in> set es" "r' = ?g y" "y \<in> set es" using r set by auto
    then show "r = r'" using two [OF x(2,4)] r k by (simp add: e)
  qed
  show ?thesis unfolding sort_rows_def same [OF i] same [OF a] ..
qed

text \<open>C31: The balance of the wallet does not depend on the age of the node.  A node that answers for all addresses
  at once and one that is asked address by address, holding the same data, give the same rows, the same order
  and the same totals, in whatever order the rows are completed: each wanted address once, with its balance, its
  coins and its pending amounts.\<close>

theorem balance_same_from_any_node:
  assumes "listed_well es" "nd = modern_node b u m \<or> nd = legacy_node b u m" "\<And>xs. mset (arrive xs) = mset xs"
  shows "gather_balance nd arrive p es = Inr (wallet_totals p (sort_rows (map (plain_row b u m p) (wanted_entries p es))))"
proof -
  let ?es = "wanted_entries p es"
  have well: "listed_well ?es" using listed_well_filter [OF assms(1)] assms(1) by (simp add: wanted_entries_def split: option.splits)
  have low: "\<forall>a \<in> set (map entry_address ?es). lower a = a" using well by (simp add: listed_well_def)
  have set: "set (arrive ?es) = set ?es" using assms(3) by (rule mset_eq_setD)
  have "\<exists>pmap. pending_map nd p (map entry_address ?es) = Inr pmap"
    using assms(2) by (auto simp: pending_map_def modern_node_def legacy_node_def tolerant_def)
  then obtain pmap where pmap: "pending_map nd p (map entry_address ?es) = Inr pmap" by blast
  have b: "batched (bn_balances nd) (bn_balance nd) (map entry_address ?es)
      = Inr (\<lambda>a. if a \<in> set (map entry_address ?es) then Some (b a) else None)"
    using assms(2) by (auto simp: modern_node_def legacy_node_def batched_graph)
  have u: "batched (bn_utxos_batch nd) (bn_utxos nd) (map entry_address ?es)
      = Inr (\<lambda>a. if a \<in> set (map entry_address ?es) then Some (u a) else None)"
    using assms(2) by (auto simp: modern_node_def legacy_node_def batched_graph)
  have irrelevant: "balance_row_of nd p bal (\<lambda>_. None) pmap = balance_row_of nd p bal info pmap" if "\<not> bp_utxos p" for bal info
    using that by (simp add: balance_row_of_def fun_eq_iff)
  note rows = rows_total [OF assms(2) low set pmap]
  show ?thesis
  proof (cases "bp_utxos p")
    case True
    then show ?thesis
      by (simp only: gather_balance_def Let_def b u pmap rows if_True bind_ok_simps rows_sorted [OF well assms(3)])
  next
    case False
    let ?B = "\<lambda>a. if a \<in> set (map entry_address ?es) then Some (b a) else None"
    let ?U = "\<lambda>a. if a \<in> set (map entry_address ?es) then Some (u a) else None"
    have "map_ok (balance_row_of nd p ?B (\<lambda>_. None) pmap) (arrive ?es) = Inr (map (plain_row b u m p) (arrive ?es))"
      using rows by (simp only: irrelevant [OF False, of ?B ?U])
    then show ?thesis
      by (simp only: gather_balance_def Let_def b pmap False if_False bind_ok_simps rows_sorted [OF well assms(3)])
  qed
qed

section \<open>Witnesses\<close>

lemma hex_delete: "\<not> managed (memory (fst (delete_address hex_kit hex_name [112] quiet_host hex_keys))) hex_name"
proof -
  obtain x where x: "key_at hex_kit hex_keys hex_name x"
    using hex_keys(1,2) key_backedD(2) [of hex_kit hex_keys "memory hex_keys" hex_name] by (auto simp: well_kept_def)
  then obtain b where b: "sealed_files hex_keys (key_file hex_name) = Some b" "unseal (cipher hex_kit) [112] imported_aad b = Inr x"
    using hex_keys(4) by (auto simp: key_at_def)
  have "kwp (delete_address hex_kit hex_name [112]) quiet_host hex_keys (\<lambda>t r. \<not> managed (memory t) hex_name)"
    using b hex_keys(2,3,5)
    by (simp add: delete_address_def verify_passphrase_def read_sealed_def kwp_simps hex_name_ok quiet_host_ok(2) change_state_def
        save_state_def managed_def forget_def remove_if_present_def remove_sealed_def Let_def map_remove_def)
  then show ?thesis by (simp add: kwp_run)
qed

definition last_wish :: delete_params where
  "last_wish = \<lparr>dp_address = hex_name, dp_passphrase = [112], dp_force = False\<rparr>"


definition two_entries :: "address_entry list" where
  "two_entries = [\<lparr>entry_address = ''b1'', entry_index = Some 0, entry_label = None, entry_imported = False\<rparr>,
     \<lparr>entry_address = ''a1'', entry_index = None, entry_label = None, entry_imported = True\<rparr>]"

theorem balance_same_from_any_node_witness:
  "\<exists>r. gather_balance (modern_node (\<lambda>_. 5) (\<lambda>_. (1, False)) (\<lambda>_. [])) rev \<lparr>bp_utxos = True, bp_pending = True, bp_addresses = None\<rparr> two_entries = Inr r
     \<and> gather_balance (legacy_node (\<lambda>_. 5) (\<lambda>_. (1, False)) (\<lambda>_. [])) (\<lambda>es. es) \<lparr>bp_utxos = True, bp_pending = True, bp_addresses = None\<rparr> two_entries = Inr r
     \<and> wb_total r = 10"
proof -
  let ?p = "\<lparr>bp_utxos = True, bp_pending = True, bp_addresses = None\<rparr>"
  have "lower ''b1'' = ''b1'' \<and> lower ''a1'' = ''a1''" by code_simp
  then have well: "listed_well two_entries" by (simp add: listed_well_def two_entries_def)
  have total: "wb_total (wallet_totals ?p (sort_rows (map (plain_row (\<lambda>_. 5) (\<lambda>_. (1, False)) (\<lambda>_. []) ?p) (wanted_entries ?p two_entries)))) = 10"
    by (simp add: wanted_entries_def two_entries_def sort_rows_def plain_row_def wallet_totals_def Let_def)
  have "mset (rev xs) = mset xs" for xs :: "address_entry list" by simp
  note r = balance_same_from_any_node [OF well disjI1 [OF refl] this] balance_same_from_any_node [OF well disjI2 [OF refl] refl]
  show ?thesis using r [of "\<lambda>_. 5" "\<lambda>_. (1, False)" "\<lambda>_. []" ?p] total by blast
qed

end
