(* ===== verification/ApiForms.thy ===== *)
theory ApiForms imports ApiWalletRules begin

text \<open>
  Forms and figures of the API: the canonical address, what \<open>abandon_transfer\<close> releases and reports, which coins are
  called available, and when the pending totals are shown.
\<close>

section \<open>Addresses\<close>

definition address_codec :: "'p site \<Rightarrow> bool" where
  "address_codec si \<longleftrightarrow> (\<forall>s b. parse_any si s = Some b \<longrightarrow> length b = 32)
     \<and> (\<forall>b. length b = 32 \<longrightarrow> (let h = hex_encode (st_chain si) b in
          parse_any si h = Some b \<and> length h = 64 \<and> list_all is_hex_char h \<and> lower h = h))"

lemma no_white:
  "list_all (\<lambda>u. u \<noteq> [] \<and> \<not> is_hex_char (hd u)) white_texts" "list_all (\<lambda>u. u \<noteq> [] \<and> \<not> is_hex_char (hd u)) (map rev white_texts)"
  by code_simp+

lemma trim_start_none:
  assumes "list_all (\<lambda>u. u \<noteq> [] \<and> \<not> is_hex_char (hd u)) ws" "s = [] \<or> is_hex_char (hd s)"
  shows "trim_start n ws s = s"
proof (cases n)
  case (Suc m)
  have "take (length u) s \<noteq> u" if "u \<in> set ws" for u
  proof
    assume t: "take (length u) s = u"
    have u: "u \<noteq> []" "\<not> is_hex_char (hd u)" using that assms(1) by (auto simp: list_all_iff)
    then have "s \<noteq> []" "hd u = hd s" using t by (metis take_Nil, metis hd_take length_greater_0_conv)
    then show False using u assms(2) by simp
  qed
  then have "find (\<lambda>u. take (length u) s = u) ws = None" by (simp add: find_None_iff)
  then show ?thesis using Suc by simp
qed simp

lemma trim_hex:
  assumes "list_all is_hex_char s"
  shows "str_trim s = s"
proof -
  have "s = [] \<or> is_hex_char (hd s)" using assms by (cases s) auto
  note front = trim_start_none [OF no_white(1) this]
  have "rev s = [] \<or> is_hex_char (hd (rev s))" using assms by (cases s rule: rev_cases) auto
  note behind = trim_start_none [OF no_white(2) this]
  show ?thesis unfolding str_trim_def Let_def front behind by simp
qed

text \<open>C40: What \<open>validate_address\<close> calls valid has one canonical form.  The verdict comes with an address exactly when
  it is positive; that address is 64 lower-case hex digits, passes the check of the methods that take nothing
  else, validates to itself, and is the text that every method which accepts both spellings passes on to the node.\<close>

theorem validated_address_is_canonical:
  assumes "address_codec si" "validate_address si s = (valid, form)"
  shows "(valid \<longleftrightarrow> form \<noteq> None) \<and> (\<forall>a. form = Some a \<longrightarrow> ensure_64_hex a = Inr () \<and> lower a = a
    \<and> validate_address si a = (True, Some a) \<and> map_ok (parse_address_hex si) [str_trim s, a] = Inr [(a, the (parse_any si a)), (a, the (parse_any si a))])"
proof (cases "parse_any si (str_trim s)")
  case None
  then show ?thesis using assms(2) by (auto simp: validate_address_def parse_address_def)
next
  case (Some b)
  define h where "h = hex_encode (st_chain si) b"
  have "length b = 32" using assms(1) Some unfolding address_codec_def by blast
  then have h: "parse_any si h = Some b" "length h = 64" "list_all is_hex_char h" "lower h = h"
    using assms(1) unfolding address_codec_def h_def Let_def by blast+
  have v: "valid" "form = Some h" using assms(2) Some by (auto simp: validate_address_def parse_address_def h_def)
  have "validate_address si h = (True, Some h)"
    by (simp add: validate_address_def trim_hex [OF h(3)] parse_address_def h(1)) (simp add: h_def)
  moreover have "parse_address_hex si h = Inr (h, b)" "parse_address_hex si (str_trim s) = Inr (h, b)"
    using h(1) Some by (simp_all add: parse_address_hex_def parse_address_def h_def)
  ultimately show ?thesis using v h by (simp add: ensure_64_hex_def)
qed

theorem validated_address_is_canonical_witness:
  "validate_address hex_site ('' '' @ hex_name @ ''  '') = (True, Some hex_name)
   \<and> ensure_64_hex hex_name = Inr () \<and> validate_address hex_site hex_name = (True, Some hex_name)"
proof -
  have p: "parse_hex_address (hexes b) = (if length b = 32 then Some b else None)" for b
    by (simp add: parse_hex_address_def hexes_spec)
  have "address_codec hex_site"
    by (auto simp: address_codec_def p hexes_spec Let_def) (auto simp: parse_hex_address_def split: option.splits if_splits)
  moreover have t: "str_trim ('' '' @ hex_name @ ''  '') = hex_name"
    unfolding hex_name_def sample_secret_def by code_simp
  have v: "validate_address hex_site ('' '' @ hex_name @ ''  '') = (True, Some hex_name)"
    unfolding validate_address_def t by (simp add: parse_address_def hex_name_def p sample_secret_def del: hexes.simps)
  ultimately show ?thesis using validated_address_is_canonical [OF _ v] v by simp
qed

section \<open>Claims given up\<close>

text \<open>\<open>abandon_transfer\<close> releases the outpoints it is given and nothing else.  The coins that are still claimed
  afterwards are those that were, less the given ones; the figure reported as remaining is their number, and when
  no claim runs out during the call, the figure reported as released is the number of given coins that were claimed.\<close>

theorem abandon_releases_exactly:
  assumes "tracked cs" "t0 \<le> t1" "map_ok (read_outpoint ch) ops = Inr given"
    and "abandon_transfer ch t0 t1 ops cs = (cs1, Inr (released, remaining))"
  shows "live t1 cs1 = live t1 cs - set given \<and> remaining = card (live t1 cs1)
    \<and> (live t1 cs = live t0 cs \<longrightarrow> released = card (live t0 cs \<inter> set given))"
proof -
  let ?a = "retain_live t0 cs" and ?b = "release given (retain_live t0 cs)"
  have cs1: "cs1 = retain_live t1 ?b" and n: "released = length (pending ?a) - remaining" "remaining = length (pending cs1)"
    using assms(3,4) by (auto simp: abandon_transfer_def claims_len_def split: if_splits)
  have tr: "tracked ?a" "tracked ?b" "tracked cs1" using assms(1) by (simp_all add: cs1)
  have l: "live t1 cs1 = live t1 cs - set given"
    using assms(1,2) tr by (simp add: cs1 live_release)
  have card: "length (pending (retain_live t s)) = card (live t s)" if "tracked s" for t s
  proof -
    have "distinct (map fst (pending (retain_live t s)))" using that by (simp add: tracked_def [symmetric])
    then show ?thesis using keys_retain [OF that, of t] distinct_card by fastforce
  qed
  have r: "remaining = card (live t1 cs1)" using n(2) card [OF tr(2), of t1] assms(2) tr by (simp add: cs1)
  have fin: "finite (live t cs)" for t using keys_retain [OF assms(1), of t] by (metis finite_set)
  have "released = card (live t0 cs \<inter> set given)" if "live t1 cs = live t0 cs"
    using n(1) card [OF assms(1), of t0] r l that fin [of t0]
    by (simp add: card_Diff_subset_Int) (metis Int_lower1 card_mono diff_diff_cancel)
  then show ?thesis using l r by blast
qed

theorem abandon_releases_exactly_witness:
  "\<exists>cs1. abandon_transfer (st_chain hex_site) 0 0 [(hex_name, 1)]
      \<lparr>pending = [(OutPoint sample_secret 1, 9), (OutPoint sample_secret 2, 9)], ready_at = None\<rparr> = (cs1, Inr (1, 1))
     \<and> live 0 cs1 = {OutPoint sample_secret 2}"
proof -
  let ?cs = "\<lparr>pending = [(OutPoint sample_secret 1, 9), (OutPoint sample_secret 2, 9)], ready_at = None\<rparr>"
  have g: "map_ok (read_outpoint (st_chain hex_site)) [(hex_name, 1)] = Inr [OutPoint sample_secret 1]"
    using hexes_spec(3) by (simp add: read_outpoint_def hex_name_ok) (simp add: hex_name_def)
  let ?left = "\<lparr>pending = [(OutPoint sample_secret 2, 9)], ready_at = None\<rparr>"
  have "retain_live 0 ?cs = ?cs" "release [OutPoint sample_secret 1] ?cs = ?left" "retain_live 0 ?left = ?left"
    by (simp_all add: retain_live_def release_def)
  then have a: "abandon_transfer (st_chain hex_site) 0 0 [(hex_name, 1)] ?cs = (?left, Inr (1, 1))"
    unfolding abandon_transfer_def g claims_len_def by simp
  have "live 0 ?cs = {OutPoint sample_secret 1, OutPoint sample_secret 2}" by (auto simp: live_def)
  moreover have "tracked ?cs" by (simp add: tracked_def)
  ultimately have "live 0 ?left = {OutPoint sample_secret 2}"
    using abandon_releases_exactly [OF _ le_refl g a] by auto
  with a show ?thesis by blast
qed

section \<open>Available coins\<close>

text \<open>A transfer spends coins that the wallet itself calls immature.  There is a listing whose only coin is a
  young coinbase output, so that it is tagged \<open>Immature\<close> and no value is available, while the same daemon, given
  the same listing, builds and broadcasts a transfer from that coin.\<close>

theorem immature_coins_are_spent:
  "\<exists>rows al cs r. map utxo_entry.truncate rows = [\<lparr>utxo_tx_id = letters (replicate 32 1), utxo_index = 0, utxo_value = 1000\<rparr>]
     \<and> annotate_utxo_status api_chain 100 0 (Inr (Some [])) \<lparr>ul_tip = 9, ul_rows = rows\<rparr> no_claims = (no_claims, Inr al)
     \<and> map snd (al_rows al) = [Immature] \<and> al_available_value al = 0
     \<and> get_address_utxos (coin_node (Inr (letters [2]))) sample_name = Inr \<lparr>tip_height = 9, utxos = map utxo_entry.truncate rows\<rparr>
     \<and> transfer api_chain (coin_node (Inr (letters [2]))) (signer_of (api_site reply) k) [(sample_secret, 50)] None
         (Absolute 900) 1000 (\<lambda>_. 0) no_claims = (cs, [letters [3, 4]], Inr r)"
proof -
  define row :: utxo_row where "row = \<lparr>utxo_tx_id = letters (replicate 32 1), utxo_index = 0, utxo_value = 1000, row_height = 3, row_coinbase = True\<rparr>"
  have t: "map utxo_entry.truncate [row] = [\<lparr>utxo_tx_id = letters (replicate 32 1), utxo_index = 0, utxo_value = 1000\<rparr>]"
    by (simp add: row_def utxo_entry.truncate_def del: letters.simps)
  obtain al where "annotate_utxo_status api_chain 100 0 (Inr (Some [])) \<lparr>ul_tip = 9, ul_rows = [row]\<rparr> no_claims = (no_claims, Inr al)"
      "map snd (al_rows al) = [Immature]" "al_available_value al = 0"
    by (simp add: annotate_utxo_status_def pending_ops_def retain_live_def no_claims_def classify_utxo_status_def row_def
        saturating_sub_def Let_def)
  moreover have "get_address_utxos (coin_node (Inr (letters [2]))) sample_name = Inr \<lparr>tip_height = 9, utxos = map utxo_entry.truncate [row]\<rparr>"
    by (simp only: t) (simp add: coin_node_def)
  moreover obtain cs r where "transfer api_chain (coin_node (Inr (letters [2]))) (signer_of (api_site reply) k) [(sample_secret, 50)] None
      (Absolute 900) 1000 (\<lambda>_. 0) no_claims = (cs, [letters [3, 4]], Inr r)"
    using api_transfers [of 900 reply k] by blast
  ultimately show ?thesis using t by (intro exI [of _ "[row]"] exI [of _ al] exI [of _ cs] exI [of _ r] conjI)
qed

section \<open>Pending totals\<close>

text \<open>One idle address hides the pending totals of the whole wallet.  If a node that answers in batches leaves out
  an address because nothing is pending for it, the row of that address counts as unsupported, and the answer
  says that pending amounts are not supported and has no totals.\<close>

theorem idle_address_hides_totals:
  assumes "gather_balance nd arrive p es = Inr wb" "bp_pending p" "e \<in> set (wanted_entries p es)"
    and "\<And>as. bn_mempool_batch nd as = Inr ps" "lower (entry_address e) \<notin> (lower \<circ> fst) ` set ps"
    and "\<And>xs. set (arrive xs) = set xs"
  shows "wb_pending_supported wb = Some False \<and> wb_pending wb = None"
proof -
  obtain bal info pmap rows where g: "pending_map nd p (map entry_address (wanted_entries p es)) = Inr pmap"
    "map_ok (balance_row_of nd p bal info pmap) (arrive (wanted_entries p es)) = Inr rows" "wb = wallet_totals p (sort_rows rows)"
    using assms(1) unfolding gather_balance_def Let_def by (auto simp: result_simps)
  have "map entry_address (wanted_entries p es) \<noteq> []" using assms(3) by auto
  then have m: "pmap = Some (collected (map (\<lambda>(a, txs). (lower a, pending_pair txs)) ps))"
    using g(1) assms(2,4) by (simp add: pending_map_def tolerant_def)
  have "collected (map (\<lambda>(a, txs). (lower a, pending_pair txs)) ps) (lower (entry_address e)) = None"
    using assms(5) by (force simp: collected_def map_of_eq_None_iff)
  then have none: "pending_of nd pmap (entry_address e) = Inr None" by (simp add: pending_of_def m)
  obtain i where "i < length (arrive (wanted_entries p es))" "arrive (wanted_entries p es) ! i = e"
    using assms(3,6) by (metis in_set_conv_nth)
  then have "balance_row_of nd p bal info pmap e = Inr (rows ! i)" "rows ! i \<in> set rows"
    using map_ok_Inr_nth [OF g(2), of i] map_ok_Inr_length [OF g(2)] by auto
  moreover have "case balance_row_of nd p bal info pmap e of Inr r \<Rightarrow> br_pending r = None | Inl _ \<Rightarrow> True"
    by (simp add: balance_row_of_def none assms(2))
  ultimately have "rows ! i \<in> set (sort_rows rows)" "br_pending (rows ! i) = None"
    by (auto simp: sort_rows_def)
  then have "\<not> list_all (\<lambda>r. br_pending r \<noteq> None) (sort_rows rows)" unfolding list_all_iff by blast
  then show ?thesis using assms(2) by (simp add: g(3) wallet_totals_def Let_def)
qed

theorem idle_address_hides_totals_witness:
  "\<exists>wb. gather_balance ((modern_node (\<lambda>_. 5) (\<lambda>_. (1, False)) (\<lambda>_. []))\<lparr>bn_mempool_batch := (\<lambda>_. Inr [])\<rparr>) (\<lambda>es. es)
      \<lparr>bp_utxos = False, bp_pending = True, bp_addresses = None\<rparr> two_entries = Inr wb \<and> wb_pending wb = None"
proof -
  let ?nd = "(modern_node (\<lambda>_. 5) (\<lambda>_. (1, False)) (\<lambda>_. []))\<lparr>bn_mempool_batch := (\<lambda>_. Inr [])\<rparr>"
    and ?p = "\<lparr>bp_utxos = False, bp_pending = True, bp_addresses = None\<rparr>"
  obtain wb where g: "gather_balance ?nd (\<lambda>es. es) ?p two_entries = Inr wb"
    by (simp add: gather_balance_def modern_node_def batched_def tolerant_def pending_map_def balance_row_of_def pending_of_def
        two_entries_def wanted_entries_def Let_def)
  have "hd two_entries \<in> set (wanted_entries ?p two_entries)" by (simp add: two_entries_def wanted_entries_def)
  from idle_address_hides_totals [OF g _ this] g show ?thesis by simp
qed

end
