(* ===== verification/EventStream.thy ===== *)
theory EventStream imports KeyringVault PaymentUri begin

text \<open>
  The client of the node's event stream (\<open>src/sse_client.rs\<close>): which addresses it subscribes to, the
  incremental parser of the stream, the dispatch of events, and the loop that connects, falls back and
  reconnects.  A Rust string that comes off the wire is its UTF-8 bytes; the parser looks for a line feed,
  a carriage return and ASCII prefixes only, so that it may be read byte by byte.  The JSON and hex libraries are
  parameters, and the loop runs against what the store, the node and the clock do to it, turn by turn.
\<close>

section \<open>Events\<close>

datatype wallet_nudge = Script bytes | Tip u64 | Resync

record sse_lib =
  sl_json :: "bytes \<Rightarrow> json option"
  sl_hex :: "bytes \<Rightarrow> string"
  sl_unhex :: "string \<Rightarrow> bytes option"

text \<open>What an event makes the client emit: nothing when it is unknown or its payload cannot be read.\<close>

definition dispatch_event :: "sse_lib \<Rightarrow> bytes \<Rightarrow> bytes \<Rightarrow> wallet_nudge list" where
  "dispatch_event L name payload =
     (if name = ascii ''script_changed'' then
        (case sl_json L payload of
           None \<Rightarrow> []
         | Some v \<Rightarrow>
             (case Option.bind (jget v ''script'') as_str of
                None \<Rightarrow> []
              | Some s \<Rightarrow> (case sl_unhex L s of None \<Rightarrow> [] | Some b \<Rightarrow> [Script b])))
      else if name = ascii ''tip'' then
        (case sl_json L payload of
           None \<Rightarrow> []
         | Some v \<Rightarrow> (case Option.bind (jget v ''height'') as_u64 of None \<Rightarrow> [] | Some h \<Rightarrow> [Tip h]))
      else if name = ascii ''resync'' then [Resync]
      else [])"

section \<open>The parser\<close>

record parser =
  line_buf :: bytes
  current_event :: "bytes option"
  current_data :: bytes

definition fresh_parser :: parser where
  "fresh_parser = \<lparr>line_buf = [], current_event = None, current_data = []\<rparr>"

text \<open>A complete line: the delimiter of events, a field, or something to ignore, such as a heartbeat.\<close>

definition take_line :: "sse_lib \<Rightarrow> bytes \<Rightarrow> parser \<Rightarrow> parser \<times> wallet_nudge list" where
  "take_line L line p =
     (if line = [] then
        (p\<lparr>current_event := None, current_data := []\<rparr>,
         case current_event p of None \<Rightarrow> [] | Some ev \<Rightarrow> dispatch_event L ev (current_data p))
      else case strip_prefix_bytes (ascii ''event: '') line of
        Some rest \<Rightarrow> (p\<lparr>current_event := Some rest\<rparr>, [])
      | None \<Rightarrow>
          (case strip_prefix_bytes (ascii ''data: '') line of
             Some rest \<Rightarrow>
               (p\<lparr>current_data := (if current_data p = [] then [] else current_data p @ [10]) @ rest\<rparr>, [])
           | None \<Rightarrow> (p, [])))"

definition take_char :: "sse_lib \<Rightarrow> u8 \<Rightarrow> parser \<Rightarrow> parser \<times> wallet_nudge list" where
  "take_char L b p =
     (if b = 10 then take_line L (line_buf p) (p\<lparr>line_buf := []\<rparr>)
      else if b \<noteq> 13 then (p\<lparr>line_buf := line_buf p @ [b]\<rparr>, [])
      else (p, []))"

fun take_chars :: "sse_lib \<Rightarrow> bytes \<Rightarrow> parser \<Rightarrow> parser \<times> wallet_nudge list" where
  "take_chars L [] p = (p, [])"
| "take_chars L (b # bs) p =
     (case take_char L b p of (p1, ns) \<Rightarrow> (case take_chars L bs p1 of (p2, ms) \<Rightarrow> (p2, ns @ ms)))"

section \<open>The subscription\<close>

text \<open>The set of owned addresses, as the sorted list of its elements; a listing that fails counts as empty.\<close>

definition list_addresses :: "sse_lib \<Rightarrow> address_entry list res \<Rightarrow> bytes list" where
  "list_addresses L r =
     (case r of
        Inl _ \<Rightarrow> []
      | Inr entries \<Rightarrow>
          sort (remdups (List.map_filter
            (\<lambda>e. case sl_unhex L (entry_address e) of
                   None \<Rightarrow> None
                 | Some raw \<Rightarrow> if length raw \<noteq> 32 then None else Some raw) entries)))"

definition sse_url :: "sse_lib \<Rightarrow> string list \<Rightarrow> bytes list \<Rightarrow> string option" where
  "sse_url L nodes addrs =
     (case nodes of
        [] \<Rightarrow> None
      | base # _ \<Rightarrow>
          Some (trim_end_matches (CHR ''/'') base @ ''/sse?addresses='' @ join_with '','' (sort (map (sl_hex L) addrs))))"

section \<open>The open stream\<close>

text \<open>What wakes the loop that reads the stream, in the order in which it does.\<close>

datatype stream_event =
    Chunk bytes | StreamError | StreamEnd | RescanTick "address_entry list res" | Shutdown

datatype stream_end = Cancelled | Interrupted | StillOpen parser

fun read_stream :: "sse_lib \<Rightarrow> bytes list \<Rightarrow> stream_event list \<Rightarrow> parser \<Rightarrow> wallet_nudge list \<times> stream_end" where
  "read_stream L addrs [] p = ([], StillOpen p)"
| "read_stream L addrs (Shutdown # es) p = ([], Cancelled)"
| "read_stream L addrs (StreamError # es) p = ([], Interrupted)"
| "read_stream L addrs (StreamEnd # es) p = ([], Interrupted)"
| "read_stream L addrs (RescanTick r # es) p =
     (if list_addresses L r \<noteq> addrs then ([], Interrupted) else read_stream L addrs es p)"
| "read_stream L addrs (Chunk c # es) p =
     (if \<not> utf8_valid c then ([], Interrupted)
      else case take_chars L c p of
        (p1, ns) \<Rightarrow> (case read_stream L addrs es p1 of (ms, e) \<Rightarrow> (ns @ ms, e)))"

section \<open>The run loop\<close>

datatype sse_status = Init | Fallback string | Active nat

datatype probe = Opened | Refused string | ConnectFailed string | ConnectTimedOut

record sse_client =
  ss_status :: sse_status
  ss_backoff :: nat
  ss_emitted :: "wallet_nudge list"

text \<open>Times in seconds.\<close>

definition probe_retry_interval :: nat where "probe_retry_interval = 60"
definition stream_backoff_initial :: nat where "stream_backoff_initial = 1"
definition stream_backoff_max :: nat where "stream_backoff_max = 30"
definition address_rescan_interval :: nat where "address_rescan_interval = 15"

definition sse_new :: sse_client where
  "sse_new = \<lparr>ss_status = Init, ss_backoff = stream_backoff_initial, ss_emitted = []\<rparr>"

text \<open>
  One turn of the loop: what the store lists, how the node answers the probe, and what happens on the
  stream.  It ends in a return, in a sleep, or it is still reading.
\<close>

record turn =
  tn_cancelled :: bool
  tn_listing :: "address_entry list res"
  tn_probe :: "string \<Rightarrow> probe"
  tn_stream :: "stream_event list"

datatype turn_end = Return | Sleep nat | Streaming parser

definition fall_back :: "string \<Rightarrow> nat \<Rightarrow> sse_client \<Rightarrow> sse_client \<times> turn_end" where
  "fall_back reason secs c = (c\<lparr>ss_status := Fallback reason\<rparr>, Sleep secs)"

definition run_turn :: "sse_lib \<Rightarrow> string list \<Rightarrow> turn \<Rightarrow> sse_client \<Rightarrow> sse_client \<times> turn_end" where
  "run_turn L nodes t c =
     (let addrs = list_addresses L (tn_listing t) in
      if tn_cancelled t then (c, Return)
      else if addrs = [] then (c, Sleep address_rescan_interval)
      else case sse_url L nodes addrs of
        None \<Rightarrow> fall_back ''no upstream URL configured'' probe_retry_interval c
      | Some url \<Rightarrow>
          (case tn_probe t url of
             Refused st \<Rightarrow> fall_back (''HTTP '' @ st) probe_retry_interval c
           | ConnectFailed m \<Rightarrow> fall_back (''connect: '' @ m) probe_retry_interval c
           | ConnectTimedOut \<Rightarrow> fall_back ''connect timeout > 3s'' probe_retry_interval c
           | Opened \<Rightarrow>
               (let c1 = c\<lparr>ss_status := Active (length addrs), ss_backoff := stream_backoff_initial\<rparr> in
                case read_stream L addrs (tn_stream t) fresh_parser of
                  (ns, e) \<Rightarrow>
                    (let c2 = c1\<lparr>ss_emitted := ss_emitted c1 @ ns\<rparr> in
                     case e of
                       Cancelled \<Rightarrow> (c2, Return)
                     | StillOpen p \<Rightarrow> (c2, Streaming p)
                     | Interrupted \<Rightarrow>
                         (case fall_back ''stream interrupted; reconnecting'' (ss_backoff c2) c2 of
                            (c3, en) \<Rightarrow> (c3\<lparr>ss_backoff := min (ss_backoff c2 * 2) stream_backoff_max\<rparr>, en))))))"

text \<open>
  The whole loop: the turns, each with whether the shutdown comes in its sleep.  The results are
  the client, the sleeps, and how the last turn ended; nothing when it is between two turns.
\<close>

fun sse_run ::
    "sse_lib \<Rightarrow> string list \<Rightarrow> (turn \<times> bool) list \<Rightarrow> sse_client \<Rightarrow> sse_client \<times> nat list \<times> turn_end option" where
  "sse_run L nodes [] c = (c, [], None)"
| "sse_run L nodes ((t, stop) # ts) c =
     (case run_turn L nodes t c of
        (c1, Sleep n) \<Rightarrow>
          (if stop then (c1, [n], Some Return)
           else case sse_run L nodes ts c1 of (c2, ns, e) \<Rightarrow> (c2, n # ns, e))
      | (c1, e) \<Rightarrow> (c1, [], Some e))"

text \<open>The task: without an HTTP client it ends at once.\<close>

definition sse_task ::
    "sse_lib \<Rightarrow> string list \<Rightarrow> string + unit \<Rightarrow> (turn \<times> bool) list \<Rightarrow> sse_client \<times> nat list \<times> turn_end option" where
  "sse_task L nodes built ts =
     (case built of
        Inl m \<Rightarrow> (sse_new\<lparr>ss_status := Fallback (''reqwest build failed: '' @ m)\<rparr>, [], Some Return)
      | Inr _ \<Rightarrow> sse_run L nodes ts sse_new)"

end
