(* ===== verification/EventRules.thy ===== *)
theory EventRules imports EventStream HexSample ApiFingerprint begin

text \<open>
  What the event stream client delivers, how often it reconnects, and what its status says.
\<close>

section \<open>The parser on whole messages\<close>

text \<open>Text that fits into one line of the stream.\<close>

definition plain :: "bytes \<Rightarrow> bool" where
  "plain bs \<longleftrightarrow> (\<forall>b \<in> set bs. b < 0x80 \<and> b \<noteq> 10 \<and> b \<noteq> 13)"

definition script_json :: "sse_lib \<Rightarrow> bytes \<Rightarrow> json" where
  "script_json L b = JObj [(''script'', JStr (sl_hex L b))]"

definition tip_json :: "u64 \<Rightarrow> json" where
  "tip_json h = JObj [(''height'', JInt (uint h))]"

text \<open>What the node writes: an event, or a heartbeat.\<close>

datatype message = Nudge wallet_nudge | Heartbeat bytes

definition event_text :: "string \<Rightarrow> bytes \<Rightarrow> bytes" where
  "event_text name payload = ascii ''event: '' @ ascii name @ [10] @ ascii ''data: '' @ payload @ [10, 10]"

fun wire :: "sse_lib \<Rightarrow> (json \<Rightarrow> bytes) \<Rightarrow> message \<Rightarrow> bytes" where
  "wire L T (Nudge (Script b)) = event_text ''script_changed'' (T (script_json L b))"
| "wire L T (Nudge (Tip h)) = event_text ''tip'' (T (tip_json h))"
| "wire L T (Nudge Resync) = event_text ''resync'' (T (JObj []))"
| "wire L T (Heartbeat c) = ascii '':'' @ c @ [10, 10]"

fun nudges_of :: "message list \<Rightarrow> wallet_nudge list" where
  "nudges_of [] = []"
| "nudges_of (Nudge n # ms) = n # nudges_of ms"
| "nudges_of (Heartbeat c # ms) = nudges_of ms"

text \<open>The events of the reading loop that carry bytes or find the addresses unchanged.\<close>

fun calm :: "sse_lib \<Rightarrow> bytes list \<Rightarrow> stream_event \<Rightarrow> bool" where
  "calm L addrs (Chunk c) = True"
| "calm L addrs (RescanTick r) = (list_addresses L r = addrs)"
| "calm L addrs _ = False"

fun received :: "stream_event list \<Rightarrow> bytes" where
  "received [] = []"
| "received (Chunk c # es) = c @ received es"
| "received (_ # es) = received es"

lemma take_chars_append:
  "take_chars L (xs @ ys) p =
     (case take_chars L xs p of (p1, ns) \<Rightarrow> (case take_chars L ys p1 of (p2, ms) \<Rightarrow> (p2, ns @ ms)))"
  by (induction xs arbitrary: p) (auto split: prod.splits)

lemma take_plain:
  "plain bs \<Longrightarrow> take_chars L bs p = (p\<lparr>line_buf := line_buf p @ bs\<rparr>, [])"
  by (induction bs arbitrary: p) (auto simp: plain_def take_char_def)

lemma clear_line: "line_buf p = [] \<Longrightarrow> p\<lparr>line_buf := []\<rparr> = p"
  by (cases p) simp

lemma take_whole_line:
  assumes "plain bs" "line_buf p = []"
  shows "take_chars L (bs @ [10]) p = take_line L bs p"
  using assms by (simp add: take_chars_append take_plain take_char_def clear_line split: prod.splits)

lemma ascii_plain_valid: "(\<forall>b \<in> set bs. b < 0x80) \<Longrightarrow> utf8_valid bs"
  by (induction bs) auto

lemma read_calm:
  "\<forall>e \<in> set es. calm L addrs e \<Longrightarrow> \<forall>b \<in> set (received es). b < 0x80 \<Longrightarrow>
   read_stream L addrs es p = (case take_chars L (received es) p of (p1, ns) \<Rightarrow> (ns, StillOpen p1))"
proof (induction es arbitrary: p)
  case (Cons e es)
  show ?case
  proof (cases e)
    case (Chunk c)
    then have "utf8_valid c" using Cons.prems by (intro ascii_plain_valid) auto
    then show ?thesis using Cons Chunk by (auto simp: take_chars_append split: prod.splits)
  qed (use Cons in auto)
qed simp

lemma take_event:
  assumes "plain (ascii name)" "plain payload"
  shows "take_chars L (event_text name payload) fresh_parser = (fresh_parser, dispatch_event L (ascii name) payload)"
proof -
  have p: "plain (ascii ''event: '' @ ascii name)" "plain (ascii ''data: '' @ payload)"
    using assms by (auto simp: plain_def ascii_def)
  have s: "event_text name payload = ((ascii ''event: '' @ ascii name) @ [10]) @ ((ascii ''data: '' @ payload) @ [10]) @ [10]"
    by (simp add: event_text_def)
  have n: "strip_prefix_bytes (ascii ''event: '') (ascii ''data: '' @ payload) = None" by (simp add: ascii_def)
  have lines: "take_chars L ((ascii ''event: '' @ ascii name) @ [10]) fresh_parser = (fresh_parser\<lparr>current_event := Some (ascii name)\<rparr>, [])"
    "take_chars L ((ascii ''data: '' @ payload) @ [10]) (fresh_parser\<lparr>current_event := Some (ascii name)\<rparr>) =
      (fresh_parser\<lparr>current_event := Some (ascii name), current_data := payload\<rparr>, [])"
    "take_chars L [10] (fresh_parser\<lparr>current_event := Some (ascii name), current_data := payload\<rparr>) =
      (fresh_parser, dispatch_event L (ascii name) payload)"
    using take_whole_line [OF p(1), of fresh_parser] take_whole_line [OF p(2), of "fresh_parser\<lparr>current_event := Some (ascii name)\<rparr>"] n
    by (simp_all add: take_line_def fresh_parser_def take_char_def) (simp_all add: ascii_def)
  show ?thesis
    unfolding s take_chars_append [of _ "(ascii ''event: '' @ ascii name) @ [10]"] take_chars_append [of _ "(ascii ''data: '' @ payload) @ [10]"] lines
    by (simp only: lines prod.case append_Nil)
qed

lemma take_message:
  assumes T: "\<And>b. sl_json L (T (script_json L b)) = Some (script_json L b)" "\<And>h. sl_json L (T (tip_json h)) = Some (tip_json h)"
    and hex: "\<And>b. sl_unhex L (sl_hex L b) = Some b"
    and lines: "\<And>b. plain (T (script_json L b))" "\<And>h. plain (T (tip_json h))" "plain (T (JObj []))"
    and beat: "\<And>c. m = Heartbeat c \<Longrightarrow> plain c"
  shows "take_chars L (wire L T m) fresh_parser = (fresh_parser, nudges_of [m])"
proof (cases m)
  case (Nudge n)
  have names: "plain (ascii ''script_changed'')" "plain (ascii ''tip'')" "plain (ascii ''resync'')"
    by (simp_all add: plain_def ascii_def)
  have u: "word_of_int (uint h) = h" "0 \<le> uint h" "uint h < 2 ^ 64" for h :: u64
    using uint_lt2p [of h] by simp_all
  show ?thesis
    using Nudge names lines T hex u
    by (cases n) (simp_all add: take_event dispatch_event_def script_json_def tip_json_def, simp_all add: ascii_def)
next
  case (Heartbeat c)
  have "plain (ascii '':'' @ c)" using beat [OF Heartbeat] by (auto simp: plain_def ascii_def)
  then have "take_chars L ((ascii '':'' @ c) @ [10]) fresh_parser = (fresh_parser, [])"
    by (subst take_whole_line) (simp_all add: fresh_parser_def, simp add: take_line_def ascii_def)
  moreover have "take_chars L [10] fresh_parser = (fresh_parser, [])"
    by (simp add: take_char_def take_line_def fresh_parser_def)
  moreover have "wire L T m = ((ascii '':'' @ c) @ [10]) @ [10]" using Heartbeat by simp
  ultimately show ?thesis using Heartbeat by (simp only: take_chars_append prod.case) simp
qed

lemma nudges_of_append: "nudges_of (ms @ ms') = nudges_of ms @ nudges_of ms'"
  by (induction ms rule: nudges_of.induct) simp_all

section \<open>Properties\<close>

text \<open>C35: Nothing is lost or invented on the way.  However the node's messages, events and heartbeats, are cut
  into chunks, and however often the wallet is looked at in between, the client emits exactly the events, in their order,
  and its parser is as at the start when the last message is through.\<close>

theorem stream_delivers_exactly:
  assumes "\<And>b. sl_json L (T (script_json L b)) = Some (script_json L b)" "\<And>h. sl_json L (T (tip_json h)) = Some (tip_json h)"
    and "\<And>b. sl_unhex L (sl_hex L b) = Some b"
    and "\<And>b. plain (T (script_json L b))" "\<And>h. plain (T (tip_json h))" "plain (T (JObj []))"
    and beats: "\<And>c. Heartbeat c \<in> set ms \<Longrightarrow> plain c"
    and calm: "\<forall>e \<in> set es. calm L addrs e" and sent: "received es = concat (map (wire L T) ms)"
  shows "read_stream L addrs es fresh_parser = (nudges_of ms, StillOpen fresh_parser)"
proof -
  have one: "take_chars L (wire L T m) fresh_parser = (fresh_parser, nudges_of [m])" if "m \<in> set ms" for m
    by (rule take_message [OF assms(1-6)]) (use beats that in auto)
  have "take_chars L (concat (map (wire L T) ks)) fresh_parser = (fresh_parser, nudges_of ks)" if "set ks \<subseteq> set ms" for ks
    using that
  proof (induction ks)
    case (Cons k ks)
    then show ?case using one [of k] nudges_of_append [of "[k]" ks] by (simp add: take_chars_append)
  qed simp
  then have all: "take_chars L (received es) fresh_parser = (fresh_parser, nudges_of ms)" using sent by simp
  have "list_all (\<lambda>x. x < 0x80) (wire L T m)" if "m \<in> set ms" for m
  proof -
    have low: "list_all (\<lambda>x. x < 0x80) c" if "plain c" for c
      using that by (auto simp: plain_def list_all_iff)
    show ?thesis
      using low assms(4-6) beats that by (cases "(L, T, m)" rule: wire.cases) (auto simp: ascii_def event_text_def)
  qed
  then have "\<forall>x \<in> set (received es). x < 0x80" using sent by (auto simp: list_all_iff)
  then show ?thesis using read_calm [OF calm] all by simp
qed

text \<open>The status tells push from poll.  After any number of turns, whatever the store and the node did, a client
  between two turns does not claim a stream; while a stream is open the status is active, with the number of owned
  addresses listed in that turn, and it subscribes to all of them.\<close>

theorem status_tells_push_from_poll:
  assumes "sse_task L nodes made ts = (c, sleeps, e)"
  shows "(e = None \<longrightarrow> (\<forall>n. ss_status c \<noteq> Active n))
    \<and> (\<forall>p. e = Some (Streaming p) \<longrightarrow>
         (\<exists>t stop addrs url. (t, stop) \<in> set ts \<and> addrs = list_addresses L (tn_listing t) \<and> addrs \<noteq> []
            \<and> ss_status c = Active (length addrs) \<and> sse_url L nodes addrs = Some url \<and> tn_probe t url = Opened))"
proof -
  have run: "(e = None \<longrightarrow> (\<forall>n. ss_status c \<noteq> Active n))
      \<and> (\<forall>p. e = Some (Streaming p) \<longrightarrow>
           (\<exists>t stop addrs url. (t, stop) \<in> set ts \<and> addrs = list_addresses L (tn_listing t) \<and> addrs \<noteq> []
              \<and> ss_status c = Active (length addrs) \<and> sse_url L nodes addrs = Some url \<and> tn_probe t url = Opened))"
    if "sse_run L nodes ts c0 = (c, sleeps, e)" "\<forall>n. ss_status c0 \<noteq> Active n" for c0
    using that
  proof (induction L nodes ts c0 arbitrary: sleeps rule: sse_run.induct)
    case (2 L nodes t stop ts c0)
    obtain c1 en where turn: "run_turn L nodes t c0 = (c1, en)" by fastforce
    have asleep: "\<forall>n. ss_status c1 \<noteq> Active n" if "en = Sleep k" for k
      using turn that 2(3)
      by (auto simp: run_turn_def fall_back_def Let_def split: if_splits option.splits probe.splits prod.splits stream_end.splits)
    have stream: "\<exists>addrs url. addrs = list_addresses L (tn_listing t) \<and> addrs \<noteq> [] \<and> ss_status c1 = Active (length addrs)
        \<and> sse_url L nodes addrs = Some url \<and> tn_probe t url = Opened" if "en = Streaming p" for p
      using turn that
      by (auto simp: run_turn_def fall_back_def Let_def split: if_splits option.splits probe.splits prod.splits stream_end.splits)
    show ?case
    proof (cases en)
      case (Sleep k)
      show ?thesis
      proof (cases stop)
        case True
        then show ?thesis using 2(2) turn Sleep by auto
      next
        case False
        obtain ns where rest: "sse_run L nodes ts c1 = (c, ns, e)"
          using 2(2) turn Sleep False by (auto split: prod.splits)
        show ?thesis
          using 2(1) [OF turn [symmetric] Sleep False rest asleep [OF Sleep]] by auto
      qed
    next
      case (Streaming p)
      then show ?thesis using 2(2) turn stream [OF Streaming] by auto
    qed (use 2(2) turn in auto)
  qed simp
  show ?thesis
    using assms run [of sse_new] by (cases made) (auto simp: sse_task_def sse_new_def)
qed

text \<open>The back-off never grows.  Every sleep of the loop is one of three: a second after a stream that broke,
  fifteen seconds without addresses, a minute after a probe that failed.  The doubling up to half a minute is
  undone by the connection that has to come before the next break.\<close>

theorem reconnects_after_one_second:
  "set (fst (snd (sse_task L nodes made ts))) \<subseteq> {stream_backoff_initial, address_rescan_interval, probe_retry_interval}"
proof -
  have "set (fst (snd (sse_run L nodes ts c))) \<subseteq> {stream_backoff_initial, address_rescan_interval, probe_retry_interval}" for c
  proof (induction L nodes ts c rule: sse_run.induct)
    case (2 L nodes t stop ts c)
    obtain c1 en where turn: "run_turn L nodes t c = (c1, en)" by fastforce
    have "k \<in> {stream_backoff_initial, address_rescan_interval, probe_retry_interval}" if "en = Sleep k" for k
      using turn that
      by (auto simp: run_turn_def fall_back_def Let_def split: if_splits option.splits probe.splits prod.splits stream_end.splits)
    then show ?case using 2 [OF turn [symmetric]] turn by (auto split: turn_end.split prod.split)
  qed simp
  then show ?thesis by (cases made) (simp_all add: sse_task_def)
qed

section \<open>A concrete node\<close>

text \<open>JSON as the node prints it.\<close>

fun json_text :: "json \<Rightarrow> bytes" where
  "json_text (JObj [(k, JStr s)]) = ascii ''{\"script\":\"'' @ ascii s @ ascii ''\"}''"
| "json_text (JObj [(k, JInt n)]) = ascii ''{\"height\":'' @ digits (nat n) @ ascii ''}''"
| "json_text _ = ascii ''{}''"

definition json_line :: "bytes \<Rightarrow> json option" where
  "json_line bs =
     (case strip_prefix_bytes (ascii ''{\"script\":\"'') bs of
        Some r \<Rightarrow> Some (JObj [(''script'', JStr (map (\<lambda>b. char_of (unat b)) (take (length r - 2) r)))])
      | None \<Rightarrow>
          (case strip_prefix_bytes (ascii ''{\"height\":'') bs of
             Some r \<Rightarrow> map_option (\<lambda>n. JObj [(''height'', JInt (uint n))]) (parse_u64 (butlast r))
           | None \<Rightarrow> Some (JObj [])))"

definition wire_lib :: sse_lib where
  "wire_lib = \<lparr>sl_json = json_line, sl_hex = hexes, sl_unhex = unhexes\<rparr>"

lemma wire_lib_ok:
  "sl_json wire_lib (json_text (script_json wire_lib b)) = Some (script_json wire_lib b)"
  "sl_json wire_lib (json_text (tip_json h)) = Some (tip_json h)"
  "sl_unhex wire_lib (sl_hex wire_lib b) = Some b"
  "plain (json_text (script_json wire_lib b))" "plain (json_text (tip_json h))" "plain (json_text (JObj []))"
proof -
  have same: "map (\<lambda>b. char_of (unat b)) (ascii s) = s" for s
    by (simp add: ascii_def o_def unat_of_char)
  show "sl_json wire_lib (json_text (script_json wire_lib b)) = Some (script_json wire_lib b)"
    using same by (simp add: wire_lib_def script_json_def json_line_def) (simp add: ascii_def)
  have d: "digits (unat h) = u64_to_string h" by (simp add: u64_to_string_def)
  have "strip_prefix_bytes (ascii ''{\"script\":\"'') (ascii ''{\"height\":'' @ bs) = None" for bs
    by (simp add: ascii_def)
  moreover have "butlast (u64_to_string h @ ascii ''}'') = u64_to_string h"
    by (simp add: ascii_def butlast_append)
  ultimately show "sl_json wire_lib (json_text (tip_json h)) = Some (tip_json h)"
    by (simp add: wire_lib_def tip_json_def json_line_def d)
  show "sl_unhex wire_lib (sl_hex wire_lib b) = Some b" by (simp add: wire_lib_def hexes_spec)
  have "of_char c < (0x80 :: u8) \<and> of_char c \<noteq> (10 :: u8) \<and> of_char c \<noteq> (13 :: u8)" if "is_hex_char c" for c
    using that unat_of_char [of c] by (auto simp: is_hex_char_def word_less_nat_alt Let_def)
  then show "plain (json_text (script_json wire_lib b))"
    using hexes_spec(4) [of b]
    by (auto simp: plain_def wire_lib_def script_json_def list_all_iff) (auto simp: ascii_def list_all_iff)
  have "b < 0x80 \<and> b \<noteq> 10 \<and> b \<noteq> 13" if "is_digit b" for b :: u8
    using that by (auto simp: is_digit_def word_le_nat_alt word_less_nat_alt)
  then show "plain (json_text (tip_json h))"
    using digits_are_digits by (auto simp: plain_def tip_json_def) (auto simp: ascii_def)
  show "plain (json_text (JObj []))" by (simp add: plain_def ascii_def)
qed

text \<open>A wallet with one address, and a stream that tells of it, cut in the middle of a line.\<close>

definition wire_message :: "message list" where
  "wire_message = [Heartbeat [], Nudge (Script [171]), Nudge (Tip 99), Nudge Resync]"

definition cut_in_two :: "stream_event list" where
  "cut_in_two = [Chunk (take 20 (concat (map (wire wire_lib json_text) wire_message))), RescanTick (Inr []),
     Chunk (drop 20 (concat (map (wire wire_lib json_text) wire_message)))]"

theorem stream_delivers_exactly_witness:
  "read_stream wire_lib [] cut_in_two fresh_parser = ([Script [171], Tip 99, Resync], StillOpen fresh_parser)"
proof -
  have "plain c" if "Heartbeat c \<in> set wire_message" for c using that by (simp add: wire_message_def plain_def)
  moreover have "\<forall>e \<in> set cut_in_two. calm wire_lib [] e"
    by (simp add: cut_in_two_def list_addresses_def)
  moreover have "received cut_in_two = concat (map (wire wire_lib json_text) wire_message)"
    unfolding cut_in_two_def received.simps append_Nil2 by (rule append_take_drop_id)
  ultimately have "read_stream wire_lib [] cut_in_two fresh_parser = (nudges_of wire_message, StillOpen fresh_parser)"
    by (intro stream_delivers_exactly [OF wire_lib_ok])
  then show ?thesis by (simp add: wire_message_def)
qed

text \<open>A node that accepts, and one that drops the stream at once.\<close>

definition one_turn :: "stream_event list \<Rightarrow> turn" where
  "one_turn es = \<lparr>tn_cancelled = False,
     tn_listing = Inr [\<lparr>entry_address = hex_name, entry_index = None, entry_label = None, entry_imported = True\<rparr>],
     tn_probe = (\<lambda>_. Opened), tn_stream = es\<rparr>"

theorem status_tells_push_from_poll_witness:
  "\<exists>c p. sse_task wire_lib [''http://n/''] (Inr ()) [(one_turn [StreamEnd], False), (one_turn [], False)] = (c, [1], Some (Streaming p))
     \<and> (\<exists>n. ss_status c = Active n)"
proof -
  have one: "list_addresses wire_lib (tn_listing (one_turn es)) = [sample_secret]" for es
    by (simp add: one_turn_def list_addresses_def wire_lib_def hex_name_def hexes_spec List.map_filter_def sample_secret_def)
  obtain url where u: "sse_url wire_lib [''http://n/''] [sample_secret] = Some url" by (simp add: sse_url_def)
  have f: "tn_cancelled (one_turn es) = False" "tn_probe (one_turn es) url = Opened" "tn_stream (one_turn es) = es" for es
    by (simp_all add: one_turn_def)
  have broken: "\<exists>c1. run_turn wire_lib [''http://n/''] (one_turn [StreamEnd]) c0 = (c1, Sleep 1)"
    and reading: "\<exists>c1. run_turn wire_lib [''http://n/''] (one_turn []) c0 = (c1, Streaming fresh_parser)" for c0
    by (simp_all add: run_turn_def one u f fall_back_def Let_def stream_backoff_initial_def)
  obtain c1 where c1: "run_turn wire_lib [''http://n/''] (one_turn [StreamEnd]) sse_new = (c1, Sleep 1)" using broken by blast
  obtain c where c2: "run_turn wire_lib [''http://n/''] (one_turn []) c1 = (c, Streaming fresh_parser)" using reading by blast
  have c: "sse_task wire_lib [''http://n/''] (Inr ()) [(one_turn [StreamEnd], False), (one_turn [], False)] = (c, [1], Some (Streaming fresh_parser))"
    by (simp add: sse_task_def c1 c2)
  from status_tells_push_from_poll [OF c] c show ?thesis by blast
qed

text \<open>A chunk that ends inside a character of several bytes ends the stream, though the stream as a whole is valid.\<close>

lemma split_character_interrupts:
  "utf8_valid [0xC3, 0xA9] \<and> read_stream wire_lib [] [Chunk [0xC3], Chunk [0xA9]] fresh_parser = ([], Interrupted)"
  by (simp add: is_cont_def)

end
