(* ===== verification/PoolClient.thy ===== *)
theory PoolClient imports SwapBase Json begin

text \<open>
  The HTTP client of the liquidity pool and the calls of the engine that only pass its answers on
  (\<open>PoolClient\<close> and the proxies of \<open>SwapEngine\<close> in \<open>src/swap.rs\<close>).  HTTP is a parameter, the reply to a
  request; so are the JSON parser and the check of a certificate.  \<open>pool_services\<close> puts the client where the
  engine asks the pool.
\<close>

section \<open>HTTP\<close>

datatype wire_reply = Unanswered string | Replied nat string

text \<open>A GET has no body.\<close>

record request =
  rq_url :: string
  rq_body :: "json option"

type_synonym http = "request \<Rightarrow> wire_reply"

datatype trust = PublicRoots | PinnedOnly string

record pool_client =
  pc_base :: string
  pc_trust :: trust

text \<open>A pinned certificate that cannot be read leaves the client with the public roots.\<close>

definition pool_client_new :: "(string \<Rightarrow> bool) \<Rightarrow> string \<Rightarrow> string option \<Rightarrow> pool_client" where
  "pool_client_new pem_ok url ca =
     \<lparr>pc_base = trim_end_matches (CHR ''/'') url,
      pc_trust = (case ca of
          Some pem \<Rightarrow> if trim pem \<noteq> [] then (if pem_ok pem then PinnedOnly pem else PublicRoots) else PublicRoots
        | None \<Rightarrow> PublicRoots)\<rparr>"

definition is_success :: "nat \<Rightarrow> bool" where
  "is_success st \<longleftrightarrow> 200 \<le> st \<and> st < 300"

text \<open>The JSON of a reply, whatever its status; and the body of a reply, provided the status is a success.\<close>

definition json_of_reply :: "(string \<Rightarrow> json option) \<Rightarrow> string \<Rightarrow> wire_reply \<Rightarrow> json res" where
  "json_of_reply parse what r =
     (case r of
        Unanswered m \<Rightarrow> Inl (UpstreamUnreachable (''pool '' @ what))
      | Replied st body \<Rightarrow> ok_or (UpstreamUnexpected (''pool '' @ what @ '' decode'')) (parse body))"

definition accepted_body :: "string \<Rightarrow> wire_reply \<Rightarrow> string res" where
  "accepted_body what r =
     (case r of
        Unanswered m \<Rightarrow> Inl (UpstreamUnreachable (''pool '' @ what))
      | Replied st body \<Rightarrow>
          if is_success st then Inr body else Inl (UpstreamUnexpected (''pool '' @ what @ '' rejected: '' @ body)))"

section \<open>Quotes\<close>

fun direction_name :: "direction \<Rightarrow> string" where
  "direction_name ExferToBnb = ''exfer_to_bnb''"
| "direction_name BnbToExfer = ''bnb_to_exfer''"

fun flow_name :: "flow \<Rightarrow> string" where
  "flow_name V1 = ''v1''"
| "flow_name V2 = ''v2''"

definition text_or_null :: "string option \<Rightarrow> json" where
  "text_or_null x = (case x of None \<Rightarrow> JNull | Some s \<Rightarrow> JStr s)"

definition quote_body :: "direction \<Rightarrow> string \<Rightarrow> string option \<Rightarrow> string option \<Rightarrow> string option \<Rightarrow> flow \<Rightarrow> json" where
  "quote_body dir amt h bsc ex fl =
     JObj [(''direction'', JStr (direction_name dir)), (''amount_in'', JStr amt), (''hashlock'', text_or_null h),
       (''user_bsc_address'', text_or_null bsc), (''user_exfer_address'', text_or_null ex), (''flow'', JStr (flow_name fl))]"

text \<open>
  The decoding that \<open>serde\<close> derives, for objects: a member that must be there, one that may be absent or null,
  and one with a default.  (That \<open>serde\<close> also takes an array for a struct is left out.)
\<close>

definition must :: "(json \<Rightarrow> 'a option) \<Rightarrow> json \<Rightarrow> string \<Rightarrow> 'a option" where
  "must d v k = Option.bind (jget v k) d"

definition may :: "(json \<Rightarrow> 'a option) \<Rightarrow> json \<Rightarrow> string \<Rightarrow> 'a option option" where
  "may d v k = (case jget v k of None \<Rightarrow> Some None | Some JNull \<Rightarrow> Some None | Some x \<Rightarrow> map_option Some (d x))"

definition or_default :: "'a \<Rightarrow> (json \<Rightarrow> 'a option) \<Rightarrow> json \<Rightarrow> string \<Rightarrow> 'a option" where
  "or_default z d v k = (case jget v k of None \<Rightarrow> Some z | Some x \<Rightarrow> d x)"

definition as_u32 :: "json \<Rightarrow> u32 option" where
  "as_u32 v = (case v of JInt n \<Rightarrow> if 0 \<le> n \<and> n < 2 ^ 32 then Some (word_of_int n) else None | _ \<Rightarrow> None)"

definition decode_bsc :: "json \<Rightarrow> bsc_instr option" where
  "decode_bsc v =
     Option.bind (must as_str v ''htlcContract'') (\<lambda>c.
     Option.bind (must as_str v ''recipient'') (\<lambda>r.
     Option.bind (must as_u64 v ''timeoutSec'') (\<lambda>t.
     Some \<lparr>bi_htlc_contract = c, bi_recipient = r, bi_timeout_sec = t\<rparr>)))"

definition decode_exfer :: "json \<Rightarrow> exfer_instr option" where
  "decode_exfer v =
     Option.bind (must as_str v ''receiverPubkey'') (\<lambda>r.
     Option.bind (must as_u64 v ''timeoutHeight'') (\<lambda>t.
     Some \<lparr>ei_receiver_pubkey = r, ei_timeout_height = t\<rparr>))"

fun decode_instructions :: "json \<Rightarrow> (bsc_instr option \<times> exfer_instr option) option" where
  "decode_instructions (JObj fs) =
     Option.bind (may decode_bsc (JObj fs) ''bsc'') (\<lambda>b.
     Option.bind (may decode_exfer (JObj fs) ''exfer'') (\<lambda>e. Some (b, e)))"
| "decode_instructions _ = None"

text \<open>The member \<open>flow\<close> is decoded but not read.\<close>

definition decode_quote :: "json \<Rightarrow> quote_resp option" where
  "decode_quote v =
     Option.bind (must as_str v ''swapId'') (\<lambda>i.
     Option.bind (must as_str v ''amountIn'') (\<lambda>ai.
     Option.bind (must as_str v ''amountOut'') (\<lambda>ao.
     Option.bind (must as_str v ''amountInUnits'') (\<lambda>aiu.
     Option.bind (must as_str v ''amountOutUnits'') (\<lambda>aou.
     Option.bind (must as_u64 v ''expiresAt'') (\<lambda>ex.
     Option.bind (or_default 0 as_u32 v ''feeBps'') (\<lambda>fee.
     Option.bind (may as_str v ''networkFeeBnb'') (\<lambda>net.
     Option.bind (may as_str v ''htlcContract'') (\<lambda>htlc.
     Option.bind (may as_str v ''hashlock'') (\<lambda>h.
     Option.bind (may as_str v ''flow'') (\<lambda>_.
     Option.bind (must decode_instructions v ''instructions'') (\<lambda>(b, e).
     Some \<lparr>q_swap_id = i, q_amount_in = ai, q_amount_out = ao, q_amount_in_units = aiu, q_amount_out_units = aou,
        q_expires_at = ex, q_fee_bps = fee, q_network_fee_bnb = net, q_htlc_contract = htlc, q_hashlock = h,
        q_bsc = b, q_exfer = e\<rparr>))))))))))))"

record pool_lib =
  po_parse :: "string \<Rightarrow> json option"
  po_hex :: "bytes \<Rightarrow> string"

definition pool_ask_quote ::
    "pool_lib \<Rightarrow> pool_client \<Rightarrow> http \<Rightarrow> direction \<Rightarrow> string \<Rightarrow> string option \<Rightarrow> string option \<Rightarrow> string option \<Rightarrow> flow
     \<Rightarrow> quote_resp res" where
  "pool_ask_quote P c net dir amt h bsc ex fl =
     bind_ok (accepted_body ''/api/quote''
       (net \<lparr>rq_url = pc_base c @ ''/api/quote'', rq_body = Some (quote_body dir amt h bsc ex fl)\<rparr>)) (\<lambda>body.
     ok_or (UpstreamUnexpected ''pool quote decode'') (Option.bind (po_parse P body) decode_quote))"

section \<open>The other calls\<close>

definition lp_get :: "pool_lib \<Rightarrow> pool_client \<Rightarrow> http \<Rightarrow> string \<Rightarrow> json res" where
  "lp_get P c net path = json_of_reply (po_parse P) path (net \<lparr>rq_url = pc_base c @ path, rq_body = None\<rparr>)"

definition lp_post :: "pool_lib \<Rightarrow> pool_client \<Rightarrow> http \<Rightarrow> string \<Rightarrow> json \<Rightarrow> json res" where
  "lp_post P c net path body = json_of_reply (po_parse P) path (net \<lparr>rq_url = pc_base c @ path, rq_body = Some body\<rparr>)"

definition pool_fetch_info :: "pool_lib \<Rightarrow> pool_client \<Rightarrow> http \<Rightarrow> json res" where
  "pool_fetch_info P c net = json_of_reply (po_parse P) ''/api/pool'' (net \<lparr>rq_url = pc_base c @ ''/api/pool'', rq_body = None\<rparr>)"

definition pool_fetch_swap :: "pool_lib \<Rightarrow> pool_client \<Rightarrow> http \<Rightarrow> string \<Rightarrow> json res" where
  "pool_fetch_swap P c net i =
     json_of_reply (po_parse P) ''/api/swap'' (net \<lparr>rq_url = pc_base c @ ''/api/swap/'' @ i, rq_body = None\<rparr>)"

definition stranded_of :: "json \<Rightarrow> stranded_lock option" where
  "stranded_of l =
     Option.bind (must as_str l ''hashlock'') (\<lambda>h.
     Option.bind (must as_str l ''htlcContract'') (\<lambda>c. Some \<lparr>sl_hashlock = h, sl_contract = c\<rparr>))"

definition pool_stranded_locks :: "pool_lib \<Rightarrow> pool_client \<Rightarrow> http \<Rightarrow> string \<Rightarrow> stranded_lock list res" where
  "pool_stranded_locks P c net bsc =
     bind_ok (json_of_reply (po_parse P) ''stranded-locks''
       (net \<lparr>rq_url = pc_base c @ ''/api/stranded-locks'', rq_body = Some (JObj [(''bsc_address'', JStr bsc)])\<rparr>)) (\<lambda>v.
     Inr (case Option.bind (jget v ''locks'') as_array of None \<Rightarrow> [] | Some ls \<Rightarrow> List.map_filter stranded_of ls))"

definition swap_request :: "pool_client \<Rightarrow> string \<Rightarrow> string \<Rightarrow> json \<Rightarrow> request" where
  "swap_request c i what body = \<lparr>rq_url = pc_base c @ ''/api/swap/'' @ i @ ''/'' @ what, rq_body = Some body\<rparr>"

text \<open>The notification is not checked beyond its delivery.\<close>

definition pool_notify_lock :: "pool_client \<Rightarrow> http \<Rightarrow> string \<Rightarrow> string \<Rightarrow> unit res" where
  "pool_notify_lock c net i tx =
     (case net (swap_request c i ''notify-exfer-lock'' (JObj [(''exfer_lock_tx_id'', JStr tx)])) of
        Unanswered m \<Rightarrow> Inl (UpstreamUnreachable ''pool notify-exfer-lock'')
      | Replied st body \<Rightarrow> Inr ())"

definition pool_relay_claim :: "pool_lib \<Rightarrow> pool_client \<Rightarrow> http \<Rightarrow> string \<Rightarrow> string \<Rightarrow> json res" where
  "pool_relay_claim P c net i pre =
     bind_ok (accepted_body ''relay-claim'' (net (swap_request c i ''relay-claim'' (JObj [(''preimage'', JStr pre)])))) (\<lambda>body.
     ok_or (UpstreamUnexpected ''relay-claim decode'') (po_parse P body))"

definition pool_commit :: "pool_client \<Rightarrow> http \<Rightarrow> string \<Rightarrow> unit res" where
  "pool_commit c net i = bind_ok (accepted_body ''commit'' (net (swap_request c i ''commit'' (JObj [])))) (\<lambda>_. Inr ())"

definition pool_presigned_claim :: "pool_client \<Rightarrow> http \<Rightarrow> string \<Rightarrow> string \<Rightarrow> nat \<Rightarrow> unit res" where
  "pool_presigned_claim c net i tx_hex off =
     bind_ok (accepted_body ''presigned-claim'' (net (swap_request c i ''presigned-claim''
       (JObj [(''tx_hex'', JStr tx_hex), (''preimage_offset'', JInt (int off))])))) (\<lambda>_. Inr ())"

section \<open>The proxies of the engine\<close>

definition pool_info :: "pool_lib \<Rightarrow> pool_client \<Rightarrow> http \<Rightarrow> json res" where
  "pool_info P c net =
     bind_ok (pool_fetch_info P c net) (\<lambda>v.
     let reserve = (\<lambda>k. case jget v ''reserves'' of None \<Rightarrow> JNull | Some r \<Rightarrow> member_or_null r k) in
     Inr (JObj [(''mid_price_bnb_per_exfer'', member_or_null v ''mid_price_bnb_per_exfer''),
       (''fee_bps'', member_or_null v ''fee_bps''), (''max_swap_bps'', member_or_null v ''max_swap_bps''),
       (''exfer_reserve'', reserve ''exfer''), (''bnb_reserve'', reserve ''bnb'')]))"

definition lp_pool_info :: "pool_lib \<Rightarrow> pool_client \<Rightarrow> http \<Rightarrow> json res" where
  "lp_pool_info P c net = lp_get P c net ''/api/lp''"

definition price_klines :: "pool_lib \<Rightarrow> pool_client \<Rightarrow> http \<Rightarrow> string \<Rightarrow> u32 \<Rightarrow> json res" where
  "price_klines P c net interval limit =
     lp_get P c net (''/api/price/klines?interval='' @ interval @ ''&limit='' @ map (\<lambda>b. char_of (unat b)) (digits (unat limit)))"

definition lp_position :: "pool_lib \<Rightarrow> pool_client \<Rightarrow> http \<Rightarrow> string \<Rightarrow> json res" where
  "lp_position P c net addr = lp_get P c net (''/api/lp/position/'' @ addr)"

definition lp_deposit_start :: "pool_lib \<Rightarrow> pool_client \<Rightarrow> http \<Rightarrow> string \<Rightarrow> string \<Rightarrow> json res" where
  "lp_deposit_start P c net ex bsc =
     lp_post P c net ''/api/lp/deposit/start'' (JObj [(''exfer_address'', JStr ex), (''bsc_address'', JStr bsc)])"

definition lp_deposit_status :: "pool_lib \<Rightarrow> pool_client \<Rightarrow> http \<Rightarrow> string \<Rightarrow> json res" where
  "lp_deposit_status P c net i = lp_get P c net (''/api/lp/deposit/'' @ i)"

definition lp_withdraw_self :: "pool_lib \<Rightarrow> pool_client \<Rightarrow> http \<Rightarrow> string \<Rightarrow> string \<Rightarrow> json res" where
  "lp_withdraw_self P c net ex shares =
     lp_post P c net ''/api/lp/withdraw/self'' (JObj [(''exfer_address'', JStr ex), (''shares'', JStr shares)])"

section \<open>The pool as the engine sees it\<close>

definition swap_of_json :: "json \<Rightarrow> pool_swap" where
  "swap_of_json v = \<lparr>ps_status = must as_str v ''status'', ps_lock_tx = must as_str v ''poolLockTxhash'',
     ps_claim_tx = must as_str v ''userClaimTxhash'', ps_notes = must as_str v ''notes''\<rparr>"

definition pool_services :: "pool_lib \<Rightarrow> pool_client \<Rightarrow> http \<Rightarrow> services \<Rightarrow> services" where
  "pool_services P c net s = s\<lparr>
     pool_quote := pool_ask_quote P c net,
     pool_get_swap := (\<lambda>i. bind_ok (pool_fetch_swap P c net i) (\<lambda>v. Inr (swap_of_json v))),
     pool_stranded := (\<lambda>our. pool_stranded_locks P c net (''0x'' @ po_hex P our)),
     pool_reply := (\<lambda>a. case a of
         CommitSwap i \<Rightarrow> bind_ok (pool_commit c net i) (\<lambda>_. Inr None)
       | NotifyExferLock i tx \<Rightarrow> bind_ok (pool_notify_lock c net i tx) (\<lambda>_. Inr None)
       | RelayClaim i pre \<Rightarrow> bind_ok (pool_relay_claim P c net i pre) (\<lambda>v. Inr (must as_str v ''txhash''))
       | HandPresigned i tx off \<Rightarrow> bind_ok (pool_presigned_claim c net i tx off) (\<lambda>_. Inr None)
       | _ \<Rightarrow> pool_reply s a)\<rparr>"

end
