(* ===== verification/ApiSwap.thy ===== *)
theory ApiSwap imports ApiWallet SwapMonitor PoolClient begin

text \<open>
  The swap and BSC methods of the API (\<open>src/api/swap.rs\<close>).  They need the engine, which is there only when a pool is
  configured; the BSC key lives in the keystore and is reached without the engine.  Spend caps meet the swaps here
  and nowhere else: a sell may not be quoted while caps are active.
\<close>

section \<open>The engine\<close>

definition not_configured :: error where
  "not_configured = BadParams ''swap not configured (set --swap-pool)''"

definition with_engine :: "'a step \<Rightarrow> world \<Rightarrow> engine option \<Rightarrow> engine option \<times> 'a res" where
  "with_engine m w eng =
     (case eng of
        None \<Rightarrow> (None, Inl not_configured)
      | Some e \<Rightarrow> (case m w e of (e1, r) \<Rightarrow> (Some e1, r)))"

section \<open>Quoting\<close>

definition parse_direction :: "string \<Rightarrow> direction res" where
  "parse_direction s =
     (if s = ''exfer_to_bnb'' then Inr ExferToBnb
      else if s = ''bnb_to_exfer'' then Inr BnbToExfer
      else Inl (BadParams (''unknown swap direction: '' @ s)))"

definition parse_flow :: "string option \<Rightarrow> flow res" where
  "parse_flow f =
     (case f of
        None \<Rightarrow> Inr V1
      | Some s \<Rightarrow> if s = ''v1'' then Inr V1 else if s = ''v2'' then Inr V2
                 else Inl (BadParams (''unknown swap flow '' @ s)))"

record quote_params =
  qp_direction :: string
  qp_amount_in :: string
  qp_from :: string
  qp_flow :: "string option"

text \<open>The checks before the engine: the direction, the caps, and then the flow.\<close>

definition check_quote :: "allowance_caps \<Rightarrow> quote_params \<Rightarrow> (direction \<times> flow) res" where
  "check_quote limits p =
     bind_ok (parse_direction (qp_direction p)) (\<lambda>dir.
     bind_ok (ensure (BadParams ''exfer_to_bnb swaps are refused while spend caps are configured'')
                (\<not> (dir = ExferToBnb \<and> is_active limits))) (\<lambda>_.
     bind_ok (parse_flow (qp_flow p)) (\<lambda>fl. Inr (dir, fl))))"

definition swap_get_quote ::
    "allowance_caps \<Rightarrow> quote_params \<Rightarrow> world \<Rightarrow> engine option \<Rightarrow> engine option \<times> swap_record res" where
  "swap_get_quote limits p w eng =
     (case check_quote limits p of
        Inl d \<Rightarrow> (eng, Inl d)
      | Inr (dir, fl) \<Rightarrow> with_engine (get_quote dir (qp_amount_in p) (qp_from p) fl) w eng)"

section \<open>Swaps\<close>

definition swap_execute :: "string \<Rightarrow> world \<Rightarrow> engine option \<Rightarrow> engine option \<times> swap_record res" where
  "swap_execute i = with_engine (execute i)"

definition swap_refund :: "string \<Rightarrow> world \<Rightarrow> engine option \<Rightarrow> engine option \<times> swap_record res" where
  "swap_refund i = with_engine (SwapSettle.refund i)"

definition known_swap :: "string \<Rightarrow> swap_record step" where
  "known_swap i = bind_step (lookup i) (need (BadParams (''unknown swap_id '' @ i)))"

definition swap_status_method :: "string \<Rightarrow> world \<Rightarrow> engine option \<Rightarrow> engine option \<times> swap_record res" where
  "swap_status_method i = with_engine (known_swap i)"

text \<open>The outcome of the turn is dropped; the record is read again.\<close>

definition swap_refresh :: "string \<Rightarrow> world \<Rightarrow> engine option \<Rightarrow> engine option \<times> swap_record res" where
  "swap_refresh i =
     with_engine (bind_step (known_swap i) (\<lambda>r. bind_step (ignoring (advance r)) (\<lambda>_. known_swap i)))"

definition swap_list :: "world \<Rightarrow> engine option \<Rightarrow> engine option \<times> swap_record list res" where
  "swap_list = with_engine (\<lambda>w e. (e, Inr (journal_list (swaps e))))"

section \<open>The pool\<close>

text \<open>A call that only asks the pool.\<close>

definition on_pool :: "(http \<Rightarrow> json res) \<Rightarrow> http \<Rightarrow> engine option \<Rightarrow> json res" where
  "on_pool f net eng = (case eng of None \<Rightarrow> Inl not_configured | Some _ \<Rightarrow> f net)"

definition swap_pool_info :: "pool_lib \<Rightarrow> pool_client \<Rightarrow> http \<Rightarrow> engine option \<Rightarrow> json res" where
  "swap_pool_info P c = on_pool (pool_info P c)"

definition is_alphanumeric :: "char \<Rightarrow> bool" where
  "is_alphanumeric c \<longleftrightarrow> (let n = of_char c :: nat in (48 \<le> n \<and> n \<le> 57) \<or> (65 \<le> n \<and> n \<le> 90) \<or> (97 \<le> n \<and> n \<le> 122))"

definition kline_interval :: "json \<Rightarrow> string" where
  "kline_interval params =
     (let s = (case Option.bind (jget params ''interval'') as_str of Some s \<Rightarrow> s | None \<Rightarrow> ''1d'')
      in if length s \<le> 4 \<and> list_all is_alphanumeric s then s else ''1d'')"

definition kline_limit :: "json \<Rightarrow> u32" where
  "kline_limit params =
     ucast (min (case Option.bind (jget params ''limit'') as_u64 of Some n \<Rightarrow> n | None \<Rightarrow> 120) 500)"

definition swap_price_klines :: "pool_lib \<Rightarrow> pool_client \<Rightarrow> json \<Rightarrow> http \<Rightarrow> engine option \<Rightarrow> json res" where
  "swap_price_klines P c params = on_pool (\<lambda>net. price_klines P c net (kline_interval params) (kline_limit params))"

definition lp_pool_info_method :: "pool_lib \<Rightarrow> pool_client \<Rightarrow> http \<Rightarrow> engine option \<Rightarrow> json res" where
  "lp_pool_info_method P c = on_pool (lp_pool_info P c)"

definition lp_position_method :: "pool_lib \<Rightarrow> pool_client \<Rightarrow> string \<Rightarrow> http \<Rightarrow> engine option \<Rightarrow> json res" where
  "lp_position_method P c addr = on_pool (\<lambda>net. lp_position P c net addr)"

definition lp_deposit_start_method :: "pool_lib \<Rightarrow> pool_client \<Rightarrow> string \<Rightarrow> string \<Rightarrow> http \<Rightarrow> engine option \<Rightarrow> json res" where
  "lp_deposit_start_method P c ex bsc = on_pool (\<lambda>net. lp_deposit_start P c net ex bsc)"

definition lp_deposit_status_method :: "pool_lib \<Rightarrow> pool_client \<Rightarrow> string \<Rightarrow> http \<Rightarrow> engine option \<Rightarrow> json res" where
  "lp_deposit_status_method P c i = on_pool (\<lambda>net. lp_deposit_status P c net i)"

definition lp_withdraw_self_method :: "pool_lib \<Rightarrow> pool_client \<Rightarrow> string \<Rightarrow> string \<Rightarrow> http \<Rightarrow> engine option \<Rightarrow> json res" where
  "lp_withdraw_self_method P c ex shares = on_pool (\<lambda>net. lp_withdraw_self P c net ex shares)"

section \<open>The BSC key\<close>

definition bsc_get_address :: "'p site \<Rightarrow> wallet \<Rightarrow> wallet \<times> (string option \<times> bool) res" where
  "bsc_get_address si w =
     (case on_keys si (evm_address_opt (st_kit si)) w of
        (w1, r) \<Rightarrow> (w1, bind_ok r (\<lambda>a. Inr (a, a \<noteq> None))))"

definition bsc_create_address :: "'p site \<Rightarrow> bool \<Rightarrow> wallet \<Rightarrow> wallet \<times> (string \<times> string list) res" where
  "bsc_create_address si force = on_keys si (create_evm_key (st_kit si) force)"

definition bsc_reveal_mnemonic :: "'p site \<Rightarrow> bytes \<Rightarrow> wallet \<Rightarrow> wallet \<times> string list res" where
  "bsc_reveal_mnemonic si pass = on_keys si (reveal_evm_mnemonic (st_kit si) pass)"

definition bsc_import_mnemonic :: "'p site \<Rightarrow> string \<Rightarrow> bool \<Rightarrow> wallet \<Rightarrow> wallet \<times> string res" where
  "bsc_import_mnemonic si phrase overwrite = on_keys si (import_evm_mnemonic (st_kit si) phrase overwrite)"

text \<open>The text of a key: white space around it and one prefix are dropped.\<close>

definition parse_evm_key :: "'p site \<Rightarrow> string \<Rightarrow> bytes res" where
  "parse_evm_key si s =
     (let t = str_trim s;
          h = (if take 2 t = ''0x'' then drop 2 t else t) in
      bind_ok (ok_or (BadHex ''bsc_import_key private_key'') (hex_decode (st_chain si) h)) (\<lambda>raw.
      if length raw = 32 then Inr raw
      else Inl (BadParams ''private key must be 32 bytes (64 hex chars)'')))"

definition bsc_import_key :: "'p site \<Rightarrow> string \<Rightarrow> bool \<Rightarrow> wallet \<Rightarrow> wallet \<times> string res" where
  "bsc_import_key si s overwrite w =
     (case parse_evm_key si s of
        Inl e \<Rightarrow> (w, Inl e)
      | Inr secret \<Rightarrow> on_keys si (import_evm_key (st_kit si) secret overwrite) w)"

definition bsc_delete_key :: "'p site \<Rightarrow> bytes \<Rightarrow> wallet \<Rightarrow> wallet \<times> unit res" where
  "bsc_delete_key si pass = on_keys si (delete_evm_key (st_kit si) pass)"

definition bsc_get_balances :: "world \<Rightarrow> engine option \<Rightarrow> engine option \<times> (nat \<times> nat) res" where
  "bsc_get_balances = with_engine bsc_balances"

definition bsc_send_bnb :: "string \<Rightarrow> string \<Rightarrow> world \<Rightarrow> engine option \<Rightarrow> engine option \<times> string res" where
  "bsc_send_bnb to amount_human = with_engine (send_bnb to amount_human)"

definition bsc_tx_history :: "world \<Rightarrow> engine option \<Rightarrow> engine option \<times> (u64 \<times> bnb_tx list) res" where
  "bsc_tx_history = with_engine bnb_tx_history"

end
