(* ===== verification/ApiSwapRules.thy ===== *)
theory ApiSwapRules imports ApiSwap ApiWalletRules SwapTurns begin

text \<open>
  What the pool's answers and the spend caps mean where they meet other components: the deletion of a key, the commitment
  to a swap, and the sells that caps are to prevent.
\<close>

section \<open>Failing pools\<close>

text \<open>A pool whose every answer is a page with this status and body, and a parser that reads it as an object.\<close>

definition failing_pool :: "nat \<Rightarrow> http" where
  "failing_pool st = (\<lambda>_. Replied st ''error page'')"

definition page_lib :: pool_lib where
  "page_lib = \<lparr>po_parse = (\<lambda>_. Some (JObj [(''error'', JStr ''busy'')])), po_hex = hexes\<rparr>"

definition pool_at :: pool_client where
  "pool_at = pool_client_new (\<lambda>_. True) ''http://p'' None"

text \<open>An error page of the pool counts as an answer.  The status of a reply is not looked at where the position of
  an address is asked for: a pool that fails with any status, and a JSON body that says so, makes the guard of
  a deletion pass, and the key, which may own shares of the pool, is deleted without force.\<close>

theorem error_page_frees_the_key:
  "\<exists>w1 r. delete_address_method hex_site (\<lambda>_. Inr 0) (Some (lp_position page_lib pool_at (failing_pool st))) last_wish hex_wallet = (w1, r)
     \<and> managed (memory (wl_keys hex_wallet)) hex_name \<and> \<not> managed (memory (wl_keys w1)) hex_name"
proof -
  let ?lp = "lp_position page_lib pool_at (failing_pool st)"
  obtain w1 r where d: "delete_address_method hex_site (\<lambda>_. Inr 0) (Some ?lp) last_wish hex_wallet = (w1, r)"
    by fastforce
  have "?lp a = Inr (JObj [(''error'', JStr ''busy'')])" for a
    by (simp add: lp_position_def lp_get_def json_of_reply_def failing_pool_def page_lib_def)
  then have "wl_keys w1 = fst (delete_address hex_kit hex_name [112] quiet_host hex_keys)"
    using d by (auto simp: delete_address_method_def last_wish_def hex_name_ok balance_guard_def pool_guard_def owns_shares_def
        on_keys_def hex_wallet_def split: prod.splits)
  then have "\<not> managed (memory (wl_keys w1)) hex_name" using hex_delete by simp
  moreover have "managed (memory (wl_keys hex_wallet)) hex_name" by (simp add: hex_wallet_def hex_keys managed_def)
  ultimately show ?thesis using d by blast
qed

text \<open>A commitment needs the pool's yes.  In a world whose pool is reached over HTTP, the execution of a quoted swap
  of the reversed flow marks it as committing only when the pool has answered the commitment with a success;
  after any other answer the swap is still quoted.\<close>

theorem commit_needs_success:
  assumes "\<And>n. at w n = pool_services P c (net n) (base n)"
    and "map_of (records (swaps e)) i = Some r" "status r = Quoted" "flow r = V2"
    and "map_of (records (swaps (after (execute i) w e))) i = Some q" "status q = Committing"
  shows "\<exists>n st body. net n \<lparr>rq_url = pc_base c @ ''/api/swap/'' @ i @ ''/commit'', rq_body = Some (JObj [])\<rparr> = Replied st body
           \<and> is_success st"
proof (rule ccontr)
  assume no: "\<not> ?thesis"
  have fails: "\<exists>d. pool_reply (at w n) (CommitSwap i) = Inl d" for n
    using no by (auto simp: assms(1) pool_services_def pool_commit_def accepted_body_def swap_request_def split: wire_reply.split)
  have "wp (execute i) w e (\<lambda>e1 _. \<exists>q. map_of (records (swaps e1)) i = Some q \<and> status q \<noteq> Committing)"
    using assms(2-4) fails [of "Suc (calls e)"]
    by (auto simp: execute_def execute_v2_def wp_simps wp_update_at journal_get_def journal_update_def persist_locked_def
        split: option.splits sum.splits)
  then show False using assms(5,6) by (auto simp: wp_run)
qed

text \<open>The sample world behind a pool client whose pool says yes to everything, and a swap of the reversed flow.\<close>

definition kind_pool :: http where
  "kind_pool = (\<lambda>_. Replied 200 ''ok'')"

definition pooled_world :: world where
  "pooled_world = sample_world\<lparr>at := (\<lambda>_. pool_services page_lib pool_at kind_pool sample_services)\<rparr>"

definition quoted_v2 :: swap_record where
  "quoted_v2 = (sample_swap ExferToBnb)\<lparr>flow := V2\<rparr>"

theorem commit_needs_success_witness:
  "\<exists>q. map_of (records (swaps (after (execute ''s'') pooled_world (one_swap quoted_v2 0 [])))) ''s'' = Some q \<and> status q = Committing
     \<and> (\<exists>st body. kind_pool \<lparr>rq_url = ''http://p/api/swap/s/commit'', rq_body = Some (JObj [])\<rparr> = Replied st body \<and> is_success st)"
proof -
  let ?e = "one_swap quoted_v2 0 []"
  have w: "at pooled_world n = pool_services page_lib pool_at kind_pool sample_services" for n
    by (simp add: pooled_world_def)
  have r: "map_of (records (swaps ?e)) ''s'' = Some quoted_v2" "status quoted_v2 = Quoted" "flow quoted_v2 = V2"
    by (simp_all add: runs quoted_v2_def)
  obtain q where q: "map_of (records (swaps (after (execute ''s'') pooled_world ?e))) ''s'' = Some q" "status q = Committing"
    by (simp add: runs quoted_v2_def execute_def execute_v2_def pooled_world_def pool_services_def pool_commit_def
        accepted_body_def kind_pool_def is_success_def result_simps)
  have url: "pc_base pool_at @ ''/api/swap/'' @ ''s'' @ ''/commit'' = ''http://p/api/swap/s/commit''"
    by (simp add: pool_at_def pool_client_new_def trim_end_matches_def)
  from commit_needs_success [OF w r q] q show ?thesis unfolding url by blast
qed

section \<open>Caps\<close>

text \<open>The sells an engine knows of, in memory or in the file.\<close>

definition sells :: "engine \<Rightarrow> string set" where
  "sells e = {i. \<exists>r. (i, r) \<in> set (records (swaps e)) \<union> set (sealed (swaps e)) \<and> direction r = ExferToBnb}"

text \<open>What happens to a daemon under caps: quotes come through the API, everything else as it does.\<close>

inductive capped :: "world \<Rightarrow> allowance_caps \<Rightarrow> engine \<Rightarrow> engine \<Rightarrow> bool" for w limits e0 where
  capped_start: "capped w limits e0 e0"
| capped_quote: "capped w limits e0 e \<Longrightarrow> swap_get_quote limits p w (Some e) = (Some e1, r) \<Longrightarrow> capped w limits e0 e1"
| capped_other: "capped w limits e0 e \<Longrightarrow> (\<And>dir amt addr fl. ev \<noteq> GetQuote dir amt addr fl) \<Longrightarrow>
    capped w limits e0 (happen ev w e)"

text \<open>Journals in good order, in memory and in the file, with no sell but those of a set.\<close>

definition admits :: "string set \<Rightarrow> engine \<Rightarrow> bool" where
  "admits S e \<longleftrightarrow> well_keyed (records (swaps e)) \<and> well_keyed (sealed (swaps e)) \<and> sells e \<subseteq> S"

lemma admits_session [simp]:
  "admits S (e\<lparr>calls := n\<rparr>) = admits S e" "admits S (e\<lparr>calls := n, trace := tr\<rparr>) = admits S e"
  "admits S (e\<lparr>swept_locks := A\<rparr>) = admits S e" "admits S (e\<lparr>swept_bnb := B\<rparr>) = admits S e"
  "admits S (e\<lparr>bsc_sweep_cursor := c\<rparr>) = admits S e" "admits S (e\<lparr>bnb_txs := l\<rparr>) = admits S e"
  by (simp_all add: admits_def sells_def)

lemma file_written:
  "sealed (swaps (after (update_at now i f) w e)) \<in> {sealed (swaps e), records (swaps (after (update_at now i f) w e))}"
  "sealed (swaps (after (put q) w e)) \<in> {sealed (swaps e), records (swaps (after (put q) w e))}"
  "sealed (swaps (after (remove i) w e)) \<in> {sealed (swaps e), records (swaps (after (remove i) w e))}"
  by (auto simp: after_def update_at_def put_def remove_def journal_update_def journal_put_def journal_remove_def
        persist_locked_def split: option.split prod.split sum.split)

lemma admits_written:
  assumes "admits S e" "well_keyed (records (swaps e1))" "sealed (swaps e1) \<in> {sealed (swaps e), records (swaps e1)}"
    and "\<And>k r. (k, r) \<in> set (records (swaps e1)) \<Longrightarrow> direction r = ExferToBnb \<Longrightarrow> k \<in> sells e"
  shows "admits S e1"
  using assms unfolding admits_def by (force simp: sells_def)

lemma admits_advanced:
  assumes "admits S e" "\<And>r. static (f r) = static r"
  shows "admits S (after (update_at now i f) w e)"
proof (rule admits_written [OF assms(1) _ file_written(1)])
  show "well_keyed (records (swaps (after (update_at now i f) w e)))"
    using assms keyed_advanced by (simp add: admits_def)
  fix k r
  assume r: "(k, r) \<in> set (records (swaps (after (update_at now i f) w e)))" "direction r = ExferToBnb"
  show "k \<in> sells e"
  proof (cases "journal_get i (swaps e)")
    case None
    then show ?thesis using r by (auto simp: written sells_def)
  next
    case (Some q)
    have "direction ((f q)\<lparr>updated_at := now\<rparr>) = direction q" using static_fields(3) [OF assms(2)] by simp
    then have "(k, r) \<in> set (records (swaps e)) \<or> k = i \<and> direction q = ExferToBnb"
      using r set_map_insert [of i "(f q)\<lparr>updated_at := now\<rparr>" "records (swaps e)"] by (auto simp: written(1) [OF Some])
    moreover have "(i, q) \<in> set (records (swaps e))" using Some by (simp add: journal_get_def map_of_SomeD)
    ultimately show ?thesis using r(2) by (auto simp: sells_def)
  qed
qed

lemma admits_dropped: "admits S e \<Longrightarrow> admits S (after (remove i) w e)"
  by (rule admits_written [OF _ _ file_written(3)])
     (auto simp: admits_def well_keyed_remove written sells_def, auto simp: map_remove_def split: if_splits)

lemma admits_buy:
  assumes "admits S e" "direction q = BnbToExfer"
  shows "admits S (after (put q) w e)"
  by (rule admits_written [OF assms(1) _ file_written(2)])
     (use assms set_map_insert [of "swap_id q" q "records (swaps e)"] in \<open>auto simp: admits_def well_keyed_insert written sells_def\<close>)

interpretation sale: whole_predicate "admits S" w for S w
  by unfold_locales
     (auto simp: admits_advanced admits_dropped, auto simp: admits_def journal_get_def intro: well_keyed_lookup)

lemma buy_quote_admits: "keeps (admits S) w (get_quote BnbToExfer amt addr fl)"
proof -
  have "keeps (admits S) w (put q)" if "direction q = BnbToExfer" for q
    using admits_buy that by (simp add: keeps_def wp_run)
  then show ?thesis
    unfolding get_quote_def get_quote_v1_def store_quote_def Let_def
    by (intro keeps_intros sale.keeps_see sale.keeps_looks) (simp_all add: quoted_record_def)
qed


definition one_cap :: allowance_caps where
  "one_cap = default_caps\<lparr>per_tx := Some 1\<rparr>"


text \<open>A sell that is already stored runs past the caps.  Only the quote is refused: the execution of a sell that was
  quoted before the caps were set locks its EXFER, more than one transaction may spend, and
  the ledger is neither asked nor charged.\<close>

theorem stored_sell_runs_past_caps:
  "\<exists>l m r. caps l = one_cap \<and> is_active (caps l) \<and> check_per_tx l 5 \<noteq> Inr ()
     \<and> swap_execute ''s'' sample_world (Some (one_swap (sample_swap ExferToBnb) 0 [])) =
         (Some (one_swap (sample_locked ExferToBnb) m
            [LockExfer [9] (replicate 32 5) (replicate 32 5) 600 5, NotifyExferLock ''s'' ''tx'']), r)"
proof -
  obtain m where m: "after (execute ''s'') sample_world (one_swap (sample_swap ExferToBnb) 0 []) =
      one_swap (sample_locked ExferToBnb) m [LockExfer [9] (replicate 32 5) (replicate 32 5) 600 5, NotifyExferLock ''s'' ''tx'']"
    using execute_sell_run [of 0 "[]"] by auto
  have "check_per_tx (sample_ledger\<lparr>caps := one_cap\<rparr>) 5 \<noteq> Inr ()"
    by (simp add: check_per_tx_def one_cap_def default_caps_def)
  moreover have "is_active one_cap" by (simp add: one_cap_def default_caps_def is_active_def)
  ultimately show ?thesis
    using m by (intro exI [of _ "sample_ledger\<lparr>caps := one_cap\<rparr>"] exI [of _ m]
        exI [of _ "outcome (execute ''s'') sample_world (one_swap (sample_swap ExferToBnb) 0 [])"])
      (simp add: swap_execute_def with_engine_def after_def outcome_def case_prod_beta)
qed

end
