(* ===== verification/Indexer.thy ===== *)
theory Indexer imports Upstream begin

text \<open>
  The client of the optional indexer (\<open>src/indexer.rs\<close>): its list of URLs, the rotation over them, and a call with
  its attempts.  HTTP is a parameter, the reply to each attempt; a reply is read as JSON whatever its status.
\<close>

section \<open>The client\<close>

record indexer =
  ix_urls :: "string list"
  ix_token :: "string option"
  ix_next :: u64
  ix_attempts :: u32
  ix_backoff_ms :: u64

definition indexer_new :: "string \<Rightarrow> string option \<Rightarrow> indexer res" where
  "indexer_new urls token =
     (let url_list = filter (\<lambda>s. s \<noteq> []) (map trim (split_at (CHR '','') urls)) in
      if url_list = [] then Inl (Internal ''indexer_rpc: at least one URL required'')
      else Inr \<lparr>ix_urls = url_list, ix_token = token, ix_next = 0, ix_attempts = 4, ix_backoff_ms = 500\<rparr>)"

definition with_retry :: "u32 \<Rightarrow> u64 \<Rightarrow> indexer \<Rightarrow> indexer" where
  "with_retry n ms ix = ix\<lparr>ix_attempts := max n 1, ix_backoff_ms := ms\<rparr>"

text \<open>The counter wraps; the place in the list is its remainder.\<close>

definition next_url :: "indexer \<Rightarrow> indexer \<times> string" where
  "next_url ix = (ix\<lparr>ix_next := ix_next ix + 1\<rparr>, ix_urls ix ! (unat (ix_next ix) mod length (ix_urls ix)))"

section \<open>A call\<close>

text \<open>A request that was not answered, or a status with the JSON of the body, if it is JSON.\<close>

datatype indexer_reply = SendFailed string | Body nat "json option"

definition indexer_error :: "json \<Rightarrow> error" where
  "indexer_error err = UpstreamRpc
     (sint (word_of_int (case Option.bind (jget err ''code'') as_i64 of Some n \<Rightarrow> n | None \<Rightarrow> - 32603) :: 32 word))
     (case Option.bind (jget err ''message'') as_str of Some m \<Rightarrow> m | None \<Rightarrow> ''unspecified indexer error'')"

text \<open>What one reply settles: nothing, with the error to remember, or the outcome of the call.\<close>

definition read_reply :: "indexer_reply \<Rightarrow> string + json res" where
  "read_reply r =
     (case r of
        SendFailed m \<Rightarrow> Inl m
      | Body st None \<Rightarrow> Inl ''decode: ''
      | Body st (Some v) \<Rightarrow>
          Inr (case jget v ''error'' of
                 Some err \<Rightarrow> Inl (indexer_error err)
               | None \<Rightarrow> ok_or (UpstreamRpc (- 32603) ''indexer missing result field'') (jget v ''result'')))"

text \<open>
  The attempts from number \<open>k\<close> on, of which \<open>n\<close> are left.  The results are the client, the URLs asked, the waits in
  milliseconds, and the outcome.
\<close>

fun indexer_attempts ::
    "(nat \<Rightarrow> string \<Rightarrow> indexer_reply) \<Rightarrow> nat \<Rightarrow> nat \<Rightarrow> string option \<Rightarrow> indexer \<Rightarrow>
     indexer \<times> string list \<times> u64 list \<times> json res" where
  "indexer_attempts net k 0 last_err ix =
     (ix, [], [], Inl (UpstreamUnreachable (case last_err of Some m \<Rightarrow> m | None \<Rightarrow> ''all attempts exhausted'')))"
| "indexer_attempts net k (Suc n) last_err ix =
     (let waits = (if k > 0 then [saturating_mul (ix_backoff_ms ix) (word_of_nat k)] else []) in
      case next_url ix of
        (ix1, url) \<Rightarrow>
          (case read_reply (net k url) of
             Inr r \<Rightarrow> (ix1, [url], waits, r)
           | Inl m \<Rightarrow>
               (case indexer_attempts net (Suc k) n (Some m) ix1 of
                  (ix2, urls, ws, r) \<Rightarrow> (ix2, url # urls, waits @ ws, r))))"

definition indexer_call :: "(nat \<Rightarrow> string \<Rightarrow> indexer_reply) \<Rightarrow> indexer \<Rightarrow> indexer \<times> string list \<times> u64 list \<times> json res" where
  "indexer_call net ix = indexer_attempts net 0 (unat (ix_attempts ix)) None ix"

section \<open>Properties\<close>

text \<open>The URLs that are asked from a place of the rotation on.\<close>

definition rotation :: "indexer \<Rightarrow> nat \<Rightarrow> string list" where
  "rotation ix n = map (\<lambda>j. ix_urls ix ! (unat (ix_next ix + word_of_nat j) mod length (ix_urls ix))) [0..<n]"

lemma rotation_Suc: "rotation ix (Suc n) = snd (next_url ix) # rotation (fst (next_url ix)) n"
proof -
  have "[0..<Suc n] = 0 # map Suc [0..<n]" by (simp add: upt_conv_Cons map_Suc_upt del: upt_Suc)
  then show ?thesis by (simp add: rotation_def next_url_def algebra_simps del: upt_Suc)
qed

lemma indexer_attempts_result:
  assumes "indexer_attempts net k n e0 ix = (ix1, urls, ws, r)"
  shows "length urls \<le> n \<and> urls = rotation ix (length urls) \<and> ix1 = ix\<lparr>ix_next := ix_next ix + word_of_nat (length urls)\<rparr>
    \<and> ws = map (\<lambda>j. saturating_mul (ix_backoff_ms ix) (word_of_nat j)) (filter (\<lambda>j. 0 < j) [k..<k + length urls])
    \<and> (\<forall>j. Suc j < length urls \<longrightarrow> (\<exists>m. read_reply (net (k + j) (urls ! j)) = Inl m))
    \<and> (n > 0 \<longrightarrow> urls \<noteq> [] \<and>
         ((\<exists>m. read_reply (net (k + length urls - 1) (last urls)) = Inl m) \<and> length urls = n
            \<and> (\<exists>m. r = Inl (UpstreamUnreachable m))
          \<or> read_reply (net (k + length urls - 1) (last urls)) = Inr r))"
  using assms
proof (induction n arbitrary: k e0 ix ix1 urls ws r)
  case 0
  then show ?case by (auto simp: rotation_def)
next
  case (Suc n)
  obtain ix2 url where u: "next_url ix = (ix2, url)" by fastforce
  have step: "rotation ix (Suc i) = url # rotation ix2 i" "ix_backoff_ms ix2 = ix_backoff_ms ix"
    "ix2 = ix\<lparr>ix_next := ix_next ix + 1\<rparr>" for i
    using u rotation_Suc [of ix i] by (auto simp: next_url_def)
  show ?case
  proof (cases "read_reply (net k url)")
    case (Inr x)
    then show ?thesis using Suc.prems u step(1) [of 0] step(3) by (auto simp: Let_def rotation_def)
  next
    case (Inl m)
    obtain us ws' where rest: "indexer_attempts net (Suc k) n (Some m) ix2 = (ix1, us, ws', r)"
      and urls: "urls = url # us" "ws = (if k > 0 then [saturating_mul (ix_backoff_ms ix) (word_of_nat k)] else []) @ ws'"
      using Suc.prems u Inl by (auto simp: Let_def split: prod.splits)
    note IH = Suc.IH [OF rest]
    have "[k..<k + length urls] = k # [Suc k..<k + length urls]" by (rule upt_conv_Cons) (simp add: urls)
    moreover have "k + length urls = Suc k + length us" using urls by simp
    ultimately have "[k..<k + length urls] = k # [Suc k..<Suc k + length us]" by simp
    then have ws: "ws = map (\<lambda>j. saturating_mul (ix_backoff_ms ix) (word_of_nat j)) (filter (\<lambda>j. 0 < j) [k..<k + length urls])"
      using IH urls step(2) by simp
    have prior: "\<forall>j. Suc j < length urls \<longrightarrow> (\<exists>m. read_reply (net (k + j) (urls ! j)) = Inl m)"
    proof (intro allI impI)
      fix j
      assume j: "Suc j < length urls"
      show "\<exists>m. read_reply (net (k + j) (urls ! j)) = Inl m"
        using IH j Inl urls by (cases j) auto
    qed
    have out: "(\<exists>m. read_reply (net (k + length urls - 1) (last urls)) = Inl m) \<and> length urls = Suc n
        \<and> (\<exists>m. r = Inl (UpstreamUnreachable m)) \<or> read_reply (net (k + length urls - 1) (last urls)) = Inr r"
    proof (cases n)
      case 0
      then show ?thesis using rest urls Inl by auto
    next
      case (Suc i)
      then show ?thesis using IH urls by auto
    qed
    have rot: "urls = rotation ix (length urls)"
      using IH urls(1) step(1) [of "length us"] by auto
    have cursor: "ix1 = ix\<lparr>ix_next := ix_next ix + word_of_nat (length urls)\<rparr>"
      using IH urls(1) step(3) by (simp add: algebra_simps)
    have len: "length urls \<le> Suc n" "urls \<noteq> []" using IH urls(1) by simp_all
    show ?thesis using len rot cursor ws prior out by blast
  qed
qed



text \<open>An overloaded indexer is not an overloaded node.  The same reply, a page of status 503 with an error in JSON, lets
  a call to the node go on to its other nodes, and ends a call to the indexer at once, as if the request
  had been at fault.\<close>

theorem overload_ends_indexer_call:
  "unreachable (call_one (BadStatus 503))
   \<and> (\<forall>ix. 0 < ix_attempts ix \<longrightarrow>
        snd (snd (snd (indexer_call (\<lambda>k u. Body 503 (Some (JObj [(''error'', JStr ''overloaded'')]))) ix))) =
          Inl (UpstreamRpc (- 32603) ''unspecified indexer error'')
      \<and> length (fst (snd (indexer_call (\<lambda>k u. Body 503 (Some (JObj [(''error'', JStr ''overloaded'')]))) ix))) = 1)"
proof -
  let ?net = "\<lambda>(k :: nat) (u :: string). Body 503 (Some (JObj [(''error'', JStr ''overloaded'')]))"
  have "snd (snd (snd (indexer_call ?net ix))) = Inl (UpstreamRpc (- 32603) ''unspecified indexer error'')
      \<and> length (fst (snd (indexer_call ?net ix))) = 1" if ix: "0 < ix_attempts ix" for ix
  proof -
    obtain n where "unat (ix_attempts ix) = Suc n" using ix by (metis gr0_conv_Suc unat_gt_0 word_gt_0)
    then show ?thesis by (simp add: indexer_call_def next_url_def read_reply_def indexer_error_def)
  qed
  then show ?thesis by (simp add: call_one_def)
qed

end
