(* ===== verification/ApiSim.thy ===== *)
theory ApiSim imports ApiWalletRules begin

text \<open>
  The dry runs (\<open>src/api/simulate.rs\<close>), the payment requests (\<open>src/api/payment_uri.rs\<close>) and the lookups of
  transactions and outputs of the API (\<open>src/api/mod.rs\<close>); and what a dry run tells about the real call.
\<close>

section \<open>Dry runs\<close>

record simulate_params =
  sm_from :: string
  sm_outputs :: "transfer_output list"
  sm_fee_rate :: "u64 option"
  sm_fee :: "u64 option"
  sm_max_fee :: "u64 option"
  sm_datum :: "string option"

text \<open>The checks: those of a transfer, less the token and the allowance; the datum comes before the key.\<close>

definition check_simulation :: "'p site \<Rightarrow> simulate_params \<Rightarrow> (string \<times> (bytes \<times> u64) list \<times> bytes option) res" where
  "check_simulation si p =
     bind_ok (parse_address_hex si (sm_from p)) (\<lambda>(from_addr, _).
     bind_ok (ensure (BadParams ''simulate_transfer: outputs[] must not be empty'') (sm_outputs p \<noteq> [])) (\<lambda>_.
     bind_ok (ensure (TooManyOutputs (length (sm_outputs p)) max_outputs) (length (sm_outputs p) \<le> max_outputs)) (\<lambda>_.
     bind_ok (recipients_of si (sm_outputs p)) (\<lambda>recipients.
     bind_ok (exclusive_fees (sm_fee p) (sm_fee_rate p)) (\<lambda>_.
     bind_ok (decode_datum si (sm_datum p)) (\<lambda>d.
     Inr (from_addr, recipients, d)))))))"

definition simulate_transfer_method :: "'p site \<Rightarrow> simulate_params \<Rightarrow> wallet \<Rightarrow> wallet \<times> simulate_receipt res" where
  "simulate_transfer_method si p w =
     (case check_simulation si p of
        Inl e \<Rightarrow> (w, Inl e)
      | Inr (from_addr, recipients, d) \<Rightarrow>
          (case load_signer si from_addr w of
             (w1, Inl e) \<Rightarrow> (w1, Inl e)
           | (w1, Inr sg) \<Rightarrow>
               (case simulate_transfer (st_chain si) (st_node si) sg recipients d
                       (fee_choice_of (sm_fee p) (sm_fee_rate p)) (fee_cap (sm_max_fee p)) (st_clock si) (wl_claims w1) of
                  (cs, r) \<Rightarrow> (w1\<lparr>wl_claims := cs\<rparr>, r))))"

text \<open>The lock's checks: the forms and the fees, but neither the gate on held locks nor the allowance.\<close>

definition check_lock_simulation :: "'p site \<Rightarrow> htlc_lock_params \<Rightarrow> (bytes \<times> bytes) res" where
  "check_lock_simulation si p =
     bind_ok (ensure_64_hex (hl_from p)) (\<lambda>_.
     bind_ok (ensure_64_hex (hl_receiver p)) (\<lambda>_.
     bind_ok (ensure_64_hex (hl_hash_lock p)) (\<lambda>_.
     bind_ok (exclusive_fees (hl_fee p) (hl_fee_rate p)) (\<lambda>_.
     bind_ok (decode_hash (st_chain si) (hl_receiver p)) (\<lambda>receiver.
     bind_ok (decode_hash (st_chain si) (hl_hash_lock p)) (\<lambda>hash.
     Inr (receiver, hash)))))))"

definition simulate_htlc_lock_method :: "'p site \<Rightarrow> htlc_lock_params \<Rightarrow> wallet \<Rightarrow> wallet \<times> lock_simulation res" where
  "simulate_htlc_lock_method si p w =
     (case check_lock_simulation si p of
        Inl e \<Rightarrow> (w, Inl e)
      | Inr (receiver, hash) \<Rightarrow>
          (case load_signer si (hl_from p) w of
             (w1, Inl e) \<Rightarrow> (w1, Inl e)
           | (w1, Inr sg) \<Rightarrow>
               (case simulate_htlc_lock (st_chain si) (st_cov si) (st_node si) sg receiver hash (hl_timeout p) (hl_paid p)
                       (fee_choice_of (hl_fee p) (hl_fee_rate p)) (fee_cap (hl_max_fee p)) (st_clock si) (wl_claims w1) of
                  (cs, r) \<Rightarrow> (w1\<lparr>wl_claims := cs\<rparr>, r))))"

section \<open>Payment requests\<close>

definition payment_uri_encode :: "payment_uri \<Rightarrow> bytes res" where
  "payment_uri_encode p =
     (if length (address p) \<noteq> 64 \<or> \<not> list_all is_ascii_hexdigit (address p)
      then Inl (BadAddressLen (length (address p) div 2))
      else case hash_lock p of
        Some h \<Rightarrow>
          if length h \<noteq> 64 \<or> \<not> list_all is_ascii_hexdigit h
          then Inl (BadParams ''payment_uri_encode: hash_lock must be 64 hex chars'')
          else Inr (encode p)
      | None \<Rightarrow> Inr (encode p))"

definition payment_uri_decode :: "bytes \<Rightarrow> payment_uri res" where
  "payment_uri_decode u =
     (case decode u of Inl e \<Rightarrow> Inl (BadParams ''payment_uri_decode: '') | Inr p \<Rightarrow> Inr p)"

section \<open>Transactions and outputs\<close>

text \<open>The members of the decoded transaction are put into the response of the node, over members of the same name.\<close>

fun put_members :: "(string \<times> json) list \<Rightarrow> (string \<times> json) list \<Rightarrow> (string \<times> json) list" where
  "put_members obj [] = obj"
| "put_members obj ((k, v) # kvs) = put_members ((k, v) # filter (\<lambda>(k', _). k' \<noteq> k) obj) kvs"

definition with_decoded :: "json \<Rightarrow> json \<Rightarrow> json res" where
  "with_decoded tx extra =
     (case tx of
        JObj obj \<Rightarrow> Inr (JObj (case extra of JObj kvs \<Rightarrow> put_members obj kvs | _ \<Rightarrow> obj))
      | _ \<Rightarrow> Inl (Internal ''tx response is not an object''))"

text \<open>\<open>fetch\<close> asks the node, and \<open>decode_inputs\<close> is the decoding of the hex with its parents, both as JSON.\<close>

definition get_transaction :: "(string \<Rightarrow> (json \<times> string) res) \<Rightarrow> (string \<Rightarrow> json res) \<Rightarrow> string \<Rightarrow> json res" where
  "get_transaction fetch decode_inputs tx_id =
     bind_ok (ensure_64_hex tx_id) (\<lambda>_.
     bind_ok (fetch tx_id) (\<lambda>(tx, tx_hex).
     bind_ok (decode_inputs tx_hex) (with_decoded tx)))"

definition get_address_utxos ::
    "'p site \<Rightarrow> u64 \<Rightarrow> nat \<Rightarrow> (string \<Rightarrow> utxo_listing res) \<Rightarrow> (string \<Rightarrow> (string \<times> u32) list list option res) \<Rightarrow>
     bool \<Rightarrow> string \<Rightarrow> claims \<Rightarrow> claims \<times> (utxo_listing \<times> annotated_listing option) res" where
  "get_address_utxos si maturity now fetch mempool with_status s cs =
     (case bind_ok (parse_address_hex si s) (\<lambda>(addr, _). bind_ok (fetch addr) (\<lambda>u. Inr (addr, u))) of
        Inl e \<Rightarrow> (cs, Inl e)
      | Inr (addr, u) \<Rightarrow>
          if with_status then
            (case annotate_utxo_status (st_chain si) maturity now (mempool addr) u cs of
               (cs1, r) \<Rightarrow> (cs1, bind_ok r (\<lambda>a. Inr (u, Some a))))
          else (cs, Inr (u, None)))"

section \<open>What a dry run tells\<close>

text \<open>The dry run of a transfer: the same call without its token.\<close>

definition dry :: "transfer_params \<Rightarrow> simulate_params" where
  "dry p = \<lparr>sm_from = tp_from p, sm_outputs = tp_outputs p, sm_fee_rate = tp_fee_rate p, sm_fee = tp_fee p,
     sm_max_fee = tp_max_fee p, sm_datum = tp_datum p\<rparr>"

text \<open>C30: A dry run is what the transfer will be.  If a transfer without a token succeeds, the dry run from the same
  wallet succeeds with its size, fee, rate, inputs, outputs and height, sends nothing, and leaves
  ledger, cache, index and watchdog alone; and a dry run that fails means a transfer that fails.\<close>

theorem dry_run_is_the_transfer:
  assumes "tp_client_token p = None" "transfer_method si p w = (w1, txs, Some r)"
    and "simulate_transfer_method si (dry p) w = (w2, s)"
  shows "(\<forall>t. r = Inr t \<longrightarrow> (\<exists>x. s = Inr x \<and> sr_size x = tr_size t \<and> sr_fee x = tr_fee t \<and> sr_fee_rate x = tr_fee_rate t
      \<and> sr_inputs x = tr_inputs t \<and> sr_outputs x = tr_outputs t \<and> sr_built_at_height x = tr_built_at_height t))
    \<and> (\<forall>e. s = Inl e \<longrightarrow> txs = [] \<and> (\<exists>d. r = Inl d))
    \<and> wl_ledger w2 = wl_ledger w \<and> wl_cache w2 = wl_cache w \<and> wl_index w2 = wl_index w \<and> wl_watch w2 = wl_watch w"
proof -
  have frame: "wl_ledger w2 = wl_ledger w \<and> wl_cache w2 = wl_cache w \<and> wl_index w2 = wl_index w \<and> wl_watch w2 = wl_watch w"
    using assms(3) by (auto simp: simulate_transfer_method_def load_signer_def split: sum.splits prod.splits)
  show ?thesis
  proof (cases "check_transfer si (wl_ledger w) p")
    case (Inl e)
    then show ?thesis using frame assms(2) by (auto simp: transfer_method_def)
  next
    case (Inr x)
    obtain addr recipients where x: "x = (addr, recipients)" by (cases x)
    have some: "recipients \<noteq> []"
      using Inr x map_ok_Inr_length [of _ "tp_outputs p" recipients]
      by (auto simp: check_transfer_def recipients_of_def result_simps)
    have sim: "check_simulation si (dry p) = bind_ok (decode_datum si (tp_datum p)) (\<lambda>d. Inr (addr, recipients, d))"
      using Inr x by (auto simp: check_transfer_def check_simulation_def dry_def result_simps)
    obtain w3 k where load: "load_signer si addr w = (w3, k)" by fastforce
    show ?thesis
    proof (cases "\<exists>sg d. k = Inr sg \<and> decode_datum si (tp_datum p) = Inr d")
      case False
      then show ?thesis using frame assms(1,2) Inr x load by (cases k) (auto simp: transfer_method_def split: sum.splits)
    next
      case True
      then obtain sg d where k: "k = Inr sg" and d: "decode_datum si (tp_datum p) = Inr d" by blast
      let ?choice = "fee_choice_of (tp_fee p) (tp_fee_rate p)" and ?cap = "fee_cap (tp_max_fee p)"
      have same: "wl_ledger w3 = wl_ledger w" using load by (auto simp: load_signer_def split: prod.splits)
      have s: "s = snd (simulate_transfer (st_chain si) (st_node si) sg recipients d ?choice ?cap (st_clock si) (wl_claims w3))"
        using assms(3) sim d load k by (auto simp: simulate_transfer_method_def dry_def split: prod.splits)
      have run: "run_transfer si sg recipients d ?choice ?cap (spend_sum (tp_outputs p)) w3 = (w1, txs, r)"
        using assms(1,2) Inr x load k d by (auto simp: transfer_method_def Let_def split: prod.splits)
      obtain l1 q where res: "reserve (ledger_fails si) (wl_ledger w3) (spend_sum (tp_outputs p)) (now_unix si) = (l1, q)" by fastforce
      show ?thesis
      proof (cases q)
        case (Inl e)
        then show ?thesis using run res frame by (auto simp: run_transfer_def)
      next
        case (Inr u)
        obtain cs raws y where tr: "transfer (st_chain si) (st_node si) sg recipients d ?choice ?cap (st_clock si) (wl_claims w3) = (cs, raws, y)"
          by (metis prod_cases3)
        have "r = y" "txs = raws" using run res Inr tr by (auto simp: run_transfer_def split: sum.splits)
        then show ?thesis
          using simulation_predicts_transfer [OF tr some] s frame by fastforce
      qed
    qed
  qed
qed

lemma dry_run_is_the_transfer_witness:
  "\<exists>w1 r w2 x. transfer_method (api_site (Inr (letters [2]))) (api_pay None 900) api_wallet = (w1, [letters [3, 4]], Some (Inr r))
     \<and> simulate_transfer_method (api_site (Inr (letters [2]))) (dry (api_pay None 900)) api_wallet = (w2, Inr x)
     \<and> sr_fee x = 900"
proof -
  let ?si = "api_site (Inr (letters [2]))"
  obtain cs r where t: "transfer api_chain (coin_node (Inr (letters [2])))
      (signer_of ?si (key_from_secret sample_kit sample_secret)) [(sample_secret, 50)] None
      (Absolute 900) 1000 (\<lambda>_. 0) no_claims = (cs, [letters [3, 4]], Inr r)" "tr_fee r = 900"
    using api_transfers [OF refl] by blast
  then obtain w1 where w1: "transfer_method ?si (api_pay None 900) api_wallet = (w1, [letters [3, 4]], Some (Inr r))"
    by (simp add: api_pays run_transfer_def api_reserves del: letters.simps)
  obtain w2 s where w2: "simulate_transfer_method ?si (dry (api_pay None 900)) api_wallet = (w2, s)" by fastforce
  have "tp_client_token (api_pay None 900) = None" by (simp add: api_pay_def)
  from dry_run_is_the_transfer [OF this w1 w2] t(2) w1 w2 show ?thesis by auto
qed

text \<open>What the API encodes, the API decodes.  A payment request that it accepts, with hex of either case and any
  texts, comes back from its own URI with the same amount, texts and timeout, and the address and hash lock in
  lower case; no check of the decoder can refuse it.\<close>

theorem request_survives_api:
  assumes "payment_uri_encode p = Inr u"
    and "\<And>t. memo p = Some t \<or> label p = Some t \<Longrightarrow> utf8_valid t"
  shows "payment_uri_decode u = Inr (lowered p)"
proof -
  have "well_formed_request p" "u = encode p"
    using assms by (auto simp: payment_uri_encode_def well_formed_request_def any_hex64_def list_all_iff split: if_splits option.splits)
  then show ?thesis using decode_encode_lowers by (simp add: payment_uri_decode_def)
qed

definition shouted :: payment_uri where
  "shouted = \<lparr>address = replicate 64 0x41, amount = Some 7, memo = Some [0x26], hash_lock = Some (replicate 64 0x42),
     timeout = None, label = None\<rparr>"

theorem request_survives_api_witness:
  "\<exists>u q. payment_uri_encode shouted = Inr u \<and> payment_uri_decode u = Inr q \<and> address q = replicate 64 0x61 \<and> memo q = Some [0x26]"
proof -
  have e: "payment_uri_encode shouted = Inr (encode shouted)"
    by (simp add: payment_uri_encode_def shouted_def is_ascii_hexdigit_def is_digit_def list_all_iff)
  have "utf8_valid t" if "memo shouted = Some t \<or> label shouted = Some t" for t
    using that by (auto simp: shouted_def)
  from request_survives_api [OF e this] e show ?thesis
    by (simp add: lowered_def shouted_def to_ascii_lowercase_def)
qed

end
