(* ===== verification/Commands.thy ===== *)
theory Commands imports KeyringVault begin

text \<open>
  The one-shot commands of the binary (\<open>src/main.rs\<close>): seeding a keystore from a phrase, and moving the key files
  of older releases into the keystore.  Each is a process of its own that opens the store, so it starts from a
  store that is \<open>cold\<close>.  The file format of the older releases is the \<open>exfer\<close> crate's: a parameter.
\<close>

section \<open>Seeding\<close>

definition env_passphrase :: "bytes option \<Rightarrow> bytes" where
  "env_passphrase env = (case env of Some p \<Rightarrow> p | None \<Rightarrow> [])"

text \<open>What is printed.\<close>

record seeded =
  printed_phrase :: string
  printed_exfer :: string
  printed_bsc :: string

definition fresh_phrase :: "kit \<Rightarrow> string kop" where
  "fresh_phrase k =
     kbind generate_mnemonic (\<lambda>e.
     kbind (kres (words_of k e)) (\<lambda>ws. kret (join_with '' '' ws)))"

definition run_init_seeded :: "kit \<Rightarrow> bytes option \<Rightarrow> string option \<Rightarrow> seeded kop" where
  "run_init_seeded k env mnemonic =
     (let pass = env_passphrase env in
      if pass = [] then kraise (Internal ''WALLETD_KEYSTORE_PASSPHRASE is required to seed the keystore.'')
      else
        kbind (case mnemonic of Some p \<Rightarrow> kret p | None \<Rightarrow> fresh_phrase k) (\<lambda>phrase.
        kseq (init_from_mnemonic k pass phrase)
        (kseq (open_keyring k pass)
        (kbind (create_standard k (Some ''primary'')) (\<lambda>(exfer_addr, pubkey).
         kbind (evm_secret k) (\<lambda>secret.
         kbind (kres (evm_address_text k secret)) (\<lambda>bsc_addr.
         kret \<lparr>printed_phrase = phrase, printed_exfer = exfer_addr, printed_bsc = bsc_addr\<rparr>)))))))"

section \<open>Moving key files\<close>

text \<open>A file of the directory: its stem and its extension, when they are UTF-8, and what reading it gives.\<close>

record legacy_file =
  lf_stem :: "string option"
  lf_extension :: "string option"
  lf_bytes :: "bytes res"

definition is_hexdigit :: "char \<Rightarrow> bool" where
  "is_hexdigit c = (let n = of_char c :: nat in (48 \<le> n \<and> n \<le> 57) \<or> (65 \<le> n \<and> n \<le> 70) \<or> (97 \<le> n \<and> n \<le> 102))"

text \<open>The address in the name of a key file; other files are passed over without a word.\<close>

definition named_key :: "legacy_file \<Rightarrow> string option" where
  "named_key f =
     (case lf_stem f of
        None \<Rightarrow> None
      | Some stem \<Rightarrow>
          if lf_extension f = Some ''key'' \<and> length stem = 64 \<and> list_all is_hexdigit stem then Some stem else None)"

text \<open>
  The secret of a key file: 32 plain bytes, or a sealed file, for which there must be a passphrase.  The result \<open>None\<close>
  skips the file; an error ends the whole command.
\<close>

definition legacy_secret :: "(bytes \<Rightarrow> bytes \<Rightarrow> bytes res) \<Rightarrow> bytes option \<Rightarrow> bytes \<Rightarrow> bytes option res" where
  "legacy_secret load_encrypted pw b =
     (if length b = 32 then Inr (Some b)
      else if take 4 b = ascii ''EXFK'' then
        (case pw of None \<Rightarrow> Inr None | Some p \<Rightarrow> bind_ok (load_encrypted p b) (\<lambda>secret. Inr (Some secret)))
      else Inr None)"

text \<open>The import of one secret: whether it counts as imported.\<close>

definition migrate_secret :: "kit \<Rightarrow> string \<Rightarrow> bytes \<Rightarrow> bool kop" where
  "migrate_secret k stem secret =
     kbind (kattempt (import_secret k secret None)) (\<lambda>r.
     kret (case r of Inr addr \<Rightarrow> lower addr = lower stem | Inl _ \<Rightarrow> False))"

text \<open>The files in the order of the directory, with the counts of the imported and the skipped.\<close>

fun migrate_files ::
    "kit \<Rightarrow> (bytes \<Rightarrow> bytes \<Rightarrow> bytes res) \<Rightarrow> bytes option \<Rightarrow> legacy_file res list \<Rightarrow> nat \<times> nat \<Rightarrow> (nat \<times> nat) kop" where
  "migrate_files k load_encrypted pw [] counts = kret counts"
| "migrate_files k load_encrypted pw (entry # entries) counts =
     kbind (kres entry) (\<lambda>f.
     case named_key f of
       None \<Rightarrow> migrate_files k load_encrypted pw entries counts
     | Some stem \<Rightarrow>
         kbind (kres (lf_bytes f)) (\<lambda>b.
         kbind (kres (legacy_secret load_encrypted pw b)) (\<lambda>found.
         case found of
           None \<Rightarrow> migrate_files k load_encrypted pw entries (fst counts, snd counts + 1)
         | Some secret \<Rightarrow>
             kbind (migrate_secret k stem secret) (\<lambda>ok.
             migrate_files k load_encrypted pw entries
               (if ok then (fst counts + 1, snd counts) else (fst counts, snd counts + 1))))))"

definition run_migrate ::
    "kit \<Rightarrow> (bytes \<Rightarrow> bytes \<Rightarrow> bytes res) \<Rightarrow> bytes option \<Rightarrow> bytes option \<Rightarrow> legacy_file res list res \<Rightarrow> (nat \<times> nat) kop" where
  "run_migrate k load_encrypted env pw dir =
     (let pass = env_passphrase env in
      if pass = [] then kraise (Internal ''WALLETD_KEYSTORE_PASSPHRASE is required to open / initialise the v1 keystore.'')
      else
        kseq (kfs ''create_dir_all'' (\<lambda>s. s))
        (kseq (open_or_init_fresh k pass)
        (kbind take_fresh_mnemonic (\<lambda>words.
         if words \<noteq> None then kraise (Internal ''refusing to migrate into a brand-new keystore'')
         else kbind (kres dir) (\<lambda>entries. migrate_files k load_encrypted pw entries (0, 0))))))"

section \<open>What the commands leave behind\<close>

text \<open>A seed that was sealed under another passphrase refuses every later start.\<close>

lemma foreign_seed_refused:
  assumes "kit_ok k" "seed_file s = Some b" "unseal (cipher k) p seed_aad b = Inr e" "q \<noteq> p"
  shows "\<exists>t d. open_keyring k q h (cold s) = (t, Inl d)"
proof -
  obtain d where d: "unseal (cipher k) q seed_aad b = Inl d" using other_passphrase [OF assms(1,3,4)] by blast
  have "kwp (open_keyring k q) h (cold s) (\<lambda>t r. \<exists>d. r = Inl d)"
    using assms(2) d by (simp add: open_keyring_def open_inner_def make_dirs_def kwp_simps cold_def Let_def)
  then show ?thesis by (auto simp: kwp_def split: prod.splits)
qed

text \<open>The store of the command: a store without a seed gets a new one, whatever the passphrase.\<close>

lemma fresh_seed:
  assumes "kit_ok k" "host_ok h" "steady h" "seed_file s = None" "\<And>e. bip39_words k e \<noteq> None"
  shows "kwp (open_or_init_fresh k p) h (cold s\<lparr>ticks := n\<rparr>) (\<lambda>t r. r = Inr () \<and> fresh_mnemonic t \<noteq> None
     \<and> (\<exists>b e. seed_file t = Some b \<and> unseal (cipher k) p seed_aad b = Inr e \<and> length e = 32)
     \<and> sealed_files t = sealed_files s \<and> state_file t = state_file s)"
  using assms(2-4)
  by (cases "state_file s")
     (simp_all add: open_or_init_fresh_def open_inner_def make_dirs_def load_or_default_def change_state_def kwp_simps cold_def
        generate_mnemonic_def of_length_def Let_def write_seed_def host_ok_def steady_def,
      (rule kwp_seal [OF assms(1,2)], use assms(5) in \<open>simp add: kwp_simps Let_def\<close>)+)

lemma migrate_seeds:
  assumes "kit_ok k" "host_ok h" "steady h" "p \<noteq> []" "seed_file s = None" "\<And>e. bip39_words k e \<noteq> None"
  shows "kwp (run_migrate k lo (Some p) pw dir) h (cold s) (\<lambda>t r. (\<exists>d. r = Inl d)
     \<and> (\<exists>b e. seed_file t = Some b \<and> unseal (cipher k) p seed_aad b = Inr e \<and> length e = 32)
     \<and> sealed_files t = sealed_files s \<and> state_file t = state_file s)"
proof -
  let ?m = "kbind take_fresh_mnemonic (\<lambda>words. if words \<noteq> None then kraise (Internal ''refusing to migrate into a brand-new keystore'')
         else kbind (kres dir) (\<lambda>entries. migrate_files k lo pw entries (0, 0)))"
  have "kwp (kseq (open_or_init_fresh k p) ?m) h (cold s\<lparr>ticks := n\<rparr>) (\<lambda>t r. (\<exists>d. r = Inl d)
     \<and> (\<exists>b e. seed_file t = Some b \<and> unseal (cipher k) p seed_aad b = Inr e \<and> length e = 32)
     \<and> sealed_files t = sealed_files s \<and> state_file t = state_file s)" for n
    unfolding kwp_seq by (rule kwp_mono [OF fresh_seed [OF assms(1-3,5,6), of p n]]) (auto simp: take_fresh_mnemonic_def kwp_simps)
  then show ?thesis
    using assms(3,4) by (simp add: run_migrate_def env_passphrase_def Let_def kwp_seq [of "kfs _ _"] kwp_fs steady_def cold_def)
qed

text \<open>A migration with a mistyped passphrase locks the owner out.  On a keyring without a seed the daemon refuses to
  start under a passphrase that is not the store's.  The command \<open>migrate\<close> does not look: it seals a new seed under
  the wrong passphrase and only then refuses.  From then on the daemon does not start under the right passphrase;
  and when it starts under the wrong one, it loads none of the keys.\<close>

theorem mistyped_migration_locks_out:
  assumes "kit_ok k" "host_ok h" "steady h" "\<And>e. bip39_words k e \<noteq> None"
    and "well_kept k s" "seed64 s = None" "imported (on_disk s) \<noteq> []" "q \<noteq> passwd s" "q \<noteq> []"
    and "run_migrate k lo (Some q) pw dir h (cold s) = (t, r)"
  shows "(\<exists>u d. open_keyring k q h (cold s) = (u, Inl d)) \<and> (\<exists>d. r = Inl d)
    \<and> (\<forall>h'. \<exists>u d. open_keyring k (passwd s) h' (cold t) = (u, Inl d))
    \<and> (\<forall>h' u a. open_keyring k q h' (cold t) = (u, Inr ()) \<longrightarrow> a \<in> set (imported (on_disk s))
         \<longrightarrow> (\<exists>v d. load_by_address k a h' u = (v, Inl d)))"
proof -
  have none: "seed_file s = None" using assms(5,6) by (simp add: well_kept_def seed_kept_def)
  from migrate_seeds [OF assms(1-3,9) none assms(4), of lo pw dir] assms(10)
  obtain b e where t: "seed_file t = Some b" "unseal (cipher k) q seed_aad b = Inr e" "length e = 32"
    "sealed_files t = sealed_files s" "state_file t = state_file s" "\<exists>d. r = Inl d"
    by (auto simp: kwp_def)
  have out: "\<exists>u d. open_keyring k (passwd s) h' (cold t) = (u, Inl d)" for h'
    by (rule foreign_seed_refused [OF assms(1) t(1,2)]) (use assms(8) in simp)
  have key: "lower a = a \<and> map_of (derived (on_disk s)) a = None
      \<and> (\<exists>bl d. sealed_files s (key_file a) = Some bl \<and> unseal (cipher k) q imported_aad bl = Inl d)"
    if a: "a \<in> set (imported (on_disk s))" for a
  proof -
    have bk: "backed k s (on_disk s)" by (rule backed_on_disk [OF assms(5)])
    obtain x where x: "key_at k s a x" using key_backedD(2) [OF bk a] by blast
    show ?thesis
      using x managed_known(1) [OF assms(1) bk, of a] a no_seed_no_derived [OF bk assms(6)] other_passphrase [OF assms(1) _ assms(8)]
      by (fastforce simp: key_at_def managed_def)
  qed
  have "\<exists>u d. open_keyring k q h (cold s) = (u, Inl d)"
  proof -
    obtain a as where a: "imported (on_disk s) = a # as" using assms(7) by (cases "imported (on_disk s)") auto
    then obtain bl d where "sealed_files s (key_file a) = Some bl" "unseal (cipher k) q imported_aad bl = Inl d"
      using key [of a] by auto
    then have "kwp (open_keyring k q) h (cold s) (\<lambda>u r. \<exists>d. r = Inl d)"
      using none a assms(3) unfolding on_disk_def
      by (cases "state_file s")
         (simp_all add: open_keyring_def open_inner_def make_dirs_def kwp_simps cold_def Let_def load_or_default_def change_state_def
            verify_passphrase_def read_sealed_def steady_def default_state_def)
    then show ?thesis by (auto simp: kwp_def split: prod.splits)
  qed
  moreover have "\<exists>v d. load_by_address k a h' u = (v, Inl d)"
    if "open_keyring k q h' (cold t) = (u, Inr ())" "a \<in> set (imported (on_disk s))" for h' u a
  proof -
    have "kwp (open_keyring k q) h' (cold t) (\<lambda>u r. r = Inr () \<longrightarrow> memory u = on_disk s \<and> passwd u = q
        \<and> sealed_files u = sealed_files s \<and> signer_cache u = (\<lambda>_. None))"
      using t(1-5)
      by (cases "state_file s")
         (simp_all add: open_keyring_def open_inner_def make_dirs_def kwp_simps cold_def Let_def load_or_default_def
            change_state_def of_length_def on_disk_def)
    then have u: "memory u = on_disk s" "passwd u = q" "sealed_files u = sealed_files s" "signer_cache u = (\<lambda>_. None)"
      using that(1) by (simp_all add: kwp_def)
    have "kwp (load_by_address k a) h' u (\<lambda>v r. \<exists>d. r = Inl d)"
      using key [OF that(2)] that(2) u by (auto simp: load_by_address_def Let_def kwp_simps read_sealed_def)
    then show ?thesis by (auto simp: kwp_def split: prod.splits)
  qed
  ultimately show ?thesis using out t(6) by blast
qed

theorem mistyped_migration_locks_out_witness:
  "\<exists>t r. run_migrate sample_kit (\<lambda>_ _. Inl EvmKeyNotCreated) (Some [0]) None (Inr []) quiet_host (cold one_key) = (t, r)
     \<and> (\<exists>d. r = Inl d) \<and> (\<exists>u d. open_keyring sample_kit [112] quiet_host (cold t) = (u, Inl d))"
proof -
  let ?run = "run_migrate sample_kit (\<lambda>_ _. Inl EvmKeyNotCreated) (Some [0]) None (Inr []) quiet_host (cold one_key)"
  obtain t r where run: "?run = (t, r)" by fastforce
  have w: "bip39_words sample_kit e \<noteq> None" for e by (simp add: sample_kit_def)
  have "derived (memory one_key) = []" using one_key(2,5) no_seed_no_derived by (auto simp: well_kept_def)
  then have i: "imported (on_disk one_key) \<noteq> []" using one_key(3,6) by (auto simp: on_disk_def managed_def)
  from mistyped_migration_locks_out [OF sample_kit_ok quiet_host_ok(1) _ w one_key(2,5) i, of "[0]"] run show ?thesis
    by (simp add: one_key(4) steady_def quiet_host_ok(2))
qed

section \<open>Seeding a keystore\<close>

lemma kret_bind: "kbind (kret x) f = f x"
  by (simp add: kbind_def kret_def)

lemma seeded_store:
  "kwp (init_from_mnemonic k p phrase) h s (\<lambda>t r. r = Inr () \<longrightarrow> sealed_files t = sealed_files s
     \<and> state_file t = Some default_state \<and> (\<exists>e b. bip39_parse k (trim phrase) = Some e \<and> length e = 32 \<and> seed_file t = Some b
         \<and> (kit_ok k \<longrightarrow> host_ok h \<longrightarrow> unseal (cipher k) p seed_aad b = Inr e)))"
proof -
  have "kwp (seal k p seed_aad e) h u (\<lambda>t r. t = u\<lparr>ticks := ticks u + 2\<rparr>
      \<and> (\<forall>b. r = Inr b \<longrightarrow> kit_ok k \<longrightarrow> host_ok h \<longrightarrow> unseal (cipher k) p seed_aad b = Inr e))" for e u
  proof (cases "kit_ok k \<and> host_ok h")
    case True
    then show ?thesis by (intro kwp_seal) auto
  qed (auto simp: seal_def kwp_simps)
  note seals = kwp_mono [OF this]
  show ?thesis
    by (auto simp: init_from_mnemonic_def make_dirs_def parse_phrase_def of_length_def kwp_simps Let_def write_seed_def result_simps
        split: option.splits sum.splits intro!: seals)
qed

lemma opened_seed:
  assumes "state_file s = Some default_state" "seed_file s = Some b" "unseal (cipher k) p seed_aad b = Inr e" "length e = 32"
  shows "kwp (open_keyring k p) h s (\<lambda>t r. r = Inr () \<longrightarrow> well_kept k t \<and> seed64 t = Some (bip39_seed k e) \<and> sealed_files t = sealed_files s)"
  using assms
  by (simp add: open_keyring_def open_inner_def make_dirs_def kwp_simps Let_def load_or_default_def change_state_def of_length_def
      well_kept_def backed_default seed_kept_def cache_kept_def)

lemma evm_key_apart: "mnemonic_file a \<noteq> evm_key_file"
proof
  assume "mnemonic_file a = evm_key_file"
  then have "rev (mnemonic_file a) = rev evm_key_file" by simp
  then show False by (simp add: mnemonic_file_def evm_key_file_def)
qed

lemma import_leaves_evm:
  assumes "kit_ok k"
  shows "kwp (import_secret k x lb) h s (\<lambda>t _. sealed_files t evm_key_file = sealed_files s evm_key_file)"
proof -
  have "evm_key_file \<noteq> key_file (address_hex k (key_from_secret k x))"
    using kit_okD(8) [OF assms, of x] by (simp add: own_address_def)
  then show ?thesis
    by (auto simp: import_secret_def Let_def seal_own_def seal_def kwp_simps write_sealed_def change_state_def save_state_def
        cache_key_def split: sum.splits)
qed

lemma standard_made:
  assumes "kit_ok k" "host_ok h" "well_kept k s"
  shows "kwp (create_standard k lb) h s (\<lambda>t r. \<forall>a pub. r = Inr (a, pub) \<longrightarrow> seed64 t = seed64 s
     \<and> sealed_files t evm_key_file = sealed_files s evm_key_file \<and> managed (memory t) a
     \<and> (\<exists>n. a = own_address k (standard_secret k (os_random h n 32))))"
proof -
  let ?u = "s\<lparr>ticks := ticks s + 1\<rparr>" and ?x = "standard_secret k (os_random h (ticks s) 32)"
  have "length ?x = 32" by (simp add: standard_secret_def kit_okD(3) [OF assms(1)])
  then have i: "kwp (import_secret k ?x lb) h ?u (\<lambda>t r. sealed_files t evm_key_file = sealed_files s evm_key_file
      \<and> (\<forall>a. r = Inr a \<longrightarrow> well_kept k t \<and> seed64 t = seed64 s \<and> a = own_address k ?x \<and> managed (memory t) a))"
    using import_post [OF assms(1,2), of ?u ?x lb] import_leaves_evm [OF assms(1), of ?x lb h ?u] assms(3)
    by (simp add: kwp_run kept_to_def managed_def)
  have m: "kwp (seal_standard_mnemonic k a e) h u (\<lambda>t r. r = Inr () \<and> seed64 t = seed64 u \<and> memory t = memory u
      \<and> sealed_files t evm_key_file = sealed_files u evm_key_file)" for a e u
    using evm_key_apart [of a]
    by (auto simp: seal_standard_mnemonic_def seal_own_def seal_def kwp_simps write_sealed_def Let_def split: sum.splits)
  show ?thesis
    unfolding create_standard_def generate_mnemonic_def
    by (simp only: kwp_bind [of "fill_bytes _"] kwp_fill sum.case Let_def kwp_bind [of "import_secret _ _ _"], rule kwp_mono [OF i])
       (auto simp: kwp_seq kwp_prim intro!: kwp_mono [OF m] split: sum.splits)
qed

text \<open>The printed phrase restores the BSC address and not the EXFER address.  What \<open>init-seeded\<close> prints with a phrase, in a
  directory without a BSC key, is the BSC address of the seed of this phrase, whatever the passphrase; so a second run
  from the phrase prints it again.  The EXFER address is that of a phrase drawn at random in the run, which is not printed.\<close>

theorem printed_phrase_misses_address:
  assumes "run_init_seeded k (Some p) (Some phrase) h s = (t, Inr out)"
    and "sealed_files s evm_key_file = None" "kit_ok k" "host_ok h"
  shows "\<exists>e n. bip39_parse k (trim phrase) = Some e \<and> seed64 t = Some (bip39_seed k e) \<and> printed_phrase out = phrase
    \<and> bind_ok (evm_secret_from_seed k (bip39_seed k e)) (evm_address_text k) = Inr (printed_bsc out)
    \<and> printed_exfer out = own_address k (standard_secret k (os_random h n 32)) \<and> managed (memory t) (printed_exfer out)"
proof -
  let ?Q = "\<lambda>t r. \<forall>out. r = Inr out \<longrightarrow> (\<exists>e n. bip39_parse k (trim phrase) = Some e \<and> seed64 t = Some (bip39_seed k e)
    \<and> printed_phrase out = phrase \<and> bind_ok (evm_secret_from_seed k (bip39_seed k e)) (evm_address_text k) = Inr (printed_bsc out)
    \<and> printed_exfer out = own_address k (standard_secret k (os_random h n 32)) \<and> managed (memory t) (printed_exfer out))"
  let ?made = "\<lambda>(exfer_addr, pubkey). kbind (evm_secret k) (\<lambda>secret. kbind (kres (evm_address_text k secret)) (\<lambda>bsc_addr.
         kret \<lparr>printed_phrase = phrase, printed_exfer = exfer_addr, printed_bsc = bsc_addr\<rparr>))"
  have made: "kwp (kbind (create_standard k lb) ?made) h u ?Q"
    if "well_kept k u" "seed64 u = Some (bip39_seed k e)" "bip39_parse k (trim phrase) = Some e" "sealed_files u evm_key_file = None"
    for u e lb
    unfolding kwp_bind
    by (rule kwp_mono [OF standard_made [OF assms(3,4) that(1)]])
       (use that in \<open>auto simp: evm_secret_def kwp_simps result_simps split: sum.splits\<close>)
  have opened: "kwp (kseq (open_keyring k p) (kbind (create_standard k lb) ?made)) h u ?Q"
    if "state_file u = Some default_state" "seed_file u = Some b" "unseal (cipher k) p seed_aad b = Inr e" "length e = 32"
      "bip39_parse k (trim phrase) = Some e" "sealed_files u evm_key_file = None" for u b e lb
    unfolding kwp_seq
    by (rule kwp_mono [OF opened_seed [OF that(1-4)]]) (use that made in \<open>auto split: sum.splits\<close>)
  have "kwp (kseq (init_from_mnemonic k p phrase) (kseq (open_keyring k p) (kbind (create_standard k lb) ?made))) h s ?Q" for lb
    unfolding kwp_seq [of "init_from_mnemonic k p phrase"]
    by (rule kwp_mono [OF seeded_store]) (use assms(2-4) opened in \<open>auto split: sum.splits\<close>)
  from this [of "Some ''primary''"] assms(1) show ?thesis
    by (cases "p = []") (simp_all add: run_init_seeded_def env_passphrase_def Let_def kret_bind kwp_def kraise_def)
qed

text \<open>Without a failure of the file system the command succeeds.\<close>

lemma seeding_succeeds:
  assumes "kit_ok k" "host_ok h" "steady h" "p \<noteq> []" "seed_file s = None" "sealed_files s evm_key_file = None"
    and "bip39_parse k (trim phrase) = Some e" "length e = 32" "evm_secret_from_seed k (bip39_seed k e) = Inr x"
    and "evm_address_text k x = Inr a"
  shows "kwp (run_init_seeded k (Some p) (Some phrase)) h s (\<lambda>t r. \<exists>out. r = Inr out)"
proof -
  have io: "\<not> io_fails h i" for i using assms(3) by (simp add: steady_def)
  have "kwp (init_from_mnemonic k p phrase) h s (\<lambda>t r. r = Inr ())"
    using assms(5,7,8) io
    by (simp add: init_from_mnemonic_def make_dirs_def parse_phrase_def of_length_def kwp_simps Let_def write_seed_def result_simps)
       (rule kwp_seal [OF assms(1,2)], simp add: kwp_simps Let_def)
  note init = kwp_both [OF this seeded_store]
  have opened: "kwp (open_keyring k p) h u (\<lambda>t r. r = Inr () \<and> well_kept k t \<and> seed64 t = Some (bip39_seed k e)
      \<and> sealed_files t = sealed_files u \<and> memory t = default_state)"
    if "state_file u = Some default_state" "seed_file u = Some b" "unseal (cipher k) p seed_aad b = Inr e" for u b
    using that assms(8) io
    by (simp add: open_keyring_def open_inner_def make_dirs_def kwp_simps Let_def load_or_default_def change_state_def of_length_def
        well_kept_def backed_default seed_kept_def cache_kept_def)
  have created: "kwp (create_standard k lb) h u (\<lambda>t r. \<exists>z. r = Inr z)" if "memory u = default_state" for u lb
  proof -
    have "kwp (seal_standard_mnemonic k b d) h v (\<lambda>t r. r = Inr ())" for b d v
      by (simp add: seal_standard_mnemonic_def kwp_simps) (simp add: kwp_run split: sum.split)
    note sealed = kwp_mono [OF this]
    show ?thesis
      unfolding create_standard_def generate_mnemonic_def
      by (simp only: kwp_bind [of "fill_bytes _"] kwp_fill sum.case Let_def kwp_bind [of "import_secret _ _ _"],
          rule kwp_mono [OF import_succeeds [OF assms(1-3)]])
         (use that in \<open>auto simp: managed_def default_state_def kwp_seq kwp_prim intro!: sealed split: sum.splits\<close>)
  qed
  let ?made = "\<lambda>(exfer_addr, pubkey). kbind (evm_secret k) (\<lambda>secret. kbind (kres (evm_address_text k secret)) (\<lambda>bsc_addr.
         kret \<lparr>printed_phrase = phrase, printed_exfer = exfer_addr, printed_bsc = bsc_addr\<rparr>))"
  have made: "kwp (kbind (create_standard k lb) ?made) h u (\<lambda>t r. \<exists>out. r = Inr out)"
    if "well_kept k u" "seed64 u = Some (bip39_seed k e)" "sealed_files u evm_key_file = None" "memory u = default_state" for u lb
    unfolding kwp_bind
    by (rule kwp_both [OF created [OF that(4)] standard_made [OF assms(1,2) that(1)]])
       (use that(2,3) assms(9,10) in \<open>auto simp: evm_secret_def kwp_simps\<close>)
  have "kwp (kseq (open_keyring k p) (kbind (create_standard k lb) ?made)) h u (\<lambda>t r. \<exists>out. r = Inr out)"
    if "state_file u = Some default_state" "seed_file u = Some b" "unseal (cipher k) p seed_aad b = Inr e"
      "sealed_files u evm_key_file = None" for u b lb
    unfolding kwp_seq by (rule kwp_mono [OF opened [OF that(1-3)]]) (use that(4) made in auto)
  then have "kwp (kseq (init_from_mnemonic k p phrase) (kseq (open_keyring k p) (kbind (create_standard k lb) ?made))) h s
      (\<lambda>t r. \<exists>out. r = Inr out)" for lb
    unfolding kwp_seq [of "init_from_mnemonic k p phrase"] by (intro init) (use assms(1,2,6,7) in auto)
  then show ?thesis using assms(4) by (simp add: run_init_seeded_def env_passphrase_def Let_def kret_bind)
qed

theorem printed_phrase_misses_address_witness:
  "\<exists>t out n. run_init_seeded sample_kit (Some [112]) (Some (letters sample_secret)) quiet_host (cold (empty_store [112])) = (t, Inr out)
     \<and> seed64 t = Some sample_secret \<and> printed_exfer out = own_address sample_kit (standard_secret sample_kit (replicate 32 n))"
proof -
  let ?phrase = "letters sample_secret" and ?s = "cold (empty_store [112])"
  have parse: "bip39_parse sample_kit (trim ?phrase) = Some sample_secret"
    by code_simp
  have "kwp (run_init_seeded sample_kit (Some [112]) (Some ?phrase)) quiet_host ?s (\<lambda>t r. \<exists>out. r = Inr out)"
    by (rule seeding_succeeds [OF sample_kit_ok quiet_host_ok(1) _ _ _ _ parse])
       (simp_all add: steady_def quiet_host_ok(2) empty_store_def cold_def sample_secret_def sample_kit_def evm_secret_from_seed_def
          evm_address_text_def evm_address_def sample_alloy_def result_simps fixed32)
  then obtain t out where run: "run_init_seeded sample_kit (Some [112]) (Some ?phrase) quiet_host ?s = (t, Inr out)"
    by (auto simp: kwp_def split: prod.splits)
  have "sealed_files ?s evm_key_file = None" by (simp add: empty_store_def cold_def)
  from printed_phrase_misses_address [OF run this sample_kit_ok quiet_host_ok(1)] parse
  obtain n where n: "seed64 t = Some (bip39_seed sample_kit sample_secret)"
    "printed_exfer out = own_address sample_kit (standard_secret sample_kit (os_random quiet_host n 32))"
    by auto
  have "bip39_seed sample_kit sample_secret = sample_secret" "os_random quiet_host n 32 = replicate 32 (word_of_nat n)"
    by (simp_all add: sample_kit_def quiet_host_def)
  then show ?thesis using n run by metis
qed

section \<open>Moving the keys\<close>

definition key_entry :: "legacy_file res \<Rightarrow> bool" where
  "key_entry entry = (case entry of Inl _ \<Rightarrow> False | Inr f \<Rightarrow> named_key f \<noteq> None)"

lemma key_entry_simps [simp]: "\<not> key_entry (Inl e)" "key_entry (Inr f) \<longleftrightarrow> named_key f \<noteq> None"
  by (simp_all add: key_entry_def)

text \<open>The secret that the command finds in an entry, if it finds one.\<close>

definition holds_secret :: "(bytes \<Rightarrow> bytes \<Rightarrow> bytes res) \<Rightarrow> bytes option \<Rightarrow> legacy_file res \<Rightarrow> bytes \<Rightarrow> bool" where
  "holds_secret lo pw entry x \<longleftrightarrow> (\<exists>f b. entry = Inr f \<and> named_key f \<noteq> None \<and> lf_bytes f = Inr b \<and> legacy_secret lo pw b = Inr (Some x))"

definition loads_secrets :: "(bytes \<Rightarrow> bytes \<Rightarrow> bytes res) \<Rightarrow> bool" where
  "loads_secrets lo \<longleftrightarrow> (\<forall>p b x. lo p b = Inr x \<longrightarrow> length x = 32)"

lemma legacy_secret_length: "loads_secrets lo \<Longrightarrow> legacy_secret lo pw b = Inr (Some x) \<Longrightarrow> length x = 32"
  by (auto simp: legacy_secret_def loads_secrets_def result_simps split: if_splits option.splits)

lemma migrate_secret_post:
  assumes "kit_ok k" "host_ok h" "steady h" "well_kept k s" "length x = 32"
  shows "kwp (migrate_secret k stem x) h s (\<lambda>t r. kept_to k {} s t \<and> managed (memory t) (own_address k x) \<and> (\<exists>ok. r = Inr ok))"
proof -
  have p: "kwp (import_secret k x None) h s (\<lambda>t r. kept_to k {} s t \<and> managed (memory t) (own_address k x))"
  proof (cases "managed (memory s) (own_address k x)")
    case True
    show ?thesis by (rule kwp_mono [OF import_post [OF assms(1,2,4,5)]]) (use True in \<open>auto simp: kept_to_def\<close>)
  next
    case False
    show ?thesis
      by (rule kwp_both [OF import_post [OF assms(1,2,4,5)] import_succeeds [OF assms(1-3) False]]) (auto simp: managed_def)
  qed
  show ?thesis unfolding migrate_secret_def kwp_bind kwp_attempt
    by (rule kwp_mono [OF p]) (simp add: kwp_prim)
qed

lemma migrate_files_post:
  assumes "kit_ok k" "host_ok h" "steady h" "loads_secrets lo" "well_kept k s"
  shows "kwp (migrate_files k lo pw entries counts) h s (\<lambda>t r. kept_to k {} s t \<and> (\<forall>i n. r = Inr (i, n) \<longrightarrow>
     i + n = fst counts + snd counts + length (filter key_entry entries)
     \<and> (\<forall>entry x. entry \<in> set entries \<longrightarrow> holds_secret lo pw entry x \<longrightarrow> managed (memory t) (own_address k x))))"
  using assms(5)
proof (induction entries arbitrary: counts s)
  case Nil
  then show ?case by (cases counts) (simp add: kwp_simps kept_refl)
next
  case (Cons entry entries)
  let ?Q = "\<lambda>cs s t r. kept_to k {} s t \<and> (\<forall>i n. r = Inr (i, n) \<longrightarrow>
     i + n = fst cs + snd cs + length (filter key_entry entries)
     \<and> (\<forall>entry x. entry \<in> set entries \<longrightarrow> holds_secret lo pw entry x \<longrightarrow> managed (memory t) (own_address k x)))"
  show ?case
  proof (cases "\<exists>x. holds_secret lo pw entry x")
    case False
    have "kwp (migrate_files k lo pw entries cs) h s (\<lambda>t r. ?Q cs s t r)" for cs by (rule Cons.IH [OF Cons.prems])
    note rest = kwp_mono [OF this]
    show ?thesis
      using False kept_refl [OF Cons.prems]
      by (auto simp: kwp_simps holds_secret_def split: sum.splits option.splits intro!: rest)
  next
    case True
    let ?Z = "\<lambda>t r. kept_to k {} s t \<and> (\<forall>i n. r = Inr (i, n) \<longrightarrow>
     i + n = fst counts + snd counts + length (filter key_entry (entry # entries))
     \<and> (\<forall>e x. e \<in> set (entry # entries) \<longrightarrow> holds_secret lo pw e x \<longrightarrow> managed (memory t) (own_address k x)))"
    from True obtain f stem b x where f: "entry = Inr f" "named_key f = Some stem" "lf_bytes f = Inr b" "legacy_secret lo pw b = Inr (Some x)"
      by (auto simp: holds_secret_def)
    have one: "holds_secret lo pw entry y \<longleftrightarrow> y = x" for y using f by (auto simp: holds_secret_def)
    have rest: "kwp (migrate_files k lo pw entries cs) h u (?Q cs u)" if "well_kept k u" for cs u
      by (rule Cons.IH [OF that])
    have step: "kwp (migrate_files k lo pw (entry # entries) counts) h s Z =
        kwp (migrate_secret k stem x) h s (\<lambda>u r. case r of Inl d \<Rightarrow> Z u (Inl d)
          | Inr ok \<Rightarrow> kwp (migrate_files k lo pw entries (if ok then (fst counts + 1, snd counts) else (fst counts, snd counts + 1))) h u Z)" for Z
      using f by (simp add: kwp_simps)
    show ?thesis
      unfolding step
    proof (rule kwp_mono [OF migrate_secret_post [OF assms(1-3) Cons.prems legacy_secret_length [OF assms(4) f(4)]]])
      fix u and r :: "bool res"
      assume u: "kept_to k {} s u \<and> managed (memory u) (own_address k x) \<and> (\<exists>ok. r = Inr ok)"
      then have w: "well_kept k u" by (simp add: kept_to_def)
      have "kept_to k {} s t \<and> managed (memory t) (own_address k x)" if "kept_to k {} u t" for t
        using u that kept_trans [of k "{}" s u t] by (auto simp: kept_to_def)
      then show "case r of Inl d \<Rightarrow> ?Z u (Inl d)
        | Inr ok \<Rightarrow> kwp (migrate_files k lo pw entries (if ok then (fst counts + 1, snd counts) else (fst counts, snd counts + 1))) h u ?Z"
        using u f one by (auto intro!: kwp_mono [OF rest [OF w]] split: sum.split)
    qed
  qed
qed

lemma cold_ticks: "cold (s\<lparr>ticks := n\<rparr>) = (cold s)\<lparr>ticks := n\<rparr>" "ticks (cold s) = ticks s"
  by (simp_all add: cold_def)


text \<open>One key file, and a store with a seed.\<close>

definition old_key :: legacy_file where
  "old_key = \<lparr>lf_stem = Some sample_name, lf_extension = Some ''key'', lf_bytes = Inr sample_secret\<rparr>"

lemma old_key: "named_key old_key = Some sample_name" "lf_bytes old_key = Inr sample_secret"
  "legacy_secret lo pw sample_secret = Inr (Some sample_secret)"
proof -
  have "list_all is_hexdigit sample_name \<and> length sample_name = 64" by code_simp
  then show "named_key old_key = Some sample_name" by (simp add: named_key_def old_key_def)
qed (simp_all add: old_key_def legacy_secret_def sample_secret_def)

lemma seeded_migration:
  assumes "steady h" "seed_file s = Some b" "unseal (cipher k) p seed_aad b = Inr e" "length e = 32" "state_file s = None" "p \<noteq> []"
  shows "kwp (run_migrate k lo (Some p) pw (Inr [Inr old_key])) h (cold s) (\<lambda>t r. \<exists>i n. r = Inr (i, n))"
proof -
  have io: "\<not> io_fails h i" for i using assms(1) by (simp add: steady_def)
  have "kwp (migrate_secret k stem x) h u (\<lambda>t r. \<exists>ok. r = Inr ok)" for stem x u
    unfolding migrate_secret_def kwp_bind kwp_attempt by (simp add: kwp_run kret_def)
  note found = kwp_mono [OF this]
  show ?thesis
    using io assms
    by (auto simp: run_migrate_def env_passphrase_def Let_def kwp_simps open_or_init_fresh_def open_inner_def make_dirs_def
        load_or_default_def change_state_def of_length_def take_fresh_mnemonic_def cold_def old_key intro!: found)
qed


end
