(* ===== verification/FollowRun.thy ===== *)
theory FollowRun imports Follower begin

text \<open>
  The loop of the block follower (\<open>FollowerConfig\<close> and \<open>run_until\<close> of \<open>src/follower.rs\<close>): a pass refreshes the owned
  keys and ticks, or only follows the tip; its errors are logged and the next pass starts from what it left.
  A shutdown in the middle of a pass is a pass whose calls fail from there on.  The sleep between passes and the
  wake-ups of waiting requests are not part of the state.
\<close>

section \<open>The loop\<close>

record follower_config =
  fc_poll_interval :: nat
  fc_disabled :: bool
  fc_backfill_lookback :: "u64 option"
  fc_tip_only :: bool

definition default_follower_config :: follower_config where
  "default_follower_config = \<lparr>fc_poll_interval = 2 * 10 ^ 9, fc_disabled = False,
     fc_backfill_lookback = Some default_backfill_lookback, fc_tip_only = False\<rparr>"

text \<open>What a pass meets: the store, the node, and the failures of the database.\<close>

record pass_answers =
  pa_listed :: "string list res"
  pa_load :: "string \<Rightarrow> signer res"
  pa_node :: tick_answers
  pa_faults :: "nat \<Rightarrow> faults"

definition follower_pass ::
    "chain \<Rightarrow> codec \<Rightarrow> parser \<Rightarrow> follower_config \<Rightarrow> pass_answers \<Rightarrow> owned_set \<times> index \<Rightarrow> owned_set \<times> index" where
  "follower_pass ch cd ps fc pa = (\<lambda>(own, ix).
     if fc_tip_only fc then (own, snd (fst (tick_tip_only ch cd (pa_node pa) (pa_faults pa) (0, ix))))
     else
       let own1 = fst (refresh_owned ch (pa_listed pa) (pa_load pa) own) in
       (own1, snd (fst (tick ch cd ps own1 (fc_backfill_lookback fc) (pa_node pa) (pa_faults pa) (0, ix)))))"

definition follower_run ::
    "chain \<Rightarrow> codec \<Rightarrow> parser \<Rightarrow> follower_config \<Rightarrow> pass_answers list \<Rightarrow> index \<Rightarrow> owned_set \<times> index" where
  "follower_run ch cd ps fc pas ix =
     (if fc_disabled fc then (no_owned, ix) else fold (follower_pass ch cd ps fc) pas (no_owned, ix))"

section \<open>What steps keep and when they end well\<close>

text \<open>The encodings of the library: every record and checkpoint has one that is read back.\<close>

definition encodes :: "codec \<Rightarrow> bool" where
  "encodes cd \<longleftrightarrow> (\<forall>r. \<exists>b. ser_htlc cd r = Some b \<and> de_htlc cd b = Some r) \<and> (\<forall>m. \<exists>b. ser_meta cd m = Some b \<and> de_meta cd b = Some m)"

lemma encodes_roundtrips: "encodes cd \<Longrightarrow> roundtrips cd"
  unfolding encodes_def roundtrips_def by (metis option.inject)

text \<open>The index is consistent, and its checkpoint is not beyond the height.\<close>

definition behind :: "codec \<Rightarrow> u64 \<Rightarrow> index \<Rightarrow> bool" where
  "behind cd lim ix \<longleftrightarrow> index_ok cd ix
     \<and> (\<exists>m. get_follower_meta no_faults cd ix = Inr m \<and> last_indexed_height m \<le> lim)"

definition at_tip :: "codec \<Rightarrow> u64 \<Rightarrow> index \<Rightarrow> bool" where
  "at_tip cd lim ix \<longleftrightarrow> (\<exists>m. get_follower_meta no_faults cd ix = Inr m \<and> last_indexed_height m = lim \<and> full_scan_complete m)"

text \<open>
  From the condition the step ends in the next one, or with an error that leaves the index behind the height; when
  the environment answers, there is no error.
\<close>

definition ends_well ::
    "codec \<Rightarrow> u64 \<Rightarrow> bool \<Rightarrow> (index \<Rightarrow> bool) \<Rightarrow> 'a index_step \<Rightarrow> ('a \<Rightarrow> index \<Rightarrow> bool) \<Rightarrow> bool" where
  "ends_well cd lim ans P m Q \<longleftrightarrow> (\<forall>fs n ix. P ix \<longrightarrow> (case m fs (n, ix) of ((n1, ix1), r) \<Rightarrow>
     (case r of Inl e \<Rightarrow> behind cd lim ix1 \<and> \<not> (ans \<and> fs = (\<lambda>_. no_faults)) | Inr x \<Rightarrow> Q x ix1)))"

lemma ends_wellI:
  assumes "\<And>fs n ix n1 ix1 e. P ix \<Longrightarrow> m fs (n, ix) = ((n1, ix1), Inl e) \<Longrightarrow> behind cd lim ix1 \<and> \<not> (ans \<and> fs = (\<lambda>_. no_faults))"
    "\<And>fs n ix n1 ix1 x. P ix \<Longrightarrow> m fs (n, ix) = ((n1, ix1), Inr x) \<Longrightarrow> Q x ix1"
  shows "ends_well cd lim ans P m Q"
  using assms by (fastforce simp: ends_well_def split: sum.splits prod.splits)

lemma ends_wellD:
  assumes "ends_well cd lim ans P m Q" "P ix"
  shows "m fs (n, ix) = ((n1, ix1), Inl e) \<Longrightarrow> behind cd lim ix1 \<and> \<not> (ans \<and> fs = (\<lambda>_. no_faults))"
    "m fs (n, ix) = ((n1, ix1), Inr x) \<Longrightarrow> Q x ix1"
  using assms unfolding ends_well_def by (metis (mono_tags, lifting) case_prod_conv sum.simps(5), metis (mono_tags, lifting) case_prod_conv sum.simps(6))

lemma ends_bind:
  assumes "ends_well cd lim ans P m Q" "\<And>x. ends_well cd lim ans (Q x) (f x) R"
  shows "ends_well cd lim ans P (istep_bind m f) R"
proof (rule ends_wellI)
  fix fs n ix n1 ix1 e
  assume p: "P ix" and run: "istep_bind m f fs (n, ix) = ((n1, ix1), Inl e)"
  obtain n2 ix2 r where m: "m fs (n, ix) = ((n2, ix2), r)" by (metis surj_pair)
  show "behind cd lim ix1 \<and> \<not> (ans \<and> fs = (\<lambda>_. no_faults))"
  proof (cases r)
    case (Inl d)
    then have "ix2 = ix1" using run m by (simp add: istep_bind_def)
    then show ?thesis using ends_wellD(1) [OF assms(1) p m [unfolded Inl]] by simp
  next
    case (Inr x)
    then have "f x fs (n2, ix2) = ((n1, ix1), Inl e)" using run m by (simp add: istep_bind_def)
    from ends_wellD(1) [OF assms(2) ends_wellD(2) [OF assms(1) p m [unfolded Inr]] this] show ?thesis .
  qed
next
  fix fs n ix n1 ix1 y
  assume p: "P ix" and run: "istep_bind m f fs (n, ix) = ((n1, ix1), Inr y)"
  obtain n2 ix2 r where m: "m fs (n, ix) = ((n2, ix2), r)" by (metis surj_pair)
  then obtain x where x: "r = Inr x" using run by (cases r) (auto simp: istep_bind_def)
  then have "f x fs (n2, ix2) = ((n1, ix1), Inr y)" using run m by (simp add: istep_bind_def)
  from ends_wellD(2) [OF assms(2) ends_wellD(2) [OF assms(1) p m [unfolded x]] this] show "R y ix1" .
qed

lemma ends_conseq:
  "ends_well cd lim ans P m Q \<Longrightarrow> (\<And>ix. P' ix \<Longrightarrow> P ix) \<Longrightarrow> (\<And>x ix. Q x ix \<Longrightarrow> Q' x ix) \<Longrightarrow> ends_well cd lim ans P' m Q'"
  unfolding ends_well_def by (fastforce split: sum.splits prod.splits)

lemma ends_pre: "ends_well cd lim ans P m Q \<Longrightarrow> (\<And>ix. P' ix \<Longrightarrow> P ix) \<Longrightarrow> ends_well cd lim ans P' m Q"
  by (rule ends_conseq)

lemma ends_ret: "(\<And>ix. P ix \<Longrightarrow> Q x ix) \<Longrightarrow> ends_well cd lim ans P (istep_ret x) Q"
  by (simp add: ends_well_def istep_ret_def)

lemma ends_of:
  assumes "\<And>ix. P ix \<Longrightarrow> behind cd lim ix" "\<And>ix x. P ix \<Longrightarrow> r = Inr x \<Longrightarrow> Q x ix" "\<And>ix. ans \<Longrightarrow> P ix \<Longrightarrow> \<exists>x. r = Inr x"
  shows "ends_well cd lim ans P (istep_of r) Q"
proof (rule ends_wellI)
  fix fs n ix n1 ix1 e
  assume "P ix" "istep_of r fs (n, ix) = ((n1, ix1), Inl e)"
  then show "behind cd lim ix1 \<and> \<not> (ans \<and> fs = (\<lambda>_. no_faults))" using assms(1,3) by (auto simp: istep_of_def)
qed (use assms(2) in \<open>auto simp: istep_of_def\<close>)

lemma ends_each: "(\<And>x. x \<in> set xs \<Longrightarrow> ends_well cd lim ans P (f x) (\<lambda>_. P)) \<Longrightarrow> ends_well cd lim ans P (istep_each xs f) (\<lambda>_. P)"
  by (induction xs) (auto intro: ends_ret ends_bind)

section \<open>The operations of the index\<close>

lemma behind_ok: "behind cd lim ix \<Longrightarrow> index_ok cd ix"
  by (simp add: behind_def)

lemma same_meta_row: "meta_row ix1 = meta_row ix \<Longrightarrow> get_follower_meta f cd ix1 = get_follower_meta f cd ix"
  by (simp add: get_follower_meta_def)

lemma ends_save:
  assumes "encodes cd" "last_indexed_height m \<le> lim"
  shows "ends_well cd lim ans (behind cd lim) (save_meta cd m)
    (\<lambda>_ ix. behind cd lim ix \<and> get_follower_meta no_faults cd ix = Inr m)"
proof (rule ends_wellI)
  obtain b where b: "ser_meta cd m = Some b" "de_meta cd b = Some m" using assms(1) unfolding encodes_def by blast
  {
    fix fs n ix n1 ix1 e
    assume ok: "behind cd lim ix" and run: "save_meta cd m fs (n, ix) = ((n1, ix1), Inl e)"
    then have f: "save_follower_meta (fs n) cd m ix = (ix1, Inl e)" by (simp add: save_meta_def writing_def split: prod.splits)
    then have "fs \<noteq> (\<lambda>_. no_faults)"
      by (auto simp: save_follower_meta_def b committed on_table_def result_simps)
    then show "behind cd lim ix1 \<and> \<not> (ans \<and> fs = (\<lambda>_. no_faults))" using ok failed_write_keeps_index(3) [OF f] by simp
  next
    fix fs n ix n1 ix1 u
    assume ok: "behind cd lim ix" and run: "save_meta cd m fs (n, ix) = ((n1, ix1), Inr u)"
    then have f: "save_follower_meta (fs n) cd m ix = (ix1, Inr u)" by (simp add: save_meta_def writing_def split: prod.splits)
    then have "ix1 = ix\<lparr>meta_row := Some b\<rparr>" by (auto simp: save_follower_meta_def b committed on_table_def result_simps)
    then show "behind cd lim ix1 \<and> get_follower_meta no_faults cd ix1 = Inr m"
      using ok assms(2) b by (simp add: behind_def get_follower_meta_def index_ok_def stored_def result_simps)
  }
qed

lemma ends_checkpoint:
  "ends_well cd lim ans (behind cd lim) (reading (\<lambda>fails. get_follower_meta fails cd))
    (\<lambda>m ix. behind cd lim ix \<and> get_follower_meta no_faults cd ix = Inr m \<and> last_indexed_height m \<le> lim)"
proof (rule ends_wellI)
  fix fs n ix n1 ix1 e
  assume "behind cd lim ix" "reading (\<lambda>fails. get_follower_meta fails cd) fs (n, ix) = ((n1, ix1), Inl e)"
  then show "behind cd lim ix1 \<and> \<not> (ans \<and> fs = (\<lambda>_. no_faults))" by (auto simp: reading_def behind_def)
next
  fix fs n ix n1 ix1 m
  assume ok: "behind cd lim ix" and "reading (\<lambda>fails. get_follower_meta fails cd) fs (n, ix) = ((n1, ix1), Inr m)"
  then have "ix1 = ix" "get_follower_meta (fs n) cd ix = Inr m" by (auto simp: reading_def)
  moreover from this have "get_follower_meta no_faults cd ix = Inr m"
    by (auto simp: get_follower_meta_def result_simps split: option.splits)
  ultimately show "behind cd lim ix1 \<and> get_follower_meta no_faults cd ix1 = Inr m \<and> last_indexed_height m \<le> lim"
    using ok by (auto simp: behind_def)
qed

lemma upsert_succeeds:
  assumes "encodes cd" "index_ok cd ix"
  shows "\<exists>ix1. upsert_htlc no_faults cd r owner ix = (ix1, Inr ())"
proof -
  obtain b where b: "ser_htlc cd r = Some b" using assms(1) unfolding encodes_def by blast
  have "\<exists>x. read_row no_faults cd g w k ix = Inr x" for g w k
  proof (cases "map_of (tracked_htlcs ix) k")
    case (Some c)
    then show ?thesis using row_stored [of cd ix k c] assms(2) by (auto simp: read_row_def index_ok_def result_simps)
  qed (simp add: read_row_def result_simps)
  then obtain prior where "read_row no_faults cd ''index: get prior'' ''index: decode prior htlc'' (primary_of r) ix = Inr prior" by blast
  then show ?thesis
    by (cases prior) (simp_all add: upsert_htlc_def b drop_secondary_def put_secondary_def on_table_def result_simps commit_txn_def)
qed

text \<open>A record is written: what was said of the checkpoint stays.\<close>

lemma ends_upsert:
  assumes "encodes cd" "shaped r"
  shows "ends_well cd lim ans (\<lambda>ix. behind cd lim ix \<and> I (meta_row ix)) (writing (\<lambda>fails. upsert_htlc fails cd r owner))
    (\<lambda>_ ix. behind cd lim ix \<and> I (meta_row ix))"
proof (rule ends_wellI)
  fix fs n ix n1 ix1 e
  assume ok: "behind cd lim ix \<and> I (meta_row ix)" and run: "writing (\<lambda>fails. upsert_htlc fails cd r owner) fs (n, ix) = ((n1, ix1), Inl e)"
  then have f: "upsert_htlc (fs n) cd r owner ix = (ix1, Inl e)" by (simp add: writing_def split: prod.splits)
  moreover from this have "fs \<noteq> (\<lambda>_. no_faults)" using upsert_succeeds [OF assms(1), of ix r owner] ok behind_ok by auto
  ultimately show "behind cd lim ix1 \<and> \<not> (ans \<and> fs = (\<lambda>_. no_faults))" using ok failed_write_keeps_index(1) by metis
next
  fix fs n ix n1 ix1 u
  assume ok: "behind cd lim ix \<and> I (meta_row ix)" and run: "writing (\<lambda>fails. upsert_htlc fails cd r owner) fs (n, ix) = ((n1, ix1), Inr u)"
  then have "upsert_htlc (fs n) cd r owner ix = (ix1, Inr u)" by (simp add: writing_def split: prod.splits)
  from upsert_keeps_index [OF _ assms(2) _ this] show "behind cd lim ix1 \<and> I (meta_row ix1)"
    using ok encodes_roundtrips [OF assms(1)] same_meta_row [of ix1 ix] by (auto simp: behind_def roundtrips_def)
qed

lemma forget_succeeds:
  assumes "index_ok cd ix"
  shows "\<exists>ix1 x. forget_htlc no_faults cd ltx i owner ix = (ix1, Inr x)"
proof (cases "map_of (tracked_htlcs ix) (htlc_primary_key ltx i)")
  case (Some c)
  then obtain r where "de_htlc cd c = Some r" using row_stored [of cd ix _ c] assms by (auto simp: index_ok_def)
  with Some show ?thesis
    by (simp add: forget_htlc_def read_row_def drop_secondary_def on_table_def result_simps commit_txn_def) blast
qed (simp add: forget_htlc_def read_row_def result_simps commit_txn_def, blast)

lemma ends_forget:
  "ends_well cd lim ans (behind cd lim) (writing (\<lambda>fails. forget_htlc fails cd ltx i owner)) (\<lambda>_. behind cd lim)"
proof (rule ends_wellI)
  fix fs n ix n1 ix1 e
  assume ok: "behind cd lim ix" and run: "writing (\<lambda>fails. forget_htlc fails cd ltx i owner) fs (n, ix) = ((n1, ix1), Inl e)"
  then have f: "forget_htlc (fs n) cd ltx i owner ix = (ix1, Inl e)" by (simp add: writing_def split: prod.splits)
  moreover from this have "fs \<noteq> (\<lambda>_. no_faults)" using forget_succeeds [of cd ix ltx i owner] ok behind_ok by auto
  ultimately show "behind cd lim ix1 \<and> \<not> (ans \<and> fs = (\<lambda>_. no_faults))" using ok failed_write_keeps_index(2) by metis
next
  fix fs n ix n1 ix1 x
  assume ok: "behind cd lim ix" and run: "writing (\<lambda>fails. forget_htlc fails cd ltx i owner) fs (n, ix) = ((n1, ix1), Inr x)"
  then have "forget_htlc (fs n) cd ltx i owner ix = (ix1, Inr x)" by (simp add: writing_def split: prod.splits)
  from forget_keeps_index [OF _ this] show "behind cd lim ix1"
    using ok same_meta_row [of ix1 ix] by (auto simp: behind_def)
qed

lemma page_total: "0 < limit \<Longrightarrow> \<exists>c. page_of limit rs = Some (take limit rs, c)"
  by (simp add: page_of_def)

lemma list_results:
  assumes "index_ok cd ix" "0 < limit"
  shows "\<exists>rs c. list_htlcs no_faults cd f limit cur ix = Inr (Some (rs, c)) \<and> set rs \<subseteq> stored cd ix"
    "list_htlcs fails cd f limit cur ix = Inr x \<Longrightarrow> list_htlcs no_faults cd f limit cur ix = Inr x"
proof -
  have rows: "rows_decode cd (tracked_htlcs ix)" using assms(1) by (simp add: index_ok_def)
  let ?found = "filter (\<lambda>r. case cur of None \<Rightarrow> True | Some c \<Rightarrow> \<not> page_key r \<le> cursor_key c) (listing cd ix f)"
  have "set ?found \<subseteq> stored cd ix" using listing_sorted(2) [OF rows, of f] by auto
  moreover obtain c where "page_of limit ?found = Some (take limit ?found, c)" using page_total [OF assms(2)] by blast
  ultimately show "\<exists>rs c. list_htlcs no_faults cd f limit cur ix = Inr (Some (rs, c)) \<and> set rs \<subseteq> stored cd ix"
    using list_htlcs_page [OF rows, of f limit cur] set_take_subset [of limit ?found] by (simp del: set_filter)
  show "list_htlcs fails cd f limit cur ix = Inr x \<Longrightarrow> list_htlcs no_faults cd f limit cur ix = Inr x"
    by (auto simp: list_htlcs_def result_simps)
qed

lemma ends_list:
  assumes "0 < limit"
  shows "ends_well cd lim ans (behind cd lim) (reading (\<lambda>fails. list_htlcs fails cd f limit cur))
    (\<lambda>x ix. behind cd lim ix \<and> (\<forall>rs c. x = Some (rs, c) \<longrightarrow> list_all shaped rs))"
proof (rule ends_wellI)
  fix fs n ix n1 ix1 e
  assume ok: "behind cd lim ix" and run: "reading (\<lambda>fails. list_htlcs fails cd f limit cur) fs (n, ix) = ((n1, ix1), Inl e)"
  then have "ix1 = ix" "list_htlcs (fs n) cd f limit cur ix = Inl e" by (auto simp: reading_def)
  then show "behind cd lim ix1 \<and> \<not> (ans \<and> fs = (\<lambda>_. no_faults))"
    using ok list_results(1) [OF behind_ok [OF ok] assms, of f cur] by auto
next
  fix fs n ix n1 ix1 x
  assume ok: "behind cd lim ix" and run: "reading (\<lambda>fails. list_htlcs fails cd f limit cur) fs (n, ix) = ((n1, ix1), Inr x)"
  then have "ix1 = ix" "list_htlcs (fs n) cd f limit cur ix = Inr x" by (auto simp: reading_def)
  moreover have "rows_decode cd (tracked_htlcs ix)" using ok by (simp add: behind_def index_ok_def)
  ultimately show "behind cd lim ix1 \<and> (\<forall>rs c. x = Some (rs, c) \<longrightarrow> list_all shaped rs)"
    using ok list_results(1) [OF behind_ok [OF ok] assms, of f cur] list_results(2) [OF behind_ok [OF ok] assms, of "fs n" f cur x]
      stored_shaped by (fastforce simp: list_all_iff)
qed

lemma ends_sweep:
  assumes "encodes cd"
  shows "ends_well cd lim ans (behind cd lim) (sweep_expired cd height) (\<lambda>_. behind cd lim)"
  unfolding sweep_expired_def
proof (rule ends_bind [OF ends_list])
  fix x :: "(htlc_record list \<times> cursor option) option"
  let ?rs = "case x of None \<Rightarrow> [] | Some (rs, _) \<Rightarrow> rs"
  show "ends_well cd lim ans (\<lambda>ix. behind cd lim ix \<and> (\<forall>rs c. x = Some (rs, c) \<longrightarrow> list_all shaped rs))
    (istep_each ?rs (\<lambda>r. if height > hp_timeout_height (hr_params r) then
       writing (\<lambda>fails. upsert_htlc fails cd (r\<lparr>hr_state := LockedExpired, hr_last_indexed := height\<rparr>) (replicate 32 0))
     else istep_ret ())) (\<lambda>_. behind cd lim)"
  proof (cases "list_all shaped ?rs")
    case True
    then show ?thesis
      by (intro ends_conseq [OF ends_each [where P = "behind cd lim"]])
         (auto simp: list_all_iff shaped_def intro!: ends_ret ends_upsert [OF assms, where I = "\<lambda>_. True", simplified])
  next
    case False
    then show ?thesis by (auto simp: ends_well_def split: option.splits)
  qed
qed simp

lemma ends_wipe: "ends_well cd lim ans (behind cd lim) (wipe_above cd height) (\<lambda>_. behind cd lim)"
  unfolding wipe_above_def
  by (rule ends_bind [OF ends_list], simp, rule ends_conseq [OF ends_each [where P = "behind cd lim"]])
     (auto intro!: ends_ret ends_bind [OF ends_forget])

section \<open>A block\<close>

lemma ends_get:
  "ends_well cd lim ans (behind cd lim) (reading (\<lambda>fails. get_htlc fails cd ltx i))
    (\<lambda>x ix. behind cd lim ix \<and> (\<forall>r. x = Some r \<longrightarrow> shaped r))"
proof (rule ends_wellI)
  fix fs n ix n1 ix1 e
  assume ok: "behind cd lim ix" and "reading (\<lambda>fails. get_htlc fails cd ltx i) fs (n, ix) = ((n1, ix1), Inl e)"
  then show "behind cd lim ix1 \<and> \<not> (ans \<and> fs = (\<lambda>_. no_faults))"
    using get_htlc_rows [OF behind_ok [OF ok], of ltx i] by (auto simp: reading_def)
next
  fix fs n ix n1 ix1 x
  assume ok: "behind cd lim ix" and "reading (\<lambda>fails. get_htlc fails cd ltx i) fs (n, ix) = ((n1, ix1), Inr x)"
  then have x: "ix1 = ix" "get_htlc (fs n) cd ltx i ix = Inr x" by (auto simp: reading_def)
  from get_htlc_row [OF behind_ok [OF ok] x(2)] have "x = row_at cd ix (htlc_primary_key ltx i)" .
  then show "behind cd lim ix1 \<and> (\<forall>r. x = Some r \<longrightarrow> shaped r)"
    using ok x(1) row_at_stored [OF behind_ok [OF ok]] by auto
qed

lemma ends_input:
  assumes "encodes cd"
  shows "ends_well cd lim ans (behind cd lim) (visit_input cd own tx tx_id height v) (\<lambda>_. behind cd lim)"
proof -
  obtain vin inp where v: "v = (vin, inp)" by (cases v)
  show ?thesis
    unfolding visit_input_def v prod.case
  proof (rule ends_bind [OF ends_get])
    fix x :: "htlc_record option"
    let ?q = "Option.bind x (spent_record tx tx_id height vin)"
    show "ends_well cd lim ans (\<lambda>ix. behind cd lim ix \<and> (\<forall>r. x = Some r \<longrightarrow> shaped r))
      (case ?q of None \<Rightarrow> istep_ret () | Some r \<Rightarrow> writing (\<lambda>fails. upsert_htlc fails cd r (owned_addr_for own (hr_params r))))
      (\<lambda>_. behind cd lim)"
    proof (cases "\<exists>r q. x = Some r \<and> shaped r \<and> ?q = Some q")
      case True
      then obtain q where "?q = Some q" "shaped q" using spent_record_id by fastforce
      then show ?thesis
        by (auto intro: ends_conseq [OF ends_upsert [OF assms, where I = "\<lambda>_. True"]])
    next
      case False
      then show ?thesis by (cases x) (auto simp: ends_well_def istep_ret_def split: option.splits)
    qed
  qed
qed

lemma ends_output:
  assumes "encodes cd" "parser_shaped ps" "length tx_id = 32"
  shows "ends_well cd lim ans (behind cd lim) (visit_output cd ps own tx_id height v) (\<lambda>_. behind cd lim)"
proof -
  obtain vout out where v: "v = (vout, out)" by (cases v)
  have "shaped r" if "output_record ps own tx_id height vout out = Some (r, addr)" for r addr
    using that assms(2,3) by (auto simp: output_record_def shaped_def parser_shaped_def split: if_splits option.splits)
  then show ?thesis
    by (auto simp: v visit_output_def split: option.split intro!: ends_ret ends_upsert [OF assms(1), where I = "\<lambda>_. True", simplified])
qed

lemma ends_block:
  assumes "encodes cd" "parser_shaped ps" "\<forall>(i, tx) \<in> set (fb_txs fb). length i = 32"
  shows "ends_well cd lim ans (behind cd lim) (process_fetched cd ps own fb) (\<lambda>_. behind cd lim)"
  unfolding process_fetched_def process_outputs_def process_inputs_def
  by (intro ends_each) (use assms in \<open>auto split: prod.split intro!: ends_bind ends_each ends_output ends_input\<close>)

section \<open>A tick\<close>

text \<open>The checkpoint in the index has the height and the mark of the one in hand.\<close>

definition stored_as :: "codec \<Rightarrow> follower_meta \<Rightarrow> index \<Rightarrow> bool" where
  "stored_as cd m ix \<longleftrightarrow> (\<exists>m1. get_follower_meta no_faults cd ix = Inr m1
     \<and> last_indexed_height m1 = last_indexed_height m \<and> full_scan_complete m1 = full_scan_complete m)"

text \<open>A node that answers up to the tip, with block names and transactions that decode.\<close>

definition answering :: "chain \<Rightarrow> parser \<Rightarrow> tick_answers \<Rightarrow> u64 \<Rightarrow> bool" where
  "answering ch ps ta lim \<longleftrightarrow> (\<exists>i x. ta_tip ta = Inr (lim, i) \<and> decode_hash ch i = Inr x)
     \<and> (\<forall>h \<le> lim. (\<exists>fb. fetch_full_block ch ps ta h = Inr fb)
        \<and> (\<forall>f \<in> {ta_check ta, ta_ancestor ta, ta_anchor ta}. \<exists>b x. f h = Inr b \<and> decode_hash ch (bv_block_id b) = Inr x))"

definition tip_within :: "tick_answers \<Rightarrow> u64 \<Rightarrow> bool" where
  "tip_within ta lim \<longleftrightarrow> (\<forall>t i. ta_tip ta = Inr (t, i) \<longrightarrow> t \<le> lim)"

lemma pred_le: "(h :: u64) \<le> lim \<Longrightarrow> (if h = 0 then 0 else h - 1) \<le> lim"
  by (auto simp: word_le_nat_alt unat_minus_one)

lemma mapped_source: "map_ok f xs = Inr ys \<Longrightarrow> y \<in> set ys \<Longrightarrow> \<exists>x. f x = Inr y"
  by (induction xs arbitrary: ys) (auto simp: result_simps)

lemma fetched_shape:
  assumes "fetch_full_block ch ps ta h = Inr fb"
  shows "fb_height fb = h" "\<forall>(i, tx) \<in> set (fb_txs fb). length i = 32"
proof -
  show "fb_height fb = h" using assms by (auto simp: fetch_full_block_def result_simps)
  show "\<forall>(i, tx) \<in> set (fb_txs fb). length i = 32"
    using assms by (auto simp: fetch_full_block_def result_simps dest!: mapped_source dest: decode_hash_length)
qed

lemma ends_reorg:
  assumes "encodes cd" "ans \<longrightarrow> answering ch ps ta lim"
  shows "ends_well cd lim ans (\<lambda>ix. behind cd lim ix \<and> stored_as cd m ix \<and> last_indexed_height m \<le> lim) (check_reorg ch cd ta m)
    (\<lambda>m ix. behind cd lim ix \<and> stored_as cd m ix \<and> last_indexed_height m \<le> lim)"
proof (cases "last_indexed_height m \<le> lim")
  case True
  let ?h = "last_indexed_height m"
  let ?P = "\<lambda>ix. behind cd lim ix \<and> stored_as cd m ix"
  have a: "ans \<Longrightarrow> \<exists>x. bind_ok (ta_check ta ?h) (\<lambda>b. decode_hash ch (bv_block_id b)) = Inr x"
    using assms(2) True by (fastforce simp: answering_def result_simps)
  have b: "ans \<Longrightarrow> \<exists>x. find_common_ancestor ch ta ?h = Inr x"
    using assms(2) pred_le [OF True] by (fastforce simp: answering_def find_common_ancestor_def Let_def result_simps)
  have c: "find_common_ancestor ch ta ?h = Inr (h, i) \<Longrightarrow> h \<le> lim" for h i
    using pred_le [OF True] by (auto simp: find_common_ancestor_def Let_def result_simps)
  have save: "ends_well cd lim ans (behind cd lim) (istep_bind (save_meta cd m1) (\<lambda>_. istep_ret m1))
      (\<lambda>m ix. behind cd lim ix \<and> stored_as cd m ix \<and> last_indexed_height m \<le> lim)" if "last_indexed_height m1 \<le> lim" for m1
    using that by (intro ends_bind [OF ends_save [OF assms(1) that]] ends_ret) (auto simp: stored_as_def)
  have go_back: "ends_well cd lim ans ?P (istep_bind (istep_of (find_common_ancestor ch ta ?h)) (\<lambda>(h, i).
      istep_bind (wipe_above cd h) (\<lambda>_.
      let m1 = m\<lparr>last_indexed_height := h, last_indexed_block_id := i, full_scan_complete := False\<rparr> in
      istep_bind (save_meta cd m1) (\<lambda>_. istep_ret m1))))
      (\<lambda>m ix. behind cd lim ix \<and> stored_as cd m ix \<and> last_indexed_height m \<le> lim)"
  proof (rule ends_bind [OF ends_of [where Q = "\<lambda>x ix. behind cd lim ix \<and> fst x \<le> lim"]])
    fix x :: "u64 \<times> bytes"
    obtain h i where x: "x = (h, i)" by (cases x)
    show "ends_well cd lim ans (\<lambda>ix. behind cd lim ix \<and> fst x \<le> lim) (case x of (h, i) \<Rightarrow>
      istep_bind (wipe_above cd h) (\<lambda>_.
      let m1 = m\<lparr>last_indexed_height := h, last_indexed_block_id := i, full_scan_complete := False\<rparr> in
      istep_bind (save_meta cd m1) (\<lambda>_. istep_ret m1)))
      (\<lambda>m ix. behind cd lim ix \<and> stored_as cd m ix \<and> last_indexed_height m \<le> lim)"
    proof (cases "h \<le> lim")
      case True
      then show ?thesis
        unfolding x prod.case Let_def fst_conv
        by (intro ends_conseq [OF ends_bind [OF ends_wipe save]]) auto
    next
      case False
      then show ?thesis by (simp add: ends_well_def x)
    qed
  qed (use b c in auto)
  show ?thesis
  proof (cases "?h = 0")
    case True
    then show ?thesis unfolding check_reorg_def by (auto intro: ends_ret)
  next
    case False
    then show ?thesis
      unfolding check_reorg_def if_not_P [OF False]
      using True a
      by (intro ends_conseq [OF ends_bind [OF ends_of [where P = ?P and Q = "\<lambda>_. ?P"]]])
         (auto intro: ends_ret go_back)
  qed
next
  case False
  then show ?thesis by (simp add: ends_well_def)
qed

lemma window_bounds:
  assumes "saturating_sub tip h > n" "tip - n \<ge> 1" "tip \<le> (lim :: u64)"
  shows "tip - n - 1 \<le> lim"
proof -
  have "n < tip" using assms(1) by (auto simp: saturating_sub_def word_less_nat_alt word_le_nat_alt unat_sub_if' split: if_splits)
  then have "tip - n \<le> tip" by (simp add: word_sub_le)
  then have "tip - n - 1 \<le> tip" using pred_le [of "tip - n" tip] assms(2) by (auto split: if_splits)
  then show ?thesis using assms(3) by simp
qed

lemma ends_forward:
  assumes "encodes cd" "ans \<longrightarrow> answering ch ps ta lim" "tip \<le> lim"
  shows "ends_well cd lim ans (\<lambda>ix. behind cd lim ix \<and> stored_as cd m ix \<and> last_indexed_height m \<le> lim)
    (fast_forward ch cd ta lookback tip m) (\<lambda>m ix. behind cd lim ix \<and> stored_as cd m ix \<and> last_indexed_height m \<le> lim)"
proof (cases "\<exists>n. lookback = Some n \<and> \<not> full_scan_complete m \<and> saturating_sub tip (last_indexed_height m) > n \<and> tip - n \<ge> 1")
  case False
  then show ?thesis unfolding fast_forward_def by (auto split: option.split intro: ends_ret)
next
  case True
  then obtain n where n: "lookback = Some n" "\<not> full_scan_complete m" "saturating_sub tip (last_indexed_height m) > n" "tip - n \<ge> 1"
    by blast
  let ?h = "tip - n - 1"
  let ?P = "\<lambda>ix. behind cd lim ix"
  have h: "?h \<le> lim" using window_bounds [OF n(3,4) assms(3)] .
  then have a: "ans \<Longrightarrow> \<exists>b x. ta_anchor ta ?h = Inr b \<and> decode_hash ch (bv_block_id b) = Inr x"
    using assms(2) by (fastforce simp: answering_def)
  have "ends_well cd lim ans ?P (istep_bind (istep_of (ta_anchor ta ?h)) (\<lambda>anchor.
      istep_bind (istep_of (decode_hash ch (bv_block_id anchor))) (\<lambda>i.
      let m1 = m\<lparr>last_indexed_height := ?h, last_indexed_block_id := i\<rparr> in
      istep_bind (save_meta cd m1) (\<lambda>_. istep_ret m1))))
    (\<lambda>m ix. behind cd lim ix \<and> stored_as cd m ix \<and> last_indexed_height m \<le> lim)"
  proof (rule ends_bind [OF ends_of [where Q = "\<lambda>b ix. behind cd lim ix \<and> ta_anchor ta ?h = Inr b"]])
    fix b
    show "ends_well cd lim ans (\<lambda>ix. behind cd lim ix \<and> ta_anchor ta ?h = Inr b)
      (istep_bind (istep_of (decode_hash ch (bv_block_id b))) (\<lambda>i.
      let m1 = m\<lparr>last_indexed_height := ?h, last_indexed_block_id := i\<rparr> in
      istep_bind (save_meta cd m1) (\<lambda>_. istep_ret m1)))
      (\<lambda>m ix. behind cd lim ix \<and> stored_as cd m ix \<and> last_indexed_height m \<le> lim)"
    proof (rule ends_bind [OF ends_of [where Q = "\<lambda>_. behind cd lim"]])
      fix i
      show "ends_well cd lim ans (behind cd lim) (let m1 = m\<lparr>last_indexed_height := ?h, last_indexed_block_id := i\<rparr> in
        istep_bind (save_meta cd m1) (\<lambda>_. istep_ret m1))
        (\<lambda>m ix. behind cd lim ix \<and> stored_as cd m ix \<and> last_indexed_height m \<le> lim)"
        unfolding Let_def using h by (intro ends_bind [OF ends_save [OF assms(1)]] ends_ret) (auto simp: stored_as_def)
    qed (use a in auto)
  qed (use a in auto)
  then show ?thesis using n unfolding fast_forward_def by (auto intro: ends_conseq)
qed

text \<open>The walk ends at the last height.\<close>

lemma ends_walk:
  assumes "encodes cd" "parser_shaped ps" "ans \<longrightarrow> answering ch ps ta lim"
  shows "\<forall>h \<in> set hs. h \<le> lim \<Longrightarrow> ends_well cd lim ans (behind cd lim) (walk_blocks ch cd ps own ta hs m)
    (\<lambda>m1 ix. behind cd lim ix \<and> last_indexed_height m1 = last (last_indexed_height m # hs))"
proof (induction hs arbitrary: m)
  case Nil
  then show ?case by (auto intro: ends_ret)
next
  case (Cons h hs)
  have h: "h \<le> lim" using Cons.prems by simp
  have a: "ans \<Longrightarrow> \<exists>fb. fetch_full_block ch ps ta h = Inr fb" using assms(3) h by (simp add: answering_def)
  show ?case
    unfolding walk_blocks.simps
  proof (rule ends_bind [OF ends_of [where Q = "\<lambda>fb ix. behind cd lim ix \<and> fetch_full_block ch ps ta h = Inr fb"]])
    fix fb :: fetched_block
    let ?m = "m\<lparr>last_indexed_height := fb_height fb, last_indexed_block_id := fb_block_id fb\<rparr>"
    show "ends_well cd lim ans (\<lambda>ix. behind cd lim ix \<and> fetch_full_block ch ps ta h = Inr fb)
      (istep_bind (process_fetched cd ps own fb) (\<lambda>_. let m1 = ?m in
       istep_bind (save_meta cd m1) (\<lambda>_. walk_blocks ch cd ps own ta hs m1)))
      (\<lambda>m1 ix. behind cd lim ix \<and> last_indexed_height m1 = last (last_indexed_height m # h # hs))"
    proof (cases "fetch_full_block ch ps ta h = Inr fb")
      case True
      note shape = fetched_shape [OF True]
      have "ends_well cd lim ans (behind cd lim) (walk_blocks ch cd ps own ta hs ?m)
        (\<lambda>m1 ix. behind cd lim ix \<and> last_indexed_height m1 = last (last_indexed_height m # h # hs))"
        using Cons.IH [of ?m] Cons.prems shape(1) by simp
      then have "ends_well cd lim ans (behind cd lim)
        (istep_bind (process_fetched cd ps own fb) (\<lambda>_. istep_bind (save_meta cd ?m) (\<lambda>_. walk_blocks ch cd ps own ta hs ?m)))
        (\<lambda>m1 ix. behind cd lim ix \<and> last_indexed_height m1 = last (last_indexed_height m # h # hs))"
        using h shape(1)
        by (intro ends_bind [OF ends_block [OF assms(1,2) shape(2)]] ends_bind [OF ends_save [OF assms(1)]]) (auto elim: ends_pre)
      then show ?thesis unfolding Let_def by (rule ends_pre) simp
    next
      case False
      then show ?thesis by (simp add: ends_well_def)
    qed
  qed (use a in auto)
qed

lemma heights_within: "h \<in> set (heights a b) \<Longrightarrow> h \<le> b"
proof -
  assume "h \<in> set (heights a b)"
  then obtain n where n: "h = word_of_nat n" "n \<le> unat b" by (auto simp: heights_def)
  moreover have "unat b < 2 ^ LENGTH(64)" by (rule unsigned_less)
  ultimately show ?thesis by (simp add: word_le_nat_alt unat_of_nat)
qed

lemma heights_last: "a \<le> b \<Longrightarrow> last (x # heights a b) = b"
  by (simp add: heights_def word_le_nat_alt)

lemma last_before_tip: "(h :: u64) \<le> lim \<Longrightarrow> h + 1 > lim \<Longrightarrow> h = lim"
  by (metis inc_le order_le_imp_less_or_eq leD)

lemma ends_finish:
  assumes "encodes cd" "parser_shaped ps" "ans \<longrightarrow> answering ch ps ta lim" "tip \<le> lim" "ans \<longrightarrow> tip = lim"
  shows "ends_well cd lim ans (\<lambda>ix. behind cd lim ix \<and> stored_as cd m ix \<and> last_indexed_height m \<le> lim)
    (let start = (if last_indexed_block_id m = replicate 32 0 \<and> last_indexed_height m = 0 then 0 else last_indexed_height m + 1) in
     if start > tip then
       (if full_scan_complete m then istep_ret () else save_meta cd (m\<lparr>full_scan_complete := True\<rparr>))
     else
     istep_bind (walk_blocks ch cd ps own ta (heights start tip) m) (\<lambda>m.
     istep_bind (sweep_expired cd (last_indexed_height m)) (\<lambda>_.
     save_meta cd (if last_indexed_height m \<ge> tip then m\<lparr>full_scan_complete := True\<rparr> else m))))
    (\<lambda>_ ix. behind cd lim ix \<and> (ans \<longrightarrow> at_tip cd lim ix))"
proof (cases "last_indexed_height m \<le> lim")
  case le: True
  let ?start = "if last_indexed_block_id m = replicate 32 0 \<and> last_indexed_height m = 0 then 0 else last_indexed_height m + 1"
  show ?thesis
  proof (cases "?start > tip")
    case True
    then have "ans \<Longrightarrow> last_indexed_height m = lim" using last_before_tip [OF le] assms(5) by (auto split: if_splits)
    moreover have "ends_well cd lim ans (behind cd lim) (save_meta cd (m\<lparr>full_scan_complete := True\<rparr>))
        (\<lambda>_ ix. behind cd lim ix \<and> get_follower_meta no_faults cd ix = Inr (m\<lparr>full_scan_complete := True\<rparr>))"
      using le by (intro ends_save assms(1)) simp
    ultimately show ?thesis
      unfolding Let_def using True
      by (cases "full_scan_complete m") (auto intro!: ends_ret elim!: ends_conseq simp: at_tip_def stored_as_def)
  next
    case False
    have tail: "ends_well cd lim ans (\<lambda>ix. behind cd lim ix \<and> last_indexed_height m1 = last (last_indexed_height m # heights ?start tip))
        (istep_bind (sweep_expired cd (last_indexed_height m1)) (\<lambda>_.
         save_meta cd (if last_indexed_height m1 \<ge> tip then m1\<lparr>full_scan_complete := True\<rparr> else m1)))
        (\<lambda>_ ix. behind cd lim ix \<and> (ans \<longrightarrow> at_tip cd lim ix))" for m1
    proof (cases "last_indexed_height m1 = tip")
      case True
      have "ends_well cd lim ans (behind cd lim) (save_meta cd (m1\<lparr>full_scan_complete := True\<rparr>))
          (\<lambda>_ ix. behind cd lim ix \<and> get_follower_meta no_faults cd ix = Inr (m1\<lparr>full_scan_complete := True\<rparr>))"
        using True assms(4) by (intro ends_save assms(1)) simp
      then have "ends_well cd lim ans (behind cd lim) (istep_bind (sweep_expired cd (last_indexed_height m1)) (\<lambda>_.
          save_meta cd (m1\<lparr>full_scan_complete := True\<rparr>))) (\<lambda>_ ix. behind cd lim ix \<and> (ans \<longrightarrow> at_tip cd lim ix))"
        using True assms(5)
        by (intro ends_bind [OF ends_sweep [OF assms(1)]]) (auto simp: at_tip_def elim!: ends_conseq)
      then show ?thesis using True by (auto elim: ends_pre)
    next
      case ne: False
      moreover have "last (last_indexed_height m # heights ?start tip) = tip" using \<open>\<not> ?start > tip\<close> by (intro heights_last) simp
      ultimately show ?thesis by (simp add: ends_well_def)
    qed
    have "\<forall>h \<in> set (heights ?start tip). h \<le> lim" using heights_within assms(4) by (blast intro: order.trans)
    from ends_bind [OF ends_walk [OF assms(1-3) this] tail] show ?thesis
      unfolding Let_def if_not_P [OF False] by (rule ends_pre) simp
  qed
qed (simp add: ends_well_def)

text \<open>Where a tick ends: behind the height, and at it if its tip is that.\<close>

lemma ends_tick:
  assumes "encodes cd" "parser_shaped ps" "ans \<longrightarrow> answering ch ps ta lim" "tip_within ta lim"
  shows "ends_well cd lim ans (behind cd lim) (tick ch cd ps own lookback ta) (\<lambda>_ ix. behind cd lim ix \<and> (ans \<longrightarrow> at_tip cd lim ix))"
  unfolding tick_def
proof (rule ends_bind [OF ends_of [where Q = "\<lambda>x ix. behind cd lim ix \<and> fst x \<le> lim \<and> (ans \<longrightarrow> fst x = lim)"]])
  fix x :: "u64 \<times> string"
  obtain tip i where x: "x = (tip, i)" by (cases x)
  show "ends_well cd lim ans (\<lambda>ix. behind cd lim ix \<and> fst x \<le> lim \<and> (ans \<longrightarrow> fst x = lim)) (case x of (tip, _) \<Rightarrow>
     istep_bind (reading (\<lambda>fails. get_follower_meta fails cd)) (\<lambda>m0.
     let m = (if started_at m0 = 0 then m0\<lparr>started_at := ta_clock ta\<rparr> else m0) in
     istep_bind (check_reorg ch cd ta m) (\<lambda>m.
     istep_bind (fast_forward ch cd ta lookback tip m) (\<lambda>m.
     let start = (if last_indexed_block_id m = replicate 32 0 \<and> last_indexed_height m = 0 then 0
                  else last_indexed_height m + 1) in
     if start > tip then
       (if full_scan_complete m then istep_ret () else save_meta cd (m\<lparr>full_scan_complete := True\<rparr>))
     else
     istep_bind (walk_blocks ch cd ps own ta (heights start tip) m) (\<lambda>m.
     istep_bind (sweep_expired cd (last_indexed_height m)) (\<lambda>_.
     save_meta cd (if last_indexed_height m \<ge> tip then m\<lparr>full_scan_complete := True\<rparr> else m)))))))
     (\<lambda>_ ix. behind cd lim ix \<and> (ans \<longrightarrow> at_tip cd lim ix))"
  proof (cases "tip \<le> lim \<and> (ans \<longrightarrow> tip = lim)")
    case True
    then have t: "tip \<le> lim" "ans \<longrightarrow> tip = lim" by simp_all
    show ?thesis
      unfolding x prod.case Let_def
      by (rule ends_pre, rule ends_bind [OF ends_checkpoint], rule ends_pre, rule ends_bind [OF ends_reorg [OF assms(1,3)]],
          rule ends_bind [OF ends_forward [OF assms(1,3) t(1)]], rule ends_finish [unfolded Let_def, OF assms(1,2,3) t])
         (auto simp: stored_as_def)
  next
    case False
    then show ?thesis by (auto simp: ends_well_def x)
  qed
qed (use assms(3,4) in \<open>auto simp: answering_def tip_within_def\<close>)

lemma ends_tip_only:
  assumes "encodes cd" "ans \<longrightarrow> answering ch ps ta lim" "tip_within ta lim"
  shows "ends_well cd lim ans (behind cd lim) (tick_tip_only ch cd ta) (\<lambda>_ ix. behind cd lim ix \<and> (ans \<longrightarrow> at_tip cd lim ix))"
  unfolding tick_tip_only_def
proof (rule ends_bind [OF ends_of [where Q = "\<lambda>x ix. behind cd lim ix \<and> ta_tip ta = Inr x"]])
  fix x :: "u64 \<times> string"
  obtain tip i where x: "x = (tip, i)" by (cases x)
  show "ends_well cd lim ans (\<lambda>ix. behind cd lim ix \<and> ta_tip ta = Inr x) (case x of (tip, block_id) \<Rightarrow>
     istep_bind (reading (\<lambda>fails. get_follower_meta fails cd)) (\<lambda>m0.
     let m = (if started_at m0 = 0 then m0\<lparr>started_at := ta_clock ta\<rparr> else m0) in
     if last_indexed_height m \<noteq> tip \<or> \<not> full_scan_complete m then
       istep_bind (istep_of (decode_hash ch block_id)) (\<lambda>i.
       save_meta cd (m\<lparr>last_indexed_height := tip, last_indexed_block_id := i, full_scan_complete := True\<rparr>))
     else istep_ret ()))
    (\<lambda>_ ix. behind cd lim ix \<and> (ans \<longrightarrow> at_tip cd lim ix))"
  proof (cases "ta_tip ta = Inr (tip, i)")
    case True
    then have t: "tip \<le> lim" "ans \<longrightarrow> tip = lim \<and> (\<exists>y. decode_hash ch i = Inr y)"
      using assms(2,3) by (auto simp: answering_def tip_within_def)
    have keep: "ends_well cd lim ans (\<lambda>ix. behind cd lim ix \<and> stored_as cd m ix)
      (if last_indexed_height m \<noteq> tip \<or> \<not> full_scan_complete m then
        istep_bind (istep_of (decode_hash ch i)) (\<lambda>i.
        save_meta cd (m\<lparr>last_indexed_height := tip, last_indexed_block_id := i, full_scan_complete := True\<rparr>))
       else istep_ret ()) (\<lambda>_ ix. behind cd lim ix \<and> (ans \<longrightarrow> at_tip cd lim ix))" for m
    proof -
      have "ends_well cd lim ans (behind cd lim)
          (save_meta cd (m\<lparr>last_indexed_height := tip, last_indexed_block_id := y, full_scan_complete := True\<rparr>))
          (\<lambda>_ ix. behind cd lim ix \<and> (ans \<longrightarrow> at_tip cd lim ix))" for y
        using t by (intro ends_conseq [OF ends_save [OF assms(1)]]) (auto simp: at_tip_def)
      moreover have "ends_well cd lim ans (\<lambda>ix. behind cd lim ix \<and> stored_as cd m ix) (istep_of (decode_hash ch i)) (\<lambda>_. behind cd lim)"
        using t(2) by (intro ends_of) auto
      ultimately show ?thesis
        using t(2) by (auto intro!: ends_ret intro: ends_bind simp: at_tip_def stored_as_def)
    qed
    show ?thesis
      unfolding x prod.case Let_def
      by (rule ends_pre, rule ends_bind [OF ends_checkpoint], rule ends_pre, rule keep) (auto simp: stored_as_def)
  next
    case False
    then show ?thesis by (simp add: ends_well_def x)
  qed
qed (use assms(2) in \<open>auto simp: answering_def\<close>)

section \<open>The follower catches up\<close>

lemma pass_ends:
  assumes "encodes cd" "parser_shaped ps" "tip_within (pa_node pa) lim" "behind cd lim ix"
    "follower_pass ch cd ps fc pa (own, ix) = (own1, ix1)"
  shows "behind cd lim ix1"
    "answering ch ps (pa_node pa) lim \<Longrightarrow> pa_faults pa = (\<lambda>_. no_faults) \<Longrightarrow> at_tip cd lim ix1"
proof -
  let ?ans = "answering ch ps (pa_node pa) lim"
  have *: "behind cd lim (snd (fst (m (pa_faults pa) (0, ix))))
      \<and> (?ans \<longrightarrow> pa_faults pa = (\<lambda>_. no_faults) \<longrightarrow> at_tip cd lim (snd (fst (m (pa_faults pa) (0, ix)))))"
    if e: "ends_well cd lim ?ans (behind cd lim) m (\<lambda>_ ix. behind cd lim ix \<and> (?ans \<longrightarrow> at_tip cd lim ix))"
    for m :: "unit index_step"
  proof -
    obtain n' ix' r where "m (pa_faults pa) (0, ix) = ((n', ix'), r)" by (metis surj_pair)
    then show ?thesis using ends_wellD [OF e assms(4)] by (cases r) auto
  qed
  have "behind cd lim ix1 \<and> (?ans \<longrightarrow> pa_faults pa = (\<lambda>_. no_faults) \<longrightarrow> at_tip cd lim ix1)"
    using assms(5) * [OF ends_tip_only [OF assms(1) _ assms(3)]] * [OF ends_tick [OF assms(1,2) _ assms(3)]]
    by (auto simp: follower_pass_def Let_def split: if_splits)
  then show "behind cd lim ix1" "?ans \<Longrightarrow> pa_faults pa = (\<lambda>_. no_faults) \<Longrightarrow> at_tip cd lim ix1" by blast+
qed

lemma run_behind:
  assumes "encodes cd" "parser_shaped ps"
  shows "\<forall>pa \<in> set pas. tip_within (pa_node pa) lim \<Longrightarrow> behind cd lim (snd st)
    \<Longrightarrow> behind cd lim (snd (fold (follower_pass ch cd ps fc) pas st))"
proof (induction pas arbitrary: st)
  case (Cons pa pas)
  have "behind cd lim (snd (follower_pass ch cd ps fc pa st))"
    using pass_ends(1) [OF assms, of pa lim "snd st" ch fc "fst st"] Cons.prems by (metis list.set_intros(1) prod.collapse)
  then show ?case using Cons by simp
qed simp


section \<open>An encoding\<close>

text \<open>Each field as bytes, each byte after a 1, each field ended by a 0.\<close>

fun put_fields :: "bytes list \<Rightarrow> bytes" where
  "put_fields [] = []"
| "put_fields ([] # bs) = 0 # put_fields bs"
| "put_fields ((x # b) # bs) = 1 # x # put_fields (b # bs)"

fun get_fields :: "bytes \<Rightarrow> bytes list" where
  "get_fields [] = []"
| "get_fields [_] = [[]]"
| "get_fields (t # x # w) =
     (if t = 0 then [] # get_fields (x # w) else case get_fields w of [] \<Rightarrow> [[x]] | b # bs \<Rightarrow> (x # b) # bs)"

lemma get_put_fields: "get_fields (put_fields bs) = bs"
proof (induction bs rule: put_fields.induct)
  case (2 bs)
  then show ?case by (cases "put_fields bs") auto
qed simp_all

definition state_from :: "u8 \<Rightarrow> htlc_lifecycle" where
  "state_from w = (if w = 0 then Locked else if w = 1 then LockedExpired else if w = 2 then Claimed else if w = 3 then Reclaimed else Unknown)"

definition role_from :: "u8 \<Rightarrow> htlc_role" where
  "role_from w = (if w = 0 then Sender else if w = 1 then Receiver else if w = 2 then Both else Observer)"

lemma from_byte [simp]: "state_from (state_byte st) = st" "role_from (role_byte ro) = ro"
  by (cases st; simp add: state_from_def state_byte_def) (cases ro; simp add: role_from_def role_byte_def)

definition claim_fields :: "claim_record option \<Rightarrow> bytes list" where
  "claim_fields x = (case x of None \<Rightarrow> [[], [], [], [], []]
     | Some c \<Rightarrow> [[1], cr_tx_id c, cr_preimage c, u64_to_be (cr_block_height c), u32_to_be (cr_input_index c)])"

definition claim_from :: "bytes list \<Rightarrow> claim_record option" where
  "claim_from f = (if f ! 0 = [] then None else Some \<lparr>cr_tx_id = f ! 1, cr_preimage = f ! 2,
     cr_block_height = u64_from_be (f ! 3), cr_input_index = u32_from_be (f ! 4)\<rparr>)"

definition reclaim_fields :: "reclaim_record option \<Rightarrow> bytes list" where
  "reclaim_fields x = (case x of None \<Rightarrow> [[], [], [], []]
     | Some c \<Rightarrow> [[1], rr_tx_id c, u64_to_be (rr_block_height c), u32_to_be (rr_input_index c)])"

definition reclaim_from :: "bytes list \<Rightarrow> reclaim_record option" where
  "reclaim_from f = (if f ! 0 = [] then None else Some \<lparr>rr_tx_id = f ! 1, rr_block_height = u64_from_be (f ! 2),
     rr_input_index = u32_from_be (f ! 3)\<rparr>)"

lemma fields_back [simp]: "claim_from (claim_fields x @ r) = x" "reclaim_from (reclaim_fields y @ r) = y"
  "length (claim_fields x) = 5" "length (reclaim_fields y) = 4"
  by (auto simp: claim_fields_def claim_from_def reclaim_fields_def reclaim_from_def split: option.split)

definition plain_codec :: codec where
  "plain_codec = \<lparr>
     ser_htlc = (\<lambda>r. Some (put_fields ([hr_lock_tx_id r, u32_to_be (hr_output_index r), hp_sender (hr_params r),
       hp_receiver (hr_params r), hp_hash_lock (hr_params r), u64_to_be (hp_timeout_height (hr_params r)),
       u64_to_be (hr_amount r), (case hr_lock_height r of None \<Rightarrow> [] | Some h \<Rightarrow> u64_to_be h),
       [state_byte (hr_state r)], [role_byte (hr_role r)], u64_to_be (hr_last_indexed r)]
       @ claim_fields (hr_claim r) @ reclaim_fields (hr_reclaim r)))),
     de_htlc = (\<lambda>b. let f = get_fields b in Some \<lparr>hr_lock_tx_id = f ! 0, hr_output_index = u32_from_be (f ! 1),
       hr_params = \<lparr>hp_sender = f ! 2, hp_receiver = f ! 3, hp_hash_lock = f ! 4, hp_timeout_height = u64_from_be (f ! 5)\<rparr>,
       hr_amount = u64_from_be (f ! 6), hr_lock_height = (if f ! 7 = [] then None else Some (u64_from_be (f ! 7))),
       hr_state = state_from (hd (f ! 8)), hr_claim = claim_from (drop 11 f), hr_reclaim = reclaim_from (drop 16 f),
       hr_role = role_from (hd (f ! 9)), hr_last_indexed = u64_from_be (f ! 10)\<rparr>),
     ser_meta = (\<lambda>m. Some (put_fields [u64_to_be (last_indexed_height m), last_indexed_block_id m,
       [if full_scan_complete m then 1 else 0], u64_to_be (started_at m)])),
     de_meta = (\<lambda>b. let f = get_fields b in Some \<lparr>last_indexed_height = u64_from_be (f ! 0), last_indexed_block_id = f ! 1,
       full_scan_complete = (f ! 2 = [1]), started_at = u64_from_be (f ! 3)\<rparr>),
     base64_encode = \<lambda>_. [], base64_decode = \<lambda>_. None\<rparr>"

lemma plain_encodes: "encodes plain_codec"
proof -
  have h: "u64_to_be h \<noteq> []" for h by (metis u64_to_be_length list.size(3) zero_neq_numeral)
  have "de_htlc plain_codec (the (ser_htlc plain_codec r)) = Some r" for r
  proof -
    have c: "claim_from (claim_fields x @ r) = x" "reclaim_from (reclaim_fields y) = y" for x y r
      using fields_back(1) fields_back(2) [of y "[]"] by simp_all
    show ?thesis
      by (auto simp: plain_codec_def get_put_fields Let_def c h split: option.split intro!: htlc_record.equality htlc_params.equality)
  qed
  moreover have "de_meta plain_codec (the (ser_meta plain_codec m)) = Some m" for m
    by (simp add: plain_codec_def get_put_fields Let_def)
  ultimately show ?thesis by (simp add: encodes_def plain_codec_def)
qed

text \<open>A pass whose node does not answer, then one with two blocks.\<close>

definition quiet_pass :: pass_answers where
  "quiet_pass = \<lparr>pa_listed = Inr [], pa_load = (\<lambda>_. Inl (Internal '''')), pa_node = (answers 102 [])\<lparr>ta_tip := Inl (Internal '''')\<rparr>,
     pa_faults = (\<lambda>_ _. True)\<rparr>"

definition plain_pass :: pass_answers where
  "plain_pass = quiet_pass\<lparr>pa_node := (answers 102 [])\<lparr>ta_tip := Inr (2, replicate 32 CHR ''b'')\<rparr>, pa_faults := (\<lambda>_. no_faults)\<rparr>"


end
