(* ===== verification/HostFiles.thy ===== *)
theory HostFiles imports Auth PaymentUri begin

text \<open>
  The files a start of the daemon makes or reads outside the stores: the directories and token files
  (\<open>src/server.rs\<close>), the certificate files and the names in the certificate (\<open>src/tls.rs\<close>).  The file system is a tree of
  paths; the host says which calls fail, where a write stops, the umask and the random bytes.  X.509 and the
  loading of a certificate are the libraries': parameters.
\<close>

section \<open>The file system\<close>

type_synonym path = "string list"

datatype file_node = Directory (node_mode: u32) | File (node_mode: u32) (file_text: string)

type_synonym tree = "path \<rightharpoonup> file_node"

type_synonym 'a any = "string + 'a"

datatype fs_call = ReadFile path | CreateFile path | SetMode path | MakeDir path

text \<open>\<open>torn\<close>: the number of bytes after which the writing to a file stops, if it stops.\<close>

record file_host =
  refuses :: "fs_call \<Rightarrow> bool"
  torn :: "path \<Rightarrow> nat option"
  umask :: u32
  token_bytes :: "path \<Rightarrow> bytes"
  hex_text :: "bytes \<Rightarrow> string"

definition is_dir :: "tree \<Rightarrow> path \<Rightarrow> bool" where
  "is_dir t p = (case t p of Some (Directory _) \<Rightarrow> True | _ \<Rightarrow> False)"

definition in_dir :: "tree \<Rightarrow> path \<Rightarrow> bool" where
  "in_dir t p \<longleftrightarrow> butlast p = [] \<or> is_dir t (butlast p)"

definition mkdir :: "file_host \<Rightarrow> u32 \<Rightarrow> path \<Rightarrow> tree \<Rightarrow> tree \<times> bool" where
  "mkdir fh mode p t =
     (if refuses fh (MakeDir p) \<or> t p \<noteq> None \<or> \<not> in_dir t p then (t, False)
      else (t(p \<mapsto> Directory (mode AND NOT (umask fh))), True))"

text \<open>The recursive builder of directories, over the prefixes of the path.\<close>

fun make_missing :: "file_host \<Rightarrow> u32 \<Rightarrow> path list \<Rightarrow> tree \<Rightarrow> tree \<times> unit any" where
  "make_missing fh mode [] t = (t, Inr ())"
| "make_missing fh mode (p # ps) t =
     (if is_dir t p then make_missing fh mode ps t
      else case mkdir fh mode p t of
        (t1, True) \<Rightarrow> make_missing fh mode ps t1
      | (t1, False) \<Rightarrow> (t1, Inl ''create directory''))"

definition build_dirs :: "file_host \<Rightarrow> u32 \<Rightarrow> path \<Rightarrow> tree \<Rightarrow> tree \<times> unit any" where
  "build_dirs fh mode p t = make_missing fh mode (map (\<lambda>n. take n p) [1..<Suc (length p)]) t"

text \<open>A new file with what is written to it: \<open>create_new\<close> refuses a path that is taken.\<close>

definition write_new :: "file_host \<Rightarrow> path \<Rightarrow> string \<Rightarrow> tree \<Rightarrow> tree \<times> unit any" where
  "write_new fh p contents t =
     (if refuses fh (CreateFile p) \<or> t p \<noteq> None \<or> \<not> in_dir t p then (t, Inl ''creating file'')
      else
        let mode = 0x180 AND NOT (umask fh) in
        case torn fh p of
          None \<Rightarrow> (t(p \<mapsto> File mode contents), Inr ())
        | Some n \<Rightarrow> (t(p \<mapsto> File mode (take n contents)), Inl ''write''))"

text \<open>A file as text; bytes that are no UTF-8 are an error like any other.\<close>

definition read_to_string :: "file_host \<Rightarrow> path \<Rightarrow> tree \<Rightarrow> string any" where
  "read_to_string fh p t =
     (case t p of
        Some (File _ s) \<Rightarrow> if \<not> refuses fh (ReadFile p) \<and> utf8_valid (ascii s) then Inr s else Inl ''read''
      | _ \<Rightarrow> Inl ''read'')"

definition open_file :: "file_host \<Rightarrow> path \<Rightarrow> tree \<Rightarrow> string any" where
  "open_file fh p t =
     (case t p of
        Some (File _ s) \<Rightarrow> if refuses fh (ReadFile p) then Inl ''open'' else Inr s
      | _ \<Rightarrow> Inl ''open'')"

section \<open>Directories and tokens\<close>

text \<open>A directory that is there gets the mode; one that is not is made with it.\<close>

definition ensure_dir :: "file_host \<Rightarrow> path \<Rightarrow> u32 \<Rightarrow> tree \<Rightarrow> tree \<times> unit any" where
  "ensure_dir fh p mode t =
     (case t p of
        Some (File _ _) \<Rightarrow> (t, Inl ''exists but is not a directory'')
      | Some (Directory current) \<Rightarrow>
          if current AND 0x1FF \<noteq> mode then
            (if refuses fh (SetMode p) then (t, Inl ''set permissions'') else (t(p \<mapsto> Directory mode), Inr ()))
          else (t, Inr ())
      | None \<Rightarrow> build_dirs fh mode p t)"

definition ensure_token_file :: "file_host \<Rightarrow> path \<Rightarrow> tree \<Rightarrow> tree \<times> string any" where
  "ensure_token_file fh p t =
     (let present = (case read_to_string fh p t of Inr s \<Rightarrow> trim s | Inl _ \<Rightarrow> []) in
      if present \<noteq> [] then (t, Inr present)
      else
        let token = hex_text fh (token_bytes fh p) in
        case write_new fh p (token @ [CHR 0x0A]) t of
          (t1, Inl e) \<Rightarrow> (t1, Inl e)
        | (t1, Inr _) \<Rightarrow> (t1, Inr token))"

section \<open>Certificates\<close>

datatype san = DnsName string | IpName ip_addr

text \<open>
  The libraries: addresses from text, the certificate for a list of names as its PEM, the PEM of its key and its
  digest in hex, and what the TLS library makes of a certificate and a key.
\<close>

record 'c tls_lib =
  ip_of_text :: "string \<Rightarrow> ip_addr option"
  self_signed :: "san list \<Rightarrow> (string \<times> string \<times> string) any"
  server_config :: "string \<Rightarrow> string \<Rightarrow> 'c any"

definition is_ia5 :: "string \<Rightarrow> bool" where
  "is_ia5 s \<longleftrightarrow> list_all (\<lambda>c. of_char c < (128 :: nat)) s"

text \<open>One entry: skipped, added unless it is there, or refused.\<close>

definition san_of :: "'c tls_lib \<Rightarrow> string \<Rightarrow> san option any" where
  "san_of T raw =
     (let entry = trim raw in
      if entry = [] then Inr None
      else case ip_of_text T entry of
        Some ip \<Rightarrow> if is_loopback ip \<or> is_unspecified ip then Inr None else Inr (Some (IpName ip))
      | None \<Rightarrow> if is_ia5 entry then Inr (Some (DnsName entry)) else Inl ''invalid --tls-san entry'')"

fun add_sans :: "'c tls_lib \<Rightarrow> string list \<Rightarrow> san list \<Rightarrow> san list any" where
  "add_sans T [] sans = Inr sans"
| "add_sans T (raw # raws) sans =
     bind_ok (san_of T raw) (\<lambda>x.
     case x of
       None \<Rightarrow> add_sans T raws sans
     | Some s \<Rightarrow> add_sans T raws (if s \<in> set sans then sans else sans @ [s]))"

definition base_sans :: "san list" where
  "base_sans = [DnsName ''localhost'', IpName (V4 127 0 0 1), IpName (V6 [0, 0, 0, 0, 0, 0, 0, 1])]"

definition generate_self_signed :: "'c tls_lib \<Rightarrow> string list \<Rightarrow> (string \<times> string \<times> string) any" where
  "generate_self_signed T extra_sans =
     bind_ok (add_sans T extra_sans base_sans) (\<lambda>sans.
     bind_ok (self_signed T sans) (\<lambda>(cert_pem, key_pem, digest).
     Inr (cert_pem, key_pem, ''sha256:'' @ digest)))"

record 'c tls_material =
  tm_config :: 'c
  tm_cert_pem :: string
  tm_fingerprint :: string
  tm_generated :: bool

definition load_server_config :: "'c tls_lib \<Rightarrow> file_host \<Rightarrow> path \<Rightarrow> path \<Rightarrow> tree \<Rightarrow> 'c any" where
  "load_server_config T fh cert_path key_path t =
     bind_ok (open_file fh cert_path t) (\<lambda>cert.
     bind_ok (open_file fh key_path t) (\<lambda>key.
     server_config T cert key))"

definition ensure_cert_files ::
    "'c tls_lib \<Rightarrow> file_host \<Rightarrow> path \<Rightarrow> path \<Rightarrow> path \<Rightarrow> string list \<Rightarrow> tree \<Rightarrow> tree \<times> 'c tls_material any" where
  "ensure_cert_files T fh cert_path key_path fingerprint_path extra_sans t =
     (if t cert_path \<noteq> None \<and> t key_path \<noteq> None \<and> t fingerprint_path \<noteq> None then
        (t, bind_ok (read_to_string fh cert_path t) (\<lambda>cert_pem.
            bind_ok (load_server_config T fh cert_path key_path t) (\<lambda>config.
            bind_ok (read_to_string fh fingerprint_path t) (\<lambda>fingerprint.
            Inr \<lparr>tm_config = config, tm_cert_pem = cert_pem, tm_fingerprint = trim fingerprint, tm_generated = False\<rparr>))))
      else
        case generate_self_signed T extra_sans of
          Inl e \<Rightarrow> (t, Inl e)
        | Inr (cert_pem, key_pem, fingerprint) \<Rightarrow>
            (case write_new fh cert_path cert_pem t of
               (t1, Inl e) \<Rightarrow> (t1, Inl e)
             | (t1, Inr _) \<Rightarrow>
                 (case write_new fh key_path key_pem t1 of
                    (t2, Inl e) \<Rightarrow> (t2, Inl e)
                  | (t2, Inr _) \<Rightarrow>
                      (case write_new fh fingerprint_path (fingerprint @ [CHR 0x0A]) t2 of
                         (t3, Inl e) \<Rightarrow> (t3, Inl e)
                       | (t3, Inr _) \<Rightarrow>
                           (t3, bind_ok (load_server_config T fh cert_path key_path t3) (\<lambda>config.
                                Inr \<lparr>tm_config = config, tm_cert_pem = cert_pem, tm_fingerprint = fingerprint,
                                   tm_generated = True\<rparr>))))))"

section \<open>Tokens stay\<close>

lemma write_new_cases:
  assumes "write_new fh p s t = (t1, r)"
  shows "(r = Inl ''creating file'' \<and> t1 = t) \<or> t p = None \<and> (\<exists>s' m. t1 = t(p \<mapsto> File m s') \<and> m AND 0x3F = 0
     \<and> (case torn fh p of None \<Rightarrow> r = Inr () \<and> s' = s | Some n \<Rightarrow> r = Inl ''write'' \<and> s' = take n s))"
proof -
  have "(0x180 AND NOT u) AND 0x3F = (0x180 AND 0x3F) AND NOT u" for u :: u32 by (simp only: ac_simps)
  then have "(0x180 AND NOT u) AND 0x3F = 0" for u :: u32 by simp
  then show ?thesis using assms by (auto simp: write_new_def Let_def split: if_splits option.splits)
qed

text \<open>What is relied upon: the text of 32 bytes is 64 letters, none of them blank.\<close>

definition is_letter :: "char \<Rightarrow> bool" where
  "is_letter c \<longleftrightarrow> 32 < (of_char c :: nat) \<and> of_char c < (127 :: nat)"

definition plain_hex :: "file_host \<Rightarrow> bool" where
  "plain_hex fh \<longleftrightarrow> (\<forall>b. length (hex_text fh b) = 2 * length b \<and> list_all is_letter (hex_text fh b))
     \<and> (\<forall>p. length (token_bytes fh p) = 32)"

lemma letter_byte:
  assumes "is_letter c"
  shows "(of_char c :: u8) < 0x80" "\<not> is_space c"
proof -
  have "(of_char c :: u8) = word_of_nat (of_char c)" by (simp only: of_nat_of_char)
  then have "unat (of_char c :: u8) = of_char c mod 256" by (simp only: unat_of_nat_u8)
  then show "(of_char c :: u8) < 0x80" using assms by (simp add: is_letter_def word_less_nat_alt)
  show "\<not> is_space c" using assms by (auto simp: is_letter_def is_space_def Let_def)
qed

lemma letters_utf8: "list_all is_letter s \<Longrightarrow> utf8_valid (ascii s @ r) = utf8_valid r"
  by (induction s) (auto simp: ascii_def letter_byte)

lemma letters_trim: "list_all is_letter s \<Longrightarrow> trim s = s \<and> trim (s @ [CHR 0x0A]) = s"
proof -
  assume s: "list_all is_letter s"
  have nl: "is_space (CHR 0x0A)" by (simp add: is_space_def Let_def)
  have "dropWhile is_space s = s" using s letter_byte by (cases s) simp_all
  moreover have "dropWhile is_space (s @ [CHR 0x0A]) = (if s = [] then [] else s @ [CHR 0x0A])"
    using s letter_byte nl by (cases s) simp_all
  moreover have "dropWhile is_space (rev s) = rev s"
    using s letter_byte by (cases s rule: rev_cases) simp_all
  ultimately show ?thesis using nl by (simp add: trim_def)
qed

lemma token_of_file:
  assumes "t p = Some (File m s)" "utf8_valid (ascii s)"
  shows "ensure_token_file fh p t = (t, if trim s \<noteq> [] \<and> \<not> refuses fh (ReadFile p) then Inr (trim s) else Inl ''creating file'')"
  using assms by (auto simp: ensure_token_file_def read_to_string_def write_new_def Let_def)

text \<open>C38: A token is minted once.  When a start has a token from its file, no later start, whatever calls fail, changes the
  file; one that can read the file has the same token; and a minted file is private to its owner.\<close>

theorem token_survives_starts:
  assumes "plain_hex fh" "ensure_token_file fh p t = (t1, Inr token)"
  shows "token \<noteq> [] \<and> (\<forall>fh'. fst (ensure_token_file fh' p t1) = t1)
    \<and> (\<forall>fh'. \<not> refuses fh' (ReadFile p) \<longrightarrow> ensure_token_file fh' p t1 = (t1, Inr token))
    \<and> (t p = None \<longrightarrow> (\<exists>m s. t1 p = Some (File m s) \<and> m AND 0x3F = 0))"
proof -
  let ?new = "hex_text fh (token_bytes fh p)"
  have new: "list_all is_letter ?new" "length ?new = 64" using assms(1) by (auto simp: plain_hex_def)
  have "\<exists>m s. t1 p = Some (File m s) \<and> utf8_valid (ascii s) \<and> trim s = token \<and> token \<noteq> [] \<and> (t p = None \<longrightarrow> m AND 0x3F = 0)"
  proof (cases "read_to_string fh p t")
    case (Inr s)
    then have s: "\<exists>m. t p = Some (File m s)" "utf8_valid (ascii s)"
      by (auto simp: read_to_string_def split: option.splits file_node.splits if_splits)
    show ?thesis
    proof (cases "trim s = []")
      case False
      then show ?thesis using Inr s assms(2) by (auto simp: ensure_token_file_def Let_def)
    next
      case True
      then show ?thesis using Inr s assms(2) by (auto simp: ensure_token_file_def write_new_def Let_def)
    qed
  next
    case (Inl e)
    then obtain u where u: "write_new fh p (?new @ [CHR 0x0A]) t = (t1, Inr u)" "token = ?new"
      using assms(2) by (auto simp: ensure_token_file_def Let_def split: prod.splits sum.splits)
    then obtain m where "t1 = t(p \<mapsto> File m (?new @ [CHR 0x0A]))" "m AND 0x3F = 0"
      using write_new_cases [OF u(1)] by (auto split: option.splits)
    moreover have "utf8_valid (ascii [CHR 0x0A])" by (simp add: ascii_def)
    ultimately show ?thesis
      using new u(2) letters_trim [OF new(1)] letters_utf8 [OF new(1)] by (auto simp: ascii_def)
  qed
  then show ?thesis using token_of_file by fastforce
qed

text \<open>A torn token file.  When the first writing of a token stops after some of its digits, this start fails; and if it
  stopped before the first digit, every later start fails, until the file is removed by hand; otherwise the
  later starts that read it take the digits that are there, as few as one, for the token.\<close>

theorem torn_token_is_taken:
  assumes "plain_hex fh" "t p = None" "in_dir t p" "\<not> refuses fh (CreateFile p)" "torn fh p = Some n"
    and "ensure_token_file fh p t = (t1, r)"
  shows "(\<exists>e. r = Inl e) \<and> (n = 0 \<longrightarrow> (\<forall>fh'. \<exists>e. ensure_token_file fh' p t1 = (t1, Inl e)))
    \<and> (n > 0 \<longrightarrow> (\<forall>fh'. \<not> refuses fh' (ReadFile p) \<longrightarrow>
         ensure_token_file fh' p t1 = (t1, Inr (take n (hex_text fh (token_bytes fh p))))))"
proof -
  let ?new = "hex_text fh (token_bytes fh p)"
  have new: "list_all is_letter ?new" "length ?new = 64" using assms(1) by (auto simp: plain_hex_def)
  then have part: "list_all is_letter (take n ?new)" by (auto simp: list_all_iff dest: in_set_takeD)
  obtain m where t1: "r = Inl ''write''" "t1 p = Some (File m (take n (?new @ [CHR 0x0A])))"
    using assms by (auto simp: ensure_token_file_def read_to_string_def write_new_def Let_def)
  have c: "utf8_valid (ascii (take n (?new @ [CHR 0x0A]))) \<and> trim (take n (?new @ [CHR 0x0A])) = take n ?new"
  proof (cases "n \<le> 64")
    case True
    then have "take n (?new @ [CHR 0x0A]) = take n ?new" using new(2) by simp
    then show ?thesis using letters_utf8 [OF part, of "[]"] letters_trim [OF part] by simp
  next
    case False
    then have "take n (?new @ [CHR 0x0A]) = ?new @ [CHR 0x0A]" "take n ?new = ?new" using new(2) by simp_all
    moreover have "utf8_valid (ascii (?new @ [CHR 0x0A]))"
      using letters_utf8 [OF new(1), of "ascii [CHR 0x0A]"] by (simp add: ascii_def)
    ultimately show ?thesis using letters_trim [OF new(1)] by metis
  qed
  have "ensure_token_file fh' p t1 =
      (t1, if take n ?new \<noteq> [] \<and> \<not> refuses fh' (ReadFile p) then Inr (take n ?new) else Inl ''creating file'')" for fh'
    using token_of_file [of t1 p m "take n (?new @ [CHR 0x0A])" fh', OF t1(2)] c by (simp only:)
  moreover have "?new \<noteq> []" using new(2) by auto
  ultimately show ?thesis using t1(1) by simp
qed

definition careful_host :: file_host where
  "careful_host = \<lparr>refuses = (\<lambda>_. False), torn = (\<lambda>_. None), umask = 0x12, token_bytes = (\<lambda>_. replicate 32 7),
     hex_text = (\<lambda>b. replicate (2 * length b) (CHR ''7''))\<rparr>"

lemma careful_host: "plain_hex careful_host" "plain_hex (careful_host\<lparr>torn := f\<rparr>)" "refuses careful_host c = False"
  by (simp_all add: plain_hex_def careful_host_def is_letter_def list_all_iff)

theorem token_survives_starts_witness:
  "\<exists>t1. ensure_token_file careful_host [''token''] Map.empty = (t1, Inr (replicate 64 (CHR ''7'')))
     \<and> ensure_token_file (careful_host\<lparr>token_bytes := (\<lambda>_. [])\<rparr>) [''token''] t1 = (t1, Inr (replicate 64 (CHR ''7'')))"
proof -
  obtain t1 where t1: "ensure_token_file careful_host [''token''] Map.empty = (t1, Inr (replicate 64 (CHR ''7'')))"
    by (simp add: ensure_token_file_def read_to_string_def write_new_def in_dir_def Let_def careful_host_def)
  from token_survives_starts [OF careful_host(1) t1] t1 show ?thesis by (simp add: careful_host(3))
qed

theorem torn_token_is_taken_witness:
  "\<exists>t1 e. ensure_token_file (careful_host\<lparr>torn := (\<lambda>_. Some 1)\<rparr>) [''token''] Map.empty = (t1, Inl e)
     \<and> ensure_token_file careful_host [''token''] t1 = (t1, Inr ''7'')"
proof -
  let ?fh = "careful_host\<lparr>torn := (\<lambda>_. Some 1)\<rparr>"
  obtain t1 r where t1: "ensure_token_file ?fh [''token''] Map.empty = (t1, r)" by fastforce
  from torn_token_is_taken [OF careful_host(2) _ _ _ _ t1, of 1]
  have "(\<exists>e. r = Inl e) \<and> ensure_token_file careful_host [''token''] t1 = (t1, Inr (take 1 (hex_text ?fh (token_bytes ?fh [''token'']))))"
    by (simp add: in_dir_def careful_host(3))
  then show ?thesis using t1 by (auto simp: careful_host_def)
qed

section \<open>Certificates stay\<close>

lemma write_taken: "t p \<noteq> None \<Longrightarrow> write_new fh p s t = (t, Inl ''creating file'')"
  by (simp add: write_new_def)

lemma write_other: "write_new fh p s t = (t1, r) \<Longrightarrow> q \<noteq> p \<Longrightarrow> t1 q = t q"
  using write_new_cases by fastforce

text \<open>Certificate files that are not all there are not made again: when one or two of the three files are missing, every
  start fails, whatever the host does and whatever names are asked for.\<close>

theorem partial_certificates_stay_broken:
  assumes "distinct [c, k, f]" "t c \<noteq> None \<or> t k \<noteq> None \<or> t f \<noteq> None" "\<not> (t c \<noteq> None \<and> t k \<noteq> None \<and> t f \<noteq> None)"
  shows "\<exists>t1 e. ensure_cert_files T fh c k f sans t = (t1, Inl e)"
proof (cases "generate_self_signed T sans")
  case (Inr x)
  obtain cert key fp where x: "x = (cert, key, fp)" by (cases x) auto
  obtain t1 r1 where t1: "write_new fh c cert t = (t1, r1)" by fastforce
  obtain t2 r2 where t2: "write_new fh k key t1 = (t2, r2)" by fastforce
  have "t1 k = t k" "t2 f = t f" using write_other [OF t1] write_other [OF t2] assms(1) by auto
  then have "(\<exists>e. r1 = Inl e) \<or> (\<exists>e. r2 = Inl e) \<or> t2 f \<noteq> None"
    using assms(2) write_taken [of t c fh cert] write_taken [of t1 k fh key] t1 t2 by (metis prod.inject)
  then show ?thesis
    using assms(3) Inr x t1 t2 write_taken [of t2 f fh "fp @ [CHR 0x0A]"]
    by (auto simp: ensure_cert_files_def split: sum.splits)
qed (use assms(3) in \<open>auto simp: ensure_cert_files_def\<close>)

text \<open>A stale fingerprint is served.  When of the three files only the fingerprint is there, say from a backup, the
  start fails, having written a new certificate and its key; and the next start serves the new certificate under the
  old fingerprint, which is not compared with it.\<close>

theorem stale_fingerprint_is_served:
  assumes "distinct [c, k, f]" "t c = None" "t k = None" "t f = Some (File m old)" "in_dir t c" "in_dir t k"
    and "generate_self_signed T sans = Inr (cert, key, fp)" "server_config T cert key = Inr config"
    and "utf8_valid (ascii cert)" "utf8_valid (ascii old)" "\<And>x. \<not> refuses fh x" "torn fh = (\<lambda>_. None)"
    and "ensure_cert_files T fh c k f sans t = (t1, r)"
  shows "(\<exists>e. r = Inl e) \<and> ensure_cert_files T fh c k f sans' t1 =
    (t1, Inr \<lparr>tm_config = config, tm_cert_pem = cert, tm_fingerprint = trim old, tm_generated = False\<rparr>)"
proof -
  obtain mc mk where t1: "r = Inl ''creating file''" "t1 = t(c \<mapsto> File mc cert, k \<mapsto> File mk key)"
  proof -
    have "in_dir (t(c \<mapsto> File n s)) k" for n s using assms(2,6) by (auto simp: in_dir_def is_dir_def)
    then show thesis
      using assms that by (auto simp: ensure_cert_files_def write_new_def Let_def split: if_splits)
  qed
  then show ?thesis
    using assms(1,4,8-12)
    by (auto simp: ensure_cert_files_def load_server_config_def read_to_string_def open_file_def result_simps)
qed

text \<open>A certificate is made once.  What a start that generated the certificate serves, every later start that can read
  the files serves again, whatever names it is asked for, with the same fingerprint.\<close>

theorem certificate_survives_starts:
  assumes "distinct [c, k, f]" "ensure_cert_files T fh c k f sans t = (t1, Inr material)" "tm_generated material"
    and "\<And>ss cert key d. self_signed T ss = Inr (cert, key, d) \<Longrightarrow> utf8_valid (ascii cert) \<and> list_all is_letter d"
    and "\<And>x. \<not> refuses fh' (ReadFile x)"
  shows "ensure_cert_files T fh' c k f sans' t1 = (t1, Inr (material\<lparr>tm_generated := False\<rparr>))"
proof -
  have n: "\<not> (t c \<noteq> None \<and> t k \<noteq> None \<and> t f \<noteq> None)"
  proof
    assume "t c \<noteq> None \<and> t k \<noteq> None \<and> t f \<noteq> None"
    then have "fst (t, material) = t" "\<not> tm_generated material"
      using assms(2) by (auto simp: ensure_cert_files_def bind_ok_eq_Inr)
    then show False using assms(3) by simp
  qed
  obtain cert key fp where g: "generate_self_signed T sans = Inr (cert, key, fp)"
    using assms(2) n by (cases "generate_self_signed T sans") (auto simp: ensure_cert_files_def)
  then obtain ss d where d: "self_signed T ss = Inr (cert, key, d)" "fp = ''sha256:'' @ d"
    by (auto simp: generate_self_signed_def result_simps split: prod.splits)
  then have fp: "list_all is_letter fp" "utf8_valid (ascii cert)" using assms(4) [OF d(1)] by (simp_all add: is_letter_def)
  have u: "utf8_valid (ascii (fp @ [CHR 0x0A]))" using letters_utf8 [OF fp(1), of "ascii [CHR 0x0A]"] by (simp add: ascii_def)
  obtain a b where ab: "write_new fh c cert t = (a, Inr ())" "write_new fh k key a = (b, Inr ())"
      "write_new fh f (fp @ [CHR 0x0A]) b = (t1, Inr ())"
      "load_server_config T fh c k t1 = Inr (tm_config material)" "tm_cert_pem material = cert" "tm_fingerprint material = fp"
    using assms(2) n g by (auto simp: ensure_cert_files_def result_simps split: prod.splits sum.splits)
  have "\<exists>m1 m2 m3. t1 = t(c \<mapsto> File m1 cert, k \<mapsto> File m2 key, f \<mapsto> File m3 (fp @ [CHR 0x0A]))"
    using write_new_cases [OF ab(1)] write_new_cases [OF ab(2)] write_new_cases [OF ab(3)]
    by (auto split: option.splits)
  then show ?thesis
    using ab(4-6) assms(1,5) fp(2) u letters_trim [OF fp(1)]
    by (auto simp: ensure_cert_files_def load_server_config_def read_to_string_def open_file_def result_simps
        split: if_splits intro!: tls_material.equality)
qed

text \<open>A TLS library that takes every certificate; its addresses are all names.\<close>

definition easy_tls :: "unit tls_lib" where
  "easy_tls = \<lparr>ip_of_text = (\<lambda>_. None), self_signed = (\<lambda>_. Inr (''cert'', ''key'', ''d'')), server_config = (\<lambda>_ _. Inr ())\<rparr>"

theorem partial_certificates_stay_broken_witness:
  "\<exists>t1 e. ensure_cert_files easy_tls careful_host [''c''] [''k''] [''f''] [] [[''k''] \<mapsto> File 0x180 ''key''] = (t1, Inl e)"
  by (rule partial_certificates_stay_broken) simp_all

theorem stale_fingerprint_is_served_witness:
  "\<exists>t1. ensure_cert_files easy_tls careful_host [''c''] [''k''] [''f''] [] t1 =
     (t1, Inr \<lparr>tm_config = (), tm_cert_pem = ''cert'', tm_fingerprint = ''old'', tm_generated = False\<rparr>)"
proof -
  let ?t = "[[''f''] \<mapsto> File 0x180 ''old'']"
  obtain t1 r where t1: "ensure_cert_files easy_tls careful_host [''c''] [''k''] [''f''] [] ?t = (t1, r)" by fastforce
  have "ensure_cert_files easy_tls careful_host [''c''] [''k''] [''f''] [] t1 =
     (t1, Inr \<lparr>tm_config = (), tm_cert_pem = ''cert'', tm_fingerprint = trim ''old'', tm_generated = False\<rparr>)"
    by (rule conjunct2 [OF stale_fingerprint_is_served [OF _ _ _ _ _ _ _ _ _ _ _ _ t1]])
       (simp_all add: in_dir_def generate_self_signed_def easy_tls_def careful_host_def ascii_def)
  moreover have "trim ''old'' = ''old''" by (simp add: trim_def is_space_def Let_def)
  ultimately show ?thesis by auto
qed

theorem certificate_survives_starts_witness:
  "\<exists>t1 material. ensure_cert_files easy_tls careful_host [''c''] [''k''] [''f''] [] Map.empty = (t1, Inr material)
     \<and> tm_generated material
     \<and> ensure_cert_files easy_tls careful_host [''c''] [''k''] [''f''] [''x''] t1 = (t1, Inr (material\<lparr>tm_generated := False\<rparr>))"
proof -
  obtain t1 material where t1: "ensure_cert_files easy_tls careful_host [''c''] [''k''] [''f''] [] Map.empty = (t1, Inr material)"
    "tm_generated material"
    by (auto simp: ensure_cert_files_def generate_self_signed_def write_new_def in_dir_def load_server_config_def open_file_def
        easy_tls_def careful_host_def)
  have "ensure_cert_files easy_tls careful_host [''c''] [''k''] [''f''] [''x''] t1 = (t1, Inr (material\<lparr>tm_generated := False\<rparr>))"
    by (rule certificate_survives_starts [OF _ t1]) (auto simp: easy_tls_def careful_host_def ascii_def is_letter_def)
  then show ?thesis using t1 by blast
qed

end
