(* ===== verification/Boot.thy ===== *)
theory Boot imports "HOL-Library.Sublist" HostFiles Server SwapMonitor Indexer Follower Allowance Inflight KeyringRuns begin

text \<open>
  The start of the daemon: its configuration (\<open>src/config.rs\<close>), the boot sequence (\<open>src/embed.rs\<close>) and the entry point of the
  binary (\<open>run\<close> of \<open>src/server.rs\<close>).  The sequence runs through the components in the order of the code; a step
  that fails ends it, but what was made and which tasks were spawned before stays.  The reading of the command line,
  HTTP, the socket and the databases are the libraries': parameters.
\<close>

section \<open>Configuration\<close>

record config =
  cf_datadir :: "path option"
  cf_bind :: "ip_addr \<times> u16"
  cf_allow_public_bind :: bool
  cf_tls :: bool
  cf_tls_cert :: "path option"
  cf_tls_key :: "path option"
  cf_tls_san :: "string list"
  cf_node_rpc :: string
  cf_broadcast_nodes :: "string list"
  cf_wallet_dir :: "path option"
  cf_auth_token_read :: "string option"
  cf_auth_token_manage :: "string option"
  cf_auth_token_spend :: "string option"
  cf_upstream_attempts :: u32
  cf_upstream_retry_backoff_ms :: u64
  cf_indexer_rpc :: "string option"
  cf_indexer_token :: "string option"
  cf_expect_genesis :: "string option"
  cf_swap_pool_url :: "string option"
  cf_bsc_chain_id :: u64
  cf_spend_cap_per_tx :: "u64 option"
  cf_spend_cap_per_period :: "u64 option"
  cf_spend_cap_period_secs :: u64
  cf_inflight_reconcile :: bool
  cf_lock_watchdog :: bool

definition resolved_datadir :: "path option \<Rightarrow> config \<Rightarrow> path" where
  "resolved_datadir home cfg =
     (case cf_datadir cfg of
        Some p \<Rightarrow> p
      | None \<Rightarrow> (case home of Some h \<Rightarrow> h @ [''.exfer-walletd''] | None \<Rightarrow> [''.exfer-walletd'']))"

definition or_else :: "'a option \<Rightarrow> 'a \<Rightarrow> 'a" where
  "or_else x y = (case x of Some z \<Rightarrow> z | None \<Rightarrow> y)"

definition resolved_wallet_dir :: "path option \<Rightarrow> config \<Rightarrow> path" where
  "resolved_wallet_dir home cfg = or_else (cf_wallet_dir cfg) (resolved_datadir home cfg @ [''wallets''])"

definition token_file :: "path option \<Rightarrow> config \<Rightarrow> scope \<Rightarrow> path" where
  "token_file home cfg sc = resolved_datadir home cfg @
     [case sc of Read \<Rightarrow> ''token-read'' | Manage \<Rightarrow> ''token-manage'' | Spend \<Rightarrow> ''token-spend'']"

definition resolved_tls_cert_path :: "path option \<Rightarrow> config \<Rightarrow> path" where
  "resolved_tls_cert_path home cfg = or_else (cf_tls_cert cfg) (resolved_datadir home cfg @ [''cert.pem''])"

definition resolved_tls_key_path :: "path option \<Rightarrow> config \<Rightarrow> path" where
  "resolved_tls_key_path home cfg = or_else (cf_tls_key cfg) (resolved_datadir home cfg @ [''cert.key''])"

definition tls_fingerprint_path :: "path option \<Rightarrow> config \<Rightarrow> path" where
  "tls_fingerprint_path home cfg = resolved_datadir home cfg @ [''cert.fingerprint'']"

definition allowance_caps_of :: "config \<Rightarrow> allowance_caps" where
  "allowance_caps_of cfg =
     \<lparr>per_tx = cf_spend_cap_per_tx cfg, per_period = cf_spend_cap_per_period cfg, period_secs = cf_spend_cap_period_secs cfg\<rparr>"

definition parse_lenient_bool :: "string \<Rightarrow> bool any" where
  "parse_lenient_bool s =
     (let t = lower (trim s) in
      if t \<in> {''1'', ''true'', ''yes'', ''on''} then Inr True
      else if t \<in> {''0'', ''false'', ''no'', ''off'', ''''} then Inr False
      else Inl (''expected 1/0, true/false, yes/no, or on/off - got '' @ t))"

section \<open>The boot sequence\<close>

datatype task =
    FollowBlocks bool | FollowEvents | MonitorSwaps | WatchLocks | WatchSignal | WatchShutdown | ServeTls | ServePlain

text \<open>What the process changes: files, the keystore, the domain its signatures are bound to, claims, and its tasks.\<close>

record boot =
  bt_tree :: tree
  bt_keys :: keystore
  bt_domain :: "bytes option"
  bt_claims :: claims
  bt_tasks :: "task list"

text \<open>What is outside: the environment, the libraries, and what the services and databases answer.\<close>

record 'c outside =
  ou_home :: "path option"
  ou_files :: file_host
  ou_kit :: kit
  ou_host :: host
  ou_tls :: "'c tls_lib"
  ou_ip_text :: "ip_addr \<Rightarrow> string"
  ou_hex :: "string \<Rightarrow> bytes option"
  ou_genesis :: "string list \<Rightarrow> string res"
  ou_rebind :: "bytes \<Rightarrow> bytes \<Rightarrow> bool"
  ou_index :: "unit any"
  ou_ledger_fails :: faults
  ou_ledger_disk :: spent_table
  ou_lookback :: "string option"
  ou_mempool :: "string \<Rightarrow> (string \<times> u32) list list option res"
  ou_decode :: "string \<Rightarrow> bytes res"
  ou_now :: nat
  ou_journal :: "swap_map any"
  ou_bnb_log :: "bnb_tx list any"
  ou_listen :: "ip_addr \<times> u16 \<Rightarrow> (ip_addr \<times> u16) any"

text \<open>The state behind the requests, and the handle of the caller.\<close>

record served =
  sv_tokens :: tokens
  sv_nodes :: "string list"
  sv_broadcast :: "string list"
  sv_retry :: retry_policy
  sv_lookback :: "u64 option"
  sv_ledger :: ledger
  sv_indexer :: "indexer option"
  sv_engine :: "engine option"
  sv_watch :: bool
  sv_bootstrap :: "(string \<times> string) option"

record handle =
  hd_local_addr :: "ip_addr \<times> u16"
  hd_fingerprint :: "string option"
  hd_tokens :: "string \<times> string \<times> string"
  hd_served :: served

type_synonym 'a boot_step = "boot \<Rightarrow> boot \<times> 'a any"

definition bret :: "'a \<Rightarrow> 'a boot_step" where "bret x = (\<lambda>b. (b, Inr x))"

definition bbind :: "'a boot_step \<Rightarrow> ('a \<Rightarrow> 'b boot_step) \<Rightarrow> 'b boot_step" where
  "bbind m f = (\<lambda>b. case m b of (b1, Inl e) \<Rightarrow> (b1, Inl e) | (b1, Inr x) \<Rightarrow> f x b1)"

definition bany :: "'a any \<Rightarrow> 'a boot_step" where "bany r = (\<lambda>b. (b, r))"

text \<open>An error of the wallet as the text of the boot's error.\<close>

definition text_of :: "'a res \<Rightarrow> 'a any" where
  "text_of r = (case r of Inl e \<Rightarrow> Inl ''error'' | Inr x \<Rightarrow> Inr x)"

definition on_files :: "(tree \<Rightarrow> tree \<times> 'a any) \<Rightarrow> 'a boot_step" where
  "on_files f = (\<lambda>b. case f (bt_tree b) of (t, r) \<Rightarrow> (b\<lparr>bt_tree := t\<rparr>, r))"

definition on_store :: "host \<Rightarrow> 'a kop \<Rightarrow> 'a boot_step" where
  "on_store h m = (\<lambda>b. case m h (bt_keys b) of (s, r) \<Rightarrow> (b\<lparr>bt_keys := s\<rparr>, text_of r))"

definition spawn :: "task \<Rightarrow> unit boot_step" where
  "spawn tk = (\<lambda>b. (b\<lparr>bt_tasks := bt_tasks b @ [tk]\<rparr>, Inr ()))"

subsection \<open>Directories, tokens, the store\<close>

definition token_for :: "'c outside \<Rightarrow> config \<Rightarrow> scope \<Rightarrow> string option \<Rightarrow> string boot_step" where
  "token_for ou cfg sc given =
     (case given of
        Some tok \<Rightarrow> bret tok
      | None \<Rightarrow> on_files (ensure_token_file (ou_files ou) (token_file (ou_home ou) cfg sc)))"

definition open_store :: "'c outside \<Rightarrow> bytes \<Rightarrow> unit boot_step" where
  "open_store ou pass =
     bbind (on_store (ou_host ou) (\<lambda>h s. open_keyring (ou_kit ou) pass h (cold s))) (\<lambda>_.
     bbind (on_store (ou_host ou) take_fresh_mnemonic) (\<lambda>_. bret ()))"

subsection \<open>The genesis\<close>

text \<open>\<open>bind_signature_domain\<close> of the crate refuses to bind a second, different id.\<close>

definition bind_domain :: "'c outside \<Rightarrow> bytes \<Rightarrow> unit boot_step" where
  "bind_domain ou x = (\<lambda>b. case bt_domain b of
      None \<Rightarrow> (b\<lparr>bt_domain := Some x\<rparr>, Inr ())
    | Some bound \<Rightarrow> if ou_rebind ou bound x then (b\<lparr>bt_domain := Some x\<rparr>, Inr ()) else (b, Inl ''signature domain already bound''))"

definition verify_genesis :: "'c outside \<Rightarrow> config \<Rightarrow> string list \<Rightarrow> unit boot_step" where
  "verify_genesis ou cfg nodes =
     (case cf_expect_genesis cfg of
        None \<Rightarrow> bret ()
      | Some given \<Rightarrow>
          let expected = lower (trim given) in
          bbind (bany (case ou_hex ou expected of None \<Rightarrow> Inl ''--expect-genesis is not hex'' | Some x \<Rightarrow> Inr x)) (\<lambda>x.
          bbind (bany (if length x = 32 then Inr () else Inl ''--expect-genesis must be 32 bytes'')) (\<lambda>_.
          bbind (bany (text_of (ou_genesis ou nodes))) (\<lambda>reported.
          bbind (bany (if lower reported \<noteq> expected then Inl ''node reports another genesis'' else Inr ())) (\<lambda>_.
          bind_domain ou x)))))"

subsection \<open>Services\<close>

definition make_indexer :: "config \<Rightarrow> indexer option boot_step" where
  "make_indexer cfg =
     (case cf_indexer_rpc cfg of
        None \<Rightarrow> bret None
      | Some urls \<Rightarrow> bbind (bany (text_of (indexer_new urls (cf_indexer_token cfg)))) (\<lambda>ix. bret (Some ix)))"

text \<open>The claims of the mempool; an error is only logged, an older node holds the locks back for a while.\<close>

definition reconcile :: "'c outside \<Rightarrow> config \<Rightarrow> unit boot_step" where
  "reconcile ou cfg =
     (if \<not> cf_inflight_reconcile cfg then bret ()
      else (\<lambda>b.
        case reconcile_from_mempool (Inr (map entry_address (entries_of (memory (bt_keys b))))) (ou_decode ou) (ou_mempool ou)
               (ou_now ou) (bt_claims b) of
          (cs, Inr (seeded, False)) \<Rightarrow> (b\<lparr>bt_claims := hold_locks_until (ou_now ou + lock_hold) cs\<rparr>, Inr ())
        | (cs, _) \<Rightarrow> (b\<lparr>bt_claims := cs\<rparr>, Inr ())))"

definition make_engine :: "'c outside \<Rightarrow> config \<Rightarrow> engine option boot_step" where
  "make_engine ou cfg =
     (case cf_swap_pool_url cfg of
        None \<Rightarrow> bret None
      | Some pool_url \<Rightarrow>
          bbind (bany (ou_journal ou)) (\<lambda>file.
          bbind (bany (ou_bnb_log ou)) (\<lambda>txs.
          bbind (spawn MonitorSwaps) (\<lambda>_. bret (Some (new_engine file txs 0 []))))))"

definition tls_files :: "'c outside \<Rightarrow> config \<Rightarrow> 'c tls_material option boot_step" where
  "tls_files ou cfg =
     (if \<not> cf_tls cfg then bret None
      else
        bbind (on_files (ensure_cert_files (ou_tls ou) (ou_files ou) (resolved_tls_cert_path (ou_home ou) cfg)
                 (resolved_tls_key_path (ou_home ou) cfg) (tls_fingerprint_path (ou_home ou) cfg)
                 (cf_tls_san cfg @ [ou_ip_text ou (fst (cf_bind cfg))])))
          (\<lambda>m. bret (Some m)))"

text \<open>The listener, and the task that serves it: with TLS there is a watcher of the shutdown beside it.\<close>

definition listen_and_serve :: "'c outside \<Rightarrow> config \<Rightarrow> bool \<Rightarrow> (ip_addr \<times> u16) boot_step" where
  "listen_and_serve ou cfg tls =
     bbind (bany (ou_listen ou (cf_bind cfg))) (\<lambda>addr.
     if tls then bbind (spawn WatchShutdown) (\<lambda>_. bbind (spawn ServeTls) (\<lambda>_. bret addr))
     else bbind (spawn ServePlain) (\<lambda>_. bret addr))"

subsection \<open>All of it\<close>

text \<open>Up to the ledger no task runs; what this part hands on are the tokens, the nodes and the ledger.\<close>

definition prepare :: "'c outside \<Rightarrow> config \<Rightarrow> bytes \<Rightarrow> ((string \<times> string \<times> string) \<times> string list \<times> ledger) boot_step" where
  "prepare ou cfg pass =
     (if pass = [] then bany (Inl ''passphrase must not be empty'')
      else
        bbind (on_files (ensure_dir (ou_files ou) (resolved_datadir (ou_home ou) cfg) 0x1C0)) (\<lambda>_.
        bbind (on_files (ensure_dir (ou_files ou) (resolved_wallet_dir (ou_home ou) cfg) 0x1C0)) (\<lambda>_.
        bbind (token_for ou cfg Read (cf_auth_token_read cfg)) (\<lambda>r.
        bbind (token_for ou cfg Manage (cf_auth_token_manage cfg)) (\<lambda>m.
        bbind (token_for ou cfg Spend (cf_auth_token_spend cfg)) (\<lambda>s.
        bbind (bany (text_of (check_bind_is_safe (fst (cf_bind cfg)) (from_config (Some r) (Some m) (Some s))
                 (cf_allow_public_bind cfg) (cf_tls cfg)))) (\<lambda>_.
        bbind (open_store ou pass) (\<lambda>_.
        bbind (bany (text_of (nodes_of (cf_node_rpc cfg)))) (\<lambda>nodes.
        bbind (verify_genesis ou cfg nodes) (\<lambda>_.
        bbind (bany (ou_index ou)) (\<lambda>_.
        bbind (bany (text_of (open_ledger (ou_ledger_fails ou) (ou_ledger_disk ou) (allowance_caps_of cfg)))) (\<lambda>l.
        bret ((r, m, s), nodes, l)))))))))))))"

text \<open>From the first task on.\<close>

definition start_services ::
    "'c outside \<Rightarrow> config \<Rightarrow> (string \<times> string \<times> string) \<times> string list \<times> ledger \<Rightarrow> handle boot_step" where
  "start_services ou cfg = (\<lambda>((r, m, s), nodes, l).
     bbind (spawn (FollowBlocks (cf_indexer_rpc cfg \<noteq> None))) (\<lambda>_.
     bbind (spawn FollowEvents) (\<lambda>_.
     bbind (make_indexer cfg) (\<lambda>ix.
     bbind (reconcile ou cfg) (\<lambda>_.
     bbind (make_engine ou cfg) (\<lambda>eng.
     bbind (if cf_lock_watchdog cfg then spawn WatchLocks else bret ()) (\<lambda>_.
     bbind (tls_files ou cfg) (\<lambda>material.
     bbind (listen_and_serve ou cfg (material \<noteq> None)) (\<lambda>addr.
     bret \<lparr>hd_local_addr = addr, hd_fingerprint = map_option tm_fingerprint material, hd_tokens = (r, m, s),
       hd_served = \<lparr>sv_tokens = from_config (Some r) (Some m) (Some s), sv_nodes = nodes,
         sv_broadcast = broadcast_node_urls (cf_node_rpc cfg) (cf_broadcast_nodes cfg),
         sv_retry = \<lparr>attempts = cf_upstream_attempts cfg, backoff_ms = cf_upstream_retry_backoff_ms cfg\<rparr>,
         sv_lookback = backfill_lookback_from_env (ou_lookback ou),
         sv_ledger = l, sv_indexer = ix, sv_engine = eng, sv_watch = cf_lock_watchdog cfg,
         sv_bootstrap = map_option (\<lambda>m. (tm_cert_pem m, tm_fingerprint m @ [CHR 0x0A])) material\<rparr>\<rparr>)))))))))"

definition run_embedded :: "'c outside \<Rightarrow> config \<Rightarrow> bytes \<Rightarrow> handle boot_step" where
  "run_embedded ou cfg pass = bbind (prepare ou cfg pass) (start_services ou cfg)"

text \<open>The daemon: the passphrase from the environment, and the signal handler before anything else.\<close>

definition run_daemon :: "'c outside \<Rightarrow> bytes option \<Rightarrow> config \<Rightarrow> handle boot_step" where
  "run_daemon ou env cfg =
     (let pass = (case env of Some p \<Rightarrow> p | None \<Rightarrow> []) in
      if pass = [] then bany (Inl ''WALLETD_KEYSTORE_PASSPHRASE is required.'')
      else bbind (spawn WatchSignal) (\<lambda>_. run_embedded ou cfg pass))"

section \<open>Requests\<close>

text \<open>The router (\<open>build_router\<close>, \<open>add_tls_bootstrap_routes\<close>): the calls, the health page, and with TLS the two public pages.\<close>

datatype 'v page = RpcReply "'v http_response" | TextPage string | NotFound | MethodNotAllowed

definition text_page :: "string \<Rightarrow> string \<Rightarrow> 'v page" where
  "text_page http_method body = (if http_method = ''GET'' \<or> http_method = ''HEAD'' then TextPage body else MethodNotAllowed)"

definition route ::
    "served \<Rightarrow> string option \<Rightarrow> (string \<Rightarrow> 'p \<Rightarrow> 'v res) \<Rightarrow> string \<Rightarrow> string \<Rightarrow> 'p raw_body \<Rightarrow> (string \<times> 'p) list \<times> 'v page" where
  "route sv header answer http_method target body =
     (if target = ''/'' then
        (if http_method = ''POST'' then
           (case rpc_handler (sv_tokens sv) header answer body of (called, reply) \<Rightarrow> (called, RpcReply reply))
         else ([], MethodNotAllowed))
      else if target = ''/healthz'' then ([], text_page http_method (''ok'' @ [CHR 0x0A]))
      else case sv_bootstrap sv of
        None \<Rightarrow> ([], NotFound)
      | Some (cert_pem, fingerprint_line) \<Rightarrow>
          if target = ''/exfer-walletd/cert.pem'' then ([], text_page http_method cert_pem)
          else if target = ''/exfer-walletd/cert.fingerprint'' then ([], text_page http_method fingerprint_line)
          else ([], NotFound))"

text \<open>The address in the audit log: the first hop of a header that anyone can send, or else the peer.\<close>

definition audit_client_ip :: "(string \<Rightarrow> ip_addr option) \<Rightarrow> string option \<Rightarrow> ip_addr \<Rightarrow> ip_addr" where
  "audit_client_ip parse forwarded peer =
     (case Option.bind (Option.bind forwarded header_to_str) (\<lambda>h. parse (trim (hd (split_at CHR '','' h)))) of
        Some ip \<Rightarrow> ip
      | None \<Rightarrow> peer)"

section \<open>Steps of the boot\<close>

definition bwp :: "'a boot_step \<Rightarrow> boot \<Rightarrow> (boot \<Rightarrow> 'a any \<Rightarrow> bool) \<Rightarrow> bool" where
  "bwp m b Q = (case m b of (b1, r) \<Rightarrow> Q b1 r)"

named_theorems bwp_simps \<open>evaluation of boot steps\<close>

lemma bwp_run: "bwp m b Q = Q (fst (m b)) (snd (m b))"
  by (simp add: bwp_def case_prod_beta)

lemma bwp_prim [bwp_simps]:
  "bwp (bret x) b Q = Q b (Inr x)" "bwp (bany r) b Q = Q b r"
  "bwp (spawn tk) b S = S (b\<lparr>bt_tasks := bt_tasks b @ [tk]\<rparr>) (Inr ())"
  by (simp_all add: bwp_def bret_def bany_def spawn_def)

lemma bwp_bind [bwp_simps]:
  "bwp (bbind m f) b Q = bwp m b (\<lambda>b1 r. case r of Inl e \<Rightarrow> Q b1 (Inl e) | Inr x \<Rightarrow> bwp (f x) b1 Q)"
  by (auto simp: bwp_def bbind_def split: prod.splits sum.splits)

lemma bwp_mono: "bwp m b P \<Longrightarrow> (\<And>b1 r. P b1 r \<Longrightarrow> Q b1 r) \<Longrightarrow> bwp m b Q"
  by (simp add: bwp_run)

text \<open>The parts of the state that a step leaves alone.\<close>

definition leaves :: "(boot \<Rightarrow> 'x) \<Rightarrow> 'a boot_step \<Rightarrow> bool" where
  "leaves g m \<longleftrightarrow> (\<forall>b. g (fst (m b)) = g b)"

named_theorems leaves_intros \<open>steps that leave a part of the state alone\<close>

lemma leaves_prim [leaves_intros]:
  "leaves g (bret x)" "leaves g (bany r)" "leaves bt_domain (spawn tk)" "leaves bt_tree (spawn tk)"
  "leaves bt_tasks (on_files f)" "leaves bt_domain (on_files f)"
  "leaves bt_tasks (on_store h m)" "leaves bt_domain (on_store h m)" "leaves bt_tree (on_store h m)"
  by (simp_all add: leaves_def bret_def bany_def spawn_def on_files_def on_store_def split: prod.split)

lemma leaves_bind [leaves_intros]: "leaves g m \<Longrightarrow> (\<And>x. leaves g (f x)) \<Longrightarrow> leaves g (bbind m f)"
  by (auto simp: leaves_def bbind_def split: prod.splits sum.splits) (metis fst_conv)+

lemma leaves_cases [leaves_intros]:
  "(c \<Longrightarrow> leaves g m) \<Longrightarrow> (\<not> c \<Longrightarrow> leaves g n) \<Longrightarrow> leaves g (if c then m else n)"
  "leaves g m' \<Longrightarrow> (\<And>y. leaves g (f y)) \<Longrightarrow> leaves g (case x of None \<Rightarrow> m' | Some y \<Rightarrow> f y)"
  "(\<And>a d. leaves g (p a d)) \<Longrightarrow> leaves g (case z of (a, d) \<Rightarrow> p a d)"
  by (simp_all split: option.split prod.split)

lemma leaves_reconcile [leaves_intros]:
  "leaves bt_tasks (reconcile ou cfg)" "leaves bt_domain (reconcile ou cfg)" "leaves bt_tree (reconcile ou cfg)"
  by (auto simp: leaves_def reconcile_def bret_def split: prod.splits sum.splits bool.splits)

lemma start_services_leaves_domain: "leaves bt_domain (start_services ou cfg x)"
proof -
  obtain r m s nodes l where "x = ((r, m, s), nodes, l)" by (cases x) auto
  then show ?thesis
    unfolding start_services_def make_indexer_def make_engine_def tls_files_def listen_and_serve_def
    by (simp only: prod.case) (intro leaves_intros)
qed

text \<open>What holds once a task runs: the passphrase, the address and the chain have been checked.\<close>

definition checked :: "'c outside \<Rightarrow> config \<Rightarrow> bytes \<Rightarrow> bytes option \<Rightarrow> bool" where
  "checked ou cfg pass bound \<longleftrightarrow> pass \<noteq> []
     \<and> (classify_bind (fst (cf_bind cfg)) \<noteq> Public \<or> cf_tls cfg \<or> cf_allow_public_bind cfg)
     \<and> (\<forall>g. cf_expect_genesis cfg = Some g \<longrightarrow> (\<exists>x nodes reported. ou_hex ou (lower (trim g)) = Some x \<and> length x = 32 \<and> bound = Some x
          \<and> ou_genesis ou nodes = Inr reported \<and> lower reported = lower (trim g)))"

lemma bbind_InrE:
  assumes "bbind m f b = (b1, Inr y)"
  obtains b2 x where "m b = (b2, Inr x)" "f x b2 = (b1, Inr y)"
  using assms by (auto simp: bbind_def split: prod.splits sum.splits)

lemma bany_Inr [simp]: "bany r b = (b1, Inr x) \<longleftrightarrow> r = Inr x \<and> b1 = b" "bret y b = (b1, Inr x) \<longleftrightarrow> y = x \<and> b1 = b"
  by (auto simp: bany_def bret_def)

lemma text_of_Inr [simp]: "text_of r = Inr x \<longleftrightarrow> r = Inr x"
  by (simp add: text_of_def split: sum.split)

lemma leaves_genesis [leaves_intros]: "leaves bt_tasks (verify_genesis ou cfg nodes)"
proof -
  have b: "leaves bt_tasks (bind_domain ou x)" for x
    by (simp add: leaves_def bind_domain_def split: option.split)
  show ?thesis unfolding verify_genesis_def Let_def by (intro leaves_intros b)
qed

lemma genesis_checked:
  assumes "verify_genesis ou cfg nodes b = (b1, Inr u)" "cf_expect_genesis cfg = Some g"
  shows "\<exists>x reported. ou_hex ou (lower (trim g)) = Some x \<and> length x = 32 \<and> bt_domain b1 = Some x
     \<and> ou_genesis ou nodes = Inr reported \<and> lower reported = lower (trim g)"
  using assms
  by (auto simp: verify_genesis_def Let_def bind_domain_def elim!: bbind_InrE split: option.splits if_splits)

lemma prepare_leaves_tasks: "leaves bt_tasks (prepare ou cfg pass)"
  unfolding prepare_def token_for_def open_store_def by (intro leaves_intros)

lemma prepare_checks:
  assumes "prepare ou cfg pass b = (b1, Inr x)"
  shows "checked ou cfg pass (bt_domain b1)"
proof -
  from assms obtain r m s nodes u b2 where
    "pass \<noteq> []" "check_bind_is_safe (fst (cf_bind cfg)) (from_config (Some r) (Some m) (Some s)) (cf_allow_public_bind cfg) (cf_tls cfg) = Inr u"
    "verify_genesis ou cfg nodes b2 = (b1, Inr u)"
    by (auto simp: prepare_def elim!: bbind_InrE split: if_splits)
  then show ?thesis by (fastforce simp: checked_def bind_check_exact any_set_def from_config_def dest: genesis_checked)
qed


lemma spawn_Inr [simp]: "spawn tk b = (b1, Inr u) \<longleftrightarrow> b1 = b\<lparr>bt_tasks := bt_tasks b @ [tk]\<rparr>"
  by (auto simp: spawn_def)

lemma stage_results:
  "make_indexer cfg b = (b1, Inr ix) \<Longrightarrow> b1 = b \<and> (ix \<noteq> None \<longleftrightarrow> cf_indexer_rpc cfg \<noteq> None)"
  "make_engine ou cfg b = (b1, Inr eng) \<Longrightarrow> (eng \<noteq> None \<longleftrightarrow> cf_swap_pool_url cfg \<noteq> None)
     \<and> bt_tasks b1 = bt_tasks b @ (if cf_swap_pool_url cfg \<noteq> None then [MonitorSwaps] else [])"
  "tls_files ou cfg b = (b1, Inr mt) \<Longrightarrow> bt_tasks b1 = bt_tasks b \<and> (mt \<noteq> None \<longleftrightarrow> cf_tls cfg)"
  "listen_and_serve ou cfg tls b = (b1, Inr addr) \<Longrightarrow> ou_listen ou (cf_bind cfg) = Inr addr
     \<and> bt_tasks b1 = bt_tasks b @ (if tls then [WatchShutdown, ServeTls] else [ServePlain])"
  by (auto simp: make_indexer_def make_engine_def tls_files_def listen_and_serve_def on_files_def
      elim!: bbind_InrE split: option.splits if_splits prod.splits)

lemma open_ledger_caps: "open_ledger fails disk c = Inr l \<Longrightarrow> caps l = c"
  by (auto simp: open_ledger_def result_simps)

text \<open>A boot that succeeds serves what is configured: the tokens of the caller are those the requests are checked
  against, the ledger has the configured caps, a fingerprint and the bootstrap routes are there exactly with TLS,
  the engine and its monitor exactly with a pool, and the tasks are those of the configuration and no others.\<close>

theorem boot_serves_configuration:
  assumes "run_embedded ou cfg pass b = (b1, Inr hdl)" "bt_tasks b = []"
  shows "(case hd_tokens hdl of (r, m, s) \<Rightarrow> sv_tokens (hd_served hdl) = from_config (Some r) (Some m) (Some s))
    \<and> caps (sv_ledger (hd_served hdl)) = allowance_caps_of cfg
    \<and> (hd_fingerprint hdl \<noteq> None \<longleftrightarrow> cf_tls cfg) \<and> (sv_bootstrap (hd_served hdl) \<noteq> None \<longleftrightarrow> cf_tls cfg)
    \<and> (sv_engine (hd_served hdl) \<noteq> None \<longleftrightarrow> cf_swap_pool_url cfg \<noteq> None)
    \<and> (sv_indexer (hd_served hdl) \<noteq> None \<longleftrightarrow> cf_indexer_rpc cfg \<noteq> None)
    \<and> ou_listen ou (cf_bind cfg) = Inr (hd_local_addr hdl)
    \<and> bt_tasks b1 = [FollowBlocks (cf_indexer_rpc cfg \<noteq> None), FollowEvents]
        @ (if cf_swap_pool_url cfg \<noteq> None then [MonitorSwaps] else []) @ (if cf_lock_watchdog cfg then [WatchLocks] else [])
        @ (if cf_tls cfg then [WatchShutdown, ServeTls] else [ServePlain])"
proof -
  from assms(1) obtain r m s nodes l b2 where
    p: "prepare ou cfg pass b = (b2, Inr ((r, m, s), nodes, l))" "start_services ou cfg ((r, m, s), nodes, l) b2 = (b1, Inr hdl)"
    by (auto simp: run_embedded_def elim!: bbind_InrE)
  have t: "bt_tasks b2 = []" using prepare_leaves_tasks [of ou cfg pass] assms(2) p(1) by (metis fst_conv leaves_def)
  have l: "caps l = allowance_caps_of cfg"
    using p(1) by (auto simp: prepare_def dest: open_ledger_caps elim!: bbind_InrE split: if_splits)
  let ?b3 = "b2\<lparr>bt_tasks := [FollowBlocks (cf_indexer_rpc cfg \<noteq> None), FollowEvents]\<rparr>"
  from p(2) t obtain ix b4 eng b5 b6 mt b7 addr where s: "make_indexer cfg ?b3 = (?b3, Inr ix)" "reconcile ou cfg ?b3 = (b4, Inr ())"
    "make_engine ou cfg b4 = (b5, Inr eng)"
    "b6 = b5\<lparr>bt_tasks := bt_tasks b5 @ (if cf_lock_watchdog cfg then [WatchLocks] else [])\<rparr>"
    "tls_files ou cfg b6 = (b7, Inr mt)" "listen_and_serve ou cfg (mt \<noteq> None) b7 = (b1, Inr addr)"
    "hdl = \<lparr>hd_local_addr = addr, hd_fingerprint = map_option tm_fingerprint mt, hd_tokens = (r, m, s),
       hd_served = \<lparr>sv_tokens = from_config (Some r) (Some m) (Some s), sv_nodes = nodes,
         sv_broadcast = broadcast_node_urls (cf_node_rpc cfg) (cf_broadcast_nodes cfg),
         sv_retry = \<lparr>attempts = cf_upstream_attempts cfg, backoff_ms = cf_upstream_retry_backoff_ms cfg\<rparr>,
         sv_lookback = backfill_lookback_from_env (ou_lookback ou),
         sv_ledger = l, sv_indexer = ix, sv_engine = eng, sv_watch = cf_lock_watchdog cfg,
         sv_bootstrap = map_option (\<lambda>m. (tm_cert_pem m, tm_fingerprint m @ [CHR 0x0A])) mt\<rparr>\<rparr>"
    by (force simp: start_services_def elim!: bbind_InrE split: if_splits dest: stage_results(1))
  have "bt_tasks b4 = bt_tasks ?b3" using leaves_reconcile(1) [of ou cfg] s(2) by (metis fst_conv leaves_def)
  then show ?thesis
    using s stage_results(1) [OF s(1)] stage_results(2) [OF s(3)] stage_results(3) [OF s(5)] stage_results(4) [OF s(6)] l
    by simp
qed


text \<open>Tasks are spawned and never ended by the boot.\<close>

definition grows :: "'a boot_step \<Rightarrow> bool" where
  "grows m \<longleftrightarrow> (\<forall>b. prefix (bt_tasks b) (bt_tasks (fst (m b))))"

lemma grows_steps: "leaves bt_tasks m \<Longrightarrow> grows m" "grows (spawn tk)"
  by (simp_all add: grows_def leaves_def spawn_def)

lemma grows_bind: "grows m \<Longrightarrow> (\<And>x. grows (f x)) \<Longrightarrow> grows (bbind m f)"
  unfolding grows_def bbind_def by (auto split: prod.splits sum.splits) (metis fst_conv prefix_order.trans)+

lemma grows_cases:
  "(c \<Longrightarrow> grows m) \<Longrightarrow> (\<not> c \<Longrightarrow> grows n) \<Longrightarrow> grows (if c then m else n)"
  "grows m' \<Longrightarrow> (\<And>y. grows (f y)) \<Longrightarrow> grows (case x of None \<Rightarrow> m' | Some y \<Rightarrow> f y)"
  by (simp_all split: option.split)

lemmas grows_intros = grows_bind grows_cases grows_steps(2) grows_steps(1) [OF leaves_prim(1)] grows_steps(1) [OF leaves_prim(2)]
  grows_steps(1) [OF leaves_prim(5)] grows_steps(1) [OF leaves_reconcile(1)]

text \<open>A boot that fails late leaves tasks behind.  Once the checks have passed, a boot that fails at the indexer, the
  journal, the certificate or the address has spawned the follower and the event client, which hold the store; it
  returns the error alone and no handle to wait for them with.\<close>

theorem failed_boot_leaves_tasks:
  assumes "prepare ou cfg pass b = (b2, Inr x)" "bt_tasks b = []" "run_embedded ou cfg pass b = (b1, Inl e)"
  shows "prefix [FollowBlocks (cf_indexer_rpc cfg \<noteq> None), FollowEvents] (bt_tasks b1)"
proof -
  obtain r m s nodes l where x: "x = ((r, m, s), nodes, l)" by (cases x) auto
  have t: "bt_tasks b2 = []" using prepare_leaves_tasks [of ou cfg pass] assms(1,2) by (metis fst_conv leaves_def)
  define rest where "rest = bbind (make_indexer cfg) (\<lambda>ix. bbind (reconcile ou cfg) (\<lambda>_. bbind (make_engine ou cfg) (\<lambda>eng.
     bbind (if cf_lock_watchdog cfg then spawn WatchLocks else bret ()) (\<lambda>_. bbind (tls_files ou cfg) (\<lambda>material.
     bbind (listen_and_serve ou cfg (material \<noteq> None)) (\<lambda>addr.
     bret \<lparr>hd_local_addr = addr, hd_fingerprint = map_option tm_fingerprint material, hd_tokens = (r, m, s),
       hd_served = \<lparr>sv_tokens = from_config (Some r) (Some m) (Some s), sv_nodes = nodes,
         sv_broadcast = broadcast_node_urls (cf_node_rpc cfg) (cf_broadcast_nodes cfg),
         sv_retry = \<lparr>attempts = cf_upstream_attempts cfg, backoff_ms = cf_upstream_retry_backoff_ms cfg\<rparr>,
         sv_lookback = backfill_lookback_from_env (ou_lookback ou),
         sv_ledger = l, sv_indexer = ix, sv_engine = eng, sv_watch = cf_lock_watchdog cfg,
         sv_bootstrap = map_option (\<lambda>m. (tm_cert_pem m, tm_fingerprint m @ [CHR 0x0A])) material\<rparr>\<rparr>))))))"
  have "grows rest"
    unfolding rest_def make_indexer_def make_engine_def tls_files_def listen_and_serve_def by (intro grows_intros)
  moreover have "start_services ou cfg x b2 = rest (b2\<lparr>bt_tasks := [FollowBlocks (cf_indexer_rpc cfg \<noteq> None), FollowEvents]\<rparr>)"
    by (simp add: start_services_def x rest_def bbind_def spawn_def t)
  moreover have "start_services ou cfg x b2 = (b1, Inl e)" using assms(1,3) by (simp add: run_embedded_def bbind_def)
  ultimately show ?thesis unfolding grows_def by (metis boot.select_convs(5) boot.update_convs(5) boot.surjective fst_conv)
qed

section \<open>Two boots\<close>

definition calm_outside :: "unit outside" where
  "calm_outside = \<lparr>ou_home = None, ou_files = careful_host, ou_kit = sample_kit, ou_host = quiet_host, ou_tls = easy_tls,
     ou_ip_text = (\<lambda>_. ''0''), ou_hex = (\<lambda>_. Some (replicate 32 1)), ou_genesis = (\<lambda>_. Inr ''ab''), ou_rebind = (\<lambda>_ _. False),
     ou_index = Inr (), ou_ledger_fails = no_faults, ou_ledger_disk = Map.empty, ou_lookback = None,
     ou_mempool = (\<lambda>_. Inr None), ou_decode = (\<lambda>_. Inr []), ou_now = 0, ou_journal = Inr [], ou_bnb_log = Inr [],
     ou_listen = Inr\<rparr>"

definition plain_config :: config where
  "plain_config = \<lparr>cf_datadir = Some [''d''], cf_bind = (V4 127 0 0 1, 7448), cf_allow_public_bind = False, cf_tls = False,
     cf_tls_cert = None, cf_tls_key = None, cf_tls_san = [], cf_node_rpc = ''n'', cf_broadcast_nodes = [], cf_wallet_dir = None,
     cf_auth_token_read = Some ''r'', cf_auth_token_manage = Some ''m'', cf_auth_token_spend = Some ''s'',
     cf_upstream_attempts = 4, cf_upstream_retry_backoff_ms = 500, cf_indexer_rpc = None, cf_indexer_token = None,
     cf_expect_genesis = Some ''ab'', cf_swap_pool_url = None, cf_bsc_chain_id = 56, cf_spend_cap_per_tx = None,
     cf_spend_cap_per_period = None, cf_spend_cap_period_secs = 86400, cf_inflight_reconcile = False, cf_lock_watchdog = True\<rparr>"

definition new_process :: boot where
  "new_process = \<lparr>bt_tree = Map.empty, bt_keys = empty_store [112], bt_domain = None, bt_claims = no_claims, bt_tasks = []\<rparr>"

lemma store_opens: "\<exists>s. open_keyring sample_kit [112] quiet_host (cold (empty_store [112])) = (s, Inr ())"
  by (simp add: open_keyring_def open_inner_def make_dirs_def load_or_default_def change_state_def verify_passphrase_def
      kbind_def kseq_def kget_def kret_def kmem_def kfs_def cold_def empty_store_def quiet_host_def default_state_def)

lemma dirs_made: "\<exists>t1 t2. ensure_dir careful_host [''d''] 0x1C0 Map.empty = (t1, Inr ())
    \<and> ensure_dir careful_host [''d'', ''wallets''] 0x1C0 t1 = (t2, Inr ())"
  by (simp add: ensure_dir_def build_dirs_def mkdir_def careful_host_def in_dir_def is_dir_def upt_conv_Cons numeral_2_eq_2)

lemma plain_prepared:
  "\<exists>b l. prepare calm_outside (plain_config\<lparr>cf_indexer_rpc := x\<rparr>) [112] new_process = (b, Inr ((''r'', ''m'', ''s''), [''n''], l))
     \<and> bt_tasks b = []"
proof -
  obtain s where s: "open_keyring sample_kit [112] quiet_host (cold (empty_store [112])) = (s, Inr ())" using store_opens by blast
  obtain t1 t2 where t: "ensure_dir careful_host [''d''] 0x1C0 Map.empty = (t1, Inr ())"
    "ensure_dir careful_host [''d'', ''wallets''] 0x1C0 t1 = (t2, Inr ())" using dirs_made by blast
  have n: "nodes_of ''n'' = Inr [''n'']" by (simp add: nodes_of_def trim_def is_space_def Let_def)
  have g: "lower (trim ''ab'') = ''ab''" "lower ''ab'' = ''ab''" by (simp_all add: lower_def trim_def is_space_def Let_def)
  have f: "\<exists>u. take_fresh_mnemonic quiet_host v = (u, Inr (fresh_mnemonic v))" for v
    by (simp add: take_fresh_mnemonic_def kbind_def kget_def kseq_def kmem_def kret_def)
  have c: "check_bind_is_safe (V4 127 0 0 1) toks False False = Inr ()" for toks by (simp add: check_bind_is_safe_def)
  obtain u where u: "take_fresh_mnemonic quiet_host s = (u, Inr (fresh_mnemonic s))" using f by blast
  show ?thesis
    by (simp add: prepare_def bbind_def on_files_def on_store_def open_store_def token_for_def calm_outside_def plain_config_def
        new_process_def resolved_datadir_def resolved_wallet_dir_def or_else_def s t u n g c text_of_def bany_def bret_def
        verify_genesis_def bind_domain_def open_ledger_def allowance_caps_of_def validate_def db_call_def no_faults_def)
qed

theorem failed_boot_leaves_tasks_witness:
  "\<exists>b1 e. run_embedded calm_outside (plain_config\<lparr>cf_indexer_rpc := Some '',''\<rparr>) [112] new_process = (b1, Inl e)
     \<and> prefix [FollowBlocks True, FollowEvents] (bt_tasks b1)"
proof -
  let ?cfg = "plain_config\<lparr>cf_indexer_rpc := Some '',''\<rparr>"
  obtain b l where p: "prepare calm_outside ?cfg [112] new_process = (b, Inr ((''r'', ''m'', ''s''), [''n''], l))"
    using plain_prepared by blast
  have "indexer_new '','' None = Inl (Internal ''indexer_rpc: at least one URL required'')"
    by (simp add: indexer_new_def trim_def)
  then have "\<exists>b1 e. start_services calm_outside ?cfg ((''r'', ''m'', ''s''), [''n''], l) b = (b1, Inl e)"
    by (simp add: bbind_def start_services_def spawn_def make_indexer_def plain_config_def text_of_def bany_def)
  then have "\<exists>b1 e. run_embedded calm_outside ?cfg [112] new_process = (b1, Inl e)"
    by (simp add: run_embedded_def bbind_def p)
  then obtain b1 e where f: "run_embedded calm_outside ?cfg [112] new_process = (b1, Inl e)" by blast
  have "bt_tasks new_process = []" by (simp add: new_process_def)
  from failed_boot_leaves_tasks [OF p this f] f show ?thesis by auto
qed

lemma plain_boot: "\<exists>b1 hdl. run_embedded calm_outside plain_config [112] new_process = (b1, Inr hdl)"
proof -
  have "plain_config\<lparr>cf_indexer_rpc := None\<rparr> = plain_config" by (simp add: plain_config_def)
  then obtain b l where p: "prepare calm_outside plain_config [112] new_process = (b, Inr ((''r'', ''m'', ''s''), [''n''], l))"
    using plain_prepared [of None] by auto
  have "\<exists>b1 hdl. start_services calm_outside plain_config ((''r'', ''m'', ''s''), [''n''], l) b = (b1, Inr hdl)"
    by (simp add: bbind_def start_services_def spawn_def make_indexer_def plain_config_def bany_def bret_def reconcile_def
        make_engine_def tls_files_def listen_and_serve_def calm_outside_def)
  then show ?thesis by (simp add: run_embedded_def bbind_def p)
qed


theorem boot_serves_configuration_witness:
  "\<exists>b1 hdl. run_embedded calm_outside plain_config [112] new_process = (b1, Inr hdl) \<and> hd_fingerprint hdl = None
     \<and> bt_tasks b1 = [FollowBlocks False, FollowEvents, WatchLocks, ServePlain]"
proof -
  obtain b1 hdl where r: "run_embedded calm_outside plain_config [112] new_process = (b1, Inr hdl)" using plain_boot by blast
  have n: "bt_tasks new_process = []" by (simp add: new_process_def)
  from boot_serves_configuration [OF r n] r show ?thesis by (auto simp: plain_config_def)
qed

definition ping_page :: "served \<Rightarrow> (string \<times> unit) list \<times> unit page" where
  "ping_page sv = route sv (Some ''Bearer r'') (\<lambda>_ _. Inr ()) ''POST'' ''/''
     (Single (Envelope \<lparr>jsonrpc = ''2.0'', rpc_method = ''ping'', params = (), raw_id = None\<rparr>))"


end
