(* ===== verification/Spec2Isabelle.thy ===== *)
theory Spec2Isabelle imports Allowance Idempotency Server PaymentUri TxBuild SwapTurns TxHtlc Evm Upstream KeyringVault ApiFingerprint QuoteRules TxDecode ApiForms EventRules ApiSwapRules Indexer ApiSim Commands FollowRun Boot begin

text \<open>
  Verification of the wallet daemon \<open>exfer-walletd\<close>.

  \<^bold>\<open>The program.\<close>  The daemon holds keys, builds and signs transactions of the EXFER chain, swaps
  EXFER against assets on BSC through hash-time-locked contracts, watches those contracts, and serves
  all of it over JSON-RPC.  A request enters at the front end (\<open>Server\<close>), which authenticates it
  (\<open>Auth\<close>) and calls the method.  A method that spends reserves its worst case in the allowance
  ledger (\<open>Allowance\<close>), may be remembered under an idempotency key (\<open>Idempotency\<close>), selects coins
  that no other payment has claimed (\<open>Inflight\<close>, \<open>TxBuild\<close>), signs with a key of the keystore
  (\<open>Sealed\<close>, \<open>Keyring\<close>) and broadcasts through the node client (\<open>Upstream\<close>).  A lock is
  then watched until it confirms (\<open>LockWatch\<close>) and followed through the blocks (\<open>Follower\<close>) into
  an index (\<open>HtlcIndex\<close>) that the observability methods read (\<open>HtlcApi\<close>); what the wallet has no index
  for is asked of an indexer (\<open>Indexer\<close>), and the node's event stream (\<open>EventStream\<close>) wakes those who wait.
  The swap engine joins the two chains (\<open>SwapBase\<close> and the theories after it, \<open>Evm\<close> for the BSC side) with
  a pool (\<open>PoolClient\<close>).  \<open>Boot\<close> sets all of this up in the order of the code and routes the requests.

  \<^bold>\<open>Theories and sources.\<close>  Definitions keep the names of the Rust functions.
  \<^item> \<open>Prelude\<close>: machine integers as words, checked and saturating arithmetic, big-endian byte strings, ordered
    tables, ASCII text.  \<open>Errors\<close>: \<open>src/error.rs\<close>.  \<open>Json\<close>: JSON values.
  \<^item> \<open>Allowance\<close>: \<open>src/allowance.rs\<close>, the budget ledger with its persistence and the rolling window; its
    abstract specification is a list of reservations.
  \<^item> \<open>Idempotency\<close>: \<open>src/idempotency.rs\<close>, the single-flight cache, with its calls as steps of a machine.
  \<^item> \<open>Inflight\<close>: \<open>src/inflight.rs\<close>, the claims on unspent outputs and the pending transfers.
  \<^item> \<open>Auth\<close>, \<open>Server\<close>: \<open>src/auth.rs\<close>, \<open>src/server.rs\<close> and the method table of \<open>src/api/mod.rs\<close>.
  \<^item> \<open>PaymentUri\<close>: \<open>src/payment_uri.rs\<close>, encoder, decoder and the decimal amounts.
  \<^item> \<open>Chain\<close>: the interface to the node and to the \<open>exfer\<close> crate.  \<open>TxBuild\<close>: \<open>src/tx/mod.rs\<close>.
    \<open>TxHtlc\<close>: \<open>src/tx/htlc.rs\<close>.  \<open>LockWatch\<close>: \<open>src/lock_watch.rs\<close>.
  \<^item> \<open>SwapBase\<close>, \<open>SwapLock\<close>, \<open>SwapSettle\<close>, \<open>SwapBnb\<close>, \<open>SwapMonitor\<close>: \<open>src/swap.rs\<close>, the
    records, the two halves of a swap, withdrawals, and the background work.  \<open>SwapSafety\<close>,
    \<open>SwapGates\<close>, \<open>SwapFrame\<close> and \<open>SwapTurns\<close> hold the invariant and what follows from it;
    \<open>SwapSample\<close> is a concrete world with two swaps run through it.
  \<^item> \<open>HtlcIndex\<close>: \<open>src/index.rs\<close>.  \<open>HtlcApi\<close>: \<open>src/api/htlc.rs\<close>.  \<open>Follower\<close>: \<open>src/follower.rs\<close>, the tick;
    \<open>FollowRun\<close>: its loop, and that it catches up after any failures.
  \<^item> \<open>Evm\<close>: \<open>src/evm.rs\<close>.  \<open>Upstream\<close>: \<open>src/upstream/mod.rs\<close>.
  \<^item> \<open>Sealed\<close>: \<open>src/store/sealed.rs\<close>.  \<open>Keyring\<close>: \<open>src/store/keyring.rs\<close> and \<open>src/store/mod.rs\<close>.
    \<open>KeyringSafe\<close> has the invariant of the store and a calculus of postconditions for its
    operations, \<open>KeyringRuns\<close> and \<open>KeyringVault\<close> the properties, \<open>KeyringSample\<close> concrete libraries.
  \<^item> \<open>ApiSpend\<close>: the spending methods of \<open>src/api/mod.rs\<close> and \<open>src/api/htlc.rs\<close>, composed of ledger, cache, engine and
    watch; \<open>ApiRuns\<close>: what holds over any sequence of them; \<open>ApiFingerprint\<close>: the fingerprint of a payment.
  \<^item> \<open>ApiWallet\<close>, \<open>ApiWalletRules\<close>: balances, history, addresses and keys of \<open>src/api/mod.rs\<close>; \<open>ApiForms\<close>: its checks of
    addresses and amounts and the remaining methods; \<open>HexSample\<close>: a concrete hexadecimal code.
  \<^item> \<open>Quote\<close>, \<open>QuoteRules\<close>: \<open>src/api/quote.rs\<close>.  \<open>TxDecode\<close>: \<open>src/tx/decode.rs\<close>.  \<open>ApiSim\<close>: \<open>src/api/simulate.rs\<close>,
    \<open>src/api/signmsg.rs\<close> and \<open>src/api/payment_uri.rs\<close>, with the dry run compared to the transfer.
  \<^item> \<open>PoolClient\<close>: the requests to the pool of \<open>src/swap.rs\<close>.  \<open>ApiSwap\<close>, \<open>ApiSwapRules\<close>: \<open>src/api/swap.rs\<close>.
  \<^item> \<open>Indexer\<close>: \<open>src/indexer.rs\<close> and the methods that delegate to it.  \<open>EventStream\<close>, \<open>EventRules\<close>:
    \<open>src/sse_client.rs\<close>, the parser of the stream as a machine over chunks, the subscriptions and the reconnects.
  \<^item> \<open>HostFiles\<close>: the token and directory set-up of \<open>src/server.rs\<close>, and \<open>src/tls.rs\<close>.  \<open>Boot\<close>: \<open>src/config.rs\<close>,
    \<open>src/embed.rs\<close>, the routes and the entry point of \<open>src/server.rs\<close>.  \<open>Commands\<close>: \<open>src/main.rs\<close>.

  \<^bold>\<open>What the properties show.\<close>  Money: no window of the ledger is overspent whatever calls are made, a retry
  spends nothing, built transactions conserve value and claims of coins never overlap.  Swaps: secrets and locks leave
  the daemon only after their gates in every reachable state, and the journal survives a restart.  Keys: listed
  addresses keep their keys under any storage failures, and a wrong passphrase is refused.  Observation: lookups and pages are
  exact, an interrupted block replays, the follower catches up, the stream is read exactly however it is cut.
  Requests: what runs carries a token of the boot, and no task runs before the checks.  Calls to the outside end
  within their attempts.  Theorems that are not among the listed properties (round trips of the payment link, the
  faults that the modelling found, and others) are kept as lemmas of their theories.

  \<^bold>\<open>State, effects and errors.\<close>  A Rust struct is a record, an enum a datatype, an integer of \<open>w\<close> bits a
  word of \<open>w\<close> bits, an error a constructor of \<open>error\<close>, and a fallible function returns \<open>error + 'a\<close>.
  A function that changes state takes the state and returns it.  What the daemon asks of the outside
  world (node, BSC endpoint, pool, file system, clock, random source) is an argument: where the same
  question may be answered differently each time, the answers are functions of the number of the
  call, and the calls made are recorded in a trace.  A call that fails is one of the answers.

  \<^bold>\<open>Interleaving and crashes.\<close>  Each component keeps its state under a lock, and its operations are
  atomic steps of it.  The swap engine is a machine whose steps are the calls of its methods and
  the passes of its monitor; anything may happen between two steps.  Inside a step the engine
  writes its journal where the code does, and a write may fail.  A crash of the keystore is a storage
  failure followed by a restart that reads the files back.

  \<^bold>\<open>Bounds and fuel.\<close>  Recursion is structural, or decreases a measure that is proved.  Where the code
  loops over the outside world, the model runs over the list of answers or of attempts that the
  code bounds: the node client sweeps its list of nodes a fixed number of times and
  the range of a log query is halved until it is one block.

  \<^bold>\<open>Parameters.\<close>  Hashes, signatures, key derivation, authenticated encryption, the script codec and the wire
  decoding of the \<open>exfer\<close> crate, HTTP and TLS are not under \<open>src/\<close>.  They are parameters, with what the
  code relies on as hypotheses (a cipher opens what it sealed, a decoder reads what its encoder
  wrote); each such property has a witness that instantiates them with computable functions.
  Trimming and case-folding are those of ASCII text, and an operation of the embedded database either fails
  or does all of what it says.

  \<^bold>\<open>Not modelled.\<close>  \<open>src/lib.rs\<close> only declares modules; tests and examples are not part of the daemon.  Of the modelled files
  these parts are left out: the texts of log lines and of most error messages, the parsing of the command line by
  \<open>clap\<close> (the options are a record), the settings of the HTTP clients (time limits and certificates), the
  generation of X.509 certificates and the TLS handshake, the scheduling of the tasks and the waiting for them at
  shutdown, and the lengths of the pauses where nothing depends on them.
\<close>

end
